(* ===== verification/Prelude.thy ===== *)
theory Prelude
  imports Main "HOL-Library.Word"
begin

text \<open>
  What every component theory of the library shares: the reading of Rust's
  \<open>Result\<close> as a sum, of checked and saturating machine arithmetic as operations on
  words, the theorem collections the component proofs pass to the simplifier, and the
  locales of a state machine that is driven by a sequence of calls.  The locales are
  interpreted in the theories of the components, on the code's own operations.
\<close>

section \<open>Theorem collections\<close>

named_theorems result_simps \<open>equations that decide how a fallible computation ended\<close>
named_theorems arith_bounds \<open>bounds of machine-integer operations\<close>

section \<open>Fallible computations\<close>

text \<open>
  \<open>Result<T, E>\<close> is the sum \<open>'e + 't\<close>; \<open>?\<close> on a result is \<open>and_then\<close>, and a
  guard that returns early is \<open>ensure\<close>.
\<close>

abbreviation Ok :: "'a \<Rightarrow> 'e + 'a" where
  "Ok \<equiv> Inr"

abbreviation Err :: "'e \<Rightarrow> 'e + 'a" where
  "Err \<equiv> Inl"

definition and_then :: "'e + 'a \<Rightarrow> ('a \<Rightarrow> 'e + 'b) \<Rightarrow> 'e + 'b" where
  "and_then r k = (case r of Err e \<Rightarrow> Err e | Ok a \<Rightarrow> k a)"

definition ensure :: "bool \<Rightarrow> 'e \<Rightarrow> 'e + unit" where
  "ensure c e = (if c then Ok () else Err e)"

definition ok_or :: "'a option \<Rightarrow> 'e \<Rightarrow> 'e + 'a" where
  "ok_or x e = (case x of None \<Rightarrow> Err e | Some a \<Rightarrow> Ok a)"

definition is_ok :: "'e + 'a \<Rightarrow> bool" where
  "is_ok r = (case r of Err _ \<Rightarrow> False | Ok _ \<Rightarrow> True)"

lemma and_then_simps [simp]:
  "and_then (Ok a) k = k a"
  "and_then (Err e) k = Err e"
  by (simp_all add: and_then_def)

lemma and_then_Ok [result_simps]:
  "and_then r k = Ok b \<longleftrightarrow> (\<exists>a. r = Ok a \<and> k a = Ok b)"
  by (simp add: and_then_def split: sum.splits)

lemma and_then_Err [result_simps]:
  "and_then r k = Err e \<longleftrightarrow> r = Err e \<or> (\<exists>a. r = Ok a \<and> k a = Err e)"
  by (auto simp: and_then_def split: sum.splits)

lemma ensure_Ok [result_simps]: "ensure c e = Ok u \<longleftrightarrow> c"
  by (simp add: ensure_def)

lemma ensure_Err [result_simps]: "ensure c e = Err e' \<longleftrightarrow> \<not> c \<and> e' = e"
  by (auto simp: ensure_def)

lemma ensure_True [simp]: "ensure True e = Ok ()"
  by (simp add: ensure_def)

lemma ensure_False [simp]: "ensure False e = Err e"
  by (simp add: ensure_def)

lemma ok_or_Ok [result_simps]: "ok_or x e = Ok a \<longleftrightarrow> x = Some a"
  by (auto simp: ok_or_def split: option.splits)

lemma ok_or_Err [result_simps]: "ok_or x e = Err e' \<longleftrightarrow> x = None \<and> e' = e"
  by (auto simp: ok_or_def split: option.splits)

lemma ok_or_simps [simp]:
  "ok_or (Some a) e = Ok a"
  "ok_or None e = Err e"
  by (simp_all add: ok_or_def)

lemma is_ok_simps [simp]:
  "is_ok (Ok a)"
  "\<not> is_ok (Err e)"
  by (simp_all add: is_ok_def)

lemma is_ok_iff: "is_ok r \<longleftrightarrow> (\<exists>a. r = Ok a)"
  by (cases r) auto

section \<open>Options\<close>

text \<open>\<open>?\<close> or \<open>and_then\<close> on an option, and \<open>filter\<close>.\<close>

definition opt_then :: "'a option \<Rightarrow> ('a \<Rightarrow> 'b option) \<Rightarrow> 'b option" where
  "opt_then x f = (case x of None \<Rightarrow> None | Some a \<Rightarrow> f a)"

definition opt_filter :: "('a \<Rightarrow> bool) \<Rightarrow> 'a option \<Rightarrow> 'a option" where
  "opt_filter P x = (case x of None \<Rightarrow> None | Some a \<Rightarrow> if P a then Some a else None)"

lemma opt_then_Some [simp]: "opt_then x f = Some b \<longleftrightarrow> (\<exists>a. x = Some a \<and> f a = Some b)"
  by (auto simp: opt_then_def split: option.splits)

lemma opt_then_simps [simp]: "opt_then (Some a) f = f a" "opt_then None f = None"
  by (simp_all add: opt_then_def)

lemma opt_filter_Some [simp]: "opt_filter P x = Some a \<longleftrightarrow> x = Some a \<and> P a"
  by (auto simp: opt_filter_def split: option.splits)

lemma opt_filter_simps [simp]:
  "opt_filter P (Some a) = (if P a then Some a else None)" "opt_filter P None = None"
  by (simp_all add: opt_filter_def)

lemma find_SomeD: "find P xs = Some x \<Longrightarrow> x \<in> set xs \<and> P x"
  by (induction xs) (auto split: if_splits)

text \<open>\<open>into_iter().next()\<close>\<close>

definition list_next :: "'a list \<Rightarrow> 'a option" where
  "list_next xs = (case xs of [] \<Rightarrow> None | x # _ \<Rightarrow> Some x)"

lemma list_next_Some: "list_next xs = Some x \<Longrightarrow> x \<in> set xs"
  by (auto simp: list_next_def split: list.splits)

text \<open>\<open>find_map\<close> of an iterator\<close>

fun find_map :: "('a \<Rightarrow> 'b option) \<Rightarrow> 'a list \<Rightarrow> 'b option" where
  "find_map f [] = None"
| "find_map f (x # xs) = (case f x of None \<Rightarrow> find_map f xs | Some y \<Rightarrow> Some y)"

section \<open>Positions\<close>

text \<open>\<open>position\<close> of an iterator: where the first element with the property stands.\<close>

fun position :: "('a \<Rightarrow> bool) \<Rightarrow> 'a list \<Rightarrow> nat option" where
  "position P [] = None"
| "position P (x # xs) = (if P x then Some 0 else map_option Suc (position P xs))"

lemma position_Some: "position P xs = Some i \<Longrightarrow> i < length xs \<and> P (xs ! i)"
  by (induction xs arbitrary: i) (auto split: if_splits)

lemma position_None: "position P xs = None \<longleftrightarrow> list_all (\<lambda>x. \<not> P x) xs"
  by (induction xs) auto

section \<open>Machine integers\<close>

type_synonym u8 = "8 word"
type_synonym u32 = "32 word"
type_synonym u64 = "64 word"
type_synonym u128 = "128 word"

text \<open>\<open>checked_add(1)\<close>, \<open>saturating_sub\<close> and \<open>saturating_add\<close> of the standard library.\<close>

definition checked_inc :: "'w::len word \<Rightarrow> 'w word option" where
  "checked_inc w = (if w = - 1 then None else Some (w + 1))"

definition sat_sub :: "'w::len word \<Rightarrow> 'w word \<Rightarrow> 'w word" where
  "sat_sub a b = (if a < b then 0 else a - b)"

definition sat_add :: "'w::len word \<Rightarrow> 'w word \<Rightarrow> 'w word" where
  "sat_add a b = (if a + b < a then - 1 else a + b)"

lemma checked_inc_unat [arith_bounds]:
  assumes "checked_inc w = Some v"
  shows "unat v = Suc (unat w)"
proof -
  from assms have "w \<noteq> - 1" and v: "v = w + 1"
    by (auto simp: checked_inc_def split: if_splits)
  then have "1 + w \<noteq> 0"
    by (metis add.commute add_eq_0_iff)
  then show ?thesis
    unfolding v by (simp add: unatSuc add.commute [of w])
qed

lemma checked_inc_None [result_simps]: "checked_inc w = None \<longleftrightarrow> w = - 1"
  by (simp add: checked_inc_def)

lemma sat_sub_unat [arith_bounds]: "unat (sat_sub a b) = unat a - unat b"
proof (cases "a < b")
  case True
  then have "unat a < unat b" by (simp add: word_less_nat_alt)
  with True show ?thesis by (simp add: sat_sub_def)
next
  case False
  then have "b \<le> a" by simp
  then show ?thesis
    using False by (simp add: sat_sub_def unat_sub)
qed

section \<open>Machines driven by calls\<close>

text \<open>
  A component with \<open>&mut self\<close> operations is a function \<open>after\<close> from a state and a call to the
  state the call leaves behind, whether it succeeded or was refused.  A run is the
  fold of \<open>after\<close> over the calls.
\<close>

definition run :: "('s \<Rightarrow> 'c \<Rightarrow> 's) \<Rightarrow> 's \<Rightarrow> 'c list \<Rightarrow> 's" where
  "run after s cs = foldl after s cs"

lemma run_simps [simp]:
  "run after s [] = s"
  "run after s (c # cs) = run after (after s c) cs"
  by (simp_all add: run_def)

lemma run_append: "run after s (cs @ ds) = run after (run after s cs) ds"
  by (simp add: run_def)

text \<open>The contract every such component offers: its operations keep its invariant.\<close>

locale machine =
  fixes after :: "'s \<Rightarrow> 'c \<Rightarrow> 's"
    and inv :: "'s \<Rightarrow> bool"
  assumes inv_after: "inv s \<Longrightarrow> inv (after s c)"
begin

lemma inv_run: "inv s \<Longrightarrow> inv (run after s cs)"
  by (induction cs arbitrary: s) (auto intro: inv_after)

end

text \<open>A machine with a fact that, once true, no call takes back.\<close>

locale latched_machine = machine +
  fixes latch :: "'s \<Rightarrow> bool"
  assumes latch_after: "inv s \<Longrightarrow> latch s \<Longrightarrow> latch (after s c)"
begin

lemma latch_run: "inv s \<Longrightarrow> latch s \<Longrightarrow> latch (run after s cs)"
  by (induction cs arbitrary: s) (auto intro: inv_after latch_after)

lemma latch_prefix:
  "inv s \<Longrightarrow> \<not> latch (run after s (cs @ ds)) \<Longrightarrow> \<not> latch (run after s cs)"
  unfolding run_append using inv_run latch_run by blast

end

text \<open>A machine with a measure of progress that no call lowers.\<close>

locale ranked_machine = machine +
  fixes rank :: "'s \<Rightarrow> nat"
  assumes rank_after: "inv s \<Longrightarrow> rank s \<le> rank (after s c)"
begin

lemma rank_run: "inv s \<Longrightarrow> rank s \<le> rank (run after s cs)"
proof (induction cs arbitrary: s)
  case (Cons c cs)
  have "rank s \<le> rank (after s c)"
    using Cons.prems by (rule rank_after)
  also have "\<dots> \<le> rank (run after (after s c) cs)"
    using Cons.prems by (intro Cons.IH inv_after)
  finally show ?case by simp
qed simp

sublocale passed: latched_machine "after" inv "\<lambda>s. n \<le> rank s" for n
  by unfold_locales (meson le_trans rank_after)

end

end
