(* ===== verification/Rust_Text.thy ===== *)
theory Rust_Text
  imports Prelude
begin

text \<open>
  Rust strings.  A \<open>char\<close> is a Unicode scalar value, a \<open>str\<close> or \<open>String\<close> the list of
  its characters; \<open>len()\<close>, which counts UTF-8 bytes, is \<open>byte_len\<close>.  The operations are the ones the
  modelled code calls.  Where the code takes a byte offset from \<open>find\<close> and
  cuts at it, the model counts characters: the offsets name the same character boundary and
  compare the same way.
\<close>

type_synonym uchar = int
type_synonym ustr = "uchar list"

text \<open>A literal whose characters are all ASCII.\<close>

definition lit :: "string \<Rightarrow> ustr" where
  "lit s = map of_char s"

section \<open>Characters\<close>

definition is_whitespace :: "uchar \<Rightarrow> bool" where
  "is_whitespace c \<longleftrightarrow>
     9 \<le> c \<and> c \<le> 13 \<or> c = 32 \<or> c = 133 \<or> c = 160 \<or> c = 5760 \<or>
     8192 \<le> c \<and> c \<le> 8202 \<or> c = 8232 \<or> c = 8233 \<or> c = 8239 \<or> c = 8287 \<or> c = 12288"

definition is_control :: "uchar \<Rightarrow> bool" where
  "is_control c \<longleftrightarrow> c \<le> 31 \<or> 127 \<le> c \<and> c \<le> 159"

definition is_ascii_hexdigit :: "uchar \<Rightarrow> bool" where
  "is_ascii_hexdigit c \<longleftrightarrow> 48 \<le> c \<and> c \<le> 57 \<or> 65 \<le> c \<and> c \<le> 70 \<or> 97 \<le> c \<and> c \<le> 102"

definition ascii_lower :: "uchar \<Rightarrow> uchar" where
  "ascii_lower c = (if 65 \<le> c \<and> c \<le> 90 then c + 32 else c)"

definition utf8_len :: "uchar \<Rightarrow> nat" where
  "utf8_len c = (if c < 128 then 1 else if c < 2048 then 2 else if c < 65536 then 3 else 4)"

section \<open>Strings\<close>

definition byte_len :: "ustr \<Rightarrow> nat" where
  "byte_len s = sum_list (map utf8_len s)"

definition trim_start :: "ustr \<Rightarrow> ustr" where
  "trim_start s = dropWhile is_whitespace s"

definition trim :: "ustr \<Rightarrow> ustr" where
  "trim s = rev (dropWhile is_whitespace (rev (trim_start s)))"

definition to_ascii_lowercase :: "ustr \<Rightarrow> ustr" where
  "to_ascii_lowercase s = map ascii_lower s"

definition eq_ignore_ascii_case :: "ustr \<Rightarrow> ustr \<Rightarrow> bool" where
  "eq_ignore_ascii_case a b \<longleftrightarrow> to_ascii_lowercase a = to_ascii_lowercase b"

definition starts_with :: "ustr \<Rightarrow> ustr \<Rightarrow> bool" where
  "starts_with s p \<longleftrightarrow> take (length p) s = p"

definition ends_with :: "ustr \<Rightarrow> ustr \<Rightarrow> bool" where
  "ends_with s p \<longleftrightarrow> starts_with (rev s) (rev p)"

text \<open>\<open>find\<close> and \<open>rfind\<close>: the first and the last position at which the needle begins.\<close>

fun str_find :: "ustr \<Rightarrow> ustr \<Rightarrow> nat option" where
  "str_find p [] = (if p = [] then Some 0 else None)"
| "str_find p (c # s) =
     (if starts_with (c # s) p then Some 0 else map_option Suc (str_find p s))"

fun str_rfind :: "ustr \<Rightarrow> ustr \<Rightarrow> nat option" where
  "str_rfind p [] = (if p = [] then Some 0 else None)"
| "str_rfind p (c # s) =
     (case str_rfind p s of
        Some i \<Rightarrow> Some (Suc i)
      | None \<Rightarrow> if starts_with (c # s) p then Some 0 else None)"

definition str_contains :: "ustr \<Rightarrow> ustr \<Rightarrow> bool" where
  "str_contains s p \<longleftrightarrow> str_find p s \<noteq> None"

text \<open>\<open>split\<close> at a character and \<open>join\<close> with a separator.\<close>

fun split_char :: "uchar \<Rightarrow> ustr \<Rightarrow> ustr list" where
  "split_char d [] = [[]]"
| "split_char d (c # s) =
     (if c = d then [] # split_char d s
      else (case split_char d s of
              [] \<Rightarrow> [[c]]
            | w # ws \<Rightarrow> (c # w) # ws))"

text \<open>\<open>lines()\<close>: cut at line feeds, each terminated line without a carriage return before the
  feed, and without the empty rest after the last feed.\<close>

definition strip_cr :: "ustr \<Rightarrow> ustr" where
  "strip_cr w = (if w \<noteq> [] \<and> last w = 13 then butlast w else w)"

definition str_lines :: "ustr \<Rightarrow> ustr list" where
  "str_lines s =
     (let ws = split_char 10 s in
      map strip_cr (butlast ws) @ (if last ws = [] then [] else [last ws]))"

text \<open>\<open>split_terminator\<close> drops an empty last piece; \<open>trim_matches\<close> strips one character.\<close>

definition split_terminator :: "uchar \<Rightarrow> ustr \<Rightarrow> ustr list" where
  "split_terminator d s = (let ws = split_char d s in if last ws = [] then butlast ws else ws)"

definition trim_matches :: "uchar \<Rightarrow> ustr \<Rightarrow> ustr" where
  "trim_matches d s = rev (dropWhile (\<lambda>c. c = d) (rev (dropWhile (\<lambda>c. c = d) s)))"

definition is_ascii_alphanumeric :: "uchar \<Rightarrow> bool" where
  "is_ascii_alphanumeric c \<longleftrightarrow> 48 \<le> c \<and> c \<le> 57 \<or> 65 \<le> c \<and> c \<le> 90 \<or> 97 \<le> c \<and> c \<le> 122"

fun join :: "ustr \<Rightarrow> ustr list \<Rightarrow> ustr" where
  "join sep [] = []"
| "join sep [w] = w"
| "join sep (w # v # ws) = w @ sep @ join sep (v # ws)"

definition strip_prefix :: "ustr \<Rightarrow> ustr \<Rightarrow> ustr option" where
  "strip_prefix p s = (if starts_with s p then Some (drop (length p) s) else None)"

definition strip_suffix :: "ustr \<Rightarrow> ustr \<Rightarrow> ustr option" where
  "strip_suffix p s = (if ends_with s p then Some (take (length s - length p) s) else None)"

definition split_once :: "ustr \<Rightarrow> ustr \<Rightarrow> (ustr \<times> ustr) option" where
  "split_once p s = map_option (\<lambda>i. (take i s, drop (i + length p) s)) (str_find p s)"

definition is_ascii_digit :: "uchar \<Rightarrow> bool" where
  "is_ascii_digit c \<longleftrightarrow> 48 \<le> c \<and> c \<le> 57"

text \<open>\<open>replace\<close> for a needle that is not empty: every occurrence from the left.\<close>

fun str_replace :: "ustr \<Rightarrow> ustr \<Rightarrow> ustr \<Rightarrow> ustr" where
  "str_replace p by [] = []"
| "str_replace p by (c # s) =
     (if p \<noteq> [] \<and> starts_with (c # s) p then by @ str_replace p by (drop (length p - 1) s)
      else c # str_replace p by s)"

text \<open>\<open>split_whitespace().collect().join(" ")\<close>: the words, one space between them.\<close>

fun split_whitespace :: "ustr \<Rightarrow> ustr \<Rightarrow> ustr list" where
  "split_whitespace w [] = (if w = [] then [] else [w])"
| "split_whitespace w (c # s) =
     (if is_whitespace c then (if w = [] then [] else [w]) @ split_whitespace [] s
      else split_whitespace (w @ [c]) s)"

definition spaced_words :: "ustr \<Rightarrow> ustr" where
  "spaced_words s = join [32] (split_whitespace [] s)"

text \<open>\<open>as_bytes\<close>: the UTF-8 encoding.\<close>

definition utf8_char :: "uchar \<Rightarrow> int list" where
  "utf8_char c =
     (if c < 128 then [c]
      else if c < 2048 then [192 + c div 64, 128 + c mod 64]
      else if c < 65536 then [224 + c div 4096, 128 + c div 64 mod 64, 128 + c mod 64]
      else [240 + c div 262144, 128 + c div 4096 mod 64, 128 + c div 64 mod 64, 128 + c mod 64])"

definition as_bytes :: "ustr \<Rightarrow> u8 list" where
  "as_bytes s = map word_of_int (concat (map utf8_char s))"

text \<open>\<open>get(n..)\<close>: nothing when the byte offset is beyond the end or inside a character.\<close>

fun get_from :: "nat \<Rightarrow> ustr \<Rightarrow> ustr option" where
  "get_from 0 s = Some s"
| "get_from (Suc n) [] = None"
| "get_from (Suc n) (c # s) = (if utf8_len c \<le> Suc n then get_from (Suc n - utf8_len c) s else None)"

text \<open>\<open>{:016x}\<close> of a 64-bit word.\<close>

definition hex_digit :: "nat \<Rightarrow> uchar" where
  "hex_digit n = (if n < 10 then 48 + int n else 87 + int n)"

definition hex16 :: "u64 \<Rightarrow> ustr" where
  "hex16 w = map (\<lambda>k. hex_digit (unat w div 16 ^ k mod 16)) (rev [0..<16])"

text \<open>The number a string of ASCII digits denotes.\<close>

definition digits_value :: "ustr \<Rightarrow> int" where
  "digits_value s = foldl (\<lambda>v c. 10 * v + (c - 48)) 0 s"

text \<open>\<open>parse::<u32>()\<close>: digits after an optional plus sign, in range.\<close>

definition parse_u32 :: "ustr \<Rightarrow> u32 option" where
  "parse_u32 s =
     (let d = (if starts_with s [43] then tl s else s) in
      if d \<noteq> [] \<and> list_all is_ascii_digit d \<and> digits_value d < 4294967296
      then Some (word_of_int (digits_value d)) else None)"

text \<open>Decimal rendering of an unsigned number, as \<open>Display\<close> prints it.\<close>

fun decimal :: "nat \<Rightarrow> ustr" where
  "decimal n = (if n < 10 then [48 + int n] else decimal (n div 10) @ [48 + int (n mod 10)])"

declare decimal.simps [simp del]

definition decimal_int :: "int \<Rightarrow> ustr" where
  "decimal_int i = (if i < 0 then 45 # decimal (nat (- i)) else decimal (nat i))"

text \<open>The characters outside ASCII that the modelled messages use.\<close>

abbreviation (input) u_umlaut :: ustr where "u_umlaut \<equiv> [252]"
abbreviation (input) a_umlaut :: ustr where "a_umlaut \<equiv> [228]"
abbreviation (input) o_umlaut :: ustr where "o_umlaut \<equiv> [246]"
abbreviation (input) quoted :: "ustr \<Rightarrow> ustr" where "quoted s \<equiv> 8222 # s @ [8220]"

section \<open>Facts\<close>

lemma lit_Nil [simp]: "lit s = [] \<longleftrightarrow> s = []"
  by (simp add: lit_def)

lemma decimal_not_Nil [simp]: "decimal n \<noteq> []"
  by (subst decimal.simps) simp

lemma byte_len_Nil [simp]: "byte_len s = 0 \<longleftrightarrow> s = []"
  by (cases s) (auto simp: byte_len_def utf8_len_def)

lemma trim_start_Nil: "trim_start s = [] \<longleftrightarrow> (\<forall>c\<in>set s. is_whitespace c)"
  by (simp add: trim_start_def)

lemma all_dropWhile: "(\<forall>c\<in>set (dropWhile P s). P c) \<longleftrightarrow> (\<forall>c\<in>set s. P c)"
  by (induction s) auto

lemma trim_Nil_iff: "trim s = [] \<longleftrightarrow> (\<forall>c\<in>set s. is_whitespace c)"
  by (simp add: trim_def trim_start_def all_dropWhile)

lemma trim_Nil [simp]: "trim [] = []"
  by (simp add: trim_Nil_iff)

lemma eq_ignore_ascii_case_refl [simp]: "eq_ignore_ascii_case a a"
  by (simp add: eq_ignore_ascii_case_def)

lemma starts_with_iff: "starts_with s p \<longleftrightarrow> (\<exists>t. s = p @ t)"
  unfolding starts_with_def by (metis append_eq_conv_conj append_take_drop_id)

lemma ends_with_iff: "ends_with s p \<longleftrightarrow> (\<exists>t. s = t @ p)"
proof
  assume "ends_with s p"
  then obtain t where "rev s = rev p @ t"
    by (auto simp: ends_with_def starts_with_iff)
  then have "s = rev t @ p" by (metis rev_append rev_rev_ident)
  then show "\<exists>t. s = t @ p" ..
next
  assume "\<exists>t. s = t @ p"
  then obtain t where "s = t @ p" ..
  then show "ends_with s p" by (auto simp: ends_with_def starts_with_iff)
qed

lemma str_find_Some: "str_find p s = Some i \<Longrightarrow> \<exists>a b. s = a @ p @ b \<and> length a = i"
proof (induction s arbitrary: i)
  case Nil
  then show ?case by (auto split: if_splits)
next
  case (Cons c s)
  show ?case
  proof (cases "starts_with (c # s) p")
    case True
    with Cons.prems have "i = 0" by simp
    with True show ?thesis by (auto simp: starts_with_iff)
  next
    case False
    with Cons.prems obtain j where j: "str_find p s = Some j" "i = Suc j" by auto
    from Cons.IH [OF j(1)] obtain a b where "s = a @ p @ b" "length a = j" by blast
    then have "c # s = (c # a) @ p @ b \<and> length (c # a) = i" using j(2) by simp
    then show ?thesis by blast
  qed
qed

lemma str_find_None: "str_find p (a @ p @ b) \<noteq> None"
proof (induction a)
  case Nil
  then show ?case
  proof (cases "p @ b")
    case (Cons c s)
    then have "starts_with (c # s) p" by (metis starts_with_iff)
    with Cons show ?thesis by simp
  qed auto
qed auto

lemma str_contains_iff: "str_contains s p \<longleftrightarrow> (\<exists>a b. s = a @ p @ b)"
  unfolding str_contains_def by (metis not_None_eq str_find_None str_find_Some)

lemma str_rfind_Some: "str_rfind p s = Some i \<Longrightarrow> \<exists>a b. s = a @ p @ b \<and> length a = i"
proof (induction s arbitrary: i)
  case Nil
  then show ?case by (auto split: if_splits)
next
  case (Cons c s)
  show ?case
  proof (cases "str_rfind p s")
    case None
    with Cons.prems show ?thesis by (auto simp: starts_with_iff split: if_splits)
  next
    case (Some j)
    with Cons.prems have "i = Suc j" by simp
    from Cons.IH [OF Some] obtain a b where "s = a @ p @ b" "length a = j" by blast
    then have "c # s = (c # a) @ p @ b \<and> length (c # a) = i" using \<open>i = Suc j\<close> by simp
    then show ?thesis by blast
  qed
qed

lemma split_char_not_Nil [simp]: "split_char d s \<noteq> []"
  by (induction s) (auto split: list.splits)

lemma split_char_parts: "w \<in> set (split_char d s) \<Longrightarrow> d \<notin> set w"
  by (induction s arbitrary: w) (auto split: if_splits list.splits)

lemma join_Cons: "ws \<noteq> [] \<Longrightarrow> join sep (w # ws) = w @ sep @ join sep ws"
  by (cases ws) auto

text \<open>Splitting and joining at the same character gives the string back.\<close>

lemma join_split_char: "join [d] (split_char d s) = s"
proof (induction s)
  case (Cons c s)
  obtain w ws where w: "split_char d s = w # ws"
    by (cases "split_char d s") auto
  with Cons show ?case
    by (cases ws) (auto simp: join_Cons)
qed simp

lemma strip_prefix_Some: "strip_prefix p s = Some r \<longleftrightarrow> s = p @ r"
  by (auto simp: strip_prefix_def starts_with_iff)

lemma strip_suffix_Some: "strip_suffix p s = Some r \<longleftrightarrow> s = r @ p"
  by (auto simp: strip_suffix_def ends_with_iff)

lemma strip_suffix_append [simp]: "strip_suffix p (r @ p) = Some r"
  by (simp add: strip_suffix_Some)

lemma strip_prefix_append [simp]: "strip_prefix p (p @ r) = Some r"
  by (simp add: strip_prefix_Some)

lemma strip_suffix_last: "p \<noteq> [] \<Longrightarrow> s \<noteq> [] \<Longrightarrow> last p \<noteq> last s \<Longrightarrow> strip_suffix p s = None"
  by (auto simp: strip_suffix_def ends_with_iff)

text \<open>
  \<open>split_once\<close> cuts at the separator that was printed when a character of the separator cannot
  occur earlier.
\<close>

lemma str_find_here:
  assumes "c \<notin> set a" "c \<notin> set q"
  shows "str_find (q @ c # r) (a @ (q @ c # r) @ b) = Some (length a)"
  using assms(1)
proof (induction a)
  case Nil
  have "starts_with ((q @ c # r) @ b) (q @ c # r)" by (auto simp: starts_with_iff)
  then show ?case by (cases "(q @ c # r) @ b") auto
next
  case (Cons x a)
  let ?p = "q @ c # r"
  have "\<not> starts_with (x # a @ ?p @ b) ?p"
  proof
    assume "starts_with (x # a @ ?p @ b) ?p"
    then obtain t where t: "x # a @ ?p @ b = ?p @ t" by (auto simp: starts_with_iff)
    have "(x # a @ ?p @ b) ! length q = c" unfolding t by (simp add: nth_append)
    moreover have "(x # a @ ?p @ b) ! length q \<in> set (x # a) \<union> set q"
    proof (cases "length q < length (x # a)")
      case True
      then have "((x # a) @ ?p @ b) ! length q = (x # a) ! length q" by (simp only: nth_append if_True)
      with True show ?thesis by (metis UnI1 append_Cons nth_mem)
    next
      case False
      then have less: "length q - length (x # a) < length q" by simp
      then have "((x # a) @ ?p @ b) ! length q = q ! (length q - length (x # a))"
        using False by (simp only: nth_append if_False) simp
      with less show ?thesis by (metis UnI2 append_Cons nth_mem)
    qed
    ultimately show False using Cons.prems assms(2) by auto
  qed
  then show ?case using Cons by simp
qed

lemma split_once_here:
  assumes "p = q @ c # r" "c \<notin> set a" "c \<notin> set q"
  shows "split_once p (a @ p @ b) = Some (a, b)"
  using str_find_here [OF assms(2,3), of r b] assms(1) by (simp add: split_once_def)

lemma split_once_Some: "split_once p s = Some (a, b) \<Longrightarrow> s = a @ p @ b"
  by (auto simp: split_once_def dest!: str_find_Some)

text \<open>Decimal numerals and their values are inverse to each other.\<close>

lemma digits_value_snoc: "digits_value (s @ [c]) = 10 * digits_value s + (c - 48)"
  by (simp add: digits_value_def)

lemma digits_value_decimal: "digits_value (decimal n) = int n"
proof (induction n rule: decimal.induct)
  case (1 n)
  show ?case
  proof (cases "n < 10")
    case True
    then show ?thesis by (subst decimal.simps) (simp add: digits_value_def)
  next
    case False
    with 1 show ?thesis by (subst decimal.simps) (simp add: digits_value_snoc zdiv_int zmod_int)
  qed
qed

lemma decimal_digits: "list_all is_ascii_digit (decimal n)"
proof (induction n rule: decimal.induct)
  case (1 n)
  show ?case
  proof (cases "n < 10")
    case True
    then show ?thesis by (subst decimal.simps) (simp add: is_ascii_digit_def)
  next
    case False
    have "n mod 10 < 10" by simp
    with 1 False show ?thesis by (subst decimal.simps) (auto simp: is_ascii_digit_def list_all_iff)
  qed
qed

lemma decimal_no_zero: "0 < n \<Longrightarrow> \<not> starts_with (decimal n) [48]"
proof (induction n rule: decimal.induct)
  case (1 n)
  show ?case
  proof (cases "n < 10")
    case True
    with 1 show ?thesis by (subst decimal.simps) (simp add: starts_with_iff)
  next
    case False
    then have "\<not> starts_with (decimal (n div 10)) [48]" using 1 by simp
    moreover have "decimal (n div 10) \<noteq> []" by simp
    ultimately show ?thesis using False
      by (subst decimal.simps) (auto simp: starts_with_iff Cons_eq_append_conv append_eq_Cons_conv)
  qed
qed

end
