(* ===== verification/Update_Journal.thy ===== *)
theory Update_Journal
  imports Rust_Text
begin

text \<open>
  The update journal of \<open>src-tauri/src/delivery_recovery.rs\<close>: the identities and proofs an
  update carries, the phase machine \<open>UpdateJournal\<close> with one function per operation, the
  action it derives, and the check \<open>validate_loaded\<close> every journal read from or written to disk
  passes.  The lemmas show that the check is an invariant of the operations, that a journal
  only moves along the declared phases, and what the phases guarantee about evidence.
\<close>

section \<open>Paths\<close>

text \<open>
  \<open>==\<close> on \<open>Path\<close> compares components, which the platform cuts; the build for Windows
  additionally compares whole paths without regard to ASCII case
  (\<open>paths_equal\<close>).  A platform is given by these two choices and by the path operations
  \<open>file_name\<close>, \<open>parent\<close>, \<open>join\<close> and \<open>with_extension\<close>; every result holds for every platform.
\<close>

record platform =
  windows :: bool
  components :: "ustr \<Rightarrow> ustr list"
  file_name :: "ustr \<Rightarrow> ustr option"
  parent :: "ustr \<Rightarrow> ustr option"
  join_path :: "ustr \<Rightarrow> ustr \<Rightarrow> ustr"
  with_extension :: "ustr \<Rightarrow> ustr \<Rightarrow> ustr"

definition path_eq :: "platform \<Rightarrow> ustr \<Rightarrow> ustr \<Rightarrow> bool" where
  "path_eq pf a b \<longleftrightarrow> components pf a = components pf b"

definition paths_equal :: "platform \<Rightarrow> ustr \<Rightarrow> ustr \<Rightarrow> bool" where
  "paths_equal pf left right =
     (if windows pf then eq_ignore_ascii_case left right else path_eq pf left right)"

text \<open>\<open>Path::with_file_name\<close>: the last component is replaced, or one is added.\<close>

definition with_file_name :: "platform \<Rightarrow> ustr \<Rightarrow> ustr \<Rightarrow> ustr" where
  "with_file_name pf p name =
     join_path pf (if file_name pf p = None then p
                   else case parent pf p of None \<Rightarrow> p | Some d \<Rightarrow> d) name"

text \<open>Unix: components end at \<open>/\<close>; empty ones and inner dots do not count.\<close>

definition unix_components :: "ustr \<Rightarrow> ustr list" where
  "unix_components s =
     (let parts = split_char 47 s
      in (if starts_with s [47] then [[47]] else if hd parts = [46] then [[46]] else [])
         @ filter (\<lambda>w. w \<noteq> [] \<and> w \<noteq> [46]) parts)"

definition unix_file_name :: "ustr \<Rightarrow> ustr option" where
  "unix_file_name s =
     (case rev (unix_components s) of
        [] \<Rightarrow> None
      | w # _ \<Rightarrow> if w \<in> {[47], [46], [46, 46]} then None else Some w)"

definition unix_parent :: "ustr \<Rightarrow> ustr option" where
  "unix_parent s =
     (let cs = unix_components s
      in if cs = [] \<or> cs = [[47]] then None
         else if hd cs = [47] then Some (47 # join [47] (tl (butlast cs)))
         else Some (join [47] (butlast cs)))"

definition unix_join :: "ustr \<Rightarrow> ustr \<Rightarrow> ustr" where
  "unix_join base n =
     (if starts_with n [47] \<or> base = [] then n
      else if ends_with base [47] then base @ n else base @ [47] @ n)"

text \<open>The stem of a file name ends before its last dot, unless that dot is the first character.\<close>

definition file_stem :: "ustr \<Rightarrow> ustr" where
  "file_stem name =
     (case str_rfind [46] name of
        None \<Rightarrow> name
      | Some i \<Rightarrow> if i = 0 then name else take i name)"

definition unix_with_extension :: "ustr \<Rightarrow> ustr \<Rightarrow> ustr" where
  "unix_with_extension s ext =
     (case (unix_file_name s, unix_parent s) of
        (Some name, Some dir) \<Rightarrow>
          unix_join dir (file_stem name @ (if ext = [] then [] else 46 # ext))
      | _ \<Rightarrow> s)"

definition unix_platform :: platform where
  "unix_platform = \<lparr>windows = False, components = unix_components, file_name = unix_file_name,
     parent = unix_parent, join_path = unix_join, with_extension = unix_with_extension\<rparr>"

section \<open>Identities, records and proofs\<close>

record file_identity =
  fi_path :: ustr
  fi_version :: ustr
  fi_sha256 :: ustr

record runtime_identity =
  ri_binary :: file_identity
  ri_database :: file_identity

record immutable_records =
  policy_id :: ustr
  candidate_id :: ustr
  evidence_id :: ustr

record staged_manifest_identity =
  manifest_sha256 :: ustr
  signed_artifact_sha256 :: ustr
  candidate_version :: ustr

record update_offer =
  of_records :: immutable_records
  of_nonce :: ustr
  of_previous :: runtime_identity
  of_candidate :: runtime_identity
  of_staged_manifest :: staged_manifest_identity

datatype update_phase =
    Available | Downloaded | WaitingIdle | Maintenance | BackupVerified
  | Installing | Validating | Installed | Promoted | RecoveryNeeded

datatype recovery_action =
    NoAction
  | WaitForIdle
  | VerifyCoherentBackup
  | InstallCandidate file_identity staged_manifest_identity
  | ValidateCandidate runtime_identity ustr
  | PromoteSameSignedBytes ustr ustr ustr
  | ResumeWrites
  | RestorePreviousRuntime runtime_identity file_identity ustr
  | QuarantineCurrentState ustr

datatype queue_drain = QueueDrainConfirmed
datatype pty_drain = PtyDrainConfirmed
datatype maintenance_mode = MaintenanceModeActive
datatype write_block = WriteBlockActive

record drain_proof =
  dp_queue_drain :: queue_drain
  dp_pty_drain :: pty_drain
  dp_maintenance_mode :: maintenance_mode
  dp_write_block :: write_block
  dp_evidence_id :: ustr
  dp_quiesced_database :: file_identity

record verified_backup =
  vb_snapshot :: file_identity
  vb_source_database_sha256 :: ustr
  vb_checkpoint_evidence_id :: ustr
  vb_verification_evidence_id :: ustr

record process_identity =
  process_id :: u32
  started_at_unix_millis :: u128

datatype validation_assertion = CandidateReady
datatype health_assertion = Healthy

record validation_proof =
  vp_validation :: validation_assertion
  vp_health :: health_assertion
  vp_validation_evidence_id :: ustr
  vp_health_evidence_id :: ustr

record instance_handshake =
  hs_binary :: file_identity
  hs_database :: file_identity
  hs_nonce :: ustr
  hs_process :: process_identity
  hs_validation :: validation_proof

record promotion_receipt =
  pr_manifest_sha256 :: ustr
  pr_signed_artifact_sha256 :: ustr
  pr_candidate_id :: ustr
  pr_evidence_id :: ustr

record write_resumption =
  wr_evidence_id :: ustr

record update_journal =
  format_version :: u32
  revision :: u64
  records :: immutable_records
  nonce :: ustr
  previous :: runtime_identity
  candidate :: runtime_identity
  staged_manifest :: staged_manifest_identity
  phase :: update_phase
  drain :: "drain_proof option"
  backup :: "verified_backup option"
  writes_resumed :: bool
  recovery_action :: "recovery_action option"
  installed :: "runtime_identity option"

definition JOURNAL_FORMAT_VERSION :: u32 where
  "JOURNAL_FORMAT_VERSION = 1"

section \<open>Errors\<close>

datatype recovery_error =
    InvalidTransition update_phase string
  | InvalidFact string
  | IdentityMismatch string
  | UnsupportedJournalVersion u32
  | InvalidJournalLocation ustr
  | JournalAlreadyExists ustr
  | ConcurrentWriter ustr
  | StaleWriter u64 u64
  | Io ustr
  | Serialization ustr
  | Effect ustr

fun phase_debug :: "update_phase \<Rightarrow> string" where
  "phase_debug Available = ''Available''"
| "phase_debug Downloaded = ''Downloaded''"
| "phase_debug WaitingIdle = ''WaitingIdle''"
| "phase_debug Maintenance = ''Maintenance''"
| "phase_debug BackupVerified = ''BackupVerified''"
| "phase_debug Installing = ''Installing''"
| "phase_debug Validating = ''Validating''"
| "phase_debug Installed = ''Installed''"
| "phase_debug Promoted = ''Promoted''"
| "phase_debug RecoveryNeeded = ''RecoveryNeeded''"

text \<open>\<open>impl Display for RecoveryError\<close>.\<close>

fun error_text :: "recovery_error \<Rightarrow> ustr" where
  "error_text (InvalidTransition frm operation) =
     lit (''cannot '' @ operation @ '' from '' @ phase_debug frm)"
| "error_text (InvalidFact what) = lit (''invalid recovery fact: '' @ what)"
| "error_text (IdentityMismatch identity) = lit (''recovery identity mismatch: '' @ identity)"
| "error_text (UnsupportedJournalVersion version) =
     lit ''unsupported update journal version '' @ decimal (unat version)"
| "error_text (InvalidJournalLocation path) =
     lit ''journal must be outside the database: '' @ path"
| "error_text (JournalAlreadyExists path) = lit ''journal already exists: '' @ path"
| "error_text (ConcurrentWriter path) = lit ''journal writer is active: '' @ path"
| "error_text (StaleWriter expected actual) =
     lit ''stale journal writer expected revision '' @ decimal (unat expected)
       @ lit '', found '' @ decimal (unat actual)"
| "error_text (Io error) = error"
| "error_text (Serialization error) = error"
| "error_text (Effect error) = error"

definition nonempty :: "ustr \<Rightarrow> string \<Rightarrow> recovery_error + ustr" where
  "nonempty value field = (if value = [] then Err (InvalidFact field) else Ok value)"

section \<open>Validity of the parts\<close>

definition file_valid :: "file_identity \<Rightarrow> string \<Rightarrow> recovery_error + unit" where
  "file_valid fi field =
     (if fi_path fi = [] \<or> fi_version fi = [] \<or> fi_sha256 fi = []
      then Err (InvalidFact field) else Ok ())"

definition runtime_valid :: "runtime_identity \<Rightarrow> string \<Rightarrow> recovery_error + unit" where
  "runtime_valid ri field =
     and_then (file_valid (ri_binary ri) field) (\<lambda>_. file_valid (ri_database ri) field)"

definition records_valid :: "immutable_records \<Rightarrow> recovery_error + unit" where
  "records_valid r =
     (if policy_id r = [] \<or> candidate_id r = [] \<or> evidence_id r = []
      then Err (InvalidFact ''policy, candidate, and evidence IDs are required'') else Ok ())"

definition manifest_valid :: "staged_manifest_identity \<Rightarrow> recovery_error + unit" where
  "manifest_valid m =
     (if manifest_sha256 m = [] \<or> signed_artifact_sha256 m = [] \<or> candidate_version m = []
      then Err (InvalidFact ''staged manifest identity'') else Ok ())"

definition drain_valid :: "drain_proof \<Rightarrow> recovery_error + unit" where
  "drain_valid d =
     and_then (file_valid (dp_quiesced_database d) ''quiesced database'') (\<lambda>_.
       if dp_evidence_id d = [] then Err (InvalidFact ''drain evidence ID'') else Ok ())"

definition backup_valid_for :: "verified_backup \<Rightarrow> file_identity \<Rightarrow> recovery_error + unit" where
  "backup_valid_for b previous_database =
     and_then (file_valid (vb_snapshot b) ''backup snapshot'') (\<lambda>_.
       if vb_source_database_sha256 b \<noteq> fi_sha256 previous_database
          \<or> fi_sha256 (vb_snapshot b) \<noteq> fi_sha256 previous_database
          \<or> vb_checkpoint_evidence_id b = [] \<or> vb_verification_evidence_id b = []
       then Err (InvalidFact ''coherent verified backup'') else Ok ())"

definition process_valid :: "process_identity \<Rightarrow> recovery_error + unit" where
  "process_valid p =
     (if process_id p = 0 \<or> started_at_unix_millis p = 0
      then Err (InvalidFact ''current process identity'') else Ok ())"

definition validation_valid :: "validation_proof \<Rightarrow> recovery_error + unit" where
  "validation_valid v =
     (if vp_validation_evidence_id v = [] \<or> vp_health_evidence_id v = []
      then Err (InvalidFact ''validation and health evidence IDs'') else Ok ())"

text \<open>The derived \<open>PartialEq\<close> of the identities, whose paths compare by component.\<close>

definition file_eq :: "platform \<Rightarrow> file_identity \<Rightarrow> file_identity \<Rightarrow> bool" where
  "file_eq pf a b \<longleftrightarrow>
     path_eq pf (fi_path a) (fi_path b) \<and> fi_version a = fi_version b
     \<and> fi_sha256 a = fi_sha256 b"

definition runtime_eq :: "platform \<Rightarrow> runtime_identity \<Rightarrow> runtime_identity \<Rightarrow> bool" where
  "runtime_eq pf a b \<longleftrightarrow>
     file_eq pf (ri_binary a) (ri_binary b) \<and> file_eq pf (ri_database a) (ri_database b)"

section \<open>The journal and its derived action\<close>

definition new_journal :: "update_offer \<Rightarrow> recovery_error + update_journal" where
  "new_journal offer =
     and_then (records_valid (of_records offer)) (\<lambda>_.
     and_then (runtime_valid (of_previous offer) ''previous runtime identity'') (\<lambda>_.
     and_then (runtime_valid (of_candidate offer) ''candidate runtime identity'') (\<lambda>_.
     and_then (manifest_valid (of_staged_manifest offer)) (\<lambda>_.
       if of_nonce offer = []
          \<or> candidate_version (of_staged_manifest offer)
              \<noteq> fi_version (ri_binary (of_candidate offer))
       then Err (InvalidFact ''update offer identity'')
       else Ok \<lparr>format_version = JOURNAL_FORMAT_VERSION, revision = 0,
                records = of_records offer, nonce = of_nonce offer,
                previous = of_previous offer, candidate = of_candidate offer,
                staged_manifest = of_staged_manifest offer, phase = Available,
                drain = None, backup = None, writes_resumed = False,
                recovery_action = None, installed = None\<rparr>))))"

definition can_accept_writes :: "update_journal \<Rightarrow> bool" where
  "can_accept_writes j \<longleftrightarrow> (phase j = Installed \<or> phase j = Promoted) \<and> writes_resumed j"

definition next_action :: "update_journal \<Rightarrow> recovery_action" where
  "next_action j =
     (case recovery_action j of
        Some action \<Rightarrow> action
      | None \<Rightarrow>
         (case phase j of
            Available \<Rightarrow> NoAction
          | Downloaded \<Rightarrow> WaitForIdle
          | WaitingIdle \<Rightarrow> WaitForIdle
          | Maintenance \<Rightarrow> VerifyCoherentBackup
          | BackupVerified \<Rightarrow> InstallCandidate (ri_binary (candidate j)) (staged_manifest j)
          | Installing \<Rightarrow> ValidateCandidate (candidate j) (nonce j)
          | Validating \<Rightarrow> ValidateCandidate (candidate j) (nonce j)
          | Installed \<Rightarrow>
              (if \<not> writes_resumed j then ResumeWrites
               else PromoteSameSignedBytes (manifest_sha256 (staged_manifest j))
                      (signed_artifact_sha256 (staged_manifest j)) (candidate_id (records j)))
          | Promoted \<Rightarrow> NoAction
          | RecoveryNeeded \<Rightarrow>
              QuarantineCurrentState (lit ''journal is missing its recovery action'')))"

section \<open>Transitions\<close>

definition require :: "update_journal \<Rightarrow> update_phase \<Rightarrow> string \<Rightarrow> recovery_error + unit" where
  "require j expected operation =
     (if phase j \<noteq> expected then Err (InvalidTransition (phase j) operation) else Ok ())"

definition record_downloaded ::
  "update_journal \<Rightarrow> staged_manifest_identity \<Rightarrow> recovery_error + update_journal" where
  "record_downloaded j observed =
     and_then (require j Available ''record downloaded candidate'') (\<lambda>_.
       if observed \<noteq> staged_manifest j then Err (IdentityMismatch ''staged manifest'')
       else Ok (j\<lparr>phase := Downloaded\<rparr>))"

definition wait_for_idle :: "update_journal \<Rightarrow> recovery_error + update_journal" where
  "wait_for_idle j =
     and_then (require j Downloaded ''wait for idle'') (\<lambda>_. Ok (j\<lparr>phase := WaitingIdle\<rparr>))"

definition enter_maintenance ::
  "platform \<Rightarrow> update_journal \<Rightarrow> drain_proof \<Rightarrow> recovery_error + update_journal" where
  "enter_maintenance pf j proof =
     and_then (require j WaitingIdle ''enter maintenance'') (\<lambda>_.
     and_then (drain_valid proof) (\<lambda>_.
       if \<not> paths_equal pf (fi_path (dp_quiesced_database proof))
              (fi_path (ri_database (previous j)))
       then Err (IdentityMismatch ''quiesced database path'')
       else Ok (j\<lparr>previous := (previous j)\<lparr>ri_database := dp_quiesced_database proof\<rparr>,
                 drain := Some proof,
                 phase := Maintenance\<rparr>)))"

definition verify_backup ::
  "update_journal \<Rightarrow> verified_backup \<Rightarrow> recovery_error + update_journal" where
  "verify_backup j b =
     and_then (require j Maintenance ''verify coherent backup'') (\<lambda>_.
       if drain j = None then Err (InvalidFact ''maintenance drain proof'')
       else and_then (backup_valid_for b (ri_database (previous j))) (\<lambda>_.
              Ok (j\<lparr>backup := Some b, phase := BackupVerified\<rparr>)))"

definition begin_install :: "update_journal \<Rightarrow> recovery_error + update_journal" where
  "begin_install j =
     and_then (require j BackupVerified ''begin install'') (\<lambda>_.
       if drain j = None \<or> backup j = None
       then Err (InvalidFact ''drain and backup before install'')
       else Ok (j\<lparr>phase := Installing\<rparr>))"

definition begin_validation :: "update_journal \<Rightarrow> recovery_error + update_journal" where
  "begin_validation j =
     and_then (require j Installing ''begin validation'') (\<lambda>_. Ok (j\<lparr>phase := Validating\<rparr>))"

definition accept_handshake ::
  "platform \<Rightarrow> update_journal \<Rightarrow> instance_handshake \<Rightarrow> recovery_error + update_journal" where
  "accept_handshake pf j h =
     and_then (require j Validating ''accept candidate handshake'') (\<lambda>_.
     and_then (process_valid (hs_process h)) (\<lambda>_.
     and_then (validation_valid (hs_validation h)) (\<lambda>_.
       if hs_nonce h \<noteq> nonce j
          \<or> \<not> paths_equal pf (fi_path (hs_binary h)) (fi_path (ri_binary (candidate j)))
          \<or> fi_version (hs_binary h) \<noteq> candidate_version (staged_manifest j)
          \<or> \<not> paths_equal pf (fi_path (hs_database h)) (fi_path (ri_database (candidate j)))
       then Err (IdentityMismatch ''current instance handshake'')
       else Ok (j\<lparr>installed := Some \<lparr>ri_binary = hs_binary h, ri_database = hs_database h\<rparr>,
                 phase := Installed\<rparr>))))"

definition record_health_failure ::
  "update_journal \<Rightarrow> ustr \<Rightarrow> recovery_error + update_journal" where
  "record_health_failure j reason =
     (if (phase j \<noteq> Validating \<and> phase j \<noteq> Installed) \<or> writes_resumed j
      then Err (InvalidTransition (phase j) ''record pre-write health failure'')
      else and_then (nonempty reason ''health failure reason'') (\<lambda>reason.
           and_then (ok_or (backup j) (InvalidFact ''verified backup'')) (\<lambda>b.
             Ok (j\<lparr>phase := RecoveryNeeded,
                   recovery_action :=
                     Some (RestorePreviousRuntime (previous j) (vb_snapshot b) reason)\<rparr>))))"

definition promote ::
  "update_journal \<Rightarrow> promotion_receipt \<Rightarrow> recovery_error + update_journal" where
  "promote j receipt =
     and_then (require j Installed ''promote candidate'') (\<lambda>_.
       if \<not> writes_resumed j
       then Err (InvalidFact ''writes must resume after validation before promotion'')
       else if pr_evidence_id receipt = []
          \<or> pr_candidate_id receipt \<noteq> candidate_id (records j)
          \<or> pr_manifest_sha256 receipt \<noteq> manifest_sha256 (staged_manifest j)
          \<or> pr_signed_artifact_sha256 receipt \<noteq> signed_artifact_sha256 (staged_manifest j)
       then Err (IdentityMismatch ''stable promotion identity'')
       else Ok (j\<lparr>phase := Promoted\<rparr>))"

definition resume_writes ::
  "update_journal \<Rightarrow> write_resumption \<Rightarrow> recovery_error + update_journal" where
  "resume_writes j proof =
     and_then (require j Installed ''resume writes'') (\<lambda>_.
       if wr_evidence_id proof = [] then Err (InvalidFact ''write-resumption evidence ID'')
       else Ok (j\<lparr>writes_resumed := True\<rparr>))"

definition record_post_resume_failure ::
  "update_journal \<Rightarrow> ustr \<Rightarrow> recovery_error + update_journal" where
  "record_post_resume_failure j reason =
     (if \<not> writes_resumed j
      then Err (InvalidTransition (phase j) ''record post-resume failure'')
      else and_then (nonempty reason ''post-resume failure reason'') (\<lambda>reason.
             Ok (j\<lparr>phase := RecoveryNeeded,
                   recovery_action := Some (QuarantineCurrentState reason)\<rparr>)))"

section \<open>The check of a loaded journal\<close>

definition drain_fact :: "update_journal \<Rightarrow> recovery_error + unit" where
  "drain_fact j =
     and_then (ok_or (drain j) (InvalidFact ''maintenance drain proof'')) drain_valid"

definition backup_fact :: "update_journal \<Rightarrow> recovery_error + unit" where
  "backup_fact j =
     and_then (ok_or (backup j) (InvalidFact ''verified backup''))
       (\<lambda>b. backup_valid_for b (ri_database (previous j)))"

definition recovery_action_safe :: "platform \<Rightarrow> update_journal \<Rightarrow> bool" where
  "recovery_action_safe pf j =
     (case recovery_action j of
        Some (RestorePreviousRuntime prev snapshot reason) \<Rightarrow>
          \<not> writes_resumed j \<and> runtime_eq pf prev (previous j)
          \<and> (case backup j of None \<Rightarrow> False | Some b \<Rightarrow> file_eq pf (vb_snapshot b) snapshot)
          \<and> reason \<noteq> []
      | Some (QuarantineCurrentState reason) \<Rightarrow> reason \<noteq> []
      | _ \<Rightarrow> False)"

definition validate_phase :: "platform \<Rightarrow> update_journal \<Rightarrow> recovery_error + unit" where
  "validate_phase pf j =
     (if phase j = Available \<or> phase j = Downloaded \<or> phase j = WaitingIdle then
        (if drain j \<noteq> None \<or> backup j \<noteq> None \<or> writes_resumed j \<or> recovery_action j \<noteq> None
         then Err (InvalidFact ''pre-maintenance journal state'') else Ok ())
      else if phase j = Maintenance then
        and_then (drain_fact j) (\<lambda>_.
          if backup j \<noteq> None \<or> writes_resumed j \<or> recovery_action j \<noteq> None
          then Err (InvalidFact ''maintenance journal state'') else Ok ())
      else
        and_then (drain_fact j) (\<lambda>_. and_then (backup_fact j) (\<lambda>_.
          case phase j of
            Installed \<Rightarrow>
              if recovery_action j \<noteq> None
              then Err (InvalidFact ''installed journal state'') else Ok ()
          | Promoted \<Rightarrow>
              if \<not> writes_resumed j \<or> recovery_action j \<noteq> None
              then Err (InvalidFact ''promoted journal state'') else Ok ()
          | RecoveryNeeded \<Rightarrow>
              if recovery_action_safe pf j then Ok ()
              else Err (InvalidFact ''unsafe or mismatched recovery action'')
          | _ \<Rightarrow>
              if writes_resumed j \<or> recovery_action j \<noteq> None
              then Err (InvalidFact ''pre-promotion journal state'') else Ok ())))"

definition validate_loaded :: "platform \<Rightarrow> update_journal \<Rightarrow> recovery_error + unit" where
  "validate_loaded pf j =
     (if format_version j \<noteq> JOURNAL_FORMAT_VERSION
      then Err (UnsupportedJournalVersion (format_version j))
      else
     and_then (records_valid (records j)) (\<lambda>_.
     and_then (runtime_valid (previous j) ''previous runtime identity'') (\<lambda>_.
     and_then (runtime_valid (candidate j) ''candidate runtime identity'') (\<lambda>_.
     and_then (manifest_valid (staged_manifest j)) (\<lambda>_.
     and_then (case drain j of
                 None \<Rightarrow> Ok ()
               | Some d \<Rightarrow>
                   if \<not> file_eq pf (dp_quiesced_database d) (ri_database (previous j))
                   then Err (IdentityMismatch ''loaded quiesced database'') else Ok ()) (\<lambda>_.
       if nonce j = []
          \<or> candidate_version (staged_manifest j) \<noteq> fi_version (ri_binary (candidate j))
       then Err (InvalidFact ''loaded update offer identity'')
       else validate_phase pf j))))))"

section \<open>Calls\<close>

datatype journal_call =
    CallRecordDownloaded staged_manifest_identity
  | CallWaitForIdle
  | CallEnterMaintenance drain_proof
  | CallVerifyBackup verified_backup
  | CallBeginInstall
  | CallBeginValidation
  | CallAcceptHandshake instance_handshake
  | CallRecordHealthFailure ustr
  | CallPromote promotion_receipt
  | CallResumeWrites write_resumption
  | CallRecordPostResumeFailure ustr

fun apply_call ::
  "platform \<Rightarrow> update_journal \<Rightarrow> journal_call \<Rightarrow> recovery_error + update_journal" where
  "apply_call pf j (CallRecordDownloaded m) = record_downloaded j m"
| "apply_call pf j CallWaitForIdle = wait_for_idle j"
| "apply_call pf j (CallEnterMaintenance d) = enter_maintenance pf j d"
| "apply_call pf j (CallVerifyBackup b) = verify_backup j b"
| "apply_call pf j CallBeginInstall = begin_install j"
| "apply_call pf j CallBeginValidation = begin_validation j"
| "apply_call pf j (CallAcceptHandshake h) = accept_handshake pf j h"
| "apply_call pf j (CallRecordHealthFailure r) = record_health_failure j r"
| "apply_call pf j (CallPromote r) = promote j r"
| "apply_call pf j (CallResumeWrites w) = resume_writes j w"
| "apply_call pf j (CallRecordPostResumeFailure r) = record_post_resume_failure j r"

definition after_call :: "platform \<Rightarrow> update_journal \<Rightarrow> journal_call \<Rightarrow> update_journal" where
  "after_call pf j c = (case apply_call pf j c of Err _ \<Rightarrow> j | Ok j' \<Rightarrow> j')"

section \<open>When the operations succeed\<close>

abbreviation file_ok :: "file_identity \<Rightarrow> bool" where
  "file_ok fi \<equiv> fi_path fi \<noteq> [] \<and> fi_version fi \<noteq> [] \<and> fi_sha256 fi \<noteq> []"

abbreviation runtime_ok :: "runtime_identity \<Rightarrow> bool" where
  "runtime_ok ri \<equiv> file_ok (ri_binary ri) \<and> file_ok (ri_database ri)"

abbreviation records_ok :: "immutable_records \<Rightarrow> bool" where
  "records_ok r \<equiv> policy_id r \<noteq> [] \<and> candidate_id r \<noteq> [] \<and> evidence_id r \<noteq> []"

abbreviation manifest_ok :: "staged_manifest_identity \<Rightarrow> bool" where
  "manifest_ok m \<equiv>
     manifest_sha256 m \<noteq> [] \<and> signed_artifact_sha256 m \<noteq> [] \<and> candidate_version m \<noteq> []"

abbreviation drain_ok :: "drain_proof \<Rightarrow> bool" where
  "drain_ok d \<equiv> file_ok (dp_quiesced_database d) \<and> dp_evidence_id d \<noteq> []"

abbreviation backup_ok :: "verified_backup \<Rightarrow> file_identity \<Rightarrow> bool" where
  "backup_ok b db \<equiv>
     file_ok (vb_snapshot b) \<and> vb_source_database_sha256 b = fi_sha256 db
     \<and> fi_sha256 (vb_snapshot b) = fi_sha256 db
     \<and> vb_checkpoint_evidence_id b \<noteq> [] \<and> vb_verification_evidence_id b \<noteq> []"

abbreviation process_ok :: "process_identity \<Rightarrow> bool" where
  "process_ok p \<equiv> process_id p \<noteq> 0 \<and> started_at_unix_millis p \<noteq> 0"

abbreviation validation_ok :: "validation_proof \<Rightarrow> bool" where
  "validation_ok v \<equiv> vp_validation_evidence_id v \<noteq> [] \<and> vp_health_evidence_id v \<noteq> []"

abbreviation handshake_ok :: "platform \<Rightarrow> update_journal \<Rightarrow> instance_handshake \<Rightarrow> bool" where
  "handshake_ok pf j h \<equiv>
     process_ok (hs_process h) \<and> validation_ok (hs_validation h) \<and> hs_nonce h = nonce j
     \<and> paths_equal pf (fi_path (hs_binary h)) (fi_path (ri_binary (candidate j)))
     \<and> fi_version (hs_binary h) = candidate_version (staged_manifest j)
     \<and> paths_equal pf (fi_path (hs_database h)) (fi_path (ri_database (candidate j)))"

abbreviation receipt_ok :: "update_journal \<Rightarrow> promotion_receipt \<Rightarrow> bool" where
  "receipt_ok j r \<equiv>
     pr_evidence_id r \<noteq> [] \<and> pr_candidate_id r = candidate_id (records j)
     \<and> pr_manifest_sha256 r = manifest_sha256 (staged_manifest j)
     \<and> pr_signed_artifact_sha256 r = signed_artifact_sha256 (staged_manifest j)"

lemma validity_Ok [result_simps]:
  "file_valid fi f = Ok u \<longleftrightarrow> file_ok fi"
  "runtime_valid ri f = Ok u \<longleftrightarrow> runtime_ok ri"
  "records_valid r = Ok u \<longleftrightarrow> records_ok r"
  "manifest_valid m = Ok u \<longleftrightarrow> manifest_ok m"
  "drain_valid d = Ok u \<longleftrightarrow> drain_ok d"
  "backup_valid_for b db = Ok u \<longleftrightarrow> backup_ok b db"
  "process_valid p = Ok u \<longleftrightarrow> process_ok p"
  "validation_valid v = Ok u \<longleftrightarrow> validation_ok v"
  "nonempty value f = Ok v' \<longleftrightarrow> value \<noteq> [] \<and> v' = value"
  "require j ph op = Ok u \<longleftrightarrow> phase j = ph"
  by (auto simp: file_valid_def runtime_valid_def records_valid_def manifest_valid_def
      drain_valid_def backup_valid_for_def process_valid_def validation_valid_def
      nonempty_def require_def and_then_Ok)

lemma path_eq_refl [simp]: "path_eq pf a a"
  by (simp add: path_eq_def)

lemma paths_equal_refl [simp]: "paths_equal pf a a"
  by (simp add: paths_equal_def)

lemma file_eq_refl [simp]: "file_eq pf a a"
  by (simp add: file_eq_def)

lemma runtime_eq_refl [simp]: "runtime_eq pf a a"
  by (simp add: runtime_eq_def)

lemma record_downloaded_Ok [result_simps]:
  "record_downloaded j m = Ok j' \<longleftrightarrow>
     phase j = Available \<and> m = staged_manifest j \<and> j' = j\<lparr>phase := Downloaded\<rparr>"
  by (auto simp: record_downloaded_def result_simps)

lemma wait_for_idle_Ok [result_simps]:
  "wait_for_idle j = Ok j' \<longleftrightarrow> phase j = Downloaded \<and> j' = j\<lparr>phase := WaitingIdle\<rparr>"
  by (auto simp: wait_for_idle_def result_simps)

lemma enter_maintenance_Ok [result_simps]:
  "enter_maintenance pf j d = Ok j' \<longleftrightarrow>
     phase j = WaitingIdle \<and> drain_ok d
     \<and> paths_equal pf (fi_path (dp_quiesced_database d)) (fi_path (ri_database (previous j)))
     \<and> j' = j\<lparr>previous := (previous j)\<lparr>ri_database := dp_quiesced_database d\<rparr>,
              drain := Some d, phase := Maintenance\<rparr>"
  by (auto simp: enter_maintenance_def result_simps)

lemma verify_backup_Ok [result_simps]:
  "verify_backup j b = Ok j' \<longleftrightarrow>
     phase j = Maintenance \<and> drain j \<noteq> None \<and> backup_ok b (ri_database (previous j))
     \<and> j' = j\<lparr>backup := Some b, phase := BackupVerified\<rparr>"
  by (auto simp: verify_backup_def result_simps)

lemma begin_install_Ok [result_simps]:
  "begin_install j = Ok j' \<longleftrightarrow>
     phase j = BackupVerified \<and> drain j \<noteq> None \<and> backup j \<noteq> None
     \<and> j' = j\<lparr>phase := Installing\<rparr>"
  by (auto simp: begin_install_def result_simps)

lemma begin_validation_Ok [result_simps]:
  "begin_validation j = Ok j' \<longleftrightarrow> phase j = Installing \<and> j' = j\<lparr>phase := Validating\<rparr>"
  by (auto simp: begin_validation_def result_simps)

lemma accept_handshake_Ok [result_simps]:
  "accept_handshake pf j h = Ok j' \<longleftrightarrow>
     phase j = Validating \<and> handshake_ok pf j h
     \<and> j' = j\<lparr>installed := Some \<lparr>ri_binary = hs_binary h, ri_database = hs_database h\<rparr>,
              phase := Installed\<rparr>"
  by (auto simp: accept_handshake_def result_simps)

lemma record_health_failure_Ok [result_simps]:
  "record_health_failure j r = Ok j' \<longleftrightarrow>
     (phase j = Validating \<or> phase j = Installed) \<and> \<not> writes_resumed j \<and> r \<noteq> []
     \<and> (\<exists>b. backup j = Some b
          \<and> j' = j\<lparr>phase := RecoveryNeeded,
                   recovery_action :=
                     Some (RestorePreviousRuntime (previous j) (vb_snapshot b) r)\<rparr>)"
  by (auto simp: record_health_failure_def result_simps)

lemma promote_Ok [result_simps]:
  "promote j r = Ok j' \<longleftrightarrow>
     phase j = Installed \<and> writes_resumed j \<and> receipt_ok j r \<and> j' = j\<lparr>phase := Promoted\<rparr>"
  by (auto simp: promote_def result_simps)

lemma resume_writes_Ok [result_simps]:
  "resume_writes j w = Ok j' \<longleftrightarrow>
     phase j = Installed \<and> wr_evidence_id w \<noteq> [] \<and> j' = j\<lparr>writes_resumed := True\<rparr>"
  by (auto simp: resume_writes_def result_simps)

lemma record_post_resume_failure_Ok [result_simps]:
  "record_post_resume_failure j r = Ok j' \<longleftrightarrow>
     writes_resumed j \<and> r \<noteq> []
     \<and> j' = j\<lparr>phase := RecoveryNeeded, recovery_action := Some (QuarantineCurrentState r)\<rparr>"
  by (auto simp: record_post_resume_failure_def result_simps)

section \<open>What a valid journal looks like\<close>

lemma facts_Ok [result_simps]:
  "drain_fact j = Ok u \<longleftrightarrow> (\<exists>d. drain j = Some d \<and> drain_ok d)"
  "backup_fact j = Ok u \<longleftrightarrow> (\<exists>b. backup j = Some b \<and> backup_ok b (ri_database (previous j)))"
  by (auto simp: drain_fact_def backup_fact_def result_simps)

text \<open>The evidence and the flags a phase allows.\<close>

definition phase_ok :: "platform \<Rightarrow> update_journal \<Rightarrow> bool" where
  "phase_ok pf j \<longleftrightarrow>
     (if phase j \<in> {Available, Downloaded, WaitingIdle}
      then drain j = None \<and> backup j = None \<and> \<not> writes_resumed j \<and> recovery_action j = None
      else (\<exists>d. drain j = Some d \<and> drain_ok d)
        \<and> (if phase j = Maintenance then backup j = None
           else \<exists>b. backup j = Some b \<and> backup_ok b (ri_database (previous j)))
        \<and> (phase j = RecoveryNeeded \<longleftrightarrow> recovery_action j \<noteq> None)
        \<and> (phase j = RecoveryNeeded \<longrightarrow> recovery_action_safe pf j)
        \<and> (phase j = Promoted \<longrightarrow> writes_resumed j)
        \<and> (writes_resumed j \<longrightarrow> phase j \<in> {Installed, Promoted, RecoveryNeeded}))"

lemma validate_phase_Ok [result_simps]: "validate_phase pf j = Ok u \<longleftrightarrow> phase_ok pf j"
  by (cases "phase j")
    (auto simp: validate_phase_def phase_ok_def recovery_action_safe_def result_simps
      split: option.splits)

lemma validate_loaded_Ok [result_simps]:
  "validate_loaded pf j = Ok u \<longleftrightarrow>
     format_version j = JOURNAL_FORMAT_VERSION \<and> records_ok (records j)
     \<and> runtime_ok (previous j) \<and> runtime_ok (candidate j) \<and> manifest_ok (staged_manifest j)
     \<and> (\<forall>d. drain j = Some d \<longrightarrow>
          file_eq pf (dp_quiesced_database d) (ri_database (previous j)))
     \<and> nonce j \<noteq> []
     \<and> candidate_version (staged_manifest j) = fi_version (ri_binary (candidate j))
     \<and> phase_ok pf j"
  by (auto simp: validate_loaded_def result_simps split: option.splits)

section \<open>The check is an invariant of the operations\<close>

abbreviation journal_ok :: "platform \<Rightarrow> update_journal \<Rightarrow> bool" where
  "journal_ok pf j \<equiv> validate_loaded pf j = Ok ()"

lemma new_journal_ok: "new_journal offer = Ok j \<Longrightarrow> journal_ok pf j"
  by (auto simp: new_journal_def phase_ok_def result_simps split: if_splits)

lemma new_journal_fields:
  assumes "new_journal offer = Ok j"
  shows "phase j = Available" "writes_resumed j = False" "installed j = None"
    "revision j = 0" "nonce j = of_nonce offer" "candidate j = of_candidate offer"
    "staged_manifest j = of_staged_manifest offer" "records j = of_records offer"
    "previous j = of_previous offer"
  using assms by (auto simp: new_journal_def result_simps split: if_splits)

lemma apply_call_ok:
  assumes ok: "journal_ok pf j" and step: "apply_call pf j c = Ok j'"
  shows "journal_ok pf j'"
  using ok step
  by (cases c) (auto simp: result_simps phase_ok_def recovery_action_safe_def split: if_splits)

lemma after_call_disj: "after_call pf j c = j \<or> apply_call pf j c = Ok (after_call pf j c)"
  by (cases "apply_call pf j c") (auto simp: after_call_def)

lemma after_call_ok: "journal_ok pf j \<Longrightarrow> journal_ok pf (after_call pf j c)"
  using after_call_disj [of pf j c] by (auto dest: apply_call_ok)

text \<open>How far an update has come; a refused or repeated step never takes it back.\<close>

fun phase_rank :: "update_phase \<Rightarrow> nat" where
  "phase_rank Available = 0"
| "phase_rank Downloaded = 1"
| "phase_rank WaitingIdle = 2"
| "phase_rank Maintenance = 3"
| "phase_rank BackupVerified = 4"
| "phase_rank Installing = 5"
| "phase_rank Validating = 6"
| "phase_rank Installed = 7"
| "phase_rank Promoted = 8"
| "phase_rank RecoveryNeeded = 9"

lemma apply_call_rank: "apply_call pf j c = Ok j' \<Longrightarrow> phase_rank (phase j) \<le> phase_rank (phase j')"
  by (cases c; cases "phase j") (auto simp: result_simps)

lemma after_call_rank: "phase_rank (phase j) \<le> phase_rank (phase (after_call pf j c))"
  using after_call_disj [of pf j c] by (auto dest: apply_call_rank)

lemma after_call_writes: "writes_resumed j \<Longrightarrow> writes_resumed (after_call pf j c)"
  using after_call_disj [of pf j c] by (cases c) (auto simp: result_simps)

interpretation journal: ranked_machine "after_call pf" "journal_ok pf" "\<lambda>j. phase_rank (phase j)" for pf
  by unfold_locales (auto intro: after_call_ok after_call_rank)

interpretation resumed: latched_machine "after_call pf" "journal_ok pf" writes_resumed for pf
  by unfold_locales (auto intro: after_call_writes)

text \<open>What no operation touches.\<close>

definition offer_part :: "update_journal \<Rightarrow> immutable_records \<times> ustr \<times> runtime_identity
    \<times> staged_manifest_identity \<times> file_identity" where
  "offer_part j = (records j, nonce j, candidate j, staged_manifest j, ri_binary (previous j))"

lemma after_call_offer_part: "offer_part (after_call pf j c) = offer_part j"
  using after_call_disj [of pf j c] by (cases c) (auto simp: result_simps offer_part_def)

lemma run_offer_part: "offer_part (run (after_call pf) j cs) = offer_part j"
  by (induction cs arbitrary: j) (simp_all add: after_call_offer_part)

section \<open>The abstract phase machine\<close>

text \<open>
  The contract of the journal as its documentation states it: phases move forward one at
  a time, only an installed candidate resumes writes, and a failure leads to recovery,
  before or after writes resumed.
\<close>

inductive phase_step :: "update_phase \<times> bool \<Rightarrow> update_phase \<times> bool \<Rightarrow> bool" where
  download: "phase_step (Available, False) (Downloaded, False)"
| wait: "phase_step (Downloaded, False) (WaitingIdle, False)"
| freeze: "phase_step (WaitingIdle, False) (Maintenance, False)"
| back_up: "phase_step (Maintenance, False) (BackupVerified, False)"
| install: "phase_step (BackupVerified, False) (Installing, False)"
| validate: "phase_step (Installing, False) (Validating, False)"
| accept: "phase_step (Validating, False) (Installed, False)"
| resume: "phase_step (Installed, r) (Installed, True)"
| stable: "phase_step (Installed, True) (Promoted, True)"
| unhealthy: "ph \<in> {Validating, Installed} \<Longrightarrow> phase_step (ph, False) (RecoveryNeeded, False)"
| broken: "ph \<in> {Installed, Promoted, RecoveryNeeded} \<Longrightarrow> phase_step (ph, True) (RecoveryNeeded, True)"

inductive_cases phase_stepE: "phase_step s t"

abbreviation abs_phase :: "update_journal \<Rightarrow> update_phase \<times> bool" where
  "abs_phase j \<equiv> (phase j, writes_resumed j)"

lemma apply_call_phase_step:
  "journal_ok pf j \<Longrightarrow> apply_call pf j c = Ok j' \<Longrightarrow> phase_step (abs_phase j) (abs_phase j')"
  by (cases c) (auto simp: result_simps phase_ok_def split: if_splits intro: phase_step.intros)

lemma next_action_restore:
  assumes "journal_ok pf j" "next_action j = RestorePreviousRuntime p s r"
  shows "phase j = RecoveryNeeded \<and> \<not> writes_resumed j \<and> r \<noteq> [] \<and> runtime_eq pf p (previous j)
    \<and> (\<exists>b. backup j = Some b \<and> file_eq pf (vb_snapshot b) s)"
  using assms
  by (cases "phase j")
    (auto simp: next_action_def result_simps phase_ok_def recovery_action_safe_def
      split: option.splits if_splits)

lemma next_action_install:
  assumes "journal_ok pf j"
  shows "next_action j = InstallCandidate f m \<longleftrightarrow>
    phase j = BackupVerified \<and> f = ri_binary (candidate j) \<and> m = staged_manifest j"
  using assms
  by (cases "phase j")
    (auto simp: next_action_def result_simps phase_ok_def recovery_action_safe_def
      split: option.splits if_splits)

section \<open>Where an installed candidate comes from\<close>

text \<open>
  The handshake and the resumption that led to a journal are among the calls it received:
  the invariant of the runs from a new journal.
\<close>

definition proven_by :: "platform \<Rightarrow> update_journal \<Rightarrow> journal_call list \<Rightarrow> update_journal \<Rightarrow> bool" where
  "proven_by pf j cs k \<longleftrightarrow>
     (phase k \<in> {Installed, Promoted} \<or> writes_resumed k \<longrightarrow>
        (\<exists>h. CallAcceptHandshake h \<in> set cs \<and> handshake_ok pf j h
           \<and> installed k = Some \<lparr>ri_binary = hs_binary h, ri_database = hs_database h\<rparr>))
     \<and> (writes_resumed k \<longrightarrow>
          (\<exists>w. CallResumeWrites w \<in> set cs \<and> wr_evidence_id w \<noteq> []))"

lemma proven_by_step:
  assumes ok: "journal_ok pf k" and part: "offer_part k = offer_part j"
    and prov: "proven_by pf j cs k"
  shows "proven_by pf j (cs @ [c]) (after_call pf k c)"
proof (cases "apply_call pf k c")
  case (Inl e)
  then show ?thesis
    using prov by (auto simp: after_call_def proven_by_def)
next
  case (Inr k')
  then have after: "after_call pf k c = k'" by (simp add: after_call_def)
  show ?thesis
    unfolding after using Inr ok part prov
    by (cases c) (auto simp: result_simps proven_by_def offer_part_def phase_ok_def split: if_splits)
qed

lemma proven_by_run:
  assumes new: "new_journal offer = Ok j"
  shows "proven_by pf j cs (run (after_call pf) j cs)"
proof (induction cs rule: rev_induct)
  case Nil
  then show ?case using new_journal_fields [OF new] by (simp add: proven_by_def)
next
  case (snoc c cs)
  have "journal_ok pf (run (after_call pf) j cs)"
    by (intro journal.inv_run new_journal_ok [OF new])
  from proven_by_step [OF this run_offer_part snoc] show ?case
    by (simp add: run_append)
qed

lemma journal_runs_ok: "new_journal offer = Ok j \<Longrightarrow> journal_ok pf (run (after_call pf) j cs)"
  by (intro journal.inv_run new_journal_ok)

section \<open>A worked update\<close>

text \<open>One offer and the calls of an update that goes through, for the closed instances below.\<close>

definition demo_file :: "string \<Rightarrow> string \<Rightarrow> string \<Rightarrow> file_identity" where
  "demo_file path version sha =
     \<lparr>fi_path = lit path, fi_version = lit version, fi_sha256 = lit sha\<rparr>"

definition demo_manifest :: staged_manifest_identity where
  "demo_manifest = \<lparr>manifest_sha256 = lit ''m1'', signed_artifact_sha256 = lit ''a1'',
     candidate_version = lit ''1.4.0''\<rparr>"

definition demo_offer :: update_offer where
  "demo_offer =
     \<lparr>of_records = \<lparr>policy_id = lit ''policy'', candidate_id = lit ''candidate'',
        evidence_id = lit ''evidence''\<rparr>,
      of_nonce = lit ''nonce'',
      of_previous = \<lparr>ri_binary = demo_file ''/opt/pa'' ''1.3.0'' ''b0'',
        ri_database = demo_file ''/data/pa.db'' ''7'' ''d0''\<rparr>,
      of_candidate = \<lparr>ri_binary = demo_file ''/opt/pa'' ''1.4.0'' ''b1'',
        ri_database = demo_file ''/data/pa.db'' ''8'' ''d1''\<rparr>,
      of_staged_manifest = demo_manifest\<rparr>"

definition demo_drain :: drain_proof where
  "demo_drain = \<lparr>dp_queue_drain = QueueDrainConfirmed, dp_pty_drain = PtyDrainConfirmed,
     dp_maintenance_mode = MaintenanceModeActive, dp_write_block = WriteBlockActive,
     dp_evidence_id = lit ''drain'', dp_quiesced_database = demo_file ''/data/pa.db'' ''7'' ''d9''\<rparr>"

definition demo_backup :: verified_backup where
  "demo_backup = \<lparr>vb_snapshot = demo_file ''/data/pa.bak'' ''7'' ''d9'',
     vb_source_database_sha256 = lit ''d9'', vb_checkpoint_evidence_id = lit ''checkpoint'',
     vb_verification_evidence_id = lit ''verified''\<rparr>"

definition demo_handshake :: instance_handshake where
  "demo_handshake = \<lparr>hs_binary = demo_file ''/opt/pa'' ''1.4.0'' ''x1'',
     hs_database = demo_file ''/data/pa.db'' ''8'' ''x2'', hs_nonce = lit ''nonce'',
     hs_process = \<lparr>process_id = 42, started_at_unix_millis = 1000\<rparr>,
     hs_validation = \<lparr>vp_validation = CandidateReady, vp_health = Healthy,
       vp_validation_evidence_id = lit ''ready'', vp_health_evidence_id = lit ''healthy''\<rparr>\<rparr>"

definition demo_install :: "journal_call list" where
  "demo_install =
     [CallRecordDownloaded demo_manifest, CallWaitForIdle, CallEnterMaintenance demo_drain,
      CallVerifyBackup demo_backup, CallBeginInstall, CallBeginValidation]"

definition demo_accept :: "journal_call list" where
  "demo_accept = [CallAcceptHandshake demo_handshake,
     CallResumeWrites \<lparr>wr_evidence_id = lit ''resume''\<rparr>]"

definition demo_journal :: update_journal where
  "demo_journal = (case new_journal demo_offer of Err _ \<Rightarrow> undefined | Ok j \<Rightarrow> j)"

lemmas demo_defs = demo_file_def demo_manifest_def demo_offer_def demo_drain_def demo_backup_def
  demo_handshake_def demo_install_def demo_accept_def demo_journal_def

lemma demo_new: "new_journal demo_offer = Ok demo_journal"
  by (simp add: demo_defs new_journal_def records_valid_def runtime_valid_def file_valid_def
      manifest_valid_def)

lemma demo_installed:
  "phase (run (after_call unix_platform) demo_journal demo_install) = Validating"
  by code_simp

lemma demo_resumed:
  "writes_resumed (run (after_call unix_platform) demo_journal (demo_install @ demo_accept))"
  by code_simp

lemma demo_accepting:
  "can_accept_writes (run (after_call unix_platform) demo_journal (demo_install @ demo_accept))"
  by code_simp

lemma demo_unhealthy:
  "next_action (run (after_call unix_platform) demo_journal
     (demo_install @ [CallRecordHealthFailure (lit ''down'')])) =
   RestorePreviousRuntime
     \<lparr>ri_binary = demo_file ''/opt/pa'' ''1.3.0'' ''b0'',
      ri_database = demo_file ''/data/pa.db'' ''7'' ''d9''\<rparr>
     (demo_file ''/data/pa.bak'' ''7'' ''d9'') (lit ''down'')"
  by code_simp

section \<open>Properties\<close>

text \<open>C5: whatever calls a journal created from an offer receives, in any order and however
  many of them are refused, it always passes the check that guards every read and write
  of the journal file.\<close>

theorem journal_runs_stay_valid:
  assumes "new_journal offer = Ok j"
  shows "validate_loaded pf (run (after_call pf) j cs) = Ok ()"
  by (intro journal.inv_run new_journal_ok [OF assms])

theorem journal_runs_stay_valid_witness:
  "validate_loaded unix_platform
     (run (after_call unix_platform) demo_journal (demo_install @ demo_accept)) = Ok ()"
  by (rule journal_runs_stay_valid [OF demo_new])

text \<open>C6: the operations refine the documented phase machine: a call that succeeds on a valid
  journal is one step of \<open>phase_step\<close> on the phase and the write flag.\<close>

theorem journal_refines_phase_machine:
  assumes "validate_loaded pf j = Ok ()" and "apply_call pf j c = Ok j'"
  shows "phase_step (phase j, writes_resumed j) (phase j', writes_resumed j')"
  using assms by (rule apply_call_phase_step)

theorem journal_refines_phase_machine_witness:
  "phase_step (Available, False) (Downloaded, False)"
proof -
  have v: "validate_loaded unix_platform demo_journal = Ok ()"
    by (rule new_journal_ok [OF demo_new])
  have "apply_call unix_platform demo_journal (CallRecordDownloaded demo_manifest)
      = Ok (demo_journal\<lparr>phase := Downloaded\<rparr>)"
    by code_simp
  from journal_refines_phase_machine [OF v this] show ?thesis
    using new_journal_fields [OF demo_new] by simp
qed

text \<open>C1: once writes have resumed, no later call can make the journal ask for the old
  runtime and database to be restored: new user data is never rolled back.\<close>

theorem no_rollback_once_writes_resumed:
  assumes "new_journal offer = Ok j" and "writes_resumed (run (after_call pf) j cs)"
  shows "next_action (run (after_call pf) j (cs @ ds)) \<noteq> RestorePreviousRuntime p s r"
proof -
  let ?k = "run (after_call pf) j (cs @ ds)"
  note ok = journal_runs_ok [OF assms(1)]
  have "writes_resumed ?k"
    unfolding run_append using ok assms(2) by (rule resumed.latch_run)
  then show ?thesis using next_action_restore [OF ok] by blast
qed

theorem no_rollback_once_writes_resumed_witness:
  "\<forall>p s r. next_action (run (after_call unix_platform) demo_journal
     ((demo_install @ demo_accept) @ [CallRecordPostResumeFailure (lit ''crash'')]))
   \<noteq> RestorePreviousRuntime p s r"
  using no_rollback_once_writes_resumed [OF demo_new demo_resumed] by blast

text \<open>From the moment the install is recorded as begun, whatever happens later, the journal
  never again hands out the install action: an interrupted install is only validated.\<close>

theorem install_never_offered_again:
  assumes "new_journal offer = Ok j"
    and "phase (run (after_call pf) j cs) = Installing"
  shows "next_action (run (after_call pf) j (cs @ ds)) \<noteq> InstallCandidate f m"
proof -
  note ok = journal_runs_ok [OF assms(1)]
  have "5 \<le> phase_rank (phase (run (after_call pf) j (cs @ ds)))"
    unfolding run_append by (rule journal.passed.latch_run [OF ok]) (simp add: assms(2))
  then show ?thesis by (auto simp: next_action_install [OF ok])
qed

theorem install_never_offered_again_witness:
  "\<forall>f m. next_action (run (after_call unix_platform) demo_journal
     (take 5 demo_install @ [CallBeginValidation, CallRecordHealthFailure (lit ''down'')]))
   \<noteq> InstallCandidate f m"
proof -
  have "phase (run (after_call unix_platform) demo_journal (take 5 demo_install)) = Installing"
    by code_simp
  from install_never_offered_again [OF demo_new this] show ?thesis by blast
qed

text \<open>a restore is only ever asked for with the verified backup of the very database that was
  frozen: the snapshot's digest is the digest of the database of the runtime to restore,
  the reason is not empty, and writes are not being accepted.\<close>

theorem restore_uses_verified_backup:
  assumes "validate_loaded pf j = Ok ()"
    and "next_action j = RestorePreviousRuntime p s r"
  shows "fi_sha256 s = fi_sha256 (ri_database p)
     \<and> (\<exists>b. backup j = Some b \<and> file_eq pf (vb_snapshot b) s
           \<and> vb_source_database_sha256 b = fi_sha256 (ri_database (previous j)))
     \<and> r \<noteq> [] \<and> \<not> can_accept_writes j"
proof -
  note restore = next_action_restore [OF assms]
  from assms(1) restore obtain b where
    "backup j = Some b" "backup_ok b (ri_database (previous j))"
    by (auto simp: result_simps phase_ok_def)
  with restore show ?thesis
    by (auto simp: runtime_eq_def file_eq_def can_accept_writes_def)
qed

theorem restore_uses_verified_backup_witness:
  "\<not> can_accept_writes (run (after_call unix_platform) demo_journal
     (demo_install @ [CallRecordHealthFailure (lit ''down'')]))"
  using restore_uses_verified_backup [OF journal_runs_ok [OF demo_new] demo_unhealthy] by blast

text \<open>an update accepts writes only if it was proven: among the calls there was a handshake
  with the offer's nonce, the candidate's paths and version and complete process and
  health evidence, which is the one recorded as installed, and a resumption with evidence.\<close>

theorem writes_need_handshake_and_resumption:
  assumes "new_journal offer = Ok j" and "can_accept_writes (run (after_call pf) j cs)"
  shows "\<exists>h w. CallAcceptHandshake h \<in> set cs \<and> handshake_ok pf j h
     \<and> installed (run (after_call pf) j cs)
         = Some \<lparr>ri_binary = hs_binary h, ri_database = hs_database h\<rparr>
     \<and> CallResumeWrites w \<in> set cs \<and> wr_evidence_id w \<noteq> []"
  using assms(2) proven_by_run [OF assms(1), of pf cs]
  unfolding can_accept_writes_def proven_by_def by blast

theorem writes_need_handshake_and_resumption_witness:
  "\<exists>h w. CallAcceptHandshake h \<in> set (demo_install @ demo_accept)
     \<and> handshake_ok unix_platform demo_journal h
     \<and> installed (run (after_call unix_platform) demo_journal (demo_install @ demo_accept))
         = Some \<lparr>ri_binary = hs_binary h, ri_database = hs_database h\<rparr>
     \<and> CallResumeWrites w \<in> set (demo_install @ demo_accept) \<and> wr_evidence_id w \<noteq> []"
  by (rule writes_need_handshake_and_resumption [OF demo_new demo_accepting])

end
