(* ===== verification/Journal_Store.thy ===== *)
theory Journal_Store
  imports Update_Journal
begin

text \<open>
  The durable half of \<open>src-tauri/src/delivery_recovery.rs\<close>: the journal file with its lock,
  its compare-and-swap on the revision and its atomic replacement (\<open>JournalStore\<close>), and the
  in-memory handle that persists every transition first (\<open>DurableJournal\<close>).  The file system
  is a record of what the next calls would find: file content, faults, and who holds the
  lock.  \<open>serde_json\<close> is a parameter, a codec whose documented round trip is the
  hypothesis \<open>serde_roundtrip\<close>.
\<close>

section \<open>The file system and the codec\<close>

datatype lock_outcome =
    LockFree
  | LockHeld \<comment> \<open>another writer is inside its compare-and-swap\<close>
  | LockOpenFails ustr
  | LockFails ustr

text \<open>
  \<open>WriteSyncFails\<close> is the one failure after the replacement: on unix the directory is
  synced last, so the new content is in place although the write reports an error.
\<close>

datatype write_outcome = WriteOk | WriteFails ustr | WriteSyncFails ustr

record 'b disk =
  content :: "'b option"
  not_found :: ustr
  read_fault :: "ustr option"
  lock_state :: lock_outcome
  write_state :: write_outcome
  parent_present :: bool

record 'b codec =
  parse :: "'b \<Rightarrow> ustr + update_journal"
  render :: "update_journal \<Rightarrow> ustr + 'b"

definition serde_roundtrip :: "'b codec \<Rightarrow> bool" where
  "serde_roundtrip c \<longleftrightarrow> (\<forall>j b. render c j = Ok b \<longrightarrow> parse c b = Ok j)"

record journal_store =
  js_path :: ustr

section \<open>The location of the journal\<close>

definition resolved :: "platform \<Rightarrow> (ustr \<Rightarrow> ustr option) \<Rightarrow> ustr \<Rightarrow> ustr option" where
  "resolved pf canonicalize path =
     (case canonicalize path of
        Some p \<Rightarrow> Some p
      | None \<Rightarrow>
         (case file_name pf path of
            None \<Rightarrow> None
          | Some leaf \<Rightarrow>
              (let dir = (case parent pf path of
                            Some d \<Rightarrow> if d = [] then lit ''.'' else d
                          | None \<Rightarrow> lit ''.'')
               in map_option (\<lambda>d. join_path pf d leaf) (canonicalize dir))))"

definition same_path :: "platform \<Rightarrow> (ustr \<Rightarrow> ustr option) \<Rightarrow> ustr \<Rightarrow> ustr \<Rightarrow> bool" where
  "same_path pf canonicalize left right =
     (case (resolved pf canonicalize left, resolved pf canonicalize right) of
        (Some l, Some r) \<Rightarrow> paths_equal pf l r
      | _ \<Rightarrow> paths_equal pf left right)"

definition new_store ::
  "platform \<Rightarrow> (ustr \<Rightarrow> ustr option) \<Rightarrow> ustr \<Rightarrow> ustr \<Rightarrow> recovery_error + journal_store" where
  "new_store pf canonicalize path database_path =
     (let sidecar = (\<lambda>suffix. with_file_name pf database_path
            ((case file_name pf database_path of None \<Rightarrow> [] | Some n \<Rightarrow> n) @ lit suffix))
      in if path = [] \<or> same_path pf canonicalize path database_path
            \<or> same_path pf canonicalize path (sidecar ''-wal'')
            \<or> same_path pf canonicalize path (sidecar ''-shm'')
         then Err (InvalidJournalLocation path)
         else Ok \<lparr>js_path = path\<rparr>)"

section \<open>Reading and writing\<close>

definition read_file :: "'b disk \<Rightarrow> ustr + 'b" where
  "read_file d =
     (case read_fault d of
        Some e \<Rightarrow> Err e
      | None \<Rightarrow> (case content d of None \<Rightarrow> Err (not_found d) | Some b \<Rightarrow> Ok b))"

definition load ::
  "platform \<Rightarrow> 'b codec \<Rightarrow> journal_store \<Rightarrow> 'b disk \<Rightarrow> recovery_error + update_journal" where
  "load pf c st d =
     (case read_file d of
        Err err \<Rightarrow> Err (Io (lit ''read '' @ js_path st @ lit '': '' @ err))
      | Ok bytes \<Rightarrow>
         (case parse c bytes of
            Err err \<Rightarrow> Err (Serialization (lit ''parse '' @ js_path st @ lit '': '' @ err))
          | Ok j \<Rightarrow> and_then (validate_loaded pf j) (\<lambda>_. Ok j)))"

definition acquire_write_lock ::
  "platform \<Rightarrow> journal_store \<Rightarrow> 'b disk \<Rightarrow> recovery_error + unit" where
  "acquire_write_lock pf st d =
     (case file_name pf (js_path st) of
        None \<Rightarrow> Err (InvalidJournalLocation (js_path st))
      | Some name \<Rightarrow>
         (let lock_path = with_file_name pf (js_path st) (name @ lit ''.lock'')
          in case lock_state d of
               LockFree \<Rightarrow> Ok ()
             | LockHeld \<Rightarrow> Err (ConcurrentWriter lock_path)
             | LockOpenFails e \<Rightarrow> Err (Io (lit ''open journal lock '' @ lock_path @ lit '': '' @ e))
             | LockFails e \<Rightarrow> Err (Io (lit ''lock journal '' @ lock_path @ lit '': '' @ e))))"

definition write_atomic ::
  "platform \<Rightarrow> ustr \<Rightarrow> 'b \<Rightarrow> 'b disk \<Rightarrow> (recovery_error + unit) \<times> 'b disk" where
  "write_atomic pf path body d =
     (case parent pf path of
        None \<Rightarrow> (Err (InvalidJournalLocation path), d)
      | Some dir \<Rightarrow>
          if \<not> parent_present d
          then (Err (Io (lit ''journal directory does not exist: '' @ dir)), d)
          else if file_name pf path = None then (Err (InvalidJournalLocation path), d)
          else (case write_state d of
                  WriteOk \<Rightarrow> (Ok (), d\<lparr>content := Some body\<rparr>)
                | WriteFails e \<Rightarrow> (Err (Io e), d)
                | WriteSyncFails e \<Rightarrow> (Err (Io e), d\<lparr>content := Some body\<rparr>)))"

definition write_body ::
  "platform \<Rightarrow> 'b codec \<Rightarrow> journal_store \<Rightarrow> update_journal \<Rightarrow> 'b disk
     \<Rightarrow> (recovery_error + unit) \<times> 'b disk" where
  "write_body pf c st j d =
     (case validate_loaded pf j of
        Err e \<Rightarrow> (Err e, d)
      | Ok _ \<Rightarrow>
         (case render c j of
            Err err \<Rightarrow> (Err (Serialization (lit ''serialize journal: '' @ err)), d)
          | Ok body \<Rightarrow> write_atomic pf (js_path st) body d))"

definition create_file ::
  "platform \<Rightarrow> 'b codec \<Rightarrow> journal_store \<Rightarrow> update_journal \<Rightarrow> 'b disk
     \<Rightarrow> (recovery_error + unit) \<times> 'b disk" where
  "create_file pf c st j d =
     (case acquire_write_lock pf st d of
        Err e \<Rightarrow> (Err e, d)
      | Ok _ \<Rightarrow>
          if content d \<noteq> None then (Err (JournalAlreadyExists (js_path st)), d)
          else write_body pf c st j d)"

definition compare_and_write ::
  "platform \<Rightarrow> 'b codec \<Rightarrow> journal_store \<Rightarrow> update_journal \<Rightarrow> u64 \<Rightarrow> 'b disk
     \<Rightarrow> (recovery_error + update_journal) \<times> 'b disk" where
  "compare_and_write pf c st j expected d =
     (case acquire_write_lock pf st d of
        Err e \<Rightarrow> (Err e, d)
      | Ok _ \<Rightarrow>
         (case load pf c st d of
            Err e \<Rightarrow> (Err e, d)
          | Ok current \<Rightarrow>
              if revision current \<noteq> expected
              then (Err (StaleWriter expected (revision current)), d)
              else (case checked_inc expected of
                      None \<Rightarrow> (Err (InvalidFact ''journal revision overflow''), d)
                    | Some bumped \<Rightarrow>
                       (case write_body pf c st (j\<lparr>revision := bumped\<rparr>) d of
                          (Err e, d') \<Rightarrow> (Err e, d')
                        | (Ok _, d') \<Rightarrow> (Ok (j\<lparr>revision := bumped\<rparr>), d')))))"

section \<open>The durable journal\<close>

record durable_journal =
  dj_store :: journal_store
  dj_journal :: update_journal

definition create_durable ::
  "platform \<Rightarrow> 'b codec \<Rightarrow> journal_store \<Rightarrow> update_journal \<Rightarrow> 'b disk
     \<Rightarrow> (recovery_error + durable_journal) \<times> 'b disk" where
  "create_durable pf c st j d =
     (case create_file pf c st j d of
        (Err e, d') \<Rightarrow> (Err e, d')
      | (Ok _, d') \<Rightarrow> (Ok \<lparr>dj_store = st, dj_journal = j\<rparr>, d'))"

definition open_durable ::
  "platform \<Rightarrow> 'b codec \<Rightarrow> journal_store \<Rightarrow> 'b disk \<Rightarrow> recovery_error + durable_journal" where
  "open_durable pf c st d =
     and_then (load pf c st d) (\<lambda>j. Ok \<lparr>dj_store = st, dj_journal = j\<rparr>)"

definition change ::
  "platform \<Rightarrow> 'b codec \<Rightarrow> (update_journal \<Rightarrow> recovery_error + update_journal)
     \<Rightarrow> durable_journal \<Rightarrow> 'b disk
     \<Rightarrow> (recovery_error + unit) \<times> durable_journal \<times> 'b disk" where
  "change pf c operation dj d =
     (case operation (dj_journal dj) of
        Err e \<Rightarrow> (Err e, dj, d)
      | Ok nxt \<Rightarrow>
         (case compare_and_write pf c (dj_store dj) nxt (revision (dj_journal dj)) d of
            (Err e, d') \<Rightarrow> (Err e, dj, d')
          | (Ok j', d') \<Rightarrow> (Ok (), dj\<lparr>dj_journal := j'\<rparr>, d')))"

text \<open>The eleven durable transitions, each the change by its journal operation.\<close>

definition durable_call ::
  "platform \<Rightarrow> 'b codec \<Rightarrow> journal_call \<Rightarrow> durable_journal \<Rightarrow> 'b disk
     \<Rightarrow> (recovery_error + unit) \<times> durable_journal \<times> 'b disk" where
  "durable_call pf c call = change pf c (\<lambda>j. apply_call pf j call)"

section \<open>How the file operations end\<close>

lemma load_Ok [result_simps]:
  "load pf c st d = Ok j \<longleftrightarrow>
     read_fault d = None \<and> (\<exists>b. content d = Some b \<and> parse c b = Ok j) \<and> journal_ok pf j"
  by (auto simp: load_def read_file_def result_simps split: sum.splits option.splits)

lemma lock_Ok [result_simps]:
  "acquire_write_lock pf st d = Ok u \<longleftrightarrow>
     file_name pf (js_path st) \<noteq> None \<and> lock_state d = LockFree"
  by (auto simp: acquire_write_lock_def Let_def split: option.splits lock_outcome.splits)

lemma write_body_Ok:
  assumes "write_body pf c st j d = (Ok u, d')"
  shows "\<exists>b. render c j = Ok b \<and> d' = d\<lparr>content := Some b\<rparr> \<and> journal_ok pf j"
  using assms
  by (auto simp: write_body_def write_atomic_def
      split: sum.splits option.splits if_splits write_outcome.splits)

lemma write_body_Err:
  assumes "write_body pf c st j d = (Err e, d')"
  shows "d' = d \<or> (\<exists>t b. write_state d = WriteSyncFails t \<and> e = Io t
    \<and> render c j = Ok b \<and> d' = d\<lparr>content := Some b\<rparr> \<and> journal_ok pf j)"
  using assms
  by (auto simp: write_body_def write_atomic_def
      split: sum.splits option.splits if_splits write_outcome.splits)

lemma compare_and_write_Ok:
  assumes "compare_and_write pf c st j r d = (Ok j', d')"
  shows "\<exists>k v b. load pf c st d = Ok k \<and> revision k = r \<and> checked_inc r = Some v
    \<and> j' = j\<lparr>revision := v\<rparr> \<and> render c j' = Ok b \<and> journal_ok pf j'
    \<and> d' = d\<lparr>content := Some b\<rparr>"
proof -
  from assms obtain k v where k: "load pf c st d = Ok k" "revision k = r" "checked_inc r = Some v"
    and w: "write_body pf c st (j\<lparr>revision := v\<rparr>) d = (Ok (), d')" and j': "j' = j\<lparr>revision := v\<rparr>"
    by (auto simp: compare_and_write_def split: sum.splits option.splits if_splits prod.splits)
  from write_body_Ok [OF w] show ?thesis using k j' by blast
qed

lemma compare_and_write_Err:
  assumes "compare_and_write pf c st j r d = (Err e, d')"
  shows "d' = d \<or> (\<exists>k v t b. write_state d = WriteSyncFails t \<and> e = Io t
    \<and> load pf c st d = Ok k \<and> revision k = r \<and> checked_inc r = Some v
    \<and> render c (j\<lparr>revision := v\<rparr>) = Ok b \<and> journal_ok pf (j\<lparr>revision := v\<rparr>)
    \<and> d' = d\<lparr>content := Some b\<rparr>)"
proof (cases "\<exists>k v. load pf c st d = Ok k \<and> revision k = r \<and> checked_inc r = Some v
    \<and> write_body pf c st (j\<lparr>revision := v\<rparr>) d = (Err e, d')")
  case True
  then obtain k v where k: "load pf c st d = Ok k" "revision k = r" "checked_inc r = Some v"
    and w: "write_body pf c st (j\<lparr>revision := v\<rparr>) d = (Err e, d')" by blast
  from write_body_Err [OF w] k show ?thesis by blast
next
  case False
  with assms show ?thesis
    by (auto simp: compare_and_write_def split: sum.splits option.splits if_splits prod.splits)
qed

lemma load_written:
  assumes "serde_roundtrip c" "load pf c st d = Ok k" "render c j = Ok b" "journal_ok pf j"
  shows "load pf c st (d\<lparr>content := Some b\<rparr>) = Ok j"
  using assms by (auto simp: serde_roundtrip_def result_simps)

section \<open>The contract of a revisioned store\<close>

text \<open>
  What a handle relies on: a successful swap was made on the revision it expected, is the
  content from then on and raises the revision by one; a swap that expected another
  revision fails and changes nothing.
\<close>

locale revision_store =
  fixes fetch :: "'d \<Rightarrow> 'e + 'j"
    and swap :: "'j \<Rightarrow> u64 \<Rightarrow> 'd \<Rightarrow> ('e + 'j) \<times> 'd"
    and version :: "'j \<Rightarrow> u64"
    and lawful :: "'d \<Rightarrow> bool"
  assumes lawful_swap: "lawful d \<Longrightarrow> lawful (snd (swap j r d))"
    and swap_expected: "lawful d \<Longrightarrow> swap j r d = (Ok j', d')
      \<Longrightarrow> \<exists>k. fetch d = Ok k \<and> version k = r"
    and swap_fetch: "lawful d \<Longrightarrow> swap j r d = (Ok j', d') \<Longrightarrow> fetch d' = Ok j'"
    and swap_version: "lawful d \<Longrightarrow> swap j r d = (Ok j', d')
      \<Longrightarrow> unat (version j') = Suc (unat r)"
    and swap_stale: "lawful d \<Longrightarrow> fetch d = Ok k \<Longrightarrow> version k \<noteq> r
      \<Longrightarrow> \<exists>e. swap j r d = (Err e, d)"
begin

lemma no_lost_update:
  assumes "lawful d" "swap j r d = (Ok j', d')"
  shows "\<exists>e. swap i r d' = (Err e, d')"
proof (rule swap_stale)
  show "lawful d'" using lawful_swap [OF assms(1), of j r] assms(2) by simp
  show "fetch d' = Ok j'" by (rule swap_fetch [OF assms])
  show "version j' \<noteq> r" using swap_version [OF assms] by auto
qed

lemma swaps_in_order:
  assumes "lawful d" "swap j r d = (Ok j', d')" "swap i q d' = (Ok i', d'')"
  shows "q = version j' \<and> unat (version i') = Suc (Suc (unat r))"
proof -
  have l: "lawful d'" using lawful_swap [OF assms(1), of j r] assms(2) by simp
  from swap_expected [OF l assms(3)] swap_fetch [OF assms(1,2)] have "q = version j'" by auto
  with swap_version [OF l assms(3)] swap_version [OF assms(1,2)] show ?thesis by simp
qed

end

interpretation file_store:
  revision_store "load pf c st" "compare_and_write pf c st" revision "\<lambda>_. serde_roundtrip c"
  for pf c st
proof
  fix d :: "'a disk" and j r j' d'
  assume c: "serde_roundtrip c" and s: "compare_and_write pf c st j r d = (Ok j', d')"
  note eff = compare_and_write_Ok [OF s]
  from eff show "\<exists>k. load pf c st d = Ok k \<and> revision k = r" by blast
  from eff show "load pf c st d' = Ok j'" using load_written [OF c] by blast
  from eff show "unat (revision j') = Suc (unat r)"
    by (auto simp: arith_bounds)
next
  fix d :: "'a disk" and j r k
  assume "load pf c st d = Ok k" "revision k \<noteq> r"
  then show "\<exists>e. compare_and_write pf c st j r d = (Err e, d)"
    by (auto simp: compare_and_write_def split: sum.splits)
qed auto

section \<open>One durable change\<close>

lemma apply_call_revision: "apply_call pf j call = Ok n \<Longrightarrow> revision n = revision j"
  by (cases call) (auto simp: result_simps)

text \<open>The three ways a durable call ends, as facts about file and handle.\<close>

lemma durable_call_cases:
  assumes "durable_call pf c call dj d = (r, dj', d')"
  obtains (refused) e where "r = Err e" "dj' = dj" "d' = d"
  | (unsynced) k n v t b where "r = Err (Io t)" "write_state d = WriteSyncFails t" "dj' = dj"
      "load pf c (dj_store dj) d = Ok k" "revision k = revision (dj_journal dj)"
      "apply_call pf (dj_journal dj) call = Ok n" "checked_inc (revision k) = Some v"
      "render c (n\<lparr>revision := v\<rparr>) = Ok b" "journal_ok pf (n\<lparr>revision := v\<rparr>)"
      "d' = d\<lparr>content := Some b\<rparr>"
  | (written) k n v b where "r = Ok ()" "dj' = dj\<lparr>dj_journal := n\<lparr>revision := v\<rparr>\<rparr>"
      "load pf c (dj_store dj) d = Ok k" "revision k = revision (dj_journal dj)"
      "apply_call pf (dj_journal dj) call = Ok n" "checked_inc (revision k) = Some v"
      "render c (n\<lparr>revision := v\<rparr>) = Ok b" "journal_ok pf (n\<lparr>revision := v\<rparr>)"
      "d' = d\<lparr>content := Some b\<rparr>"
proof (cases "apply_call pf (dj_journal dj) call")
  case (Inl e)
  then show ?thesis using assms refused by (auto simp: durable_call_def change_def)
next
  case op: (Inr n)
  obtain q e' where q: "compare_and_write pf c (dj_store dj) n (revision (dj_journal dj)) d = (q, e')"
    by fastforce
  show ?thesis
  proof (cases q)
    case (Inl e)
    then have out: "r = Err e" "dj' = dj" "d' = e'"
      using assms op q by (simp_all add: durable_call_def change_def)
    from compare_and_write_Err [OF q [unfolded Inl]] show ?thesis
    proof (elim disjE exE conjE)
      assume "e' = d"
      then show ?thesis using out refused by simp
    next
      fix k v t b
      assume "e = Io t" "write_state d = WriteSyncFails t" "load pf c (dj_store dj) d = Ok k"
        "revision k = revision (dj_journal dj)" "checked_inc (revision (dj_journal dj)) = Some v"
        "render c (n\<lparr>revision := v\<rparr>) = Ok b" "journal_ok pf (n\<lparr>revision := v\<rparr>)"
        "e' = d\<lparr>content := Some b\<rparr>"
      then show ?thesis
        using out op by (intro unsynced [where k = k and n = n and v = v and t = t and b = b]) auto
    qed
  next
    case (Inr j')
    then have out: "r = Ok ()" "dj' = dj\<lparr>dj_journal := j'\<rparr>" "d' = e'"
      using assms op q by (simp_all add: durable_call_def change_def)
    from compare_and_write_Ok [OF q [unfolded Inr]] obtain k v b where
      "load pf c (dj_store dj) d = Ok k" "revision k = revision (dj_journal dj)"
      "checked_inc (revision (dj_journal dj)) = Some v" "j' = n\<lparr>revision := v\<rparr>"
      "render c j' = Ok b" "journal_ok pf j'" "e' = d\<lparr>content := Some b\<rparr>"
      by blast
    then show ?thesis
      using out op by (intro written [where k = k and n = n and v = v and b = b]) auto
  qed
qed

section \<open>Several handles on one journal\<close>

record 'b system =
  sys_disk :: "'b disk"
  handles :: "durable_journal list"

text \<open>
  Any number of handles, opened at any time, call in any order, while the environment
  may raise and clear faults and take and free the lock, but leaves the content alone.
\<close>

inductive system_step ::
  "platform \<Rightarrow> 'b codec \<Rightarrow> journal_store \<Rightarrow> 'b system \<Rightarrow> 'b system \<Rightarrow> bool"
  for pf c st where
  opened: "open_durable pf c st (sys_disk s) = Ok dj \<Longrightarrow>
     system_step pf c st s (s\<lparr>handles := handles s @ [dj]\<rparr>)"
| called: "i < length (handles s) \<Longrightarrow>
     durable_call pf c call (handles s ! i) (sys_disk s) = (r, dj', d') \<Longrightarrow>
     system_step pf c st s \<lparr>sys_disk = d', handles = (handles s)[i := dj']\<rparr>"
| environment: "content d = content (sys_disk s) \<Longrightarrow>
     system_step pf c st s (s\<lparr>sys_disk := d\<rparr>)"

definition holds :: "platform \<Rightarrow> 'b codec \<Rightarrow> 'b disk \<Rightarrow> update_journal \<Rightarrow> bool" where
  "holds pf c d k \<longleftrightarrow>
     (\<exists>b. content d = Some b \<and> parse c b = Ok k) \<and> validate_loaded pf k = Ok ()"

text \<open>What one step may do to the journal in the file.\<close>

definition advances :: "platform \<Rightarrow> update_journal \<Rightarrow> update_journal \<Rightarrow> bool" where
  "advances pf k k' \<longleftrightarrow>
     (\<exists>call n v. apply_call pf k call = Ok n \<and> checked_inc (revision k) = Some v
        \<and> k' = n\<lparr>revision := v\<rparr>)"

text \<open>A handle holds what the file holds, or an earlier version of it.\<close>

definition handle_coherent :: "platform \<Rightarrow> journal_store \<Rightarrow> update_journal \<Rightarrow> durable_journal \<Rightarrow> bool" where
  "handle_coherent pf st k h \<longleftrightarrow>
     dj_store h = st \<and> validate_loaded pf (dj_journal h) = Ok ()
     \<and> (advances pf)\<^sup>*\<^sup>* (dj_journal h) k"

definition coherent :: "platform \<Rightarrow> 'b codec \<Rightarrow> journal_store \<Rightarrow> 'b system \<Rightarrow> bool" where
  "coherent pf c st s \<longleftrightarrow>
     (\<exists>k. holds pf c (sys_disk s) k \<and> (\<forall>h\<in>set (handles s). handle_coherent pf st k h))"

lemma holds_load: "load pf c st d = Ok k \<Longrightarrow> holds pf c d k"
  by (auto simp: holds_def result_simps)

lemma holds_unique: "holds pf c d k \<Longrightarrow> holds pf c d k' \<Longrightarrow> k' = k"
  by (auto simp: holds_def)

lemma holds_written:
  "serde_roundtrip c \<Longrightarrow> render c j = Ok b \<Longrightarrow> journal_ok pf j \<Longrightarrow>
   holds pf c (d\<lparr>content := Some b\<rparr>) j"
  by (auto simp: holds_def serde_roundtrip_def)

lemma advances_revision: "advances pf k k' \<Longrightarrow> unat (revision k') = Suc (unat (revision k))"
  by (auto simp: advances_def arith_bounds)

lemma advances_behind:
  "(advances pf)\<^sup>*\<^sup>* j k \<Longrightarrow> unat (revision j) < unat (revision k) \<or> j = k"
  by (induction rule: rtranclp_induct) (auto dest!: advances_revision)

lemma handle_coherent_current:
  "handle_coherent pf st k h \<Longrightarrow> revision k = revision (dj_journal h) \<Longrightarrow> dj_journal h = k"
  by (auto simp: handle_coherent_def dest: advances_behind)

lemma handle_coherent_advance:
  "handle_coherent pf st k h \<Longrightarrow> advances pf k k' \<Longrightarrow> handle_coherent pf st k' h"
  by (auto simp: handle_coherent_def)

lemma call_step:
  assumes c: "serde_roundtrip c" and k: "holds pf c d k" and h: "handle_coherent pf st k h"
    and call: "durable_call pf c call h d = (r, h', d')"
  shows "\<exists>k'. holds pf c d' k' \<and> handle_coherent pf st k' h' \<and> (k' = k \<or> advances pf k k')"
  using call
proof (cases rule: durable_call_cases)
  case (refused e)
  then show ?thesis using k h by blast
next
  case (unsynced m n v t b)
  have "m = k" using unsynced(4) k holds_load holds_unique by blast
  with h unsynced(5) have eq: "dj_journal h = k" using handle_coherent_current by blast
  with unsynced \<open>m = k\<close> have adv: "advances pf k (n\<lparr>revision := v\<rparr>)"
    by (auto simp: advances_def)
  show ?thesis
    using holds_written [OF c unsynced(8,9)] unsynced(3,10) adv handle_coherent_advance [OF h adv]
    by blast
next
  case (written m n v b)
  have "m = k" using written(3) k holds_load holds_unique by blast
  with h written(4) have eq: "dj_journal h = k" using handle_coherent_current by blast
  with written \<open>m = k\<close> have adv: "advances pf k (n\<lparr>revision := v\<rparr>)"
    by (auto simp: advances_def)
  have "handle_coherent pf st (n\<lparr>revision := v\<rparr>) h'"
    using h written(2,8) by (simp add: handle_coherent_def)
  then show ?thesis
    using holds_written [OF c written(7,8)] written(9) adv by blast
qed

lemma system_step_linear:
  assumes c: "serde_roundtrip c" and step: "system_step pf c st s t"
    and k: "holds pf c (sys_disk s) k" and hs: "\<forall>h\<in>set (handles s). handle_coherent pf st k h"
  shows "\<exists>k'. holds pf c (sys_disk t) k' \<and> (\<forall>h\<in>set (handles t). handle_coherent pf st k' h)
    \<and> (k' = k \<or> advances pf k k')"
  using step
proof cases
  case (opened dj)
  then obtain m where m: "load pf c st (sys_disk s) = Ok m" "dj = \<lparr>dj_store = st, dj_journal = m\<rparr>"
    by (auto simp: open_durable_def result_simps)
  from holds_load [OF m(1)] k have "m = k" by (rule holds_unique [symmetric])
  with m k have "handle_coherent pf st k dj" by (simp add: handle_coherent_def holds_def)
  then show ?thesis using opened k hs by auto
next
  case (called i call r dj' d')
  have "handle_coherent pf st k (handles s ! i)" using called(2) hs by simp
  from call_step [OF c k this called(3)] obtain k' where
    k': "holds pf c d' k'" "handle_coherent pf st k' dj'" "k' = k \<or> advances pf k k'" by blast
  have "\<forall>h\<in>set (handles s). handle_coherent pf st k' h"
    using hs k'(3) handle_coherent_advance by blast
  then have "\<forall>h\<in>set ((handles s)[i := dj']). handle_coherent pf st k' h"
    using k'(2) set_update_subset_insert [of "handles s" i dj'] by blast
  then show ?thesis using called(1) k' by auto
next
  case (environment d)
  then show ?thesis using k hs by (auto simp: holds_def)
qed

text \<open>The check does not look at the revision.\<close>

lemma recovery_action_safe_revision [simp]:
  "recovery_action_safe pf (n\<lparr>revision := v\<rparr>) = recovery_action_safe pf n"
  by (simp add: recovery_action_safe_def cong: option.case_cong recovery_action.case_cong)

lemma journal_ok_revision: "journal_ok pf (n\<lparr>revision := v\<rparr>) = journal_ok pf n"
  by (simp add: result_simps phase_ok_def)

lemma apply_call_not_overflown:
  "journal_ok pf j \<Longrightarrow> apply_call pf j call = Ok n \<Longrightarrow> journal_ok pf (n\<lparr>revision := v\<rparr>)"
  unfolding journal_ok_revision by (rule apply_call_ok)

section \<open>A worked file\<close>

definition demo_codec :: "update_journal codec" where
  "demo_codec = \<lparr>parse = (\<lambda>j. Ok j), render = (\<lambda>j. Ok j)\<rparr>"

definition demo_store :: journal_store where
  "demo_store = \<lparr>js_path = lit ''/data/update-recovery.json''\<rparr>"

definition demo_disk :: "update_journal disk" where
  "demo_disk = \<lparr>content = Some demo_journal, not_found = lit ''not found'', read_fault = None,
     lock_state = LockFree, write_state = WriteOk, parent_present = True\<rparr>"

definition demo_handle :: durable_journal where
  "demo_handle = \<lparr>dj_store = demo_store, dj_journal = demo_journal\<rparr>"

lemma demo_roundtrip: "serde_roundtrip demo_codec"
  by (simp add: serde_roundtrip_def demo_codec_def)

lemma demo_journal_ok: "validate_loaded pf demo_journal = Ok ()"
  by (rule new_journal_ok [OF demo_new])

lemma demo_file_name: "file_name unix_platform (js_path demo_store) \<noteq> None"
  by code_simp

lemma demo_parent: "parent unix_platform (js_path demo_store) \<noteq> None"
  by code_simp

lemma demo_load: "load unix_platform demo_codec demo_store demo_disk = Ok demo_journal"
  by (simp add: load_Ok demo_disk_def demo_codec_def demo_journal_ok)

definition demo_downloaded :: update_journal where
  "demo_downloaded = demo_journal\<lparr>phase := Downloaded, revision := 1\<rparr>"

lemma demo_call:
  "durable_call unix_platform demo_codec (CallRecordDownloaded demo_manifest) demo_handle demo_disk
   = (Ok (), demo_handle\<lparr>dj_journal := demo_downloaded\<rparr>,
      demo_disk\<lparr>content := Some demo_downloaded\<rparr>)"
  by code_simp

section \<open>Properties\<close>

text \<open>C7: a durable transition is all or nothing: when it succeeds, the file holds exactly the journal
  the handle now has, one revision on; when it fails, the handle is unchanged and so is
  the file, except where the replacement succeeded and only the final directory sync failed.\<close>

theorem durable_change_is_atomic:
  assumes "serde_roundtrip c" and "durable_call pf c call dj d = (r, dj', d')"
  shows "(r = Ok () \<longrightarrow> load pf c (dj_store dj) d' = Ok (dj_journal dj')
            \<and> unat (revision (dj_journal dj')) = Suc (unat (revision (dj_journal dj))))
     \<and> (r \<noteq> Ok () \<longrightarrow> dj' = dj
            \<and> (d' = d \<or> (\<exists>t. write_state d = WriteSyncFails t \<and> r = Err (Io t))))"
  using assms(2)
proof (cases rule: durable_call_cases)
  case (written k n v b)
  then show ?thesis
    using load_written [OF assms(1) written(3,7,8)] by (auto simp: arith_bounds)
qed auto

theorem durable_change_is_atomic_witness:
  "load unix_platform demo_codec demo_store (demo_disk\<lparr>content := Some demo_downloaded\<rparr>)
   = Ok demo_downloaded"
  using durable_change_is_atomic [OF demo_roundtrip demo_call] by (simp add: demo_handle_def)

text \<open>C2: any number of handles that open the journal and call it in any interleaving, with lock
  contention and write faults, act like one journal: a step changes the file's journal by at
  most one of its operations with the revision raised by one, and every handle keeps holding
  the file's journal or an earlier version of it.\<close>

theorem interleaved_writers_linearise:
  assumes "serde_roundtrip c" and "coherent pf c st s" and "system_step pf c st s t"
  shows "coherent pf c st t
     \<and> (\<exists>k k'. holds pf c (sys_disk s) k \<and> holds pf c (sys_disk t) k'
          \<and> (k' = k \<or> advances pf k k'))"
proof -
  from assms(2) obtain k where k: "holds pf c (sys_disk s) k"
    "\<forall>h\<in>set (handles s). handle_coherent pf st k h"
    by (auto simp: coherent_def)
  from system_step_linear [OF assms(1,3) k] k(1) show ?thesis
    unfolding coherent_def by blast
qed

theorem interleaved_writers_linearise_witness:
  "coherent unix_platform demo_codec demo_store
     \<lparr>sys_disk = demo_disk, handles = [demo_handle]\<rparr>"
proof -
  have h: "holds unix_platform demo_codec demo_disk demo_journal"
    by (rule holds_load [OF demo_load])
  then have "coherent unix_platform demo_codec demo_store \<lparr>sys_disk = demo_disk, handles = []\<rparr>"
    by (auto simp: coherent_def)
  moreover have "system_step unix_platform demo_codec demo_store
      \<lparr>sys_disk = demo_disk, handles = []\<rparr>
      (\<lparr>sys_disk = demo_disk, handles = []\<rparr>\<lparr>handles := [] @ [demo_handle]\<rparr>)"
    using system_step.opened [of unix_platform demo_codec demo_store
        "\<lparr>sys_disk = demo_disk, handles = []\<rparr>" demo_handle]
    by (simp add: open_durable_def demo_load demo_handle_def)
  ultimately show ?thesis
    using interleaved_writers_linearise [OF demo_roundtrip] by fastforce
qed

text \<open>No update is lost: after one handle's transition was written, a second handle that still holds
  the same revision cannot write, whatever it calls, and leaves the file alone.\<close>

theorem second_writer_is_refused:
  assumes "serde_roundtrip c" and "dj_store g = dj_store h"
    and "revision (dj_journal g) = revision (dj_journal h)"
    and "durable_call pf c call h d = (Ok (), h', d')"
  shows "\<exists>e. durable_call pf c other g d' = (Err e, g, d')"
proof (cases "apply_call pf (dj_journal g) other")
  case (Inl e)
  then show ?thesis by (simp add: durable_call_def change_def)
next
  case (Inr n)
  from assms(4) obtain m j' where
    "compare_and_write pf c (dj_store h) m (revision (dj_journal h)) d = (Ok j', d')"
    by (auto simp: durable_call_def change_def split: sum.splits prod.splits)
  from file_store.no_lost_update [OF assms(1) this, of n]
  show ?thesis using Inr assms(2,3) by (auto simp: durable_call_def change_def)
qed

theorem second_writer_is_refused_witness:
  "\<exists>e. durable_call unix_platform demo_codec CallWaitForIdle demo_handle
     (demo_disk\<lparr>content := Some demo_downloaded\<rparr>)
   = (Err e, demo_handle, demo_disk\<lparr>content := Some demo_downloaded\<rparr>)"
  by (rule second_writer_is_refused [OF demo_roundtrip refl refl demo_call])

text \<open>a transition the journal allows is written whenever the file can be: with the lock free, no
  fault, the handle current and the revision below its maximum, the call succeeds.\<close>

theorem allowed_transition_is_written:
  assumes "load pf c (dj_store dj) d = Ok (dj_journal dj)"
    and "apply_call pf (dj_journal dj) call = Ok n"
    and "revision (dj_journal dj) \<noteq> - 1" and "lock_state d = LockFree"
    and "write_state d = WriteOk" and "parent_present d"
    and "file_name pf (js_path (dj_store dj)) \<noteq> None" and "parent pf (js_path (dj_store dj)) \<noteq> None"
    and "\<forall>j. is_ok (render c j)"
  shows "fst (durable_call pf c call dj d) = Ok ()"
proof -
  let ?j = "dj_journal dj" and ?st = "dj_store dj"
  obtain v where v: "checked_inc (revision ?j) = Some v"
    using assms(3) by (simp add: checked_inc_def)
  have "journal_ok pf (n\<lparr>revision := v\<rparr>)"
    by (rule apply_call_not_overflown [OF _ assms(2)]) (use assms(1) in \<open>simp add: load_Ok\<close>)
  moreover obtain b where "render c (n\<lparr>revision := v\<rparr>) = Ok b"
    using assms(9) by (auto simp: is_ok_iff)
  ultimately have "write_body pf c ?st (n\<lparr>revision := v\<rparr>) d = (Ok (), d\<lparr>content := Some b\<rparr>)"
    using assms(5-8) by (auto simp: write_body_def write_atomic_def)
  moreover have "acquire_write_lock pf ?st d = Ok ()"
    using assms(4,7) by (simp add: lock_Ok)
  ultimately show ?thesis
    using assms(1,2) v by (simp add: durable_call_def change_def compare_and_write_def)
qed

theorem allowed_transition_is_written_witness:
  "fst (durable_call unix_platform demo_codec (CallRecordDownloaded demo_manifest)
     demo_handle demo_disk) = Ok ()"
proof (rule allowed_transition_is_written)
  show "load unix_platform demo_codec (dj_store demo_handle) demo_disk
      = Ok (dj_journal demo_handle)"
    by (simp add: demo_load demo_handle_def)
  show "apply_call unix_platform (dj_journal demo_handle) (CallRecordDownloaded demo_manifest)
      = Ok (demo_journal\<lparr>phase := Downloaded\<rparr>)"
    by code_simp
  show "revision (dj_journal demo_handle) \<noteq> - 1"
    by code_simp
qed (simp_all add: demo_handle_def demo_file_name demo_parent, simp_all add: demo_disk_def demo_codec_def)

end
