(* ===== verification/Recovery_Driver.thy ===== *)
theory Recovery_Driver
  imports Journal_Store
begin

text \<open>
  The recovery driver of \<open>src-tauri/src/delivery_recovery/driver.rs\<close>, which executes the one
  action the journal derives, the start-up recovery of
  \<open>src-tauri/src/delivery_recovery/startup.rs\<close> that decides whether the database may
  open, the gate of \<open>install.rs\<close> and the classification of an installer run of
  \<open>installer.rs\<close>.  The effects of the trait
  \<open>RecoveryEffects\<close> are functions on a state of their own that see the
  journal file as it is when they run.  A path that exists is one with content: a journal that exists
  but cannot be read is content that does not open.
\<close>

section \<open>Effects\<close>

type_synonym ('e, 'b, 'r) effect = "'b disk \<Rightarrow> 'e \<Rightarrow> (ustr + 'r) \<times> 'e"

record ('e, 'b) recovery_effects =
  fx_verify_backup :: "('e, 'b, verified_backup) effect"
  fx_install :: "file_identity \<Rightarrow> staged_manifest_identity \<Rightarrow> ('e, 'b, unit) effect"
  fx_validate :: "runtime_identity \<Rightarrow> ustr \<Rightarrow> ('e, 'b, instance_handshake) effect"
  fx_resume_writes :: "('e, 'b, write_resumption) effect"
  fx_promote :: "ustr \<Rightarrow> ('e, 'b, promotion_receipt) effect"
  fx_restore :: "runtime_identity \<Rightarrow> file_identity \<Rightarrow> ('e, 'b, unit) effect"
  fx_quarantine :: "ustr \<Rightarrow> ('e, 'b, unit) effect"

datatype step_outcome = Idle | Executed recovery_action

record ('e, 'b) driver =
  journal :: durable_journal
  effects :: 'e
  filesystem :: "'b disk"

section \<open>One step\<close>

text \<open>A durable call of the driver, and an effect whose failure is an error of the driver.\<close>

definition journal_call ::
  "platform \<Rightarrow> 'b codec \<Rightarrow> journal_call \<Rightarrow> ('e, 'b) driver
     \<Rightarrow> (recovery_error + unit) \<times> ('e, 'b) driver" where
  "journal_call pf c call w =
     (case durable_call pf c call (journal w) (filesystem w) of
        (r, dj, d) \<Rightarrow> (r, w\<lparr>journal := dj, filesystem := d\<rparr>))"

definition perform ::
  "('e, 'b, 'r) effect \<Rightarrow> ('e, 'b) driver \<Rightarrow> (ustr + 'r) \<times> ('e, 'b) driver" where
  "perform fx w = (case fx (filesystem w) (effects w) of (r, e) \<Rightarrow> (r, w\<lparr>effects := e\<rparr>))"

definition effect_error :: "ustr + 'r \<Rightarrow> recovery_error + 'r" where
  "effect_error r = (case r of Err reason \<Rightarrow> Err (Effect reason) | Ok x \<Rightarrow> Ok x)"

definition health_failure_if_rejected ::
  "platform \<Rightarrow> 'b codec \<Rightarrow> (recovery_error + unit) \<times> ('e, 'b) driver
     \<Rightarrow> (recovery_error + unit) \<times> ('e, 'b) driver" where
  "health_failure_if_rejected pf c out =
     (case out of
        (Err (IdentityMismatch m), w) \<Rightarrow>
          journal_call pf c (CallRecordHealthFailure (error_text (IdentityMismatch m))) w
      | (Err (InvalidFact m), w) \<Rightarrow>
          journal_call pf c (CallRecordHealthFailure (error_text (InvalidFact m))) w
      | other \<Rightarrow> other)"

definition execute ::
  "platform \<Rightarrow> 'b codec \<Rightarrow> ('e, 'b) recovery_effects \<Rightarrow> recovery_action \<Rightarrow> ('e, 'b) driver
     \<Rightarrow> (recovery_error + unit) \<times> ('e, 'b) driver" where
  "execute pf c fx action w =
     (case action of
        NoAction \<Rightarrow> (Ok (), w)
      | WaitForIdle \<Rightarrow> (Ok (), w)
      | VerifyCoherentBackup \<Rightarrow>
         (case perform (fx_verify_backup fx) w of
            (Err reason, w) \<Rightarrow> (Err (Effect reason), w)
          | (Ok b, w) \<Rightarrow> journal_call pf c (CallVerifyBackup b) w)
      | InstallCandidate cand manifest \<Rightarrow>
         (case journal_call pf c CallBeginInstall w of
            (Err e, w) \<Rightarrow> (Err e, w)
          | (Ok _, w) \<Rightarrow> apfst effect_error (perform (fx_install fx cand manifest) w))
      | ValidateCandidate cand nce \<Rightarrow>
         (case (if phase (dj_journal (journal w)) = Installing
                then journal_call pf c CallBeginValidation w else (Ok (), w)) of
            (Err e, w) \<Rightarrow> (Err e, w)
          | (Ok _, w) \<Rightarrow>
             (case perform (fx_validate fx cand nce) w of
                (Ok handshake, w) \<Rightarrow>
                  health_failure_if_rejected pf c
                    (journal_call pf c (CallAcceptHandshake handshake) w)
              | (Err reason, w) \<Rightarrow> journal_call pf c (CallRecordHealthFailure reason) w))
      | ResumeWrites \<Rightarrow>
         (case perform (fx_resume_writes fx) w of
            (Err reason, w) \<Rightarrow> (Err (Effect reason), w)
          | (Ok proof, w) \<Rightarrow>
              health_failure_if_rejected pf c (journal_call pf c (CallResumeWrites proof) w))
      | PromoteSameSignedBytes _ _ cid \<Rightarrow>
         (case perform (fx_promote fx cid) w of
            (Err reason, w) \<Rightarrow> (Err (Effect reason), w)
          | (Ok receipt, w) \<Rightarrow> journal_call pf c (CallPromote receipt) w)
      | RestorePreviousRuntime prev snapshot _ \<Rightarrow>
          apfst effect_error (perform (fx_restore fx prev snapshot) w)
      | QuarantineCurrentState reason \<Rightarrow>
          apfst effect_error (perform (fx_quarantine fx reason) w))"

definition step ::
  "platform \<Rightarrow> 'b codec \<Rightarrow> ('e, 'b) recovery_effects \<Rightarrow> ('e, 'b) driver
     \<Rightarrow> (recovery_error + step_outcome) \<times> ('e, 'b) driver" where
  "step pf c fx w =
     (let action = next_action (dj_journal (journal w))
      in case action of
           NoAction \<Rightarrow> (Ok Idle, w)
         | WaitForIdle \<Rightarrow> (Ok Idle, w)
         | _ \<Rightarrow>
            (case execute pf c fx action w of
               (Err e, w') \<Rightarrow> (Err e, w')
             | (Ok _, w') \<Rightarrow> (Ok (Executed action), w')))"

section \<open>Start-up recovery\<close>

text \<open>Why the database stays closed, one case per message of the code.\<close>

datatype startup_refusal =
    JournalUnreadable recovery_error
  | RecoveryStepFailed recovery_error
  | NotArchived ustr
  | RecoveryRan recovery_action
  | WritesBlocked update_phase

definition writable :: "update_journal \<Rightarrow> bool" where
  "writable j =
     (case phase j of
        Available \<Rightarrow> True | Downloaded \<Rightarrow> True | WaitingIdle \<Rightarrow> True
      | Maintenance \<Rightarrow> True | BackupVerified \<Rightarrow> True
      | _ \<Rightarrow> can_accept_writes j)"

text \<open>
  \<open>archive_record_stamped\<close>: the first free record name of the stamp takes the journal.
  What exists and whether the rename succeeds are the file system's; the budget is the
  number of names tried.
\<close>

definition ARCHIVE_SUFFIX_BUDGET :: nat where
  "ARCHIVE_SUFFIX_BUDGET = 100"

record archive_fs =
  exists_path :: "ustr \<Rightarrow> bool"
  rename_fault :: "ustr option"

definition record_name :: "platform \<Rightarrow> ustr \<Rightarrow> ustr \<Rightarrow> nat \<Rightarrow> ustr" where
  "record_name pf store_path stamp n =
     with_extension pf store_path
       (lit ''restored.'' @ stamp @ (if n = 0 then [] else 45 # decimal n) @ lit ''.json'')"

definition archive_record_stamped ::
  "platform \<Rightarrow> archive_fs \<Rightarrow> ustr \<Rightarrow> ustr \<Rightarrow> 'b disk \<Rightarrow> (ustr + ustr) \<times> 'b disk" where
  "archive_record_stamped pf afs store_path stamp d =
     (case find (\<lambda>n. \<not> exists_path afs (record_name pf store_path stamp n))
             [0..<ARCHIVE_SUFFIX_BUDGET] of
        None \<Rightarrow> (Err (decimal ARCHIVE_SUFFIX_BUDGET
                     @ lit '' rollback records already carry the stamp '' @ stamp), d)
      | Some n \<Rightarrow>
         (case rename_fault afs of
            Some e \<Rightarrow> (Err e, d)
          | None \<Rightarrow> (Ok (record_name pf store_path stamp n), d\<lparr>content := None\<rparr>)))"

definition finish_recovery :: "('e, 'b) driver \<Rightarrow> (startup_refusal + unit) \<times> ('e, 'b) driver" where
  "finish_recovery w =
     (let j = dj_journal (journal w)
      in (if writable j then Ok () else Err (WritesBlocked (phase j)), w))"

fun recover_loop ::
  "nat \<Rightarrow> platform \<Rightarrow> 'b codec \<Rightarrow> ('e, 'b) recovery_effects \<Rightarrow> archive_fs \<Rightarrow> ustr
     \<Rightarrow> ('e, 'b) driver \<Rightarrow> (startup_refusal + unit) \<times> ('e, 'b) driver" where
  "recover_loop 0 pf c fx afs stamp w = finish_recovery w"
| "recover_loop (Suc n) pf c fx afs stamp w =
     (let action = next_action (dj_journal (journal w))
      in case action of
           RestorePreviousRuntime _ _ _ \<Rightarrow>
             (case step pf c fx w of
                (Err e, w) \<Rightarrow> (Err (RecoveryStepFailed e), w)
              | (Ok _, w) \<Rightarrow>
                 (case archive_record_stamped pf afs (js_path (dj_store (journal w))) stamp
                         (filesystem w) of
                    (Err e, d) \<Rightarrow> (Err (NotArchived e), w\<lparr>filesystem := d\<rparr>)
                  | (Ok _, d) \<Rightarrow> (Ok (), w\<lparr>filesystem := d\<rparr>)))
         | QuarantineCurrentState _ \<Rightarrow>
             (case step pf c fx w of
                (Err e, w) \<Rightarrow> (Err (RecoveryStepFailed e), w)
              | (Ok _, w) \<Rightarrow> (Err (RecoveryRan action), w))
         | ValidateCandidate _ _ \<Rightarrow>
             (case step pf c fx w of
                (Err e, w) \<Rightarrow> (Err (RecoveryStepFailed e), w)
              | (Ok _, w) \<Rightarrow> recover_loop n pf c fx afs stamp w)
         | ResumeWrites \<Rightarrow>
             (case step pf c fx w of
                (Err e, w) \<Rightarrow> (Err (RecoveryStepFailed e), w)
              | (Ok _, w) \<Rightarrow> recover_loop n pf c fx afs stamp w)
         | _ \<Rightarrow> finish_recovery w)"

definition recover_before_open ::
  "platform \<Rightarrow> 'b codec \<Rightarrow> ('e, 'b) recovery_effects \<Rightarrow> archive_fs \<Rightarrow> ustr \<Rightarrow> journal_store
     \<Rightarrow> 'e \<Rightarrow> 'b disk \<Rightarrow> (startup_refusal + unit) \<times> 'e \<times> 'b disk" where
  "recover_before_open pf c fx afs stamp st e d =
     (if content d = None then (Ok (), e, d)
      else case open_durable pf c st d of
             Err err \<Rightarrow> (Err (JournalUnreadable err), e, d)
           | Ok dj \<Rightarrow>
              (case recover_loop 4 pf c fx afs stamp
                      \<lparr>journal = dj, effects = e, filesystem = d\<rparr> of
                 (r, w) \<Rightarrow> (r, effects w, filesystem w)))"

section \<open>The install gate\<close>

fun installer_not_started :: "update_phase \<Rightarrow> bool" where
  "installer_not_started Available = True"
| "installer_not_started Downloaded = True"
| "installer_not_started WaitingIdle = True"
| "installer_not_started Maintenance = True"
| "installer_not_started BackupVerified = True"
| "installer_not_started _ = False"

definition can_start_update :: "update_journal \<Rightarrow> bool" where
  "can_start_update j \<longleftrightarrow> installer_not_started (phase j) \<or> can_accept_writes j"

definition installer_started :: "platform \<Rightarrow> 'b codec \<Rightarrow> journal_store \<Rightarrow> 'b disk \<Rightarrow> bool" where
  "installer_started pf c st d \<longleftrightarrow>
     content d \<noteq> None
     \<and> (case load pf c st d of Err _ \<Rightarrow> True | Ok j \<Rightarrow> \<not> can_start_update j)"

section \<open>The installer's outcome\<close>

datatype launch_result = Exited "32 word" | NoExitCode | StartFailed "32 word option"

datatype installer_outcome =
    Succeeded | UacRefused | ElevationRequired | SharingViolation | Failed "32 word" | Unclear

definition SHARING_VIOLATION :: "32 word list" where
  "SHARING_VIOLATION = [32, 33]"

definition UAC_REFUSED :: "32 word list" where
  "UAC_REFUSED = [1223]"

definition ELEVATION_REQUIRED :: "32 word" where
  "ELEVATION_REQUIRED = 740"

definition classify :: "launch_result \<Rightarrow> installer_outcome" where
  "classify result =
     (case result of
        Exited code \<Rightarrow> if code = 0 then Succeeded else Failed code
      | NoExitCode \<Rightarrow> Unclear
      | StartFailed None \<Rightarrow> Unclear
      | StartFailed (Some code) \<Rightarrow>
          if code \<in> set UAC_REFUSED then UacRefused
          else if code = ELEVATION_REQUIRED then ElevationRequired
          else if code \<in> set SHARING_VIOLATION then SharingViolation
          else Unclear)"

section \<open>The file's journal under a step\<close>

text \<open>
  A driver is sound for a journal when the file holds that journal and the driver's handle
  is coherent with it.  Whatever the driver does, the file's journal only advances.
\<close>

definition sound :: "platform \<Rightarrow> 'b codec \<Rightarrow> journal_store \<Rightarrow> update_journal \<Rightarrow> ('e, 'b) driver \<Rightarrow> bool"
  where "sound pf c st k w \<longleftrightarrow>
    holds pf c (filesystem w) k \<and> handle_coherent pf st k (journal w)"

definition moves :: "platform \<Rightarrow> 'b codec \<Rightarrow> journal_store \<Rightarrow> ('e, 'b) driver \<Rightarrow> ('f, 'b) driver \<Rightarrow> bool"
  where "moves pf c st w w' \<longleftrightarrow>
    (\<forall>k. sound pf c st k w \<longrightarrow> (\<exists>k'. sound pf c st k' w' \<and> (advances pf)\<^sup>*\<^sup>* k k'))"

lemma moves_refl: "moves pf c st w w"
  by (auto simp: moves_def)

lemma moves_trans: "moves pf c st u v \<Longrightarrow> moves pf c st v w \<Longrightarrow> moves pf c st u w"
  unfolding moves_def by (meson rtranclp_trans)

lemma journal_call_moves:
  assumes "serde_roundtrip c" "journal_call pf c call w = (r, w')"
  shows "moves pf c st w w'"
  unfolding moves_def
proof (intro allI impI)
  fix k assume k: "sound pf c st k w"
  obtain dj d where call: "durable_call pf c call (journal w) (filesystem w) = (r, dj, d)"
    and w': "w' = w\<lparr>journal := dj, filesystem := d\<rparr>"
    using assms(2) by (auto simp: journal_call_def split: prod.splits)
  from call_step [OF assms(1) _ _ call, of k st] k obtain k' where
    "holds pf c d k'" "handle_coherent pf st k' dj" "k' = k \<or> advances pf k k'"
    by (auto simp: sound_def)
  then show "\<exists>k'. sound pf c st k' w' \<and> (advances pf)\<^sup>*\<^sup>* k k'"
    by (auto simp: sound_def w')
qed

lemma journal_call_effects: "journal_call pf c call w = (r, w') \<Longrightarrow> effects w' = effects w"
  by (auto simp: journal_call_def split: prod.splits)

lemma perform_frame:
  assumes "perform fx w = (r, w')"
  shows "journal w' = journal w" "filesystem w' = filesystem w"
  using assms by (auto simp: perform_def split: prod.splits)

lemma perform_moves: "perform fx w = (r, w') \<Longrightarrow> moves pf c st w w'"
  using perform_frame [of fx w r w'] by (auto simp: moves_def sound_def)

lemma health_failure_moves:
  assumes "serde_roundtrip c" "health_failure_if_rejected pf c (q, w) = (r, w')"
  shows "moves pf c st w w'"
  using assms journal_call_moves [OF assms(1)]
  by (auto simp: health_failure_if_rejected_def moves_refl split: sum.splits recovery_error.splits)

lemma health_failure_effects:
  "health_failure_if_rejected pf c (q, w) = (r, w') \<Longrightarrow> effects w' = effects w"
  by (auto simp: health_failure_if_rejected_def split: sum.splits recovery_error.splits
      dest: journal_call_effects)

lemma checked_call_effects:
  assumes "health_failure_if_rejected pf c (journal_call pf c call w) = (r, w')"
  shows "effects w' = effects w"
proof -
  obtain q v where v: "journal_call pf c call w = (q, v)" by fastforce
  from assms [unfolded v] have "effects w' = effects v" by (rule health_failure_effects)
  with journal_call_effects [OF v] show ?thesis by simp
qed

lemma execute_moves:
  assumes c: "serde_roundtrip c" and x: "execute pf c fx action w = (r, w')"
  shows "moves pf c st w w'"
proof (cases action)
  case (InstallCandidate f m)
  obtain q w1 where w1: "journal_call pf c CallBeginInstall w = (q, w1)" by fastforce
  have m1: "moves pf c st w w1" by (rule journal_call_moves [OF c w1])
  show ?thesis
  proof (cases q)
    case (Inl e)
    then show ?thesis using x w1 m1 InstallCandidate by (simp add: execute_def)
  next
    case (Inr u)
    then have "w' = snd (perform (fx_install fx f m) w1)"
      using x w1 InstallCandidate
      by (cases "perform (fx_install fx f m) w1") (auto simp: execute_def)
    then show ?thesis using m1 by (metis moves_trans perform_moves prod.collapse)
  qed
next
  case (ValidateCandidate cand n)
  obtain q w1 where w1: "(if phase (dj_journal (journal w)) = Installing
      then journal_call pf c CallBeginValidation w else (Ok (), w)) = (q, w1)" by fastforce
  have m1: "moves pf c st w w1"
    using w1 by (auto simp: moves_refl split: if_splits intro: journal_call_moves [OF c])
  show ?thesis
  proof (cases q)
    case (Inl e)
    then show ?thesis using x w1 m1 ValidateCandidate by (simp add: execute_def)
  next
    case (Inr u)
    obtain h w2 where w2: "perform (fx_validate fx cand n) w1 = (h, w2)" by fastforce
    have m2: "moves pf c st w w2" by (rule moves_trans [OF m1 perform_moves [OF w2]])
    obtain a w3 where w3: "journal_call pf c (case h of Err reason \<Rightarrow> CallRecordHealthFailure reason
        | Ok hs \<Rightarrow> CallAcceptHandshake hs) w2 = (a, w3)" by fastforce
    have m3: "moves pf c st w w3" by (rule moves_trans [OF m2 journal_call_moves [OF c w3]])
    have "w' = w3 \<or> health_failure_if_rejected pf c (a, w3) = (r, w')"
      using x w1 Inr w2 w3 ValidateCandidate
      by (cases h) (auto simp: execute_def)
    then show ?thesis
      using m3 moves_trans [OF m3 health_failure_moves [OF c]] by blast
  qed
next
  case ResumeWrites
  obtain h w2 where w2: "perform (fx_resume_writes fx) w = (h, w2)" by fastforce
  have m2: "moves pf c st w w2" by (rule perform_moves [OF w2])
  show ?thesis
  proof (cases h)
    case (Inl e)
    then show ?thesis using x w2 m2 ResumeWrites by (simp add: execute_def)
  next
    case (Inr proof1)
    obtain a w3 where w3: "journal_call pf c (CallResumeWrites proof1) w2 = (a, w3)" by fastforce
    have "health_failure_if_rejected pf c (a, w3) = (r, w')"
      using x w2 w3 Inr ResumeWrites by (simp add: execute_def)
    from moves_trans [OF moves_trans [OF m2 journal_call_moves [OF c w3]]
        health_failure_moves [OF c this]] show ?thesis .
  qed
qed (use x in \<open>auto simp: execute_def moves_refl apfst_def map_prod_def split: prod.splits sum.splits
      intro: perform_moves journal_call_moves [OF c] moves_trans [OF perform_moves journal_call_moves [OF c]]\<close>)

lemma step_execute:
  assumes "step pf c fx w = (r, w')"
  shows "r = Ok Idle \<and> w' = w \<or> (\<exists>q. execute pf c fx (next_action (dj_journal (journal w))) w = (q, w')
    \<and> (is_ok q \<longleftrightarrow> is_ok r))"
  using assms
  by (auto simp: step_def Let_def split: recovery_action.splits prod.splits sum.splits)

lemma step_moves_file:
  "serde_roundtrip c \<Longrightarrow> step pf c fx w = (r, w') \<Longrightarrow> moves pf c st w w'"
  using step_execute execute_moves moves_refl by metis

section \<open>What the effects saw\<close>

text \<open>
  The same effects with a record of every one performed and of the journal file at that
  moment; the driver cannot tell the difference.
\<close>

datatype effect_call =
    DidVerifyBackup
  | DidInstall file_identity staged_manifest_identity
  | DidValidate
  | DidResumeWrites
  | DidPromote ustr
  | DidRestore runtime_identity file_identity
  | DidQuarantine ustr

type_synonym ('e, 'b) logging_state = "'e \<times> (effect_call \<times> 'b disk) list"

definition logging :: "effect_call \<Rightarrow> ('e, 'b, 'r) effect \<Rightarrow> (('e, 'b) logging_state, 'b, 'r) effect"
  where "logging call fx d s =
    (case fx d (fst s) of (r, e) \<Rightarrow> (r, (e, snd s @ [(call, d)])))"

definition logged ::
  "('e, 'b) recovery_effects \<Rightarrow> (('e, 'b) logging_state, 'b) recovery_effects" where
  "logged fx =
     \<lparr>fx_verify_backup = logging DidVerifyBackup (fx_verify_backup fx),
      fx_install = (\<lambda>f m. logging (DidInstall f m) (fx_install fx f m)),
      fx_validate = (\<lambda>r n. logging DidValidate (fx_validate fx r n)),
      fx_resume_writes = logging DidResumeWrites (fx_resume_writes fx),
      fx_promote = (\<lambda>cid. logging (DidPromote cid) (fx_promote fx cid)),
      fx_restore = (\<lambda>p s. logging (DidRestore p s) (fx_restore fx p s)),
      fx_quarantine = (\<lambda>r. logging (DidQuarantine r) (fx_quarantine fx r))\<rparr>"

abbreviation effect_log :: "(('e, 'b) logging_state, 'b) driver \<Rightarrow> (effect_call \<times> 'b disk) list" where
  "effect_log w \<equiv> snd (effects w)"

definition is_install :: "effect_call \<times> 'b disk \<Rightarrow> bool" where
  "is_install x = (case fst x of DidInstall _ _ \<Rightarrow> True | _ \<Rightarrow> False)"

definition installs :: "(('e, 'b) logging_state, 'b) driver \<Rightarrow> nat" where
  "installs w = length (filter is_install (effect_log w))"

lemma perform_logging:
  "perform (logging call fx) w = (r, w') \<Longrightarrow> effect_log w' = effect_log w @ [(call, filesystem w)]"
  by (auto simp: perform_def logging_def split: prod.splits)

text \<open>One step performs at most one effect, and that is the effect of its action.\<close>

fun effect_of :: "recovery_action \<Rightarrow> effect_call option" where
  "effect_of NoAction = None"
| "effect_of WaitForIdle = None"
| "effect_of VerifyCoherentBackup = Some DidVerifyBackup"
| "effect_of (InstallCandidate f m) = Some (DidInstall f m)"
| "effect_of (ValidateCandidate _ _) = Some DidValidate"
| "effect_of ResumeWrites = Some DidResumeWrites"
| "effect_of (PromoteSameSignedBytes _ _ cid) = Some (DidPromote cid)"
| "effect_of (RestorePreviousRuntime p s _) = Some (DidRestore p s)"
| "effect_of (QuarantineCurrentState r) = Some (DidQuarantine r)"

lemma execute_install_log:
  assumes "execute pf c (logged fx) (InstallCandidate f m) w = (r, w')"
  shows "effect_log w' = effect_log w
    \<or> (\<exists>w1. journal_call pf c CallBeginInstall w = (Ok (), w1) \<and> filesystem w' = filesystem w1
         \<and> journal w' = journal w1
         \<and> effect_log w' = effect_log w @ [(DidInstall f m, filesystem w1)])"
proof -
  obtain q w1 where w1: "journal_call pf c CallBeginInstall w = (q, w1)" by fastforce
  note eff = journal_call_effects [OF w1]
  show ?thesis
  proof (cases q)
    case (Inl e)
    then show ?thesis using assms w1 eff by (simp add: execute_def)
  next
    case (Inr u)
    obtain a w2 where w2: "perform (logging (DidInstall f m) (fx_install fx f m)) w1 = (a, w2)"
      by fastforce
    have "w' = w2" using assms w1 Inr w2 by (auto simp: execute_def logged_def)
    then show ?thesis
      using w1 Inr perform_frame [OF w2] perform_logging [OF w2] eff by auto
  qed
qed

lemma execute_log:
  assumes "execute pf c (logged fx) action w = (r, w')"
  shows "effect_log w' = effect_log w
    \<or> (\<exists>e d. effect_of action = Some e \<and> effect_log w' = effect_log w @ [(e, d)])"
proof (cases action)
  case (InstallCandidate f m)
  with execute_install_log [of pf c fx f m w r w'] assms show ?thesis by auto
qed (use assms in \<open>auto simp: execute_def logged_def apfst_def map_prod_def
      split: prod.splits sum.splits if_splits
      dest!: journal_call_effects checked_call_effects perform_logging\<close>)

lemma execute_restore_log:
  assumes "execute pf c (logged fx) (RestorePreviousRuntime p s q) w = (r, w')"
  shows "effect_log w' = effect_log w @ [(DidRestore p s, filesystem w)]"
  using assms by (auto simp: execute_def logged_def apfst_def map_prod_def
      split: prod.splits dest!: perform_logging)

section \<open>A driver across restarts\<close>

text \<open>
  What can happen to an update on one machine: the driver takes a step, the process is
  restarted and reopens the journal, or the environment changes the faults and the lock.
\<close>

inductive driver_step ::
  "platform \<Rightarrow> 'b codec \<Rightarrow> ('e, 'b) recovery_effects \<Rightarrow> journal_store
     \<Rightarrow> ('e, 'b) driver \<Rightarrow> ('e, 'b) driver \<Rightarrow> bool" for pf c fx st where
  stepped: "step pf c fx w = (r, w') \<Longrightarrow> driver_step pf c fx st w w'"
| restarted: "open_durable pf c st (filesystem w) = Ok dj \<Longrightarrow>
     driver_step pf c fx st w (w\<lparr>journal := dj\<rparr>)"
| environment: "content d = content (filesystem w) \<Longrightarrow>
     driver_step pf c fx st w (w\<lparr>filesystem := d\<rparr>)"

lemma sound_handle_ok: "sound pf c st k w \<Longrightarrow> journal_ok pf (dj_journal (journal w))"
  by (simp add: sound_def handle_coherent_def)

lemma sound_unique: "sound pf c st k w \<Longrightarrow> sound pf c st k' w \<Longrightarrow> k' = k"
  unfolding sound_def using holds_unique by blast

lemma advances_rank: "(advances pf)\<^sup>*\<^sup>* k k' \<Longrightarrow> phase_rank (phase k) \<le> phase_rank (phase k')"
proof (induction rule: rtranclp_induct)
  case (step y z)
  then obtain call n v where "apply_call pf y call = Ok n" "z = n\<lparr>revision := v\<rparr>"
    by (auto simp: advances_def)
  with step.IH apply_call_rank show ?case by fastforce
qed simp

lemma advances_writes: "(advances pf)\<^sup>*\<^sup>* k k' \<Longrightarrow> writes_resumed k \<Longrightarrow> writes_resumed k'"
proof (induction rule: rtranclp_induct)
  case (step y z)
  then obtain call n v where y: "apply_call pf y call = Ok n" "z = n\<lparr>revision := v\<rparr>"
    by (auto simp: advances_def)
  have "writes_resumed n"
    using after_call_writes [of y pf call] y(1) step by (simp add: after_call_def)
  with y show ?case by simp
qed simp

text \<open>A journal in recovery before writes resumed is final.\<close>

lemma advances_recovery:
  assumes "(advances pf)\<^sup>*\<^sup>* k k'" "phase k = RecoveryNeeded" "\<not> writes_resumed k"
  shows "k' = k"
  using assms
proof (induction rule: rtranclp_induct)
  case (step y z)
  then obtain call n where "apply_call pf k call = Ok n" by (auto simp: advances_def)
  with step.prems show ?case by (cases call) (auto simp: result_simps)
qed simp

text \<open>The successful start of an installation takes the file from the verified backup to the install.\<close>

lemma begin_install_sound:
  assumes c: "serde_roundtrip c" and w: "sound pf c st k w"
    and call: "journal_call pf c CallBeginInstall w = (Ok (), w')"
  shows "phase k = BackupVerified
    \<and> (\<exists>k'. sound pf c st k' w' \<and> phase k' = Installing \<and> dj_journal (journal w') = k')"
proof -
  obtain dj d where d: "durable_call pf c CallBeginInstall (journal w) (filesystem w) = (Ok (), dj, d)"
    and w': "w' = w\<lparr>journal := dj, filesystem := d\<rparr>"
    using call by (auto simp: journal_call_def split: prod.splits)
  from d show ?thesis
  proof (cases rule: durable_call_cases)
    case (written m n v b)
    have st: "dj_store (journal w) = st" using w by (simp add: sound_def handle_coherent_def)
    have "m = k" using holds_load [OF written(3)] w holds_unique by (auto simp: sound_def)
    then have k: "dj_journal (journal w) = k"
      using w written(4) handle_coherent_current by (auto simp: sound_def)
    from written(5) have n: "phase k = BackupVerified" "n = k\<lparr>phase := Installing\<rparr>"
      by (auto simp: result_simps k)
    have "sound pf c st (n\<lparr>revision := v\<rparr>) w'"
      using holds_written [OF c written(7,8)] written(2,8,9) st
      by (simp add: sound_def handle_coherent_def w')
    then show ?thesis using n written(2) w' by auto
  qed auto
qed

text \<open>The invariant of every such history: at most one installation, and only once the file says so.\<close>

definition seen_installing :: "platform \<Rightarrow> 'b codec \<Rightarrow> effect_call \<times> 'b disk \<Rightarrow> bool" where
  "seen_installing pf c x \<longleftrightarrow>
     (is_install x \<longrightarrow> (\<exists>k. holds pf c (snd x) k \<and> phase k = Installing))"

definition install_inv ::
  "platform \<Rightarrow> 'b codec \<Rightarrow> journal_store \<Rightarrow> (('e, 'b) logging_state, 'b) driver \<Rightarrow> bool" where
  "install_inv pf c st w \<longleftrightarrow>
     (\<exists>k. sound pf c st k w
        \<and> (installs w = 0 \<or> installs w = 1 \<and> 5 \<le> phase_rank (phase k)))
     \<and> (\<forall>x\<in>set (effect_log w). seen_installing pf c x)"

lemma install_inv_step:
  assumes c: "serde_roundtrip c" and inv: "install_inv pf c st w"
    and step: "step pf c (logged fx) w = (r, w')"
  shows "install_inv pf c st w'"
proof -
  from inv obtain k where k: "sound pf c st k w"
    "installs w = 0 \<or> installs w = 1 \<and> 5 \<le> phase_rank (phase k)"
    and seen: "\<forall>x\<in>set (effect_log w). seen_installing pf c x"
    by (auto simp: install_inv_def)
  from step_moves_file [OF c step, of st] k(1) obtain k' where
    k': "sound pf c st k' w'" "(advances pf)\<^sup>*\<^sup>* k k'"
    by (auto simp: moves_def)
  note mono = advances_rank [OF k'(2)]
  have quiet: "install_inv pf c st w'"
    if "effect_log w' = effect_log w \<or> (\<exists>e d. effect_log w' = effect_log w @ [(e, d)]
        \<and> \<not> is_install (e, d))"
  proof -
    have "installs w' = installs w"
      using that by (auto simp: installs_def)
    moreover have "\<forall>x\<in>set (effect_log w'). seen_installing pf c x"
      using that seen by (auto simp: seen_installing_def)
    ultimately show ?thesis using k(2) k'(1) mono unfolding install_inv_def by fastforce
  qed
  let ?a = "next_action (dj_journal (journal w))"
  from step_execute [OF step] consider "w' = w"
    | q where "execute pf c (logged fx) ?a w = (q, w')" by blast
  then show ?thesis
  proof cases
    case 1
    then show ?thesis using inv by simp
  next
    case 2
    show ?thesis
    proof (cases "\<exists>f m. ?a = InstallCandidate f m")
      case False
      then have "\<And>e d. effect_of ?a = Some e \<Longrightarrow> \<not> is_install (e, d)"
        by (cases ?a) (auto simp: is_install_def)
      with execute_log [OF 2] quiet show ?thesis by blast
    next
      case True
      then obtain f m where a: "?a = InstallCandidate f m" by blast
      from execute_install_log [OF 2 [unfolded a]] show ?thesis
      proof (elim disjE exE conjE)
        assume "effect_log w' = effect_log w"
        then show ?thesis using quiet by blast
      next
        fix w1
        assume w1: "journal_call pf c CallBeginInstall w = (Ok (), w1)"
          "filesystem w' = filesystem w1" "journal w' = journal w1"
          and l: "effect_log w' = effect_log w @ [(DidInstall f m, filesystem w1)]"
        from begin_install_sound [OF c k(1) w1(1)] obtain k1 where
          p: "phase k = BackupVerified" and k1: "sound pf c st k1 w1" "phase k1 = Installing"
          by blast
        from p k(2) have "installs w = 0" by auto
        then have "installs w' = 1" by (simp add: installs_def l is_install_def)
        moreover have "sound pf c st k1 w'" using k1(1) w1 by (simp add: sound_def)
        moreover have "\<forall>x\<in>set (effect_log w'). seen_installing pf c x"
          using k1 seen by (auto simp: l seen_installing_def sound_def)
        ultimately show ?thesis
          using k1(2) unfolding install_inv_def by (metis le_refl phase_rank.simps(6))
      qed
    qed
  qed
qed

section \<open>A driver whose handle is the file\<close>

text \<open>
  Start-up recovery opens its own handle.  As long as no step fails, that handle is what
  the file holds, so what the loop decides from the handle is true of the file.
\<close>

definition current :: "platform \<Rightarrow> 'b codec \<Rightarrow> journal_store \<Rightarrow> ('e, 'b) driver \<Rightarrow> bool" where
  "current pf c st w \<longleftrightarrow>
     dj_store (journal w) = st \<and> load pf c st (filesystem w) = Ok (dj_journal (journal w))"

definition rejected :: "recovery_error + unit \<Rightarrow> bool" where
  "rejected r \<longleftrightarrow> (\<exists>m. r = Err (IdentityMismatch m) \<or> r = Err (InvalidFact m))"

lemma journal_call_current:
  assumes c: "serde_roundtrip c" and w: "current pf c st w"
    and call: "journal_call pf c call w = (r, w')" and r: "r = Ok () \<or> rejected r"
  shows "current pf c st w'"
proof -
  obtain dj d where d: "durable_call pf c call (journal w) (filesystem w) = (r, dj, d)"
    and w': "w' = w\<lparr>journal := dj, filesystem := d\<rparr>"
    using call by (auto simp: journal_call_def split: prod.splits)
  from d show ?thesis
  proof (cases rule: durable_call_cases)
    case (written k n v b)
    then show ?thesis
      using w load_written [OF c written(3,7,8)] by (simp add: current_def w')
  qed (use w r in \<open>auto simp: current_def w' rejected_def\<close>)
qed

lemma journal_call_Ok:
  assumes "journal_call pf c call w = (Ok (), w')"
  shows "\<exists>n v. apply_call pf (dj_journal (journal w)) call = Ok n
    \<and> dj_journal (journal w') = n\<lparr>revision := v\<rparr> \<and> journal_ok pf (dj_journal (journal w'))"
proof -
  obtain dj d where d: "durable_call pf c call (journal w) (filesystem w) = (Ok (), dj, d)"
    and w': "w' = w\<lparr>journal := dj, filesystem := d\<rparr>"
    using assms by (auto simp: journal_call_def split: prod.splits)
  from d show ?thesis
    by (cases rule: durable_call_cases) (auto simp: w')
qed

lemma perform_current: "perform fx w = (r, w') \<Longrightarrow> current pf c st w \<Longrightarrow> current pf c st w'"
  using perform_frame [of fx w r w'] by (simp add: current_def)

text \<open>A checked call ends well either because it succeeded or because its rejection was recorded.\<close>

lemma checked_call_Ok:
  assumes "health_failure_if_rejected pf c (journal_call pf c call w) = (Ok (), w')"
  obtains "journal_call pf c call w = (Ok (), w')"
  | q v m where "journal_call pf c call w = (q, v)" "rejected q"
      "journal_call pf c (CallRecordHealthFailure m) v = (Ok (), w')"
proof -
  obtain q v where q: "journal_call pf c call w = (q, v)" by fastforce
  show ?thesis
    using assms q that
    by (auto simp: health_failure_if_rejected_def rejected_def
        split: sum.splits recovery_error.splits)
qed

lemma checked_call_current:
  assumes c: "serde_roundtrip c" and w: "current pf c st w"
    and x: "health_failure_if_rejected pf c (journal_call pf c call w) = (Ok (), w')"
  shows "current pf c st w'"
  using x
proof (cases rule: checked_call_Ok)
  case 1
  then show ?thesis using journal_call_current [OF c w] by blast
next
  case (2 q v m)
  then show ?thesis using journal_call_current [OF c] w by blast
qed

text \<open>What the loop executes, one case lemma per action.\<close>

lemma validate_Ok:
  assumes "execute pf c fx (ValidateCandidate cand nce) w = (Ok (), w')"
  obtains w1 w2 h where
    "(if phase (dj_journal (journal w)) = Installing
      then journal_call pf c CallBeginValidation w else (Ok (), w)) = (Ok (), w1)"
    "perform (fx_validate fx cand nce) w1 = (h, w2)"
    "(\<exists>hs. h = Ok hs \<and> health_failure_if_rejected pf c
        (journal_call pf c (CallAcceptHandshake hs) w2) = (Ok (), w'))
     \<or> (\<exists>m. h = Err m \<and> journal_call pf c (CallRecordHealthFailure m) w2 = (Ok (), w'))"
proof -
  obtain q w1 where w1: "(if phase (dj_journal (journal w)) = Installing
      then journal_call pf c CallBeginValidation w else (Ok (), w)) = (q, w1)" by fastforce
  obtain h w2 where w2: "perform (fx_validate fx cand nce) w1 = (h, w2)" by fastforce
  show ?thesis
    using assms w1 w2
    by (intro that [of w1 h w2]) (auto simp: execute_def split: sum.splits)
qed

lemma resume_Ok:
  assumes "execute pf c fx ResumeWrites w = (Ok (), w')"
  obtains proof1 w2 where "perform (fx_resume_writes fx) w = (Ok proof1, w2)"
    "health_failure_if_rejected pf c (journal_call pf c (CallResumeWrites proof1) w2) = (Ok (), w')"
  using assms that by (auto simp: execute_def split: prod.splits sum.splits)

lemma restore_Ok:
  assumes "execute pf c fx (RestorePreviousRuntime p s q) w = (Ok (), w')"
  shows "perform (fx_restore fx p s) w = (Ok (), w')"
  using assms by (auto simp: execute_def apfst_def map_prod_def effect_error_def
      split: prod.splits sum.splits)

lemma step_Ok:
  assumes "step pf c fx w = (Ok out, w')" "next_action (dj_journal (journal w)) = a"
    "a \<noteq> NoAction" "a \<noteq> WaitForIdle"
  shows "execute pf c fx a w = (Ok (), w')"
  using assms by (auto simp: step_def Let_def split: recovery_action.splits prod.splits sum.splits)

lemma step_current:
  assumes c: "serde_roundtrip c" and w: "current pf c st w"
    and step: "step pf c fx w = (Ok out, w')"
    and a: "next_action (dj_journal (journal w)) = a"
      "(\<exists>cand n. a = ValidateCandidate cand n) \<or> a = ResumeWrites"
  shows "current pf c st w'"
  using a(2)
proof (elim disjE exE)
  fix cand n assume v: "a = ValidateCandidate cand n"
  from step_Ok [OF step a(1)] v have "execute pf c fx (ValidateCandidate cand n) w = (Ok (), w')"
    by simp
  then show ?thesis
  proof (cases rule: validate_Ok)
    case (1 w1 w2 h)
    have "current pf c st w1"
      using 1(1) w journal_call_current [OF c w, of CallBeginValidation] by (auto split: if_splits)
    from perform_current [OF 1(2) this] have "current pf c st w2" .
    then show ?thesis
      using 1(3) checked_call_current [OF c] journal_call_current [OF c] by blast
  qed
next
  assume v: "a = ResumeWrites"
  from step_Ok [OF step a(1)] v have "execute pf c fx ResumeWrites w = (Ok (), w')" by simp
  then show ?thesis
  proof (cases rule: resume_Ok)
    case (1 p w2)
    then show ?thesis using perform_current [OF 1(1) w] checked_call_current [OF c] by blast
  qed
qed

section \<open>How long the start-up loop runs\<close>

text \<open>The rounds an action still needs: validation is followed by at most the resumption.\<close>

fun rounds :: "recovery_action \<Rightarrow> nat" where
  "rounds (ValidateCandidate _ _) = 2"
| "rounds ResumeWrites = 1"
| "rounds _ = 0"

abbreviation rounds_left :: "('e, 'b) driver \<Rightarrow> nat" where
  "rounds_left w \<equiv> rounds (next_action (dj_journal (journal w)))"

lemma rounds_recovery: "journal_ok pf j \<Longrightarrow> phase j = RecoveryNeeded \<Longrightarrow> rounds (next_action j) = 0"
  by (auto simp: next_action_def result_simps phase_ok_def recovery_action_safe_def
      split: option.splits recovery_action.splits)

lemma rounds_installed:
  assumes "journal_ok pf j" "phase j = Installed"
  shows "rounds (next_action j) = (if writes_resumed j then 0 else 1)"
proof -
  have "recovery_action j = None" using assms by (auto simp: result_simps phase_ok_def)
  with assms(2) show ?thesis by (simp add: next_action_def)
qed

lemma rounds_after_failure:
  assumes "journal_call pf c (CallRecordHealthFailure m) w = (Ok (), w')"
  shows "rounds_left w' = 0"
proof -
  from journal_call_Ok [OF assms] obtain n v where
    n: "apply_call pf (dj_journal (journal w)) (CallRecordHealthFailure m) = Ok n"
    "dj_journal (journal w') = n\<lparr>revision := v\<rparr>" "journal_ok pf (dj_journal (journal w'))" by blast
  then have "phase (dj_journal (journal w')) = RecoveryNeeded" by (auto simp: result_simps)
  with n(3) show ?thesis by (rule rounds_recovery)
qed

lemma rounds_after_accept:
  assumes "journal_call pf c (CallAcceptHandshake h) w = (Ok (), w')"
  shows "rounds_left w' < 2"
proof -
  from journal_call_Ok [OF assms] obtain n v where
    n: "apply_call pf (dj_journal (journal w)) (CallAcceptHandshake h) = Ok n"
    "dj_journal (journal w') = n\<lparr>revision := v\<rparr>" "journal_ok pf (dj_journal (journal w'))" by blast
  then have "phase (dj_journal (journal w')) = Installed" by (auto simp: result_simps)
  from rounds_installed [OF n(3) this] show ?thesis by simp
qed

lemma rounds_after_resume:
  assumes "journal_call pf c (CallResumeWrites x) w = (Ok (), w')"
  shows "rounds_left w' = 0"
proof -
  from journal_call_Ok [OF assms] obtain n v where
    n: "apply_call pf (dj_journal (journal w)) (CallResumeWrites x) = Ok n"
    "dj_journal (journal w') = n\<lparr>revision := v\<rparr>" "journal_ok pf (dj_journal (journal w'))" by blast
  then have "phase (dj_journal (journal w')) = Installed" "writes_resumed (dj_journal (journal w'))"
    by (auto simp: result_simps)
  with rounds_installed [OF n(3)] show ?thesis by simp
qed

lemma step_rounds:
  assumes step: "step pf c fx w = (Ok out, w')"
    and a: "next_action (dj_journal (journal w)) = a"
      "(\<exists>cand n. a = ValidateCandidate cand n) \<or> a = ResumeWrites"
  shows "rounds_left w' < rounds_left w"
  using a(2)
proof (elim disjE exE)
  fix cand n assume v: "a = ValidateCandidate cand n"
  from step_Ok [OF step a(1)] v have "execute pf c fx (ValidateCandidate cand n) w = (Ok (), w')"
    by simp
  then have "rounds_left w' < 2"
  proof (cases rule: validate_Ok)
    case (1 w1 w2 h)
    from 1(3) show ?thesis
    proof (elim disjE exE conjE)
      fix hs assume "health_failure_if_rejected pf c
        (journal_call pf c (CallAcceptHandshake hs) w2) = (Ok (), w')"
      then show ?thesis
        by (cases rule: checked_call_Ok) (simp_all add: rounds_after_accept rounds_after_failure)
    qed (simp add: rounds_after_failure)
  qed
  then show ?thesis using a v by simp
next
  assume v: "a = ResumeWrites"
  from step_Ok [OF step a(1)] v have "execute pf c fx ResumeWrites w = (Ok (), w')" by simp
  then have "rounds_left w' = 0"
  proof (cases rule: resume_Ok)
    case (1 x w2)
    from 1(2) show ?thesis
      by (cases rule: checked_call_Ok) (simp_all add: rounds_after_resume rounds_after_failure)
  qed
  then show ?thesis using a v by simp
qed

lemma recover_loop_more:
  "rounds_left w < n \<Longrightarrow> recover_loop (n + m) pf c fx afs stamp w = recover_loop n pf c fx afs stamp w"
proof (induction n arbitrary: w)
  case (Suc n)
  have IH: "recover_loop (n + m) pf c fx afs stamp w' = recover_loop n pf c fx afs stamp w'"
    if "step pf c fx w = (Ok u, w')" "rounds_left w \<noteq> 0" for u w'
  proof (rule Suc.IH)
    have "(\<exists>cand n. next_action (dj_journal (journal w)) = ValidateCandidate cand n)
        \<or> next_action (dj_journal (journal w)) = ResumeWrites"
      using that(2) by (cases "next_action (dj_journal (journal w))") auto
    from step_rounds [OF that(1) refl this] have "rounds_left w' < rounds_left w" .
    then show "rounds_left w' < n" using Suc.prems by simp
  qed
  show ?case
    by (cases "next_action (dj_journal (journal w))") (auto simp: Let_def IH split: prod.splits sum.splits)
qed simp

lemma rounds_bound: "rounds a \<le> 2"
  by (cases a) auto

section \<open>What start-up recovery established\<close>

text \<open>
  The two ways the database may open with a journal present: the file's journal admits
  writes, or the previous runtime was restored by an effect that reported success, from a
  file that asked for it, and the journal was archived.
\<close>

definition opened_writable :: "platform \<Rightarrow> 'b codec \<Rightarrow> journal_store \<Rightarrow> 'b disk \<Rightarrow> bool" where
  "opened_writable pf c st d \<longleftrightarrow> (\<exists>k. load pf c st d = Ok k \<and> writable k)"

definition opened_restored ::
  "platform \<Rightarrow> 'b codec \<Rightarrow> ('e, 'b) recovery_effects \<Rightarrow> journal_store \<Rightarrow> 'e \<Rightarrow> 'b disk \<Rightarrow> bool" where
  "opened_restored pf c fx st e' d' \<longleftrightarrow> content d' = None \<and>
     (\<exists>k d e p s q. load pf c st d = Ok k \<and> next_action k = RestorePreviousRuntime p s q
        \<and> fx_restore fx p s d e = (Ok (), e'))"

lemma archive_Ok:
  assumes "archive_record_stamped pf afs path stamp d = (Ok q, d')"
  shows "\<exists>n < ARCHIVE_SUFFIX_BUDGET. q = record_name pf path stamp n \<and> \<not> exists_path afs q
    \<and> (\<forall>m<n. exists_path afs (record_name pf path stamp m)) \<and> d' = d\<lparr>content := None\<rparr>"
proof -
  let ?free = "\<lambda>n. \<not> exists_path afs (record_name pf path stamp n)"
  from assms obtain n where n: "find ?free [0..<ARCHIVE_SUFFIX_BUDGET] = Some n"
    and q: "q = record_name pf path stamp n" "d' = d\<lparr>content := None\<rparr>"
    by (auto simp: archive_record_stamped_def split: option.splits)
  from n [unfolded find_Some_iff] obtain i where
    i: "i < ARCHIVE_SUFFIX_BUDGET" "?free i" "n = i" "\<forall>j<i. \<not> ?free j"
    by (auto simp: nth_append)
  then show ?thesis using q by blast
qed

lemma recover_loop_Ok:
  assumes c: "serde_roundtrip c"
  shows "current pf c st w \<Longrightarrow> recover_loop n pf c fx afs stamp w = (Ok (), w') \<Longrightarrow>
    opened_writable pf c st (filesystem w') \<or> opened_restored pf c fx st (effects w') (filesystem w')"
proof (induction n arbitrary: w)
  case 0
  then show ?case
    by (auto simp: finish_recovery_def Let_def opened_writable_def current_def split: if_splits)
next
  case (Suc n)
  let ?a = "next_action (dj_journal (journal w))"
  have fin: ?case if "finish_recovery w = (Ok (), w')"
    using that Suc.prems(1)
    by (auto simp: finish_recovery_def Let_def opened_writable_def current_def split: if_splits)
  have go: ?case if rnd: "(\<exists>cand m. ?a = ValidateCandidate cand m) \<or> ?a = ResumeWrites"
  proof -
    obtain u v where v: "step pf c fx w = (Ok u, v)" "recover_loop n pf c fx afs stamp v = (Ok (), w')"
      using rnd Suc.prems(2) by (elim disjE exE) (auto simp: Let_def split: prod.splits sum.splits)
    show ?thesis by (rule Suc.IH [OF step_current [OF c Suc.prems(1) v(1) refl rnd] v(2)])
  qed
  show ?case
  proof (cases ?a)
    case (RestorePreviousRuntime p s q)
    obtain u v r d where v: "step pf c fx w = (Ok u, v)"
      "archive_record_stamped pf afs (js_path (dj_store (journal v))) stamp (filesystem v) = (Ok r, d)"
      "w' = v\<lparr>filesystem := d\<rparr>"
      using RestorePreviousRuntime Suc.prems(2) by (auto simp: Let_def split: prod.splits sum.splits)
    from restore_Ok [OF step_Ok [OF v(1) RestorePreviousRuntime]]
    have "fx_restore fx p s (filesystem w) (effects w) = (Ok (), effects v)"
      by (auto simp: perform_def split: prod.splits)
    moreover from archive_Ok [OF v(2)] v(3) have "content (filesystem w') = None" "effects w' = effects v"
      by auto
    moreover have "load pf c st (filesystem w) = Ok (dj_journal (journal w))"
      using Suc.prems(1) by (simp add: current_def)
    ultimately show ?thesis
      unfolding opened_restored_def using RestorePreviousRuntime by metis
  qed (use Suc.prems fin go in \<open>auto simp: Let_def split: prod.splits sum.splits\<close>)
qed

lemma writable_can_start: "writable j \<longleftrightarrow> can_start_update j"
  by (cases "phase j") (simp_all add: writable_def can_start_update_def)

lemma opened_not_started:
  "opened_writable pf c st d \<Longrightarrow> \<not> installer_started pf c st d"
  by (auto simp: opened_writable_def installer_started_def writable_can_start)

section \<open>Restores across a history\<close>

definition asks_restore :: "platform \<Rightarrow> 'b codec \<Rightarrow> update_journal \<Rightarrow> effect_call \<times> 'b disk \<Rightarrow> bool" where
  "asks_restore pf c k x \<longleftrightarrow>
     (case x of
        (DidRestore p s, d) \<Rightarrow> holds pf c d k \<and> phase k = RecoveryNeeded \<and> \<not> writes_resumed k
          \<and> (\<exists>q. next_action k = RestorePreviousRuntime p s q)
      | _ \<Rightarrow> True)"

definition restore_inv ::
  "platform \<Rightarrow> 'b codec \<Rightarrow> journal_store \<Rightarrow> (('e, 'b) logging_state, 'b) driver \<Rightarrow> bool" where
  "restore_inv pf c st w \<longleftrightarrow>
     (\<exists>k. sound pf c st k w \<and> (\<forall>x\<in>set (effect_log w). asks_restore pf c k x))"

text \<open>Once a restore was asked for, the file's journal is final, so older entries stay true.\<close>

lemma asks_restore_advances:
  "(advances pf)\<^sup>*\<^sup>* k k' \<Longrightarrow> asks_restore pf c k x \<Longrightarrow> asks_restore pf c k' x"
  using advances_recovery [of pf k k']
  by (auto simp: asks_restore_def split: prod.splits effect_call.splits)

lemma restore_inv_step:
  assumes c: "serde_roundtrip c" and inv: "restore_inv pf c st w"
    and step: "step pf c (logged fx) w = (r, w')"
  shows "restore_inv pf c st w'"
proof -
  from inv obtain k where k: "sound pf c st k w" and seen: "\<forall>x\<in>set (effect_log w). asks_restore pf c k x"
    by (auto simp: restore_inv_def)
  from step_moves_file [OF c step, of st] k obtain k' where
    k': "sound pf c st k' w'" "(advances pf)\<^sup>*\<^sup>* k k'" by (auto simp: moves_def)
  have old: "\<forall>x\<in>set (effect_log w). asks_restore pf c k' x"
    using seen asks_restore_advances [OF k'(2)] by blast
  let ?a = "next_action (dj_journal (journal w))"
  have "\<forall>x\<in>set (effect_log w'). asks_restore pf c k' x"
  proof (cases "\<exists>p s q. ?a = RestorePreviousRuntime p s q")
    case True
    then obtain p s q where a: "?a = RestorePreviousRuntime p s q" by blast
    let ?j = "dj_journal (journal w)"
    have j: "journal_ok pf ?j" "(advances pf)\<^sup>*\<^sup>* ?j k" "holds pf c (filesystem w) k"
      using k by (simp_all add: sound_def handle_coherent_def)
    note rec = next_action_restore [OF j(1) a]
    then have "k = ?j" using advances_recovery [OF j(2)] by blast
    then have "asks_restore pf c k (DidRestore p s, filesystem w)"
      using rec a j(3) by (auto simp: asks_restore_def)
    then have new: "asks_restore pf c k' (DidRestore p s, filesystem w)"
      by (rule asks_restore_advances [OF k'(2)])
    from step_execute [OF step] consider "w' = w"
      | u where "execute pf c (logged fx) (RestorePreviousRuntime p s q) w = (u, w')"
      unfolding a by blast
    then show ?thesis using old new execute_restore_log by cases force+
  next
    case False
    then have quiet: "\<And>e d. effect_of ?a = Some e \<Longrightarrow> asks_restore pf c k' (e, d)"
      by (cases ?a) (auto simp: asks_restore_def)
    from step_execute [OF step] consider "w' = w"
      | u where "execute pf c (logged fx) ?a w = (u, w')" by blast
    then show ?thesis
    proof cases
      case 2
      from execute_log [OF 2] old quiet show ?thesis by auto
    qed (use old in simp)
  qed
  with k'(1) show ?thesis by (auto simp: restore_inv_def)
qed

lemma sound_restarted:
  assumes "sound pf c st k w" "open_durable pf c st (filesystem w) = Ok dj"
  shows "sound pf c st k (w\<lparr>journal := dj\<rparr>)"
proof -
  from assms(2) obtain m where m: "load pf c st (filesystem w) = Ok m"
    "dj = \<lparr>dj_store = st, dj_journal = m\<rparr>"
    by (auto simp: open_durable_def result_simps)
  have "m = k" using holds_load [OF m(1)] assms(1) holds_unique by (auto simp: sound_def)
  with assms(1) m(2) show ?thesis by (simp add: sound_def handle_coherent_def holds_def)
qed

lemma sound_environment:
  "sound pf c st k w \<Longrightarrow> content d = content (filesystem w) \<Longrightarrow> sound pf c st k (w\<lparr>filesystem := d\<rparr>)"
  by (simp add: sound_def holds_def)

lemma restore_inv_driver_step:
  assumes "serde_roundtrip c" "restore_inv pf c st w" "driver_step pf c (logged fx) st w w'"
  shows "restore_inv pf c st w'"
  using assms(3)
proof cases
  case (stepped r)
  then show ?thesis by (rule restore_inv_step [OF assms(1,2)])
next
  case (restarted dj)
  then show ?thesis using assms(2) by (auto simp: restore_inv_def intro: sound_restarted)
next
  case (environment d)
  then show ?thesis using assms(2) by (auto simp: restore_inv_def intro: sound_environment)
qed

lemma install_inv_driver_step:
  assumes "serde_roundtrip c" "install_inv pf c st w" "driver_step pf c (logged fx) st w w'"
  shows "install_inv pf c st w'"
  using assms(3)
proof cases
  case (stepped r)
  then show ?thesis by (rule install_inv_step [OF assms(1,2)])
next
  case (restarted dj)
  then show ?thesis using assms(2) unfolding install_inv_def by (auto simp: installs_def intro: sound_restarted)
next
  case (environment d)
  then show ?thesis using assms(2) unfolding install_inv_def by (auto simp: installs_def intro: sound_environment)
qed

lemma history_inv:
  assumes "(driver_step pf c fx st)\<^sup>*\<^sup>* w w'" "P w"
    and "\<And>u v. P u \<Longrightarrow> driver_step pf c fx st u v \<Longrightarrow> P v"
  shows "P w'"
  using assms by (induction rule: rtranclp_induct) auto

section \<open>A worked recovery\<close>

text \<open>Effects of a candidate that starts and proves itself, and the files of two histories.\<close>

definition demo_fx :: "(nat, update_journal) recovery_effects" where
  "demo_fx =
     \<lparr>fx_verify_backup = (\<lambda>d e. (Ok demo_backup, Suc e)),
      fx_install = (\<lambda>f m d e. (Ok (), Suc e)),
      fx_validate = (\<lambda>r n d e. (Ok demo_handshake, Suc e)),
      fx_resume_writes = (\<lambda>d e. (Ok \<lparr>wr_evidence_id = lit ''resume''\<rparr>, Suc e)),
      fx_promote = (\<lambda>cid d e. (Err (lit ''offline''), Suc e)),
      fx_restore = (\<lambda>p s d e. (Ok (), Suc e)),
      fx_quarantine = (\<lambda>r d e. (Ok (), Suc e))\<rparr>"

definition demo_file_after :: "journal_call list \<Rightarrow> update_journal disk" where
  "demo_file_after cs =
     demo_disk\<lparr>content := Some (run (after_call unix_platform) demo_journal cs)\<rparr>"

definition demo_driver :: "journal_call list \<Rightarrow> ((nat, update_journal) logging_state, update_journal) driver"
  where "demo_driver cs =
    \<lparr>journal = \<lparr>dj_store = demo_store, dj_journal = run (after_call unix_platform) demo_journal cs\<rparr>,
     effects = (0, []), filesystem = demo_file_after cs\<rparr>"

definition demo_afs :: archive_fs where
  "demo_afs = \<lparr>exists_path = (\<lambda>p. False), rename_fault = None\<rparr>"

lemma demo_driver_sound:
  "sound unix_platform demo_codec demo_store (run (after_call unix_platform) demo_journal cs) (demo_driver cs)"
  using journal_runs_ok [OF demo_new]
  by (simp add: sound_def demo_driver_def demo_file_after_def holds_def handle_coherent_def demo_codec_def)

lemma demo_driver_log: "effect_log (demo_driver cs) = []"
  by (simp add: demo_driver_def)

lemma demo_driver_step:
  "(driver_step unix_platform demo_codec (logged demo_fx) demo_store)\<^sup>*\<^sup>* (demo_driver cs)
     (snd (step unix_platform demo_codec (logged demo_fx) (demo_driver cs)))"
proof (rule r_into_rtranclp)
  show "driver_step unix_platform demo_codec (logged demo_fx) demo_store (demo_driver cs)
     (snd (step unix_platform demo_codec (logged demo_fx) (demo_driver cs)))"
    using driver_step.stepped by (metis prod.collapse)
qed

text \<open>A failed installer is reported although its start was already recorded.\<close>

lemma failed_install_moved_the_journal:
  "case step unix_platform demo_codec
      (demo_fx\<lparr>fx_install := (\<lambda>f m d e. (Err (lit ''uac''), e))\<rparr>)
      \<lparr>journal = \<lparr>dj_store = demo_store, dj_journal = run (after_call unix_platform) demo_journal (take 4 demo_install)\<rparr>,
       effects = 0, filesystem = demo_file_after (take 4 demo_install)\<rparr>
   of (r, w) \<Rightarrow> r = Err (Effect (lit ''uac'')) \<and> phase (dj_journal (journal w)) = Installing"
  by code_simp

section \<open>Properties\<close>

text \<open>C3: over any history of driver steps, restarts, lock contention and write faults the
  installer runs at most once, and at the moment it ran the journal file said
  \<open>Installing\<close>.\<close>

theorem at_most_one_install:
  assumes "serde_roundtrip c" and "sound pf c st k w" and "effect_log w = []"
    and "(driver_step pf c (logged fx) st)\<^sup>*\<^sup>* w w'"
  shows "installs w' \<le> 1
     \<and> (\<forall>x\<in>set (effect_log w'). is_install x \<longrightarrow>
          (\<exists>j. holds pf c (snd x) j \<and> phase j = Installing))"
proof -
  have "install_inv pf c st w"
    using assms(2,3) by (auto simp: install_inv_def installs_def)
  from history_inv [where P = "install_inv pf c st", OF assms(4) this]
    install_inv_driver_step [OF assms(1)]
  have "install_inv pf c st w'" by blast
  then show ?thesis by (auto simp: install_inv_def seen_installing_def)
qed

theorem at_most_one_install_witness:
  "installs (snd (step unix_platform demo_codec (logged demo_fx) (demo_driver (take 4 demo_install)))) \<le> 1"
  using at_most_one_install [OF demo_roundtrip demo_driver_sound demo_driver_log demo_driver_step]
  by blast

text \<open>over any such history, whenever the restore effect runs, the journal file at that moment is
  a recovery whose writes were never resumed and asks for exactly that runtime and that
  snapshot; and the file's journal never changes again.\<close>

theorem restore_runs_only_when_asked:
  assumes "serde_roundtrip c" and "sound pf c st k w" and "effect_log w = []"
    and "(driver_step pf c (logged fx) st)\<^sup>*\<^sup>* w w'" and "(DidRestore p s, d) \<in> set (effect_log w')"
  shows "\<exists>j q. holds pf c d j \<and> phase j = RecoveryNeeded \<and> \<not> writes_resumed j
     \<and> next_action j = RestorePreviousRuntime p s q \<and> holds pf c (filesystem w') j"
proof -
  have "restore_inv pf c st w" using assms(2,3) by (auto simp: restore_inv_def)
  from history_inv [where P = "restore_inv pf c st", OF assms(4) this]
    restore_inv_driver_step [OF assms(1)]
  have "restore_inv pf c st w'" by blast
  with assms(5) show ?thesis by (fastforce simp: restore_inv_def asks_restore_def sound_def)
qed

lemma demo_restored:
  "effect_log (snd (step unix_platform demo_codec (logged demo_fx)
     (demo_driver (demo_install @ [CallRecordHealthFailure (lit ''down'')]))))
   = [(DidRestore
         \<lparr>ri_binary = demo_file ''/opt/pa'' ''1.3.0'' ''b0'',
          ri_database = demo_file ''/data/pa.db'' ''7'' ''d9''\<rparr>
         (demo_file ''/data/pa.bak'' ''7'' ''d9''),
       demo_file_after (demo_install @ [CallRecordHealthFailure (lit ''down'')]))]"
  using demo_unhealthy
  by (simp add: step_def execute_def logged_def logging_def perform_def demo_driver_def demo_fx_def
      effect_error_def)

theorem restore_runs_only_when_asked_witness:
  "\<exists>j. holds unix_platform demo_codec
      (demo_file_after (demo_install @ [CallRecordHealthFailure (lit ''down'')])) j
    \<and> phase j = RecoveryNeeded \<and> \<not> writes_resumed j"
proof -
  let ?w = "demo_driver (demo_install @ [CallRecordHealthFailure (lit ''down'')])"
  let ?p = "\<lparr>ri_binary = demo_file ''/opt/pa'' ''1.3.0'' ''b0'',
    ri_database = demo_file ''/data/pa.db'' ''7'' ''d9''\<rparr>"
  let ?d = "demo_file_after (demo_install @ [CallRecordHealthFailure (lit ''down'')])"
  have "(DidRestore ?p (demo_file ''/data/pa.bak'' ''7'' ''d9''), ?d)
      \<in> set (effect_log (snd (step unix_platform demo_codec (logged demo_fx) ?w)))"
    unfolding demo_restored by simp
  from restore_runs_only_when_asked [OF demo_roundtrip demo_driver_sound demo_driver_log
      demo_driver_step this]
  show ?thesis by blast
qed

text \<open>C4: start-up recovery lets the database open only when there is no journal and nothing was
  touched, or the file's journal admits writes, or the file asked for a rollback whose restore
  reported success and the journal was archived; and then the install gate agrees that no
  installer is under way.\<close>

theorem startup_opens_only_resolved:
  assumes "serde_roundtrip c" and "recover_before_open pf c fx afs stamp st e d = (Ok (), e', d')"
  shows "(content d = None \<and> d' = d \<and> e' = e \<or> opened_writable pf c st d'
       \<or> opened_restored pf c fx st e' d') \<and> \<not> installer_started pf c st d'"
proof (cases "content d = None")
  case True
  then show ?thesis using assms(2) by (simp add: recover_before_open_def installer_started_def)
next
  case False
  then obtain dj w where w: "open_durable pf c st d = Ok dj" "e' = effects w" "d' = filesystem w"
    "recover_loop 4 pf c fx afs stamp \<lparr>journal = dj, effects = e, filesystem = d\<rparr> = (Ok (), w)"
    using assms(2) by (auto simp: recover_before_open_def split: sum.splits prod.splits)
  have "current pf c st \<lparr>journal = dj, effects = e, filesystem = d\<rparr>"
    using w(1) by (auto simp: current_def open_durable_def and_then_Ok)
  from recover_loop_Ok [OF assms(1) this w(4)] show ?thesis
  proof (elim disjE)
    assume "opened_writable pf c st (filesystem w)"
    then show ?thesis using opened_not_started w(2,3) by blast
  next
    assume "opened_restored pf c fx st (effects w) (filesystem w)"
    then show ?thesis unfolding w(2,3) by (simp add: opened_restored_def installer_started_def)
  qed
qed

lemma demo_recovers:
  "recover_before_open unix_platform demo_codec demo_fx demo_afs (lit ''1'') demo_store 0
     (demo_file_after demo_install)
   = (Ok (), 2, demo_file_after demo_install
        \<lparr>content := Some ((run (after_call unix_platform) demo_journal
           (demo_install @ demo_accept))\<lparr>revision := 2\<rparr>)\<rparr>)"
  by code_simp

theorem startup_opens_only_resolved_witness:
  "\<not> installer_started unix_platform demo_codec demo_store
     (demo_file_after demo_install
        \<lparr>content := Some ((run (after_call unix_platform) demo_journal
           (demo_install @ demo_accept))\<lparr>revision := 2\<rparr>)\<rparr>)"
  using startup_opens_only_resolved [OF demo_roundtrip demo_recovers] by blast

text \<open>the bound of four on the start-up loop never cuts a recovery short: any larger bound gives
  the same result, whatever journal, effects and faults the loop meets.\<close>

theorem startup_bound_is_enough:
  "recover_loop (4 + m) pf c fx afs stamp w = recover_loop 4 pf c fx afs stamp w"
  using rounds_bound [of "next_action (dj_journal (journal w))"] by (intro recover_loop_more) simp

text \<open>An archived rollback record takes the first of the hundred names of its stamp that is free, never
  one in use, and leaves no journal to act on again.\<close>

theorem archive_takes_first_free_name:
  assumes "archive_record_stamped pf afs path stamp d = (r, d')"
  shows "(case r of
       Ok q \<Rightarrow> (\<exists>n < ARCHIVE_SUFFIX_BUDGET. q = record_name pf path stamp n \<and> \<not> exists_path afs q
                 \<and> (\<forall>m<n. exists_path afs (record_name pf path stamp m)))
              \<and> content d' = None
     | Err e \<Rightarrow> d' = d \<and> (rename_fault afs = Some e
              \<or> (\<forall>n < ARCHIVE_SUFFIX_BUDGET. exists_path afs (record_name pf path stamp n))))"
proof (cases r)
  case (Inl e)
  then show ?thesis
    using assms by (auto simp: archive_record_stamped_def find_None_iff split: option.splits)
next
  case (Inr q)
  from archive_Ok [OF assms [unfolded Inr]] show ?thesis by (auto simp: Inr)
qed

theorem archive_takes_first_free_name_witness:
  "content (snd (archive_record_stamped unix_platform demo_afs (js_path demo_store) (lit ''1'') demo_disk)) = None"
proof -
  obtain r d' where x: "archive_record_stamped unix_platform demo_afs (js_path demo_store) (lit ''1'')
      demo_disk = (r, d')" by fastforce
  have "is_ok r"
    using x by (auto simp: archive_record_stamped_def demo_afs_def ARCHIVE_SUFFIX_BUDGET_def find_None_iff
        split: option.splits dest: spec [of _ "0::nat"])
  with archive_takes_first_free_name [OF x] show ?thesis by (auto simp: x is_ok_iff)
qed

end
