(* ===== verification/Core_Register.thy ===== *)
theory Core_Register
  imports Prelude Rust_Text
begin

text \<open>
  The request register of \<open>src-tauri/src/core_register.rs\<close>: settings have an owner, a
  request waits in the queue of its scope and key, the owner moves it through its
  states, and every move is a journal entry.  \<open>serde_json::Value\<close> is the type parameter
  \<open>'v\<close>; the operations only copy such values.  The abstract specification is the
  journal alone: each entry is legal after the entries before it, and the requests and
  revisions of the register are functions of the journal.
\<close>

section \<open>Data\<close>

datatype owner = User | Core | Rule

datatype risk_class = Ordinary | Money | Rights | Security | Deletion | Release | OwnLevel

datatype level = Off | Propose | SelfWithReport

datatype effect_class =
    EffectOrdinary | EffectMoney | EffectRights | EffectSecurity | EffectDeletion
  | EffectRelease | EffectOwnLevel

datatype state = Requested | Checked | Applied | Confirmed | RolledBack | Rejected

datatype error =
    Unregistered | InvalidRegistry | UnknownRequest | Forbidden | Waiting
  | InvalidTransition | StaleRevision | RevisionOverflow

record actor =
  actor_id :: ustr
  authority :: "owner option"

record area_policy =
  pol_scope :: ustr
  pol_area :: ustr
  pol_level :: level

record effect_capability =
  cap_key :: ustr
  cap_area :: ustr
  cap_effect_site :: ustr
  cap_class :: effect_class

record setting =
  set_key :: ustr
  set_scope :: ustr
  set_owner :: "owner option"
  set_area :: ustr
  set_risk_class :: risk_class
  set_effect_site :: ustr

record 'v request =
  req_scope :: ustr
  req_key :: ustr
  expected_revision :: u64
  req_old :: 'v
  req_new :: 'v
  reason :: ustr
  evidence :: ustr

record 'v rollback =
  rb_effect_site :: ustr
  rb_value :: 'v

record 'v journal_entry =
  entry_id :: nat
  request_id :: nat
  change :: "'v request"
  entry_risk :: risk_class
  entry_rollback :: "'v rollback"
  entry_actor :: actor
  timestamp :: u64
  entry_state :: state
  schema_version :: u32

record 'v register =
  settings :: "setting list"
  policies :: "area_policy list"
  capabilities :: "effect_capability list"
  requests :: "'v journal_entry list"
  journal :: "'v journal_entry list"
  revisions :: "ustr \<times> ustr \<rightharpoonup> u64"

section \<open>Operations\<close>

fun terminal :: "state \<Rightarrow> bool" where
  "terminal Confirmed = True"
| "terminal RolledBack = True"
| "terminal Rejected = True"
| "terminal _ = False"

definition from_user :: "ustr \<Rightarrow> ustr \<Rightarrow> level \<Rightarrow> actor \<Rightarrow> error + area_policy" where
  "from_user scope area lv user =
     (if authority user \<noteq> Some User then Err Forbidden
      else Ok \<lparr>pol_scope = scope, pol_area = area, pol_level = lv\<rparr>)"

definition new_register ::
  "setting list \<Rightarrow> area_policy list \<Rightarrow> effect_capability list \<Rightarrow> 'v register" where
  "new_register sts pols caps =
     \<lparr>settings = sts, policies = pols, capabilities = caps, requests = [], journal = [],
      revisions = Map.empty\<rparr>"

definition setting_of :: "'v register \<Rightarrow> ustr \<Rightarrow> ustr \<Rightarrow> error + setting" where
  "setting_of r scope k =
     (case filter (\<lambda>s. set_key s = k \<and> set_scope s = scope) (settings r) of
        [] \<Rightarrow> Err Unregistered
      | s # rest \<Rightarrow>
          if rest \<noteq> [] \<or> trim (set_key s) = [] \<or> trim (set_scope s) = [] \<or> set_owner s = None
             \<or> trim (set_area s) = [] \<or> trim (set_effect_site s) = []
          then Err InvalidRegistry else Ok s)"

definition level_of :: "'v register \<Rightarrow> ustr \<Rightarrow> ustr \<Rightarrow> level" where
  "level_of r scope area =
     (case filter (\<lambda>p. pol_scope p = scope \<and> pol_area p = area) (policies r) of
        [p] \<Rightarrow> pol_level p
      | _ \<Rightarrow> Off)"

definition may_self_apply :: "'v register \<Rightarrow> 'v request \<Rightarrow> setting \<Rightarrow> bool" where
  "may_self_apply r c s \<longleftrightarrow>
     (case filter (\<lambda>e. cap_key e = set_key s) (capabilities r) of
        [e] \<Rightarrow> cap_class e = EffectOrdinary \<and> cap_area e = set_area s
              \<and> cap_effect_site e = set_effect_site s
      | _ \<Rightarrow> False)
     \<and> set_risk_class s = Ordinary
     \<and> level_of r (req_scope c) (set_area s) = SelfWithReport"

definition submit ::
  "'v register \<Rightarrow> 'v request \<Rightarrow> actor \<Rightarrow> u64 \<Rightarrow> error + nat \<times> 'v register" where
  "submit r c a t =
     and_then (ensure (\<not> (trim (req_scope c) = [] \<or> trim (req_key c) = []
         \<or> trim (reason c) = [] \<or> trim (evidence c) = [])) InvalidRegistry) (\<lambda>_.
     and_then (setting_of r (req_scope c) (req_key c)) (\<lambda>s.
     and_then (ensure (\<not> (authority a \<in> {Some Core, Some Rule}
         \<and> level_of r (req_scope c) (set_area s) = Off)) Forbidden) (\<lambda>_.
     let entry = \<lparr>entry_id = length (journal r) + 1, request_id = length (requests r), change = c,
           entry_risk = set_risk_class s,
           entry_rollback = \<lparr>rb_effect_site = set_effect_site s, rb_value = req_old c\<rparr>,
           entry_actor = a, timestamp = t, entry_state = Requested, schema_version = 1\<rparr>
     in Ok (request_id entry,
            r\<lparr>journal := journal r @ [entry], requests := requests r @ [entry]\<rparr>))))"

fun may_move :: "state \<Rightarrow> state \<Rightarrow> bool" where
  "may_move Requested Checked = True"
| "may_move Requested Rejected = True"
| "may_move Checked Applied = True"
| "may_move Checked Rejected = True"
| "may_move Applied Confirmed = True"
| "may_move Applied RolledBack = True"
| "may_move _ _ = False"

definition slot :: "'v request \<Rightarrow> ustr \<times> ustr" where
  "slot c = (req_scope c, req_key c)"

definition revision_at :: "'v register \<Rightarrow> ustr \<times> ustr \<Rightarrow> u64" where
  "revision_at r k = (case revisions r k of None \<Rightarrow> 0 | Some v \<Rightarrow> v)"

definition transition ::
  "'v register \<Rightarrow> nat \<Rightarrow> state \<Rightarrow> actor \<Rightarrow> u64 \<Rightarrow> error + 'v register" where
  "transition r i st a t =
     and_then (ensure (i < length (requests r)) UnknownRequest) (\<lambda>_.
     let e = requests r ! i; k = slot (change e) in
     and_then (setting_of r (req_scope (change e)) (req_key (change e))) (\<lambda>s.
     and_then (ensure (\<not> (authority a = None \<or> authority a \<noteq> set_owner s)) Forbidden) (\<lambda>_.
     and_then (ensure (\<not> (authority a \<in> {Some Core, Some Rule} \<and> st \<in> {Checked, Applied}
         \<and> \<not> may_self_apply r (change e) s)) Forbidden) (\<lambda>_.
     and_then (ensure (\<not> (\<exists>earlier\<in>set (take i (requests r)).
         slot (change earlier) = k \<and> \<not> terminal (entry_state earlier))) Waiting) (\<lambda>_.
     and_then (ensure (may_move (entry_state e) st) InvalidTransition) (\<lambda>_.
     and_then (ensure (\<not> (st = Applied \<and> expected_revision (change e) \<noteq> revision_at r k))
         StaleRevision) (\<lambda>_.
     and_then (if st \<in> {Applied, RolledBack}
         then and_then (ok_or (checked_inc (revision_at r k)) RevisionOverflow)
                (\<lambda>v. Ok ((revisions r)(k \<mapsto> v)))
         else Ok (revisions r)) (\<lambda>revs.
     let e' = e\<lparr>entry_id := length (journal r) + 1, entry_actor := a, timestamp := t,
                entry_state := st\<rparr>
     in Ok (r\<lparr>revisions := revs, requests := (requests r)[i := e'],
              journal := journal r @ [e']\<rparr>)))))))))"

section \<open>The register under calls\<close>

datatype 'v register_call = Submit "'v request" actor u64 | Transition nat state actor u64

text \<open>A refused call returns early and leaves \<open>self\<close> as it was.\<close>

definition after_register_call :: "'v register \<Rightarrow> 'v register_call \<Rightarrow> 'v register" where
  "after_register_call r call =
     (case call of
        Submit c a t \<Rightarrow> (case submit r c a t of Err _ \<Rightarrow> r | Ok (_, r') \<Rightarrow> r')
      | Transition i st a t \<Rightarrow> (case transition r i st a t of Err _ \<Rightarrow> r | Ok r' \<Rightarrow> r'))"

section \<open>The journal as the specification\<close>

text \<open>
  What the entries so far say: the current entry of each request, and how often the value
  of a slot was changed.
\<close>

definition enter :: "'v journal_entry list \<Rightarrow> 'v journal_entry \<Rightarrow> 'v journal_entry list" where
  "enter rs e = (if entry_state e = Requested then rs @ [e] else rs[request_id e := e])"

definition requests_of :: "'v journal_entry list \<Rightarrow> 'v journal_entry list" where
  "requests_of js = foldl enter [] js"

definition effects_on :: "'v journal_entry list \<Rightarrow> ustr \<times> ustr \<Rightarrow> nat" where
  "effects_on js k =
     length (filter (\<lambda>e. slot (change e) = k \<and> entry_state e \<in> {Applied, RolledBack}) js)"

definition decided_by_owner :: "'v register \<Rightarrow> 'v journal_entry \<Rightarrow> bool" where
  "decided_by_owner base e \<longleftrightarrow>
     (\<exists>s. setting_of base (req_scope (change e)) (req_key (change e)) = Ok s
        \<and> authority (entry_actor e) = set_owner s
        \<and> (authority (entry_actor e) \<in> {Some Core, Some Rule} \<and> entry_state e \<in> {Checked, Applied}
             \<longrightarrow> may_self_apply base (change e) s))"

definition carries_rollback :: "'v register \<Rightarrow> 'v journal_entry \<Rightarrow> bool" where
  "carries_rollback base e \<longleftrightarrow>
     (\<exists>s. setting_of base (req_scope (change e)) (req_key (change e)) = Ok s
        \<and> entry_risk e = set_risk_class s
        \<and> entry_rollback e = \<lparr>rb_effect_site = set_effect_site s, rb_value = req_old (change e)\<rparr>)"

text \<open>When an entry may follow the entries \<open>js\<close>.\<close>

definition legal_request :: "'v register \<Rightarrow> 'v journal_entry list \<Rightarrow> 'v journal_entry \<Rightarrow> bool" where
  "legal_request base js e \<longleftrightarrow>
     request_id e = length (requests_of js) \<and> carries_rollback base e"

definition legal_move :: "'v register \<Rightarrow> 'v journal_entry list \<Rightarrow> 'v journal_entry \<Rightarrow> bool" where
  "legal_move base js e \<longleftrightarrow>
     (let rs = requests_of js; i = request_id e in
        i < length rs \<and> change e = change (rs ! i) \<and> entry_risk e = entry_risk (rs ! i)
      \<and> entry_rollback e = entry_rollback (rs ! i)
      \<and> may_move (entry_state (rs ! i)) (entry_state e) \<and> decided_by_owner base e
      \<and> (\<forall>j<i. slot (change (rs ! j)) = slot (change e) \<longrightarrow> terminal (entry_state (rs ! j)))
      \<and> (entry_state e = Applied \<longrightarrow>
           unat (expected_revision (change e)) = effects_on js (slot (change e))))"

definition legal_entry :: "'v register \<Rightarrow> 'v journal_entry list \<Rightarrow> 'v journal_entry \<Rightarrow> bool" where
  "legal_entry base js e \<longleftrightarrow> entry_id e = length js + 1
     \<and> (if entry_state e = Requested then legal_request base js e else legal_move base js e)"

definition legal_journal :: "'v register \<Rightarrow> 'v journal_entry list \<Rightarrow> bool" where
  "legal_journal base js \<longleftrightarrow> (\<forall>n<length js. legal_entry base (take n js) (js ! n))"

text \<open>The register says nothing its journal does not say.\<close>

definition mirrors :: "'v register \<Rightarrow> 'v register \<Rightarrow> bool" where
  "mirrors base r \<longleftrightarrow>
     settings r = settings base \<and> policies r = policies base \<and> capabilities r = capabilities base
     \<and> requests r = requests_of (journal r)
     \<and> (\<forall>k. unat (revision_at r k) = effects_on (journal r) k)
     \<and> legal_journal base (journal r)"

lemma requests_of_simps [simp]:
  "requests_of [] = []"
  "requests_of (js @ [e]) = enter (requests_of js) e"
  by (simp_all add: requests_of_def)

lemma effects_on_simps [simp]:
  "effects_on [] k = 0"
  "effects_on (js @ [e]) k = effects_on js k
     + (if slot (change e) = k \<and> entry_state e \<in> {Applied, RolledBack} then 1 else 0)"
  by (simp_all add: effects_on_def)

lemma legal_journal_Nil [simp]: "legal_journal base []"
  by (simp add: legal_journal_def)

lemma legal_journal_snoc [simp]:
  "legal_journal base (js @ [e]) \<longleftrightarrow> legal_journal base js \<and> legal_entry base js e"
  by (auto simp: legal_journal_def less_Suc_eq nth_append)

lemma legal_journal_induct [consumes 1, case_names Nil request move]:
  assumes "legal_journal base js" and "P []"
    and "\<And>js e. legal_journal base js \<Longrightarrow> P js \<Longrightarrow> legal_request base js e \<Longrightarrow>
      entry_state e = Requested \<Longrightarrow> P (js @ [e])"
    and "\<And>js e. legal_journal base js \<Longrightarrow> P js \<Longrightarrow> legal_move base js e \<Longrightarrow>
      entry_state e \<noteq> Requested \<Longrightarrow> P (js @ [e])"
  shows "P js"
  using assms(1)
  by (induction js rule: rev_induct) (auto simp: legal_entry_def assms split: if_splits)

section \<open>Every call keeps the register a mirror of its journal\<close>

lemma static_of_mirror:
  assumes "settings r = settings base" "policies r = policies base"
    "capabilities r = capabilities base"
  shows "setting_of r = setting_of base" "level_of r = level_of base"
    "may_self_apply r = may_self_apply base"
  using assms by (simp_all add: fun_eq_iff setting_of_def level_of_def may_self_apply_def)

lemma may_move_target: "may_move s t \<Longrightarrow> t \<noteq> Requested \<and> \<not> terminal s"
  by (cases s; cases t) auto

lemma submit_Ok:
  assumes "submit r c a t = Ok (i, r')"
  obtains s e where "setting_of r (req_scope c) (req_key c) = Ok s" "i = length (requests r)"
    "e = \<lparr>entry_id = length (journal r) + 1, request_id = length (requests r), change = c,
           entry_risk = set_risk_class s,
           entry_rollback = \<lparr>rb_effect_site = set_effect_site s, rb_value = req_old c\<rparr>,
           entry_actor = a, timestamp = t, entry_state = Requested, schema_version = 1\<rparr>"
    "r' = r\<lparr>journal := journal r @ [e], requests := requests r @ [e]\<rparr>"
    "authority a \<in> {Some Core, Some Rule} \<longrightarrow> level_of r (req_scope c) (set_area s) \<noteq> Off"
  using assms unfolding submit_def
  by (auto simp: result_simps Let_def intro: that)

lemma transition_Ok:
  assumes "transition r i st a t = Ok r'"
  obtains s e revs where "i < length (requests r)"
    "setting_of r (req_scope (change (requests r ! i))) (req_key (change (requests r ! i))) = Ok s"
    "authority a = set_owner s"
    "authority a \<in> {Some Core, Some Rule} \<and> st \<in> {Checked, Applied}
       \<longrightarrow> may_self_apply r (change (requests r ! i)) s"
    "\<forall>x\<in>set (take i (requests r)). slot (change x) = slot (change (requests r ! i))
       \<longrightarrow> terminal (entry_state x)"
    "may_move (entry_state (requests r ! i)) st"
    "st = Applied \<longrightarrow> expected_revision (change (requests r ! i))
       = revision_at r (slot (change (requests r ! i)))"
    "if st \<in> {Applied, RolledBack}
     then \<exists>v. checked_inc (revision_at r (slot (change (requests r ! i)))) = Some v
        \<and> revs = (revisions r)(slot (change (requests r ! i)) \<mapsto> v)
     else revs = revisions r"
    "e = (requests r ! i)\<lparr>entry_id := length (journal r) + 1, entry_actor := a, timestamp := t,
            entry_state := st\<rparr>"
    "r' = r\<lparr>revisions := revs, requests := (requests r)[i := e], journal := journal r @ [e]\<rparr>"
proof -
  let ?e = "(requests r ! i)\<lparr>entry_id := length (journal r) + 1, entry_actor := a, timestamp := t,
            entry_state := st\<rparr>"
  from assms obtain s revs where "i < length (requests r)"
    "setting_of r (req_scope (change (requests r ! i))) (req_key (change (requests r ! i))) = Ok s"
    and rest: "\<not> (authority a = None \<or> authority a \<noteq> set_owner s)"
    "\<not> (authority a \<in> {Some Core, Some Rule} \<and> st \<in> {Checked, Applied}
         \<and> \<not> may_self_apply r (change (requests r ! i)) s)"
    "\<not> (\<exists>earlier\<in>set (take i (requests r)). slot (change earlier) = slot (change (requests r ! i))
         \<and> \<not> terminal (entry_state earlier))"
    "may_move (entry_state (requests r ! i)) st"
    "\<not> (st = Applied \<and> expected_revision (change (requests r ! i))
         \<noteq> revision_at r (slot (change (requests r ! i))))"
    and revs: "(if st \<in> {Applied, RolledBack}
         then and_then (ok_or (checked_inc (revision_at r (slot (change (requests r ! i)))))
                 RevisionOverflow)
                (\<lambda>v. Ok ((revisions r)(slot (change (requests r ! i)) \<mapsto> v)))
         else Ok (revisions r)) = Ok revs"
    and "r' = r\<lparr>revisions := revs, requests := (requests r)[i := ?e], journal := journal r @ [?e]\<rparr>"
    unfolding transition_def Let_def and_then_Ok ensure_Ok by blast
  then show ?thesis
    by (intro that [of s revs ?e]) (auto simp: result_simps split: if_splits)
qed

lemma setting_of_owner: "setting_of r scope k = Ok s \<Longrightarrow> set_owner s \<noteq> None"
  by (auto simp: setting_of_def split: list.splits if_splits)

lemma mirrors_new: "mirrors (new_register sts pols caps) (new_register sts pols caps)"
  by (simp add: mirrors_def new_register_def revision_at_def)

lemma mirrors_submit:
  assumes m: "mirrors base r" and x: "submit r c a t = Ok (i, r')"
  shows "mirrors base r'"
  using x
proof (cases rule: submit_Ok)
  case (1 s e)
  have st: "setting_of base = setting_of r"
    using m static_of_mirror [of r base] by (simp add: mirrors_def)
  have "legal_entry base (journal r) e"
    using m 1 by (simp add: mirrors_def legal_entry_def legal_request_def carries_rollback_def st)
  then show ?thesis
    using m 1 by (simp add: mirrors_def enter_def revision_at_def)
qed

lemma request_ids:
  "legal_journal base js \<Longrightarrow> i < length (requests_of js) \<Longrightarrow> request_id (requests_of js ! i) = i"
proof (induction js arbitrary: i rule: legal_journal_induct)
  case (request js e)
  then show ?case by (auto simp: enter_def legal_request_def nth_append less_Suc_eq)
next
  case (move js e)
  then show ?case by (cases "request_id e = i") (auto simp: enter_def)
qed simp

lemma mirrors_transition:
  assumes m: "mirrors base r" and x: "transition r i st a t = Ok r'"
  shows "mirrors base r'"
  using x
proof (cases rule: transition_Ok)
  case (1 s e revs)
  let ?old = "requests r ! i"
  have stat: "setting_of base = setting_of r" "may_self_apply base = may_self_apply r"
    using m static_of_mirror [of r base] by (simp_all add: mirrors_def)
  have e: "change e = change ?old" "entry_state e = st" "entry_id e = length (journal r) + 1"
    "entry_actor e = a" "request_id e = request_id ?old" "entry_risk e = entry_risk ?old"
    "entry_rollback e = entry_rollback ?old"
    using 1 by simp_all
  have i: "request_id e = i" "i < length (requests_of (journal r))" "requests r = requests_of (journal r)"
    using m 1(1) e(5) request_ids [of base "journal r" i] by (simp_all add: mirrors_def)
  have st: "st \<noteq> Requested" using may_move_target [OF 1(6)] by simp
  have rev: "unat (revision_at r k) = effects_on (journal r) k" for k
    using m unfolding mirrors_def by blast
  have before: "terminal (entry_state (requests r ! j))"
    if "j < i" "slot (change (requests r ! j)) = slot (change e)" for j
  proof -
    have "requests r ! j \<in> set (take i (requests r))"
      using that(1) 1(1) by (auto simp: in_set_conv_nth intro!: exI [of _ j])
    then show ?thesis using 1(5) that(2) e(1) by simp
  qed
  have decided: "decided_by_owner base e"
    unfolding decided_by_owner_def stat using 1(2,3,4) e by auto
  have "legal_move base (journal r) e"
    unfolding legal_move_def Let_def i(1) i(3) [symmetric]
    using 1(1,6,7) e(1,2,6,7) before decided rev by auto
  then have "legal_entry base (journal r) e"
    using e st by (simp add: legal_entry_def)
  moreover have "requests r' = requests_of (journal r')"
    using 1(10) i e(2) st by (simp add: enter_def)
  moreover have "unat (revision_at r' k) = effects_on (journal r') k" for k
  proof (cases "st \<in> {Applied, RolledBack} \<and> slot (change e) = k")
    case True
    then obtain v where "checked_inc (revision_at r k) = Some v" "revs = (revisions r)(k \<mapsto> v)"
      using 1(8) e(1) by auto
    moreover from this have "revision_at r' k = v" using 1(10) by (simp add: revision_at_def)
    ultimately show ?thesis using True rev [of k] 1(10) e(2) by (auto dest!: checked_inc_unat)
  next
    case False
    have "revs k = revisions r k"
      using 1(8) False e(1) by (cases "st \<in> {Applied, RolledBack}") auto
    then have "revision_at r' k = revision_at r k" using 1(10) by (simp add: revision_at_def)
    then show ?thesis
      using False rev 1(10) e(2) by auto
  qed
  moreover have "settings r' = settings base" "policies r' = policies base"
    "capabilities r' = capabilities base"
    using m 1(10) by (simp_all add: mirrors_def)
  moreover have "journal r' = journal r @ [e]" using 1(10) by simp
  ultimately show ?thesis
    using m unfolding mirrors_def by simp
qed

lemma mirrors_after: "mirrors base r \<Longrightarrow> mirrors base (after_register_call r call)"
  by (auto simp: after_register_call_def intro: mirrors_submit mirrors_transition
      split: register_call.splits sum.splits prod.splits)

interpretation register: latched_machine after_register_call "mirrors base"
    "\<lambda>r. \<exists>more. journal r = js @ more" for base js
proof
  show "mirrors base (after_register_call r call)" if "mirrors base r" for r call
    using that by (rule mirrors_after)
  show "\<exists>more. journal (after_register_call r call) = js @ more" if "\<exists>more. journal r = js @ more"
    for r call
    using that
    by (auto simp: after_register_call_def elim!: submit_Ok transition_Ok
        split: register_call.splits sum.splits prod.splits)
qed

section \<open>What a legal journal guarantees\<close>

definition queued :: "'v journal_entry list \<Rightarrow> bool" where
  "queued rs \<longleftrightarrow>
     (\<forall>i j. i < j \<longrightarrow> j < length rs \<longrightarrow> slot (change (rs ! i)) = slot (change (rs ! j))
        \<longrightarrow> entry_state (rs ! j) \<noteq> Requested \<longrightarrow> terminal (entry_state (rs ! i)))"

lemma requests_keep_slot:
  assumes "legal_move base js e"
  shows "slot (change ((requests_of js)[request_id e := e] ! i)) = slot (change (requests_of js ! i))"
  using assms by (cases "request_id e = i") (simp_all add: legal_move_def Let_def)

lemma legal_queued: "legal_journal base js \<Longrightarrow> queued (requests_of js)"
proof (induction js rule: legal_journal_induct)
  case Nil
  then show ?case by (simp add: queued_def)
next
  case (request js e)
  then show ?case by (auto simp: enter_def queued_def nth_append less_Suc_eq)
next
  case (move js e)
  let ?rs = "requests_of js" and ?k = "request_id e"
  have mv: "may_move (entry_state (?rs ! ?k)) (entry_state e)" "?k < length ?rs"
    "\<And>j. j < ?k \<Longrightarrow> slot (change (?rs ! j)) = slot (change e) \<Longrightarrow> terminal (entry_state (?rs ! j))"
    "change e = change (?rs ! ?k)"
    using move(2) by (auto simp: legal_move_def Let_def)
  have open_k: "\<not> terminal (entry_state (?rs ! ?k))" using may_move_target [OF mv(1)] by simp
  have "queued (?rs[?k := e])"
    unfolding queued_def
  proof (intro allI impI)
    fix i j
    assume ij: "i < j" "j < length (?rs[?k := e])"
      and same: "slot (change (?rs[?k := e] ! i)) = slot (change (?rs[?k := e] ! j))"
      and begun: "entry_state (?rs[?k := e] ! j) \<noteq> Requested"
    have same': "slot (change (?rs ! i)) = slot (change (?rs ! j))"
      using same requests_keep_slot [OF move(2)] by simp
    show "terminal (entry_state (?rs[?k := e] ! i))"
    proof (cases "j = ?k")
      case True
      then show ?thesis using mv(3) [of i] ij(1) same' mv(4) by simp
    next
      case False
      then have "terminal (entry_state (?rs ! i))"
        using move.IH ij same' begun by (auto simp: queued_def)
      then show ?thesis using open_k by (cases "i = ?k") auto
    qed
  qed
  then show ?case using move(3) by (simp add: enter_def)
qed

text \<open>The states a request went through, in journal order.\<close>

definition states_of :: "'v journal_entry list \<Rightarrow> nat \<Rightarrow> state list" where
  "states_of js i = map entry_state (filter (\<lambda>e. request_id e = i) js)"

lemma states_of_simps [simp]:
  "states_of [] i = []"
  "states_of (js @ [e]) i = states_of js i @ (if request_id e = i then [entry_state e] else [])"
  by (simp_all add: states_of_def)

definition lifecycle :: "state list \<Rightarrow> bool" where
  "lifecycle ss \<longleftrightarrow> ss \<noteq> [] \<and> hd ss = Requested \<and> successively may_move ss"

lemma legal_lifecycle:
  "legal_journal base js \<Longrightarrow>
     (if i < length (requests_of js)
      then lifecycle (states_of js i) \<and> last (states_of js i) = entry_state (requests_of js ! i)
      else states_of js i = [])"
proof (induction js rule: legal_journal_induct)
  case (request js e)
  then show ?case
    by (auto simp: enter_def legal_request_def lifecycle_def nth_append less_Suc_eq)
next
  case (move js e)
  from move(2) have mv: "request_id e < length (requests_of js)"
    "may_move (entry_state (requests_of js ! request_id e)) (entry_state e)"
    by (auto simp: legal_move_def Let_def)
  then show ?case
    using move.IH move(3)
    by (cases "request_id e = i") (auto simp: enter_def lifecycle_def successively_append_iff)
qed simp

lemma lifecycle_cases:
  assumes "lifecycle ss"
  shows "ss \<in> {[Requested], [Requested, Checked], [Requested, Rejected],
    [Requested, Checked, Applied], [Requested, Checked, Rejected],
    [Requested, Checked, Applied, Confirmed], [Requested, Checked, Applied, RolledBack]}"
proof -
  have final: "ys = []" if "successively may_move (x # ys)" "terminal x" for x ys
    using that by (cases ys; cases x) (auto dest: may_move_target)
  have applied: "ys \<in> {[], [Confirmed], [RolledBack]}" if "successively may_move (Applied # ys)" for ys
  proof (cases ys)
    case (Cons y zs)
    with that final [of y zs] show ?thesis by (cases y) auto
  qed simp
  have checked: "ys \<in> {[], [Rejected]} \<union> (#) Applied ` {[], [Confirmed], [RolledBack]}"
    if "successively may_move (Checked # ys)" for ys
  proof (cases ys)
    case (Cons y zs)
    with that final [of y zs] applied [of zs] show ?thesis by (cases y) auto
  qed simp
  obtain ys where ys: "ss = Requested # ys" "successively may_move (Requested # ys)"
    using assms by (cases ss) (auto simp: lifecycle_def)
  show ?thesis
  proof (cases ys)
    case (Cons y zs)
    with ys final [of y zs] checked [of zs] show ?thesis by (cases y) auto
  qed (simp add: ys)
qed

lemma legal_entries:
  assumes "legal_journal base js" "e \<in> set js"
  shows "carries_rollback base e \<and> (entry_state e \<noteq> Requested \<longrightarrow> decided_by_owner base e)"
proof -
  have "(\<forall>e\<in>set js \<union> set (requests_of js). carries_rollback base e)
      \<and> (\<forall>e\<in>set js. entry_state e \<noteq> Requested \<longrightarrow> decided_by_owner base e)"
    using assms(1)
  proof (induction js rule: legal_journal_induct)
    case (request js e)
    then show ?case by (auto simp: enter_def legal_request_def)
  next
    case (move js e)
    have "carries_rollback base (requests_of js ! request_id e)"
      using move(2) move.IH by (simp add: legal_move_def Let_def)
    then have "carries_rollback base e"
      using move(2) by (simp add: legal_move_def Let_def carries_rollback_def)
    then show ?case
      using move(2,3) move.IH set_update_subset_insert [of "requests_of js" "request_id e" e]
      by (auto simp: enter_def legal_move_def Let_def)
  qed simp
  with assms(2) show ?thesis by blast
qed

section \<open>A worked register\<close>

definition demo_settings :: "setting list" where
  "demo_settings =
     [\<lparr>set_key = lit ''budget'', set_scope = lit ''project'', set_owner = Some User,
       set_area = lit ''money'', set_risk_class = Money, set_effect_site = lit ''store''\<rparr>,
      \<lparr>set_key = lit ''theme'', set_scope = lit ''project'', set_owner = Some Core,
       set_area = lit ''look'', set_risk_class = Ordinary, set_effect_site = lit ''web''\<rparr>]"

definition demo_policies :: "area_policy list" where
  "demo_policies =
     [\<lparr>pol_scope = lit ''project'', pol_area = lit ''look'', pol_level = SelfWithReport\<rparr>]"

definition demo_capabilities :: "effect_capability list" where
  "demo_capabilities =
     [\<lparr>cap_key = lit ''theme'', cap_area = lit ''look'', cap_effect_site = lit ''web'',
       cap_class = EffectOrdinary\<rparr>]"

abbreviation demo_register :: "nat register" where
  "demo_register \<equiv> new_register demo_settings demo_policies demo_capabilities"

definition demo_actor :: "owner option \<Rightarrow> actor" where
  "demo_actor o1 = \<lparr>actor_id = lit ''a'', authority = o1\<rparr>"

definition demo_request :: "string \<Rightarrow> u64 \<Rightarrow> nat request" where
  "demo_request k rv = \<lparr>req_scope = lit ''project'', req_key = lit k, expected_revision = rv,
     req_old = 1, req_new = 2, reason = lit ''why'', evidence = lit ''proof''\<rparr>"

definition demo_calls :: "nat register_call list" where
  "demo_calls =
     [Submit (demo_request ''theme'' 0) (demo_actor None) 1,
      Submit (demo_request ''budget'' 0) (demo_actor (Some Core)) 1,
      Submit (demo_request ''theme'' 1) (demo_actor None) 2,
      Transition 0 Checked (demo_actor (Some Core)) 3,
      Transition 1 Checked (demo_actor (Some Core)) 3,
      Transition 0 Applied (demo_actor (Some Core)) 4,
      Transition 0 Confirmed (demo_actor (Some Core)) 5,
      Transition 1 Checked (demo_actor (Some Core)) 6,
      Transition 1 Applied (demo_actor (Some Core)) 7]"

lemma demo_states:
  "map (\<lambda>e. (request_id e, entry_state e)) (journal (run after_register_call demo_register demo_calls))
   = [(0, Requested), (1, Requested), (0, Checked), (0, Applied), (0, Confirmed), (1, Checked), (1, Applied)]"
  by code_simp

lemma demo_journal_length: "length (journal (run after_register_call demo_register demo_calls)) = 7"
  using arg_cong [OF demo_states, of length] by simp

lemma demo_nth:
  "n < 7 \<Longrightarrow> entry_state (journal (run after_register_call demo_register demo_calls) ! n) =
     [Requested, Requested, Checked, Applied, Confirmed, Checked, Applied] ! n"
  using arg_cong [OF demo_states, of "\<lambda>l. snd (l ! n)"] demo_journal_length
  by (simp add: less_Suc_eq numeral_eq_Suc) (elim disjE; simp)

text \<open>A user's transition is accepted whenever its slot is free and its revision right.\<close>

definition moved :: "'v register \<Rightarrow> nat \<Rightarrow> state \<Rightarrow> actor \<Rightarrow> u64 \<Rightarrow> 'v journal_entry" where
  "moved r i st a t = (requests r ! i)\<lparr>entry_id := length (journal r) + 1, entry_actor := a,
     timestamp := t, entry_state := st\<rparr>"

lemma user_transition:
  assumes "i < length (requests r)" "setting_of r (fst (slot (change (requests r ! i))))
      (snd (slot (change (requests r ! i)))) = Ok s"
    "set_owner s = Some User" "authority a = Some User"
    "\<forall>x\<in>set (take i (requests r)). slot (change x) = slot (change (requests r ! i))
       \<longrightarrow> terminal (entry_state x)"
    "may_move (entry_state (requests r ! i)) st" "st \<noteq> RolledBack"
    "st = Applied \<Longrightarrow> expected_revision (change (requests r ! i))
       = revision_at r (slot (change (requests r ! i)))"
    "st = Applied \<Longrightarrow> revision_at r (slot (change (requests r ! i))) \<noteq> - 1"
  shows "after_register_call r (Transition i st a t) =
    r\<lparr>revisions := (if st = Applied
        then (revisions r)(slot (change (requests r ! i)) \<mapsto> revision_at r (slot (change (requests r ! i))) + 1)
        else revisions r),
      requests := (requests r)[i := moved r i st a t], journal := journal r @ [moved r i st a t]\<rparr>"
  using assms
  by (cases "st = Applied")
    (auto simp: after_register_call_def transition_def Let_def slot_def checked_inc_def moved_def)

lemma setting_of_update [simp]:
  "setting_of (r\<lparr>revisions := x\<rparr>) = setting_of r"
  "setting_of (r\<lparr>requests := y\<rparr>) = setting_of r"
  "setting_of (r\<lparr>journal := z\<rparr>) = setting_of r"
  by (simp_all add: setting_of_def fun_eq_iff)

lemma revision_at_update [simp]:
  "revision_at (r\<lparr>requests := y\<rparr>) = revision_at r"
  "revision_at (r\<lparr>journal := z\<rparr>) = revision_at r"
  "revision_at (r\<lparr>revisions := (revisions r)(k \<mapsto> v)\<rparr>) = (revision_at r)(k := v)"
  by (simp_all add: revision_at_def fun_eq_iff)

lemma reachable_legal:
  "legal_journal (new_register sts pols caps)
     (journal (run after_register_call (new_register sts pols caps) calls))"
  using register.inv_run [OF mirrors_new, of sts pols caps calls] by (simp add: mirrors_def)

lemma reachable_requests:
  "requests (run after_register_call (new_register sts pols caps) calls)
   = requests_of (journal (run after_register_call (new_register sts pols caps) calls))"
  using register.inv_run [OF mirrors_new, of sts pols caps calls] by (simp add: mirrors_def)

section \<open>Properties\<close>

text \<open>C8: whatever is submitted and moved, refused calls included, the register holds nothing but what
  its journal says: its requests are the latest entries, the revision of a slot counts the
  applied and rolled back entries, and the journal is legal entry by entry.\<close>

theorem register_mirrors_its_journal:
  "let base = new_register sts pols caps; r = run after_register_call base calls
   in requests r = requests_of (journal r)
      \<and> (\<forall>k. unat (revision_at r k) = effects_on (journal r) k)
      \<and> legal_journal base (journal r)"
  using register.inv_run [OF mirrors_new, of sts pols caps calls]
  unfolding mirrors_def Let_def by blast

text \<open>optimistic concurrency: a change was applied only at the revision its request expected, which
  is the number of times the slot had been changed before.\<close>

theorem applied_at_expected_revision:
  assumes "js = journal (run after_register_call (new_register sts pols caps) calls)"
    and "n < length js" and "entry_state (js ! n) = Applied"
  shows "unat (expected_revision (change (js ! n))) = effects_on (take n js) (slot (change (js ! n)))"
proof -
  have "legal_entry (new_register sts pols caps) (take n js) (js ! n)"
    using reachable_legal [of sts pols caps calls] assms(1,2) by (simp add: legal_journal_def)
  then have "legal_move (new_register sts pols caps) (take n js) (js ! n)"
    using assms(3) by (simp add: legal_entry_def)
  then show ?thesis
    unfolding legal_move_def Let_def using assms(3) by blast
qed

theorem applied_at_expected_revision_witness:
  "let js = journal (run after_register_call demo_register demo_calls)
   in unat (expected_revision (change (js ! 6))) = effects_on (take 6 js) (slot (change (js ! 6)))"
  unfolding Let_def
  by (rule applied_at_expected_revision [OF refl])
    (simp_all add: demo_journal_length demo_nth)

text \<open>C39: after its submission only the registered owner of a setting moves a request: the authority of
  the actor of every later entry is the owner of the setting, and a setting without an owner never
  moves.  An owner other than the user, that is the core or a rule, can have checked or applied a
  change only of ordinary risk, in an area the user left to it (\<open>SelfWithReport\<close>), with exactly one
  capability for the key, of ordinary class and for the same area and effect site.  Rejecting,
  confirming and rolling back are open to such an owner in every risk class.\<close>

theorem only_the_owner_decides:
  fixes e :: "'v journal_entry"
  assumes "e \<in> set (journal (run after_register_call (new_register sts pols caps) calls))"
    and "entry_state e \<noteq> Requested"
  shows "\<exists>s. setting_of (new_register sts pols caps :: 'v register) (req_scope (change e)) (req_key (change e)) = Ok s
     \<and> authority (entry_actor e) = set_owner s \<and> set_owner s \<noteq> None
     \<and> (set_owner s \<noteq> Some User \<and> entry_state e \<in> {Checked, Applied} \<longrightarrow>
          entry_risk e = Ordinary
          \<and> level_of (new_register sts pols caps :: 'v register) (req_scope (change e)) (set_area s) = SelfWithReport
          \<and> (\<exists>cap. filter (\<lambda>cap. cap_key cap = set_key s) caps = [cap]
               \<and> cap_class cap = EffectOrdinary \<and> cap_area cap = set_area s
               \<and> cap_effect_site cap = set_effect_site s))"
proof -
  let ?b = "new_register sts pols caps :: 'v register"
  from legal_entries [OF reachable_legal assms(1)] assms(2)
  have cr: "carries_rollback ?b e" and d: "decided_by_owner ?b e" by auto
  from d obtain s where s: "setting_of ?b (req_scope (change e)) (req_key (change e)) = Ok s"
    "authority (entry_actor e) = set_owner s"
    "authority (entry_actor e) \<in> {Some Core, Some Rule} \<and> entry_state e \<in> {Checked, Applied}
       \<longrightarrow> may_self_apply ?b (change e) s"
    unfolding decided_by_owner_def by blast
  have o: "set_owner s \<noteq> None" by (rule setting_of_owner [OF s(1)])
  have "set_owner s \<noteq> Some User \<Longrightarrow> set_owner s \<in> {Some Core, Some Rule}"
    using o by (cases "set_owner s") (auto intro: owner.exhaust)
  moreover have "may_self_apply ?b (change e) s \<Longrightarrow> entry_risk e = Ordinary
      \<and> level_of ?b (req_scope (change e)) (set_area s) = SelfWithReport
      \<and> (\<exists>cap. filter (\<lambda>cap. cap_key cap = set_key s) caps = [cap] \<and> cap_class cap = EffectOrdinary
            \<and> cap_area cap = set_area s \<and> cap_effect_site cap = set_effect_site s)"
    using cr s(1) by (auto simp: may_self_apply_def carries_rollback_def new_register_def split: list.splits)
  ultimately show ?thesis using s o by metis
qed

lemma demo_in: "n < 7 \<Longrightarrow> journal (run after_register_call demo_register demo_calls) ! n
    \<in> set (journal (run after_register_call demo_register demo_calls))"
  by (simp add: demo_journal_length)

theorem only_the_owner_decides_witness:
  "\<exists>s. setting_of demo_register
        (req_scope (change (journal (run after_register_call demo_register demo_calls) ! 3)))
        (req_key (change (journal (run after_register_call demo_register demo_calls) ! 3))) = Ok s
     \<and> set_owner s \<noteq> None"
  using only_the_owner_decides [OF demo_in [of 3]]
    demo_nth [of 3] by auto

text \<open>first in, first out per slot: of two requests for the same scope and key, the later one left
  its initial state only when the earlier one was finished, so at most one is under way.\<close>

theorem one_change_under_way_per_slot:
  assumes "rs = requests (run after_register_call (new_register sts pols caps) calls)"
    and "i < j" and "j < length rs" and "slot (change (rs ! i)) = slot (change (rs ! j))"
    and "entry_state (rs ! j) \<noteq> Requested"
  shows "terminal (entry_state (rs ! i))"
  using legal_queued [OF reachable_legal [of sts pols caps calls]] assms
  by (simp add: queued_def reachable_requests)

lemma demo_requests:
  "map (\<lambda>e. (slot (change e), entry_state e)) (requests (run after_register_call demo_register demo_calls))
   = [(slot (demo_request ''theme'' 0), Confirmed), (slot (demo_request ''theme'' 0), Applied)]"
  by code_simp

theorem one_change_under_way_per_slot_witness:
  "terminal (entry_state (requests (run after_register_call demo_register demo_calls) ! 0))"
proof -
  let ?rs = "requests (run after_register_call demo_register demo_calls)"
  have len: "length ?rs = 2" using arg_cong [OF demo_requests, of length] by simp
  have at: "slot (change (?rs ! 0)) = slot (change (?rs ! 1))" "entry_state (?rs ! 1) = Applied"
    using arg_cong [OF demo_requests, of "\<lambda>l. l ! 0"] arg_cong [OF demo_requests, of "\<lambda>l. l ! 1"] len
    by simp_all
  show ?thesis
    by (rule one_change_under_way_per_slot [OF refl, of 0 1])
      (use at len in \<open>simp_all\<close>)
qed

text \<open>every request goes through one of seven lives, in journal order: it is requested once, then
  checked or rejected, then applied or rejected, then confirmed or rolled back.\<close>

theorem requests_follow_their_lifecycle:
  assumes "r = run after_register_call (new_register sts pols caps) calls"
    and "i < length (requests r)"
  shows "states_of (journal r) i \<in> {[Requested], [Requested, Checked], [Requested, Rejected],
      [Requested, Checked, Applied], [Requested, Checked, Rejected],
      [Requested, Checked, Applied, Confirmed], [Requested, Checked, Applied, RolledBack]}
    \<and> last (states_of (journal r) i) = entry_state (requests r ! i)"
  using legal_lifecycle [OF reachable_legal [of sts pols caps calls], of i] assms lifecycle_cases
  by (simp add: reachable_requests)

theorem requests_follow_their_lifecycle_witness:
  "last (states_of (journal (run after_register_call demo_register demo_calls)) 0)
   = entry_state (requests (run after_register_call demo_register demo_calls) ! 0)"
proof -
  have "length (requests (run after_register_call demo_register demo_calls)) = 2"
    using arg_cong [OF demo_requests, of length] by simp
  then have "0 < length (requests (run after_register_call demo_register demo_calls))" by simp
  from requests_follow_their_lifecycle [OF refl this] show ?thesis by blast
qed

text \<open>a user can carry a well-formed request for a setting of theirs through to its confirmation, as
  soon as the slot is free and the expected revision is the current one; the revision then
  has moved by one.\<close>

theorem user_change_reaches_confirmation:
  assumes "setting_of r (req_scope c) (req_key c) = Ok s" and "set_owner s = Some User"
    and "authority a = Some User" and "authority b \<notin> {Some Core, Some Rule}"
    and "trim (req_scope c) \<noteq> []" and "trim (req_key c) \<noteq> []"
    and "trim (reason c) \<noteq> []" and "trim (evidence c) \<noteq> []"
    and "\<forall>x\<in>set (requests r). slot (change x) = slot c \<longrightarrow> terminal (entry_state x)"
    and "expected_revision c = revision_at r (slot c)" and "revision_at r (slot c) \<noteq> - 1"
  shows "let n = length (requests r);
             r' = run after_register_call r
               [Submit c b t, Transition n Checked a t1, Transition n Applied a t2,
                Transition n Confirmed a t3]
         in entry_state (requests r' ! n) = Confirmed \<and> change (requests r' ! n) = c
            \<and> revision_at r' (slot c) = revision_at r (slot c) + 1"
proof -
  have set: "setting_of r (fst (slot c)) (snd (slot c)) = Ok s"
    using assms(1) by (simp add: slot_def)
  obtain e where sub: "after_register_call r (Submit c b t)
      = r\<lparr>journal := journal r @ [e], requests := requests r @ [e]\<rparr>"
    and e: "change e = c" "entry_state e = Requested"
    using assms(1,4-8) by (auto simp: after_register_call_def submit_def Let_def)
  show ?thesis
    using assms(2,3,9-11) set e
    by (simp add: Let_def sub user_transition [where s = s] moved_def)
      ((subst user_transition [where s = s]; simp add: moved_def)+)
qed

theorem user_change_reaches_confirmation_witness:
  "let r' = run after_register_call demo_register
       [Submit (demo_request ''budget'' 0) (demo_actor None) 1,
        Transition 0 Checked (demo_actor (Some User)) 2,
        Transition 0 Applied (demo_actor (Some User)) 3,
        Transition 0 Confirmed (demo_actor (Some User)) 4]
   in entry_state (requests r' ! 0) = Confirmed"
proof -
  have s: "setting_of demo_register (req_scope (demo_request ''budget'' 0))
      (req_key (demo_request ''budget'' 0)) = Ok (hd (settings demo_register))"
    by code_simp
  have t: "trim (req_scope (demo_request ''budget'' 0)) \<noteq> []"
    "trim (req_key (demo_request ''budget'' 0)) \<noteq> []"
    "trim (reason (demo_request ''budget'' 0)) \<noteq> []"
    "trim (evidence (demo_request ''budget'' 0)) \<noteq> []"
    by code_simp+
  show ?thesis
    using user_change_reaches_confirmation [OF s, of "demo_actor (Some User)" "demo_actor None" 1 2 3 4]
    by (simp add: t demo_actor_def Let_def)
      (simp add: new_register_def demo_settings_def demo_request_def revision_at_def)
qed

end
