(* ===== verification/Bug_State.thy ===== *)
theory Bug_State
  imports Prelude Rust_Text
begin

text \<open>
  The bug state machine of \<open>src-tauri/src/testgate/bug_state.rs\<close>: a bug is worked on only
  after a red run of a test, its fix counts only with a green run of the same test at a
  commit where it was never red, and after three failed attempts the user decides.
  \<open>None\<close> of an operation is a panic of the code (the \<open>expect\<close> on the red run, the
  overflow of the attempt counter).
\<close>

section \<open>Data\<close>

definition MAX_FIX_ATTEMPTS :: u8 where
  "MAX_FIX_ATTEMPTS = 3"

datatype bug_state = Gemeldet | Reproduziert | InArbeit | FixBelegt | Erledigt | NutzerEntscheidet

fun label :: "bug_state \<Rightarrow> ustr" where
  "label Gemeldet = lit ''Gemeldet''"
| "label Reproduziert = lit ''Reproduziert''"
| "label InArbeit = lit ''In Arbeit''"
| "label FixBelegt = lit ''Fix belegt''"
| "label Erledigt = lit ''Erledigt''"
| "label NutzerEntscheidet = lit ''Nutzer entscheidet''"

record test_run =
  run_path :: ustr
  run_name :: ustr
  exit_code :: "32 word"
  sha :: ustr

datatype user_decision = KeepTrying | Close

datatype rejection = Rejection ustr

record bug =
  bug_state :: bug_state
  red :: "test_run option"
  failed_shas :: "ustr list"
  attempts :: u8

definition default_bug :: bug where
  "default_bug = \<lparr>bug_state = Gemeldet, red = None, failed_shas = [], attempts = 0\<rparr>"

section \<open>Operations\<close>

type_synonym bug_result = "(rejection + bug_state) \<times> bug"

definition wrong_state :: "bug \<Rightarrow> rejection" where
  "wrong_state b = Rejection
     (case bug_state b of
        NutzerEntscheidet \<Rightarrow> lit ''Der Nutzer entscheidet; vorher geht nichts weiter.''
      | Erledigt \<Rightarrow> lit ''Der Fehler ist erledigt; kein weiterer Schritt.''
      | Gemeldet \<Rightarrow> lit ''Ohne roten Test (Exit-Code ungleich 0) keine Arbeit.''
      | s \<Rightarrow> lit ''Im Zustand '' @ quoted (label s) @ lit '' ist das nicht m'' @ [246]
              @ lit ''glich.'')"

definition complete :: "test_run \<Rightarrow> bool" where
  "complete t \<longleftrightarrow> \<not> (trim (run_path t) = [] \<or> trim (run_name t) = [] \<or> trim (sha t) = [])"

definition check_complete :: "test_run \<Rightarrow> rejection + unit" where
  "check_complete t =
     (if \<not> complete t
      then Err (Rejection (lit ''Der Beleg ist unvollst'' @ a_umlaut
             @ lit ''ndig: Pfad, Testname, Sha.''))
      else Ok ())"

definition reproduce :: "bug \<Rightarrow> test_run \<Rightarrow> bug_result" where
  "reproduce b t =
     (if bug_state b \<noteq> Gemeldet then (Err (wrong_state b), b)
      else case check_complete t of
             Err r \<Rightarrow> (Err r, b)
           | Ok _ \<Rightarrow>
               if exit_code t = 0
               then (Err (Rejection (lit ''Der Test ist gr'' @ u_umlaut @ lit ''n (Exit-Code 0).'')), b)
               else (Ok Reproduziert, b\<lparr>red := Some t, bug_state := Reproduziert\<rparr>))"

definition advance :: "bug \<Rightarrow> bug_state \<Rightarrow> bug_state \<Rightarrow> bug_result" where
  "advance b from_st to_st =
     (if bug_state b \<noteq> from_st then (Err (wrong_state b), b)
      else (Ok to_st, b\<lparr>bug_state := to_st\<rparr>))"

definition start_work :: "bug \<Rightarrow> bug_result" where
  "start_work b = advance b Reproduziert InArbeit"

text \<open>A refused run of the red test: the attempt is counted, the third ends the work.\<close>

definition count_attempt :: "bug \<Rightarrow> ustr \<Rightarrow> bug_result option" where
  "count_attempt b why =
     map_option (\<lambda>n.
       if n < MAX_FIX_ATTEMPTS
       then (Err (Rejection (why @ lit '' Versuch '' @ decimal (unat n) @ lit '' von ''
                @ decimal (unat MAX_FIX_ATTEMPTS) @ lit ''.'')), b\<lparr>attempts := n\<rparr>)
       else (Err (Rejection (why @ lit '' Nach '' @ decimal (unat MAX_FIX_ATTEMPTS)
                @ lit '' Fehlversuchen entscheidet der Nutzer.'')),
             b\<lparr>attempts := n, bug_state := NutzerEntscheidet\<rparr>))
     (checked_inc (attempts b))"

definition submit_fix :: "bug \<Rightarrow> test_run \<Rightarrow> bug_result option" where
  "submit_fix b t =
     (if bug_state b \<noteq> InArbeit then Some (Err (wrong_state b), b)
      else case red b of
             None \<Rightarrow> None
           | Some r \<Rightarrow>
              (case check_complete t of
                 Err e \<Rightarrow> Some (Err e, b)
               | Ok _ \<Rightarrow>
                  if (run_path t, run_name t) \<noteq> (run_path r, run_name r)
                  then Some (Err (Rejection (lit ''Ein anderer Test als '' @ quoted (run_name r)
                         @ lit '' belegt den Fix nicht.'')), b)
                  else if exit_code t \<noteq> 0
                  then count_attempt
                         (if sha t \<in> set (failed_shas b) then b
                          else b\<lparr>failed_shas := failed_shas b @ [sha t]\<rparr>)
                         (lit ''Der Test ist weiterhin rot (Exit-Code ''
                            @ decimal_int (sint (exit_code t)) @ lit '').'')
                  else if sha t = sha r
                  then count_attempt b (lit ''Der gr'' @ u_umlaut @ lit ''ne Lauf stammt vom selben ''
                         @ lit ''Stand wie der rote Beweis.'')
                  else if sha t \<in> set (failed_shas b)
                  then count_attempt b (lit ''Der gr'' @ u_umlaut @ lit ''ne Lauf stammt von einem ''
                         @ lit ''Stand, an dem der Test schon rot war.'')
                  else Some (Ok FixBelegt, b\<lparr>bug_state := FixBelegt\<rparr>)))"

definition finish :: "bug \<Rightarrow> bug_result" where
  "finish b = advance b FixBelegt Erledigt"

definition decide :: "bug \<Rightarrow> user_decision \<Rightarrow> bug_result" where
  "decide b d =
     (if bug_state b \<noteq> NutzerEntscheidet
      then (Err (Rejection (lit ''Nur im Zustand '' @ quoted (lit ''Nutzer entscheidet'')
              @ lit '' gibt es eine Entscheidung.'')), b)
      else let s = (case d of KeepTrying \<Rightarrow> InArbeit | Close \<Rightarrow> Erledigt)
           in (Ok s, b\<lparr>attempts := 0, bug_state := s\<rparr>))"

section \<open>The bug under calls\<close>

datatype bug_call =
    Reproduce test_run | StartWork | SubmitFix test_run | Finish | Decide user_decision

fun bug_step :: "bug \<Rightarrow> bug_call \<Rightarrow> bug_result option" where
  "bug_step b (Reproduce t) = Some (reproduce b t)"
| "bug_step b StartWork = Some (start_work b)"
| "bug_step b (SubmitFix t) = submit_fix b t"
| "bug_step b Finish = Some (finish b)"
| "bug_step b (Decide d) = Some (decide b d)"

definition after_bug_call :: "bug \<Rightarrow> bug_call \<Rightarrow> bug" where
  "after_bug_call b c = (case bug_step b c of None \<Rightarrow> b | Some (_, b') \<Rightarrow> b')"

section \<open>The invariant\<close>

definition bug_ok :: "bug \<Rightarrow> bool" where
  "bug_ok b \<longleftrightarrow>
     (case red b of
        None \<Rightarrow> bug_state b = Gemeldet
      | Some r \<Rightarrow> bug_state b \<noteq> Gemeldet \<and> complete r \<and> exit_code r \<noteq> 0)
     \<and> (if bug_state b = NutzerEntscheidet then attempts b = MAX_FIX_ATTEMPTS
        else attempts b < MAX_FIX_ATTEMPTS)"

lemma default_bug_ok: "bug_ok default_bug"
  by (simp add: bug_ok_def default_bug_def MAX_FIX_ATTEMPTS_def)

lemma small_attempts: "(a :: u8) < 3 \<Longrightarrow> a = 0 \<or> a = 1 \<or> a = 2"
  by (simp add: word_less_nat_alt word_unat_eq_iff) linarith

lemma count_attempt_Some:
  assumes "attempts b < MAX_FIX_ATTEMPTS"
  obtains e b' where "count_attempt b why = Some (Err e, b')"
    "b' = b\<lparr>attempts := attempts b + 1\<rparr> \<and> attempts b + 1 < MAX_FIX_ATTEMPTS
     \<or> b' = b\<lparr>attempts := MAX_FIX_ATTEMPTS, bug_state := NutzerEntscheidet\<rparr> \<and> attempts b = 2"
proof -
  have "attempts b = 0 \<or> attempts b = 1 \<or> attempts b = 2"
    using assms small_attempts by (simp add: MAX_FIX_ATTEMPTS_def)
  then show ?thesis
    using that by (elim disjE) (auto simp: count_attempt_def checked_inc_def MAX_FIX_ATTEMPTS_def)
qed

text \<open>What a submitted run does, from a bug in work.\<close>

lemma submit_fix_cases:
  assumes ok: "bug_ok b" and work: "bug_state b = InArbeit"
  obtains (other) r e where "red b = Some r" "submit_fix b t = Some (Err e, b)"
      "\<not> complete t \<or> (run_path t, run_name t) \<noteq> (run_path r, run_name r)"
  | (green) r where "red b = Some r" "complete t"
      "(run_path t, run_name t) = (run_path r, run_name r)" "exit_code t = 0" "sha t \<noteq> sha r"
      "sha t \<notin> set (failed_shas b)" "submit_fix b t = Some (Ok FixBelegt, b\<lparr>bug_state := FixBelegt\<rparr>)"
  | (counted) r e b' where "red b = Some r" "submit_fix b t = Some (Err e, b')"
      "complete t" "(run_path t, run_name t) = (run_path r, run_name r)" "red b' = Some r"
      "failed_shas b' = failed_shas b
         @ (if exit_code t \<noteq> 0 \<and> sha t \<notin> set (failed_shas b) then [sha t] else [])"
      "bug_state b' = InArbeit \<and> attempts b' = attempts b + 1 \<and> attempts b + 1 < MAX_FIX_ATTEMPTS
       \<or> bug_state b' = NutzerEntscheidet \<and> attempts b' = MAX_FIX_ATTEMPTS \<and> attempts b = 2"
proof -
  obtain r where r: "red b = Some r" using ok work by (auto simp: bug_ok_def split: option.splits)
  have a: "attempts b < MAX_FIX_ATTEMPTS" using ok work by (simp add: bug_ok_def)
  define c where "c = (if exit_code t \<noteq> 0 \<and> sha t \<notin> set (failed_shas b)
            then b\<lparr>failed_shas := failed_shas b @ [sha t]\<rparr> else b)"
  have c: "attempts c = attempts b" "red c = Some r" "bug_state c = InArbeit"
    "failed_shas c = failed_shas b
       @ (if exit_code t \<noteq> 0 \<and> sha t \<notin> set (failed_shas b) then [sha t] else [])"
    using r work by (simp_all add: c_def)
  have refused: "\<exists>why. submit_fix b t = count_attempt c why"
    if "complete t" "(run_path t, run_name t) = (run_path r, run_name r)"
      "\<not> (exit_code t = 0 \<and> sha t \<noteq> sha r \<and> sha t \<notin> set (failed_shas b))"
    using that r work by (cases "exit_code t = 0") (auto simp: submit_fix_def check_complete_def c_def)
  consider "\<not> complete t \<or> (run_path t, run_name t) \<noteq> (run_path r, run_name r)"
    | "complete t" "(run_path t, run_name t) = (run_path r, run_name r)"
        "exit_code t = 0" "sha t \<noteq> sha r" "sha t \<notin> set (failed_shas b)"
    | why where "complete t" "(run_path t, run_name t) = (run_path r, run_name r)"
        "submit_fix b t = count_attempt c why"
    using refused by blast
  then show ?thesis
  proof cases
    case 1
    then have "\<exists>e. submit_fix b t = Some (Err e, b)"
      using r work by (auto simp: submit_fix_def check_complete_def)
    then show ?thesis using r 1 other by blast
  next
    case 2
    then have "submit_fix b t = Some (Ok FixBelegt, b\<lparr>bug_state := FixBelegt\<rparr>)"
      using r work by (simp add: submit_fix_def check_complete_def)
    then show ?thesis using r 2 green by blast
  next
    case (3 why)
    from count_attempt_Some [OF a [folded c(1)], of why] obtain e b' where
      "count_attempt c why = Some (Err e, b')"
      "b' = c\<lparr>attempts := attempts c + 1\<rparr> \<and> attempts c + 1 < MAX_FIX_ATTEMPTS
       \<or> b' = c\<lparr>attempts := MAX_FIX_ATTEMPTS, bug_state := NutzerEntscheidet\<rparr> \<and> attempts c = 2"
      by blast
    then show ?thesis using 3 r work c by (intro counted [where b' = b' and e = e]) auto
  qed
qed

lemma submit_fix_elsewhere:
  "bug_state b \<noteq> InArbeit \<Longrightarrow> submit_fix b t = Some (Err (wrong_state b), b)"
  by (simp add: submit_fix_def)

lemma bug_ok_step:
  assumes ok: "bug_ok b"
  shows "\<exists>r b'. bug_step b c = Some (r, b') \<and> bug_ok b'"
proof (cases c)
  case (Reproduce t)
  then show ?thesis
    using ok by (auto simp: reproduce_def check_complete_def bug_ok_def MAX_FIX_ATTEMPTS_def
        split: option.splits)
next
  case (SubmitFix t)
  show ?thesis
  proof (cases "bug_state b = InArbeit")
    case True
    show ?thesis
      by (cases rule: submit_fix_cases [OF ok True, where t = t])
        (use ok True in \<open>auto simp: SubmitFix bug_ok_def\<close>)
  next
    case False
    then show ?thesis using ok by (simp add: SubmitFix submit_fix_elsewhere)
  qed
qed (use ok in \<open>auto simp: bug_ok_def start_work_def finish_def advance_def decide_def Let_def
      MAX_FIX_ATTEMPTS_def split: option.splits user_decision.splits\<close>)

text \<open>The facts of a history: what was proven red.\<close>

definition red_proof :: "bug_call list \<Rightarrow> bug \<Rightarrow> bool" where
  "red_proof cs b \<longleftrightarrow> (\<forall>r. red b = Some r \<longrightarrow> Reproduce r \<in> set cs \<and> complete r \<and> exit_code r \<noteq> 0)"

lemma after_bug_call_Some: "bug_step b c = Some (r, b') \<Longrightarrow> after_bug_call b c = b'"
  by (simp add: after_bug_call_def)

lemma red_proof_step:
  assumes ok: "bug_ok b" and rp: "red_proof cs b"
  shows "red_proof (cs @ [c]) (after_bug_call b c)"
proof (cases c)
  case (SubmitFix t)
  show ?thesis
  proof (cases "bug_state b = InArbeit")
    case True
    show ?thesis
      by (cases rule: submit_fix_cases [OF ok True, where t = t])
        (use rp in \<open>auto simp: SubmitFix after_bug_call_def red_proof_def\<close>)
  qed (use rp in \<open>simp add: SubmitFix after_bug_call_def submit_fix_elsewhere red_proof_def\<close>)
qed (use rp in \<open>auto simp: after_bug_call_def red_proof_def reproduce_def check_complete_def start_work_def
      finish_def decide_def advance_def Let_def split: sum.splits if_splits\<close>)

text \<open>How a bug comes to a proven fix, and how it ends.\<close>

lemma enters_proven:
  assumes ok: "bug_ok b" and "bug_state (after_bug_call b c) = FixBelegt" and "bug_state b \<noteq> FixBelegt"
  obtains g r where "c = SubmitFix g" "bug_state b = InArbeit" "red b = Some r" "complete g"
    "(run_path g, run_name g) = (run_path r, run_name r)" "exit_code g = 0" "sha g \<noteq> sha r"
    "sha g \<notin> set (failed_shas b)"
proof (cases c)
  case (SubmitFix t)
  then have work: "bug_state b = InArbeit"
    using assms(2,3) submit_fix_elsewhere [of b t]
    by (cases "bug_state b = InArbeit") (auto simp: after_bug_call_def)
  show ?thesis
    by (cases rule: submit_fix_cases [OF ok work, where t = t])
      (use SubmitFix assms(2,3) work that in \<open>auto simp: after_bug_call_def\<close>)
qed (use assms(2,3) in \<open>auto simp: after_bug_call_def reproduce_def start_work_def finish_def advance_def
      decide_def Let_def split: sum.splits if_splits user_decision.splits\<close>)

lemma enters_done:
  assumes "bug_ok b" and "bug_state (after_bug_call b c) = Erledigt" and "bug_state b \<noteq> Erledigt"
  shows "bug_state b = FixBelegt \<or> c = Decide Close"
proof (cases c)
  case (SubmitFix t)
  show ?thesis
  proof (cases "bug_state b = InArbeit")
    case True
    show ?thesis
      by (cases rule: submit_fix_cases [OF assms(1) True, where t = t])
        (use SubmitFix assms(2) True in \<open>auto simp: after_bug_call_def\<close>)
  qed (use SubmitFix assms(2,3) in \<open>simp add: after_bug_call_def submit_fix_elsewhere\<close>)
qed (use assms(2,3) in \<open>auto simp: after_bug_call_def reproduce_def start_work_def finish_def advance_def
      decide_def Let_def split: sum.splits if_splits user_decision.splits\<close>)

interpretation bugs: latched_machine after_bug_call bug_ok "\<lambda>b. x \<in> set (failed_shas b)" for x
proof
  show "bug_ok (after_bug_call b c)" if "bug_ok b" for b c
    using bug_ok_step [OF that, of c] after_bug_call_Some by auto
  show "x \<in> set (failed_shas (after_bug_call b c))" if "bug_ok b" "x \<in> set (failed_shas b)" for b c
  proof (cases c)
    case (SubmitFix t)
    show ?thesis
    proof (cases "bug_state b = InArbeit")
      case True
      show ?thesis
        by (cases rule: submit_fix_cases [OF that(1) True, where t = t])
          (use that in \<open>auto simp: SubmitFix after_bug_call_def\<close>)
    qed (use that in \<open>simp add: SubmitFix after_bug_call_def submit_fix_elsewhere\<close>)
  qed (use that in \<open>auto simp: after_bug_call_def reproduce_def start_work_def finish_def decide_def
        advance_def Let_def split: sum.splits\<close>)
qed

interpretation red_kept: latched_machine after_bug_call bug_ok "\<lambda>b. red b = Some r" for r
proof
  show "red (after_bug_call b c) = Some r" if "bug_ok b" "red b = Some r" for b c
  proof (cases c)
    case (SubmitFix t)
    show ?thesis
    proof (cases "bug_state b = InArbeit")
      case True
      show ?thesis
        by (cases rule: submit_fix_cases [OF that(1) True, where t = t])
          (use that in \<open>auto simp: SubmitFix after_bug_call_def\<close>)
    qed (use that in \<open>simp add: SubmitFix after_bug_call_def submit_fix_elsewhere\<close>)
  qed (use that in \<open>auto simp: after_bug_call_def reproduce_def start_work_def finish_def decide_def
        advance_def Let_def bug_ok_def split: sum.splits\<close>)
qed

text \<open>A failing run of the red test counts, wherever it stands among the attempts.\<close>

lemma failing_run:
  assumes "bug_ok b" "bug_state b = InArbeit" "red b = Some r" "complete t"
    "(run_path t, run_name t) = (run_path r, run_name r)" "exit_code t \<noteq> 0"
  shows "sha t \<in> set (failed_shas (after_bug_call b (SubmitFix t)))
    \<and> (attempts b = 2 \<and> bug_state (after_bug_call b (SubmitFix t)) = NutzerEntscheidet
       \<or> attempts b \<noteq> 2 \<and> bug_state (after_bug_call b (SubmitFix t)) = InArbeit
         \<and> attempts (after_bug_call b (SubmitFix t)) = attempts b + 1)"
  by (cases rule: submit_fix_cases [OF assms(1,2), where t = t])
    (use assms in \<open>auto simp: after_bug_call_def MAX_FIX_ATTEMPTS_def\<close>)

text \<open>The specification counts red runs in the history: a commit was red when a complete failing run of
  the test was handed in for it while the bug was in work.\<close>

definition red_at :: "bug_call list \<Rightarrow> test_run \<Rightarrow> ustr \<Rightarrow> bool" where
  "red_at cs r commit \<longleftrightarrow>
     (\<exists>before f later. cs = before @ SubmitFix f # later \<and>
        bug_state (run after_bug_call default_bug before) = InArbeit \<and> complete f \<and>
        (run_path f, run_name f) = (run_path r, run_name r) \<and> exit_code f \<noteq> 0 \<and> sha f = commit)"

lemma reachable_ok: "bug_ok (run after_bug_call default_bug cs)"
  by (rule bugs.inv_run [OF default_bug_ok])

lemma red_proof_run: "red_proof cs (run after_bug_call default_bug cs)"
proof (induction cs rule: rev_induct)
  case Nil
  show ?case by (simp add: red_proof_def default_bug_def)
next
  case (snoc c cs)
  from red_proof_step [OF reachable_ok snoc] show ?case by (simp add: run_append)
qed

lemma red_at_recorded:
  assumes "red_at cs r commit" and "red (run after_bug_call default_bug cs) = Some r"
  shows "commit \<in> set (failed_shas (run after_bug_call default_bug cs))"
proof -
  obtain before f later where cs: "cs = before @ SubmitFix f # later"
    and work: "bug_state (run after_bug_call default_bug before) = InArbeit"
    and f: "complete f" "(run_path f, run_name f) = (run_path r, run_name r)" "exit_code f \<noteq> 0" "sha f = commit"
    using assms(1) by (auto simp: red_at_def)
  let ?b = "run after_bug_call default_bug before" and ?c = "after_bug_call (run after_bug_call default_bug before) (SubmitFix f)"
  have all: "run after_bug_call default_bug cs = run after_bug_call ?c later"
    by (simp add: cs run_append)
  obtain r' where r': "red ?b = Some r'"
    using reachable_ok [of before] work by (auto simp: bug_ok_def split: option.splits)
  have "red (run after_bug_call ?b (SubmitFix f # later)) = Some r'"
    by (rule red_kept.latch_run [OF reachable_ok r'])
  then have "r' = r" using assms(2) by (simp add: all)
  then have "commit \<in> set (failed_shas ?c)"
    using failing_run [OF reachable_ok work r' f(1) _ f(3)] f(2,4) by simp
  from bugs.latch_run [OF bugs.inv_after [OF reachable_ok] this] show ?thesis by (simp add: all)
qed

text \<open>The green run that proves a fix, at its place in the history.\<close>

definition proven_by :: "bug_call list \<Rightarrow> test_run \<Rightarrow> test_run \<Rightarrow> bug_call list \<Rightarrow> bool" where
  "proven_by before r g later \<longleftrightarrow>
     Reproduce r \<in> set before \<and> complete r \<and> exit_code r \<noteq> 0 \<and>
     complete g \<and> exit_code g = 0 \<and> (run_path g, run_name g) = (run_path r, run_name r) \<and>
     sha g \<noteq> sha r \<and> \<not> red_at before r (sha g)"

lemma fix_is_proven:
  assumes "bug_state (run after_bug_call default_bug cs) = FixBelegt \<or>
    bug_state (run after_bug_call default_bug cs) = Erledigt \<and> Decide Close \<notin> set cs"
  shows "\<exists>before r g later. cs = before @ SubmitFix g # later \<and> proven_by before r g later"
  using assms
proof (induction cs rule: rev_induct)
  case Nil
  then show ?case by (simp add: default_bug_def)
next
  case (snoc c cs)
  let ?b = "run after_bug_call default_bug cs"
  have b': "run after_bug_call default_bug (cs @ [c]) = after_bug_call ?b c"
    by (simp add: run_append)
  show ?case
  proof (cases "bug_state ?b = FixBelegt \<or> bug_state ?b = Erledigt \<and> Decide Close \<notin> set cs")
    case True
    then obtain before r g later where "cs = before @ SubmitFix g # later" "proven_by before r g later"
      using snoc.IH by blast
    then show ?thesis
      by (intro exI [of _ before] exI [of _ r] exI [of _ g] exI [of _ "later @ [c]"])
        (simp add: proven_by_def)
  next
    case False
    then have enter: "bug_state (after_bug_call ?b c) = FixBelegt" "bug_state ?b \<noteq> FixBelegt"
      using snoc.prems enters_done [OF reachable_ok, of cs c] unfolding b' by auto
    obtain g r where c: "c = SubmitFix g" and red: "red ?b = Some r"
      and g: "complete g" "(run_path g, run_name g) = (run_path r, run_name r)" "exit_code g = 0"
        "sha g \<noteq> sha r" "sha g \<notin> set (failed_shas ?b)"
      using enters_proven [OF reachable_ok enter] by blast
    have "proven_by cs r g []"
      using red_proof_run [of cs] red g red_at_recorded [of cs r "sha g"]
      by (auto simp: proven_by_def red_proof_def)
    then show ?thesis using c by blast
  qed
qed

lemma user_decides_stays:
  "bug_state b = NutzerEntscheidet \<Longrightarrow> (\<forall>d. c \<noteq> Decide d) \<Longrightarrow> after_bug_call b c = b"
  by (cases c) (auto simp: after_bug_call_def reproduce_def start_work_def finish_def advance_def
      submit_fix_elsewhere)

lemma user_decides_run:
  "bug_state b = NutzerEntscheidet \<Longrightarrow> (\<forall>d. Decide d \<notin> set cs) \<Longrightarrow> run after_bug_call b cs = b"
proof (induction cs)
  case (Cons c cs)
  have "after_bug_call b c = b"
    using Cons.prems by (intro user_decides_stays) auto
  with Cons show ?case by simp
qed simp

section \<open>A worked bug\<close>

definition demo_run :: "32 word \<Rightarrow> string \<Rightarrow> test_run" where
  "demo_run code s = \<lparr>run_path = lit ''tests/a.rs'', run_name = lit ''t'', exit_code = code, sha = lit s\<rparr>"

definition demo_work :: "bug_call list" where
  "demo_work = [Reproduce (demo_run 101 ''r0''), StartWork]"

definition demo_fix :: "bug_call list" where
  "demo_fix = demo_work @ [SubmitFix (demo_run 1 ''f1''), SubmitFix (demo_run 0 ''f1''),
     SubmitFix (demo_run 0 ''g1'')]"

lemma demo_work_state:
  "run after_bug_call default_bug demo_work
   = \<lparr>bug_state = InArbeit, red = Some (demo_run 101 ''r0''), failed_shas = [], attempts = 0\<rparr>"
  by code_simp

lemma demo_fix_state: "bug_state (run after_bug_call default_bug demo_fix) = FixBelegt"
  by code_simp

lemma demo_run_complete: "complete (demo_run code ''f1'')"
  by (simp add: demo_run_def complete_def trim_Nil_iff lit_def is_whitespace_def)

section \<open>Properties\<close>

text \<open>no call panics on any bug that any calls can produce: work implies a red test and the attempt
  counter never passes three, which it reaches exactly when the user has to decide.\<close>

theorem bug_calls_never_panic:
  "\<exists>out b. bug_step (run after_bug_call default_bug cs) c = Some (out, b)
     \<and> attempts b \<le> MAX_FIX_ATTEMPTS
     \<and> (attempts b = MAX_FIX_ATTEMPTS \<longleftrightarrow> bug_state b = NutzerEntscheidet)"
proof -
  from bug_ok_step [OF bugs.inv_run [OF default_bug_ok], of cs c] obtain out b where
    "bug_step (run after_bug_call default_bug cs) c = Some (out, b)" "bug_ok b" by blast
  then show ?thesis
    by (intro exI [of _ out] exI [of _ b]) (auto simp: bug_ok_def split: if_splits)
qed

text \<open>C38: no fix without proof: of every history after which a fix counts as proven, or the bug is finished
  without the user closing it, one call handed in a complete green run; before it the same test was
  proven red by a complete failing run, the green run is at another commit, and in all the
  calls before it no failing run of the test was handed in for its commit while the bug
  was in work, however the calls in between went.\<close>

theorem fix_needs_red_then_green:
  assumes "bug_state (run after_bug_call default_bug cs) = FixBelegt \<or>
    bug_state (run after_bug_call default_bug cs) = Erledigt \<and> Decide Close \<notin> set cs"
  shows "\<exists>before r g later. cs = before @ SubmitFix g # later \<and>
     Reproduce r \<in> set before \<and> complete r \<and> exit_code r \<noteq> 0 \<and>
     complete g \<and> exit_code g = 0 \<and> (run_path g, run_name g) = (run_path r, run_name r) \<and>
     sha g \<noteq> sha r \<and> \<not> red_at before r (sha g)"
  using fix_is_proven [OF assms] by (auto simp: proven_by_def)

theorem fix_needs_red_then_green_witness:
  "\<exists>before r g later. demo_fix = before @ SubmitFix g # later \<and>
     Reproduce r \<in> set before \<and> complete r \<and> exit_code r \<noteq> 0 \<and>
     complete g \<and> exit_code g = 0 \<and> (run_path g, run_name g) = (run_path r, run_name r) \<and>
     sha g \<noteq> sha r \<and> \<not> red_at before r (sha g)"
  by (rule fix_needs_red_then_green) (rule disjI1 [OF demo_fix_state])

text \<open>a commit at which the test of a bug failed once is never accepted as the fix, whatever happens
  in between, the user's decisions to keep trying included; nor is the commit of the red
  proof.\<close>

theorem red_commit_never_proves_the_fix:
  assumes "b = run after_bug_call default_bug cs" and "bug_state b = InArbeit" and "red b = Some r"
    and "complete f" and "(run_path f, run_name f) = (run_path r, run_name r)" and "exit_code f \<noteq> 0"
    and "sha g = sha f \<or> sha g = sha r"
    and "submit_fix (run after_bug_call b (SubmitFix f # ds)) g = Some (out, b')"
  shows "out \<noteq> Ok FixBelegt"
proof -
  have ok: "bug_ok b" unfolding assms(1) by (rule bugs.inv_run [OF default_bug_ok])
  let ?b1 = "after_bug_call b (SubmitFix f)"
  let ?b2 = "run after_bug_call b (SubmitFix f # ds)"
  have ok1: "bug_ok ?b1" by (rule bugs.inv_after [OF ok])
  have ok2: "bug_ok ?b2" by (rule bugs.inv_run [OF ok])
  have "sha f \<in> set (failed_shas ?b1)" using failing_run [OF ok assms(2-6)] by blast
  then have f: "sha f \<in> set (failed_shas ?b2)" using bugs.latch_run [OF ok1] by simp
  have r: "red ?b2 = Some r" using red_kept.latch_run [OF ok assms(3)] by blast
  show ?thesis
  proof (cases "bug_state ?b2 = InArbeit")
    case True
    show ?thesis
      by (cases rule: submit_fix_cases [OF ok2 True, where t = g]) (use assms(7,8) f r in auto)
  next
    case False
    then show ?thesis using assms(8) submit_fix_elsewhere by auto
  qed
qed

theorem red_commit_never_proves_the_fix_witness:
  "fst (the (submit_fix (run after_bug_call (run after_bug_call default_bug demo_work)
      [SubmitFix (demo_run 1 ''f1'')]) (demo_run 0 ''f1''))) \<noteq> Ok FixBelegt"
proof -
  let ?b = "run after_bug_call default_bug demo_work"
  obtain out b' where s: "submit_fix (run after_bug_call ?b [SubmitFix (demo_run 1 ''f1'')])
      (demo_run 0 ''f1'') = Some (out, b')"
    using bug_ok_step [OF bugs.inv_run [OF bugs.inv_run [OF default_bug_ok]],
        of demo_work "[SubmitFix (demo_run 1 ''f1'')]" "SubmitFix (demo_run 0 ''f1'')"] by auto
  have "out \<noteq> Ok FixBelegt"
    by (rule red_commit_never_proves_the_fix
        [where r = "demo_run 101 ''r0''" and ds = "[]", OF refl _ _ demo_run_complete _ _ _ s])
      (simp_all only: demo_work_state, simp_all add: demo_run_def)
  then show ?thesis using s by simp
qed

text \<open>the third failed attempt hands the bug to the user: of three failing runs of the red test, the
  first two leave it in work, the third moves it to the user's decision, and only a decision
  of the user leads out of there.\<close>

theorem third_failure_needs_the_user:
  assumes "b = run after_bug_call default_bug cs" and "bug_state b = InArbeit" and "attempts b = 0"
    and "red b = Some r"
    and "\<forall>f\<in>{f1, f2, f3}. complete f \<and> exit_code f \<noteq> 0
           \<and> (run_path f, run_name f) = (run_path r, run_name r)"
    and "\<forall>d. Decide d \<notin> set ds"
  shows "bug_state (run after_bug_call b [SubmitFix f1, SubmitFix f2]) = InArbeit
     \<and> bug_state (run after_bug_call b ([SubmitFix f1, SubmitFix f2, SubmitFix f3] @ ds))
         = NutzerEntscheidet"
proof -
  let ?b1 = "after_bug_call b (SubmitFix f1)"
  let ?b2 = "after_bug_call ?b1 (SubmitFix f2)"
  have ok: "bug_ok b" unfolding assms(1) by (rule bugs.inv_run [OF default_bug_ok])
  have ok1: "bug_ok ?b1" by (rule bugs.inv_after [OF ok])
  have ok2: "bug_ok ?b2" by (rule bugs.inv_after [OF ok1])
  have r1: "red ?b1 = Some r" by (rule red_kept.latch_after [OF ok assms(4)])
  have r2: "red ?b2 = Some r" by (rule red_kept.latch_after [OF ok1 r1])
  have b1: "bug_state ?b1 = InArbeit" "attempts ?b1 = 1"
    using failing_run [OF ok assms(2,4), of f1] assms(3,5) by auto
  have b2: "bug_state ?b2 = InArbeit" "attempts ?b2 = 2"
    using failing_run [OF ok1 b1(1) r1, of f2] assms(5) b1(2) by auto
  have b3: "bug_state (after_bug_call ?b2 (SubmitFix f3)) = NutzerEntscheidet"
    using failing_run [OF ok2 b2(1) r2, of f3] assms(5) b2(2) by auto
  from b2 b3 user_decides_run [OF b3 assms(6)] show ?thesis by simp
qed

theorem third_failure_needs_the_user_witness:
  "bug_state (run after_bug_call (run after_bug_call default_bug demo_work)
     ([SubmitFix (demo_run 1 ''f1''), SubmitFix (demo_run 2 ''f1''), SubmitFix (demo_run 3 ''f1'')]
      @ [Finish])) = NutzerEntscheidet"
proof -
  let ?b = "run after_bug_call default_bug demo_work"
  have s: "bug_state ?b = InArbeit" "attempts ?b = 0" "red ?b = Some (demo_run 101 ''r0'')"
    by (simp_all add: demo_work_state)
  have f: "\<forall>f\<in>{demo_run 1 ''f1'', demo_run 2 ''f1'', demo_run 3 ''f1''}. complete f \<and> exit_code f \<noteq> 0
      \<and> (run_path f, run_name f) = (run_path (demo_run 101 ''r0''), run_name (demo_run 101 ''r0''))"
    using demo_run_complete by (auto simp: demo_run_def)
  show ?thesis
    using third_failure_needs_the_user [OF refl s f, of "[Finish]"] by simp
qed

text \<open>The list of failing commits is not bounded by the attempts: a decision to keep trying resets the
  counter and keeps the list.\<close>

lemma failing_commits_outlive_the_attempts:
  "let b = run after_bug_call default_bug
       (demo_work @ map (\<lambda>s. SubmitFix (demo_run 1 s)) [''a'', ''b'', ''c'']
        @ [Decide KeepTrying, SubmitFix (demo_run 1 ''d'')])
   in length (failed_shas b) = 4 \<and> attempts b = 1"
  by code_simp

end
