(* ===== verification/Lane_Guard.thy ===== *)
theory Lane_Guard
  imports Prelude Rust_Text "HOL-Library.List_Lexorder" "HOL-Library.Product_Lexorder"
begin

text \<open>
  The seam-lane guard and the dispatch forecast of \<open>src-tauri/src/workers/lane_guard.rs\<close>:
  paths are normalised and classified into four serial lanes, a candidate is judged
  against the open packages, and planned packages are put into a lane-serial order by a
  topological sort.  A \<open>BTreeSet\<close> is the sorted list of its elements, a \<open>BTreeMap\<close> a map;
  strings compare by their characters, which is the order of their UTF-8 bytes.
\<close>

section \<open>Seam lanes\<close>

datatype seam = Store | Api | Main | Cli

fun seam_rank :: "seam \<Rightarrow> nat" where
  "seam_rank Store = 0"
| "seam_rank Api = 1"
| "seam_rank Main = 2"
| "seam_rank Cli = 3"

text \<open>\<open>derive(PartialOrd, Ord)\<close>: the order of the constructors.\<close>

instantiation seam :: linorder
begin

definition less_eq_seam :: "seam \<Rightarrow> seam \<Rightarrow> bool" where
  "less_eq_seam a b \<longleftrightarrow> seam_rank a \<le> seam_rank b"

definition less_seam :: "seam \<Rightarrow> seam \<Rightarrow> bool" where
  "less_seam a b \<longleftrightarrow> seam_rank a < seam_rank b"

instance
proof
  fix a b :: seam
  show "a \<le> b \<Longrightarrow> b \<le> a \<Longrightarrow> a = b"
    by (cases a; cases b) (simp_all add: less_eq_seam_def)
qed (auto simp: less_eq_seam_def less_seam_def)

end

fun lane :: "seam \<Rightarrow> ustr" where
  "lane Store = lit ''st''"
| "lane Api = lit ''api''"
| "lane Main = lit ''mn''"
| "lane Cli = lit ''pa''"

section \<open>Paths\<close>

definition push_part :: "ustr list \<Rightarrow> ustr \<Rightarrow> ustr list" where
  "push_part parts part =
     (if part = [] \<or> part = lit ''.'' then parts
      else if part = lit ''..'' \<and> parts \<noteq> [] \<and> last parts \<noteq> lit ''..'' then butlast parts
      else parts @ [part])"

definition normalize_path :: "ustr \<Rightarrow> ustr" where
  "normalize_path raw =
     (let value = map (\<lambda>c. if c = 92 then 47 else c) (trim raw);
          joined = join [47] (foldl push_part [] (split_char 47 value))
      in to_ascii_lowercase (if starts_with value [47] then 47 # joined else joined))"

definition of_path :: "ustr \<Rightarrow> seam option" where
  "of_path path =
     (let p = normalize_path path
      in if p = lit ''src-tauri/src/store.rs'' \<or> p = lit ''src-tauri/src/store'' then Some Store
         else if p = lit ''src-tauri/src/api.rs'' then Some Api
         else if p = lit ''src-tauri/src/main.rs'' then Some Main
         else if p = lit ''src-tauri/src/bin/pa.rs'' then Some Cli
         else if starts_with p (lit ''src-tauri/src/store/'') then Some Store
         else None)"

definition paths_overlap :: "ustr \<Rightarrow> ustr \<Rightarrow> bool" where
  "paths_overlap left right =
     (let l = normalize_path left; r = normalize_path right
      in l = r \<or> starts_with l (r @ [47]) \<or> starts_with r (l @ [47]))"

definition lanes_of :: "ustr list \<Rightarrow> seam list" where
  "lanes_of paths = sort (remdups (List.map_filter of_path paths))"

section \<open>The guard\<close>

record open_package =
  run_id :: ustr
  task_id :: ustr
  owned_paths :: "ustr list"

datatype conflict_kind = Lane seam | Path ustr

record conflict =
  kind :: conflict_kind
  holder_run :: ustr
  holder_task :: ustr

definition describe :: "conflict \<Rightarrow> ustr" where
  "describe c =
     (let holder = (if holder_run c = [] then lit ''task '' @ holder_task c
                    else lit ''run '' @ holder_run c @ lit '' (task '' @ holder_task c @ lit '')'')
      in case kind c of
           Lane seam \<Rightarrow> lit ''seam lane '' @ [39] @ lane seam @ [39] @ lit '' is held by '' @ holder
         | Path path \<Rightarrow> lit ''path '' @ [39] @ path @ [39] @ lit '' overlaps '' @ holder)"

record verdict =
  blocks :: "conflict list"
  warnings :: "conflict list"

definition is_clear :: "verdict \<Rightarrow> bool" where
  "is_clear v \<longleftrightarrow> blocks v = [] \<and> warnings v = []"

definition conflict_with :: "conflict_kind \<Rightarrow> open_package \<Rightarrow> conflict" where
  "conflict_with k p = \<lparr>kind = k, holder_run = run_id p, holder_task = task_id p\<rparr>"

text \<open>One pair of paths: the state is the set of warned paths and the warnings so far.\<close>

definition same_blocked_seam :: "seam list \<Rightarrow> ustr \<Rightarrow> ustr \<Rightarrow> bool" where
  "same_blocked_seam shared cand held \<longleftrightarrow>
     (case (of_path cand, of_path held) of
        (Some a, Some b) \<Rightarrow> a = b \<and> a \<in> set shared
      | _ \<Rightarrow> False)"

definition warn_pair ::
  "open_package \<Rightarrow> seam list \<Rightarrow> ustr list \<times> conflict list \<Rightarrow> ustr \<times> ustr
     \<Rightarrow> ustr list \<times> conflict list" where
  "warn_pair p shared acc pr =
     (case acc of (warned, ws) \<Rightarrow> case pr of (cand, held) \<Rightarrow>
        if \<not> paths_overlap cand held \<or> same_blocked_seam shared cand held
           \<or> normalize_path cand \<in> set warned
        then (warned, ws)
        else (normalize_path cand # warned,
              ws @ [conflict_with (Path (normalize_path cand)) p]))"

definition shared_lanes :: "ustr list \<Rightarrow> open_package \<Rightarrow> seam list" where
  "shared_lanes candidate_paths p =
     filter (\<lambda>s. s \<in> set (lanes_of (owned_paths p))) (lanes_of candidate_paths)"

definition evaluate :: "ustr \<Rightarrow> ustr list \<Rightarrow> open_package list \<Rightarrow> verdict" where
  "evaluate candidate_task candidate_paths opened =
     foldl (\<lambda>v p.
       if task_id p = candidate_task then v
       else (let shared = shared_lanes candidate_paths p
             in \<lparr>blocks = blocks v @ map (\<lambda>s. conflict_with (Lane s) p) shared,
                 warnings = snd (foldl (warn_pair p shared) ([], warnings v)
                   (List.product candidate_paths (owned_paths p)))\<rparr>))
       \<lparr>blocks = [], warnings = []\<rparr> opened"

section \<open>The launch check\<close>

text \<open>What the check reads from the store: a snapshot of the answers of its three calls.\<close>

record development_run =
  dr_id :: ustr
  dr_task_id :: ustr
  dr_status :: ustr

record task_row =
  tr_id :: ustr
  tr_status :: ustr
  tr_owned_paths :: "ustr list"

record store_view =
  list_projects :: "ustr + ustr list"
  list_runs :: "ustr \<Rightarrow> ustr + development_run list"
  context_tasks :: "ustr \<Rightarrow> ustr + task_row list"

fun find_project ::
  "store_view \<Rightarrow> ustr \<Rightarrow> ustr list \<Rightarrow> ustr + (ustr \<times> development_run list) option" where
  "find_project sv rid [] = Ok None"
| "find_project sv rid (p # ps) =
     and_then (list_runs sv p) (\<lambda>runs.
       if \<exists>r\<in>set runs. dr_id r = rid then Ok (Some (p, runs)) else find_project sv rid ps)"

definition open_statuses :: "ustr list" where
  "open_statuses = [lit ''intent'', lit ''launched'', lit ''reconciling'']"

definition paths_of :: "task_row list \<Rightarrow> ustr \<Rightarrow> ustr list" where
  "paths_of tasks t =
     (case find (\<lambda>x. tr_id x = t) tasks of None \<Rightarrow> [] | Some x \<Rightarrow> tr_owned_paths x)"

definition open_runs ::
  "development_run \<Rightarrow> development_run list \<Rightarrow> task_row list \<Rightarrow> open_package list" where
  "open_runs this_run runs tasks =
     map (\<lambda>o1. \<lparr>run_id = dr_id o1, task_id = dr_task_id o1, owned_paths = paths_of tasks (dr_task_id o1)\<rparr>)
       (filter (\<lambda>o1. dr_id o1 \<noteq> dr_id this_run \<and> dr_status o1 \<in> set open_statuses) runs)"

definition claimed_tasks ::
  "development_run \<Rightarrow> ustr list \<Rightarrow> task_row list \<Rightarrow> open_package list" where
  "claimed_tasks this_run covered tasks =
     map (\<lambda>t. \<lparr>run_id = [], task_id = tr_id t, owned_paths = tr_owned_paths t\<rparr>)
       (filter (\<lambda>t. \<not> (tr_status t \<noteq> lit ''running'' \<or> tr_id t = dr_task_id this_run
                        \<or> tr_id t \<in> set covered)) tasks)"

definition refuse_lane_conflicts ::
  "store_view \<Rightarrow> development_run \<Rightarrow> ustr + conflict list" where
  "refuse_lane_conflicts sv this_run =
     and_then (list_projects sv) (\<lambda>ps.
     and_then (find_project sv (dr_id this_run) ps) (\<lambda>found.
     case found of
       None \<Rightarrow> Err (lit ''lane guard: unknown development run: '' @ dr_id this_run)
     | Some (project, runs) \<Rightarrow>
         and_then (context_tasks sv project) (\<lambda>tasks.
         let cand = paths_of tasks (dr_task_id this_run)
         in if cand = [] then Ok []
            else (let opened = open_runs this_run runs tasks;
                      all = opened @ claimed_tasks this_run (map task_id opened) tasks;
                      v = evaluate (dr_task_id this_run) cand all
                  in case blocks v of
                       b # _ \<Rightarrow> Err (lit ''lane guard: '' @ describe b
                         @ lit ''; a second dispatch on this lane is refused while the first package is open'')
                     | [] \<Rightarrow> Ok (warnings v)))))"

section \<open>The forecast\<close>

record planned_package =
  pkg_id :: ustr
  priority :: u32
  files :: "ustr list"
  depends_on :: "ustr list"

record graph =
  followers :: "ustr \<Rightarrow> ustr list"
  indegree :: "ustr \<Rightarrow> nat"

definition add_edge :: "graph \<Rightarrow> ustr \<times> ustr \<Rightarrow> graph" where
  "add_edge g e =
     (case e of (before, after) \<Rightarrow>
        if after \<in> set (followers g before) then g
        else g\<lparr>followers := (followers g)(before := insort after (followers g before)),
               indegree := (indegree g)(after := indegree g after + 1)\<rparr>)"

definition overlapping :: "planned_package \<Rightarrow> planned_package \<Rightarrow> bool" where
  "overlapping a b \<longleftrightarrow>
     (\<exists>fa\<in>set (files a). \<exists>fb\<in>set (files b). paths_overlap fa fb)
     \<or> (\<exists>s\<in>set (lanes_of (files a)). s \<in> set (lanes_of (files b)))"

definition duel :: "planned_package \<Rightarrow> planned_package \<Rightarrow> ustr \<times> ustr" where
  "duel a b =
     (if (priority a, pkg_id a) \<le> (priority b, pkg_id b) then (pkg_id a, pkg_id b)
      else (pkg_id b, pkg_id a))"

fun first_duplicate :: "ustr list \<Rightarrow> planned_package list \<Rightarrow> ustr option" where
  "first_duplicate seen [] = None"
| "first_duplicate seen (p # ps) =
     (if pkg_id p \<in> set seen then Some (pkg_id p) else first_duplicate (pkg_id p # seen) ps)"

definition dep_edges :: "planned_package list \<Rightarrow> (ustr \<times> ustr) list" where
  "dep_edges pkgs = concat (map (\<lambda>p. map (\<lambda>d. (d, pkg_id p)) (depends_on p)) pkgs)"

fun lane_edges :: "planned_package list \<Rightarrow> (ustr \<times> ustr) list" where
  "lane_edges [] = []"
| "lane_edges (a # ps) = map (duel a) (filter (overlapping a) ps) @ lane_edges ps"

definition edge_graph :: "(ustr \<times> ustr) list \<Rightarrow> graph" where
  "edge_graph es = foldl add_edge \<lparr>followers = (\<lambda>_. []), indegree = (\<lambda>_. 0)\<rparr> es"

definition priority_of :: "planned_package list \<Rightarrow> ustr \<Rightarrow> u32" where
  "priority_of pkgs i =
     (case find (\<lambda>p. pkg_id p = i) pkgs of None \<Rightarrow> 0 | Some p \<Rightarrow> priority p)"

text \<open>
  The loop: \<open>ready\<close> is the \<open>BTreeSet\<close> of placeable packages, whose first element is
  taken; its followers lose a degree.  The number of packages bounds the rounds;
  \<open>None\<close> is a loop that would go on, which \<open>dispatch_order_is_linear_extension\<close> excludes.
\<close>

record kahn =
  ready :: "(u32 \<times> ustr) list"
  order :: "ustr list"
  degree :: "ustr \<Rightarrow> nat"

definition settle :: "planned_package list \<Rightarrow> kahn \<Rightarrow> ustr \<Rightarrow> kahn" where
  "settle pkgs s nxt =
     (let d = degree s nxt - 1
      in s\<lparr>degree := (degree s)(nxt := d),
           ready := (if d = 0 then insort_insert (priority_of pkgs nxt, nxt) (ready s) else ready s)\<rparr>)"

fun kahn_loop :: "nat \<Rightarrow> planned_package list \<Rightarrow> graph \<Rightarrow> kahn \<Rightarrow> kahn option" where
  "kahn_loop n pkgs g s =
     (case ready s of
        [] \<Rightarrow> Some s
      | (_, i) # rest \<Rightarrow>
         (case n of
            0 \<Rightarrow> None
          | Suc m \<Rightarrow> kahn_loop m pkgs g
              (foldl (settle pkgs) (s\<lparr>ready := rest, order := order s @ [i]\<rparr>) (followers g i))))"

declare kahn_loop.simps [simp del]

definition kahn_start :: "planned_package list \<Rightarrow> graph \<Rightarrow> kahn" where
  "kahn_start pkgs g =
     \<lparr>ready = foldr insort_insert
        (map (\<lambda>p. (priority_of pkgs (pkg_id p), pkg_id p)) (filter (\<lambda>p. indegree g (pkg_id p) = 0) pkgs)) [],
      order = [], degree = indegree g\<rparr>"

definition dispatch_order :: "planned_package list \<Rightarrow> (ustr + ustr list) option" where
  "dispatch_order pkgs =
     (case first_duplicate [] pkgs of
        Some i \<Rightarrow> Some (Err (lit ''duplicate package id: '' @ i))
      | None \<Rightarrow>
         (case find (\<lambda>(d, i). d \<notin> pkg_id ` set pkgs) (dep_edges pkgs) of
            Some (d, i) \<Rightarrow> Some (Err (lit ''unknown dependency '' @ d @ lit '' of '' @ i))
          | None \<Rightarrow>
             (let g = edge_graph (dep_edges pkgs @ lane_edges pkgs)
              in map_option (\<lambda>s.
                   if length (order s) \<noteq> length pkgs
                   then Err (lit ''dependency or lane-conflict cycle in the planned packages'')
                   else Ok (order s))
                 (kahn_loop (length pkgs) pkgs g (kahn_start pkgs g)))))"

section \<open>The lanes\<close>

lemma set_lanes_of [simp]: "set (lanes_of paths) = {s. \<exists>p\<in>set paths. of_path p = Some s}"
  by (auto simp: lanes_of_def List.map_filter_def image_iff split: option.splits) force+

lemma paths_overlap_sym: "paths_overlap a b = paths_overlap b a"
  by (auto simp: paths_overlap_def Let_def)

lemma overlapping_sym: "overlapping a b = overlapping b a"
  unfolding overlapping_def set_lanes_of using paths_overlap_sym by blast

section \<open>What a verdict reports\<close>

text \<open>The warnings of one package: the state after any pairs of paths.\<close>

definition reports :: "seam list \<Rightarrow> ustr \<times> ustr \<Rightarrow> bool" where
  "reports shared pr \<longleftrightarrow>
     paths_overlap (fst pr) (snd pr) \<and> \<not> same_blocked_seam shared (fst pr) (snd pr)"

lemma warn_pairs:
  "foldl (warn_pair p shared) ([], ws) prs = (warned, ws') \<Longrightarrow>
     set warned = (\<lambda>pr. normalize_path (fst pr)) ` {pr \<in> set prs. reports shared pr}
     \<and> set ws' = set ws \<union> (\<lambda>n. conflict_with (Path n) p) ` set warned"
proof (induction prs arbitrary: warned ws' rule: rev_induct)
  case (snoc pr prs)
  obtain cand held where pr: "pr = (cand, held)" by fastforce
  obtain w1 ws1 where s: "foldl (warn_pair p shared) ([], ws) prs = (w1, ws1)" by fastforce
  have step: "warn_pair p shared (w1, ws1) (cand, held) = (warned, ws')"
    using snoc.prems by (simp add: s pr)
  have old: "set w1 = (\<lambda>pr. normalize_path (fst pr)) ` {pr \<in> set prs. reports shared pr}"
    "set ws1 = set ws \<union> (\<lambda>n. conflict_with (Path n) p) ` set w1"
    using snoc.IH [OF s] by auto
  have new: "{x \<in> set (prs @ [pr]). reports shared x}
      = {x \<in> set prs. reports shared x} \<union> (if reports shared pr then {pr} else {})"
    by auto
  show ?case
    unfolding new image_Un old(1) [symmetric]
    using step old(2) by (auto simp: pr warn_pair_def reports_def split: if_splits)
qed simp

lemma verdict_snoc:
  "evaluate t cs (opened @ [p]) =
     (if task_id p = t then evaluate t cs opened
      else (let v = evaluate t cs opened;
                shared = shared_lanes cs p
            in \<lparr>blocks = blocks v @ map (\<lambda>s. conflict_with (Lane s) p) shared,
                warnings = snd (foldl (warn_pair p shared) ([], warnings v)
                  (List.product cs (owned_paths p)))\<rparr>))"
  by (simp add: evaluate_def Let_def)

lemma set_shared_lanes [simp]:
  "set (shared_lanes cs p) = set (lanes_of cs) \<inter> set (lanes_of (owned_paths p))"
  by (auto simp: shared_lanes_def)

lemma evaluate_blocks:
  "set (blocks (evaluate t cs opened)) =
     (\<Union>p\<in>{p \<in> set opened. task_id p \<noteq> t}. (\<lambda>s. conflict_with (Lane s) p) ` set (shared_lanes cs p))"
proof (induction opened rule: rev_induct)
  case Nil
  show ?case by (simp add: evaluate_def)
next
  case (snoc p opened)
  then show ?case by (auto simp: verdict_snoc Let_def)
qed

definition warned_for :: "ustr list \<Rightarrow> open_package \<Rightarrow> conflict set" where
  "warned_for cs p =
     (\<lambda>n. conflict_with (Path n) p) ` (\<lambda>pr. normalize_path (fst pr)) `
       {pr \<in> set (List.product cs (owned_paths p)). reports (shared_lanes cs p) pr}"

lemma evaluate_warnings:
  "set (warnings (evaluate t cs opened)) = (\<Union>p\<in>{p \<in> set opened. task_id p \<noteq> t}. warned_for cs p)"
proof (induction opened rule: rev_induct)
  case Nil
  show ?case by (simp add: evaluate_def)
next
  case (snoc p opened)
  show ?case
  proof (cases "task_id p = t")
    case True
    then show ?thesis using snoc by (auto simp: verdict_snoc)
  next
    case False
    obtain w ws where w: "foldl (warn_pair p (shared_lanes cs p)) ([], warnings (evaluate t cs opened))
        (List.product cs (owned_paths p)) = (w, ws)" by fastforce
    have ws: "warnings (evaluate t cs (opened @ [p])) = ws"
      unfolding verdict_snoc using False w by (simp add: Let_def)
    have "set ws = set (warnings (evaluate t cs opened)) \<union> warned_for cs p"
      using warn_pairs [OF w] by (simp add: warned_for_def)
    moreover have "{x \<in> set (opened @ [p]). task_id x \<noteq> t} = insert p {x \<in> set opened. task_id x \<noteq> t}"
      using False by auto
    ultimately show ?thesis unfolding ws using snoc by auto
  qed
qed

section \<open>The constraint graph\<close>

definition preds :: "(ustr \<times> ustr) list \<Rightarrow> ustr \<Rightarrow> ustr set" where
  "preds es b = {a. (a, b) \<in> set es}"

lemma finite_preds [simp]: "finite (preds es b)"
  by (rule finite_subset [of _ "fst ` set es"]) (force simp: preds_def)+

lemma edge_graph_snoc: "edge_graph (es @ [e]) = add_edge (edge_graph es) e"
  by (simp add: edge_graph_def)

lemma followers_edge_graph:
  "set (followers (edge_graph es) a) = {b. (a, b) \<in> set es} \<and> distinct (followers (edge_graph es) a)"
proof (induction es arbitrary: a rule: rev_induct)
  case Nil
  show ?case by (simp add: edge_graph_def)
next
  case (snoc e es)
  obtain x y where e: "e = (x, y)" by fastforce
  from snoc.IH [of a] snoc.IH [of x] show ?case
    by (auto simp: edge_graph_snoc e add_edge_def set_insort_key distinct_insort)
qed

lemma indegree_edge_graph: "indegree (edge_graph es) b = card (preds es b)"
proof (induction es arbitrary: b rule: rev_induct)
  case Nil
  show ?case by (simp add: edge_graph_def preds_def)
next
  case (snoc e es)
  obtain x y where e: "e = (x, y)" by fastforce
  have p: "preds (es @ [e]) b = (if b = y then insert x (preds es b) else preds es b)"
    by (auto simp: preds_def e)
  have "y \<in> set (followers (edge_graph es) x) \<longleftrightarrow> x \<in> preds es y"
    using followers_edge_graph [of es x] by (simp add: preds_def)
  then show ?case
    unfolding p using snoc.IH by (auto simp: edge_graph_snoc e add_edge_def insert_absorb)
qed

section \<open>The topological sort\<close>

definition ids :: "planned_package list \<Rightarrow> ustr set" where
  "ids pkgs = pkg_id ` set pkgs"

abbreviation entry :: "planned_package list \<Rightarrow> ustr \<Rightarrow> u32 \<times> ustr" where
  "entry pkgs b \<equiv> (priority_of pkgs b, b)"

lemma settle_fold:
  "distinct fs \<Longrightarrow> distinct (ready s) \<Longrightarrow>
     degree (foldl (settle pkgs) s fs) = (\<lambda>x. if x \<in> set fs then degree s x - 1 else degree s x)
     \<and> order (foldl (settle pkgs) s fs) = order s
     \<and> distinct (ready (foldl (settle pkgs) s fs))
     \<and> set (ready (foldl (settle pkgs) s fs))
         = set (ready s) \<union> entry pkgs ` {x \<in> set fs. degree s x \<le> 1}"
proof (induction fs arbitrary: s)
  case (Cons f fs)
  let ?s = "settle pkgs s f"
  have d: "degree ?s = (degree s)(f := degree s f - 1)" "order ?s = order s" "distinct (ready ?s)"
    "set (ready ?s) = set (ready s) \<union> (if degree s f \<le> 1 then {entry pkgs f} else {})"
    using Cons.prems(2)
    by (auto simp: settle_def Let_def insort_insert_key_def set_insort_key distinct_insort)
  have "\<And>x. x \<in> set fs \<Longrightarrow> degree ?s x = degree s x" using Cons.prems(1) d(1) by auto
  then have "{x \<in> set fs. degree ?s x \<le> 1} = {x \<in> set fs. degree s x \<le> 1}" by auto
  with Cons.IH [OF _ d(3)] Cons.prems(1) d show ?case by (auto simp: fun_eq_iff)
qed (simp add: fun_eq_iff)

definition kahn_inv :: "planned_package list \<Rightarrow> (ustr \<times> ustr) list \<Rightarrow> kahn \<Rightarrow> bool" where
  "kahn_inv pkgs es s \<longleftrightarrow>
     distinct (order s) \<and> set (order s) \<subseteq> ids pkgs \<and> distinct (ready s)
     \<and> (\<forall>b. degree s b = card (preds es b - set (order s)))
     \<and> set (ready s) = entry pkgs ` {b \<in> ids pkgs - set (order s). degree s b = 0}
     \<and> (\<forall>i<length (order s). preds es (order s ! i) \<subseteq> set (take i (order s)))"

lemma kahn_inv_start:
  "kahn_inv pkgs es (kahn_start pkgs (edge_graph es))"
proof -
  have "distinct (foldr insort_insert xs []) \<and> set (foldr insort_insert xs []) = set xs"
    for xs :: "(u32 \<times> ustr) list"
    by (induction xs) (auto simp: insort_insert_key_def set_insort_key distinct_insort)
  then show ?thesis
    by (auto simp: kahn_inv_def kahn_start_def ids_def indegree_edge_graph)
qed

lemma kahn_inv_step:
  assumes inv: "kahn_inv pkgs es s" and es: "set es \<subseteq> ids pkgs \<times> ids pkgs"
    and r: "ready s = (p, i) # rest"
  shows "kahn_inv pkgs es (foldl (settle pkgs) (s\<lparr>ready := rest, order := order s @ [i]\<rparr>)
           (followers (edge_graph es) i))"
    (is "kahn_inv pkgs es (foldl _ ?s ?fs)")
proof -
  let ?t = "foldl (settle pkgs) ?s ?fs" and ?O = "set (order s)"
  have fs: "set ?fs = {b. (i, b) \<in> set es}" "distinct ?fs"
    using followers_edge_graph [of es i] by simp_all
  have deg: "\<And>b. degree s b = card (preds es b - ?O)" and rdy:
    "set (ready s) = entry pkgs ` {b \<in> ids pkgs - ?O. degree s b = 0}" and "distinct (ready s)"
    and closed: "\<And>k. k < length (order s) \<Longrightarrow> preds es (order s ! k) \<subseteq> set (take k (order s))"
    using inv by (auto simp: kahn_inv_def)
  have "(p, i) \<in> set (ready s)" by (simp add: r)
  then have i: "i \<in> ids pkgs" "i \<notin> ?O" "degree s i = 0" "p = priority_of pkgs i"
    using rdy by auto
  then have prei: "preds es i \<subseteq> ?O" using deg [of i] by auto
  have t: "degree ?t = (\<lambda>x. if x \<in> set ?fs then degree s x - 1 else degree s x)"
    "order ?t = order s @ [i]" "distinct (ready ?t)"
    "set (ready ?t) = set rest \<union> entry pkgs ` {x \<in> set ?fs. degree s x \<le> 1}"
    using settle_fold [OF fs(2), of ?s pkgs] \<open>distinct (ready s)\<close> r by (simp_all cong: if_cong)
  have fol: "x \<notin> ?O \<and> x \<noteq> i \<and> x \<in> ids pkgs \<and> 0 < degree s x" if "x \<in> set ?fs" for x
  proof -
    have ix: "i \<in> preds es x" using that fs(1) by (simp add: preds_def)
    have "x \<notin> ?O"
    proof
      assume "x \<in> ?O"
      then obtain k where "k < length (order s)" "order s ! k = x" by (auto simp: in_set_conv_nth)
      with closed [of k] ix have "i \<in> set (take k (order s))" by auto
      then show False using i(2) in_set_takeD by metis
    qed
    moreover have "0 < card (preds es x - ?O)" using ix i(2) by (auto simp: card_gt_0_iff)
    ultimately show ?thesis using ix prei i(2) es that fs(1) deg by auto
  qed
  have K2: "degree ?t b = card (preds es b - set (order ?t))" for b
  proof (cases "b \<in> set ?fs")
    case True
    have "preds es b - set (order ?t) = (preds es b - ?O) - {i}" by (auto simp: t(2))
    moreover have "i \<in> preds es b - ?O" using True fs(1) i(2) by (simp add: preds_def)
    ultimately show ?thesis using True by (simp add: t(1) deg)
  next
    case False
    have "preds es b - set (order ?t) = preds es b - ?O" using False fs(1) by (auto simp: t(2) preds_def)
    then show ?thesis using False by (simp add: t(1) deg)
  qed
  have rest: "set rest = entry pkgs ` {b \<in> ids pkgs - ?O - {i}. degree s b = 0}"
  proof -
    have "set rest = set (ready s) - {(p, i)}" using \<open>distinct (ready s)\<close> r by auto
    then show ?thesis unfolding rdy using i(4) by auto
  qed
  have K3: "set (ready ?t) = entry pkgs ` {b \<in> ids pkgs - set (order ?t). degree ?t b = 0}"
  proof -
    have "{b \<in> ids pkgs - set (order ?t). degree ?t b = 0}
        = {b \<in> ids pkgs - ?O - {i}. degree s b = 0} \<union> {x \<in> set ?fs. degree s x \<le> 1}"
      using fol by (auto simp: t(1,2) split: if_splits)
    then show ?thesis unfolding t(4) rest by auto
  qed
  have K4: "preds es (order ?t ! k) \<subseteq> set (take k (order ?t))" if "k < length (order ?t)" for k
    using that closed [of k] prei by (auto simp: t(2) nth_append less_Suc_eq)
  show ?thesis
    unfolding kahn_inv_def using K2 K3 K4 t(2,3) inv i by (auto simp: kahn_inv_def)
qed

lemma kahn_loop_ends:
  assumes es: "set es \<subseteq> ids pkgs \<times> ids pkgs" and dist: "distinct (map pkg_id pkgs)"
  shows "kahn_inv pkgs es s \<Longrightarrow> length (order s) + n = length pkgs \<Longrightarrow>
    \<exists>s'. kahn_loop n pkgs (edge_graph es) s = Some s' \<and> kahn_inv pkgs es s' \<and> ready s' = []"
proof (induction n arbitrary: s)
  case 0
  have "card (set (order s)) = length (order s)"
    using 0 by (simp add: kahn_inv_def distinct_card)
  moreover have "card (ids pkgs) = length pkgs"
    using distinct_card [OF dist] by (simp add: ids_def)
  ultimately have "set (order s) = ids pkgs"
    using 0 by (intro card_subset_eq) (auto simp: kahn_inv_def ids_def)
  then have "ready s = []" using 0 by (auto simp: kahn_inv_def)
  then show ?case using 0 by (subst kahn_loop.simps) simp
next
  case (Suc n)
  show ?case
  proof (cases "ready s")
    case Nil
    then show ?thesis using Suc.prems by (subst kahn_loop.simps) simp
  next
    case (Cons e rest)
    obtain p i where e: "e = (p, i)" by fastforce
    let ?t = "foldl (settle pkgs) (s\<lparr>ready := rest, order := order s @ [i]\<rparr>)
        (followers (edge_graph es) i)"
    have t: "kahn_inv pkgs es ?t" by (rule kahn_inv_step [OF Suc.prems(1) es Cons [unfolded e]])
    have "order ?t = order s @ [i]"
      using settle_fold [of "followers (edge_graph es) i" "s\<lparr>ready := rest, order := order s @ [i]\<rparr>" pkgs]
        followers_edge_graph [of es i] Suc.prems(1) Cons by (simp add: kahn_inv_def)
    with Suc.IH [OF t] Suc.prems(2) show ?thesis
      by (subst kahn_loop.simps) (simp add: Cons e)
  qed
qed

section \<open>The order and its constraints\<close>

definition before :: "'a list \<Rightarrow> 'a \<Rightarrow> 'a \<Rightarrow> bool" where
  "before xs a b \<longleftrightarrow> (\<exists>i j. i < j \<and> j < length xs \<and> xs ! i = a \<and> xs ! j = b)"

abbreviation constraints :: "planned_package list \<Rightarrow> (ustr \<times> ustr) list" where
  "constraints pkgs \<equiv> dep_edges pkgs @ lane_edges pkgs"

lemma first_duplicate_None:
  "first_duplicate seen pkgs = None \<longleftrightarrow>
     distinct (map pkg_id pkgs) \<and> set seen \<inter> ids pkgs = {}"
  by (induction pkgs arbitrary: seen) (auto simp: ids_def)

lemma lane_edges_ids: "set (lane_edges pkgs) \<subseteq> ids pkgs \<times> ids pkgs"
  by (induction pkgs) (auto simp: ids_def duel_def split: if_splits)

lemma lane_edge:
  "distinct (map pkg_id pkgs) \<Longrightarrow> a \<in> set pkgs \<Longrightarrow> b \<in> set pkgs \<Longrightarrow> pkg_id a \<noteq> pkg_id b \<Longrightarrow>
    overlapping a b \<Longrightarrow> (priority a, pkg_id a) \<le> (priority b, pkg_id b) \<Longrightarrow>
    (pkg_id a, pkg_id b) \<in> set (lane_edges pkgs)"
proof (induction pkgs)
  case (Cons p pkgs)
  have ab: "duel a b = (pkg_id a, pkg_id b)" using Cons.prems(6) by (simp add: duel_def)
  have "\<not> (priority b, pkg_id b) \<le> (priority a, pkg_id a)"
  proof
    assume "(priority b, pkg_id b) \<le> (priority a, pkg_id a)"
    with Cons.prems(6) have "(priority a, pkg_id a) = (priority b, pkg_id b)" by (rule antisym)
    with Cons.prems(4) show False by simp
  qed
  then have ba: "duel b a = (pkg_id a, pkg_id b)" unfolding duel_def by (rule if_not_P)
  consider "a = p" "b \<in> set pkgs" | "b = p" "a \<in> set pkgs" | "a \<in> set pkgs" "b \<in> set pkgs"
    using Cons.prems(2-4) by auto
  then show ?case
  proof cases
    case 1
    then show ?thesis using Cons.prems(5) ab [symmetric] by auto
  next
    case 2
    then show ?thesis using Cons.prems(5) overlapping_sym [of a b] ba [symmetric] by auto
  next
    case 3
    then show ?thesis using Cons by simp
  qed
qed simp

lemma known_deps:
  "find (\<lambda>(d, i). d \<notin> pkg_id ` set pkgs) (dep_edges pkgs) = None \<longleftrightarrow>
     (\<forall>p\<in>set pkgs. set (depends_on p) \<subseteq> ids pkgs)"
proof -
  have "find (\<lambda>(d, i). d \<notin> pkg_id ` set pkgs) (dep_edges pkgs) = None
      \<longleftrightarrow> fst ` set (dep_edges pkgs) \<subseteq> ids pkgs"
    by (force simp: find_None_iff ids_def)
  also have "fst ` set (dep_edges pkgs) = (\<Union>p\<in>set pkgs. set (depends_on p))"
    by (force simp: dep_edges_def)
  finally show ?thesis by blast
qed

lemma constraints_ids:
  assumes "\<forall>p\<in>set pkgs. set (depends_on p) \<subseteq> ids pkgs"
  shows "set (constraints pkgs) \<subseteq> ids pkgs \<times> ids pkgs"
  using lane_edges_ids [of pkgs] assms by (auto simp: dep_edges_def ids_def)

text \<open>What the loop leaves behind when the input is well formed.\<close>

lemma sorted_packages:
  assumes dist: "distinct (map pkg_id pkgs)" and deps: "\<forall>p\<in>set pkgs. set (depends_on p) \<subseteq> ids pkgs"
  obtains s where "kahn_inv pkgs (constraints pkgs) s" "ready s = []"
    "dispatch_order pkgs = Some (if length (order s) \<noteq> length pkgs
       then Err (lit ''dependency or lane-conflict cycle in the planned packages'') else Ok (order s))"
proof -
  let ?g = "edge_graph (constraints pkgs)"
  have "length (order (kahn_start pkgs ?g)) + length pkgs = length pkgs"
    by (simp add: kahn_start_def)
  from kahn_loop_ends [OF constraints_ids [OF deps] dist kahn_inv_start this] obtain s where
    "kahn_loop (length pkgs) pkgs ?g (kahn_start pkgs ?g) = Some s"
    "kahn_inv pkgs (constraints pkgs) s" "ready s = []" by blast
  moreover have "first_duplicate [] pkgs = None" using dist by (simp add: first_duplicate_None)
  moreover have "find (\<lambda>(d, i). d \<notin> pkg_id ` set pkgs) (dep_edges pkgs) = None"
    using deps by (simp add: known_deps)
  ultimately show ?thesis using that by (simp add: dispatch_order_def Let_def)
qed

lemma kahn_inv_before:
  assumes "kahn_inv pkgs es s" "(a, b) \<in> set es" "b \<in> set (order s)"
  shows "before (order s) a b"
proof -
  from assms(3) obtain j where j: "j < length (order s)" "order s ! j = b"
    by (auto simp: in_set_conv_nth)
  have "a \<in> preds es b" using assms(2) by (simp add: preds_def)
  with assms(1) j have "a \<in> set (take j (order s))" by (auto simp: kahn_inv_def)
  then obtain i where "i < j" "order s ! i = a" by (auto simp: in_set_conv_nth)
  with j show ?thesis by (auto simp: before_def)
qed

lemma before_rank:
  assumes "distinct xs" "before xs a b"
  shows "length (takeWhile (\<lambda>x. x \<noteq> a) xs) < length (takeWhile (\<lambda>x. x \<noteq> b) xs)"
proof -
  have pos: "length (takeWhile (\<lambda>x. x \<noteq> xs ! k) xs) = k" if "k < length xs" for k
  proof -
    have "takeWhile (\<lambda>x. x \<noteq> xs ! k) xs = take k xs"
      using that assms(1) by (intro takeWhile_eq_take_P_nth) (auto simp: nth_eq_iff_index_eq)
    then show ?thesis using that by simp
  qed
  from assms(2) show ?thesis by (auto simp: before_def pos)
qed

text \<open>A loop that stops early leaves packages that all wait for one another.\<close>

lemma kahn_complete:
  assumes inv: "kahn_inv pkgs es s" and "ready s = []"
    and es: "set es \<subseteq> ids pkgs \<times> ids pkgs"
    and rank: "\<And>a b. (a, b) \<in> set es \<Longrightarrow> rank a < (rank b :: nat)"
  shows "set (order s) = ids pkgs"
proof (rule ccontr)
  assume "set (order s) \<noteq> ids pkgs"
  moreover have "set (order s) \<subseteq> ids pkgs" using inv by (simp add: kahn_inv_def)
  ultimately obtain b where b: "b \<in> ids pkgs - set (order s)"
    "\<And>x. x \<in> ids pkgs - set (order s) \<Longrightarrow> rank b \<le> rank x"
    using ex_has_least_nat [of "\<lambda>x. x \<in> ids pkgs - set (order s)" _ rank] by blast
  have "degree s b \<noteq> 0"
  proof
    assume "degree s b = 0"
    with b(1) have "entry pkgs b \<in> entry pkgs ` {b \<in> ids pkgs - set (order s). degree s b = 0}" by blast
    also have "\<dots> = set (ready s)" using inv by (simp add: kahn_inv_def)
    finally show False using assms(2) by simp
  qed
  moreover have "degree s b = card (preds es b - set (order s))" using inv by (simp add: kahn_inv_def)
  ultimately have "preds es b - set (order s) \<noteq> {}" by (metis card.empty)
  then obtain a where "a \<in> preds es b" "a \<notin> set (order s)" by blast
  with es rank b(2) [of a] show False by (force simp: preds_def)
qed

section \<open>Worked packages\<close>

definition demo_pkg :: "string \<Rightarrow> u32 \<Rightarrow> string list \<Rightarrow> string list \<Rightarrow> planned_package" where
  "demo_pkg i p fs ds =
     \<lparr>pkg_id = lit i, priority = p, files = map lit fs, depends_on = map lit ds\<rparr>"

definition demo_wave :: "planned_package list" where
  "demo_wave =
     [demo_pkg ''c'' 1 [''src-tauri/src/store/a.rs''] [''b''],
      demo_pkg ''a'' 2 [''src-tauri/src/store.rs''] [],
      demo_pkg ''b'' 3 [''src/x.ts''] []]"

lemma demo_order: "dispatch_order demo_wave = Some (Ok [lit ''b'', lit ''c'', lit ''a''])"
  by code_simp

definition demo_open :: "open_package list" where
  "demo_open = [\<lparr>run_id = lit ''r1'', task_id = lit ''t1'',
     owned_paths = [lit ''src-tauri/src/store/goals.rs'', lit ''src/x.ts'']\<rparr>]"

text \<open>
  Two gaps of the path rules: a scope above the seams sits on none of their lanes and is only
  warned about, and the whole workspace overlaps nothing.
\<close>

lemma scope_above_the_seams_is_not_refused:
  "let v = evaluate (lit ''t2'') [lit ''src-tauri/src''] demo_open
   in blocks v = [] \<and> length (warnings v) = 1"
  by code_simp

lemma whole_workspace_overlaps_nothing:
  "is_clear (evaluate (lit ''t2'') [lit ''.''] demo_open)"
  by code_simp

definition demo_view :: store_view where
  "demo_view = \<lparr>list_projects = Ok [lit ''p0'', lit ''p1''],
     list_runs = (\<lambda>p. Ok (if p = lit ''p1''
        then [\<lparr>dr_id = lit ''r1'', dr_task_id = lit ''t1'', dr_status = lit ''launched''\<rparr>,
              \<lparr>dr_id = lit ''r2'', dr_task_id = lit ''t2'', dr_status = lit ''intent''\<rparr>] else [])),
     context_tasks = (\<lambda>p. Ok
        [\<lparr>tr_id = lit ''t1'', tr_status = lit ''running'', tr_owned_paths = [lit ''src-tauri/src/api.rs'']\<rparr>,
         \<lparr>tr_id = lit ''t2'', tr_status = lit ''running'', tr_owned_paths = [lit ''src-tauri/src/main.rs'']\<rparr>])\<rparr>"

definition demo_dev_run :: development_run where
  "demo_dev_run = \<lparr>dr_id = lit ''r2'', dr_task_id = lit ''t2'', dr_status = lit ''intent''\<rparr>"

lemma demo_launch: "refuse_lane_conflicts demo_view demo_dev_run = Ok []"
  by code_simp

section \<open>Properties\<close>

text \<open>an order of the forecast is a lane-serial linear extension: every package once, every
  dependency before its follower, and of two packages that share a file or a seam lane the one
  with the smaller priority, then id, first.\<close>

theorem dispatch_order_is_linear_extension:
  assumes "dispatch_order pkgs = Some (Ok out)"
  shows "distinct out \<and> set out = ids pkgs
     \<and> (\<forall>p\<in>set pkgs. \<forall>d\<in>set (depends_on p). before out d (pkg_id p))
     \<and> (\<forall>a\<in>set pkgs. \<forall>b\<in>set pkgs. pkg_id a \<noteq> pkg_id b \<and> overlapping a b
           \<and> (priority a, pkg_id a) \<le> (priority b, pkg_id b)
         \<longrightarrow> before out (pkg_id a) (pkg_id b))"
proof -
  have dist: "distinct (map pkg_id pkgs)" and deps: "\<forall>p\<in>set pkgs. set (depends_on p) \<subseteq> ids pkgs"
    using assms known_deps [of pkgs] first_duplicate_None [of "[]" pkgs]
    by (auto simp: dispatch_order_def split: option.splits)
  from sorted_packages [OF dist deps] obtain s where s: "kahn_inv pkgs (constraints pkgs) s"
    "dispatch_order pkgs = Some (if length (order s) \<noteq> length pkgs
       then Err (lit ''dependency or lane-conflict cycle in the planned packages'') else Ok (order s))"
    by metis
  then have out: "out = order s" "length (order s) = length pkgs"
    using assms by (auto split: if_splits)
  have "card (set (order s)) = card (ids pkgs)"
    using out(2) s(1) distinct_card [OF dist] by (simp add: kahn_inv_def distinct_card ids_def)
  then have all: "set (order s) = ids pkgs"
    using s(1) by (intro card_subset_eq) (auto simp: kahn_inv_def ids_def)
  have "before out d (pkg_id p)" if "p \<in> set pkgs" "d \<in> set (depends_on p)" for p d
    unfolding out(1) using that all
    by (intro kahn_inv_before [OF s(1)]) (auto simp: dep_edges_def ids_def)
  moreover have "before out (pkg_id a) (pkg_id b)"
    if "a \<in> set pkgs" "b \<in> set pkgs" "pkg_id a \<noteq> pkg_id b" "overlapping a b"
      "(priority a, pkg_id a) \<le> (priority b, pkg_id b)" for a b
    unfolding out(1) using lane_edge [OF dist that] that(2) all
    by (intro kahn_inv_before [OF s(1)]) (auto simp: ids_def)
  ultimately show ?thesis using s(1) all out(1) by (simp add: kahn_inv_def)
qed

theorem dispatch_order_is_linear_extension_witness:
  "before [lit ''b'', lit ''c'', lit ''a''] (lit ''b'') (lit ''c'')"
proof -
  have "demo_pkg ''c'' 1 [''src-tauri/src/store/a.rs''] [''b''] \<in> set demo_wave"
    by (simp add: demo_wave_def)
  moreover have "lit ''b'' \<in> set (depends_on (demo_pkg ''c'' 1 [''src-tauri/src/store/a.rs''] [''b'']))"
    "pkg_id (demo_pkg ''c'' 1 [''src-tauri/src/store/a.rs''] [''b'']) = lit ''c''"
    by (simp_all add: demo_pkg_def)
  ultimately show ?thesis
    using dispatch_order_is_linear_extension [OF demo_order] by metis
qed

text \<open>the forecast ends on every input, and on packages with distinct ids and known dependencies it
  finds an order exactly when the constraints have one.\<close>

theorem dispatch_order_is_complete:
  assumes "distinct (map pkg_id pkgs)" and "\<forall>p\<in>set pkgs. set (depends_on p) \<subseteq> ids pkgs"
  shows "\<exists>r. dispatch_order pkgs = Some r
     \<and> (is_ok r \<longleftrightarrow> (\<exists>rank :: ustr \<Rightarrow> nat. \<forall>(a, b)\<in>set (constraints pkgs). rank a < rank b))"
proof -
  from sorted_packages [OF assms] obtain s where s: "kahn_inv pkgs (constraints pkgs) s" "ready s = []"
    "dispatch_order pkgs = Some (if length (order s) \<noteq> length pkgs
       then Err (lit ''dependency or lane-conflict cycle in the planned packages'') else Ok (order s))"
    by metis
  have n: "card (ids pkgs) = length pkgs" using distinct_card [OF assms(1)] by (simp add: ids_def)
  have len: "length (order s) = length pkgs \<longleftrightarrow> set (order s) = ids pkgs"
  proof
    assume "length (order s) = length pkgs"
    then show "set (order s) = ids pkgs"
      using s(1) n by (intro card_subset_eq) (auto simp: kahn_inv_def ids_def distinct_card)
  next
    assume "set (order s) = ids pkgs"
    then show "length (order s) = length pkgs"
      using s(1) n distinct_card [of "order s"] by (simp add: kahn_inv_def)
  qed
  have "\<exists>rank :: ustr \<Rightarrow> nat. \<forall>(a, b)\<in>set (constraints pkgs). rank a < rank b"
    if all: "set (order s) = ids pkgs"
  proof (intro exI ballI, clarify)
    fix a b assume e: "(a, b) \<in> set (constraints pkgs)"
    then have "b \<in> set (order s)" using constraints_ids [OF assms(2)] all by blast
    then show "length (takeWhile (\<lambda>x. x \<noteq> a) (order s)) < length (takeWhile (\<lambda>x. x \<noteq> b) (order s))"
      using s(1) by (intro before_rank kahn_inv_before [OF s(1) e]) (auto simp: kahn_inv_def)
  qed
  moreover have "set (order s) = ids pkgs"
    if "\<forall>(a, b)\<in>set (constraints pkgs). rank a < (rank b :: nat)" for rank
    by (rule kahn_complete [OF s(1,2) constraints_ids [OF assms(2)], of rank]) (use that in auto)
  ultimately have "(set (order s) = ids pkgs) \<longleftrightarrow>
      (\<exists>rank :: ustr \<Rightarrow> nat. \<forall>(a, b)\<in>set (constraints pkgs). rank a < rank b)" by blast
  then show ?thesis using s(3) len by (auto split: if_splits)
qed

theorem dispatch_order_is_complete_witness:
  "\<exists>r. dispatch_order [demo_pkg ''a'' 1 [] [''a'']] = Some r \<and> (is_ok r \<longleftrightarrow>
     (\<exists>rank :: ustr \<Rightarrow> nat. \<forall>(a, b)\<in>set (constraints [demo_pkg ''a'' 1 [] [''a'']]). rank a < rank b))"
  by (rule dispatch_order_is_complete) (simp_all add: demo_pkg_def ids_def)

text \<open>No overlap with another open package goes unreported: two overlapping paths are either on one
  lane, which then blocks the candidate, or the candidate's path is among the warnings.\<close>

theorem every_overlap_is_reported:
  assumes "p \<in> set opened" and "task_id p \<noteq> t" and "cand \<in> set cs" and "held \<in> set (owned_paths p)"
    and "paths_overlap cand held"
  shows "(\<exists>s. of_path cand = Some s \<and> of_path held = Some s
            \<and> conflict_with (Lane s) p \<in> set (blocks (evaluate t cs opened)))
     \<or> conflict_with (Path (normalize_path cand)) p \<in> set (warnings (evaluate t cs opened))"
proof (cases "same_blocked_seam (shared_lanes cs p) cand held")
  case True
  then obtain s where "of_path cand = Some s" "of_path held = Some s" "s \<in> set (shared_lanes cs p)"
    by (auto simp: same_blocked_seam_def split: option.splits)
  then show ?thesis using assms(1,2) evaluate_blocks [of t cs opened] by blast
next
  case False
  then have "(cand, held) \<in> {pr \<in> set (List.product cs (owned_paths p)). reports (shared_lanes cs p) pr}"
    using assms(3-5) by (simp add: reports_def)
  then have "conflict_with (Path (normalize_path cand)) p \<in> warned_for cs p"
    unfolding warned_for_def by force
  then show ?thesis using assms(1,2) evaluate_warnings [of t cs opened] by blast
qed

lemma demo_overlap: "paths_overlap (lit ''./SRC/x.ts'') (lit ''src/x.ts'')"
  by code_simp

theorem every_overlap_is_reported_witness:
  "(\<exists>s. of_path (lit ''./SRC/x.ts'') = Some s)
   \<or> conflict_with (Path (normalize_path (lit ''./SRC/x.ts''))) (hd demo_open)
       \<in> set (warnings (evaluate (lit ''t2'') [lit ''./SRC/x.ts''] demo_open))"
  using every_overlap_is_reported [of "hd demo_open" demo_open "lit ''t2''" "lit ''./SRC/x.ts''"
      "[lit ''./SRC/x.ts'']" "lit ''src/x.ts''"] demo_overlap
  by (auto simp: demo_open_def lit_def)

text \<open>a launch that the guard lets through shares no seam lane with any other package of its project
  that is open, be it held by a run or by a claimed task.\<close>

theorem launch_shares_no_lane:
  assumes "refuse_lane_conflicts sv r = Ok ws" and "list_projects sv = Ok ps"
    and "find_project sv (dr_id r) ps = Ok (Some (project, runs))"
    and "context_tasks sv project = Ok tasks" and "distinct (map tr_id tasks)"
    and "other \<noteq> dr_task_id r"
    and "(\<exists>o1\<in>set runs. dr_id o1 \<noteq> dr_id r \<and> dr_task_id o1 = other \<and> dr_status o1 \<in> set open_statuses)
         \<or> (\<exists>t\<in>set tasks. tr_id t = other \<and> tr_status t = lit ''running'')"
  shows "set (lanes_of (paths_of tasks (dr_task_id r))) \<inter> set (lanes_of (paths_of tasks other)) = {}"
proof (cases "paths_of tasks (dr_task_id r) = []")
  case True
  then show ?thesis by simp
next
  case False
  let ?cand = "paths_of tasks (dr_task_id r)" and ?or = "open_runs r runs tasks"
  let ?all = "?or @ claimed_tasks r (map task_id ?or) tasks"
  have none: "blocks (evaluate (dr_task_id r) ?cand ?all) = []"
    using assms(1-4) False
    by (auto simp: refuse_lane_conflicts_def Let_def split: list.splits)
  have own: "tr_owned_paths t = paths_of tasks (tr_id t)" if "t \<in> set tasks" for t
    using that assms(5) unfolding paths_of_def
    by (induction tasks) (auto simp: image_iff)
  have "\<exists>p\<in>set ?all. task_id p = other \<and> owned_paths p = paths_of tasks other"
  proof (cases "\<exists>o1\<in>set runs. dr_id o1 \<noteq> dr_id r \<and> dr_task_id o1 = other \<and> dr_status o1 \<in> set open_statuses")
    case True
    then obtain o1 where o1: "o1 \<in> set runs" "dr_id o1 \<noteq> dr_id r" "dr_task_id o1 = other"
      "dr_status o1 \<in> set open_statuses" by blast
    then have "\<lparr>run_id = dr_id o1, task_id = other, owned_paths = paths_of tasks other\<rparr> \<in> set ?or"
      by (auto simp: open_runs_def)
    then show ?thesis by (intro bexI) auto
  next
    case False
    then have "other \<notin> set (map task_id ?or)" by (auto simp: open_runs_def)
    moreover obtain t where t: "t \<in> set tasks" "tr_id t = other" "tr_status t = lit ''running''"
      using False assms(7) by blast
    ultimately have "\<lparr>run_id = [], task_id = other, owned_paths = tr_owned_paths t\<rparr> \<in> set ?all"
      using assms(6) by (auto simp: claimed_tasks_def image_iff)
    then show ?thesis using own [OF t(1)] t(2) by (intro bexI) auto
  qed
  then obtain p where p: "p \<in> set ?all" "task_id p = other" "owned_paths p = paths_of tasks other"
    by blast
  have "set (shared_lanes ?cand p) = {}"
    using none evaluate_blocks [of "dr_task_id r" ?cand ?all] p(1,2) assms(6) by auto
  then show ?thesis using p(3) by (simp del: set_lanes_of)
qed

lemma demo_found: "find_project demo_view (dr_id demo_dev_run) [lit ''p0'', lit ''p1'']
   = Ok (Some (lit ''p1'', [\<lparr>dr_id = lit ''r1'', dr_task_id = lit ''t1'', dr_status = lit ''launched''\<rparr>,
       \<lparr>dr_id = lit ''r2'', dr_task_id = lit ''t2'', dr_status = lit ''intent''\<rparr>]))"
  by code_simp

theorem launch_shares_no_lane_witness:
  "case context_tasks demo_view (lit ''p1'') of
     Ok tasks \<Rightarrow>
       set (lanes_of (paths_of tasks (lit ''t2''))) \<inter> set (lanes_of (paths_of tasks (lit ''t1''))) = {}
   | Err e \<Rightarrow> False"
proof -
  obtain tasks where t: "context_tasks demo_view (lit ''p1'') = Ok tasks"
    by (simp add: demo_view_def)
  have "set (lanes_of (paths_of tasks (dr_task_id demo_dev_run)))
      \<inter> set (lanes_of (paths_of tasks (lit ''t1''))) = {}"
    by (rule launch_shares_no_lane [OF demo_launch _ demo_found t])
      (use t in \<open>auto simp: demo_view_def demo_dev_run_def open_statuses_def lit_def\<close>)
  then show ?thesis by (simp add: t demo_dev_run_def)
qed

end
