(* ===== verification/Queue_Order.thy ===== *)
theory Queue_Order
  imports Lane_Guard
begin

text \<open>
  The queue order of \<open>src-tauri/src/workers/queue_order.rs\<close>: which queued task may start
  now, and the reason for every one that waits.  A breadth-first search finds the
  predecessors that wait on each other; startable tasks take their seam lanes in queue
  order.  The index of the queue maps an id to its first position.
\<close>

section \<open>Data\<close>

record queued_task =
  qt_id :: ustr
  qt_depends_on :: "ustr list"
  qt_seams :: "seam list"

datatype queue_state = Startbar | Wartet ustr

record seam_hold =
  hold_seam :: seam
  holder :: ustr

fun seam_file :: "seam \<Rightarrow> ustr" where
  "seam_file Store = lit ''src-tauri/src/store.rs''"
| "seam_file Api = lit ''src-tauri/src/api.rs''"
| "seam_file Main = lit ''src-tauri/src/main.rs''"
| "seam_file Cli = lit ''src-tauri/src/bin/pa.rs''"

fun index_of :: "queued_task list \<Rightarrow> ustr \<Rightarrow> nat option" where
  "index_of [] i = None"
| "index_of (t # ts) i = (if qt_id t = i then Some 0 else map_option Suc (index_of ts i))"

section \<open>Cycles\<close>

definition deps_at :: "queued_task list \<Rightarrow> nat \<Rightarrow> nat list" where
  "deps_at queue at = List.map_filter (index_of queue) (qt_depends_on (queue ! at))"

text \<open>
  One node of the search: \<open>Inl\<close> with the parents so far when a predecessor is the start,
  otherwise the parents and the queue of the search with the new nodes.
\<close>

fun scan_deps ::
  "nat \<Rightarrow> nat \<Rightarrow> nat list \<Rightarrow> (nat \<rightharpoonup> nat) \<Rightarrow> nat list
     \<Rightarrow> (nat \<rightharpoonup> nat) + (nat \<rightharpoonup> nat) \<times> nat list" where
  "scan_deps start at [] parent todo = Inr (parent, todo)"
| "scan_deps start at (d # ds) parent todo =
     (if d = start then Inl parent
      else if d \<noteq> at \<and> parent d = None
      then scan_deps start at ds (parent(d \<mapsto> at)) (todo @ [d])
      else scan_deps start at ds parent todo)"

text \<open>The parents from a node back to the start; \<open>None\<close> is a missing parent or a walk that goes on.\<close>

fun walk_back :: "nat \<Rightarrow> (nat \<rightharpoonup> nat) \<Rightarrow> nat \<Rightarrow> nat \<Rightarrow> nat list option" where
  "walk_back n parent start node =
     (if node = start then Some [node]
      else case n of
             0 \<Rightarrow> None
           | Suc m \<Rightarrow>
              (case parent node of
                 None \<Rightarrow> None
               | Some up \<Rightarrow> map_option ((#) node) (walk_back m parent start up)))"

declare walk_back.simps [simp del]

fun cycle_search ::
  "nat \<Rightarrow> queued_task list \<Rightarrow> nat \<Rightarrow> (nat \<rightharpoonup> nat) \<Rightarrow> nat list \<Rightarrow> nat list option option" where
  "cycle_search n queue start parent todo =
     (case todo of
        [] \<Rightarrow> Some None
      | at # rest \<Rightarrow>
         (case n of
            0 \<Rightarrow> None
          | Suc m \<Rightarrow>
             (case scan_deps start at (deps_at queue at) parent rest of
                Inl parent' \<Rightarrow> map_option (\<lambda>up. Some (rev up)) (walk_back (length queue) parent' start at)
              | Inr (parent', todo') \<Rightarrow> cycle_search m queue start parent' todo')))"

declare cycle_search.simps [simp del]

text \<open>
  \<open>cycle_from\<close>: a node enters the search at most once, so the queue length plus one rounds
  are enough; the outer \<open>None\<close> is a search that goes on or a missing parent.
\<close>

definition cycle_from :: "nat \<Rightarrow> queued_task list \<Rightarrow> ustr list option option" where
  "cycle_from start queue =
     map_option (map_option (map (\<lambda>at. qt_id (queue ! at))))
       (cycle_search (Suc (length queue)) queue start Map.empty [start])"

definition cycle_reason :: "ustr list \<Rightarrow> queued_task list \<Rightarrow> ustr" where
  "cycle_reason chain queue =
     (let pos = (\<lambda>i. case index_of queue (chain ! i) of None \<Rightarrow> 0 | Some p \<Rightarrow> p);
          first = (case [0..<length chain] of [] \<Rightarrow> 0 | i # is \<Rightarrow> foldl (\<lambda>m k. if pos k < pos m then k else m) i is);
          ring = drop first chain @ take first chain
      in lit ''Zyklus: '' @ join [32, 8594, 32] (ring @ [hd ring]))"

section \<open>The order\<close>

fun duplicated :: "ustr list \<Rightarrow> queued_task list \<Rightarrow> ustr list" where
  "duplicated seen [] = []"
| "duplicated seen (t # ts) =
     (if qt_id t \<in> set seen then qt_id t # duplicated seen ts else duplicated (qt_id t # seen) ts)"

definition blocked_seam :: "seam_hold list \<Rightarrow> (seam \<rightharpoonup> ustr) \<Rightarrow> seam \<Rightarrow> ustr option" where
  "blocked_seam held taken s =
     (let who = (case find (\<lambda>h. hold_seam h = s) held of Some h \<Rightarrow> Some (holder h) | None \<Rightarrow> taken s)
      in map_option (\<lambda>w. lit ''Naht '' @ seam_file s @ lit '' ist belegt von '' @ w) who)"

fun first_some :: "('a \<Rightarrow> 'b option) \<Rightarrow> 'a list \<Rightarrow> 'b option" where
  "first_some f [] = None"
| "first_some f (x # xs) = (case f x of None \<Rightarrow> first_some f xs | Some y \<Rightarrow> Some y)"

text \<open>Why the task at a position waits; the outer \<open>None\<close> is a cycle search that does not end.\<close>

definition wait_reason ::
  "queued_task list \<Rightarrow> ustr set \<Rightarrow> seam_hold list \<Rightarrow> (seam \<rightharpoonup> ustr) \<Rightarrow> nat
     \<Rightarrow> ustr option option" where
  "wait_reason queue finished held taken at =
     (let t = queue ! at; opened = filter (\<lambda>d. d \<notin> finished) (qt_depends_on t)
      in if qt_id t \<in> set (duplicated [] queue)
         then Some (Some (lit ''Auftrag '' @ qt_id t @ lit '' steht doppelt in der Warteschlange''))
         else map_option (\<lambda>cyc.
           case cyc of
             Some chain \<Rightarrow> Some (cycle_reason chain queue)
           | None \<Rightarrow>
              (case find (\<lambda>d. index_of queue d = None) opened of
                 Some d \<Rightarrow> Some (lit ''Vorg'' @ a_umlaut @ lit ''nger '' @ d @ lit '' fehlt in der Warteschlange'')
               | None \<Rightarrow>
                  (case opened of
                     d # _ \<Rightarrow> Some (lit ''Vorg'' @ a_umlaut @ lit ''nger '' @ d @ lit '' ist noch offen'')
                   | [] \<Rightarrow> first_some (blocked_seam held taken) (qt_seams t))))
           (cycle_from at queue))"

definition take_seams :: "(seam \<rightharpoonup> ustr) \<Rightarrow> queued_task \<Rightarrow> seam \<rightharpoonup> ustr" where
  "take_seams taken t = (\<lambda>s. if s \<in> set (qt_seams t) then Some (qt_id t) else taken s)"

fun order_from ::
  "nat \<Rightarrow> queued_task list \<Rightarrow> ustr set \<Rightarrow> seam_hold list \<Rightarrow> (seam \<rightharpoonup> ustr) \<Rightarrow> queued_task list
     \<Rightarrow> (ustr \<times> queue_state) list option" where
  "order_from at queue finished held taken [] = Some []"
| "order_from at queue finished held taken (t # ts) =
     (case wait_reason queue finished held taken at of
        None \<Rightarrow> None
      | Some (Some why) \<Rightarrow>
          map_option ((#) (qt_id t, Wartet why)) (order_from (Suc at) queue finished held taken ts)
      | Some None \<Rightarrow>
          map_option ((#) (qt_id t, Startbar))
            (order_from (Suc at) queue finished held (take_seams taken t) ts))"

definition queue_order ::
  "queued_task list \<Rightarrow> ustr set \<Rightarrow> seam_hold list \<Rightarrow> (ustr \<times> queue_state) list option" where
  "queue_order queue finished held = order_from 0 queue finished held Map.empty queue"

section \<open>The search finds exactly the cycles\<close>

definition waits_on :: "queued_task list \<Rightarrow> (nat \<times> nat) set" where
  "waits_on queue = {(u, v). u < length queue \<and> v \<in> set (deps_at queue u)}"

lemma index_of_Some: "index_of queue i = Some k \<Longrightarrow> k < length queue \<and> qt_id (queue ! k) = i"
  by (induction queue arbitrary: k) (auto split: if_splits)

lemma index_of_None: "index_of queue i = None \<longleftrightarrow> i \<notin> qt_id ` set queue"
  by (induction queue) auto

lemma deps_at_bound: "d \<in> set (deps_at queue u) \<Longrightarrow> d < length queue"
  by (auto simp: deps_at_def List.map_filter_def dest: index_of_Some)

text \<open>Walks back do not see later nodes, and more fuel does not change them.\<close>

lemma walk_back_simps [simp]:
  "walk_back 0 parent start v = (if v = start then Some [v] else None)"
  "walk_back (Suc n) parent start v =
     (if v = start then Some [v]
      else case parent v of None \<Rightarrow> None | Some up \<Rightarrow> map_option ((#) v) (walk_back n parent start up))"
  by (simp_all add: walk_back.simps [of 0] walk_back.simps [of "Suc n"])

lemma walk_back_extend:
  "walk_back n parent start v = Some p \<Longrightarrow> parent d = None \<Longrightarrow>
     walk_back n (parent(d \<mapsto> x)) start v = Some p"
  by (induction n arbitrary: v p) (auto split: if_splits option.splits)

lemma walk_back_more: "walk_back n parent start v = Some p \<Longrightarrow> walk_back (n + m) parent start v = Some p"
proof (induction n arbitrary: v p)
  case 0
  then show ?case by (cases m) (auto split: if_splits)
next
  case (Suc n)
  then show ?case by (auto split: if_splits option.splits)
qed

definition path_to :: "queued_task list \<Rightarrow> nat \<Rightarrow> nat \<Rightarrow> nat list \<Rightarrow> bool" where
  "path_to queue start v p \<longleftrightarrow> p \<noteq> [] \<and> hd p = v \<and> last p = start
     \<and> successively (\<lambda>x y. (y, x) \<in> waits_on queue) p"

lemma walk_back_path:
  "walk_back n parent start v = Some p \<Longrightarrow> (\<And>x u. parent x = Some u \<Longrightarrow> (u, x) \<in> waits_on queue) \<Longrightarrow>
     path_to queue start v p"
proof (induction n arbitrary: v p)
  case 0
  then show ?case by (auto simp: path_to_def split: if_splits)
next
  case (Suc n)
  show ?case
  proof (cases "v = start")
    case True
    then show ?thesis using Suc.prems(1) by (auto simp: path_to_def)
  next
    case False
    then obtain u q where u: "parent v = Some u" "walk_back n parent start u = Some q" "p = v # q"
      using Suc.prems(1) by (auto split: option.splits)
    from Suc.IH [OF u(2) Suc.prems(2)] have q: "path_to queue start u q" .
    moreover have "(u, v) \<in> waits_on queue" by (rule Suc.prems(2) [OF u(1)])
    ultimately show ?thesis by (cases q) (auto simp: path_to_def u(3))
  qed
qed

definition bfs_inv ::
  "queued_task list \<Rightarrow> nat \<Rightarrow> (nat \<rightharpoonup> nat) \<Rightarrow> nat list \<Rightarrow> nat set \<Rightarrow> bool" where
  "bfs_inv queue start parent todo busy \<longleftrightarrow>
     start \<notin> dom parent \<and> dom parent \<subseteq> {..<length queue} \<and> set todo \<subseteq> insert start (dom parent)
     \<and> (\<forall>x u. parent x = Some u \<longrightarrow> (u, x) \<in> waits_on queue)
     \<and> (\<forall>v\<in>insert start (dom parent). \<exists>p. walk_back (card (dom parent)) parent start v = Some p)
     \<and> (\<forall>u\<in>insert start (dom parent) - set todo - busy. \<forall>v. (u, v) \<in> waits_on queue \<longrightarrow> v \<in> dom parent)"

lemma bfs_invD:
  assumes "bfs_inv queue start parent todo busy"
  shows "start \<notin> dom parent" "dom parent \<subseteq> {..<length queue}"
    "set todo \<subseteq> insert start (dom parent)"
    "\<And>x u. parent x = Some u \<Longrightarrow> (u, x) \<in> waits_on queue"
    "\<And>v. v \<in> insert start (dom parent) \<Longrightarrow> \<exists>p. walk_back (card (dom parent)) parent start v = Some p"
    "\<And>u v. u \<in> insert start (dom parent) - set todo - busy \<Longrightarrow> (u, v) \<in> waits_on queue \<Longrightarrow> v \<in> dom parent"
  using assms unfolding bfs_inv_def by blast+

lemma bfs_finite: "bfs_inv queue start parent todo busy \<Longrightarrow> finite (dom parent)"
  by (rule finite_subset [OF bfs_invD(2) finite_lessThan])

lemma bfs_insert:
  assumes inv: "bfs_inv queue start parent todo {at}" and at: "at \<in> insert start (dom parent)"
    and d: "d \<noteq> start" "parent d = None" "(at, d) \<in> waits_on queue"
  shows "bfs_inv queue start (parent(d \<mapsto> at)) (todo @ [d]) {at}"
proof -
  have fin: "finite (dom parent)" by (rule bfs_finite [OF inv])
  have dn: "d \<notin> dom parent" using d(2) by auto
  have card: "card (dom (parent(d \<mapsto> at))) = card (dom parent) + 1"
    using fin dn by simp
  have len: "d < length queue" using d(3) deps_at_bound by (auto simp: waits_on_def)
  have walk: "\<exists>p. walk_back (card (dom (parent(d \<mapsto> at)))) (parent(d \<mapsto> at)) start v = Some p"
    if v: "v \<in> insert start (dom (parent(d \<mapsto> at)))" for v
  proof -
    have old: "\<exists>p. walk_back (card (dom parent)) (parent(d \<mapsto> at)) start x = Some p"
      if "x \<in> insert start (dom parent)" for x
      using that inv walk_back_extend [where parent = parent and d = d and x = at, OF _ d(2)]
      unfolding bfs_inv_def by blast
    show ?thesis
    proof (cases "v = d")
      case True
      from old [OF at] obtain p where "walk_back (card (dom parent)) (parent(d \<mapsto> at)) start at = Some p"
        by blast
      then show ?thesis unfolding card True using d(1) by simp
    next
      case False
      then have "v \<in> insert start (dom parent)" using v by auto
      from old [OF this] show ?thesis unfolding card using walk_back_more by blast
    qed
  qed
  have dom: "dom (parent(d \<mapsto> at)) = insert d (dom parent)" by auto
  have edges: "(u, x) \<in> waits_on queue" if "(parent(d \<mapsto> at)) x = Some u" for x u
    using that bfs_invD(4) [OF inv] d(3) by (cases "x = d") simp_all
  have closed: "v \<in> insert d (dom parent)"
    if "u \<in> insert start (insert d (dom parent)) - set (todo @ [d]) - {at}" "(u, v) \<in> waits_on queue" for u v
  proof -
    have "u \<in> insert start (dom parent) - set todo - {at}" using that(1) by auto
    with that(2) inv have "v \<in> dom parent" unfolding bfs_inv_def by blast
    then show ?thesis by simp
  qed
  have "start \<notin> insert d (dom parent)" "insert d (dom parent) \<subseteq> {..<length queue}"
    "set (todo @ [d]) \<subseteq> insert start (insert d (dom parent))"
    using bfs_invD(1-3) [OF inv] d(1) len by auto
  then show ?thesis
    unfolding bfs_inv_def dom
  proof (intro conjI)
    show "\<forall>x u. (parent(d \<mapsto> at)) x = Some u \<longrightarrow> (u, x) \<in> waits_on queue"
      using edges by blast
    show "\<forall>v\<in>insert start (insert d (dom parent)).
        \<exists>p. walk_back (card (insert d (dom parent))) (parent(d \<mapsto> at)) start v = Some p"
      using walk unfolding dom by blast
    show "\<forall>u\<in>insert start (insert d (dom parent)) - set (todo @ [d]) - {at}.
        \<forall>v. (u, v) \<in> waits_on queue \<longrightarrow> v \<in> insert d (dom parent)"
      using closed by blast
  qed
qed

lemma scan_deps_inv:
  "bfs_inv queue start parent todo {at} \<Longrightarrow> at \<in> insert start (dom parent) \<Longrightarrow>
     (\<And>d. d \<in> set ds \<Longrightarrow> (at, d) \<in> waits_on queue) \<Longrightarrow>
     (case scan_deps start at ds parent todo of
        Inl parent' \<Rightarrow> start \<in> set ds \<and> dom parent \<subseteq> dom parent'
          \<and> (\<exists>todo'. bfs_inv queue start parent' todo' {at})
      | Inr (parent', todo') \<Rightarrow> set ds \<subseteq> dom parent' \<and> bfs_inv queue start parent' todo' {at}
          \<and> dom parent \<subseteq> dom parent'
          \<and> card (dom parent') + length todo = card (dom parent) + length todo')"
proof (induction ds arbitrary: parent todo)
  case Nil
  then show ?case by simp
next
  case (Cons d ds)
  have W: "(at, d) \<in> waits_on queue" using Cons.prems(3) by simp
  consider "d = start" | "d \<noteq> start" "d \<noteq> at" "parent d = None" | "d \<noteq> start" "d = at \<or> parent d \<noteq> None"
    by blast
  then show ?case
  proof cases
    case 1
    then show ?thesis using Cons.prems(1) by auto
  next
    case 2
    have inv: "bfs_inv queue start (parent(d \<mapsto> at)) (todo @ [d]) {at}"
      by (rule bfs_insert [OF Cons.prems(1,2) 2(1,3) W])
    have at: "at \<in> insert start (dom (parent(d \<mapsto> at)))" using Cons.prems(2) by auto
    have ih:
      "case scan_deps start at ds (parent(d \<mapsto> at)) (todo @ [d]) of
        Inl parent' \<Rightarrow> start \<in> set ds \<and> dom (parent(d \<mapsto> at)) \<subseteq> dom parent'
          \<and> (\<exists>todo'. bfs_inv queue start parent' todo' {at})
      | Inr (parent', todo') \<Rightarrow> set ds \<subseteq> dom parent' \<and> bfs_inv queue start parent' todo' {at}
          \<and> dom (parent(d \<mapsto> at)) \<subseteq> dom parent'
          \<and> card (dom parent') + length (todo @ [d]) = card (dom (parent(d \<mapsto> at))) + length todo'"
      by (rule Cons.IH [OF inv at]) (use Cons.prems(3) in simp)
    have "d \<notin> dom parent" "finite (dom parent)" using 2(3) bfs_finite [OF Cons.prems(1)] by auto
    then show ?thesis
      using ih 2 by (auto split: sum.splits prod.splits)
  next
    case 3
    then have "d \<in> dom parent" using Cons.prems(2) by auto
    moreover have "case scan_deps start at ds parent todo of
        Inl parent' \<Rightarrow> start \<in> set ds \<and> dom parent \<subseteq> dom parent'
          \<and> (\<exists>todo'. bfs_inv queue start parent' todo' {at})
      | Inr (parent', todo') \<Rightarrow> set ds \<subseteq> dom parent' \<and> bfs_inv queue start parent' todo' {at}
          \<and> dom parent \<subseteq> dom parent'
          \<and> card (dom parent') + length todo = card (dom parent) + length todo'"
      by (rule Cons.IH [OF Cons.prems(1,2)]) (use Cons.prems(3) in simp)
    ultimately show ?thesis using 3 by (auto split: sum.splits prod.splits)
  qed
qed

lemma bfs_reachable:
  assumes inv: "bfs_inv queue start parent todo busy" and "v \<in> insert start (dom parent)"
  obtains p where "walk_back (length queue) parent start v = Some p" "path_to queue start v p"
proof -
  from inv assms(2) obtain p where p: "walk_back (card (dom parent)) parent start v = Some p"
    unfolding bfs_inv_def by blast
  have "card (dom parent) \<le> card {..<length queue}"
    using inv by (intro card_mono) (auto simp: bfs_inv_def)
  then obtain m where "length queue = card (dom parent) + m" by (auto simp: le_iff_add)
  then have "walk_back (length queue) parent start v = Some p" using walk_back_more [OF p] by simp
  with that walk_back_path [OF this] inv show ?thesis unfolding bfs_inv_def by blast
qed

definition is_cycle :: "queued_task list \<Rightarrow> nat \<Rightarrow> nat list \<Rightarrow> bool" where
  "is_cycle queue start c \<longleftrightarrow> c \<noteq> [] \<and> hd c = start \<and> successively (\<lambda>x y. (x, y) \<in> waits_on queue) c
     \<and> (last c, start) \<in> waits_on queue"

lemma path_to_cycle:
  assumes "path_to queue start v p" "(v, start) \<in> waits_on queue"
  shows "is_cycle queue start (rev p)"
  using assms by (auto simp: is_cycle_def path_to_def hd_rev last_rev)

lemma cycle_search_correct:
  "bfs_inv queue start parent todo {} \<Longrightarrow> start < length queue \<Longrightarrow>
     n + card (dom parent) = length queue + length todo \<Longrightarrow>
     \<exists>r. cycle_search n queue start parent todo = Some r
       \<and> (case r of None \<Rightarrow> (start, start) \<notin> (waits_on queue)\<^sup>+ | Some c \<Rightarrow> is_cycle queue start c)"
proof (induction n arbitrary: parent todo)
  case 0
  have "dom parent \<subseteq> {..<length queue} - {start}" using bfs_invD(1,2) [OF 0(1)] by blast
  then have "card (dom parent) \<le> length queue - 1"
    using 0(2) card_mono [of "{..<length queue} - {start}" "dom parent"] by simp
  then show ?case using 0(2,3) by simp
next
  case (Suc n)
  show ?case
  proof (cases todo)
    case Nil
    have "v \<in> dom parent" if "(start, v) \<in> (waits_on queue)\<^sup>+" for v
      using that
    proof (induction rule: trancl_induct)
      case (base y)
      then show ?case using bfs_invD(6) [OF Suc.prems(1), of start y] Nil by simp
    next
      case (step y z)
      then show ?case using bfs_invD(6) [OF Suc.prems(1), of y z] Nil by simp
    qed
    then have "(start, start) \<notin> (waits_on queue)\<^sup>+"
      using bfs_invD(1) [OF Suc.prems(1)] by blast
    then show ?thesis by (subst cycle_search.simps) (simp add: Nil)
  next
    case (Cons at rest)
    have at: "at \<in> insert start (dom parent)" using bfs_invD(3) [OF Suc.prems(1)] Cons by simp
    have len: "at < length queue" using at bfs_invD(2) [OF Suc.prems(1)] Suc.prems(2) by blast
    have inv: "bfs_inv queue start parent rest {at}"
      unfolding bfs_inv_def
    proof (intro conjI ballI allI impI)
      fix u v assume "u \<in> insert start (dom parent) - set rest - {at}" "(u, v) \<in> waits_on queue"
      then show "v \<in> dom parent"
        using bfs_invD(6) [OF Suc.prems(1), of u v] by (simp add: Cons)
    next
      show "set rest \<subseteq> insert start (dom parent)" using bfs_invD(3) [OF Suc.prems(1)] Cons by simp
    qed (use bfs_invD(1,2,4,5) [OF Suc.prems(1)] in blast)+
    have ds: "\<And>d. d \<in> set (deps_at queue at) \<Longrightarrow> (at, d) \<in> waits_on queue"
      using len by (simp add: waits_on_def)
    note scan = scan_deps_inv [OF inv at, of "deps_at queue at", OF ds]
    show ?thesis
    proof (cases "scan_deps start at (deps_at queue at) parent rest")
      case (Inl parent')
      with scan obtain todo' where s: "start \<in> set (deps_at queue at)" "dom parent \<subseteq> dom parent'"
        "bfs_inv queue start parent' todo' {at}" by auto
      have "at \<in> insert start (dom parent')" using at s(2) by blast
      from bfs_reachable [OF s(3) this] obtain p where
        p: "walk_back (length queue) parent' start at = Some p" "path_to queue start at p" .
      have "is_cycle queue start (rev p)" by (rule path_to_cycle [OF p(2) ds [OF s(1)]])
      then show ?thesis
        using p(1) by (subst cycle_search.simps) (simp add: Cons Inl del: walk_back_simps)
    next
      case (Inr s')
      obtain parent' todo' where s': "s' = (parent', todo')" by fastforce
      from scan have sc: "set (deps_at queue at) \<subseteq> dom parent'" "bfs_inv queue start parent' todo' {at}"
        "card (dom parent') + length rest = card (dom parent) + length todo'"
        by (simp_all add: Inr s')
      have "bfs_inv queue start parent' todo' {}"
        unfolding bfs_inv_def
      proof (intro conjI ballI allI impI)
        fix u v assume "u \<in> insert start (dom parent') - set todo' - {}" "(u, v) \<in> waits_on queue"
        then show "v \<in> dom parent'"
          using sc(1) bfs_invD(6) [OF sc(2), of u v] by (cases "u = at") (auto simp: waits_on_def)
      qed (use bfs_invD(1-5) [OF sc(2)] in blast)+
      from Suc.IH [OF this Suc.prems(2)] sc(3) Suc.prems(3) show ?thesis
        by (subst cycle_search.simps) (simp add: Cons Inr s')
    qed
  qed
qed

lemma cycle_search_start:
  assumes "start < length queue"
  shows "\<exists>r. cycle_search (Suc (length queue)) queue start Map.empty [start] = Some r
       \<and> (case r of None \<Rightarrow> (start, start) \<notin> (waits_on queue)\<^sup>+ | Some c \<Rightarrow> is_cycle queue start c)"
proof (rule cycle_search_correct)
  show "bfs_inv queue start Map.empty [start] {}"
    by (auto simp: bfs_inv_def)
qed (use assms in auto)

lemma successively_rtrancl:
  "successively (\<lambda>x y. (x, y) \<in> W) (x # xs) \<Longrightarrow> (x, last (x # xs)) \<in> W\<^sup>*"
  by (induction xs arbitrary: x) (auto intro: converse_rtrancl_into_rtrancl)

lemma is_cycle_trancl: "is_cycle queue start c \<Longrightarrow> (start, start) \<in> (waits_on queue)\<^sup>+"
proof -
  assume c: "is_cycle queue start c"
  then obtain xs where "c = start # xs" by (cases c) (auto simp: is_cycle_def)
  with c have "(start, last c) \<in> (waits_on queue)\<^sup>*" "(last c, start) \<in> waits_on queue"
    using successively_rtrancl [of "waits_on queue" start xs] by (auto simp: is_cycle_def)
  then show ?thesis by (rule rtrancl_into_trancl1)
qed

lemma cycle_from_Some:
  assumes "start < length queue"
  obtains r where "cycle_from start queue = Some r"
    "r = None \<longleftrightarrow> (start, start) \<notin> (waits_on queue)\<^sup>+"
    "\<And>ids. r = Some ids \<Longrightarrow> \<exists>c. is_cycle queue start c \<and> ids = map (\<lambda>at. qt_id (queue ! at)) c"
proof -
  from cycle_search_start [OF assms] obtain q where
    q: "cycle_search (Suc (length queue)) queue start Map.empty [start] = Some q"
    "case q of None \<Rightarrow> (start, start) \<notin> (waits_on queue)\<^sup>+ | Some c \<Rightarrow> is_cycle queue start c" by blast
  show ?thesis
  proof (cases q)
    case None
    then show ?thesis using q by (intro that [of None]) (auto simp: cycle_from_def)
  next
    case (Some c)
    then show ?thesis
      using q is_cycle_trancl [of queue start c]
      by (intro that [of "Some (map (\<lambda>at. qt_id (queue ! at)) c)"]) (auto simp: cycle_from_def)
  qed
qed

section \<open>Why a task may start\<close>

lemma set_duplicated:
  "x \<in> set (duplicated seen ts) \<longleftrightarrow>
     x \<in> set seen \<and> x \<in> qt_id ` set ts \<or> 2 \<le> count_list (map qt_id ts) x"
proof (induction ts arbitrary: seen)
  case (Cons t ts)
  have "1 \<le> count_list (map qt_id ts) x \<longleftrightarrow> x \<in> qt_id ` set ts"
    using count_list_0_iff [of "map qt_id ts" x] by (auto simp: Suc_le_eq)
  with Cons show ?case by auto
qed simp

lemma first_some_None: "first_some f xs = None \<longleftrightarrow> (\<forall>x\<in>set xs. f x = None)"
  by (induction xs) (auto split: option.splits)

lemma blocked_seam_None:
  "blocked_seam held taken s = None \<longleftrightarrow> (\<forall>h\<in>set held. hold_seam h \<noteq> s) \<and> taken s = None"
  by (induction held) (auto simp: blocked_seam_def Let_def)

lemma distinct_count_list: "distinct xs \<Longrightarrow> count_list xs x \<le> 1"
  by (induction xs) (auto simp: count_list_0_iff)

definition ready_at :: "queued_task list \<Rightarrow> ustr set \<Rightarrow> seam_hold list \<Rightarrow> nat \<Rightarrow> bool" where
  "ready_at queue finished held at \<longleftrightarrow>
     count_list (map qt_id queue) (qt_id (queue ! at)) < 2
     \<and> (at, at) \<notin> (waits_on queue)\<^sup>+
     \<and> set (qt_depends_on (queue ! at)) \<subseteq> finished
     \<and> (\<forall>s\<in>set (qt_seams (queue ! at)). \<forall>h\<in>set held. hold_seam h \<noteq> s)"

lemma wait_reason_total:
  "at < length queue \<Longrightarrow> wait_reason queue finished held taken at \<noteq> None"
  by (auto simp: wait_reason_def Let_def elim: cycle_from_Some [of at queue])

lemma wait_reason_None:
  assumes "at < length queue"
  shows "wait_reason queue finished held taken at = Some None \<longleftrightarrow>
    ready_at queue finished held at \<and> (\<forall>s\<in>set (qt_seams (queue ! at)). taken s = None)"
proof -
  obtain r where r: "cycle_from at queue = Some r" "r = None \<longleftrightarrow> (at, at) \<notin> (waits_on queue)\<^sup>+"
    using cycle_from_Some [OF assms] by metis
  let ?opened = "filter (\<lambda>d. d \<notin> finished) (qt_depends_on (queue ! at))"
  have "?opened = [] \<longleftrightarrow> set (qt_depends_on (queue ! at)) \<subseteq> finished"
    by (auto simp: filter_empty_conv)
  then show ?thesis
    using r unfolding wait_reason_def Let_def ready_at_def
    by (cases ?opened) (auto simp: set_duplicated first_some_None blocked_seam_None
        split: option.splits list.splits)
qed

definition seams_apart :: "queued_task list \<Rightarrow> (ustr \<times> queue_state) list \<Rightarrow> nat \<Rightarrow> bool" where
  "seams_apart ts out i \<longleftrightarrow>
     (\<forall>j<i. snd (out ! j) = Startbar \<longrightarrow> set (qt_seams (ts ! j)) \<inter> set (qt_seams (ts ! i)) = {})"

lemma seams_apart_simps [simp]:
  "seams_apart ts out 0"
  "seams_apart (t # ts) (x # out) (Suc i) \<longleftrightarrow>
     (snd x = Startbar \<longrightarrow> set (qt_seams t) \<inter> set (qt_seams (ts ! i)) = {}) \<and> seams_apart ts out i"
  by (simp_all add: seams_apart_def All_less_Suc2)

lemma take_seams_None:
  "(\<forall>s\<in>S. take_seams taken t s = None) \<longleftrightarrow> set (qt_seams t) \<inter> S = {} \<and> (\<forall>s\<in>S. taken s = None)"
  by (auto simp: take_seams_def split: if_splits)

lemma order_from_Some:
  "queue = pre @ ts \<Longrightarrow>
     \<exists>out. order_from (length pre) queue finished held taken ts = Some out \<and> length out = length ts
       \<and> (\<forall>i<length ts. fst (out ! i) = qt_id (ts ! i))
       \<and> (\<forall>i<length ts. snd (out ! i) = Startbar \<longrightarrow>
            ready_at queue finished held (length pre + i)
            \<and> (\<forall>s\<in>set (qt_seams (ts ! i)). taken s = None)
            \<and> seams_apart ts out i)
       \<and> ((\<forall>i<length ts. snd (out ! i) \<noteq> Startbar) \<longrightarrow>
            (\<forall>i<length ts. wait_reason queue finished held taken (length pre + i) \<noteq> Some None))"
proof (induction ts arbitrary: pre taken)
  case Nil
  then show ?case by simp
next
  case (Cons t ts)
  have len: "length pre < length queue" using Cons.prems by simp
  have q: "queue = (pre @ [t]) @ ts" using Cons.prems by simp
  have t: "queue ! length pre = t" using Cons.prems by simp
  obtain w where w: "wait_reason queue finished held taken (length pre) = Some w"
    using wait_reason_total [OF len] by blast
  show ?case
  proof (cases w)
    case (Some why)
    from Cons.IH [OF q, of taken] obtain out where
      o1: "order_from (Suc (length pre)) queue finished held taken ts = Some out" "length out = length ts"
      "\<forall>i<length ts. fst (out ! i) = qt_id (ts ! i)"
      "\<forall>i<length ts. snd (out ! i) = Startbar \<longrightarrow>
            ready_at queue finished held (Suc (length pre) + i)
            \<and> (\<forall>s\<in>set (qt_seams (ts ! i)). taken s = None)
            \<and> seams_apart ts out i"
      "(\<forall>i<length ts. snd (out ! i) \<noteq> Startbar) \<longrightarrow>
            (\<forall>i<length ts. wait_reason queue finished held taken (Suc (length pre) + i) \<noteq> Some None)"
      by auto
    then show ?thesis
      using w Some by (intro exI [of _ "(qt_id t, Wartet why) # out"]) (simp add: All_less_Suc2)
  next
    case None
    have r: "ready_at queue finished held (length pre)" "\<forall>s\<in>set (qt_seams t). taken s = None"
      using w None wait_reason_None [OF len, of finished held taken] t by auto
    from Cons.IH [OF q, of "take_seams taken t"] obtain out where
      o1: "order_from (Suc (length pre)) queue finished held (take_seams taken t) ts = Some out"
      "length out = length ts" "\<forall>i<length ts. fst (out ! i) = qt_id (ts ! i)"
      "\<forall>i<length ts. snd (out ! i) = Startbar \<longrightarrow>
            ready_at queue finished held (Suc (length pre) + i)
            \<and> (\<forall>s\<in>set (qt_seams (ts ! i)). take_seams taken t s = None)
            \<and> seams_apart ts out i"
      by auto
    then show ?thesis
      using w None r
      by (intro exI [of _ "(qt_id t, Startbar) # out"])
        (simp add: All_less_Suc2 take_seams_None)
  qed
qed

lemma queue_order_Some:
  obtains out where "queue_order queue finished held = Some out" "length out = length queue"
    "\<And>i. i < length queue \<Longrightarrow> fst (out ! i) = qt_id (queue ! i)"
    "\<And>i. i < length queue \<Longrightarrow> snd (out ! i) = Startbar \<Longrightarrow> ready_at queue finished held i"
    "\<And>i j. j < i \<Longrightarrow> i < length queue \<Longrightarrow> snd (out ! i) = Startbar \<Longrightarrow> snd (out ! j) = Startbar \<Longrightarrow>
       set (qt_seams (queue ! j)) \<inter> set (qt_seams (queue ! i)) = {}"
    "\<And>i. (\<forall>i<length queue. snd (out ! i) \<noteq> Startbar) \<Longrightarrow> i < length queue \<Longrightarrow>
       wait_reason queue finished held Map.empty i \<noteq> Some None"
proof -
  from order_from_Some [of queue "[]" queue finished held Map.empty] obtain out where
    "order_from 0 queue finished held Map.empty queue = Some out" "length out = length queue"
    "\<forall>i<length queue. fst (out ! i) = qt_id (queue ! i)"
    "\<forall>i<length queue. snd (out ! i) = Startbar \<longrightarrow> ready_at queue finished held i
      \<and> seams_apart queue out i"
    "(\<forall>i<length queue. snd (out ! i) \<noteq> Startbar) \<longrightarrow>
       (\<forall>i<length queue. wait_reason queue finished held Map.empty i \<noteq> Some None)"
    by auto
  then show ?thesis by (intro that [of out]) (auto simp: queue_order_def seams_apart_def)
qed

section \<open>Worked queues\<close>

definition demo_task :: "string \<Rightarrow> string list \<Rightarrow> seam list \<Rightarrow> queued_task" where
  "demo_task i ds ss = \<lparr>qt_id = lit i, qt_depends_on = map lit ds, qt_seams = ss\<rparr>"

definition demo_queue :: "queued_task list" where
  "demo_queue = [demo_task ''a'' [''b''] [Store], demo_task ''b'' [] [Store],
     demo_task ''c'' [] [Store, Cli]]"

definition demo_hold :: seam_hold where
  "demo_hold = \<lparr>hold_seam = Store, holder = lit ''other''\<rparr>"

lemma demo_queue_order:
  "queue_order demo_queue {} [] = Some
     [(lit ''a'', Wartet (lit ''Vorg'' @ a_umlaut @ lit ''nger b ist noch offen'')),
      (lit ''b'', Startbar),
      (lit ''c'', Wartet (lit ''Naht src-tauri/src/store.rs ist belegt von b''))]"
  by code_simp

lemma demo_cycle:
  "cycle_from 0 [demo_task ''x'' [''z'', ''y''] [], demo_task ''y'' [''x''] []]
   = Some (Some [lit ''x'', lit ''y''])"
  by code_simp

section \<open>Properties\<close>

text \<open>the order is total, judges every task in queue order, and a task may start only if its id is
  unique, all its predecessors are finished, none of them waits on it and no running task holds
  one of its seam lanes; two startable tasks never share a lane.\<close>

theorem startable_tasks_are_safe:
  "\<exists>out. queue_order queue finished held = Some out
     \<and> map fst out = map qt_id queue
     \<and> (\<forall>i<length queue. snd (out ! i) = Startbar \<longrightarrow>
          count_list (map qt_id queue) (qt_id (queue ! i)) = 1
          \<and> set (qt_depends_on (queue ! i)) \<subseteq> finished
          \<and> (i, i) \<notin> (waits_on queue)\<^sup>+
          \<and> (\<forall>h\<in>set held. hold_seam h \<notin> set (qt_seams (queue ! i)))
          \<and> (\<forall>j<i. snd (out ! j) = Startbar \<longrightarrow>
               set (qt_seams (queue ! j)) \<inter> set (qt_seams (queue ! i)) = {}))"
proof -
  obtain out where out: "queue_order queue finished held = Some out" "length out = length queue"
    "\<And>i. i < length queue \<Longrightarrow> fst (out ! i) = qt_id (queue ! i)"
    "\<And>i. i < length queue \<Longrightarrow> snd (out ! i) = Startbar \<Longrightarrow> ready_at queue finished held i"
    "\<And>i j. j < i \<Longrightarrow> i < length queue \<Longrightarrow> snd (out ! i) = Startbar \<Longrightarrow> snd (out ! j) = Startbar \<Longrightarrow>
       set (qt_seams (queue ! j)) \<inter> set (qt_seams (queue ! i)) = {}"
    by (metis queue_order_Some [of queue finished held])
  have one: "count_list (map qt_id queue) (qt_id (queue ! i)) = 1"
    if "i < length queue" "count_list (map qt_id queue) (qt_id (queue ! i)) < 2" for i
  proof -
    have "qt_id (queue ! i) \<in> set (map qt_id queue)" using that(1) by simp
    then have "count_list (map qt_id queue) (qt_id (queue ! i)) \<noteq> 0"
      by (simp add: count_list_0_iff)
    with that(2) show ?thesis by linarith
  qed
  have "map fst out = map qt_id queue"
    using out(2,3) by (intro nth_equalityI) auto
  moreover have "ready_at queue finished held i \<Longrightarrow> i < length queue \<Longrightarrow>
      count_list (map qt_id queue) (qt_id (queue ! i)) = 1
      \<and> set (qt_depends_on (queue ! i)) \<subseteq> finished \<and> (i, i) \<notin> (waits_on queue)\<^sup>+
      \<and> (\<forall>h\<in>set held. hold_seam h \<notin> set (qt_seams (queue ! i)))" for i
    using one [of i] by (auto simp: ready_at_def)
  ultimately show ?thesis using out(1,4,5) by blast
qed

theorem startable_tasks_are_safe_witness:
  "\<exists>out. queue_order demo_queue {} [] = Some out \<and> map fst out = map qt_id demo_queue"
  using startable_tasks_are_safe [of demo_queue "{}" "[]"] by blast

text \<open>the breadth-first search ends and reports a cycle exactly when the task waits on itself over
  queued predecessors; the reported ids are such a cycle, each waiting on the next and the
  last on the first.\<close>

theorem cycle_search_is_exact:
  assumes "start < length queue"
  shows "\<exists>r. cycle_from start queue = Some r
     \<and> (r = None \<longleftrightarrow> (start, start) \<notin> (waits_on queue)\<^sup>+)
     \<and> (\<forall>ids. r = Some ids \<longrightarrow>
          (\<exists>c. is_cycle queue start c \<and> ids = map (\<lambda>at. qt_id (queue ! at)) c))"
  using cycle_from_Some [OF assms] by metis

theorem cycle_search_is_exact_witness:
  "\<exists>c. is_cycle [demo_task ''x'' [''z'', ''y''] [], demo_task ''y'' [''x''] []] 0 c
     \<and> length c = 2"
proof -
  have "0 < length [demo_task ''x'' [''z'', ''y''] [], demo_task ''y'' [''x''] []]" by simp
  from cycle_search_is_exact [OF this] demo_cycle obtain c where
    "is_cycle [demo_task ''x'' [''z'', ''y''] [], demo_task ''y'' [''x''] []] 0 c"
    "[lit ''x'', lit ''y''] = map (\<lambda>at. qt_id ([demo_task ''x'' [''z'', ''y''] [], demo_task ''y'' [''x''] []] ! at)) c"
    by auto
  moreover from this(2) have "length c = 2"
    by (metis length_map length_Cons list.size(3) numeral_2_eq_2)
  ultimately show ?thesis by blast
qed

lemma first_in_line:
  assumes "queue \<noteq> []" and "acyclic (waits_on queue)"
    and "\<forall>t\<in>set queue. set (qt_depends_on t) \<subseteq> finished \<union> qt_id ` set queue"
  shows "\<exists>i<length queue. set (qt_depends_on (queue ! i)) \<subseteq> finished"
proof -
  have "finite (waits_on queue)"
    by (rule finite_subset [of _ "{..<length queue} \<times> {..<length queue}"])
      (auto simp: waits_on_def dest: deps_at_bound)
  then have wf: "wf ((waits_on queue)\<inverse>)" using assms(2) by (rule finite_acyclic_wf_converse)
  have "0 \<in> {i. i < length queue}" using assms(1) by simp
  then obtain i where
    "i \<in> {i. i < length queue}" "\<And>j. (j, i) \<in> (waits_on queue)\<inverse> \<Longrightarrow> j \<notin> {i. i < length queue}"
    by (rule wfE_min [OF wf]) (rule that)
  then have i: "i < length queue" "\<And>j. (i, j) \<in> waits_on queue \<Longrightarrow> \<not> j < length queue"
    by simp_all
  have "d \<in> finished" if d: "d \<in> set (qt_depends_on (queue ! i))" for d
  proof (rule ccontr)
    assume "d \<notin> finished"
    then have "d \<in> qt_id ` set queue" using assms(3) i(1) d nth_mem by blast
    then obtain j where j: "index_of queue d = Some j" using index_of_None [of queue d] by auto
    then have "(i, j) \<in> waits_on queue"
      using i(1) d by (force simp: waits_on_def deps_at_def List.map_filter_def)
    with i(2) index_of_Some [OF j] show False by blast
  qed
  with i(1) show ?thesis by blast
qed

text \<open>C40: only running agents can stop the queue: let the ids be distinct, every predecessor finished or
  queued, and no task in a circular wait.  Then a non-empty queue has a task whose predecessors are all
  finished, and some task may start if and only if one of these tasks needs no seam that is
  held from outside.  In particular some task may start whenever nothing is held; while agents hold the
  seams of all these tasks, none may.\<close>

theorem queue_waits_for_held_seams_only:
  assumes "queue \<noteq> []" and "distinct (map qt_id queue)" and "acyclic (waits_on queue)"
    and "\<forall>t\<in>set queue. set (qt_depends_on t) \<subseteq> finished \<union> qt_id ` set queue"
  shows "(\<exists>i<length queue. set (qt_depends_on (queue ! i)) \<subseteq> finished)
     \<and> (\<exists>out. queue_order queue finished held = Some out
         \<and> ((\<exists>i<length queue. snd (out ! i) = Startbar)
            \<longleftrightarrow> (\<exists>i<length queue. set (qt_depends_on (queue ! i)) \<subseteq> finished
                   \<and> set (qt_seams (queue ! i)) \<inter> hold_seam ` set held = {})))"
proof -
  obtain out where out: "queue_order queue finished held = Some out"
    "\<And>i. i < length queue \<Longrightarrow> snd (out ! i) = Startbar \<Longrightarrow> ready_at queue finished held i"
    "\<And>i. (\<forall>i<length queue. snd (out ! i) \<noteq> Startbar) \<Longrightarrow> i < length queue \<Longrightarrow>
       wait_reason queue finished held Map.empty i \<noteq> Some None"
    by (metis queue_order_Some [of queue finished held])
  have ready: "ready_at queue finished held i
      \<longleftrightarrow> set (qt_depends_on (queue ! i)) \<subseteq> finished \<and> set (qt_seams (queue ! i)) \<inter> hold_seam ` set held = {}"
    if "i < length queue" for i
  proof -
    have "count_list (map qt_id queue) (qt_id (queue ! i)) < 2"
      using distinct_count_list [OF assms(2)] by (simp add: le_imp_less_Suc numeral_2_eq_2)
    moreover have "(i, i) \<notin> (waits_on queue)\<^sup>+" using assms(3) by (simp add: acyclic_def)
    ultimately show ?thesis by (auto simp: ready_at_def)
  qed
  have start: "\<exists>i<length queue. snd (out ! i) = Startbar" if i: "i < length queue" "ready_at queue finished held i" for i
  proof (rule ccontr)
    assume "\<not> ?thesis"
    then have "\<forall>i<length queue. snd (out ! i) \<noteq> Startbar" by simp
    from out(3) [OF this i(1)] wait_reason_None [OF i(1), of finished held Map.empty] i(2)
    show False by simp
  qed
  have "(\<exists>i<length queue. snd (out ! i) = Startbar) \<longleftrightarrow> (\<exists>i<length queue. ready_at queue finished held i)"
    using out(2) start by (intro iffI; elim exE conjE) auto
  with ready have "(\<exists>i<length queue. snd (out ! i) = Startbar)
      \<longleftrightarrow> (\<exists>i<length queue. set (qt_depends_on (queue ! i)) \<subseteq> finished
             \<and> set (qt_seams (queue ! i)) \<inter> hold_seam ` set held = {})"
    by (simp cong: conj_cong)
  with out(1) first_in_line [OF assms(1,3,4)] show ?thesis by blast
qed

lemma demo_queue_waits: "acyclic (waits_on demo_queue)"
proof -
  have "waits_on demo_queue \<subseteq> {(0, 1)}"
    by (auto simp: waits_on_def demo_queue_def demo_task_def deps_at_def List.map_filter_def
        less_Suc_eq lit_def)
  moreover have "acyclic {(0 :: nat, 1)}"
    by (rule acyclic_subset [OF wf_acyclic [OF wf_less_than]]) auto
  ultimately show ?thesis using acyclic_subset by blast
qed

text \<open>With nothing held a task may start; while another agent holds the seam of the store, none may.\<close>

theorem queue_waits_for_held_seams_only_witness:
  "(\<exists>out. queue_order demo_queue {} [] = Some out \<and> (\<exists>i<length demo_queue. snd (out ! i) = Startbar)) \<and>
   (\<exists>out. queue_order demo_queue {} [demo_hold] = Some out
      \<and> \<not> (\<exists>i<length demo_queue. snd (out ! i) = Startbar))"
proof -
  have "demo_queue \<noteq> []" "distinct (map qt_id demo_queue)"
    "\<forall>t\<in>set demo_queue. set (qt_depends_on t) \<subseteq> {} \<union> qt_id ` set demo_queue"
    by (auto simp: demo_queue_def demo_task_def lit_def)
  note law = queue_waits_for_held_seams_only [OF this(1,2) demo_queue_waits this(3), THEN conjunct2]
  have "length demo_queue = 3" "demo_queue ! 1 = demo_task ''b'' [] [Store]"
    "\<forall>t\<in>set demo_queue. Store \<in> set (qt_seams t)"
    by (simp_all add: demo_queue_def demo_task_def)
  then have "\<exists>i<length demo_queue. set (qt_depends_on (demo_queue ! i)) \<subseteq> {}
      \<and> set (qt_seams (demo_queue ! i)) \<inter> hold_seam ` set [] = {}"
    by (intro exI [of _ 1]) (simp add: demo_task_def)
  moreover have "\<not> (\<exists>i<length demo_queue. set (qt_depends_on (demo_queue ! i)) \<subseteq> {}
      \<and> set (qt_seams (demo_queue ! i)) \<inter> hold_seam ` set [demo_hold] = {})"
    using \<open>\<forall>t\<in>set demo_queue. Store \<in> set (qt_seams t)\<close> by (auto simp: demo_hold_def)
  ultimately show ?thesis using law [of "[]"] law [of "[demo_hold]"] by metis
qed

end
