(* ===== verification/Watchdog.thy ===== *)
theory Watchdog
  imports Prelude Rust_Text
begin

text \<open>
  The watchdog of \<open>src-tauri/src/stuck/watchdog.rs\<close>: a pure tick from a snapshot of runs and the
  dedupe state to the new notices and the next dedupe state.  A \<open>BTreeSet\<close> of ids is a set;
  a \<open>Duration\<close> is its length in milliseconds.
\<close>

section \<open>Data\<close>

datatype run_state = Running | LeaseExpired | Exited

record worker_run =
  wr_id :: ustr
  wr_state :: run_state
  last_output_at :: "u64 option"
  last_commit_at :: "u64 option"
  exited_at :: "u64 option"

record thresholds =
  stalled_after :: u128

definition default_thresholds :: thresholds where
  "default_thresholds = \<lparr>stalled_after = 10 * 60 * 1000\<rparr>"

datatype notice_kind = Fertig | Steht

record notice =
  notice_run :: ustr
  notice_kind :: notice_kind
  since :: u64

record dedupe =
  stalled :: "ustr set"
  finished :: "ustr set"

definition default_dedupe :: dedupe where
  "default_dedupe = \<lparr>stalled = {}, finished = {}\<rparr>"

section \<open>The tick\<close>

text \<open>\<open>max\<close> on options, where \<open>None\<close> is least, and \<open>u64::try_from\<close> with its fallback.\<close>

fun opt_max :: "u64 option \<Rightarrow> u64 option \<Rightarrow> u64 option" where
  "opt_max None b = b"
| "opt_max a None = a"
| "opt_max (Some a) (Some b) = Some (max a b)"

definition limit_of :: "thresholds \<Rightarrow> u64" where
  "limit_of th = (if stalled_after th < 0x10000000000000000 then ucast (stalled_after th) else - 1)"

definition tick_run ::
  "u64 \<Rightarrow> u64 \<Rightarrow> dedupe \<Rightarrow> notice list \<times> dedupe \<Rightarrow> worker_run \<Rightarrow> notice list \<times> dedupe" where
  "tick_run now limit old acc r =
     (case acc of (ns, nxt) \<Rightarrow>
        if wr_state r = Exited
        then (if wr_id r \<in> finished nxt then (ns, nxt)
              else (ns @ [\<lparr>notice_run = wr_id r, notice_kind = Fertig,
                           since = (case exited_at r of None \<Rightarrow> now | Some t \<Rightarrow> t)\<rparr>],
                    nxt\<lparr>finished := insert (wr_id r) (finished nxt)\<rparr>))
        else (case opt_max (last_output_at r) (last_commit_at r) of
                None \<Rightarrow> (ns, nxt)
              | Some seen \<Rightarrow>
                  if sat_sub now seen < limit then (ns, nxt)
                  else (if wr_id r \<in> stalled old then ns
                        else ns @ [\<lparr>notice_run = wr_id r, notice_kind = Steht, since = seen\<rparr>],
                        nxt\<lparr>stalled := insert (wr_id r) (stalled nxt)\<rparr>)))"

definition evaluate_runs ::
  "worker_run list \<Rightarrow> u64 \<Rightarrow> thresholds \<Rightarrow> dedupe \<Rightarrow> notice list \<times> dedupe" where
  "evaluate_runs rs now th old =
     foldl (tick_run now (limit_of th) old) ([], \<lparr>stalled = {}, finished = finished old\<rparr>) rs"

text \<open>The watchdog over successive ticks: the caller hands the dedupe state from one to the next.\<close>

fun watch :: "thresholds \<Rightarrow> dedupe \<Rightarrow> (worker_run list \<times> u64) list \<Rightarrow> notice list list" where
  "watch th dd [] = []"
| "watch th dd ((rs, now) # ticks) =
     (case evaluate_runs rs now th dd of (ns, dd') \<Rightarrow> ns # watch th dd' ticks)"

section \<open>What a tick says\<close>

definition silent :: "thresholds \<Rightarrow> u64 \<Rightarrow> worker_run \<Rightarrow> bool" where
  "silent th now r \<longleftrightarrow> wr_state r \<noteq> Exited
     \<and> (case opt_max (last_output_at r) (last_commit_at r) of
          None \<Rightarrow> False
        | Some seen \<Rightarrow> unat (limit_of th) \<le> unat now - unat seen)"

definition silent_ids :: "thresholds \<Rightarrow> worker_run list \<times> u64 \<Rightarrow> ustr set" where
  "silent_ids th tick = wr_id ` {r \<in> set (fst tick). silent th (snd tick) r}"

definition exited_ids :: "worker_run list \<times> u64 \<Rightarrow> ustr set" where
  "exited_ids tick = wr_id ` {r \<in> set (fst tick). wr_state r = Exited}"

definition announced :: "notice_kind \<Rightarrow> notice list \<Rightarrow> ustr list" where
  "announced k ns = map notice_run (filter (\<lambda>n. notice_kind n = k) ns)"

lemma announced_simps [simp]:
  "announced k [] = []"
  "announced k (ns @ ms) = announced k ns @ announced k ms"
  "announced k [n] = (if notice_kind n = k then [notice_run n] else [])"
  by (simp_all add: announced_def)

lemma silent_iff:
  "silent th now r \<longleftrightarrow> wr_state r \<noteq> Exited \<and>
     (\<exists>seen. opt_max (last_output_at r) (last_commit_at r) = Some seen
        \<and> \<not> sat_sub now seen < limit_of th)"
  by (auto simp: silent_def word_less_nat_alt arith_bounds split: option.splits)

text \<open>The notices and marks of one tick, as sets over its runs.\<close>

lemma tick_spec:
  "evaluate_runs rs now th old = (ns, dd) \<Longrightarrow>
     stalled dd = silent_ids th (rs, now)
     \<and> finished dd = finished old \<union> exited_ids (rs, now)
     \<and> distinct (announced Fertig ns)
     \<and> set (announced Fertig ns) = exited_ids (rs, now) - finished old
     \<and> set (announced Steht ns) = silent_ids th (rs, now) - stalled old"
proof (induction rs arbitrary: ns dd rule: rev_induct)
  case Nil
  then show ?case by (auto simp: evaluate_runs_def silent_ids_def exited_ids_def)
next
  case (snoc r rs)
  obtain ns1 dd1 where s: "evaluate_runs rs now th old = (ns1, dd1)" by fastforce
  have step: "tick_run now (limit_of th) old (ns1, dd1) r = (ns, dd)"
    using snoc.prems s by (simp add: evaluate_runs_def)
  have ids: "silent_ids th (rs @ [r], now)
      = silent_ids th (rs, now) \<union> (if silent th now r then {wr_id r} else {})"
    "exited_ids (rs @ [r], now) = exited_ids (rs, now) \<union> (if wr_state r = Exited then {wr_id r} else {})"
    by (auto simp: silent_ids_def exited_ids_def)
  note ih = snoc.IH [OF s]
  consider (exited) "wr_state r = Exited" | (quiet) "wr_state r \<noteq> Exited" "\<not> silent th now r"
    | (stands) seen where "wr_state r \<noteq> Exited" "silent th now r"
        "opt_max (last_output_at r) (last_commit_at r) = Some seen" "\<not> sat_sub now seen < limit_of th"
    using silent_iff by blast
  then show ?case
  proof cases
    case exited
    then have "\<not> silent th now r" by (simp add: silent_def)
    then show ?thesis using step ih exited ids by (auto simp: tick_run_def split: if_splits)
  next
    case quiet
    then have "ns = ns1" "dd = dd1"
      using step silent_iff [of th now r] by (auto simp: tick_run_def split: option.splits if_splits)
    then show ?thesis using ih quiet ids by simp
  next
    case stands
    then show ?thesis using step ih ids by (auto simp: tick_run_def split: if_splits)
  qed
qed

lemma watch_length [simp]: "length (watch th dd ticks) = length ticks"
  by (induction th dd ticks rule: watch.induct) (simp_all split: prod.split)

lemma watch_spec:
  "distinct (concat (map (announced Fertig) (watch th dd ticks)))
   \<and> set (concat (map (announced Fertig) (watch th dd ticks))) = (\<Union>t\<in>set ticks. exited_ids t) - finished dd
   \<and> (\<forall>j<length ticks. set (announced Steht (watch th dd ticks ! j))
        = silent_ids th (ticks ! j) - (if j = 0 then stalled dd else silent_ids th (ticks ! (j - 1))))"
proof (induction th dd ticks rule: watch.induct)
  case (1 th dd)
  then show ?case by simp
next
  case (2 th dd rs now ticks)
  obtain ns dd' where e: "evaluate_runs rs now th dd = (ns, dd')" by fastforce
  note sp = tick_spec [OF e]
  from 2 [OF e [symmetric]] have ih:
    "distinct (concat (map (announced Fertig) (watch th dd' ticks)))"
    "set (concat (map (announced Fertig) (watch th dd' ticks))) = (\<Union>t\<in>set ticks. exited_ids t) - finished dd'"
    "\<forall>j<length ticks. set (announced Steht (watch th dd' ticks ! j))
        = silent_ids th (ticks ! j) - (if j = 0 then stalled dd' else silent_ids th (ticks ! (j - 1)))"
    by blast+
  have w: "watch th dd ((rs, now) # ticks) = ns # watch th dd' ticks" by (simp add: e)
  have "distinct (concat (map (announced Fertig) (watch th dd ((rs, now) # ticks))))"
    unfolding w using ih(1,2) sp by auto
  moreover have "set (concat (map (announced Fertig) (watch th dd ((rs, now) # ticks))))
      = (\<Union>t\<in>set ((rs, now) # ticks). exited_ids t) - finished dd"
    unfolding w using ih(2) sp by auto
  moreover have "\<forall>j<length ((rs, now) # ticks). set (announced Steht (watch th dd ((rs, now) # ticks) ! j))
      = silent_ids th (((rs, now) # ticks) ! j)
        - (if j = 0 then stalled dd else silent_ids th (((rs, now) # ticks) ! (j - 1)))"
    unfolding w length_Cons All_less_Suc2 using ih(3) sp
    by (auto simp: nth_Cons' split: if_splits)
  ultimately show ?case by blast
qed

definition demo_worker :: "run_state \<Rightarrow> u64 \<Rightarrow> worker_run" where
  "demo_worker s t = \<lparr>wr_id = lit ''w'', wr_state = s, last_output_at = Some t, last_commit_at = None,
     exited_at = None\<rparr>"

definition demo_ticks :: "(worker_run list \<times> u64) list" where
  "demo_ticks = [([demo_worker Running 0], 600000), ([demo_worker LeaseExpired 0], 700000),
     ([demo_worker Running 650000], 800000), ([demo_worker Running 650000], 1300000),
     ([demo_worker Exited 650000], 1400000), ([demo_worker Exited 650000], 1500000)]"

section \<open>Properties\<close>

text \<open>over any sequence of ticks a run is announced as finished exactly once when it is ever seen
  exited, however often it is listed, and as standing exactly in the ticks in which it was
  silent for the threshold and had not been so in the tick before.\<close>

theorem watchdog_announces_once:
  "let outs = watch th default_dedupe ticks
   in distinct (concat (map (announced Fertig) outs))
      \<and> set (concat (map (announced Fertig) outs)) = (\<Union>t\<in>set ticks. exited_ids t)
      \<and> (\<forall>j<length ticks. set (announced Steht (outs ! j))
           = silent_ids th (ticks ! j) - (if j = 0 then {} else silent_ids th (ticks ! (j - 1))))"
  using watch_spec [of th default_dedupe ticks] by (simp add: Let_def default_dedupe_def)

theorem watchdog_announces_once_witness:
  "distinct (concat (map (announced Fertig) (watch default_thresholds default_dedupe demo_ticks)))
   \<and> map (announced Steht) (watch default_thresholds default_dedupe demo_ticks)
       = [[lit ''w''], [], [], [lit ''w''], [], []]"
proof
  show "distinct (concat (map (announced Fertig) (watch default_thresholds default_dedupe demo_ticks)))"
    using watchdog_announces_once [of default_thresholds demo_ticks] unfolding Let_def by blast
  show "map (announced Steht) (watch default_thresholds default_dedupe demo_ticks)
       = [[lit ''w''], [], [], [lit ''w''], [], []]"
    by code_simp
qed

end
