(* ===== verification/Rewind_Plan.thy ===== *)
theory Rewind_Plan
  imports Prelude Rust_Text "HOL-Library.List_Lexorder"
begin

text \<open>
  The rewind planner of \<open>src-tauri/src/worktree/rewind_plan.rs\<close>: a plan of steps back to a
  checkpoint that never loses work.  The ancestry closure of the code is a parameter.  The
  steps are given the effect their comments name on an abstract repository, and the plan
  is judged by what is still reachable after it ran.
\<close>

section \<open>Steps and names\<close>

datatype schritt =
    SicherungsrefAnlegen ustr ustr
  | WipCommit
  | ZuruecksetzenAuf ustr

datatype ergebnis = Plan "schritt list" | Abgelehnt ustr

record eingabe =
  head :: ustr
  ziel :: ustr
  ungepusht :: "ustr list"
  schmutzig :: bool
  lauf :: ustr
  sicherung_nr :: u32

definition sha_gueltig :: "ustr \<Rightarrow> bool" where
  "sha_gueltig s \<longleftrightarrow> 7 \<le> byte_len s \<and> byte_len s \<le> 64 \<and> list_all is_ascii_hexdigit s"

definition forbidden_char :: "uchar \<Rightarrow> bool" where
  "forbidden_char c \<longleftrightarrow> is_control c \<or> is_whitespace c \<or> c \<in> {126, 94, 58, 63, 42, 91, 92}"

definition ref_name_gueltig :: "ustr \<Rightarrow> bool" where
  "ref_name_gueltig name \<longleftrightarrow>
     name \<noteq> [] \<and> \<not> str_contains name (lit ''..'') \<and> \<not> str_contains name [64, 123]
     \<and> \<not> str_contains name (lit ''//'') \<and> \<not> starts_with name (lit ''/'')
     \<and> \<not> (ends_with name (lit ''/'') \<or> ends_with name (lit ''.''))
     \<and> \<not> list_ex forbidden_char name
     \<and> list_all (\<lambda>teil. \<not> starts_with teil (lit ''.'') \<and> \<not> ends_with teil (lit ''.lock''))
         (split_char 47 name)"

definition sicherung_name :: "eingabe \<Rightarrow> ustr" where
  "sicherung_name e = lit ''refs/projecta/sicherung/'' @ lauf e @ lit ''/'' @ decimal (unat (sicherung_nr e))"

section \<open>The plan\<close>

definition plane :: "eingabe \<Rightarrow> (ustr \<Rightarrow> ustr \<Rightarrow> bool) \<Rightarrow> ergebnis" where
  "plane e ist_vorfahre =
     (if \<not> sha_gueltig (head e) \<or> \<not> sha_gueltig (ziel e)
      then Abgelehnt (lit ''Ung'' @ u_umlaut @ lit ''ltige Commit-Kennung (erwartet: 7 bis 64 Hex-Zeichen)'')
      else if \<not> list_all sha_gueltig (ungepusht e)
      then Abgelehnt (lit ''Ung'' @ u_umlaut @ lit ''ltige Commit-Kennung in der Liste der ungepushten Commits'')
      else (let name = sicherung_name e in
        if lauf e = [] \<or> 47 \<in> set (lauf e) \<or> \<not> ref_name_gueltig name
        then Abgelehnt (lit ''Ung'' @ u_umlaut @ lit ''ltige Lauf-Kennung f'' @ u_umlaut
               @ lit ''r die Sicherungsreferenz'')
        else if ziel e = head e \<and> \<not> schmutzig e then Plan []
        else if \<not> ist_vorfahre (ziel e) (head e)
        then Abgelehnt (lit ''Ziel liegt nicht in der Geschichte dieses Zweigs'')
        else (let verliert_commits = list_ex (\<lambda>c. \<not> ist_vorfahre c (ziel e)) (ungepusht e)
          in Plan ((if schmutzig e then [WipCommit] else [])
               @ (if schmutzig e \<or> verliert_commits
                  then [SicherungsrefAnlegen name (if schmutzig e then lit ''HEAD'' else head e)] else [])
               @ [ZuruecksetzenAuf (ziel e)]))))"

section \<open>A repository the plan runs on\<close>

text \<open>
  A commit is an existing one, by its sha, or the WIP commit made during the plan, whose
  parent is the head it was made on.  \<open>git reset --hard\<close> drops what the working tree holds.
\<close>

datatype commit = Sha ustr | Wip ustr

record repo =
  at_head :: commit
  refs :: "ustr \<rightharpoonup> commit"
  dirty :: bool
  lost_changes :: bool

fun run_schritt :: "repo \<Rightarrow> schritt \<Rightarrow> repo" where
  "run_schritt r WipCommit =
     (case at_head r of
        Sha s \<Rightarrow> r\<lparr>at_head := Wip s, dirty := False\<rparr>
      | Wip s \<Rightarrow> r)"
| "run_schritt r (SicherungsrefAnlegen name s) =
     r\<lparr>refs := (refs r)(name \<mapsto> (if s = lit ''HEAD'' then at_head r else Sha s))\<rparr>"
| "run_schritt r (ZuruecksetzenAuf s) =
     r\<lparr>at_head := Sha s, lost_changes := lost_changes r \<or> dirty r, dirty := False\<rparr>"

fun contains :: "(ustr \<Rightarrow> ustr \<Rightarrow> bool) \<Rightarrow> commit \<Rightarrow> commit \<Rightarrow> bool" where
  "contains anc (Sha t) (Sha c) = anc c t"
| "contains anc (Wip t) (Sha c) = anc c t"
| "contains anc (Wip t) (Wip s) = (t = s)"
| "contains anc (Sha t) (Wip s) = False"

definition reachable :: "(ustr \<Rightarrow> ustr \<Rightarrow> bool) \<Rightarrow> repo \<Rightarrow> commit \<Rightarrow> bool" where
  "reachable anc r c \<longleftrightarrow> (\<exists>t. (t = at_head r \<or> t \<in> ran (refs r)) \<and> contains anc t c)"

definition repo_of :: "eingabe \<Rightarrow> (ustr \<rightharpoonup> commit) \<Rightarrow> repo" where
  "repo_of e rs = \<lparr>at_head = Sha (head e), refs = rs, dirty = schmutzig e, lost_changes = False\<rparr>"

lemma plane_cases:
  assumes "plane e anc = Plan steps"
  obtains (nothing) "steps = []" "ziel e = head e" "\<not> schmutzig e"
  | (rewind) "steps = (if schmutzig e then [WipCommit] else [])
        @ (if schmutzig e \<or> (\<exists>c\<in>set (ungepusht e). \<not> anc c (ziel e))
           then [SicherungsrefAnlegen (sicherung_name e) (if schmutzig e then lit ''HEAD'' else head e)] else [])
        @ [ZuruecksetzenAuf (ziel e)]" "anc (ziel e) (head e)" "sha_gueltig (head e)"
        "ref_name_gueltig (sicherung_name e)"
  using assms by (auto simp: plane_def Let_def list_ex_iff split: if_splits)

lemma head_is_no_sha: "sha_gueltig s \<Longrightarrow> s \<noteq> lit ''HEAD''"
  by (auto simp: sha_gueltig_def lit_def byte_len_def utf8_len_def)

definition demo_eingabe :: eingabe where
  "demo_eingabe = \<lparr>head = lit ''aaaaaaa3'', ziel = lit ''aaaaaaa1'', ungepusht = [lit ''aaaaaaa2'', lit ''aaaaaaa3''],
     schmutzig = True, lauf = lit ''run-1'', sicherung_nr = 0\<rparr>"

definition demo_history :: "ustr \<Rightarrow> ustr \<Rightarrow> bool" where
  "demo_history a b \<longleftrightarrow> a \<le> b"

section \<open>Properties\<close>

text \<open>a plan never loses work: once it ran, every commit that was reachable only from the head is
  still reachable from the head or a reference, the changes of a dirty tree are in a commit
  that a reference keeps, nothing uncommitted was dropped, the head is the target, and no
  reference but the one backup changed.\<close>

theorem rewind_never_loses_work:
  assumes "plane e anc = Plan steps" and "\<forall>c\<in>set (ungepusht e). anc c (head e)" and "\<forall>c. anc c c"
    and "refs0 (sicherung_name e) = None"
  shows "let r = foldl run_schritt (repo_of e refs0) steps
    in at_head r = Sha (ziel e) \<and> \<not> lost_changes r
       \<and> (\<forall>c\<in>set (ungepusht e). reachable anc r (Sha c))
       \<and> (schmutzig e \<longrightarrow> reachable anc r (Wip (head e)))
       \<and> (\<forall>name c. refs0 name = Some c \<longrightarrow> refs r name = Some c)"
  using assms(1)
proof (cases rule: plane_cases)
  case nothing
  then show ?thesis
    using assms(2) by (auto simp: repo_of_def reachable_def Let_def)
next
  case rewind
  show ?thesis
  proof (cases "schmutzig e")
    case True
    then show ?thesis
      using rewind assms(2,4) by (auto simp: repo_of_def reachable_def Let_def)
  next
    case clean: False
    show ?thesis
    proof (cases "\<exists>c\<in>set (ungepusht e). \<not> anc c (ziel e)")
      case True
      then show ?thesis
        using rewind clean assms(2,4) head_is_no_sha by (auto simp: repo_of_def reachable_def Let_def)
    next
      case False
      then show ?thesis
        using rewind clean by (auto simp: repo_of_def reachable_def Let_def)
    qed
  qed
qed

lemma demo_plan:
  "plane demo_eingabe demo_history
   = Plan [WipCommit, SicherungsrefAnlegen (lit ''refs/projecta/sicherung/run-1/0'') (lit ''HEAD''),
       ZuruecksetzenAuf (lit ''aaaaaaa1'')]"
  by code_simp

theorem rewind_never_loses_work_witness:
  "let r = foldl run_schritt (repo_of demo_eingabe Map.empty)
       [WipCommit, SicherungsrefAnlegen (lit ''refs/projecta/sicherung/run-1/0'') (lit ''HEAD''),
        ZuruecksetzenAuf (lit ''aaaaaaa1'')]
   in reachable demo_history r (Wip (head demo_eingabe)) \<and> \<not> lost_changes r"
proof -
  have 1: "\<forall>c\<in>set (ungepusht demo_eingabe). demo_history c (head demo_eingabe)" by code_simp
  have 2: "\<forall>c. demo_history c c" by (simp add: demo_history_def)
  have 3: "(Map.empty :: ustr \<rightharpoonup> commit) (sicherung_name demo_eingabe) = None" by simp
  have "schmutzig demo_eingabe" by (simp add: demo_eingabe_def)
  with rewind_never_loses_work [OF demo_plan 1 2 3] show ?thesis
    unfolding Let_def by blast
qed

end
