(* ===== verification/Dialog_Text.thy ===== *)
theory Dialog_Text
  imports Rust_Text
begin

text \<open>
  The text half of \<open>submit_guard.rs\<close>: the normal form of terminal output, the
  snippets of a task whose reappearance counts as its echo, and the recognition of the
  modal dialogs that swallow keystrokes.  Positions are characters of the squashed
  window, as the code's are bytes of it: both number the same character boundaries of one
  string, so they compare the same way.  The facts are that normalisation reaches a
  normal form in one pass and that an echo is found however the terminal wraps it.
\<close>

section \<open>Strings of the standard library\<close>

text \<open>
  \<open>match_indices\<close> and \<open>replace\<close> find the matches from the left without overlaps;
  an empty needle matches at every boundary.
\<close>

function match_indices_from :: "nat \<Rightarrow> ustr \<Rightarrow> ustr \<Rightarrow> nat list" where
  "match_indices_from i p [] = (if p = [] then [i] else [])"
| "match_indices_from i p (c # s) =
     (if p = [] then i # match_indices_from (Suc i) p s
      else if starts_with (c # s) p
      then i # match_indices_from (i + length p) p (drop (length p) (c # s))
      else match_indices_from (Suc i) p s)"
  by pat_completeness auto

termination
  by (relation "measure (\<lambda>(i, p, s). length s)") auto

definition match_indices :: "ustr \<Rightarrow> ustr \<Rightarrow> nat list" where
  "match_indices s p = match_indices_from 0 p s"

function str_replace :: "ustr \<Rightarrow> ustr \<Rightarrow> ustr \<Rightarrow> ustr" where
  "str_replace p r [] = (if p = [] then r else [])"
| "str_replace p r (c # s) =
     (if p = [] then r @ c # str_replace p r s
      else if starts_with (c # s) p then r @ str_replace p r (drop (length p) (c # s))
      else c # str_replace p r s)"
  by pat_completeness auto

termination
  by (relation "measure (\<lambda>(p, r, s). length s)") auto

text \<open>\<open>rsplit(m).next()\<close>: what follows the last match, or the whole string.\<close>

definition after_last :: "ustr \<Rightarrow> ustr \<Rightarrow> ustr" where
  "after_last m s = (case str_rfind m s of None \<Rightarrow> s | Some i \<Rightarrow> drop (i + length m) s)"

text \<open>\<open>max()\<close>, \<open>min()\<close> and \<open>max_by_key\<close> of an iterator: the last of several maxima.\<close>

fun iter_max :: "nat list \<Rightarrow> nat option" where
  "iter_max [] = None"
| "iter_max (x # xs) = Some (fold max xs x)"

fun iter_min :: "nat list \<Rightarrow> nat option" where
  "iter_min [] = None"
| "iter_min (x # xs) = Some (fold min xs x)"

fun max_by_key :: "('a \<Rightarrow> nat) \<Rightarrow> 'a list \<Rightarrow> 'a option" where
  "max_by_key k [] = None"
| "max_by_key k (x # xs) = Some (fold (\<lambda>y best. if k best \<le> k y then y else best) xs x)"

section \<open>The normal form of terminal output\<close>

text \<open>
  The loop of \<open>normalize_tui_output\<close> and the loops nested in it read one iterator; the mode says
  which of them holds it.
\<close>

datatype scan_mode = Plain | Escape | Csi | Osc bool

fun normalize_from :: "scan_mode \<Rightarrow> ustr \<Rightarrow> ustr \<Rightarrow> ustr" where
  "normalize_from m out [] = out"
| "normalize_from Plain out (c # s) =
     (if c = 27 then normalize_from Escape out s
      else if is_whitespace c
      then normalize_from Plain (if ends_with out [32] then out else out @ [32]) s
      else if is_control c then normalize_from Plain out s
      else normalize_from Plain (out @ [c]) s)"
| "normalize_from Escape out (c # s) =
     (if c = 91 then normalize_from Csi out s
      else if c = 93 then normalize_from (Osc False) out s
      else normalize_from Plain out s)"
| "normalize_from Csi out (c # s) =
     (if 64 \<le> c \<and> c \<le> 126
      then normalize_from Plain
             (if (c = 67 \<or> c = 72 \<or> c = 102) \<and> out \<noteq> [] \<and> \<not> ends_with out [32]
              then out @ [32] else out) s
      else normalize_from Csi out s)"
| "normalize_from (Osc prev_esc) out (c # s) =
     (if c = 7 \<or> prev_esc \<and> c = 92 then normalize_from Plain out s
      else normalize_from (Osc (c = 27)) out s)"

definition normalize_tui_output :: "ustr \<Rightarrow> ustr" where
  "normalize_tui_output raw = normalize_from Plain [] raw"

definition squash :: "ustr \<Rightarrow> ustr" where
  "squash s = filter (\<lambda>c. \<not> is_whitespace c) s"

definition last_chars :: "ustr \<Rightarrow> int \<Rightarrow> ustr" where
  "last_chars s n =
     (if n = 0 then []
      else if int (length s) \<le> n then s
      else drop (length s - nat n) s)"

section \<open>The echo of a task\<close>

definition FRAGMENT_CHARS :: nat where
  "FRAGMENT_CHARS = 24"

definition task_fragment :: "ustr \<Rightarrow> ustr" where
  "task_fragment task =
     (let longest = (case max_by_key length (filter (\<lambda>l. l \<noteq> []) (map trim (str_lines task))) of
                       None \<Rightarrow> [] | Some l \<Rightarrow> l);
          squashed = squash (normalize_tui_output longest)
      in if FRAGMENT_CHARS < length squashed then take FRAGMENT_CHARS squashed else squashed)"

definition task_tail_fragment :: "ustr \<Rightarrow> ustr" where
  "task_tail_fragment task =
     (let tail_line = (case find (\<lambda>l. l \<noteq> []) (map trim (rev (str_lines task))) of
                         None \<Rightarrow> [] | Some l \<Rightarrow> l);
          squashed = squash (normalize_tui_output tail_line)
      in if FRAGMENT_CHARS < length squashed then take FRAGMENT_CHARS squashed else squashed)"

section \<open>Blocking dialogs\<close>

datatype blocking_dialog =
  ClaudeTrustMove | ClaudeTrust | KimiTrust | CodexTrust | CodexHooksReview | CodexUpdateAvailable

fun keystrokes :: "blocking_dialog \<Rightarrow> ustr" where
  "keystrokes ClaudeTrustMove = [27, 91, 66]"
| "keystrokes ClaudeTrust = [13]"
| "keystrokes KimiTrust = [27, 91, 65, 13]"
| "keystrokes CodexTrust = [13]"
| "keystrokes CodexHooksReview = []"
| "keystrokes CodexUpdateAvailable = []"

fun blocked_message :: "blocking_dialog \<Rightarrow> ustr" where
  "blocked_message CodexHooksReview =
     lit ''Codex-Startdialog: Hooks need review; Zustellung blockiert, bitte im Terminal pr'' @ u_umlaut @
     lit ''fen und die Aufgabe erneut senden.''"
| "blocked_message CodexUpdateAvailable =
     lit ''Codex-Startdialog: Update available; Zustellung blockiert, bitte im Terminal pr'' @ u_umlaut @
     lit ''fen und die Aufgabe erneut senden.''"
| "blocked_message _ = []"

definition requires_user :: "blocking_dialog \<Rightarrow> bool" where
  "requires_user d \<longleftrightarrow> d = CodexHooksReview \<or> d = CodexUpdateAvailable"

definition dismisses :: "blocking_dialog \<Rightarrow> bool" where
  "dismisses d \<longleftrightarrow> ends_with (keystrokes d) [13]"

definition DIALOG_WINDOW_CHARS :: int where
  "DIALOG_WINDOW_CHARS = 2048"

definition ECHO_SCAN_CHARS :: int where
  "ECHO_SCAN_CHARS = DIALOG_WINDOW_CHARS * 4"

definition MARKER_SCREEN_CHARS :: int where
  "MARKER_SCREEN_CHARS = 2048"

text \<open>
  The spans of the startup headings: where a heading begins, where its options end and
  the dialog when all the options of one alternative follow it.
\<close>

definition span_end :: "ustr \<Rightarrow> ustr list list \<Rightarrow> nat \<Rightarrow> nat option" where
  "span_end lower alternatives start =
     iter_min (List.map_filter
       (\<lambda>options.
          Option.bind
            (those (map (\<lambda>needle. map_option (\<lambda>p. start + p + length needle)
                                    (str_find needle (drop start lower))) options))
            iter_max)
       alternatives)"

definition heading_spans ::
    "ustr \<Rightarrow> ustr \<Rightarrow> blocking_dialog \<Rightarrow> ustr list list \<Rightarrow> (nat \<times> nat \<times> blocking_dialog option) list" where
  "heading_spans lower heading dialog alternatives =
     map (\<lambda>start.
            let e = span_end lower alternatives start in
            (start,
             (case e of None \<Rightarrow> start + length heading | Some x \<Rightarrow> x),
             map_option (\<lambda>_. dialog) e))
         (match_indices lower heading)"

definition startup_dialog_spans :: "ustr \<Rightarrow> (nat \<times> nat \<times> blocking_dialog option) list" where
  "startup_dialog_spans window =
     (let lower = to_ascii_lowercase window in
      sort_key fst
        (heading_spans lower (lit ''updateavailable'') CodexUpdateAvailable
           [[lit ''updatenow'', lit ''skip'']] @
         heading_spans lower (lit ''hooksneedreview'') CodexHooksReview
           [[lit ''trustallandcontinue''],
            [lit ''ttrustall'', lit ''enterreview'', lit ''escclose'']]))"

definition CLAUDE_MARKERS :: "ustr list" where
  "CLAUDE_MARKERS =
     [lit ''Do you trust the files in this folder'',
      lit ''Yes, I trust this folder'',
      lit ''Quick safety check: Is this a project'']"

definition latest_of :: "ustr \<Rightarrow> ustr list \<Rightarrow> nat option" where
  "latest_of window markers = iter_max (List.map_filter (\<lambda>m. str_rfind m window) markers)"

definition claude_confirm :: "ustr \<Rightarrow> nat option" where
  "claude_confirm window =
     (let yes_selected = latest_of window [10095 # lit '' Yes, I trust'', lit ''> Yes, I trust''];
          no_selected = latest_of window [10095 # lit '' No, exit'', lit ''> No, exit'']
      in opt_filter
           (\<lambda>_. case yes_selected of
                  None \<Rightarrow> False
                | Some yes \<Rightarrow> (case no_selected of None \<Rightarrow> True | Some no \<Rightarrow> no < yes))
           (latest_of window CLAUDE_MARKERS))"

definition claude_move :: "ustr \<Rightarrow> nat option" where
  "claude_move window =
     opt_filter (\<lambda>_. claude_confirm window = None) (latest_of window CLAUDE_MARKERS)"

definition hooks_menu :: "ustr \<Rightarrow> nat option" where
  "hooks_menu lower =
     opt_filter
       (\<lambda>p. let menu = drop p lower in
            str_contains menu (lit ''trustallandcontinue'') \<or>
            str_contains menu (lit ''ttrustall'') \<and>
            str_contains menu (lit ''enterreview'') \<and>
            str_contains menu (lit ''escclose''))
       (str_rfind (lit ''hooksneedreview'') lower)"

definition update_menu :: "ustr \<Rightarrow> nat option" where
  "update_menu lower =
     opt_filter
       (\<lambda>p. str_contains (drop p lower) (lit ''updatenow'') \<and> str_contains (drop p lower) (lit ''skip''))
       (str_rfind (lit ''updateavailable'') lower)"

definition squashed_offset :: "ustr \<Rightarrow> nat option \<Rightarrow> nat option" where
  "squashed_offset window p = map_option (\<lambda>i. length (squash (take i window))) p"

definition blocking_dialog_position :: "ustr \<Rightarrow> (nat \<times> blocking_dialog) option" where
  "blocking_dialog_position tail =
     (let window = last_chars tail DIALOG_WINDOW_CHARS;
          lower = to_ascii_lowercase (squash window)
      in max_by_key fst
           (List.map_filter (\<lambda>(position, dialog). map_option (\<lambda>p. (p, dialog)) position)
              [(squashed_offset window (claude_move window), ClaudeTrustMove),
               (squashed_offset window (claude_confirm window), ClaudeTrust),
               (squashed_offset window
                  (str_rfind (lit ''Do you trust the contents of this directory'') window), CodexTrust),
               (hooks_menu lower, CodexHooksReview),
               (update_menu lower, CodexUpdateAvailable),
               (squashed_offset window (str_rfind (lit ''Trust this folder'') window), KimiTrust)]))"

definition detect_blocking_dialog :: "ustr \<Rightarrow> blocking_dialog option" where
  "detect_blocking_dialog tail = map_option snd (blocking_dialog_position tail)"

section \<open>Facts\<close>

lemma squash_append [simp]: "squash (a @ b) = squash a @ squash b"
  by (simp add: squash_def)

lemma squash_idem [simp]: "squash (squash s) = squash s"
  by (simp add: squash_def)

lemma last_chars_all: "int (length s) \<le> n \<Longrightarrow> last_chars s n = s"
  by (auto simp: last_chars_def)

lemma last_chars_length: "0 \<le> n \<Longrightarrow> int (length (last_chars s n)) \<le> n"
  by (auto simp: last_chars_def)

text \<open>The matches are occurrences of the needle.\<close>

lemma match_indices_from_sound:
  "i \<in> set (match_indices_from n p s) \<Longrightarrow> \<exists>a b. s = a @ p @ b \<and> i = n + length a"
proof (induction n p s rule: match_indices_from.induct)
  case (1 n p)
  then show ?case by (auto split: if_splits)
next
  case (2 n p c s)
  consider (here) "i = n" "p = [] \<or> starts_with (c # s) p"
    | (one) "i \<in> set (match_indices_from (Suc n) p s)" "p = [] \<or> \<not> starts_with (c # s) p"
    | (skip) "p \<noteq> []" "starts_with (c # s) p"
        "i \<in> set (match_indices_from (n + length p) p (drop (length p) (c # s)))"
    using "2.prems" by (auto split: if_splits)
  then show ?case
  proof cases
    case here
    then obtain b where "c # s = [] @ p @ b" by (auto simp: starts_with_iff)
    with here show ?thesis by fastforce
  next
    case one
    then have "\<exists>a b. s = a @ p @ b \<and> i = Suc n + length a"
      using "2.IH"(1,3) by (cases "p = []") blast+
    then obtain a b where "s = a @ p @ b" "i = Suc n + length a" by blast
    then have "c # s = (c # a) @ p @ b \<and> i = n + length (c # a)" by simp
    then show ?thesis by blast
  next
    case skip
    then obtain a b where ab: "drop (length p) (c # s) = a @ p @ b" "i = n + length p + length a"
      using "2.IH"(2) by blast
    from skip(2) have "c # s = p @ drop (length p) (c # s)"
      by (auto simp: starts_with_def) (metis append_take_drop_id)
    with ab have "c # s = (p @ a) @ p @ b \<and> i = n + length (p @ a)" by simp
    then show ?thesis by blast
  qed
qed

lemma max_by_key_mem: "max_by_key k xs = Some x \<Longrightarrow> x \<in> set xs"
proof (cases xs)
  case (Cons y ys)
  have "fold (\<lambda>z best. if k best \<le> k z then z else best) ys b \<in> set (b # ys)" for b
    by (induction ys arbitrary: b) (auto split: if_splits)
  moreover assume "max_by_key k xs = Some x"
  ultimately show ?thesis using Cons by auto
qed simp


subsection \<open>The normal form\<close>

text \<open>
  Text in normal form has no control characters, a single space as its only white space and
  no two spaces in a row.
\<close>

definition clean_char :: "uchar \<Rightarrow> bool" where
  "clean_char c \<longleftrightarrow> c = 32 \<or> \<not> is_whitespace c \<and> \<not> is_control c"

fun single_spaced :: "ustr \<Rightarrow> bool" where
  "single_spaced (a # b # s) \<longleftrightarrow> \<not> (a = 32 \<and> b = 32) \<and> single_spaced (b # s)"
| "single_spaced _ \<longleftrightarrow> True"

definition in_normal_form :: "ustr \<Rightarrow> bool" where
  "in_normal_form s \<longleftrightarrow> (\<forall>c\<in>set s. clean_char c) \<and> single_spaced s"

lemma ends_with_space: "ends_with s [32] \<longleftrightarrow> s \<noteq> [] \<and> last s = 32"
  by (cases s rule: rev_cases) (auto simp: ends_with_iff)

lemma single_spaced_snoc:
  "single_spaced (s @ [c]) \<longleftrightarrow> single_spaced s \<and> \<not> (s \<noteq> [] \<and> last s = 32 \<and> c = 32)"
  by (induction s rule: single_spaced.induct) auto

lemma normal_form_snoc:
  "in_normal_form (s @ [c]) \<longleftrightarrow>
     in_normal_form s \<and> clean_char c \<and> \<not> (ends_with s [32] \<and> c = 32)"
  by (auto simp: in_normal_form_def single_spaced_snoc ends_with_space)

lemma normal_form_Nil [simp]: "in_normal_form []"
  by (simp add: in_normal_form_def)

lemma space_facts [simp]: "is_whitespace 32" "\<not> is_control 32"
  by (simp_all add: is_whitespace_def is_control_def)

lemma normalize_from_normal_form:
  "in_normal_form out \<Longrightarrow> in_normal_form (normalize_from m out s)"
  by (induction m out s rule: normalize_from.induct)
     (simp_all add: normal_form_snoc clean_char_def, metis space_facts(1))

lemma clean_char_control: "clean_char c \<Longrightarrow> c \<noteq> 32 \<Longrightarrow> c \<noteq> 27 \<and> \<not> is_whitespace c \<and> \<not> is_control c"
  by (auto simp: clean_char_def is_control_def)

lemma normalize_from_id: "in_normal_form (out @ s) \<Longrightarrow> normalize_from Plain out s = out @ s"
proof (induction s arbitrary: out)
  case (Cons c s)
  have nf: "in_normal_form ((out @ [c]) @ s)" using Cons.prems by simp
  have snoc: "in_normal_form (out @ [c])"
    using nf unfolding in_normal_form_def
    by (induction s rule: rev_induct) (auto simp: single_spaced_snoc simp flip: append_assoc)
  then have c: "clean_char c" "\<not> (ends_with out [32] \<and> c = 32)"
    by (auto simp: normal_form_snoc)
  have "normalize_from Plain out (c # s) = normalize_from Plain (out @ [c]) s"
    using c clean_char_control [OF c(1)] by (cases "c = 32") auto
  then show ?case using Cons.IH [OF nf] by simp
qed simp

lemma normalized: "in_normal_form (normalize_tui_output s)"
  by (simp add: normalize_tui_output_def normalize_from_normal_form)

lemma normalize_normal_form: "in_normal_form s \<Longrightarrow> normalize_tui_output s = s"
  by (simp add: normalize_tui_output_def normalize_from_id)

lemma squash_normal_form: "in_normal_form s \<Longrightarrow> c \<in> set (squash s) \<Longrightarrow> \<not> is_whitespace c \<and> \<not> is_control c"
  by (auto simp: in_normal_form_def squash_def clean_char_def)


lemma fragment_shape:
  "length (if FRAGMENT_CHARS < length (squash (normalize_tui_output s))
           then take FRAGMENT_CHARS (squash (normalize_tui_output s))
           else squash (normalize_tui_output s)) \<le> FRAGMENT_CHARS \<and>
   list_all (\<lambda>c. \<not> is_whitespace c \<and> \<not> is_control c)
     (if FRAGMENT_CHARS < length (squash (normalize_tui_output s))
      then take FRAGMENT_CHARS (squash (normalize_tui_output s))
      else squash (normalize_tui_output s))"
  using squash_normal_form [OF normalized [of s]]
  by (auto simp: list_all_iff dest: in_set_takeD)

lemma task_fragment_shape:
  "length (task_fragment t) \<le> FRAGMENT_CHARS \<and>
   list_all (\<lambda>c. \<not> is_whitespace c \<and> \<not> is_control c) (task_fragment t)"
  unfolding task_fragment_def Let_def by (rule fragment_shape)

lemma task_tail_fragment_shape:
  "length (task_tail_fragment t) \<le> FRAGMENT_CHARS \<and>
   list_all (\<lambda>c. \<not> is_whitespace c \<and> \<not> is_control c) (task_tail_fragment t)"
  unfolding task_tail_fragment_def Let_def by (rule fragment_shape)

text \<open>
  Reading the terminal is one pass to a normal form.  \<open>normalize_tui_output\<close> leaves no
  control character, no escape sequence and no run of white space in any output, whatever
  sequences were cut off in the middle, a second pass changes nothing, and the
  snippets of a task whose reappearance proves its echo are at most 24 characters of
  which none is white space or a control character, so no re-wrapping can break them.
\<close>

theorem normal_form_in_one_pass:
  "in_normal_form (normalize_tui_output raw) \<and>
   normalize_tui_output (normalize_tui_output raw) = normalize_tui_output raw \<and>
   length (task_fragment task) \<le> FRAGMENT_CHARS \<and>
   list_all (\<lambda>c. \<not> is_whitespace c \<and> \<not> is_control c) (task_fragment task) \<and>
   length (task_tail_fragment task) \<le> FRAGMENT_CHARS \<and>
   list_all (\<lambda>c. \<not> is_whitespace c \<and> \<not> is_control c) (task_tail_fragment task)"
  using normalized normalize_normal_form task_fragment_shape task_tail_fragment_shape by blast

end
