(* ===== verification/Submit_Guard.thy ===== *)
theory Submit_Guard
  imports Dialog_Text
begin

text \<open>
  The state machine of \<open>submit_guard.rs\<close> that types a task into a terminal program:
  when to write it, when to press Enter, when to answer a dialog and when to give up.
  \<open>tick\<close> is a function from a guard and an observation to the guard it leaves and the
  effect it asks for.  An \<open>Instant\<close> is a number of milliseconds.  The properties are over
  every sequence of observations from a new guard: what it may type and in which order,
  how long it may wait, and what its flags mean at every point.
\<close>

section \<open>Instants and limits\<close>

type_synonym instant = int

text \<open>\<open>saturating_duration_since\<close>.\<close>

definition since :: "instant \<Rightarrow> instant \<Rightarrow> int" where
  "since now past = (if now < past then 0 else now - past)"

definition READY_IDLE_AFTER :: int where "READY_IDLE_AFTER = 3000"
definition READY_MAX_WAIT :: int where "READY_MAX_WAIT = 30000"
definition ECHO_WINDOW :: int where "ECHO_WINDOW = 8000"
definition ECHO_PER_BYTE :: int where "ECHO_PER_BYTE = 15"
definition ECHO_WINDOW_CAP :: int where "ECHO_WINDOW_CAP = 60000"
definition ECHO_BUSY_CAP :: int where "ECHO_BUSY_CAP = 120000"
definition MARKER_BUSY_CAP :: int where "MARKER_BUSY_CAP = 120000"
definition ANSWER_MARKER_CAP :: int where "ANSWER_MARKER_CAP = 600000"
definition MAX_WRITES :: u8 where "MAX_WRITES = 3"
definition ENTER_SETTLE :: int where "ENTER_SETTLE = 1000"
definition ENTER_SETTLE_CAP :: int where "ENTER_SETTLE_CAP = 5000"
definition RETRY_BACKOFF :: "int list" where "RETRY_BACKOFF = [15000, 30000, 60000]"
definition DIALOG_COOLDOWN :: int where "DIALOG_COOLDOWN = 2000"
definition MAX_DIALOG_ANSWERS :: u8 where "MAX_DIALOG_ANSWERS = 3"

lemmas limits =
  READY_IDLE_AFTER_def READY_MAX_WAIT_def ECHO_WINDOW_def ECHO_PER_BYTE_def ECHO_WINDOW_CAP_def
  ECHO_BUSY_CAP_def MARKER_BUSY_CAP_def ANSWER_MARKER_CAP_def MAX_WRITES_def ENTER_SETTLE_def
  ENTER_SETTLE_CAP_def RETRY_BACKOFF_def DIALOG_COOLDOWN_def MAX_DIALOG_ANSWERS_def

definition echo_window_for :: "ustr \<Rightarrow> int" where
  "echo_window_for task =
     (let bytes = (if int (byte_len task) < 4294967296 then int (byte_len task) else 4294967295)
      in max ECHO_WINDOW (min ECHO_WINDOW_CAP (ECHO_PER_BYTE * bytes)))"

section \<open>Observations, states and effects\<close>

record observation =
  now :: instant
  output_bytes :: u64
  last_output :: "instant option"
  screen_tail :: ustr
  tail_since_write :: ustr
  write_window_overflowed :: bool

datatype escalation_reason =
  StartupDialog blocking_dialog
| EchoNeverSeen
| ReadinessMarkerNeverSeen
| AnswerMarkerNeverSeen
| EnterUnanswered

datatype state_data =
  IdleWatching (first_output: "instant option") (latest_output: "instant option")
| AwaitingEcho (wrote_at: instant) (writes: u8) (deadline: instant)
    (bytes_at_write: u64) (echo_last_bytes: u64)
| AwaitingEnter (echo_at: instant)
| AwaitingWork (entered_at: instant) (sent_at: instant) (attempt: u8)
    (bytes_at_enter: u64) (work_last_bytes: u64)
| Delivered
| Escalated escalation_reason

datatype submit_action =
  WriteTask u8
| SendEnter u8
| AnswerDialog blocking_dialog
| ConfirmDelivery
| Escalate

record submit_guard =
  started_at :: instant
  fragment :: ustr
  tail_fragment :: ustr
  task_echo :: ustr
  readiness_marker :: ustr
  answer_marker :: ustr
  echo_window :: int
  guard_state :: state_data
  confirmed :: bool
  input_pending :: bool
  dialog_answers :: u8
  last_dialog_answer :: "instant option"
  dialog_dismissed :: bool

type_synonym ticked = "submit_guard \<times> submit_action option"

definition new_guard :: "instant \<Rightarrow> ustr \<Rightarrow> submit_guard" where
  "new_guard started task =
     \<lparr> started_at = started,
       fragment = task_fragment task,
       tail_fragment = task_tail_fragment task,
       task_echo = squash (normalize_tui_output task),
       readiness_marker = [],
       answer_marker = [],
       echo_window = echo_window_for task,
       guard_state = IdleWatching None None,
       confirmed = False,
       input_pending = False,
       dialog_answers = 0,
       last_dialog_answer = None,
       dialog_dismissed = False \<rparr>"

definition with_readiness_marker :: "ustr \<Rightarrow> submit_guard \<Rightarrow> submit_guard" where
  "with_readiness_marker marker g = g\<lparr>readiness_marker := squash (normalize_tui_output marker)\<rparr>"

definition with_answer_marker :: "ustr \<Rightarrow> submit_guard \<Rightarrow> submit_guard" where
  "with_answer_marker marker g = g\<lparr>answer_marker := squash (normalize_tui_output marker)\<rparr>"

definition is_delivered :: "submit_guard \<Rightarrow> bool" where
  "is_delivered g \<longleftrightarrow> guard_state g = Delivered"

definition is_confirmed :: "submit_guard \<Rightarrow> bool" where
  "is_confirmed g \<longleftrightarrow> confirmed g"

definition escalation_reason_of :: "submit_guard \<Rightarrow> escalation_reason option" where
  "escalation_reason_of g = (case guard_state g of Escalated r \<Rightarrow> Some r | _ \<Rightarrow> None)"

fun final :: "state_data \<Rightarrow> bool" where
  "final Delivered \<longleftrightarrow> True"
| "final (Escalated _) \<longleftrightarrow> True"
| "final _ \<longleftrightarrow> False"

definition is_done :: "submit_guard \<Rightarrow> bool" where
  "is_done g \<longleftrightarrow> final (guard_state g)"

definition escalate :: "submit_guard \<Rightarrow> escalation_reason \<Rightarrow> ticked" where
  "escalate g reason = (g\<lparr>guard_state := Escalated reason\<rparr>, Some Escalate)"

section \<open>Dialogs and the echo\<close>

definition dialog_tail :: "submit_guard \<Rightarrow> observation \<Rightarrow> ustr" where
  "dialog_tail g obs =
     (case guard_state g of
        AwaitingEcho _ _ _ _ _ \<Rightarrow> tail_since_write obs
      | AwaitingEnter _ \<Rightarrow> tail_since_write obs
      | AwaitingWork _ _ _ _ _ \<Rightarrow> tail_since_write obs
      | _ \<Rightarrow> if dialog_dismissed g \<and> squash (tail_since_write obs) \<noteq> []
             then tail_since_write obs
             else screen_tail obs)"

definition dialog_action :: "submit_guard \<Rightarrow> observation \<Rightarrow> ticked" where
  "dialog_action g obs =
     (case opt_filter (\<lambda>d. \<not> requires_user d) (detect_blocking_dialog (dialog_tail g obs)) of
        None \<Rightarrow> (g, None)
      | Some kind \<Rightarrow>
          if MAX_DIALOG_ANSWERS \<le> dialog_answers g then (g, None)
          else if (case last_dialog_answer g of
                     None \<Rightarrow> False | Some at \<Rightarrow> since (now obs) at < DIALOG_COOLDOWN)
          then (g, None)
          else (g\<lparr>dialog_answers := dialog_answers g + 1,
                  last_dialog_answer := Some (now obs),
                  dialog_dismissed := dialog_dismissed g \<or> dismisses kind\<rparr>,
                Some (AnswerDialog kind)))"

definition echo_seen :: "submit_guard \<Rightarrow> observation \<Rightarrow> u64 \<Rightarrow> bool" where
  "echo_seen g obs at_write =
     (if fragment g = []
      then answer_marker g = [] \<or> str_contains (squash (tail_since_write obs)) (answer_marker g)
      else if output_bytes obs \<le> at_write then False
      else if write_window_overflowed obs then True
      else let slice = squash (tail_since_write obs) in
           str_contains slice (fragment g) \<or>
           tail_fragment g \<noteq> [] \<and> str_contains slice (tail_fragment g))"

section \<open>The start-up modal check\<close>

definition after_readiness :: "submit_guard \<Rightarrow> ustr \<Rightarrow> ustr" where
  "after_readiness g s =
     (if readiness_marker g = [] then s else after_last (readiness_marker g) s)"

fun idle_watching :: "state_data \<Rightarrow> bool" where
  "idle_watching (IdleWatching _ _) \<longleftrightarrow> True"
| "idle_watching _ \<longleftrightarrow> False"

fun awaiting_echo :: "state_data \<Rightarrow> bool" where
  "awaiting_echo (AwaitingEcho _ _ _ _ _) \<longleftrightarrow> True"
| "awaiting_echo _ \<longleftrightarrow> False"

fun awaiting_work :: "state_data \<Rightarrow> bool" where
  "awaiting_work (AwaitingWork _ _ _ _ _) \<longleftrightarrow> True"
| "awaiting_work _ \<longleftrightarrow> False"

text \<open>The tail with every complete echo of the task cut out, where that is safe.\<close>

definition without_echo :: "submit_guard \<Rightarrow> observation \<Rightarrow> ustr \<Rightarrow> ustr" where
  "without_echo g obs tail =
     (let echo = task_echo g;
          contained =
            list_all (\<lambda>(start, end', _).
                list_ex (\<lambda>e. e \<le> start \<and> end' \<le> e + length echo) (match_indices tail echo))
              (startup_dialog_spans tail)
      in if \<not> idle_watching (guard_state g) \<and> contained \<and> \<not> write_window_overflowed obs \<and>
            int (byte_len echo) \<le> ECHO_SCAN_CHARS \<and> length (take 24 echo) = 24
         then str_replace echo (lit ''|'') tail
         else tail)"

text \<open>The heading that stands last in a lower-cased window.\<close>

definition last_heading :: "ustr \<Rightarrow> blocking_dialog option" where
  "last_heading lower =
     map_option snd
       (max_by_key fst
          (List.map_filter (\<lambda>(title, kind). map_option (\<lambda>p. (p, kind)) (str_rfind title lower))
             [(lit ''updateavailable'', CodexUpdateAvailable),
              (lit ''hooksneedreview'', CodexHooksReview)]))"

definition later_trust :: "submit_guard \<Rightarrow> observation \<Rightarrow> bool" where
  "later_trust g obs =
     (let window = last_chars (dialog_tail g obs) DIALOG_WINDOW_CHARS;
          headings = startup_dialog_spans (squash window)
      in case blocking_dialog_position window of
           None \<Rightarrow> False
         | Some (p, dialog) \<Rightarrow>
             \<not> requires_user dialog \<and> list_all (\<lambda>(_, end', _). end' \<le> p) headings)"

text \<open>A bare heading: a live partial panel, waited for and then escalated.\<close>

definition partial_panel :: "submit_guard \<Rightarrow> observation \<Rightarrow> ustr \<Rightarrow> ticked option" where
  "partial_panel g obs visible =
     (let fresh = last_chars (squash (last_chars (tail_since_write obs) ECHO_SCAN_CHARS))
                    DIALOG_WINDOW_CHARS;
          partial = (if idle_watching (guard_state g) \<and> \<not> write_window_overflowed obs
                     then after_readiness g fresh else visible)
      in case last_heading (to_ascii_lowercase partial) of
           None \<Rightarrow> None
         | Some kind \<Rightarrow>
             let (g', answer) =
                   (if idle_watching (guard_state g) \<and> later_trust g obs
                    then dialog_action g obs else (g, None))
             in case answer of
                  Some a \<Rightarrow> Some (g', Some a)
                | None \<Rightarrow>
                    Some (if MARKER_BUSY_CAP \<le> since (now obs) (started_at g')
                          then escalate g' (StartupDialog kind) else (g', None)))"

text \<open>\<open>Some\<close> is an early return of \<open>step\<close>, \<open>None\<close> lets it go on.\<close>

definition startup_check :: "submit_guard \<Rightarrow> observation \<Rightarrow> ticked option" where
  "startup_check g obs =
     (if awaiting_work (guard_state g) then None
      else
        let tail = squash (last_chars (dialog_tail g obs) ECHO_SCAN_CHARS) in
        case find_map (\<lambda>(_, _, dialog). dialog)
               (rev (startup_dialog_spans (after_readiness g tail))) of
          Some dialog \<Rightarrow> Some (escalate g (StartupDialog dialog))
        | None \<Rightarrow>
            let visible = after_readiness g (last_chars (without_echo g obs tail) DIALOG_WINDOW_CHARS)
            in case opt_filter requires_user (detect_blocking_dialog visible) of
                 Some dialog \<Rightarrow> Some (escalate g (StartupDialog dialog))
               | None \<Rightarrow> partial_panel g obs visible)"

section \<open>The arms of the machine\<close>

definition see_echo :: "submit_guard \<Rightarrow> observation \<Rightarrow> submit_guard" where
  "see_echo g obs =
     (case guard_state g of
        AwaitingEcho _ _ _ at_write _ \<Rightarrow>
          if echo_seen g obs at_write
          then g\<lparr>guard_state := AwaitingEnter (now obs)\<rparr> else g
      | _ \<Rightarrow> g)"

definition step_enter :: "submit_guard \<Rightarrow> observation \<Rightarrow> instant \<Rightarrow> ticked" where
  "step_enter g obs echoed =
     (let quiet = (case last_output obs of
                     None \<Rightarrow> True | Some l \<Rightarrow> ENTER_SETTLE \<le> since (now obs) l);
          capped = ENTER_SETTLE_CAP \<le> since (now obs) echoed
      in if \<not> (quiet \<or> capped) then (g, None)
         else (g\<lparr>guard_state := AwaitingWork (now obs) (now obs) 0 (output_bytes obs) (output_bytes obs)\<rparr>,
               Some (SendEnter 0)))"

definition idle_for :: "observation \<Rightarrow> instant option \<Rightarrow> bool" where
  "idle_for obs l = (case l of None \<Rightarrow> False | Some at \<Rightarrow> READY_IDLE_AFTER \<le> since (now obs) at)"

definition marker_seen :: "submit_guard \<Rightarrow> observation \<Rightarrow> bool" where
  "marker_seen g obs \<longleftrightarrow>
     readiness_marker g \<noteq> [] \<and> str_contains (squash (tail_since_write obs)) (readiness_marker g)"

definition marker_idle_on_screen :: "submit_guard \<Rightarrow> observation \<Rightarrow> instant option \<Rightarrow> bool" where
  "marker_idle_on_screen g obs l \<longleftrightarrow>
     readiness_marker g \<noteq> [] \<and> idle_for obs l \<and>
     str_contains (squash (last_chars (screen_tail obs) MARKER_SCREEN_CHARS)) (readiness_marker g)"

definition write_first :: "submit_guard \<Rightarrow> observation \<Rightarrow> ticked" where
  "write_first g obs =
     (g\<lparr>guard_state := AwaitingEcho (now obs) 1 (now obs + echo_window g)
                        (output_bytes obs) (output_bytes obs)\<rparr>,
      Some (WriteTask 1))"

definition settled :: "observation \<Rightarrow> instant option \<Rightarrow> instant option \<Rightarrow> bool" where
  "settled obs f l \<longleftrightarrow> f \<noteq> None \<and> squash (screen_tail obs) \<noteq> [] \<and> idle_for obs l"

definition step_idle ::
    "submit_guard \<Rightarrow> observation \<Rightarrow> instant option \<Rightarrow> instant option \<Rightarrow> ticked" where
  "step_idle g obs f0 l0 =
     (let f = (case f0 of None \<Rightarrow> last_output obs | Some _ \<Rightarrow> f0);
          l = (case last_output obs of None \<Rightarrow> l0 | Some _ \<Rightarrow> last_output obs);
          g = g\<lparr>guard_state := IdleWatching f l\<rparr>
      in if readiness_marker g = []
         then if \<not> (settled obs f l \<or> READY_MAX_WAIT \<le> since (now obs) (started_at g))
              then (g, None)
              else write_first g obs
         else if \<not> marker_seen g obs \<and> \<not> marker_idle_on_screen g obs l
         then let busy_cap_reached = MARKER_BUSY_CAP \<le> since (now obs) (started_at g);
                  quiet_at_deadline =
                    (case l of None \<Rightarrow> True | Some at \<Rightarrow> READY_IDLE_AFTER \<le> since (now obs) at) \<and>
                    READY_MAX_WAIT \<le> since (now obs) (started_at g)
              in if busy_cap_reached \<or> quiet_at_deadline
                 then escalate g ReadinessMarkerNeverSeen
                 else (g, None)
         else write_first g obs)"

definition step_echo ::
    "submit_guard \<Rightarrow> observation \<Rightarrow> instant \<Rightarrow> u8 \<Rightarrow> instant \<Rightarrow> u64 \<Rightarrow> u64 \<Rightarrow> ticked" where
  "step_echo g obs wrote w due at_write last_bytes =
     (if last_bytes < output_bytes obs
      then if ECHO_BUSY_CAP \<le> since (now obs) wrote then escalate g EchoNeverSeen
           else (g\<lparr>guard_state := AwaitingEcho wrote w
                                   (min (now obs + echo_window g) (wrote + ECHO_BUSY_CAP))
                                   at_write (output_bytes obs)\<rparr>, None)
      else if now obs < due then (g, None)
      else if MAX_WRITES \<le> w then escalate g EchoNeverSeen
      else (g\<lparr>guard_state := AwaitingEcho (now obs) (w + 1) (now obs + echo_window g)
                              (output_bytes obs) (output_bytes obs)\<rparr>,
            Some (WriteTask (w + 1))))"

definition retry_wait :: "u8 \<Rightarrow> int" where
  "retry_wait a = RETRY_BACKOFF ! min (unat a) (length RETRY_BACKOFF - 1)"

definition retry_enter ::
    "submit_guard \<Rightarrow> observation \<Rightarrow> instant \<Rightarrow> instant \<Rightarrow> u8 \<Rightarrow> u64 \<Rightarrow> u64 \<Rightarrow> ticked" where
  "retry_enter g obs entered sent a at_enter last_bytes =
     (if since (now obs) sent < retry_wait a then (g, None)
      else if unat a = length RETRY_BACKOFF
      then escalate g (if answer_marker g = [] then EnterUnanswered else AnswerMarkerNeverSeen)
      else (g\<lparr>guard_state := AwaitingWork entered (now obs) (a + 1) at_enter last_bytes\<rparr>,
            Some (SendEnter (a + 1))))"

definition step_work ::
    "submit_guard \<Rightarrow> observation \<Rightarrow> instant \<Rightarrow> instant \<Rightarrow> u8 \<Rightarrow> u64 \<Rightarrow> u64 \<Rightarrow> ticked" where
  "step_work g obs entered sent a at_enter last_bytes =
     (if answer_marker g = []
      then if at_enter < output_bytes obs then (g\<lparr>guard_state := Delivered\<rparr>, None)
           else retry_enter g obs entered sent a at_enter last_bytes
      else if str_contains (squash (tail_since_write obs)) (answer_marker g)
      then (g\<lparr>confirmed := True, guard_state := Delivered\<rparr>, Some ConfirmDelivery)
      else if ANSWER_MARKER_CAP \<le> since (now obs) entered
      then escalate g AnswerMarkerNeverSeen
      else if last_bytes < output_bytes obs
      then (g\<lparr>guard_state := AwaitingWork entered (now obs) a at_enter (output_bytes obs)\<rparr>, None)
      else retry_enter g obs entered sent a at_enter last_bytes)"

definition step_arms :: "submit_guard \<Rightarrow> observation \<Rightarrow> ticked" where
  "step_arms g obs =
     (case guard_state g of
        IdleWatching f l \<Rightarrow> step_idle g obs f l
      | AwaitingEcho wrote w due at_write last_bytes \<Rightarrow>
          step_echo g obs wrote w due at_write last_bytes
      | AwaitingWork entered sent a at_enter last_bytes \<Rightarrow>
          step_work g obs entered sent a at_enter last_bytes
      | _ \<Rightarrow> (g, None))"

text \<open>The rest of \<open>step\<close> after the start-up check: the echo, the Enter, the dialogs, the arms.\<close>

definition step_on :: "submit_guard \<Rightarrow> observation \<Rightarrow> ticked" where
  "step_on g0 obs =
     (let g = see_echo g0 obs in
      case guard_state g of
        AwaitingEnter echoed \<Rightarrow> step_enter g obs echoed
      | _ \<Rightarrow>
          let (g', answer) =
                (if idle_watching (guard_state g) \<or> awaiting_echo (guard_state g)
                 then dialog_action g obs else (g, None))
          in case answer of
               Some a \<Rightarrow> (g', Some a)
             | None \<Rightarrow> step_arms g' obs)"

definition step :: "submit_guard \<Rightarrow> observation \<Rightarrow> ticked" where
  "step g obs =
     (if is_done g then (g, None)
      else case startup_check g obs of
             Some r \<Rightarrow> r
           | None \<Rightarrow> step_on g obs)"

fun writes_task :: "submit_action option \<Rightarrow> bool" where
  "writes_task (Some (WriteTask _)) \<longleftrightarrow> True"
| "writes_task _ \<longleftrightarrow> False"

definition tick :: "submit_guard \<Rightarrow> observation \<Rightarrow> ticked" where
  "tick g obs =
     (let (g, action) = step g obs;
          g = (if writes_task action then g\<lparr>input_pending := True\<rparr> else g);
          g = (if is_delivered g then g\<lparr>input_pending := False\<rparr> else g)
      in (g, action))"

section \<open>The delivery protocol\<close>

text \<open>
  What a delivery looks like from outside: the phases and the effects that lead from one to
  the next.  The task is typed at most three times, Enter comes after the echo and is repeated at
  most three times, and a dialog is answered only before the echo.
\<close>

datatype phase = Watching | Typed nat | Settling | Entered nat | Taken | GivenUp

inductive protocol :: "phase \<Rightarrow> submit_action option \<Rightarrow> phase \<Rightarrow> bool" where
  stay: "protocol p None p"
| answer: "p = Watching \<or> p = Typed n \<Longrightarrow> \<not> requires_user d \<Longrightarrow> protocol p (Some (AnswerDialog d)) p"
| first_write: "protocol Watching (Some (WriteTask 1)) (Typed 1)"
| rewrite: "n < 3 \<Longrightarrow> protocol (Typed n) (Some (WriteTask (of_nat (Suc n)))) (Typed (Suc n))"
| echo: "protocol (Typed n) None Settling"
| echo_enter: "protocol (Typed n) (Some (SendEnter 0)) (Entered 0)"
| enter: "protocol Settling (Some (SendEnter 0)) (Entered 0)"
| retry: "n < 3 \<Longrightarrow> protocol (Entered n) (Some (SendEnter (of_nat (Suc n)))) (Entered (Suc n))"
| taken: "protocol (Entered n) None Taken"
| confirm: "protocol (Entered n) (Some ConfirmDelivery) Taken"
| give_up: "p \<noteq> Taken \<Longrightarrow> p \<noteq> GivenUp \<Longrightarrow> protocol p (Some Escalate) GivenUp"

inductive_cases protocol_TakenE: "protocol Taken a p"
inductive_cases protocol_GivenUpE: "protocol GivenUp a p"

fun phase_of :: "state_data \<Rightarrow> phase" where
  "phase_of (IdleWatching _ _) = Watching"
| "phase_of (AwaitingEcho _ w _ _ _) = Typed (unat w)"
| "phase_of (AwaitingEnter _) = Settling"
| "phase_of (AwaitingWork _ _ a _ _) = Entered (unat a)"
| "phase_of Delivered = Taken"
| "phase_of (Escalated _) = GivenUp"

abbreviation phase :: "submit_guard \<Rightarrow> phase" where
  "phase g \<equiv> phase_of (guard_state g)"

lemma final_phase: "final s \<longleftrightarrow> phase_of s = Taken \<or> phase_of s = GivenUp"
  by (cases s) auto

text \<open>The invariant: the counters are in their range, the deadline is within the busy cap.\<close>

fun state_ok :: "state_data \<Rightarrow> bool" where
  "state_ok (AwaitingEcho wrote w due _ _) \<longleftrightarrow> 1 \<le> unat w \<and> unat w \<le> 3 \<and> due \<le> wrote + ECHO_BUSY_CAP"
| "state_ok (AwaitingWork _ _ a _ _) \<longleftrightarrow> unat a \<le> 3"
| "state_ok _ \<longleftrightarrow> True"

definition guard_ok :: "submit_guard \<Rightarrow> bool" where
  "guard_ok g \<longleftrightarrow>
     state_ok (guard_state g) \<and> unat (dialog_answers g) \<le> 3 \<and> echo_window g \<le> ECHO_WINDOW_CAP"

lemma u8_inc [arith_bounds]: "unat (w :: u8) < 3 \<Longrightarrow> unat (w + 1) = Suc (unat w)"
  by (simp add: unat_plus_if')

lemma u8_inc' [arith_bounds]: "unat (w :: u8) < 3 \<Longrightarrow> unat (1 + w) = Suc (unat w)"
  by (subst add.commute) (rule u8_inc)

lemma MAX_WRITES_unat: "MAX_WRITES \<le> w \<longleftrightarrow> 3 \<le> unat w"
  by (simp add: MAX_WRITES_def word_le_nat_alt)

lemma MAX_DIALOG_ANSWERS_unat: "MAX_DIALOG_ANSWERS \<le> w \<longleftrightarrow> 3 \<le> unat w"
  by (simp add: MAX_DIALOG_ANSWERS_def word_le_nat_alt)

lemma RETRY_BACKOFF_length [simp]: "length RETRY_BACKOFF = 3"
  by (simp add: RETRY_BACKOFF_def)

lemma echo_window_bound: "echo_window_for task \<le> ECHO_WINDOW_CAP"
  by (simp add: echo_window_for_def limits Let_def)

subsection \<open>What each part of a step does\<close>

text \<open>
  \<open>lawful g r\<close>: from the guard \<open>g\<close> the result \<open>r\<close> is a step of the protocol, keeps the invariant
  and the configuration, confirms exactly with \<open>ConfirmDelivery\<close>, counts its answers to
  dialogs and delivers without the answer marker exactly when none is configured.
\<close>

definition same_config :: "submit_guard \<Rightarrow> submit_guard \<Rightarrow> bool" where
  "same_config g g' \<longleftrightarrow>
     started_at g' = started_at g \<and> answer_marker g' = answer_marker g \<and>
     echo_window g' = echo_window g \<and> input_pending g' = input_pending g"

fun answers :: "submit_action option \<Rightarrow> bool" where
  "answers (Some (AnswerDialog _)) \<longleftrightarrow> True"
| "answers _ \<longleftrightarrow> False"

definition lawful :: "submit_guard \<Rightarrow> ticked \<Rightarrow> bool" where
  "lawful g r \<longleftrightarrow>
     protocol (phase g) (snd r) (phase (fst r)) \<and> guard_ok (fst r) \<and> same_config g (fst r) \<and>
     confirmed (fst r) = (confirmed g \<or> snd r = Some ConfirmDelivery) \<and>
     unat (dialog_answers (fst r)) = unat (dialog_answers g) + (if answers (snd r) then 1 else 0) \<and>
     (phase (fst r) = Taken \<longrightarrow>
        phase g = Taken \<or> (snd r = Some ConfirmDelivery \<longleftrightarrow> answer_marker g \<noteq> []))"

lemma same_config_refl [simp]: "same_config g g"
  by (simp add: same_config_def)

lemma lawful_stay: "guard_ok g \<Longrightarrow> lawful g (g, None)"
  by (simp add: lawful_def protocol.stay)

lemma lawful_escalate: "guard_ok g \<Longrightarrow> \<not> is_done g \<Longrightarrow> lawful g (escalate g r)"
  by (auto simp: lawful_def escalate_def guard_ok_def same_config_def is_done_def final_phase
      intro: protocol.give_up)

definition answered :: "submit_guard \<Rightarrow> observation \<Rightarrow> blocking_dialog \<Rightarrow> submit_guard" where
  "answered g obs d =
     g\<lparr>dialog_answers := dialog_answers g + 1, last_dialog_answer := Some (now obs),
       dialog_dismissed := dialog_dismissed g \<or> dismisses d\<rparr>"

lemma dialog_action_shape:
  "dialog_action g obs = (g, None) \<or>
   (\<exists>d. dialog_action g obs = (answered g obs d, Some (AnswerDialog d)) \<and>
        \<not> requires_user d \<and> unat (dialog_answers g) < 3)"
  unfolding dialog_action_def MAX_DIALOG_ANSWERS_unat answered_def [symmetric]
  by (auto split: option.splits)

lemma dialog_action_cases:
  obtains (none) "dialog_action g obs = (g, None)"
  | (answered) d where "dialog_action g obs = (answered g obs d, Some (AnswerDialog d))"
      "\<not> requires_user d" "unat (dialog_answers g) < 3"
  using dialog_action_shape [of g obs] by blast

lemma lawful_dialog:
  assumes "guard_ok g" "idle_watching (guard_state g) \<or> awaiting_echo (guard_state g)"
  shows "lawful g (dialog_action g obs)"
proof (cases rule: dialog_action_cases [of g obs])
  case none
  with assms show ?thesis by (simp add: lawful_stay)
next
  case (answered d)
  have "phase g = Watching \<or> (\<exists>n. phase g = Typed n)"
    using assms(2) by (cases "guard_state g") auto
  with answered assms show ?thesis
    by (auto simp: lawful_def guard_ok_def same_config_def answered_def u8_inc intro: protocol.answer)
qed

lemma lawful_partial:
  assumes "guard_ok g" "\<not> is_done g" "partial_panel g obs visible = Some r"
  shows "lawful g r"
proof (cases "idle_watching (guard_state g) \<and> later_trust g obs")
  case True
  with assms lawful_dialog [of g obs] lawful_stay [of g] lawful_escalate [of g] show ?thesis
    by (cases rule: dialog_action_cases [of g obs])
       (auto simp: partial_panel_def Let_def split: option.splits if_splits)
next
  case False
  with assms lawful_stay [of g] lawful_escalate [of g] show ?thesis
    by (auto simp: partial_panel_def Let_def split: option.splits if_splits)
qed

lemma lawful_startup:
  assumes "guard_ok g" "\<not> is_done g" "startup_check g obs = Some r"
  shows "lawful g r"
  using assms lawful_partial [of g obs] lawful_escalate [of g]
  by (auto simp: startup_check_def Let_def split: if_splits option.splits)


lemma lawful_idle:
  assumes ok: "guard_ok g" and st: "guard_state g = IdleWatching f0 l0"
  shows "lawful g (step_idle g obs f0 l0)"
proof -
  let ?f = "case f0 of None \<Rightarrow> last_output obs | Some _ \<Rightarrow> f0"
  let ?l = "case last_output obs of None \<Rightarrow> l0 | Some _ \<Rightarrow> last_output obs"
  let ?g = "g\<lparr>guard_state := IdleWatching ?f ?l\<rparr>"
  have stay: "lawful g (?g, None)"
    using ok st by (simp add: lawful_def guard_ok_def same_config_def protocol.stay)
  have esc: "lawful g (escalate ?g r)" for r
    using ok st
    by (simp add: lawful_def guard_ok_def same_config_def escalate_def protocol.give_up)
  have wr: "lawful g (write_first ?g obs)"
    using ok st
    by (simp add: lawful_def guard_ok_def same_config_def write_first_def protocol.first_write [simplified] limits)
  show ?thesis
    unfolding step_idle_def Let_def using stay esc wr by presburger
qed

lemma lawful_echo:
  assumes ok: "guard_ok g" and st: "guard_state g = AwaitingEcho wrote w due at_write last_bytes"
  shows "lawful g (step_echo g obs wrote w due at_write last_bytes)"
proof -
  have w: "1 \<le> unat w" "unat w \<le> 3" using ok st by (auto simp: guard_ok_def)
  have slide: "lawful g (g\<lparr>guard_state := AwaitingEcho wrote w
        (min (now obs + echo_window g) (wrote + ECHO_BUSY_CAP)) at_write (output_bytes obs)\<rparr>, None)"
    using ok st w by (simp add: lawful_def guard_ok_def same_config_def protocol.stay)
  have again: "lawful g (g\<lparr>guard_state := AwaitingEcho (now obs) (w + 1) (now obs + echo_window g)
        (output_bytes obs) (output_bytes obs)\<rparr>, Some (WriteTask (w + 1)))" if "\<not> MAX_WRITES \<le> w"
  proof -
    have "unat w < 3" using that by (simp add: MAX_WRITES_unat)
    then have "protocol (Typed (unat w)) (Some (WriteTask (w + 1))) (Typed (unat (w + 1)))"
      using protocol.rewrite [of "unat w"] by (simp add: u8_inc u8_inc' add.commute)
    then show ?thesis
      using ok st w \<open>unat w < 3\<close>
      by (simp add: lawful_def guard_ok_def same_config_def u8_inc limits)
  qed
  have nd: "\<not> is_done g" using st by (simp add: is_done_def)
  show ?thesis
    unfolding step_echo_def
    using slide again lawful_stay [OF ok] lawful_escalate [OF ok nd] by presburger
qed

lemma lawful_retry:
  assumes ok: "guard_ok g" and st: "guard_state g = AwaitingWork entered sent a at_enter last_bytes"
  shows "lawful g (retry_enter g obs entered sent a at_enter last_bytes)"
proof -
  have a: "unat a \<le> 3" using ok st by (auto simp: guard_ok_def)
  have again: "lawful g (g\<lparr>guard_state := AwaitingWork entered (now obs) (a + 1) at_enter last_bytes\<rparr>,
      Some (SendEnter (a + 1)))" if "unat a \<noteq> length RETRY_BACKOFF"
  proof -
    have "unat a < 3" using a that by simp
    then have "protocol (Entered (unat a)) (Some (SendEnter (a + 1))) (Entered (unat (a + 1)))"
      using protocol.retry [of "unat a"] by (simp add: u8_inc u8_inc' add.commute)
    then show ?thesis
      using ok st \<open>unat a < 3\<close> by (simp add: lawful_def guard_ok_def same_config_def u8_inc)
  qed
  have nd: "\<not> is_done g" using st by (simp add: is_done_def)
  show ?thesis
    unfolding retry_enter_def
    using again lawful_stay [OF ok] lawful_escalate [OF ok nd] by presburger
qed

lemma lawful_work:
  assumes ok: "guard_ok g" and st: "guard_state g = AwaitingWork entered sent a at_enter last_bytes"
  shows "lawful g (step_work g obs entered sent a at_enter last_bytes)"
proof -
  have took: "lawful g (g\<lparr>guard_state := Delivered\<rparr>, None)" if "answer_marker g = []"
    using ok st that by (simp add: lawful_def guard_ok_def same_config_def protocol.taken)
  have confirm: "lawful g (g\<lparr>confirmed := True, guard_state := Delivered\<rparr>, Some ConfirmDelivery)"
    if "answer_marker g \<noteq> []"
    using ok st that by (simp add: lawful_def guard_ok_def same_config_def protocol.confirm)
  have alive: "lawful g (g\<lparr>guard_state := AwaitingWork entered (now obs) a at_enter (output_bytes obs)\<rparr>, None)"
    using ok st by (simp add: lawful_def guard_ok_def same_config_def protocol.stay)
  have nd: "\<not> is_done g" using st by (simp add: is_done_def)
  show ?thesis
    unfolding step_work_def
    using took confirm alive lawful_retry [OF assms] lawful_escalate [OF ok nd] by presburger
qed

lemma lawful_arms:
  assumes "guard_ok g"
  shows "lawful g (step_arms g obs)"
  using assms lawful_idle lawful_echo lawful_work lawful_stay
  unfolding step_arms_def by (cases "guard_state g") auto

lemma see_echo_cases:
  obtains (same) "see_echo g obs = g"
  | (seen) wrote w due at_write last_bytes where
      "guard_state g = AwaitingEcho wrote w due at_write last_bytes" "echo_seen g obs at_write"
      "see_echo g obs = g\<lparr>guard_state := AwaitingEnter (now obs)\<rparr>"
proof (cases "see_echo g obs = g")
  case False
  then show ?thesis
    using seen by (cases "guard_state g") (auto simp: see_echo_def split: if_splits)
qed (rule same)

lemma lawful_enter:
  assumes ok: "guard_ok g" and st: "guard_state (see_echo g obs) = AwaitingEnter echoed"
  shows "lawful g (step_enter (see_echo g obs) obs echoed)"
  by (cases rule: see_echo_cases [of g obs])
     (use assms in \<open>auto simp: step_enter_def Let_def lawful_def guard_ok_def same_config_def
        intro: protocol.intros\<close>)

lemma lawful_on:
  assumes ok: "guard_ok g"
  shows "lawful g (step_on g obs)"
proof (cases "\<exists>e. guard_state (see_echo g obs) = AwaitingEnter e")
  case True
  then show ?thesis using lawful_enter [OF ok] by (auto simp: step_on_def)
next
  case False
  then have same: "see_echo g obs = g"
    by (cases rule: see_echo_cases [of g obs]) auto
  let ?d = "if idle_watching (guard_state g) \<or> awaiting_echo (guard_state g)
            then dialog_action g obs else (g, None)"
  have "step_on g obs = (case ?d of (g', Some a) \<Rightarrow> (g', Some a) | (g', None) \<Rightarrow> step_arms g' obs)"
    using False unfolding step_on_def same Let_def
    by (auto split: state_data.splits prod.splits option.splits)
  moreover have "lawful g ?d"
    using lawful_dialog [OF ok] lawful_stay [OF ok] by presburger
  moreover have "snd ?d = None \<Longrightarrow> ?d = (g, None)"
    by (cases rule: dialog_action_cases [of g obs]) auto
  ultimately show ?thesis
    using lawful_arms [OF ok] by (auto split: prod.splits option.splits)
qed

lemma lawful_step: "guard_ok g \<Longrightarrow> lawful g (step g obs)"
  using lawful_stay lawful_startup lawful_on by (auto simp: step_def split: option.splits)


section \<open>Runs\<close>

text \<open>The poll loop of the terminal layer: one tick for each snapshot, the effects in order.\<close>

definition after_tick :: "submit_guard \<Rightarrow> observation \<Rightarrow> submit_guard" where
  "after_tick g obs = fst (tick g obs)"

definition action_of :: "submit_guard \<Rightarrow> observation \<Rightarrow> submit_action list" where
  "action_of g obs = (case snd (tick g obs) of None \<Rightarrow> [] | Some a \<Rightarrow> [a])"

fun effects :: "submit_guard \<Rightarrow> observation list \<Rightarrow> submit_action list" where
  "effects g [] = []"
| "effects g (o1 # os) = action_of g o1 @ effects (after_tick g o1) os"

definition armed :: "instant \<Rightarrow> ustr \<Rightarrow> ustr \<Rightarrow> ustr \<Rightarrow> submit_guard" where
  "armed started task ready answer =
     with_answer_marker answer (with_readiness_marker ready (new_guard started task))"

lemma tick_parts:
  "snd (tick g obs) = snd (step g obs)"
  "guard_state (fst (tick g obs)) = guard_state (fst (step g obs))"
  "dialog_answers (fst (tick g obs)) = dialog_answers (fst (step g obs))"
  "started_at (fst (tick g obs)) = started_at (fst (step g obs))"
  "answer_marker (fst (tick g obs)) = answer_marker (fst (step g obs))"
  "echo_window (fst (tick g obs)) = echo_window (fst (step g obs))"
  "confirmed (fst (tick g obs)) = confirmed (fst (step g obs))"
  "input_pending (fst (tick g obs)) =
     (\<not> is_delivered (fst (step g obs)) \<and> (input_pending (fst (step g obs)) \<or> writes_task (snd (step g obs))))"
  by (simp_all add: tick_def Let_def is_delivered_def split: prod.splits)

lemma tick_lawful:
  assumes "guard_ok g"
  shows "protocol (phase g) (snd (tick g obs)) (phase (after_tick g obs))"
    and "guard_ok (after_tick g obs)"
    and "answer_marker (after_tick g obs) = answer_marker g"
    and "confirmed (after_tick g obs) = (confirmed g \<or> snd (tick g obs) = Some ConfirmDelivery)"
    and "unat (dialog_answers (after_tick g obs)) =
           unat (dialog_answers g) + (if answers (snd (tick g obs)) then 1 else 0)"
    and "phase (after_tick g obs) = Taken \<Longrightarrow>
           phase g = Taken \<or> (snd (tick g obs) = Some ConfirmDelivery \<longleftrightarrow> answer_marker g \<noteq> [])"
    and "input_pending (after_tick g obs) =
           (\<not> is_delivered (after_tick g obs) \<and> (input_pending g \<or> writes_task (snd (tick g obs))))"
  using lawful_step [OF assms, of obs]
  by (auto simp: after_tick_def lawful_def guard_ok_def same_config_def tick_parts is_delivered_def)

lemma armed_ok: "guard_ok (armed started task ready answer)"
  by (simp add: armed_def with_answer_marker_def with_readiness_marker_def new_guard_def guard_ok_def
      echo_window_bound)

lemma armed_start [simp]:
  "guard_state (armed started task ready answer) = IdleWatching None None"
  "\<not> confirmed (armed started task ready answer)"
  "\<not> input_pending (armed started task ready answer)"
  "dialog_answers (armed started task ready answer) = 0"
  "started_at (armed started task ready answer) = started"
  "answer_marker (armed started task ready answer) = squash (normalize_tui_output answer)"
  by (simp_all add: armed_def with_answer_marker_def with_readiness_marker_def new_guard_def)

lemma delivered_stays: "is_delivered g \<Longrightarrow> tick g obs = (g\<lparr>input_pending := False\<rparr>, None)"
  by (simp add: tick_def step_def is_done_def is_delivered_def)

lemma done_stays: "is_done g \<Longrightarrow> snd (tick g obs) = None \<and> guard_state (after_tick g obs) = guard_state g"
  by (simp add: after_tick_def tick_parts step_def)

text \<open>The guard is a machine whose being done is a latch.\<close>

interpretation guard: latched_machine after_tick guard_ok is_done
  by unfold_locales (use tick_lawful(2) done_stays in \<open>auto simp: is_done_def\<close>)

subsection \<open>What has been typed\<close>

fun is_answer :: "submit_action \<Rightarrow> bool" where
  "is_answer (AnswerDialog _) \<longleftrightarrow> True"
| "is_answer _ \<longleftrightarrow> False"

definition keys :: "nat \<Rightarrow> nat \<Rightarrow> submit_action list" where
  "keys w e = map (\<lambda>i. WriteTask (of_nat i)) [1..<Suc w] @ map (\<lambda>i. SendEnter (of_nat i)) [0..<e]"

lemma keys_more:
  "keys w 0 @ [WriteTask (of_nat (Suc w))] = keys (Suc w) 0"
  "keys w e @ [SendEnter (of_nat e)] = keys w (Suc e)"
  by (simp_all add: keys_def)

fun spelled :: "phase \<Rightarrow> submit_action list \<Rightarrow> bool" where
  "spelled Watching as \<longleftrightarrow> as = keys 0 0"
| "spelled (Typed n) as \<longleftrightarrow> 1 \<le> n \<and> n \<le> 3 \<and> as = keys n 0"
| "spelled Settling as \<longleftrightarrow> (\<exists>w. 1 \<le> w \<and> w \<le> 3 \<and> as = keys w 0)"
| "spelled (Entered n) as \<longleftrightarrow> n \<le> 3 \<and> (\<exists>w. 1 \<le> w \<and> w \<le> 3 \<and> as = keys w (Suc n))"
| "spelled Taken as \<longleftrightarrow>
     (\<exists>w e end'. 1 \<le> w \<and> w \<le> 3 \<and> 1 \<le> e \<and> e \<le> 4 \<and> as = keys w e @ end' \<and>
        (end' = [] \<or> end' = [ConfirmDelivery]))"
| "spelled GivenUp as \<longleftrightarrow>
     (\<exists>w e. w \<le> 3 \<and> e \<le> 4 \<and> (e = 0 \<or> 1 \<le> w) \<and> as = keys w e @ [Escalate])"

definition typed_keys :: "submit_action list \<Rightarrow> submit_action list" where
  "typed_keys as = filter (\<lambda>a. \<not> is_answer a) as"

lemma typed_keys_append [simp]: "typed_keys (as @ bs) = typed_keys as @ typed_keys bs"
  by (simp add: typed_keys_def)

lemma spelled_give_up:
  assumes "spelled p as" "p \<noteq> Taken" "p \<noteq> GivenUp"
  shows "spelled GivenUp (as @ [Escalate])"
proof -
  obtain w e where "w \<le> 3" "e \<le> 4" "e = 0 \<or> 1 \<le> w" "as = keys w e"
    using assms
  proof (cases p)
    case Watching
    with assms that [of 0 0] show ?thesis by simp
  next
    case (Typed n)
    with assms that [of n 0] show ?thesis by simp
  next
    case Settling
    with assms that [of _ 0] show ?thesis by auto
  next
    case (Entered n)
    with assms that [of _ "Suc n"] show ?thesis by auto
  qed simp_all
  then show ?thesis by auto
qed

lemma spelled_protocol:
  assumes "protocol p a p'" "spelled p as"
  shows "spelled p' (as @ typed_keys (case a of None \<Rightarrow> [] | Some x \<Rightarrow> [x]))"
  using assms
proof cases
  case first_write
  with assms(2) show ?thesis using keys_more(1) [of 0] by (simp add: typed_keys_def)
next
  case (rewrite n)
  with assms(2) show ?thesis using keys_more(1) [of n] by (simp add: typed_keys_def)
next
  case (echo_enter n)
  with assms(2) show ?thesis using keys_more(2) [of n 0] by (auto simp: typed_keys_def)
next
  case enter
  with assms(2) show ?thesis using keys_more(2) [of _ 0] by (auto simp: typed_keys_def)
next
  case (retry n)
  with assms(2) show ?thesis using keys_more(2) [of _ "Suc n"] by (auto simp: typed_keys_def)
next
  case (taken n)
  with assms(2) obtain w where "n \<le> 3" "1 \<le> w" "w \<le> 3" "as = keys w (Suc n) @ []" by auto
  moreover from this have "1 \<le> Suc n" "Suc n \<le> 4" by simp_all
  ultimately have "spelled Taken as" unfolding spelled.simps by blast
  with taken show ?thesis by (simp add: typed_keys_def)
next
  case (confirm n)
  with assms(2) obtain w where "n \<le> 3" "1 \<le> w" "w \<le> 3" "as = keys w (Suc n)" by auto
  moreover from this have "1 \<le> Suc n" "Suc n \<le> 4" by simp_all
  ultimately have "spelled Taken (as @ [ConfirmDelivery])" unfolding spelled.simps by blast
  with confirm show ?thesis by (simp add: typed_keys_def)
next
  case give_up
  with assms(2) show ?thesis using spelled_give_up by (simp add: typed_keys_def)
qed (auto simp: typed_keys_def)


lemma spelled_effects:
  assumes "guard_ok g" "spelled (phase g) as"
  shows "spelled (phase (run after_tick g os)) (as @ typed_keys (effects g os))"
  using assms
proof (induction os arbitrary: g as)
  case (Cons o1 os)
  have "spelled (phase (after_tick g o1)) (as @ typed_keys (action_of g o1))"
    using spelled_protocol [OF tick_lawful(1) [OF Cons.prems(1), of o1] Cons.prems(2)]
    by (simp add: action_of_def)
  then have "spelled (phase (run after_tick (after_tick g o1) os))
      ((as @ typed_keys (action_of g o1)) @ typed_keys (effects (after_tick g o1) os))"
    using tick_lawful(2) [OF Cons.prems(1)] by (rule Cons.IH [rotated])
  then show ?case by simp
qed (simp add: typed_keys_def)

lemma answers_counted:
  "guard_ok g \<Longrightarrow>
   unat (dialog_answers (run after_tick g os)) =
     unat (dialog_answers g) + length (filter is_answer (effects g os))"
proof (induction os arbitrary: g)
  case (Cons o1 os)
  have "length (filter is_answer (action_of g o1)) = (if answers (snd (tick g o1)) then 1 else 0)"
    unfolding action_of_def by (cases "snd (tick g o1)" rule: answers.cases) auto
  with Cons.IH [OF tick_lawful(2) [OF Cons.prems]] tick_lawful(5) [OF Cons.prems, of o1]
  show ?case by simp
qed simp

fun is_enter :: "submit_action \<Rightarrow> bool" where
  "is_enter (SendEnter _) \<longleftrightarrow> True"
| "is_enter _ \<longleftrightarrow> False"

text \<open>No dialog is answered after the first Enter.\<close>

definition answers_first :: "submit_action list \<Rightarrow> bool" where
  "answers_first as \<longleftrightarrow> list_all (\<lambda>a. \<not> is_answer a) (dropWhile (\<lambda>a. \<not> is_enter a) as)"

lemma answers_first_snoc:
  assumes "answers_first as" "\<not> is_answer a \<or> list_all (\<lambda>a. \<not> is_enter a) as"
  shows "answers_first (as @ [a])"
  using assms by (induction as) (auto simp: answers_first_def split: if_splits, cases a, auto)

definition answers_inv :: "phase \<Rightarrow> submit_action list \<Rightarrow> bool" where
  "answers_inv p as \<longleftrightarrow>
     answers_first as \<and>
     (p = Watching \<or> p = Settling \<or> (\<exists>n. p = Typed n) \<longrightarrow> list_all (\<lambda>a. \<not> is_enter a) as)"

lemma answers_inv_protocol:
  assumes "protocol p a p'" "answers_inv p as"
  shows "answers_inv p' (as @ (case a of None \<Rightarrow> [] | Some x \<Rightarrow> [x]))"
  using assms by cases (auto simp: answers_inv_def intro: answers_first_snoc)

lemma answers_inv_effects:
  assumes "guard_ok g" "answers_inv (phase g) as"
  shows "answers_inv (phase (run after_tick g os)) (as @ effects g os)"
  using assms
proof (induction os arbitrary: g as)
  case (Cons o1 os)
  have "answers_inv (phase (after_tick g o1)) (as @ action_of g o1)"
    using answers_inv_protocol [OF tick_lawful(1) [OF Cons.prems(1), of o1] Cons.prems(2)]
    by (simp add: action_of_def)
  then have "answers_inv (phase (run after_tick (after_tick g o1) os))
      ((as @ action_of g o1) @ effects (after_tick g o1) os)"
    using tick_lawful(2) [OF Cons.prems(1)] by (rule Cons.IH [rotated])
  then show ?case by simp
qed simp

subsection \<open>What the flags say\<close>

definition flags_exact :: "submit_guard \<Rightarrow> submit_action list \<Rightarrow> bool" where
  "flags_exact g as \<longleftrightarrow>
     (input_pending g \<longleftrightarrow> list_ex (\<lambda>a. writes_task (Some a)) as \<and> \<not> is_delivered g) \<and>
     (is_confirmed g \<longleftrightarrow> ConfirmDelivery \<in> set as) \<and>
     (is_confirmed g \<longleftrightarrow> is_delivered g \<and> answer_marker g \<noteq> [])"

lemma delivered_phase: "is_delivered g \<longleftrightarrow> phase g = Taken"
  by (cases "guard_state g") (auto simp: is_delivered_def)

lemma flags_tick:
  assumes ok: "guard_ok g" and fl: "flags_exact g as"
  shows "flags_exact (after_tick g obs) (as @ action_of g obs)"
proof -
  let ?g = "after_tick g obs" and ?a = "snd (tick g obs)"
  note law = tick_lawful [OF ok, of obs]
  have latch: "is_delivered g \<Longrightarrow> is_delivered ?g \<and> ?a = None"
    by (simp add: after_tick_def delivered_stays) (simp add: is_delivered_def)
  have conf: "?a = Some ConfirmDelivery \<Longrightarrow> is_delivered ?g"
    using law(1) by (cases "phase g") (auto simp: delivered_phase elim: protocol.cases)
  have "input_pending ?g \<longleftrightarrow> list_ex (\<lambda>a. writes_task (Some a)) (as @ action_of g obs) \<and> \<not> is_delivered ?g"
    using fl latch unfolding law(7) flags_exact_def action_of_def by (auto split: option.splits)
  moreover have "is_confirmed ?g \<longleftrightarrow> ConfirmDelivery \<in> set (as @ action_of g obs)"
    using fl law(4) unfolding flags_exact_def action_of_def is_confirmed_def
    by (auto split: option.splits)
  moreover have "is_confirmed ?g \<longleftrightarrow> is_delivered ?g \<and> answer_marker ?g \<noteq> []"
    using fl law(3,4,6) latch conf unfolding flags_exact_def is_confirmed_def
    by (metis delivered_phase option.distinct(1))
  ultimately show ?thesis unfolding flags_exact_def by blast
qed

lemma flags_effects:
  assumes "guard_ok g" "flags_exact g as"
  shows "flags_exact (run after_tick g os) (as @ effects g os)"
  using assms
proof (induction os arbitrary: g as)
  case (Cons o1 os)
  have "flags_exact (run after_tick (after_tick g o1) os)
      ((as @ action_of g o1) @ effects (after_tick g o1) os)"
    using tick_lawful(2) [OF Cons.prems(1)] flags_tick [OF Cons.prems] by (rule Cons.IH)
  then show ?case by simp
qed simp


subsection \<open>No waiting for ever\<close>

text \<open>
  \<open>due g\<close> is the instant from which a tick cannot leave the guard where it is: the caps of
  the state and, while a start-up heading may hold it, of the start.
\<close>

fun due_of :: "submit_guard \<Rightarrow> state_data \<Rightarrow> instant" where
  "due_of g (IdleWatching _ _) = started_at g + MARKER_BUSY_CAP"
| "due_of g (AwaitingEcho wrote _ _ _ _) = max (started_at g + MARKER_BUSY_CAP) (wrote + ECHO_BUSY_CAP)"
| "due_of g (AwaitingEnter echoed) = max (started_at g + MARKER_BUSY_CAP) (echoed + ENTER_SETTLE_CAP)"
| "due_of g (AwaitingWork entered sent a _ _) =
     (if answer_marker g = [] then sent + retry_wait a else entered + ANSWER_MARKER_CAP)"
| "due_of g _ = 0"

definition due :: "submit_guard \<Rightarrow> instant" where
  "due g = due_of g (guard_state g)"

fun weight :: "phase \<Rightarrow> nat" where
  "weight Watching = 0"
| "weight (Typed n) = n"
| "weight Settling = 4"
| "weight (Entered n) = 5 + n"
| "weight Taken = 12"
| "weight GivenUp = 12"

definition rank :: "submit_guard \<Rightarrow> nat" where
  "rank g = (if is_done g then 12 else weight (phase g) + unat (dialog_answers g))"

text \<open>How many of the ticks come at or after the due time of the guard they meet.\<close>

fun due_ticks :: "submit_guard \<Rightarrow> observation list \<Rightarrow> nat" where
  "due_ticks g [] = 0"
| "due_ticks g (o1 # os) =
     (if due g \<le> now o1 then 1 else 0) + due_ticks (after_tick g o1) os"

lemma since_ge: "0 < c \<Longrightarrow> c \<le> since n p \<longleftrightarrow> p + c \<le> n"
  by (auto simp: since_def)

lemmas caps_since =
  since_ge [of MARKER_BUSY_CAP, simplified limits, simplified, folded MARKER_BUSY_CAP_def]

definition moves :: "submit_guard \<Rightarrow> ticked \<Rightarrow> bool" where
  "moves g r \<longleftrightarrow> snd r \<noteq> None \<or> phase (fst r) \<noteq> phase g"

lemma moves_escalate [simp]: "moves g (escalate g' r)"
  by (simp add: moves_def escalate_def)

lemma moves_effect [simp]: "moves g (g', Some a)"
  by (simp add: moves_def)

lemma due_partial:
  assumes "started_at g + MARKER_BUSY_CAP \<le> now obs" "partial_panel g obs visible = Some r"
  shows "moves g r"
proof -
  have late: "MARKER_BUSY_CAP \<le> since (now obs) (started_at g)"
    using assms(1) since_ge [of MARKER_BUSY_CAP "now obs" "started_at g"] by (simp add: limits)
  show ?thesis
  proof (cases "idle_watching (guard_state g) \<and> later_trust g obs")
    case True
    then show ?thesis
    proof (cases rule: dialog_action_cases [of g obs])
      case none
      with True assms(2) late show ?thesis
        by (auto simp: partial_panel_def Let_def split: option.splits)
    next
      case (answered d)
      with True assms(2) have "r = (answered g obs d, Some (AnswerDialog d))"
        unfolding partial_panel_def Let_def by (simp split: option.splits)
      then show ?thesis by simp
    qed
  next
    case False
    with assms(2) late show ?thesis
      by (auto simp: partial_panel_def Let_def split: option.splits)
  qed
qed

lemma due_startup:
  assumes "started_at g + MARKER_BUSY_CAP \<le> now obs" "startup_check g obs = Some r"
  shows "moves g r"
  using assms due_partial [OF assms(1)]
  by (auto simp: startup_check_def Let_def split: if_splits option.splits)

lemma due_idle:
  assumes "started_at g + MARKER_BUSY_CAP \<le> now obs"
  shows "moves g (step_idle g obs f l)"
proof -
  have late: "MARKER_BUSY_CAP \<le> since (now obs) (started_at g)"
    using assms since_ge [of MARKER_BUSY_CAP "now obs" "started_at g"] by (simp add: limits)
  then have "READY_MAX_WAIT \<le> since (now obs) (started_at g)" by (simp add: limits)
  with late show ?thesis by (simp add: step_idle_def Let_def write_first_def)
qed

lemma due_echo:
  assumes "guard_ok g" "guard_state g = AwaitingEcho wrote w due' at_write last_bytes"
    "wrote + ECHO_BUSY_CAP \<le> now obs"
  shows "moves g (step_echo g obs wrote w due' at_write last_bytes)"
proof -
  have "ECHO_BUSY_CAP \<le> since (now obs) wrote"
    using assms(3) since_ge [of ECHO_BUSY_CAP "now obs" wrote] by (simp add: limits)
  moreover have "\<not> now obs < due'"
    using assms by (auto simp: guard_ok_def)
  ultimately show ?thesis by (simp add: step_echo_def)
qed

lemma retry_wait_pos: "0 < retry_wait a"
proof -
  have "\<forall>m < 3. 0 < RETRY_BACKOFF ! m"
    by (simp add: RETRY_BACKOFF_def numeral_3_eq_3 All_less_Suc2)
  moreover have "min (unat a) (length RETRY_BACKOFF - 1) < 3" by simp
  ultimately show ?thesis unfolding retry_wait_def by blast
qed

lemma due_work:
  assumes "guard_state g = AwaitingWork entered sent a at_enter last_bytes" "due g \<le> now obs"
  shows "moves g (step_work g obs entered sent a at_enter last_bytes)"
proof (cases "answer_marker g = []")
  case True
  then have "\<not> since (now obs) sent < retry_wait a"
    using assms since_ge [OF retry_wait_pos, of a "now obs" sent] by (simp add: due_def)
  with True assms(1) show ?thesis
    by (simp add: step_work_def retry_enter_def moves_def escalate_def)
next
  case False
  then have "ANSWER_MARKER_CAP \<le> since (now obs) entered"
    using assms since_ge [of ANSWER_MARKER_CAP "now obs" entered] by (simp add: due_def limits)
  with False show ?thesis by (simp add: step_work_def)
qed

lemma due_enter:
  assumes "echoed + ENTER_SETTLE_CAP \<le> now obs"
  shows "moves g (step_enter g' obs echoed)"
  using assms since_ge [of ENTER_SETTLE_CAP "now obs" echoed]
  by (simp add: step_enter_def Let_def limits)

lemma due_on:
  assumes ok: "guard_ok g" and live: "\<not> is_done g" and due: "due g \<le> now obs"
  shows "moves g (step_on g obs)"
proof (cases rule: see_echo_cases [of g obs])
  case (seen wrote w due' at_write last_bytes)
  then show ?thesis
    by (auto simp: step_on_def step_enter_def moves_def Let_def)
next
  case same
  show ?thesis
  proof (cases "guard_state g")
    case (AwaitingEnter echoed)
    then have "moves g (step_enter g obs echoed)"
      using due due_enter by (simp add: due_def)
    with AwaitingEnter same show ?thesis by (simp add: step_on_def)
  next
    case (IdleWatching f l)
    then show ?thesis
      using due due_idle [of g obs f l] same
      by (cases rule: dialog_action_cases [of g obs]) (simp_all add: step_on_def step_arms_def due_def)
  next
    case (AwaitingEcho wrote w due' at_write last_bytes)
    then show ?thesis
      using due due_echo [OF ok AwaitingEcho, of obs] same
      by (cases rule: dialog_action_cases [of g obs]) (simp_all add: step_on_def step_arms_def due_def)
  next
    case (AwaitingWork entered sent a at_enter last_bytes)
    then show ?thesis
      using due_work [OF AwaitingWork due] same by (simp add: step_on_def step_arms_def)
  qed (use live in \<open>simp_all add: is_done_def\<close>)
qed

lemma due_tick:
  assumes ok: "guard_ok g" and live: "\<not> is_done g" and due: "due g \<le> now obs"
  shows "moves g (tick g obs)"
proof -
  have "moves g (step g obs)"
  proof (cases "startup_check g obs")
    case None
    with due_on [OF assms] live show ?thesis by (simp add: step_def)
  next
    case (Some r)
    then have "\<not> awaiting_work (guard_state g)" by (auto simp: startup_check_def split: if_splits)
    with due live have "started_at g + MARKER_BUSY_CAP \<le> now obs"
      by (cases "guard_state g") (auto simp: due_def is_done_def)
    with Some live due_startup show ?thesis by (simp add: step_def)
  qed
  then show ?thesis by (simp add: moves_def tick_parts)
qed

lemma rank_live: "guard_ok g \<Longrightarrow> \<not> is_done g \<Longrightarrow> rank g \<le> 11"
  by (cases "guard_state g") (auto simp: rank_def guard_ok_def is_done_def)

lemma phase_Typed_le: "guard_ok g \<Longrightarrow> phase g = Typed n \<Longrightarrow> n \<le> 3"
  by (cases "guard_state g") (auto simp: guard_ok_def)

lemma is_done_phase: "is_done g \<longleftrightarrow> phase g = Taken \<or> phase g = GivenUp"
  by (simp add: is_done_def final_phase)

lemma rank_tick:
  assumes ok: "guard_ok g"
  shows "rank g + (if \<not> is_done g \<and> due g \<le> now obs then 1 else 0) \<le> rank (after_tick g obs)"
proof (cases "is_done (after_tick g obs)")
  case True
  then show ?thesis using rank_live [OF ok] by (auto simp: rank_def)
next
  case False
  then have live: "\<not> is_done g" using guard.latch_after [OF ok] by blast
  note law = tick_lawful [OF ok, of obs]
  have "weight (phase g) + (if answers (snd (tick g obs)) then 1 else 0) +
        (if moves g (tick g obs) \<and> \<not> answers (snd (tick g obs)) then 1 else 0) \<le>
        weight (phase (after_tick g obs)) + (if answers (snd (tick g obs)) then 1 else 0)"
    using law(1) False ok tick_lawful(2) [OF ok, of obs]
    by cases (auto simp: moves_def after_tick_def is_done_phase dest!: phase_Typed_le [OF ok])
  then show ?thesis
    using due_tick [OF ok live, of obs] live False law(5)
    by (auto simp: rank_def split: if_splits)
qed


interpretation guard_rank: ranked_machine after_tick guard_ok rank
proof unfold_locales
  fix g obs
  assume "guard_ok g"
  from rank_tick [OF this, of obs] show "rank g \<le> rank (after_tick g obs)" by linarith
qed

lemma due_ticks_rank:
  assumes "guard_ok g"
  shows "is_done (run after_tick g os) \<or> rank g + due_ticks g os \<le> rank (run after_tick g os)"
  using assms
proof (induction os arbitrary: g)
  case (Cons o1 os)
  have ok: "guard_ok (after_tick g o1)" by (rule tick_lawful(2) [OF Cons.prems])
  show ?case
  proof (cases "is_done g")
    case True
    then show ?thesis using guard.latch_run [OF Cons.prems] by blast
  next
    case False
    have "rank g + (if due g \<le> now o1 then 1 else 0) \<le> rank (after_tick g o1)"
      using rank_tick [OF Cons.prems, of o1] False by simp
    with Cons.IH [OF ok] show ?thesis by auto
  qed
qed simp

lemma answer_marker_run: "guard_ok g \<Longrightarrow> answer_marker (run after_tick g os) = answer_marker g"
  by (induction os arbitrary: g) (auto simp: tick_lawful)

section \<open>Properties\<close>

text \<open>
  C9: A delivery types a bounded script.  Whatever the terminal shows, the keystrokes of a
  guard, its answers to dialogs aside, are a prefix of: the task at most three times, numbered
  from one; then Enter at most four times, numbered from zero and only after the task; then at
  most one \<open>ConfirmDelivery\<close> or \<open>Escalate\<close>.  The state says which prefix, a finished guard asks for
  nothing more, dialogs are answered at most three times, and none is answered after the
  first Enter.
\<close>

theorem delivery_types_a_bounded_script:
  "spelled (phase (run after_tick (armed started task ready answer) os))
     (typed_keys (effects (armed started task ready answer) os)) \<and>
   length (filter is_answer (effects (armed started task ready answer) os)) \<le> 3 \<and>
   answers_first (effects (armed started task ready answer) os)"
proof (intro conjI)
  let ?g = "armed started task ready answer"
  show "spelled (phase (run after_tick ?g os)) (typed_keys (effects ?g os))"
    using spelled_effects [OF armed_ok, of started task ready answer "[]" os] by (simp add: keys_def)
  have "unat (dialog_answers (run after_tick ?g os)) \<le> 3"
    using guard.inv_run [OF armed_ok] by (auto simp: guard_ok_def)
  then show "length (filter is_answer (effects ?g os)) \<le> 3"
    by (simp add: answers_counted [OF armed_ok])
  show "answers_first (effects ?g os)"
    using answers_inv_effects [OF armed_ok, of started task ready answer "[]" os]
    by (simp add: answers_inv_def answers_first_def)
qed

text \<open>
  The flags tell the truth at every point of every run.  \<open>input_pending\<close> holds exactly when
  the task was typed and its delivery has not been proved since, so after every escalation
  that followed a write; \<open>is_confirmed\<close> holds exactly when \<open>ConfirmDelivery\<close> was asked for; and
  with an answer marker a delivery is a confirmed one, without one never.
\<close>

theorem flags_tell_what_happened:
  "(input_pending (run after_tick (armed started task ready answer) os) \<longleftrightarrow>
      list_ex (\<lambda>a. writes_task (Some a)) (effects (armed started task ready answer) os) \<and>
      \<not> is_delivered (run after_tick (armed started task ready answer) os)) \<and>
   (is_confirmed (run after_tick (armed started task ready answer) os) \<longleftrightarrow>
      ConfirmDelivery \<in> set (effects (armed started task ready answer) os)) \<and>
   (is_confirmed (run after_tick (armed started task ready answer) os) \<longleftrightarrow>
      is_delivered (run after_tick (armed started task ready answer) os) \<and>
      squash (normalize_tui_output answer) \<noteq> [])"
proof -
  let ?g = "armed started task ready answer"
  have "flags_exact ?g []"
    by (simp add: flags_exact_def is_confirmed_def is_delivered_def)
  then have "flags_exact (run after_tick ?g os) (effects ?g os)"
    using flags_effects [OF armed_ok] by fastforce
  moreover have "answer_marker (run after_tick ?g os) = answer_marker ?g"
    by (rule answer_marker_run [OF armed_ok])
  ultimately show ?thesis unfolding flags_exact_def armed_start by metis
qed

text \<open>
  C10: The guard cannot wait for ever.  Each state has a due time, made of the caps of the code, and
  a delivery is over after at most twelve ticks at or after the due times of the states
  they meet, however many ticks come before and whatever the terminal prints.
\<close>

theorem guard_never_waits_forever:
  assumes "12 \<le> due_ticks (armed started task ready answer) os"
  shows "is_done (run after_tick (armed started task ready answer) os)"
proof (rule ccontr)
  let ?g = "armed started task ready answer"
  assume nd: "\<not> is_done (run after_tick ?g os)"
  then have "rank (run after_tick ?g os) \<le> 11"
    using rank_live guard.inv_run [OF armed_ok] by blast
  with nd due_ticks_rank [OF armed_ok] assms show False by fastforce
qed

definition silent_at :: "instant \<Rightarrow> observation" where
  "silent_at t =
     \<lparr> now = t, output_bytes = 0, last_output = None, screen_tail = [], tail_since_write = [],
       write_window_overflowed = False \<rparr>"

lemma silent_due:
  "due_ticks (armed 0 (lit ''go'') [] [])
     (map (\<lambda>i. silent_at (120000 * i)) [1, 2, 3, 4, 5, 6, 7, 8, 9, 10, 11, 12]) = 12"
  by code_simp

lemma guard_never_waits_forever_witness:
  "is_done (run after_tick (armed 0 (lit ''go'') [] [])
     (map (\<lambda>i. silent_at (120000 * i)) [1, 2, 3, 4, 5, 6, 7, 8, 9, 10, 11, 12]))"
  by (rule guard_never_waits_forever) (simp only: silent_due order_refl)


end
