(* ===== verification/Failover_Rules.thy ===== *)
theory Failover_Rules
  imports Prelude Rust_Text
begin

text \<open>
  The failover rules of \<open>src-tauri/src/budget/failover_rules.rs\<close> and the provider registry
  they consult (\<open>src-tauri/src/providers.rs\<close>): rules are German sentences that parse and print,
  a rule set always has the rule never to fall back to a paid path, and a
  walk along a chain of providers names the one to work on.  A \<open>Provider\<close> is made only by
  \<open>from_name\<close>, which \<open>provider_ok\<close> states; the \<open>HashMap\<close> of states is a map.
\<close>

section \<open>The provider registry\<close>

definition KIND_SUBSCRIPTION :: ustr where "KIND_SUBSCRIPTION = lit ''subscription''"
definition KIND_API_KEY :: ustr where "KIND_API_KEY = lit ''api_key''"
definition KIND_LOCAL :: ustr where "KIND_LOCAL = lit ''local''"

record cli_probe =
  binary :: ustr
  auth_args :: "ustr list"
  auth_files :: "ustr list"

datatype probe = Cli cli_probe | Http "16 word" ustr | StoredKey

record provider_spec =
  spec_id :: ustr
  spec_name :: ustr
  spec_kind :: ustr
  spec_probe :: probe

definition OLLAMA_PORT :: "16 word" where "OLLAMA_PORT = 11434"
definition OMNIROUTE_PORT :: "16 word" where "OMNIROUTE_PORT = 20128"
definition OMNIROUTE_MANAGEMENT :: ustr where "OMNIROUTE_MANAGEMENT = lit ''omniroute-management''"

definition PROVIDERS :: "provider_spec list" where
  "PROVIDERS =
     [\<lparr>spec_id = lit ''claude'', spec_name = lit ''Claude Code'', spec_kind = KIND_SUBSCRIPTION,
       spec_probe = Cli \<lparr>binary = lit ''claude'', auth_args = [lit ''auth'', lit ''status''],
         auth_files = [lit ''.claude/.credentials.json'']\<rparr>\<rparr>,
      \<lparr>spec_id = lit ''codex'', spec_name = lit ''Codex CLI'', spec_kind = KIND_SUBSCRIPTION,
       spec_probe = Cli \<lparr>binary = lit ''codex'', auth_args = [], auth_files = [lit ''.codex/auth.json'']\<rparr>\<rparr>,
      \<lparr>spec_id = lit ''opencode'', spec_name = lit ''OpenCode'', spec_kind = KIND_SUBSCRIPTION,
       spec_probe = Cli \<lparr>binary = lit ''opencode'', auth_args = [],
         auth_files = [lit ''.local/share/opencode/auth.json'', lit ''.config/opencode/opencode.json'',
           lit ''.config/opencode/config.json'', lit ''.opencode.json'']\<rparr>\<rparr>,
      \<lparr>spec_id = lit ''kimi'', spec_name = lit ''Kimi CLI'', spec_kind = KIND_SUBSCRIPTION,
       spec_probe = Cli \<lparr>binary = lit ''kimi'', auth_args = [], auth_files = [lit ''.kimi/auth.json'']\<rparr>\<rparr>,
      \<lparr>spec_id = lit ''ollama'', spec_name = lit ''Ollama'', spec_kind = KIND_LOCAL,
       spec_probe = Http OLLAMA_PORT (lit ''/api/version'')\<rparr>,
      \<lparr>spec_id = lit ''omniroute'', spec_name = lit ''OmniRoute'', spec_kind = KIND_LOCAL,
       spec_probe = Http OMNIROUTE_PORT (lit ''/health'')\<rparr>,
      \<lparr>spec_id = OMNIROUTE_MANAGEMENT, spec_name = lit ''OmniRoute (Management)'',
       spec_kind = KIND_API_KEY, spec_probe = StoredKey\<rparr>,
      \<lparr>spec_id = lit ''openrouter'', spec_name = lit ''OpenRouter'', spec_kind = KIND_API_KEY,
       spec_probe = StoredKey\<rparr>]"

definition find_provider :: "ustr \<Rightarrow> provider_spec option" where
  "find_provider provider_id = find (\<lambda>spec. spec_id spec = provider_id) PROVIDERS"

section \<open>Rules\<close>

datatype window = FiveHour | SevenDay | Month

definition MANDATORY :: ustr where "MANDATORY = lit ''Pause statt Rechnung.''"
definition LOCAL :: ustr where "LOCAL = lit ''weiter mit dem lokalen Modell''"

definition NAMES :: "(ustr \<times> ustr) list" where
  "NAMES =
     [(lit ''claude'', lit ''Claude''), (lit ''codex'', lit ''Codex''), (lit ''opencode'', lit ''OpenCode''),
      (lit ''kimi'', lit ''Kimi''), (lit ''ollama'', lit ''Ollama'')]"

definition WINDOWS :: "(window \<times> ustr) list" where
  "WINDOWS = [(FiveHour, lit ''5 Stunden''), (SevenDay, lit ''Woche''), (Month, lit ''Monat'')]"

datatype provider = Provider (provider_id: ustr) (provider_name: ustr)

datatype condition =
  WindowAtLeast provider window u8
| Blocked provider
| ProbeFailed provider

datatype failover_action = Switch provider | Pause | Local

datatype rule = Failover condition failover_action | PauseInsteadOfBill

record provider_state =
  blocked :: bool
  probe_failed :: bool
  used_pct :: "(window \<times> u8) list"

definition default_provider_state :: provider_state where
  "default_provider_state = \<lparr>blocked = False, probe_failed = False, used_pct = []\<rparr>"

text \<open>A registered provider that is not billed per call.\<close>

definition usable :: "ustr \<Rightarrow> bool" where
  "usable p = (case find_provider p of None \<Rightarrow> False | Some spec \<Rightarrow> spec_kind spec \<noteq> KIND_API_KEY)"

definition local_position :: "ustr list \<Rightarrow> nat option" where
  "local_position chain =
     position (\<lambda>c. case find_provider c of None \<Rightarrow> False | Some s \<Rightarrow> spec_kind s = KIND_LOCAL) chain"

fun target :: "ustr list \<Rightarrow> failover_action \<Rightarrow> nat option" where
  "target chain (Switch to) = position (\<lambda>c. c = provider_id to) chain"
| "target chain Local = local_position chain"
| "target chain Pause = None"

section \<open>Parsing\<close>

text \<open>
  \<open>parse::<u8>()\<close> on a string of ASCII digits, the only strings the code hands it: the empty
  string and a number that does not fit are errors.
\<close>

definition parse_u8 :: "ustr \<Rightarrow> u8 option" where
  "parse_u8 s = (if s = [] \<or> 255 < digits_value s then None else Some (of_int (digits_value s)))"

definition canonical :: "ustr \<Rightarrow> bool" where
  "canonical n \<longleftrightarrow> list_all is_ascii_digit n \<and> \<not> starts_with n [48]"

definition from_name :: "ustr \<Rightarrow> ustr + provider" where
  "from_name name =
     (case find (\<lambda>(_, known). known = name) NAMES of
        Some (pid, pname) \<Rightarrow>
          if usable pid then Ok (Provider pid pname)
          else Err (name @ lit '' ist kein erlaubter Anbieter (Pause statt Rechnung)'')
      | None \<Rightarrow> Err (lit ''Unbekannter Anbieter: '' @ name))"

abbreviation (input) pr_fung :: ustr where
  "pr_fung \<equiv> lit ''die Pr'' @ u_umlaut @ lit ''fung von ''"
abbreviation (input) fehlschl_gt :: ustr where
  "fehlschl_gt \<equiv> lit '' fehlschl'' @ a_umlaut @ lit ''gt''"
abbreviation (input) blockiert :: ustr where
  "blockiert \<equiv> lit '' blockiert ist''"
abbreviation (input) at_least_sign :: ustr where
  "at_least_sign \<equiv> [32, 8805, 32]"

definition parse_window :: "ustr \<Rightarrow> ustr + condition" where
  "parse_window text0 =
     (let bad = lit ''Bedingung nicht verstanden: '' @ text0 in
      and_then (ok_or (split_once at_least_sign text0) bad) (\<lambda>(left, right).
      and_then (ok_or
          (opt_filter (\<lambda>n. 1 \<le> n \<and> n \<le> 100)
             (opt_then (opt_filter canonical (strip_suffix (lit '' %'') right)) parse_u8)) bad) (\<lambda>pct.
      and_then (ok_or (find (\<lambda>(_, l). ends_with left (32 # l)) WINDOWS) bad) (\<lambda>(window, label).
      let name = take (length left - length label - 1) left in
      and_then (from_name name) (\<lambda>p. Ok (WindowAtLeast p window pct))))))"

definition parse_condition :: "ustr \<Rightarrow> ustr + condition" where
  "parse_condition text0 =
     (case strip_suffix blockiert text0 of
        Some name \<Rightarrow> and_then (from_name name) (\<lambda>p. Ok (Blocked p))
      | None \<Rightarrow>
          (case opt_then (strip_prefix pr_fung text0) (strip_suffix fehlschl_gt) of
             Some name \<Rightarrow> and_then (from_name name) (\<lambda>p. Ok (ProbeFailed p))
           | None \<Rightarrow> parse_window text0))"

definition parse_action :: "ustr \<Rightarrow> ustr + failover_action" where
  "parse_action text0 =
     (if text0 = lit ''Pause'' then Ok Pause
      else if text0 = LOCAL then Ok Local
      else case strip_prefix (lit ''weiter mit '') text0 of
             Some name \<Rightarrow> and_then (from_name name) (\<lambda>p. Ok (Switch p))
           | None \<Rightarrow> Err (lit ''Aktion nicht verstanden: '' @ text0))"

definition parse_rule :: "ustr \<Rightarrow> ustr + rule" where
  "parse_rule sentence0 =
     (let sentence = trim sentence0 in
      if sentence = MANDATORY then Ok PauseInsteadOfBill
      else
        and_then (ok_or
            (opt_then (opt_then (strip_prefix (lit ''Wenn '') sentence) (strip_suffix (lit ''.'')))
               (split_once (lit '', dann '')))
            (lit ''Regel nicht verstanden: '' @ sentence)) (\<lambda>(cond, action).
        and_then (parse_condition cond) (\<lambda>c.
        and_then (parse_action action) (\<lambda>a. Ok (Failover c a)))))"

section \<open>Printing\<close>

definition window_label :: "window \<Rightarrow> ustr" where
  "window_label w = (case find (\<lambda>(v, _). v = w) WINDOWS of None \<Rightarrow> lit ''?'' | Some (_, l) \<Rightarrow> l)"

fun condition_sentence :: "condition \<Rightarrow> ustr" where
  "condition_sentence (WindowAtLeast p w pct) =
     provider_name p @ [32] @ window_label w @ at_least_sign @ decimal (unat pct) @ lit '' %''"
| "condition_sentence (Blocked p) = provider_name p @ blockiert"
| "condition_sentence (ProbeFailed p) = pr_fung @ provider_name p @ fehlschl_gt"

fun action_sentence :: "failover_action \<Rightarrow> ustr" where
  "action_sentence (Switch p) = lit ''weiter mit '' @ provider_name p"
| "action_sentence Pause = lit ''Pause''"
| "action_sentence Local = LOCAL"

fun sentence :: "rule \<Rightarrow> ustr" where
  "sentence PauseInsteadOfBill = MANDATORY"
| "sentence (Failover c a) =
     lit ''Wenn '' @ condition_sentence c @ lit '', dann '' @ action_sentence a @ lit ''.''"

section \<open>Rule sets\<close>

type_synonym rule_set = "(rule \<times> bool) list"

definition new_rule_set :: rule_set where
  "new_rule_set = [(PauseInsteadOfBill, True)]"

fun condition_provider :: "condition \<Rightarrow> provider" where
  "condition_provider (WindowAtLeast p _ _) = p"
| "condition_provider (Blocked p) = p"
| "condition_provider (ProbeFailed p) = p"

fun condition_holds :: "condition \<Rightarrow> ustr \<Rightarrow> provider_state \<Rightarrow> bool" where
  "condition_holds (WindowAtLeast p w pct) i s \<longleftrightarrow>
     provider_id p = i \<and> list_ex (\<lambda>(v, used). v = w \<and> pct \<le> used) (used_pct s)"
| "condition_holds (Blocked p) i s \<longleftrightarrow> provider_id p = i \<and> blocked s"
| "condition_holds (ProbeFailed p) i s \<longleftrightarrow> provider_id p = i \<and> probe_failed s"

definition rule_problem :: "ustr list \<Rightarrow> condition \<Rightarrow> failover_action \<Rightarrow> ustr option" where
  "rule_problem chain c a =
     (case a of
        Switch to \<Rightarrow>
          if provider_id to = provider_id (condition_provider c)
          then Some (provider_name to @ lit '' kann nicht auf sich selbst verweisen'')
          else if provider_id to \<notin> set chain
          then Some (provider_name to @ lit '' ist nicht in der Kette'')
          else None
      | Local \<Rightarrow>
          if local_position chain = None
          then Some (lit ''In der Kette ist kein lokales Modell'') else None
      | Pause \<Rightarrow> None)"

definition validate_rules :: "rule_set \<Rightarrow> ustr list \<Rightarrow> ustr list + unit" where
  "validate_rules rs chain =
     (let errors = List.map_filter
            (\<lambda>(r, _).
               case r of
                 PauseInsteadOfBill \<Rightarrow> None
               | Failover c a \<Rightarrow>
                   map_option (\<lambda>problem. quoted (sentence r) @ lit '': '' @ problem)
                     (rule_problem chain c a)) rs
      in if errors = [] then Ok () else Err errors)"

definition add_rule :: "rule \<Rightarrow> rule_set \<Rightarrow> ustr + rule_set" where
  "add_rule r rs =
     (if r = PauseInsteadOfBill
      then Err (lit ''Die Regel '' @ quoted (lit ''Pause statt Rechnung'') @ lit '' gibt es schon'')
      else if list_ex (\<lambda>(have, _). have = r) rs
      then Err (lit ''Die Regel '' @ quoted (sentence r) @ lit '' gibt es schon'')
      else Ok (rs @ [(r, True)]))"

definition changeable :: "nat \<Rightarrow> rule_set \<Rightarrow> ustr + unit" where
  "changeable i rs =
     (if i < length rs
      then (case rs ! i of
              (PauseInsteadOfBill, _) \<Rightarrow>
                Err (lit ''Die Regel '' @ quoted (lit ''Pause statt Rechnung'') @ lit '' bleibt immer an'')
            | _ \<Rightarrow> Ok ())
      else Err (lit ''Keine solche Regel''))"

definition remove_rule :: "nat \<Rightarrow> rule_set \<Rightarrow> ustr + rule_set" where
  "remove_rule i rs = and_then (changeable i rs) (\<lambda>_. Ok (take i rs @ drop (Suc i) rs))"

definition set_enabled :: "nat \<Rightarrow> bool \<Rightarrow> rule_set \<Rightarrow> ustr + rule_set" where
  "set_enabled i enabled rs =
     and_then (changeable i rs) (\<lambda>_. Ok (rs[i := (fst (rs ! i), enabled)]))"

section \<open>The walk along the chain\<close>

fun fired_rule :: "rule_set \<Rightarrow> ustr \<Rightarrow> provider_state \<Rightarrow> failover_action option" where
  "fired_rule [] i s = None"
| "fired_rule ((r, on) # rs) i s =
     (if on
      then (case r of
              Failover c a \<Rightarrow> if condition_holds c i s then Some a else fired_rule rs i s
            | PauseInsteadOfBill \<Rightarrow> fired_rule rs i s)
      else fired_rule rs i s)"

datatype walk_step = Chosen ustr | Paused | Walk nat

text \<open>One round of the loop of \<open>resolve\<close> at a position of the chain.\<close>

definition walk_round ::
  "rule_set \<Rightarrow> ustr list \<Rightarrow> (ustr \<rightharpoonup> provider_state) \<Rightarrow> nat \<Rightarrow> walk_step" where
  "walk_round rs chain states at =
     (if length chain \<le> at then Paused
      else
        let i = chain ! at in
        if \<not> usable i then Walk (at + 1)
        else
          let s = (case states i of None \<Rightarrow> default_provider_state | Some s \<Rightarrow> s) in
          case fired_rule rs i s of
            None \<Rightarrow> if \<not> blocked s then Chosen i else Walk (at + 1)
          | Some Pause \<Rightarrow> Paused
          | Some action \<Rightarrow>
              (case target chain action of
                 Some to \<Rightarrow> if to = at \<and> \<not> blocked s then Chosen i else Walk to
               | None \<Rightarrow> Walk (at + 1)))"

fun walk ::
  "nat \<Rightarrow> rule_set \<Rightarrow> ustr list \<Rightarrow> (ustr \<rightharpoonup> provider_state) \<Rightarrow> nat \<Rightarrow> ustr option" where
  "walk 0 rs chain states at = None"
| "walk (Suc n) rs chain states at =
     (case walk_round rs chain states at of
        Chosen i \<Rightarrow> Some i
      | Paused \<Rightarrow> None
      | Walk to \<Rightarrow> walk n rs chain states to)"

definition resolve ::
  "rule_set \<Rightarrow> ustr list \<Rightarrow> (ustr \<rightharpoonup> provider_state) \<Rightarrow> ustr option" where
  "resolve rs chain states = walk (length chain * 2) rs chain states 0"

section \<open>Strings and numbers\<close>

lemma canonical_decimal: "0 < n \<Longrightarrow> canonical (decimal n)"
  by (simp add: canonical_def decimal_digits decimal_no_zero)

lemma digits_value_nonneg: "list_all is_ascii_digit s \<Longrightarrow> 0 \<le> digits_value s"
  by (induction s rule: rev_induct) (auto simp: digits_value_snoc is_ascii_digit_def, simp add: digits_value_def)

lemma canonical_value_pos: "canonical s \<Longrightarrow> s \<noteq> [] \<Longrightarrow> 0 < digits_value s"
proof (induction s rule: rev_induct)
  case (snoc c s)
  then have c: "48 \<le> c" "c \<le> 57" by (auto simp: canonical_def is_ascii_digit_def)
  show ?case
  proof (cases "s = []")
    case True
    with snoc.prems have "c \<noteq> 48" by (auto simp: canonical_def starts_with_def)
    with True c show ?thesis by (simp add: digits_value_def)
  next
    case False
    with snoc.prems have "canonical s"
      by (auto simp: canonical_def starts_with_iff append_eq_Cons_conv)
    with snoc.IH False c show ?thesis by (simp add: digits_value_snoc)
  qed
qed simp

lemma decimal_value: "canonical s \<Longrightarrow> s \<noteq> [] \<Longrightarrow> decimal (nat (digits_value s)) = s"
proof (induction s rule: rev_induct)
  case (snoc c s)
  then have c: "48 \<le> c" "c \<le> 57" by (auto simp: canonical_def is_ascii_digit_def)
  show ?case
  proof (cases "s = []")
    case True
    with c show ?thesis by (subst decimal.simps) (simp add: digits_value_def)
  next
    case False
    with snoc.prems have s: "canonical s"
      by (auto simp: canonical_def starts_with_iff append_eq_Cons_conv)
    then have pos: "0 < digits_value s" using False by (rule canonical_value_pos)
    let ?v = "10 * digits_value s + (c - 48)"
    have v: "nat ?v div 10 = nat (digits_value s)" "nat ?v mod 10 = nat (c - 48)" "\<not> nat ?v < 10"
    proof -
      have "nat ?v = 10 * nat (digits_value s) + nat (c - 48)" "nat (c - 48) < 10" "0 < nat (digits_value s)"
        using pos c by auto
      then show "nat ?v div 10 = nat (digits_value s)" "nat ?v mod 10 = nat (c - 48)" "\<not> nat ?v < 10"
        by simp_all
    qed
    have "decimal (nat ?v) = decimal (nat (digits_value s)) @ [48 + int (nat (c - 48))]"
      using v by (subst decimal.simps) simp
    then show ?thesis using snoc.IH [OF s False] c by (simp add: digits_value_snoc)
  qed
qed simp


section \<open>Sentences\<close>

definition provider_ok :: "provider \<Rightarrow> bool" where
  "provider_ok p \<longleftrightarrow> from_name (provider_name p) = Ok p"

fun condition_ok :: "condition \<Rightarrow> bool" where
  "condition_ok (WindowAtLeast p w pct) \<longleftrightarrow> provider_ok p \<and> 1 \<le> pct \<and> pct \<le> 100"
| "condition_ok (Blocked p) \<longleftrightarrow> provider_ok p"
| "condition_ok (ProbeFailed p) \<longleftrightarrow> provider_ok p"

fun action_ok :: "failover_action \<Rightarrow> bool" where
  "action_ok (Switch p) \<longleftrightarrow> provider_ok p"
| "action_ok _ \<longleftrightarrow> True"

fun rule_ok :: "rule \<Rightarrow> bool" where
  "rule_ok PauseInsteadOfBill \<longleftrightarrow> True"
| "rule_ok (Failover c a) \<longleftrightarrow> condition_ok c \<and> action_ok a"

lemma from_name_Ok:
  assumes "from_name n = Ok p"
  shows "provider_name p = n \<and> provider_ok p \<and> usable (provider_id p)"
proof -
  obtain i m where f: "find (\<lambda>(_, known). known = n) NAMES = Some (i, m)" "usable i" "p = Provider i m"
    using assms by (auto simp: from_name_def split: option.splits if_splits)
  then have "m = n" using find_SomeD [OF f(1)] by simp
  with f assms show ?thesis by (simp add: provider_ok_def)
qed

text \<open>The names of providers are words of ASCII letters.\<close>

definition letter :: "uchar \<Rightarrow> bool" where
  "letter c \<longleftrightarrow> 65 \<le> c \<and> c \<le> 122"

lemma NAMES_letters: "list_all (\<lambda>(_, n). n \<noteq> [] \<and> list_all letter n) NAMES"
  by code_simp

lemma provider_name_letters:
  assumes "provider_ok p"
  shows "provider_name p \<noteq> []" "c \<in> set (provider_name p) \<Longrightarrow> letter c"
proof -
  have "\<exists>i. (i, provider_name p) \<in> set NAMES"
    using assms by (auto simp: provider_ok_def from_name_def dest!: find_SomeD split: option.splits if_splits)
  then show "provider_name p \<noteq> []" "c \<in> set (provider_name p) \<Longrightarrow> letter c"
    using NAMES_letters by (auto simp: list_all_iff)
qed

lemma provider_name_not:
  assumes "provider_ok p" "c < 65 \<or> 122 < c"
  shows "c \<notin> set (provider_name p)"
proof
  assume "c \<in> set (provider_name p)"
  from provider_name_letters(2) [OF assms(1) this] assms(2) show False by (simp add: letter_def)
qed

lemma window_label_simps [simp]:
  "window_label FiveHour = lit ''5 Stunden''"
  "window_label SevenDay = lit ''Woche''"
  "window_label Month = lit ''Monat''"
  by (simp_all add: window_label_def WINDOWS_def)

lemma window_label_chars:
  "8805 \<notin> set (window_label w)" "44 \<notin> set (window_label w)" "window_label w \<noteq> []"
  by (cases w; simp add: lit_def)+

lemma decimal_chars: "c \<in> set (decimal n) \<Longrightarrow> 48 \<le> c \<and> c \<le> 57"
  using decimal_digits [of n] by (auto simp: list_all_iff is_ascii_digit_def)

lemma find_window:
  "find (\<lambda>(_, l). ends_with (n @ 32 # window_label w) (32 # l)) WINDOWS = Some (w, window_label w)"
  by (cases w) (simp_all add: WINDOWS_def ends_with_def starts_with_def lit_def)

lemma find_window_Some:
  assumes "find (\<lambda>(_, l). ends_with left (32 # l)) WINDOWS = Some (w, l)"
  shows "l = window_label w \<and> left = take (length left - length l - 1) left @ 32 # l"
proof -
  have "(w, l) \<in> set WINDOWS" "ends_with left (32 # l)"
    using find_SomeD [OF assms] by simp_all
  moreover from this(2) obtain n where "left = n @ 32 # l" by (auto simp: ends_with_iff)
  ultimately show ?thesis by (auto simp: WINDOWS_def)
qed

lemma parse_u8_decimal: "parse_u8 (decimal (unat (w :: u8))) = Some w"
proof -
  have "uint w < 256" using unsigned_less [of w, where ?'a = int] by simp
  then show ?thesis by (simp add: parse_u8_def digits_value_decimal)
qed

lemma unat_pos: "1 \<le> (w :: u8) \<Longrightarrow> 0 < unat w"
  by (simp add: word_le_nat_alt)

lemma parse_window_sentence:
  assumes "condition_ok (WindowAtLeast p w pct)"
  shows "parse_window (condition_sentence (WindowAtLeast p w pct)) = Ok (WindowAtLeast p w pct)"
proof -
  let ?left = "provider_name p @ 32 # window_label w"
  let ?right = "decimal (unat pct) @ lit '' %''"
  have text0: "condition_sentence (WindowAtLeast p w pct) = ?left @ at_least_sign @ ?right" by simp
  have "8805 \<notin> set ?left"
    using assms provider_name_not [of p 8805] window_label_chars by auto
  then have split: "split_once at_least_sign (?left @ at_least_sign @ ?right) = Some (?left, ?right)"
    by (intro split_once_here [of _ "[32]" 8805 "[32]"]) auto
  have pct: "opt_filter (\<lambda>n. 1 \<le> n \<and> n \<le> 100)
      (opt_then (opt_filter canonical (strip_suffix (lit '' %'') ?right)) parse_u8) = Some pct"
    using assms parse_u8_decimal [of pct] canonical_decimal [OF unat_pos [of pct]] by simp
  have name: "take (length ?left - length (window_label w) - 1) ?left = provider_name p" by simp
  show ?thesis
    unfolding parse_window_def text0 split pct Let_def find_window
    using assms parse_u8_decimal [of pct] canonical_decimal [OF unat_pos [of pct]]
    by (simp add: find_window provider_ok_def)
qed

lemma parse_condition_sentence:
  assumes "condition_ok c"
  shows "parse_condition (condition_sentence c) = Ok c"
proof (cases c)
  case (WindowAtLeast p w pct)
  let ?s = "condition_sentence c"
  have l: "last ?s = 37" "?s \<noteq> []" by (simp_all add: WindowAtLeast lit_def)
  have "strip_suffix blockiert ?s = None"
    using l by (intro strip_suffix_last) (simp_all add: lit_def)
  moreover have "opt_then (strip_prefix pr_fung ?s) (strip_suffix fehlschl_gt) = None"
  proof (rule ccontr)
    assume "opt_then (strip_prefix pr_fung ?s) (strip_suffix fehlschl_gt) \<noteq> None"
    then obtain r where "?s = pr_fung @ r @ fehlschl_gt"
      by (auto simp: strip_prefix_Some strip_suffix_Some)
    then have "last ?s = 116" by (simp add: lit_def)
    with l show False by simp
  qed
  ultimately show ?thesis
    using parse_window_sentence [of p w pct] assms WindowAtLeast by (simp add: parse_condition_def)
next
  case (Blocked p)
  then show ?thesis using assms by (simp add: parse_condition_def provider_ok_def)
next
  case (ProbeFailed p)
  have "strip_suffix blockiert (condition_sentence c) = None"
    by (simp add: ProbeFailed strip_suffix_def ends_with_def starts_with_def lit_def)
  moreover have "opt_then (strip_prefix pr_fung (condition_sentence c)) (strip_suffix fehlschl_gt)
      = Some (provider_name p)"
    using strip_prefix_append [of pr_fung "provider_name p @ fehlschl_gt"]
      strip_suffix_append [of fehlschl_gt "provider_name p"]
    unfolding ProbeFailed condition_sentence.simps by (simp only: append_assoc opt_then_simps)
  ultimately show ?thesis
    using assms ProbeFailed unfolding parse_condition_def
    by (simp only: option.case) (simp add: provider_ok_def)
qed

lemma parse_window_Ok:
  assumes "parse_window t = Ok c"
  shows "condition_sentence c = t \<and> condition_ok c"
proof -
  obtain left right pct w l p where
    split: "split_once at_least_sign t = Some (left, right)" and
    pct: "opt_filter (\<lambda>n. 1 \<le> n \<and> n \<le> 100)
      (opt_then (opt_filter canonical (strip_suffix (lit '' %'') right)) parse_u8) = Some pct" and
    win: "find (\<lambda>(_, l). ends_with left (32 # l)) WINDOWS = Some (w, l)" and
    name: "from_name (take (length left - length l - 1) left) = Ok p" and c: "c = WindowAtLeast p w pct"
    using assms unfolding parse_window_def Let_def by (auto simp: and_then_Ok ok_or_Ok)
  from pct obtain n where n: "right = n @ lit '' %''" "canonical n" "parse_u8 n = Some pct"
    "1 \<le> pct" "pct \<le> 100" by (auto simp: strip_suffix_Some)
  have nn: "n \<noteq> []" "0 \<le> digits_value n" "digits_value n \<le> 255" "pct = of_int (digits_value n)"
    using n(2,3) digits_value_nonneg by (auto simp: parse_u8_def canonical_def split: if_splits)
  then have "unat pct = nat (digits_value n)"
    by (simp add: unat_eq_nat_uint uint_word_of_int)
  then have "decimal (unat pct) = n" using decimal_value [OF n(2) nn(1)] by simp
  moreover have "left = provider_name p @ 32 # window_label w"
    using find_window_Some [OF win] from_name_Ok [OF name] by metis
  ultimately show ?thesis
    using split_once_Some [OF split] n from_name_Ok [OF name] by (simp add: c)
qed

lemma parse_condition_Ok: "parse_condition t = Ok c \<Longrightarrow> condition_sentence c = t \<and> condition_ok c"
  using parse_window_Ok [of t c]
  by (auto simp: parse_condition_def and_then_Ok strip_suffix_Some strip_prefix_Some
      split: option.splits dest!: from_name_Ok)

lemma parse_action_sentence: "action_ok a \<Longrightarrow> parse_action (action_sentence a) = Ok a"
proof (cases a)
  case (Switch p)
  assume "action_ok a"
  then have p: "provider_ok p" using Switch by simp
  have "32 \<notin> set (provider_name p)" using provider_name_not [OF p, of 32] by simp
  then have "lit ''weiter mit '' @ provider_name p \<noteq> LOCAL"
    by (auto simp: LOCAL_def lit_def)
  then show ?thesis
    using p strip_prefix_append [of "lit ''weiter mit ''" "provider_name p"] unfolding Switch
    by (simp add: parse_action_def provider_ok_def lit_def)
qed (simp_all add: parse_action_def LOCAL_def lit_def)

lemma parse_action_Ok: "parse_action t = Ok a \<Longrightarrow> action_sentence a = t \<and> action_ok a"
  by (auto simp: parse_action_def and_then_Ok strip_prefix_Some
      split: option.splits if_splits dest!: from_name_Ok)

lemma trim_id:
  assumes "s \<noteq> []" "\<not> is_whitespace (hd s)" "\<not> is_whitespace (last s)"
  shows "trim s = s"
proof -
  have "trim_start s = s" using assms by (cases s) (auto simp: trim_start_def)
  moreover have "dropWhile is_whitespace (rev s) = rev s"
    using assms by (cases s rule: rev_cases) auto
  ultimately show ?thesis by (simp add: trim_def)
qed

lemma trim_sentence: "trim (sentence r) = sentence r"
  by (rule trim_id; cases r) (simp_all add: MANDATORY_def lit_def is_whitespace_def)

lemma condition_sentence_comma: "condition_ok c \<Longrightarrow> 44 \<notin> set (condition_sentence c)"
  using provider_name_not [of _ 44] window_label_chars decimal_chars [of 44]
  by (cases c) (auto simp: lit_def)

lemma parse_rule_sentence:
  assumes "rule_ok r"
  shows "parse_rule (sentence r) = Ok r"
proof (cases r)
  case (Failover c a)
  let ?body = "condition_sentence c @ lit '', dann '' @ action_sentence a"
  have ne: "sentence r \<noteq> MANDATORY" by (simp add: Failover MANDATORY_def lit_def)
  have "split_once (lit '', dann '') ?body = Some (condition_sentence c, action_sentence a)"
    using condition_sentence_comma assms Failover
    by (intro split_once_here [of _ "[]" 44 "lit '' dann ''"]) (auto simp: lit_def)
  moreover have "strip_suffix (lit ''.'') (?body @ lit ''.'') = Some ?body"
    by (rule strip_suffix_append)
  moreover have "strip_prefix (lit ''Wenn '') (sentence r) = Some (?body @ lit ''.'')"
    using strip_prefix_append [of "lit ''Wenn ''" "?body @ lit ''.''"] by (simp add: Failover)
  ultimately have cut: "opt_then (opt_then (strip_prefix (lit ''Wenn '') (sentence r)) (strip_suffix (lit ''.'')))
      (split_once (lit '', dann '')) = Some (condition_sentence c, action_sentence a)"
    by (simp only: opt_then_simps)
  then show ?thesis
    using assms ne Failover parse_condition_sentence parse_action_sentence
    unfolding parse_rule_def trim_sentence Let_def cut by simp
qed (simp add: parse_rule_def trim_sentence [of PauseInsteadOfBill, simplified])

lemma parse_rule_Ok:
  assumes "parse_rule s = Ok r"
  shows "rule_ok r \<and> sentence r = trim s"
proof (cases "trim s = MANDATORY")
  case True
  with assms show ?thesis by (auto simp: parse_rule_def)
next
  case False
  then obtain b cond action c a where
    "trim s = lit ''Wenn '' @ b @ lit ''.''" "split_once (lit '', dann '') b = Some (cond, action)"
    "parse_condition cond = Ok c" "parse_action action = Ok a" "r = Failover c a"
    using assms
    by (auto simp: parse_rule_def Let_def and_then_Ok ok_or_Ok strip_prefix_Some strip_suffix_Some)
  then show ?thesis
    using parse_condition_Ok parse_action_Ok by (auto dest!: split_once_Some)
qed


section \<open>The rule set under calls\<close>

datatype rule_call = AddRule rule | RemoveRule nat | SetEnabled nat bool

fun apply_rule_call :: "rule_set \<Rightarrow> rule_call \<Rightarrow> ustr + rule_set" where
  "apply_rule_call rs (AddRule r) = add_rule r rs"
| "apply_rule_call rs (RemoveRule i) = remove_rule i rs"
| "apply_rule_call rs (SetEnabled i e) = set_enabled i e rs"

definition after_rule_call :: "rule_set \<Rightarrow> rule_call \<Rightarrow> rule_set" where
  "after_rule_call rs c = (case apply_rule_call rs c of Err _ \<Rightarrow> rs | Ok rs' \<Rightarrow> rs')"

text \<open>The mandatory rule stands first, is on, and no rule is there twice.\<close>

definition rules_ok :: "rule_set \<Rightarrow> bool" where
  "rules_ok rs \<longleftrightarrow>
     (\<exists>rest. rs = (PauseInsteadOfBill, True) # rest) \<and> distinct (map fst rs)"

lemma changeable_pos: "rules_ok rs \<Longrightarrow> changeable i rs = Ok u \<Longrightarrow> 0 < i \<and> i < length rs"
  by (cases i) (auto simp: changeable_def rules_ok_def split: if_splits)

lemma distinct_remove: "distinct xs \<Longrightarrow> distinct (take i xs @ drop (Suc i) xs)"
proof (induction xs arbitrary: i)
  case (Cons x xs)
  then show ?case by (cases i) (auto dest: in_set_takeD in_set_dropD)
qed simp

lemma rules_ok_call:
  assumes ok: "rules_ok rs" and c: "apply_rule_call rs c = Ok rs'"
  shows "rules_ok rs'"
proof (cases c)
  case (AddRule r)
  with assms show ?thesis
    by (auto simp: rules_ok_def add_rule_def list_ex_iff image_iff split: if_splits) fastforce+
next
  case (RemoveRule i)
  with c obtain u where u: "changeable i rs = Ok u" and rs': "rs' = take i rs @ drop (Suc i) rs"
    by (auto simp: remove_rule_def and_then_Ok)
  obtain rest where rest: "rs = (PauseInsteadOfBill, True) # rest" using ok by (auto simp: rules_ok_def)
  obtain k where "i = Suc k" using changeable_pos [OF ok u] by (cases i) auto
  then have "rs' = (PauseInsteadOfBill, True) # take k rest @ drop (Suc k) rest"
    by (simp add: rs' rest)
  moreover have "distinct (map fst rs')"
    using ok distinct_remove [of "map fst rs" i] by (simp add: rules_ok_def rs' take_map drop_map)
  ultimately show ?thesis unfolding rules_ok_def by blast
next
  case (SetEnabled i e)
  with c obtain u where u: "changeable i rs = Ok u" and rs': "rs' = rs[i := (fst (rs ! i), e)]"
    by (auto simp: set_enabled_def and_then_Ok)
  from changeable_pos [OF ok u] obtain k where k: "i = Suc k" "i < length rs" by (cases i) auto
  have "map fst rs' = map fst rs"
    using k(2) by (simp add: rs' map_update) (metis list_update_id nth_map)
  moreover have "\<exists>rest. rs' = (PauseInsteadOfBill, True) # rest"
    using ok k by (auto simp: rules_ok_def rs')
  ultimately show ?thesis using ok by (simp add: rules_ok_def)
qed

interpretation rules: machine after_rule_call rules_ok
  by unfold_locales (auto simp: after_rule_call_def intro: rules_ok_call split: sum.splits)

lemma new_rule_set_ok: "rules_ok new_rule_set"
  by (simp add: rules_ok_def new_rule_set_def)

section \<open>The walk without a bound\<close>

text \<open>Where the walk from a position leads, however many rounds it takes.\<close>

inductive leads ::
  "rule_set \<Rightarrow> ustr list \<Rightarrow> (ustr \<rightharpoonup> provider_state) \<Rightarrow> nat \<Rightarrow> ustr \<Rightarrow> bool"
  for rs chain states where
  here: "walk_round rs chain states at = Chosen i \<Longrightarrow> leads rs chain states at i"
| onward: "walk_round rs chain states at = Walk to \<Longrightarrow> leads rs chain states to i
           \<Longrightarrow> leads rs chain states at i"

lemma walk_leads: "walk n rs chain states at = Some i \<Longrightarrow> leads rs chain states at i"
  by (induction n arbitrary: at) (auto intro: leads.intros split: walk_step.splits)

lemma leads_walk: "leads rs chain states at i \<Longrightarrow> \<exists>n. walk n rs chain states at = Some i"
proof (induction rule: leads.induct)
  case (here at i)
  then have "walk 1 rs chain states at = Some i" by simp
  then show ?case ..
next
  case (onward at to i)
  then obtain n where "walk n rs chain states to = Some i" by blast
  with onward(1) have "walk (Suc n) rs chain states at = Some i" by simp
  then show ?case ..
qed

lemma walk_more: "walk n rs chain states at = Some i \<Longrightarrow> walk (n + m) rs chain states at = Some i"
  by (induction n arbitrary: at) (auto split: walk_step.splits)

lemma walk_round_end: "length chain \<le> at \<Longrightarrow> walk_round rs chain states at = Paused"
  by (simp add: walk_round_def)

text \<open>A walk that needs \<open>k\<close> rounds meets, for every smaller number, a position that needs exactly so many.\<close>

definition needs ::
  "rule_set \<Rightarrow> ustr list \<Rightarrow> (ustr \<rightharpoonup> provider_state) \<Rightarrow> nat \<Rightarrow> nat \<Rightarrow> bool" where
  "needs rs chain states k at \<longleftrightarrow>
     walk (Suc k) rs chain states at \<noteq> None \<and> walk k rs chain states at = None"

lemma needs_position: "needs rs chain states k at \<Longrightarrow> at < length chain"
  by (rule ccontr) (simp add: needs_def walk_round_end)

lemma needs_Suc: "needs rs chain states (Suc k) at \<Longrightarrow> \<exists>to. needs rs chain states k to"
  by (auto simp: needs_def split: walk_step.splits)

lemma needs_below: "needs rs chain states k at \<Longrightarrow> j \<le> k \<Longrightarrow> \<exists>p. needs rs chain states j p"
proof (induction k arbitrary: at)
  case (Suc k)
  then show ?case using needs_Suc [OF Suc.prems(1)] by (cases "j = Suc k") auto
qed auto

lemma needs_unique:
  assumes "needs rs chain states j p" "needs rs chain states k p"
  shows "j = k"
proof -
  have le: "a \<le> b" if a: "needs rs chain states a p" and b: "needs rs chain states b p" for a b
  proof (rule ccontr)
    assume "\<not> a \<le> b"
    then obtain m where m: "a = Suc b + m" by (metis add_Suc less_iff_Suc_add linorder_not_le)
    obtain i where "walk (Suc b) rs chain states p = Some i" using b by (auto simp: needs_def)
    from walk_more [OF this, of m] a show False by (simp add: needs_def m)
  qed
  show ?thesis using le assms by (simp add: order_antisym)
qed

lemma needs_bound:
  assumes "needs rs chain states k at"
  shows "k < length chain"
proof -
  have "\<forall>j\<in>{..k}. \<exists>p. needs rs chain states j p" using needs_below [OF assms] by simp
  then obtain f where f: "\<And>j. j \<le> k \<Longrightarrow> needs rs chain states j (f j)" by (auto simp: bchoice_iff)
  have "inj_on f {..k}" using f needs_unique by (auto simp: inj_on_def) metis
  moreover have "f ` {..k} \<subseteq> {..<length chain}" using f needs_position by fastforce
  ultimately have "card {..k} \<le> card {..<length chain}" by (intro card_inj_on_le) auto
  then show ?thesis by simp
qed

lemma walk_enough:
  assumes "walk n rs chain states at = Some i"
  shows "walk (length chain) rs chain states at = Some i"
proof -
  define k where "k = (LEAST n. walk n rs chain states at \<noteq> None)"
  have k: "walk k rs chain states at \<noteq> None" unfolding k_def
    by (rule LeastI [of _ n]) (simp add: assms)
  then obtain m where m: "k = Suc m" by (cases k) auto
  then have "walk m rs chain states at = None"
    using not_less_Least [of m "\<lambda>n. walk n rs chain states at \<noteq> None"] unfolding k_def by simp
  with k m have "needs rs chain states m at" by (simp add: needs_def)
  then have "k \<le> length chain" using needs_bound m by fastforce
  then obtain d where d: "length chain = k + d" by (metis le_iff_add)
  obtain i' where i': "walk k rs chain states at = Some i'" using k by auto
  have "walk (k + n) rs chain states at = Some i'" "walk (n + k) rs chain states at = Some i"
    using walk_more [OF i'] walk_more [OF assms] by simp_all
  then have "i' = i" by (simp add: add.commute)
  with walk_more [OF i', of d] d show ?thesis by simp
qed

lemma leads_safe:
  "leads rs chain states at i \<Longrightarrow>
   i \<in> set chain \<and> usable i \<and>
   \<not> blocked (case states i of None \<Rightarrow> default_provider_state | Some s \<Rightarrow> s)"
proof (induction rule: leads.induct)
  case (here at i)
  then have "at < length chain" by (metis linorder_not_le walk_round_end walk_step.distinct(1))
  with here show ?case
    by (auto simp: walk_round_def Let_def
        split: if_splits option.splits failover_action.splits)
qed

section \<open>Properties\<close>

text \<open>
  Rules parse and print to each other exactly.  A sentence parses to a rule if and only if the
  rule is a well-formed one and the sentence, trimmed, is what it prints: printing and
  parsing again is the identity on rules, parsing and printing again on sentences, and
  nothing else is accepted, such as a percentage with a leading zero or a paid provider.
\<close>

theorem rules_parse_exactly_their_sentences:
  "parse_rule s = Ok r \<longleftrightarrow> rule_ok r \<and> trim s = sentence r"
proof
  assume "rule_ok r \<and> trim s = sentence r"
  then have "parse_rule s = parse_rule (sentence r)" "parse_rule (sentence r) = Ok r"
    using parse_rule_sentence by (simp_all add: parse_rule_def trim_sentence)
  then show "parse_rule s = Ok r" by simp
qed (use parse_rule_Ok in metis)

text \<open>
  The bounded loop is the walk.  Twice the length of the chain rounds are as good as
  any number: \<open>resolve\<close> names a provider exactly when the walk, with rules that send it
  back and forth, ever reaches one, so a pause is only a pause rule, the end of the chain or
  a true loop.
\<close>

theorem resolve_is_the_unbounded_walk:
  "resolve rs chain states = Some i \<longleftrightarrow> leads rs chain states 0 i"
proof
  show "resolve rs chain states = Some i \<Longrightarrow> leads rs chain states 0 i"
    by (simp add: resolve_def walk_leads)
next
  assume "leads rs chain states 0 i"
  then obtain n where "walk n rs chain states 0 = Some i" using leads_walk by blast
  from walk_more [OF walk_enough [OF this], of "length chain"]
  show "resolve rs chain states = Some i" by (simp add: resolve_def mult_2_right)
qed

text \<open>
  C13: Failover never leads to a bill.  After any calls on a new rule set the rule
  \<open>Pause statt Rechnung\<close> stands first and is on, no rule is there twice, and a provider that
  \<open>resolve\<close> names is a member of the chain, registered, not billed per call and not blocked.
\<close>

theorem failover_never_pays:
  assumes "resolve (run after_rule_call new_rule_set calls) chain states = Some i"
  shows "run after_rule_call new_rule_set calls ! 0 = (PauseInsteadOfBill, True)
     \<and> distinct (map fst (run after_rule_call new_rule_set calls))
     \<and> i \<in> set chain
     \<and> (\<exists>spec. find_provider i = Some spec \<and> spec_kind spec \<noteq> KIND_API_KEY)
     \<and> \<not> blocked (case states i of None \<Rightarrow> default_provider_state | Some s \<Rightarrow> s)"
proof -
  have "rules_ok (run after_rule_call new_rule_set calls)"
    by (rule rules.inv_run [OF new_rule_set_ok])
  moreover have "i \<in> set chain \<and> usable i \<and>
      \<not> blocked (case states i of None \<Rightarrow> default_provider_state | Some s \<Rightarrow> s)"
    using assms unfolding resolve_def by (intro leads_safe walk_leads)
  ultimately show ?thesis by (auto simp: rules_ok_def usable_def split: option.splits)
qed

definition demo_rules :: "rule_call list" where
  "demo_rules =
     [AddRule (projr (parse_rule (lit ''Wenn Claude blockiert ist, dann weiter mit Codex.''))),
      SetEnabled 0 False, RemoveRule 0]"

definition demo_states :: "ustr \<rightharpoonup> provider_state" where
  "demo_states = [lit ''claude'' \<mapsto> default_provider_state\<lparr>blocked := True\<rparr>]"

lemma demo_resolve:
  "resolve (run after_rule_call new_rule_set demo_rules)
     [lit ''claude'', lit ''openrouter'', lit ''ollama'', lit ''codex''] demo_states = Some (lit ''codex'')"
  by code_simp

theorem failover_never_pays_witness:
  "\<exists>spec. find_provider (lit ''codex'') = Some spec \<and> spec_kind spec \<noteq> KIND_API_KEY"
  using failover_never_pays [OF demo_resolve] by blast

end
