(* ===== verification/Capture_Protocol.thy ===== *)
theory Capture_Protocol
  imports Prelude Rust_Text
begin

text \<open>
  The control protocol of \<open>src-tauri/src/process_capture/protocol.rs\<close>, by which a parent hands a
  launch and its input to a capture host over a pipe: validation, framing with a length
  prefix, the sender \<open>launch_parts\<close> and the receiver with its sequence numbers and byte limits.
  \<open>serde_json\<close> and SHA-256 are parameters: a codec with its documented round trip, and a
  function from bytes to the hexadecimal digest.  A \<open>usize\<close> length is a natural number; a sum
  that would overflow also exceeds the limit it is compared with.
\<close>

section \<open>Limits\<close>

type_synonym byte = "8 word"

definition VERSION :: u32 where "VERSION = 1"
definition MAX_FRAME :: nat where "MAX_FRAME = 262144"
definition MAX_INPUT :: nat where "MAX_INPUT = 1048576"
definition MAX_TIMEOUT_MS :: u64 where "MAX_TIMEOUT_MS = 5400000"
definition HOST_GRACE_MS :: u64 where "HOST_GRACE_MS = 10000"
definition SQLITE_BUSY_TIMEOUT_MS :: u64 where "SQLITE_BUSY_TIMEOUT_MS = 5000"
definition WRITER_DRAIN_OVERLAP_STAGES :: u64 where "WRITER_DRAIN_OVERLAP_STAGES = 3"
definition WRITER_DRAIN_MARGIN_MS :: u64 where "WRITER_DRAIN_MARGIN_MS = 2000"
definition MAX_CHUNK :: nat where "MAX_CHUNK = 16384"
definition MAX_CONTROL_BYTES :: nat where "MAX_CONTROL_BYTES = MAX_FRAME + MAX_INPUT * 5"
definition MAX_MESSAGES :: u64 where "MAX_MESSAGES = 258"

definition READ_CANCELLED :: ustr where
  "READ_CANCELLED = lit ''capture control native read cancelled''"

definition writer_drain_busy_budget_ms :: u64 where
  "writer_drain_busy_budget_ms =
     WRITER_DRAIN_OVERLAP_STAGES * SQLITE_BUSY_TIMEOUT_MS + WRITER_DRAIN_MARGIN_MS"

definition writer_drain_budget_ms :: u64 where
  "writer_drain_budget_ms = min writer_drain_busy_budget_ms HOST_GRACE_MS"

section \<open>Messages\<close>

record binding =
  run_id :: ustr
  session_id :: ustr
  process_instance :: ustr
  capability :: ustr
  route_sha256 :: ustr

record environment =
  env_key :: ustr
  env_value :: ustr

record launch =
  executable :: ustr
  executable_sha256 :: ustr
  args :: "ustr list"
  cwd :: ustr
  environment :: "environment list"
  input_bytes :: nat
  input_sha256 :: ustr
  output_limit :: nat
  timeout_ms :: u64

datatype control =
  Launch launch
| Input nat "byte list"
| InputEnd
| Cancel
| ReceiptObserved u64

record packet =
  schema_version :: u32
  sequence :: u64
  pk_binding :: binding
  message :: control

record prepared =
  pr_binding :: binding
  pr_launch :: launch
  pr_input :: "byte list"

datatype accepted = Pending | Ready prepared | Cancelled | Observed u64

definition input_receipt :: "prepared \<Rightarrow> nat \<times> ustr" where
  "input_receipt p = (input_bytes (pr_launch p), input_sha256 (pr_launch p))"

definition hash_text :: "ustr \<Rightarrow> bool" where
  "hash_text v \<longleftrightarrow> byte_len v = 64 \<and> list_all (\<lambda>b. 48 \<le> b \<and> b \<le> 57 \<or> 97 \<le> b \<and> b \<le> 102) v"

definition is_identifier :: "ustr \<Rightarrow> bool" where
  "is_identifier v \<longleftrightarrow>
     v \<noteq> [] \<and> byte_len v \<le> 128 \<and>
     list_all (\<lambda>b. 48 \<le> b \<and> b \<le> 57 \<or> 65 \<le> b \<and> b \<le> 90 \<or> 97 \<le> b \<and> b \<le> 122 \<or> b \<in> {45, 95, 46}) v"

definition bounded_text :: "ustr \<Rightarrow> bool" where
  "bounded_text v \<longleftrightarrow> int (byte_len v) \<le> 32768 \<and> 0 \<notin> set v"

definition validate_binding :: "binding \<Rightarrow> ustr + unit" where
  "validate_binding b =
     ensure (\<not> (\<not> is_identifier (run_id b) \<or> \<not> is_identifier (session_id b) \<or>
                \<not> is_identifier (process_instance b) \<or> \<not> hash_text (capability b) \<or>
                \<not> hash_text (route_sha256 b)))
       (lit ''invalid capture binding'')"

fun environment_from :: "ustr list \<Rightarrow> environment list \<Rightarrow> bool" where
  "environment_from keys [] \<longleftrightarrow> True"
| "environment_from keys (e # es) \<longleftrightarrow>
     env_key e \<noteq> [] \<and> byte_len (env_key e) \<le> 256 \<and>
     list_all (\<lambda>b. 33 \<le> b \<and> b \<le> 126 \<and> b \<noteq> 61) (env_key e) \<and>
     bounded_text (env_value e) \<and>
     to_ascii_lowercase (env_key e) \<notin> set keys \<and>
     environment_from (to_ascii_lowercase (env_key e) # keys) es"

definition valid_environment :: "environment list \<Rightarrow> bool" where
  "valid_environment es = environment_from [] es"

definition validate_launch :: "launch \<Rightarrow> ustr + unit" where
  "validate_launch l =
     ensure (\<not> (executable l = [] \<or> cwd l = [] \<or>
                \<not> bounded_text (executable l) \<or> \<not> bounded_text (cwd l) \<or>
                \<not> hash_text (executable_sha256 l) \<or> \<not> hash_text (input_sha256 l) \<or>
                256 < length (args l) \<or> \<not> list_all bounded_text (args l) \<or>
                512 < length (environment l) \<or> \<not> valid_environment (environment l) \<or>
                MAX_INPUT < input_bytes l \<or>
                output_limit l = 0 \<or> MAX_INPUT < output_limit l \<or>
                timeout_ms l = 0 \<or> MAX_TIMEOUT_MS < timeout_ms l))
       (lit ''invalid bounded capture launch'')"

section \<open>Framing\<close>

text \<open>
  What the code takes from \<open>serde_json\<close> and \<open>sha2\<close>: rendering and parsing of packets and of
  launches, and the digest in lower-case hexadecimal.
\<close>

record services =
  render_packet :: "packet \<Rightarrow> byte list option"
  parse_packet :: "byte list \<Rightarrow> packet option"
  render_launch :: "launch \<Rightarrow> byte list option"
  sha256 :: "byte list \<Rightarrow> ustr"

definition packet_roundtrip :: "services \<Rightarrow> bool" where
  "packet_roundtrip sv \<longleftrightarrow> (\<forall>p b. render_packet sv p = Some b \<longrightarrow> parse_packet sv b = Some p)"

definition launch_digest :: "services \<Rightarrow> launch \<Rightarrow> ustr + ustr" where
  "launch_digest sv l =
     and_then (validate_launch l) (\<lambda>_.
     and_then (ok_or (render_launch sv l) (lit ''launch serialization failed'')) (\<lambda>bytes.
     Ok (sha256 sv bytes)))"

text \<open>\<open>to_be_bytes\<close> and \<open>from_be_bytes\<close> of a 32-bit length.\<close>

definition be_bytes :: "nat \<Rightarrow> byte list" where
  "be_bytes n =
     [word_of_nat (n div 16777216), word_of_nat (n div 65536), word_of_nat (n div 256), word_of_nat n]"

definition from_be :: "byte list \<Rightarrow> nat" where
  "from_be bs = foldl (\<lambda>v b. 256 * v + unat b) 0 bs"

text \<open>A writer: what it has taken, after how many further bytes it fails, if ever, and its flush.\<close>

record writer =
  taken_bytes :: "byte list"
  fails_after :: "nat option"
  flush_fails :: bool

definition write_all :: "byte list \<Rightarrow> writer \<Rightarrow> (ustr + unit) \<times> writer" where
  "write_all bs w =
     (case fails_after w of
        None \<Rightarrow> (Ok (), w\<lparr>taken_bytes := taken_bytes w @ bs\<rparr>)
      | Some n \<Rightarrow>
          if length bs \<le> n
          then (Ok (), w\<lparr>taken_bytes := taken_bytes w @ bs, fails_after := Some (n - length bs)\<rparr>)
          else (Err (lit ''capture frame write failed''),
                w\<lparr>taken_bytes := taken_bytes w @ take n bs, fails_after := Some 0\<rparr>))"

definition flush :: "writer \<Rightarrow> (ustr + unit) \<times> writer" where
  "flush w = ((if flush_fails w then Err (lit ''capture frame flush failed'') else Ok ()), w)"

definition then_write :: "(ustr + unit) \<times> 'w \<Rightarrow> ('w \<Rightarrow> (ustr + unit) \<times> 'w) \<Rightarrow> (ustr + unit) \<times> 'w" where
  "then_write r k = (case r of (Err e, w) \<Rightarrow> (Err e, w) | (Ok _, w) \<Rightarrow> k w)"

definition write_packet :: "services \<Rightarrow> packet \<Rightarrow> writer \<Rightarrow> (ustr + unit) \<times> writer" where
  "write_packet sv p w =
     (case render_packet sv p of
        None \<Rightarrow> (Err (lit ''capture frame serialization failed''), w)
      | Some bytes \<Rightarrow>
          if bytes = [] \<or> MAX_FRAME < length bytes
          then (Err (lit ''capture frame length exceeded''), w)
          else then_write (write_all (be_bytes (length bytes)) w) (\<lambda>w.
               then_write (write_all bytes w) flush))"

text \<open>A \<open>Vec\<close> is a writer that never fails.\<close>

definition new_vec :: writer where
  "new_vec = \<lparr>taken_bytes = [], fails_after = None, flush_fails = False\<rparr>"

function chunks :: "nat \<Rightarrow> 'a list \<Rightarrow> 'a list list" where
  "chunks n xs = (if xs = [] \<or> n = 0 then [] else take n xs # chunks n (drop n xs))"
  by pat_completeness auto

termination
  by (relation "measure (\<lambda>(n, xs). length xs)") auto

declare chunks.simps [simp del]

fun input_frames ::
  "services \<Rightarrow> binding \<Rightarrow> nat \<Rightarrow> u64 \<Rightarrow> byte list list \<Rightarrow> writer \<Rightarrow> (ustr + unit) \<times> writer" where
  "input_frames sv b index sq [] w =
     write_packet sv \<lparr>schema_version = VERSION, sequence = sq, pk_binding = b, message = InputEnd\<rparr> w"
| "input_frames sv b index sq (c # cs) w =
     then_write
       (write_packet sv \<lparr>schema_version = VERSION, sequence = sq, pk_binding = b,
          message = Input (index * MAX_CHUNK) c\<rparr> w)
       (input_frames sv b (Suc index) (sq + 1) cs)"

definition launch_parts ::
  "services \<Rightarrow> binding \<Rightarrow> launch \<Rightarrow> byte list \<Rightarrow> ustr + (byte list \<times> byte list)" where
  "launch_parts sv b l input =
     and_then (validate_binding b) (\<lambda>_.
     and_then (validate_launch l) (\<lambda>_.
     and_then (ensure (\<not> (length input \<noteq> input_bytes l \<or> sha256 sv input \<noteq> input_sha256 l))
         (lit ''capture input receipt mismatch'')) (\<lambda>_.
     (case write_packet sv \<lparr>schema_version = VERSION, sequence = 0, pk_binding = b,
              message = Launch l\<rparr> new_vec of
        (Err e, _) \<Rightarrow> Err e
      | (Ok _, header) \<Rightarrow>
         (case input_frames sv b 0 1 (chunks MAX_CHUNK input) new_vec of
            (Err e, _) \<Rightarrow> Err e
          | (Ok _, frames) \<Rightarrow> Ok (taken_bytes header, taken_bytes frames))))))"

definition write_launch ::
  "services \<Rightarrow> binding \<Rightarrow> launch \<Rightarrow> byte list \<Rightarrow> writer \<Rightarrow> (ustr + unit) \<times> writer" where
  "write_launch sv b l input w =
     (case launch_parts sv b l input of
        Err e \<Rightarrow> (Err e, w)
      | Ok (header, frames) \<Rightarrow>
          then_write (write_all header w) (\<lambda>w. then_write (write_all frames w) flush))"

section \<open>The receiver\<close>

text \<open>
  A reader: the bytes it will deliver, and what it reports after them, an operating system
  error with its code or the end of the file.  \<open>windows\<close> is the build.
\<close>

record reader =
  pending :: "byte list"
  os_error :: "int option"

definition read_failure :: "bool \<Rightarrow> reader \<Rightarrow> ustr \<Rightarrow> ustr" where
  "read_failure windows rd fallback =
     (if windows \<and> os_error rd = Some 995 then READ_CANCELLED else fallback)"

definition read_exact :: "bool \<Rightarrow> nat \<Rightarrow> ustr \<Rightarrow> reader \<Rightarrow> (ustr + byte list) \<times> reader" where
  "read_exact windows n fallback rd =
     (if n \<le> length (pending rd)
      then (Ok (take n (pending rd)), rd\<lparr>pending := drop n (pending rd)\<rparr>)
      else (Err (read_failure windows rd fallback), rd\<lparr>pending := []\<rparr>))"

definition read_packet ::
  "services \<Rightarrow> bool \<Rightarrow> nat \<Rightarrow> reader \<Rightarrow> (ustr + packet) \<times> nat \<times> reader" where
  "read_packet sv windows wire rd =
     (case read_exact windows 4 (lit ''capture frame ended before length'') rd of
        (Err e, rd) \<Rightarrow> (Err e, wire, rd)
      | (Ok prefix, rd) \<Rightarrow>
          let count = from_be prefix in
          if count = 0 \<or> MAX_FRAME < count
          then (Err (lit ''capture frame length exceeded''), wire, rd)
          else if MAX_CONTROL_BYTES < wire + (4 + count)
          then (Err (lit ''capture control byte limit exceeded''), wire, rd)
          else
            (case read_exact windows count (lit ''capture frame ended before payload'') rd of
               (Err e, rd) \<Rightarrow> (Err e, wire + (4 + count), rd)
             | (Ok bytes, rd) \<Rightarrow>
                 (ok_or (parse_packet sv bytes) (lit ''malformed capture frame''),
                  wire + (4 + count), rd)))"

record receiver =
  rx_binding :: "binding option"
  rx_launch :: "launch option"
  rx_input :: "byte list"
  rx_next :: u64
  rx_wire_bytes :: nat
  sealed :: bool
  failed :: bool
  observed :: bool

definition new_receiver :: receiver where
  "new_receiver =
     \<lparr> rx_binding = None, rx_launch = None, rx_input = [], rx_next = 0, rx_wire_bytes = 0,
       sealed = False, failed = False, observed = False \<rparr>"

definition launch_header :: "receiver \<Rightarrow> (binding \<times> launch) option" where
  "launch_header r =
     (if failed r \<or> rx_next r \<noteq> 1 then None
      else case rx_binding r of
             None \<Rightarrow> None
           | Some b \<Rightarrow> map_option (\<lambda>l. (b, l)) (rx_launch r))"

definition finish_reading :: "bool \<Rightarrow> receiver \<Rightarrow> reader \<Rightarrow> (ustr + unit) \<times> receiver" where
  "finish_reading windows r rd =
     (if failed r \<or> \<not> observed r
      then (Err (lit ''capture terminal acknowledgement missing''), r)
      else
        ((if pending rd \<noteq> [] then Err (lit ''extra control after terminal acknowledgement'')
          else if os_error rd = None then Ok ()
          else Err (read_failure windows rd (lit ''capture terminal EOF unavailable''))),
         r\<lparr>failed := True\<rparr>))"

definition accept_input :: "receiver \<Rightarrow> nat \<Rightarrow> byte list \<Rightarrow> (ustr + accepted) \<times> receiver" where
  "accept_input r offset bytes =
     (case rx_launch r of
        None \<Rightarrow> (Err (lit ''input outside capture delivery''), r)
      | Some l \<Rightarrow>
          if sealed r \<or> bytes = [] \<or> MAX_CHUNK < length bytes \<or> offset \<noteq> length (rx_input r) \<or>
             input_bytes l - length (rx_input r) < length bytes
          then (Err (lit ''capture input offset or length mismatch''), r)
          else (Ok Pending, r\<lparr>rx_input := rx_input r @ bytes\<rparr>))"

definition accept_end :: "services \<Rightarrow> receiver \<Rightarrow> (ustr + accepted) \<times> receiver" where
  "accept_end sv r =
     (case rx_launch r of
        None \<Rightarrow> (Err (lit ''input end outside capture delivery''), r)
      | Some l \<Rightarrow>
          if sealed r \<or> length (rx_input r) \<noteq> input_bytes l \<or> sha256 sv (rx_input r) \<noteq> input_sha256 l
          then (Err (lit ''capture input receipt mismatch''), r)
          else
            (case rx_binding r of
               None \<Rightarrow> (Err (lit ''capture binding absent''), r\<lparr>sealed := True\<rparr>)
             | Some b \<Rightarrow>
                 (Ok (Ready \<lparr>pr_binding = b, pr_launch = l, pr_input = rx_input r\<rparr>),
                  r\<lparr>sealed := True, rx_launch := None, rx_input := []\<rparr>)))"

definition accept_message ::
  "services \<Rightarrow> receiver \<Rightarrow> packet \<Rightarrow> (ustr + accepted) \<times> receiver" where
  "accept_message sv r p =
     (case message p of
        ReceiptObserved n \<Rightarrow>
          if \<not> sealed r \<or> rx_launch r \<noteq> None
          then (Err (lit ''receipt outside prepared capture''), r)
          else (Ok (Observed n), r\<lparr>observed := True\<rparr>)
      | Launch l \<Rightarrow>
          if rx_binding r \<noteq> None \<or> sealed r then (Err (lit ''duplicate capture launch''), r)
          else (case validate_launch l of
                  Err e \<Rightarrow> (Err e, r)
                | Ok _ \<Rightarrow> (Ok Pending, r\<lparr>rx_binding := Some (pk_binding p), rx_launch := Some l\<rparr>))
      | Input offset bytes \<Rightarrow> accept_input r offset bytes
      | InputEnd \<Rightarrow> accept_end sv r
      | Cancel \<Rightarrow> (Ok Cancelled, r\<lparr>sealed := True, failed := True, rx_input := [], rx_launch := None\<rparr>))"

fun is_launch :: "control \<Rightarrow> bool" where
  "is_launch (Launch _) \<longleftrightarrow> True"
| "is_launch _ \<longleftrightarrow> False"

definition accept_packet :: "services \<Rightarrow> receiver \<Rightarrow> packet \<Rightarrow> (ustr + accepted) \<times> receiver" where
  "accept_packet sv r p =
     (if schema_version p \<noteq> VERSION \<or> observed r \<or> sequence p \<noteq> rx_next r \<or> MAX_MESSAGES \<le> rx_next r
      then (Err (lit ''capture version or sequence mismatch''), r)
      else
        case validate_binding (pk_binding p) of
          Err e \<Rightarrow> (Err e, r)
        | Ok _ \<Rightarrow>
            if (case rx_binding r of Some b \<Rightarrow> b \<noteq> pk_binding p | None \<Rightarrow> False)
            then (Err (lit ''capture binding mismatch''), r)
            else if rx_binding r = None \<and> \<not> is_launch (message p)
            then (Err (lit ''capture launch must be first''), r)
            else accept_message sv (r\<lparr>rx_next := rx_next r + 1\<rparr>) p)"

definition read_control ::
  "services \<Rightarrow> bool \<Rightarrow> receiver \<Rightarrow> reader \<Rightarrow> (ustr + accepted) \<times> receiver \<times> reader" where
  "read_control sv windows r rd =
     (if failed r then (Err (lit ''capture receiver is invalidated''), r, rd)
      else
        case read_packet sv windows (rx_wire_bytes r) rd of
          (result, wire, rd') \<Rightarrow>
            let r = r\<lparr>rx_wire_bytes := wire\<rparr>;
                (out, r) = (case result of Err e \<Rightarrow> (Err e, r) | Ok p \<Rightarrow> accept_packet sv r p)
            in case out of
                 Err e \<Rightarrow> (Err e, r\<lparr>failed := True, rx_input := [], rx_launch := None\<rparr>, rd')
               | Ok a \<Rightarrow> (Ok a, r, rd'))"

text \<open>
  \<open>prepare_buffer\<close>: a whole batch in memory.  Every round that goes on has consumed a frame, so the
  length of the batch bounds the rounds.
\<close>

fun prepare_loop ::
  "nat \<Rightarrow> services \<Rightarrow> bool \<Rightarrow> receiver \<Rightarrow> reader \<Rightarrow> (ustr + prepared) option" where
  "prepare_loop 0 sv windows r rd = None"
| "prepare_loop (Suc n) sv windows r rd =
     (case read_control sv windows r rd of
        (Err e, _) \<Rightarrow> Some (Err e)
      | (Ok Pending, r, rd) \<Rightarrow> prepare_loop n sv windows r rd
      | (Ok Cancelled, _) \<Rightarrow> Some (Err (lit ''capture launch cancelled''))
      | (Ok (Observed _), _) \<Rightarrow> Some (Err (lit ''receipt outside live capture''))
      | (Ok (Ready p), _, rd) \<Rightarrow>
          Some (if pending rd \<noteq> [] then Err (lit ''extra capture frames after input end'') else Ok p))"

definition prepare_buffer :: "services \<Rightarrow> bool \<Rightarrow> byte list \<Rightarrow> (ustr + prepared) option" where
  "prepare_buffer sv windows bytes =
     (if MAX_CONTROL_BYTES < length bytes
      then Some (Err (lit ''capture control batch exceeded limit''))
      else prepare_loop (Suc (length bytes)) sv windows new_receiver \<lparr>pending = bytes, os_error = None\<rparr>)"

section \<open>The receiver against any bytes\<close>

definition after_read :: "services \<Rightarrow> bool \<Rightarrow> receiver \<Rightarrow> reader \<Rightarrow> receiver" where
  "after_read sv windows r rd = fst (snd (read_control sv windows r rd))"

fun outcomes :: "services \<Rightarrow> bool \<Rightarrow> receiver \<Rightarrow> reader list \<Rightarrow> (ustr + accepted) list" where
  "outcomes sv windows r [] = []"
| "outcomes sv windows r (rd # rds) =
     fst (read_control sv windows r rd) # outcomes sv windows (after_read sv windows r rd) rds"

definition receiver_ok :: "receiver \<Rightarrow> bool" where
  "receiver_ok r \<longleftrightarrow>
     rx_wire_bytes r \<le> MAX_CONTROL_BYTES \<and> unat (rx_next r) \<le> 258 \<and>
     (\<forall>b. rx_binding r = Some b \<longrightarrow> validate_binding b = Ok ()) \<and>
     (case rx_launch r of
        None \<Rightarrow> rx_input r = []
      | Some l \<Rightarrow> validate_launch l = Ok () \<and> rx_binding r \<noteq> None \<and> \<not> sealed r \<and>
                  length (rx_input r) \<le> input_bytes l)"

lemma validate_launch_bound: "validate_launch l = Ok u \<Longrightarrow> input_bytes l \<le> MAX_INPUT"
  by (auto simp: validate_launch_def ensure_Ok)

lemma receiver_ok_memory: "receiver_ok r \<Longrightarrow> length (rx_input r) \<le> MAX_INPUT"
  by (auto simp: receiver_ok_def split: option.splits dest!: validate_launch_bound)

text \<open>What a packet may do to a receiver, and what a launch that is handed out was checked for.\<close>

definition checked :: "services \<Rightarrow> prepared \<Rightarrow> bool" where
  "checked sv p \<longleftrightarrow>
     validate_binding (pr_binding p) = Ok () \<and> validate_launch (pr_launch p) = Ok () \<and>
     length (pr_input p) = input_bytes (pr_launch p) \<and>
     sha256 sv (pr_input p) = input_sha256 (pr_launch p)"

fun is_ready :: "ustr + accepted \<Rightarrow> bool" where
  "is_ready (Ok (Ready _)) \<longleftrightarrow> True"
| "is_ready _ \<longleftrightarrow> False"

fun outcome_ok :: "services \<Rightarrow> ustr + accepted \<Rightarrow> bool" where
  "outcome_ok sv (Ok (Ready p)) \<longleftrightarrow> checked sv p"
| "outcome_ok sv _ \<longleftrightarrow> True"

definition turn_ok :: "services \<Rightarrow> receiver \<Rightarrow> (ustr + accepted) \<times> receiver \<Rightarrow> bool" where
  "turn_ok sv r t \<longleftrightarrow>
     outcome_ok sv (fst t) \<and> (is_ok (fst t) \<longrightarrow> receiver_ok (snd t)) \<and>
     (sealed r \<longrightarrow> sealed (snd t) \<and> \<not> is_ready (fst t)) \<and> (is_ready (fst t) \<longrightarrow> sealed (snd t)) \<and>
     rx_wire_bytes (snd t) \<le> MAX_CONTROL_BYTES \<and> unat (rx_next (snd t)) \<le> 258 \<and>
     (\<forall>b. rx_binding (snd t) = Some b \<longrightarrow> validate_binding b = Ok ())"

lemma turn_err:
  "receiver_ok r \<Longrightarrow> turn_ok sv r (Err e, r)"
  by (auto simp: turn_ok_def receiver_ok_def)

lemma turn_input:
  assumes "receiver_ok r"
  shows "turn_ok sv r (accept_input r offset bytes)"
  using assms by (auto simp: accept_input_def turn_ok_def receiver_ok_def split: option.splits)

lemma turn_end:
  assumes "receiver_ok r"
  shows "turn_ok sv r (accept_end sv r)"
  using assms by (auto simp: accept_end_def turn_ok_def receiver_ok_def checked_def split: option.splits)

lemma turn_message:
  assumes "receiver_ok r" and "validate_binding (pk_binding p) = Ok ()"
  shows "turn_ok sv r (accept_message sv r p)"
proof (cases "message p")
  case (Launch l)
  with assms show ?thesis
    by (auto simp: accept_message_def turn_ok_def receiver_ok_def split: sum.splits option.splits)
next
  case (Input offset bytes)
  with turn_input [OF assms(1)] show ?thesis by (simp add: accept_message_def)
next
  case InputEnd
  with turn_end [OF assms(1)] show ?thesis by (simp add: accept_message_def)
next
  case Cancel
  with assms show ?thesis by (auto simp: accept_message_def turn_ok_def receiver_ok_def)
next
  case (ReceiptObserved n)
  with assms show ?thesis
    by (auto simp: accept_message_def turn_ok_def receiver_ok_def split: option.splits)
qed

lemma next_message: "\<not> MAX_MESSAGES \<le> n \<Longrightarrow> unat (n + 1) = Suc (unat n) \<and> Suc (unat n) \<le> 258"
proof -
  assume "\<not> MAX_MESSAGES \<le> n"
  then have "unat n < 258" by (simp add: MAX_MESSAGES_def word_le_nat_alt)
  then show ?thesis by (simp add: unat_plus_if')
qed

lemma turn_packet:
  assumes "receiver_ok r"
  shows "turn_ok sv r (accept_packet sv r p)"
proof (cases "accept_packet sv r p = accept_message sv (r\<lparr>rx_next := rx_next r + 1\<rparr>) p
    \<and> validate_binding (pk_binding p) = Ok () \<and> \<not> MAX_MESSAGES \<le> rx_next r")
  case True
  then have "receiver_ok (r\<lparr>rx_next := rx_next r + 1\<rparr>)"
    using assms next_message [of "rx_next r"] by (simp add: receiver_ok_def split: option.splits)
  from turn_message [OF this, of p sv] True show ?thesis by (simp add: turn_ok_def)
next
  case False
  then have "\<exists>e. accept_packet sv r p = (Err e, r)"
    by (auto simp: accept_packet_def split: sum.splits)
  with turn_err [OF assms] show ?thesis by auto
qed

lemma read_packet_wire:
  "read_packet sv windows wire rd = (x, wire', rd') \<Longrightarrow> wire \<le> MAX_CONTROL_BYTES \<Longrightarrow> wire' \<le> MAX_CONTROL_BYTES"
  by (auto simp: read_packet_def Let_def split: sum.splits prod.splits if_splits)

lemma read_control_ok:
  assumes ok: "receiver_ok r"
  shows "receiver_ok (after_read sv windows r rd)"
    and "outcome_ok sv (fst (read_control sv windows r rd))"
    and "sealed r \<Longrightarrow> sealed (after_read sv windows r rd) \<and> \<not> is_ready (fst (read_control sv windows r rd))"
    and "is_ready (fst (read_control sv windows r rd)) \<Longrightarrow> sealed (after_read sv windows r rd)"
    and "\<not> is_ok (fst (read_control sv windows r rd)) \<Longrightarrow> failed (after_read sv windows r rd)"
proof -
  obtain x wire rd' where rp: "read_packet sv windows (rx_wire_bytes r) rd = (x, wire, rd')"
    by (metis prod_cases3)
  let ?r = "r\<lparr>rx_wire_bytes := wire\<rparr>"
  let ?t = "case x of Err e \<Rightarrow> (Err e, ?r) | Ok p \<Rightarrow> accept_packet sv ?r p"
  have "receiver_ok ?r"
    using ok read_packet_wire [OF rp] by (simp add: receiver_ok_def split: option.splits)
  then have t: "turn_ok sv ?r ?t" using turn_err turn_packet by (auto split: sum.splits)
  obtain out r2 where t2: "?t = (out, r2)" by (cases ?t)
  have rc: "read_control sv windows r rd =
     (if failed r then (Err (lit ''capture receiver is invalidated''), r, rd)
      else case out of
             Err e \<Rightarrow> (Err e, r2\<lparr>failed := True, rx_input := [], rx_launch := None\<rparr>, rd')
           | Ok a \<Rightarrow> (Ok a, r2, rd'))"
    unfolding read_control_def rp Let_def by (simp add: t2 [unfolded Let_def])
  from t have t': "outcome_ok sv out" "is_ok out \<Longrightarrow> receiver_ok r2"
    "sealed r \<Longrightarrow> sealed r2 \<and> \<not> is_ready out" "is_ready out \<Longrightarrow> sealed r2"
    "rx_wire_bytes r2 \<le> MAX_CONTROL_BYTES" "unat (rx_next r2) \<le> 258"
    "\<And>b. rx_binding r2 = Some b \<Longrightarrow> validate_binding b = Ok ()"
    unfolding t2 by (auto simp: turn_ok_def)
  show "receiver_ok (after_read sv windows r rd)"
  proof (cases "failed r")
    case True
    then show ?thesis using ok unfolding after_read_def rc by simp
  next
    case False
    then show ?thesis
      using t'(2,5,6,7) unfolding after_read_def rc by (cases out) (simp_all add: receiver_ok_def)
  qed
  show "outcome_ok sv (fst (read_control sv windows r rd))"
    using t'(1) unfolding rc by (cases out) auto
  show "sealed r \<Longrightarrow> sealed (after_read sv windows r rd) \<and> \<not> is_ready (fst (read_control sv windows r rd))"
    using t'(3) unfolding after_read_def rc by (cases out) auto
  show "is_ready (fst (read_control sv windows r rd)) \<Longrightarrow> sealed (after_read sv windows r rd)"
    using t'(4) unfolding after_read_def rc by (cases out) (auto split: if_splits)
  show "\<not> is_ok (fst (read_control sv windows r rd)) \<Longrightarrow> failed (after_read sv windows r rd)"
    unfolding after_read_def rc by (cases out) auto
qed

lemma read_failed:
  "failed r \<Longrightarrow> after_read sv windows r rd = r \<and> \<not> is_ok (fst (read_control sv windows r rd))"
  by (simp add: after_read_def read_control_def)

text \<open>The receiver is a machine on which being sealed and having failed are latches.\<close>

interpretation rx: latched_machine "after_read sv windows" receiver_ok failed for sv windows
  by unfold_locales (auto simp: read_failed intro: read_control_ok)

interpretation rx_sealed: latched_machine "after_read sv windows" receiver_ok sealed for sv windows
  by unfold_locales (use read_control_ok in blast)+

lemma new_receiver_ok: "receiver_ok new_receiver"
  by (simp add: receiver_ok_def new_receiver_def)

lemma outcomes_ok: "receiver_ok r \<Longrightarrow> list_all (outcome_ok sv) (outcomes sv windows r rds)"
  by (induction rds arbitrary: r) (simp_all add: read_control_ok)

lemma sealed_never_ready:
  "receiver_ok r \<Longrightarrow> sealed r \<Longrightarrow> filter is_ready (outcomes sv windows r rds) = []"
  by (induction rds arbitrary: r) (simp_all add: read_control_ok)

lemma ready_once: "receiver_ok r \<Longrightarrow> length (filter is_ready (outcomes sv windows r rds)) \<le> 1"
proof (induction rds arbitrary: r)
  case (Cons rd rds)
  let ?r = "after_read sv windows r rd"
  have ok: "receiver_ok ?r" by (rule read_control_ok(1) [OF Cons.prems])
  show ?case
  proof (cases "is_ready (fst (read_control sv windows r rd))")
    case True
    with read_control_ok(4) [OF Cons.prems] sealed_never_ready [OF ok] show ?thesis by simp
  next
    case False
    with Cons.IH [OF ok] show ?thesis by simp
  qed
qed simp

definition errors_final :: "(ustr + accepted) list \<Rightarrow> bool" where
  "errors_final os \<longleftrightarrow> list_all (\<lambda>x. \<not> is_ok x) (dropWhile is_ok os)"

lemma failed_outcomes: "failed r \<Longrightarrow> list_all (\<lambda>x. \<not> is_ok x) (outcomes sv windows r rds)"
  by (induction rds arbitrary: r) (simp_all add: read_failed)

lemma outcomes_errors_final: "receiver_ok r \<Longrightarrow> errors_final (outcomes sv windows r rds)"
proof (induction rds arbitrary: r)
  case (Cons rd rds)
  then show ?case
    using read_control_ok(1,5) [OF Cons.prems, of sv windows rd] failed_outcomes
    by (auto simp: errors_final_def)
qed (simp add: errors_final_def)


section \<open>What is sent is what is received\<close>

subsection \<open>Frames\<close>

lemma from_be_bytes:
  assumes "n \<le> MAX_FRAME"
  shows "from_be (be_bytes n) = n"
proof -
  let ?a = "n div 256" and ?b = "n div 256 div 256" and ?c = "n div 256 div 256 div 256"
  have div: "n div 65536 = ?b" "n div 16777216 = ?c" by (simp_all flip: div_mult2_eq)
  have "?c < 256" using assms by (simp add: MAX_FRAME_def flip: div_mult2_eq)
  moreover have "256 * ?a + n mod 256 = n" "256 * ?b + ?a mod 256 = ?a" "256 * ?c + ?b mod 256 = ?b"
    by (rule mult_div_mod_eq)+
  moreover have "from_be (be_bytes n) = 256 * (256 * (256 * (?c mod 256) + ?b mod 256) + ?a mod 256) + n mod 256"
    unfolding from_be_def be_bytes_def div by (simp add: unat_of_nat take_bit_eq_mod)
  ultimately show ?thesis by simp
qed

lemma be_bytes_length [simp]: "length (be_bytes n) = 4"
  by (simp add: be_bytes_def)

definition frame :: "byte list \<Rightarrow> byte list" where
  "frame bytes = be_bytes (length bytes) @ bytes"

lemma write_packet_vec:
  assumes "fails_after w = None" and "\<not> flush_fails w"
  shows "write_packet sv p w = (Ok (), w') \<longleftrightarrow>
    (\<exists>b. render_packet sv p = Some b \<and> b \<noteq> [] \<and> length b \<le> MAX_FRAME
         \<and> w' = w\<lparr>taken_bytes := taken_bytes w @ frame b\<rparr>)"
  using assms
  by (auto simp: write_packet_def write_all_def then_write_def flush_def frame_def split: option.splits)

lemma read_frame:
  assumes "packet_roundtrip sv" and "render_packet sv p = Some b" and "b \<noteq> []" and "length b \<le> MAX_FRAME"
    and "wire + length (frame b) \<le> MAX_CONTROL_BYTES" and "pending rd = frame b @ rest"
  shows "read_packet sv windows wire rd = (Ok p, wire + length (frame b), rd\<lparr>pending := rest\<rparr>)"
proof -
  have "parse_packet sv b = Some p" using assms(1,2) by (auto simp: packet_roundtrip_def)
  moreover have "from_be (be_bytes (length b)) = length b" by (rule from_be_bytes [OF assms(4)])
  ultimately show ?thesis
    using assms(3-6)
    by (simp add: read_packet_def read_exact_def frame_def Let_def take_append drop_append)
qed

subsection \<open>Chunks\<close>

fun chunked :: "nat \<Rightarrow> 'a list list \<Rightarrow> bool" where
  "chunked n [] \<longleftrightarrow> True"
| "chunked n [c] \<longleftrightarrow> c \<noteq> [] \<and> length c \<le> n"
| "chunked n (c # d # cs) \<longleftrightarrow> c \<noteq> [] \<and> length c = n \<and> chunked n (d # cs)"

lemma chunks_facts:
  "0 < n \<Longrightarrow> concat (chunks n xs) = xs \<and> chunked n (chunks n xs) \<and> n * length (chunks n xs) < length xs + n"
proof (induction n xs rule: chunks.induct)
  case (1 n xs)
  show ?case
  proof (cases "xs = []")
    case True
    with 1 show ?thesis by (simp add: chunks.simps)
  next
    case False
    then have IH: "concat (chunks n (drop n xs)) = drop n xs" "chunked n (chunks n (drop n xs))"
      "n * length (chunks n (drop n xs)) < length (drop n xs) + n"
      using 1 by auto
    have c: "chunks n xs = take n xs # chunks n (drop n xs)"
      using False 1(2) by (subst chunks.simps) simp
    show ?thesis
    proof (cases "drop n xs = []")
      case True
      then have "chunks n (drop n xs) = []" by (simp add: chunks.simps)
      with c True False 1(2) show ?thesis by simp
    next
      case rest: False
      then obtain d ds where d: "chunks n (drop n xs) = d # ds"
        using 1(2) by (subst (asm) chunks.simps) (cases "chunks n (drop n xs)", auto simp: chunks.simps)
      from rest have "n < length xs" by simp
      with IH d c False 1(2) show ?thesis by simp
    qed
  qed
qed

subsection \<open>A whole launch\<close>

text \<open>The receiver while the input of a launch arrives.\<close>

definition receiving ::
  "receiver \<Rightarrow> binding \<Rightarrow> launch \<Rightarrow> byte list \<Rightarrow> u64 \<Rightarrow> nat \<Rightarrow> bool" where
  "receiving r b l got sq wire \<longleftrightarrow>
     r = \<lparr> rx_binding = Some b, rx_launch = Some l, rx_input = got, rx_next = sq, rx_wire_bytes = wire,
           sealed = False, failed = False, observed = False \<rparr>"

lemma read_chunk:
  assumes r: "receiving r b l got sq wire" and b: "validate_binding b = Ok ()"
    and rt: "packet_roundtrip sv"
    and rend: "render_packet sv \<lparr>schema_version = VERSION, sequence = sq, pk_binding = b,
          message = Input (length got) c\<rparr> = Some bs" "bs \<noteq> []" "length bs \<le> MAX_FRAME"
    and wire: "wire + length (frame bs) \<le> MAX_CONTROL_BYTES" and sq: "\<not> MAX_MESSAGES \<le> sq"
    and c: "c \<noteq> []" "length c \<le> MAX_CHUNK" "length got + length c \<le> input_bytes l"
    and rd: "pending rd = frame bs @ rest"
  shows "\<exists>r'. read_control sv windows r rd = (Ok Pending, r', rd\<lparr>pending := rest\<rparr>)
           \<and> receiving r' b l (got @ c) (sq + 1) (wire + length (frame bs))"
proof -
  have w: "rx_wire_bytes r = wire" using r by (simp add: receiving_def)
  have "read_packet sv windows (rx_wire_bytes r) rd =
      (Ok \<lparr>schema_version = VERSION, sequence = sq, pk_binding = b, message = Input (length got) c\<rparr>,
       wire + length (frame bs), rd\<lparr>pending := rest\<rparr>)"
    unfolding w by (rule read_frame [OF rt rend wire rd])
  then show ?thesis
    using r b sq c
    by (simp add: read_control_def receiving_def accept_packet_def accept_message_def accept_input_def)
qed

lemma read_end:
  assumes r: "receiving r b l input sq wire" and b: "validate_binding b = Ok ()"
    and rt: "packet_roundtrip sv"
    and rend: "render_packet sv \<lparr>schema_version = VERSION, sequence = sq, pk_binding = b,
          message = InputEnd\<rparr> = Some bs" "bs \<noteq> []" "length bs \<le> MAX_FRAME"
    and wire: "wire + length (frame bs) \<le> MAX_CONTROL_BYTES" and sq: "\<not> MAX_MESSAGES \<le> sq"
    and i: "length input = input_bytes l" "sha256 sv input = input_sha256 l"
    and rd: "pending rd = frame bs @ rest"
  shows "\<exists>r'. read_control sv windows r rd =
    (Ok (Ready \<lparr>pr_binding = b, pr_launch = l, pr_input = input\<rparr>), r', rd\<lparr>pending := rest\<rparr>)"
proof -
  have w: "rx_wire_bytes r = wire" using r by (simp add: receiving_def)
  have "read_packet sv windows (rx_wire_bytes r) rd =
      (Ok \<lparr>schema_version = VERSION, sequence = sq, pk_binding = b, message = InputEnd\<rparr>,
       wire + length (frame bs), rd\<lparr>pending := rest\<rparr>)"
    unfolding w by (rule read_frame [OF rt rend wire rd])
  then show ?thesis
    using r b sq i
    by (simp add: read_control_def receiving_def accept_packet_def accept_message_def accept_end_def)
qed

lemma then_write_Ok: "then_write r k = (Ok (), w) \<longleftrightarrow> (\<exists>v. r = (Ok (), v) \<and> k v = (Ok (), w))"
  by (auto simp: then_write_def split: prod.splits sum.splits)

lemma input_frames_more:
  "input_frames sv b index sq cs w = (Ok (), w') \<Longrightarrow> fails_after w = None \<Longrightarrow> \<not> flush_fails w \<Longrightarrow>
   \<exists>s. taken_bytes w' = taken_bytes w @ s \<and> 5 * length cs < length s"
proof (induction cs arbitrary: index sq w)
  case Nil
  then show ?case by (fastforce simp: write_packet_vec frame_def)
next
  case (Cons c cs)
  then obtain v where v: "write_packet sv \<lparr>schema_version = VERSION, sequence = sq,
      pk_binding = b, message = Input (index * MAX_CHUNK) c\<rparr> w = (Ok (), v)"
    "input_frames sv b (Suc index) (sq + 1) cs v = (Ok (), w')" by (auto simp: then_write_Ok)
  from v(1) Cons.prems obtain bs where bs: "bs \<noteq> []" "v = w\<lparr>taken_bytes := taken_bytes w @ frame bs\<rparr>"
    by (auto simp: write_packet_vec)
  then obtain s where "taken_bytes w' = taken_bytes v @ s" "5 * length cs < length s"
    using Cons.IH [OF v(2)] Cons.prems by auto
  moreover have "5 \<le> length (frame bs)" using bs(1) by (cases bs) (auto simp: frame_def)
  ultimately show ?case using bs(2) by (intro exI [of _ "frame bs @ s"]) auto
qed

lemma frames_received:
  assumes "receiving r b l got sq wire" and b: "validate_binding b = Ok ()" and rt: "packet_roundtrip sv"
    and "input_frames sv b index sq cs w = (Ok (), w')" and "fails_after w = None" and "\<not> flush_fails w"
    and "chunked MAX_CHUNK cs" and "length got = index * MAX_CHUNK \<or> cs = []"
    and "length (got @ concat cs) = input_bytes l" and sha: "sha256 sv (got @ concat cs) = input_sha256 l"
    and "unat sq + length cs < 258" and "taken_bytes w' = taken_bytes w @ s"
    and "wire + length s \<le> MAX_CONTROL_BYTES" and "length cs < n" and "os_error rd = None" and "pending rd = s"
  shows "prepare_loop n sv windows r rd = Some (Ok \<lparr>pr_binding = b, pr_launch = l, pr_input = got @ concat cs\<rparr>)"
  using assms
proof (induction cs arbitrary: r got sq wire index w n rd s)
  case Nil
  have sq: "\<not> MAX_MESSAGES \<le> sq" using Nil.prems by (simp add: MAX_MESSAGES_def word_le_nat_alt)
  from Nil.prems obtain bs where bs: "render_packet sv \<lparr>schema_version = VERSION, sequence = sq,
      pk_binding = b, message = InputEnd\<rparr> = Some bs" "bs \<noteq> []" "length bs \<le> MAX_FRAME" "s = frame bs"
    by (auto simp: write_packet_vec)
  obtain r' where "read_control sv windows r rd =
      (Ok (Ready \<lparr>pr_binding = b, pr_launch = l, pr_input = got\<rparr>), r', rd\<lparr>pending := []\<rparr>)"
    using read_end [OF Nil.prems(1) b rt bs(1-3) _ sq, of rd "[]" windows] Nil.prems bs(4) by auto
  moreover obtain m where "n = Suc m" using Nil.prems by (cases n) auto
  ultimately show ?case by simp
next
  case (Cons c cs)
  have sq: "\<not> MAX_MESSAGES \<le> sq" using Cons.prems by (simp add: MAX_MESSAGES_def word_le_nat_alt)
  have off: "index * MAX_CHUNK = length got" using Cons.prems by simp
  have c: "c \<noteq> []" "length c \<le> MAX_CHUNK" "chunked MAX_CHUNK cs" "cs \<noteq> [] \<Longrightarrow> length c = MAX_CHUNK"
    using Cons.prems by (cases cs; auto)+
  from Cons.prems(4) obtain v where v: "write_packet sv \<lparr>schema_version = VERSION, sequence = sq,
      pk_binding = b, message = Input (length got) c\<rparr> w = (Ok (), v)"
    "input_frames sv b (Suc index) (sq + 1) cs v = (Ok (), w')" by (auto simp: then_write_Ok off)
  from v(1) Cons.prems obtain bs where bs: "render_packet sv \<lparr>schema_version = VERSION, sequence = sq,
      pk_binding = b, message = Input (length got) c\<rparr> = Some bs" "bs \<noteq> []" "length bs \<le> MAX_FRAME"
    "v = w\<lparr>taken_bytes := taken_bytes w @ frame bs\<rparr>" by (auto simp: write_packet_vec)
  obtain s' where s': "taken_bytes w' = taken_bytes v @ s'"
    using input_frames_more [OF v(2)] bs(4) Cons.prems by auto
  then have s: "s = frame bs @ s'" using Cons.prems bs(4) by simp
  obtain r' where r': "read_control sv windows r rd = (Ok Pending, r', rd\<lparr>pending := s'\<rparr>)"
    "receiving r' b l (got @ c) (sq + 1) (wire + length (frame bs))"
    using read_chunk [OF Cons.prems(1) b rt bs(1-3) _ sq c(1,2), of rd s' windows] Cons.prems s by auto
  obtain m where m: "n = Suc m" using Cons.prems by (cases n) auto
  have "prepare_loop m sv windows r' (rd\<lparr>pending := s'\<rparr>) =
      Some (Ok \<lparr>pr_binding = b, pr_launch = l, pr_input = (got @ c) @ concat cs\<rparr>)"
  proof (rule Cons.IH [OF r'(2) b rt v(2)])
    show "unat (sq + 1) + length cs < 258" using Cons.prems next_message [OF sq] by simp
    show "length (got @ c) = Suc index * MAX_CHUNK \<or> cs = []" using off c(4) by (cases "cs = []") auto
    show "wire + length (frame bs) + length s' \<le> MAX_CONTROL_BYTES" using Cons.prems s by simp
  qed (use Cons.prems bs(4) c(3) s' m in simp_all)
  with r'(1) m show ?case by simp
qed


lemma read_launch:
  assumes b: "validate_binding b = Ok ()" and l: "validate_launch l = Ok ()" and rt: "packet_roundtrip sv"
    and rend: "render_packet sv \<lparr>schema_version = VERSION, sequence = 0, pk_binding = b,
          message = Launch l\<rparr> = Some bs" "bs \<noteq> []" "length bs \<le> MAX_FRAME"
    and wire: "length (frame bs) \<le> MAX_CONTROL_BYTES" and rd: "pending rd = frame bs @ rest"
  shows "\<exists>r'. read_control sv windows new_receiver rd = (Ok Pending, r', rd\<lparr>pending := rest\<rparr>)
           \<and> receiving r' b l [] 1 (length (frame bs))"
proof -
  have "read_packet sv windows 0 rd =
      (Ok \<lparr>schema_version = VERSION, sequence = 0, pk_binding = b, message = Launch l\<rparr>,
       0 + length (frame bs), rd\<lparr>pending := rest\<rparr>)"
    using wire by (intro read_frame [OF rt rend _ rd]) simp
  then show ?thesis
    using b l
    by (simp add: read_control_def receiving_def accept_packet_def accept_message_def new_receiver_def
        MAX_MESSAGES_def)
qed

lemma launch_parts_Ok:
  assumes "launch_parts sv b l input = Ok (header, frames)"
  obtains bs w where "validate_binding b = Ok ()" "validate_launch l = Ok ()"
    "length input = input_bytes l" "sha256 sv input = input_sha256 l"
    "render_packet sv \<lparr>schema_version = VERSION, sequence = 0, pk_binding = b, message = Launch l\<rparr> = Some bs"
    "bs \<noteq> []" "length bs \<le> MAX_FRAME" "header = frame bs"
    "input_frames sv b 0 1 (chunks MAX_CHUNK input) new_vec = (Ok (), w)" "frames = taken_bytes w"
  using assms
  by (auto simp: launch_parts_def and_then_Ok ensure_Ok write_packet_vec new_vec_def
      split: prod.splits sum.splits)

lemma chunk_count:
  assumes "length input \<le> MAX_INPUT"
  shows "length (chunks MAX_CHUNK input) \<le> 64"
  using chunks_facts [of MAX_CHUNK input] assms by (simp add: MAX_CHUNK_def MAX_INPUT_def)

text \<open>A batch is read in as many rounds as it has bytes: every round that goes on consumes a frame.\<close>

lemma read_control_consumes:
  "read_control sv windows r rd = (Ok a, r', rd') \<Longrightarrow> length (pending rd') < length (pending rd)"
  by (auto simp: read_control_def read_packet_def read_exact_def Let_def
      split: if_splits sum.splits prod.splits)

lemma prepare_loop_returns: "length (pending rd) < n \<Longrightarrow> prepare_loop n sv windows r rd \<noteq> None"
proof (induction n arbitrary: r rd)
  case (Suc n)
  obtain out r' rd' where rc: "read_control sv windows r rd = (out, r', rd')" by (metis prod_cases3)
  show ?case
  proof (cases out)
    case (Inr a)
    then have "length (pending rd') < n" using read_control_consumes [of sv windows r rd a r' rd'] rc Suc.prems by simp
    with Suc.IH [of rd' r'] rc Inr show ?thesis by (cases a) auto
  qed (simp add: rc)
qed simp

section \<open>Properties\<close>

text \<open>
  C12: What the parent sends is what the host gets.  When \<open>launch_parts\<close> accepts a launch and its
  input, a receiver that reads the two parts hands out exactly that binding, launch and input:
  the length prefixes, the sequence numbers, the offsets of the chunks and the message limit
  fit together for every input up to the maximum, as long as the parts stay within the
  control limit.
\<close>

theorem launch_arrives_unchanged:
  assumes "packet_roundtrip sv" and "launch_parts sv b l input = Ok (header, frames)"
    and "length (header @ frames) \<le> MAX_CONTROL_BYTES"
  shows "prepare_buffer sv windows (header @ frames)
    = Some (Ok \<lparr>pr_binding = b, pr_launch = l, pr_input = input\<rparr>)"
proof -
  obtain bs w where p: "validate_binding b = Ok ()" "validate_launch l = Ok ()"
    "length input = input_bytes l" "sha256 sv input = input_sha256 l"
    "render_packet sv \<lparr>schema_version = VERSION, sequence = 0, pk_binding = b, message = Launch l\<rparr> = Some bs"
    "bs \<noteq> []" "length bs \<le> MAX_FRAME" "header = frame bs"
    "input_frames sv b 0 1 (chunks MAX_CHUNK input) new_vec = (Ok (), w)" "frames = taken_bytes w"
    using assms(2) by (rule launch_parts_Ok)
  let ?rd = "\<lparr>pending = header @ frames, os_error = None\<rparr>"
  obtain r' where r': "read_control sv windows new_receiver ?rd = (Ok Pending, r', ?rd\<lparr>pending := frames\<rparr>)"
    "receiving r' b l [] 1 (length (frame bs))"
    using read_launch [OF p(1,2) assms(1) p(5-7), of ?rd frames windows] assms(3) p(8) by auto
  have "length (chunks MAX_CHUNK input) \<le> 64"
    by (rule chunk_count) (use validate_launch_bound [OF p(2)] p(3) in simp)
  moreover have "5 * length (chunks MAX_CHUNK input) < length frames"
    using input_frames_more [OF p(9)] by (simp add: p(10) new_vec_def)
  moreover have "concat (chunks MAX_CHUNK input) = input" "chunked MAX_CHUNK (chunks MAX_CHUNK input)"
    using chunks_facts [of MAX_CHUNK input] by (simp_all add: MAX_CHUNK_def)
  ultimately have "prepare_loop (length (header @ frames)) sv windows r' (?rd\<lparr>pending := frames\<rparr>)
      = Some (Ok \<lparr>pr_binding = b, pr_launch = l, pr_input = [] @ concat (chunks MAX_CHUNK input)\<rparr>)"
    using assms(3) p
    by (intro frames_received [OF r'(2) p(1) assms(1) p(9), where s = frames]) (simp_all add: new_vec_def)
  with r'(1) \<open>concat (chunks MAX_CHUNK input) = input\<close> assms(3) show ?thesis
    by (simp add: prepare_buffer_def)
qed

definition demo_hash :: ustr where
  "demo_hash = replicate 64 48"

definition demo_binding :: binding where
  "demo_binding = \<lparr>run_id = lit ''r1'', session_id = lit ''s1'', process_instance = lit ''p1'',
     capability = demo_hash, route_sha256 = demo_hash\<rparr>"

definition demo_launch :: launch where
  "demo_launch = \<lparr>executable = lit ''pa'', executable_sha256 = demo_hash, args = [], cwd = lit ''/w'',
     environment = [\<lparr>env_key = lit ''A'', env_value = []\<rparr>], input_bytes = 2, input_sha256 = demo_hash,
     output_limit = 1, timeout_ms = 1\<rparr>"

definition demo_packet :: "u64 \<Rightarrow> control \<Rightarrow> packet" where
  "demo_packet n m = \<lparr>schema_version = VERSION, sequence = n, pk_binding = demo_binding, message = m\<rparr>"

definition demo_services :: services where
  "demo_services =
     \<lparr> render_packet = (\<lambda>p. if p = demo_packet 0 (Launch demo_launch) then Some [1]
                            else if p = demo_packet 1 (Input 0 [7, 9]) then Some [2]
                            else if p = demo_packet 2 InputEnd then Some [3] else None),
       parse_packet = (\<lambda>b. if b = [1] then Some (demo_packet 0 (Launch demo_launch))
                           else if b = [2] then Some (demo_packet 1 (Input 0 [7, 9]))
                           else if b = [3] then Some (demo_packet 2 InputEnd) else None),
       render_launch = (\<lambda>_. None), sha256 = (\<lambda>_. demo_hash) \<rparr>"

lemma demo_services_roundtrip: "packet_roundtrip demo_services"
  by (simp add: packet_roundtrip_def demo_services_def)

lemma demo_valid: "validate_binding demo_binding = Ok ()" "validate_launch demo_launch = Ok ()"
proof -
  have h: "hash_text demo_hash" by code_simp
  have t: "bounded_text (lit ''pa'')" "bounded_text (lit ''/w'')" by code_simp+
  have i: "is_identifier (lit ''r1'')" "is_identifier (lit ''s1'')" "is_identifier (lit ''p1'')" by code_simp+
  have e: "valid_environment [\<lparr>env_key = lit ''A'', env_value = []\<rparr>]" by code_simp
  show "validate_binding demo_binding = Ok ()"
    by (simp add: validate_binding_def demo_binding_def h i)
  show "validate_launch demo_launch = Ok ()"
    by (simp add: validate_launch_def demo_launch_def h t e MAX_INPUT_def MAX_TIMEOUT_MS_def)
qed

lemma demo_parts:
  "launch_parts demo_services demo_binding demo_launch [7, 9] = Ok (frame [1], frame [2] @ frame [3])"
proof -
  have c: "chunks MAX_CHUNK [7, 9 :: byte] = [[7, 9]]"
    by (subst chunks.simps, subst chunks.simps) (simp add: MAX_CHUNK_def)
  show ?thesis
    unfolding launch_parts_def c
    by (simp add: demo_valid)
      (simp add: demo_services_def demo_launch_def write_packet_def write_all_def then_write_def flush_def
        new_vec_def demo_packet_def frame_def MAX_FRAME_def)
qed

theorem launch_arrives_unchanged_witness:
  "prepare_buffer demo_services False (frame [1] @ frame [2] @ frame [3])
   = Some (Ok \<lparr>pr_binding = demo_binding, pr_launch = demo_launch, pr_input = [7, 9]\<rparr>)"
  by (rule launch_arrives_unchanged [OF demo_services_roundtrip demo_parts])
    (simp add: frame_def MAX_CONTROL_BYTES_def MAX_FRAME_def MAX_INPUT_def)

text \<open>
  C11: The receiver is safe against any bytes.  Whatever readers it is driven with, it hands out at most
  one launch, only one whose binding and limits are valid and whose input has the promised
  length and digest; after the first error every read is an error; it never holds more
  than the maximal input, never takes more than the control limit of frames nor more than 258
  messages; and reading a batch always comes to an end.
\<close>

theorem receiver_hands_out_one_checked_launch:
  "list_all (outcome_ok sv) (outcomes sv windows new_receiver rds) \<and>
   length (filter is_ready (outcomes sv windows new_receiver rds)) \<le> 1 \<and>
   errors_final (outcomes sv windows new_receiver rds) \<and>
   length (rx_input (run (after_read sv windows) new_receiver rds)) \<le> MAX_INPUT \<and>
   rx_wire_bytes (run (after_read sv windows) new_receiver rds) \<le> MAX_CONTROL_BYTES \<and>
   unat (rx_next (run (after_read sv windows) new_receiver rds)) \<le> 258 \<and>
   prepare_buffer sv windows bytes \<noteq> None"
proof -
  have "receiver_ok (run (after_read sv windows) new_receiver rds)"
    by (rule rx.inv_run [OF new_receiver_ok])
  moreover have "prepare_buffer sv windows bytes \<noteq> None"
    using prepare_loop_returns [of "\<lparr>pending = bytes, os_error = None\<rparr>" "Suc (length bytes)"]
    by (simp add: prepare_buffer_def del: prepare_loop.simps)
  ultimately show ?thesis
    using outcomes_ok [OF new_receiver_ok] ready_once [OF new_receiver_ok]
      outcomes_errors_final [OF new_receiver_ok] receiver_ok_memory
    by (simp add: receiver_ok_def)
qed

end
