(* ===== verification/Development_Policy.thy ===== *)
theory Development_Policy
  imports Prelude Rust_Text "HOL-Library.List_Lexorder" "HOL-Library.Product_Lexorder"
    "HOL-Library.Option_ord"
begin

text \<open>
  The policy of continuous development, \<open>src-tauri/src/development_policy.rs\<close>: the closed
  schema with its bounds, the choice of a model for a task among observed candidates, the
  registry of model families and the rule for escalations.  \<open>serde_json\<close>, SHA-256 and the file
  system are parameters; the wall clock is read once for each candidate, so it is a
  function of the candidate's position in the order of the checks.  A \<open>BTreeSet\<close> is a set, a
  \<open>BTreeMap\<close> the list of its entries in the order of the keys.
\<close>

section \<open>The schema\<close>

definition SCHEMA_VERSION :: u32 where "SCHEMA_VERSION = 1"
definition DEFAULT_MAX_WORKERS :: u8 where "DEFAULT_MAX_WORKERS = 2"
definition DEFAULT_MAX_INTEGRATION :: u8 where "DEFAULT_MAX_INTEGRATION = 1"
definition DEFAULT_GOAL_MINUTES :: "16 word" where "DEFAULT_GOAL_MINUTES = 90"
definition DEFAULT_MAX_TASKS_PER_GOAL :: u8 where "DEFAULT_MAX_TASKS_PER_GOAL = 8"
definition DEFAULT_MAX_ATTEMPTS_PER_TASK :: u8 where "DEFAULT_MAX_ATTEMPTS_PER_TASK = 3"
definition DEFAULT_MAX_ESCALATIONS :: u8 where "DEFAULT_MAX_ESCALATIONS = 1"
definition DEFAULT_DISCOVERY_RUNS_PER_DAY :: u8 where "DEFAULT_DISCOVERY_RUNS_PER_DAY = 2"
definition DEFAULT_MAX_AUTONOMOUS_GOALS :: u8 where "DEFAULT_MAX_AUTONOMOUS_GOALS = 1"
definition MIN_QUOTA_RESERVE_PERCENT :: u8 where "MIN_QUOTA_RESERVE_PERCENT = 20"

lemmas policy_limits =
  SCHEMA_VERSION_def DEFAULT_MAX_WORKERS_def DEFAULT_MAX_INTEGRATION_def DEFAULT_GOAL_MINUTES_def
  DEFAULT_MAX_TASKS_PER_GOAL_def DEFAULT_MAX_ATTEMPTS_PER_TASK_def DEFAULT_MAX_ESCALATIONS_def
  DEFAULT_DISCOVERY_RUNS_PER_DAY_def DEFAULT_MAX_AUTONOMOUS_GOALS_def MIN_QUOTA_RESERVE_PERCENT_def

datatype agent_provider = Claude | Codex | Kimi | Opencode | Ollama

datatype billing = Subscription | Free | Local | Paid | Unknown_Billing

text \<open>The derived \<open>Ord\<close> of an enum is the order of its declaration.\<close>

fun provider_rank :: "agent_provider \<Rightarrow> nat" where
  "provider_rank Claude = 0"
| "provider_rank Codex = 1"
| "provider_rank Kimi = 2"
| "provider_rank Opencode = 3"
| "provider_rank Ollama = 4"

lemma provider_rank_inj: "provider_rank p = provider_rank q \<longleftrightarrow> p = q"
  by (cases p; cases q) simp_all

instantiation agent_provider :: linorder
begin

definition less_eq_agent_provider :: "agent_provider \<Rightarrow> agent_provider \<Rightarrow> bool" where
  "less_eq_agent_provider p q \<longleftrightarrow> provider_rank p \<le> provider_rank q"

definition less_agent_provider :: "agent_provider \<Rightarrow> agent_provider \<Rightarrow> bool" where
  "less_agent_provider p q \<longleftrightarrow> provider_rank p < provider_rank q"

instance
  by standard
    (auto simp: less_eq_agent_provider_def less_agent_provider_def provider_rank_inj [symmetric])

end

record token_policy =
  max_per_goal :: int
  verification_reserve :: int

record continuous_policy =
  enabled :: bool
  max_workers :: u8
  max_integration :: u8
  goal_minutes :: "16 word"
  max_tasks_per_goal :: u8
  max_attempts_per_task :: u8
  max_escalations :: u8
  discovery_runs_per_day :: u8
  max_autonomous_goals :: u8

record routing_policy =
  additional_paid_api :: bool
  quota_reserve_percent :: u8
  permitted_billing :: "billing list"

record team_policy =
  team_id :: ustr
  roles :: "ustr list"

record development_policy =
  dp_schema_version :: u32
  continuous :: continuous_policy
  routing :: routing_policy
  providers :: "agent_provider list"
  teams :: "team_policy list"
  tokens :: "token_policy option"

definition default_policy :: development_policy where
  "default_policy =
     \<lparr> dp_schema_version = SCHEMA_VERSION,
       continuous = \<lparr> enabled = False, max_workers = DEFAULT_MAX_WORKERS,
         max_integration = DEFAULT_MAX_INTEGRATION, goal_minutes = DEFAULT_GOAL_MINUTES,
         max_tasks_per_goal = DEFAULT_MAX_TASKS_PER_GOAL,
         max_attempts_per_task = DEFAULT_MAX_ATTEMPTS_PER_TASK,
         max_escalations = DEFAULT_MAX_ESCALATIONS,
         discovery_runs_per_day = DEFAULT_DISCOVERY_RUNS_PER_DAY,
         max_autonomous_goals = DEFAULT_MAX_AUTONOMOUS_GOALS \<rparr>,
       routing = \<lparr> additional_paid_api = False, quota_reserve_percent = MIN_QUOTA_RESERVE_PERCENT,
         permitted_billing = [Subscription, Free, Local] \<rparr>,
       providers = [Claude, Codex, Kimi, Opencode, Ollama],
       teams = [\<lparr> team_id = lit ''development'',
         roles = [lit ''coordinator'', lit ''implementer'', lit ''reviewer'', lit ''integrator''] \<rparr>],
       tokens = Some \<lparr> max_per_goal = 200000, verification_reserve = 40000 \<rparr> \<rparr>"

text \<open>\<open>bounded\<close> and \<open>bounded_u16\<close>, one function for both widths.\<close>

definition bounded :: "ustr \<Rightarrow> 'w::len word \<Rightarrow> 'w word \<Rightarrow> 'w word \<Rightarrow> ustr + unit" where
  "bounded name actual minimum maximum =
     ensure (minimum \<le> actual \<and> actual \<le> maximum)
       (name @ lit '' must be between '' @ decimal (unat minimum) @ lit '' and '' @
        decimal (unat maximum) @ lit '', got '' @ decimal (unat actual))"

definition unique_nonempty :: "ustr \<Rightarrow> 'a list \<Rightarrow> ustr + unit" where
  "unique_nonempty name values =
     ensure (\<not> (values = [] \<or> \<not> distinct values))
       (name @ lit '' must be non-empty and contain no duplicates'')"

definition lower_letter :: "uchar \<Rightarrow> bool" where
  "lower_letter c \<longleftrightarrow> 97 \<le> c \<and> c \<le> 122"

fun valid_team_id :: "ustr \<Rightarrow> bool" where
  "valid_team_id [] \<longleftrightarrow> False"
| "valid_team_id (c # cs) \<longleftrightarrow>
     lower_letter c \<and> list_all (\<lambda>b. lower_letter b \<or> 48 \<le> b \<and> b \<le> 57 \<or> b = 45) cs"

definition valid_role :: "ustr \<Rightarrow> bool" where
  "valid_role r \<longleftrightarrow>
     r \<in> {lit ''coordinator'', lit ''implementer'', lit ''reviewer'', lit ''integrator''}"

fun validate_teams :: "ustr list \<Rightarrow> team_policy list \<Rightarrow> ustr + unit" where
  "validate_teams seen [] = Ok ()"
| "validate_teams seen (t # ts) =
     (if \<not> valid_team_id (team_id t) \<or> team_id t \<in> set seen
      then Err (lit ''teams must have unique ids matching ^[a-z][a-z0-9-]*$'')
      else if roles t = [] \<or> list_ex (\<lambda>r. \<not> valid_role r) (roles t) \<or> \<not> distinct (roles t)
      then Err (lit ''team '' @ [39] @ team_id t @ [39] @
                lit '' roles must be unique and one of coordinator, implementer, reviewer, integrator'')
      else validate_teams (team_id t # seen) ts)"

definition validate_tokens :: "token_policy option \<Rightarrow> ustr + unit" where
  "validate_tokens ts =
     (case ts of
        None \<Rightarrow> Ok ()
      | Some t \<Rightarrow>
          ensure (\<not> (max_per_goal t < 1 \<or> 200000 < max_per_goal t \<or>
                     verification_reserve t < 1 \<or> max_per_goal t < verification_reserve t))
            (lit ''tokens requires maxPerGoal 1..200000 and verificationReserve 1..maxPerGoal''))"

definition validate_continuous :: "continuous_policy \<Rightarrow> ustr + unit" where
  "validate_continuous c =
     and_then (bounded (lit ''continuous.maxWorkers'') (max_workers c) 1 DEFAULT_MAX_WORKERS) (\<lambda>_.
     and_then (bounded (lit ''continuous.maxIntegration'') (max_integration c) 1 DEFAULT_MAX_INTEGRATION) (\<lambda>_.
     and_then (bounded (lit ''continuous.goalMinutes'') (goal_minutes c) 1 DEFAULT_GOAL_MINUTES) (\<lambda>_.
     and_then (bounded (lit ''continuous.maxTasksPerGoal'') (max_tasks_per_goal c) 1
                 DEFAULT_MAX_TASKS_PER_GOAL) (\<lambda>_.
     and_then (bounded (lit ''continuous.maxAttemptsPerTask'') (max_attempts_per_task c) 1
                 DEFAULT_MAX_ATTEMPTS_PER_TASK) (\<lambda>_.
     and_then (bounded (lit ''continuous.maxEscalations'') (max_escalations c) 0
                 DEFAULT_MAX_ESCALATIONS) (\<lambda>_.
     and_then (bounded (lit ''continuous.discoveryRunsPerDay'') (discovery_runs_per_day c) 0
                 DEFAULT_DISCOVERY_RUNS_PER_DAY) (\<lambda>_.
     and_then (bounded (lit ''continuous.maxAutonomousGoals'') (max_autonomous_goals c) 0
                 DEFAULT_MAX_AUTONOMOUS_GOALS) (\<lambda>_.
     ensure (\<not> enabled c)
       (lit ''continuous.enabled must remain false until runtime acceptance evidence enables it'')))))))))"

definition validate_routing :: "routing_policy \<Rightarrow> ustr + unit" where
  "validate_routing r =
     and_then (ensure (\<not> additional_paid_api r)
         (lit ''routing.additionalPaidApi cannot be enabled by this bounded policy'')) (\<lambda>_.
     and_then (bounded (lit ''routing.quotaReservePercent'') (quota_reserve_percent r)
         MIN_QUOTA_RESERVE_PERCENT 100) (\<lambda>_.
     and_then (unique_nonempty (lit ''routing.billing'') (permitted_billing r)) (\<lambda>_.
     ensure (\<not> list_ex (\<lambda>b. b = Paid \<or> b = Unknown_Billing) (permitted_billing r))
       (lit ''routing.billing may only permit subscription, free, or local billing''))))"

definition validate_policy :: "development_policy \<Rightarrow> ustr + unit" where
  "validate_policy p =
     and_then (validate_tokens (tokens p)) (\<lambda>_.
     and_then (ensure (dp_schema_version p = SCHEMA_VERSION)
         (lit ''unsupported development policy schemaVersion '' @ decimal (unat (dp_schema_version p)) @
          lit ''; expected '' @ decimal (unat SCHEMA_VERSION))) (\<lambda>_.
     and_then (validate_continuous (continuous p)) (\<lambda>_.
     and_then (validate_routing (routing p)) (\<lambda>_.
     and_then (unique_nonempty (lit ''providers'') (providers p)) (\<lambda>_.
     and_then (ensure (teams p \<noteq> []) (lit ''teams must contain at least one team'')) (\<lambda>_.
     validate_teams [] (teams p)))))))"

section \<open>Reading a policy\<close>

definition POLICY_FILE :: ustr where
  "POLICY_FILE = lit ''projecta.dev.json''"

text \<open>\<open>serde_json\<close>: the typed parse with its error text, and the flag a raw document asks for.\<close>

record policy_reader =
  decode_policy :: "ustr \<Rightarrow> ustr + development_policy"
  pointer_enabled :: "ustr \<Rightarrow> bool option"

definition parse_policy :: "policy_reader \<Rightarrow> ustr \<Rightarrow> ustr + development_policy" where
  "parse_policy rd raw =
     (case decode_policy rd raw of
        Err e \<Rightarrow> Err (lit ''invalid '' @ POLICY_FILE @ lit '': '' @ e)
      | Ok p \<Rightarrow> and_then (validate_policy p) (\<lambda>_. Ok p))"

record loaded_policy =
  lp_policy :: development_policy
  lp_source :: ustr
  lp_path :: ustr

text \<open>\<open>path\<close> is the joined path as it is displayed, \<open>content\<close> what reading it gives.\<close>

definition load_policy :: "policy_reader \<Rightarrow> ustr \<Rightarrow> ustr + ustr \<Rightarrow> ustr + loaded_policy" where
  "load_policy rd path content =
     (case content of
        Err e \<Rightarrow> Err (lit ''cannot read '' @ path @ lit '': '' @ e)
      | Ok raw \<Rightarrow>
          (case parse_policy rd raw of
             Err e \<Rightarrow> Err (path @ lit '': '' @ e)
           | Ok p \<Rightarrow> Ok \<lparr> lp_policy = p, lp_source = lit ''file:'' @ path, lp_path = path \<rparr>))"

record continuous_audit =
  continuous_eligible :: bool
  activation_requested :: bool
  effective_enabled :: bool
  reasons :: "ustr list"

definition audit_continuous_raw :: "policy_reader \<Rightarrow> ustr \<Rightarrow> continuous_audit" where
  "audit_continuous_raw rd raw =
     (let requested = (case pointer_enabled rd raw of None \<Rightarrow> False | Some b \<Rightarrow> b) in
      \<lparr> continuous_eligible = False,
        activation_requested = requested,
        effective_enabled = False,
        reasons =
          [lit ''no runtime acceptance evidence is recorded; continuous mode stays disabled''] @
          (if requested
           then [lit ''activation via configuration rejected: continuous.enabled must remain false'']
           else []) @
          (case parse_policy rd raw of
             Err e \<Rightarrow> [lit ''policy invalid: '' @ e] | Ok _ \<Rightarrow> []) \<rparr>)"

definition audit_continuous :: "policy_reader \<Rightarrow> ustr + ustr \<Rightarrow> continuous_audit" where
  "audit_continuous rd content =
     (case content of
        Ok raw \<Rightarrow> audit_continuous_raw rd raw
      | Err e \<Rightarrow>
          \<lparr> continuous_eligible = False, activation_requested = False, effective_enabled = False,
            reasons =
              [lit ''no runtime acceptance evidence is recorded; continuous mode stays disabled'',
               lit ''cannot read '' @ POLICY_FILE @ lit '': '' @ e] \<rparr>)"

section \<open>Model families\<close>

record registry_ref =
  ref_source :: ustr
  ref_revision :: ustr
  ref_digest :: ustr

datatype identity_status = Observed | Unknown | Stale | Conflicting

record family_resolution =
  fr_status :: identity_status
  fr_family :: "ustr option"
  fr_registry :: "registry_ref option"

definition status_only :: "identity_status \<Rightarrow> family_resolution" where
  "status_only s = \<lparr> fr_status = s, fr_family = None, fr_registry = None \<rparr>"

type_synonym family_entries = "((agent_provider \<times> ustr) \<times> ustr) list"

record family_registry =
  reg_reference :: registry_ref
  reg_revoked :: bool
  reg_entries :: family_entries

text \<open>\<open>BTreeMap::insert\<close>: the previous value, and the entries in the order of the keys.\<close>

fun btree_insert :: "'k::linorder \<Rightarrow> 'v \<Rightarrow> ('k \<times> 'v) list \<Rightarrow> 'v option \<times> ('k \<times> 'v) list" where
  "btree_insert k v [] = (None, [(k, v)])"
| "btree_insert k v ((k', v') # m) =
     (if k < k' then (None, (k, v) # (k', v') # m)
      else if k = k' then (Some v', (k, v) # m)
      else apsnd (Cons (k', v')) (btree_insert k v m))"

fun canonical_entries ::
  "(agent_provider \<times> ustr \<times> ustr) list \<Rightarrow> family_entries \<Rightarrow> ustr + family_entries" where
  "canonical_entries [] m = Ok m"
| "canonical_entries ((p, alias, family) # es) m =
     (if trim alias = [] \<or> trim family = [] then Err (lit ''model alias and family are required'')
      else
        case btree_insert (p, alias) family m of
          (Some previous, _) \<Rightarrow>
            Err (if previous = family then lit ''duplicate family alias''
                 else lit ''conflicting family aliases'')
        | (None, m') \<Rightarrow> canonical_entries es m')"

text \<open>\<open>digest_of\<close> is the hexadecimal SHA-256 of the serialised canonical entries.\<close>

definition checked_registry ::
  "(family_entries \<Rightarrow> ustr) \<Rightarrow> ustr \<Rightarrow> ustr \<Rightarrow> bool \<Rightarrow> (agent_provider \<times> ustr \<times> ustr) list
     \<Rightarrow> ustr option \<Rightarrow> ustr + family_registry" where
  "checked_registry digest_of source revision revoked entries expected_digest =
     (if trim source = [] \<or> trim revision = []
      then Err (lit ''registry source and revision are required'')
      else
        and_then (canonical_entries entries []) (\<lambda>canonical.
        let digest = digest_of canonical in
        if (case expected_digest of
              None \<Rightarrow> False
            | Some expected \<Rightarrow>
                byte_len expected \<noteq> 64 \<or> \<not> list_all is_ascii_hexdigit expected \<or> expected \<noteq> digest)
        then Err (lit ''registry digest is malformed or differs from entries'')
        else Ok \<lparr> reg_reference = \<lparr> ref_source = source, ref_revision = revision, ref_digest = digest \<rparr>,
                  reg_revoked = revoked, reg_entries = canonical \<rparr>))"

text \<open>The one snapshot admitted in production; its construction cannot fail.\<close>

definition production_registry :: "(family_entries \<Rightarrow> ustr) \<Rightarrow> family_registry option" where
  "production_registry digest_of =
     (case checked_registry digest_of (lit ''projecta-checked-in'') (lit ''empty-v1'') False [] None of
        Err _ \<Rightarrow> None | Ok r \<Rightarrow> Some r)"

definition resolve_family :: "family_registry \<Rightarrow> agent_provider \<Rightarrow> ustr \<Rightarrow> family_resolution" where
  "resolve_family reg provider model =
     (if reg_revoked reg
      then \<lparr> fr_status = Stale, fr_family = None, fr_registry = Some (reg_reference reg) \<rparr>
      else if trim model = [] then status_only Unknown
      else case map_of (reg_entries reg) (provider, model) of
             None \<Rightarrow> status_only Unknown
           | Some family \<Rightarrow>
               \<lparr> fr_status = Observed, fr_family = Some family, fr_registry = Some (reg_reference reg) \<rparr>)"

record identity_tuple =
  it_provider :: "agent_provider option"
  it_model :: "ustr option"
  it_family :: "ustr option"

record identity_observation =
  io_identity :: identity_tuple
  io_status :: identity_status
  io_source :: "ustr option"
  io_evidence_id :: "ustr option"
  io_observed_at :: "u64 option"
  io_expires_at :: "u64 option"
  io_registry :: "registry_ref option"

definition assess_reference ::
  "identity_observation \<Rightarrow> family_registry \<Rightarrow> identity_status" where
  "assess_reference ob reg =
     (case (it_provider (io_identity ob), it_model (io_identity ob), it_family (io_identity ob), io_registry ob) of
        (Some provider, Some model, Some family, Some reference) \<Rightarrow>
          if reference \<noteq> reg_reference reg then Unknown
          else
            (case fr_family (resolve_family reg provider model) of
               Some expected \<Rightarrow> if expected = family then Observed else Conflicting
             | None \<Rightarrow> Unknown)
      | _ \<Rightarrow> Unknown)"

definition assess_identity_observation ::
  "identity_observation \<Rightarrow> family_registry \<Rightarrow> u64 \<Rightarrow> identity_status" where
  "assess_identity_observation ob reg now =
     (if io_status ob \<noteq> Observed then io_status ob
      else
        case (io_source ob, io_evidence_id ob, io_observed_at ob, io_expires_at ob) of
          (Some source, Some evidence, Some start, Some end') \<Rightarrow>
            if trim source = [] \<or> trim evidence = [] \<or> start = 0 \<or> end' \<le> start \<or> now < start
            then Unknown
            else if end' \<le> now \<or> reg_revoked reg then Stale
            else assess_reference ob reg
        | _ \<Rightarrow> Unknown)"

record adapter_identity =
  adapter_id :: ustr
  adapter_version :: ustr

record execution_identity =
  ei_id :: ustr
  ei_run_id :: ustr
  ei_requested :: identity_tuple
  ei_configured :: identity_tuple
  ei_observed :: "identity_observation option"
  ei_adapter :: "adapter_identity option"
  ei_ui_profile_id :: "ustr option"

definition validate_shape :: "execution_identity \<Rightarrow> ustr + unit" where
  "validate_shape e =
     (if trim (ei_id e) = [] \<or> trim (ei_run_id e) = []
      then Err (lit ''identity and run ids are required'')
      else if (case ei_adapter e of
                 None \<Rightarrow> False
               | Some a \<Rightarrow> trim (adapter_id a) = [] \<or> trim (adapter_version a) = [])
      then Err (lit ''adapter id and version must both be present'')
      else Ok ())"

section \<open>Choosing a route\<close>

datatype tool_adapter = No_Adapter | Helper | Verified

record model_candidate =
  mc_profile_id :: ustr
  mc_provider :: agent_provider
  configured_model :: "ustr option"
  observed_model :: "ustr option"
  attested :: bool
  mc_enabled :: bool
  mc_billing :: billing
  capabilities :: "ustr set"
  efforts :: "ustr set"
  max_context_tokens :: "u32 option"
  quota_remaining_percent :: "u8 option"
  mc_tool_adapter :: tool_adapter
  estimated_task_tokens :: "u64 option"
  mc_evidence_id :: ustr
  mc_observed_at :: u64
  mc_expires_at :: u64

record route_request =
  requested_model :: "ustr option"
  required_capabilities :: "ustr set"
  rq_effort :: "ustr option"
  minimum_context_tokens :: u32
  requires_verified_tool_adapter :: bool

datatype 'a observed_value =
  Measured 'a | Configured 'a | Requested_Value 'a | Estimated 'a | Unavailable ustr

datatype route_failure_class =
  Policy | Authentication | Quota | Environment | Infrastructure | UnsupportedEffort
| MissingCapability | InsufficientContext | Unattested | NoEligibleCandidate

record route_failure =
  rf_class :: route_failure_class
  rf_detail :: ustr

record resolved_route =
  rr_profile_id :: ustr
  rr_provider :: agent_provider
  rr_configured_model :: "ustr observed_value"
  rr_resolved_model :: "ustr observed_value"
  rr_effort :: "ustr observed_value"
  rr_context_tokens :: "u32 observed_value"
  rr_quota_remaining_percent :: "u8 observed_value"
  rr_estimated_task_tokens :: "u64 observed_value"
  rr_evidence_id :: ustr
  rr_observed_at :: u64
  candidate_family :: family_resolution

record route_decision =
  rd_requested :: route_request
  rd_resolved :: "resolved_route option"
  rd_failure :: "route_failure option"

definition failure :: "route_failure_class \<Rightarrow> ustr \<Rightarrow> route_failure" where
  "failure c detail = \<lparr> rf_class = c, rf_detail = detail \<rparr>"

definition empty_text :: "ustr option \<Rightarrow> bool" where
  "empty_text v = (case v of None \<Rightarrow> True | Some s \<Rightarrow> s = [])"

definition context_eligible :: "route_request \<Rightarrow> model_candidate \<Rightarrow> route_failure + unit" where
  "context_eligible rq c =
     (case max_context_tokens c of
        Some ts \<Rightarrow>
          if minimum_context_tokens rq \<le> ts then Ok ()
          else Err (failure InsufficientContext (lit ''candidate context is below requested minimum''))
      | None \<Rightarrow> Err (failure Environment (lit ''candidate context measurement is unavailable'')))"

definition quota_eligible :: "development_policy \<Rightarrow> model_candidate \<Rightarrow> route_failure + unit" where
  "quota_eligible p c =
     (case quota_remaining_percent c of
        None \<Rightarrow>
          if mc_billing c = Local then Ok ()
          else Err (failure Quota (lit ''candidate quota measurement is unavailable''))
      | Some q \<Rightarrow>
          if quota_reserve_percent (routing p) < q \<and> q \<le> 100 then Ok ()
          else Err (failure Quota (lit ''candidate quota is at or below the policy reserve'')))"

definition candidate_eligibility ::
  "u64 \<Rightarrow> development_policy \<Rightarrow> route_request \<Rightarrow> model_candidate \<Rightarrow> route_failure + unit" where
  "candidate_eligibility now p rq c =
     and_then (ensure (trim (mc_profile_id c) \<noteq> [])
       (failure Environment (lit ''candidate has no existing profile id''))) (\<lambda>_.
     and_then (ensure (mc_provider c \<in> set (providers p))
       (failure Policy (lit ''candidate provider is not enabled by policy''))) (\<lambda>_.
     and_then (ensure (mc_enabled c)
       (failure Environment (lit ''existing profile is disabled''))) (\<lambda>_.
     and_then (ensure (\<not> (\<not> attested c \<or> empty_text (observed_model c)))
       (failure Unattested (lit ''candidate lacks an observed model attestation''))) (\<lambda>_.
     and_then (ensure (\<not> (trim (mc_evidence_id c) = [] \<or> now < mc_observed_at c \<or>
                            mc_expires_at c \<le> now \<or> mc_expires_at c \<le> mc_observed_at c))
       (failure Unattested (lit ''candidate attestation is stale or lacks provenance''))) (\<lambda>_.
     and_then (ensure (\<not> (case estimated_task_tokens c of None \<Rightarrow> True | Some t \<Rightarrow> t = 0))
       (failure Unattested (lit ''comparable task token estimate is unavailable''))) (\<lambda>_.
     and_then (ensure (\<not> (mc_billing c \<notin> set (permitted_billing (routing p)) \<or>
                            mc_billing c = Paid \<or> mc_billing c = Unknown_Billing))
       (failure Policy (lit ''candidate billing is not policy-permitted''))) (\<lambda>_.
     and_then (ensure (case requested_model rq of
                         None \<Rightarrow> True | Some m \<Rightarrow> observed_model c = Some m)
       (failure NoEligibleCandidate (lit ''candidate does not match requested model''))) (\<lambda>_.
     and_then (ensure (required_capabilities rq \<subseteq> capabilities c)
       (failure MissingCapability (lit ''candidate lacks a required capability''))) (\<lambda>_.
     and_then (ensure (\<not> (requires_verified_tool_adapter rq \<and> mc_tool_adapter c \<noteq> Verified))
       (failure MissingCapability (lit ''candidate has no verified tool adapter''))) (\<lambda>_.
     and_then (ensure (case rq_effort rq of None \<Rightarrow> True | Some e \<Rightarrow> e \<in> efforts c)
       (failure UnsupportedEffort (lit ''candidate does not attest the requested effort''))) (\<lambda>_.
     and_then (context_eligible rq c) (\<lambda>_.
     quota_eligible p c))))))))))))"

fun failure_priority :: "route_failure_class \<Rightarrow> u8" where
  "failure_priority Authentication = 0"
| "failure_priority Quota = 1"
| "failure_priority Environment = 2"
| "failure_priority Infrastructure = 3"
| "failure_priority Policy = 4"
| "failure_priority UnsupportedEffort = 5"
| "failure_priority MissingCapability = 6"
| "failure_priority InsufficientContext = 7"
| "failure_priority Unattested = 8"
| "failure_priority NoEligibleCandidate = 9"

definition or_unavailable :: "('a \<Rightarrow> 'a observed_value) \<Rightarrow> string \<Rightarrow> 'a option \<Rightarrow> 'a observed_value" where
  "or_unavailable f reason v = (case v of None \<Rightarrow> Unavailable (lit reason) | Some x \<Rightarrow> f x)"

definition resolved_with_registry ::
  "model_candidate \<Rightarrow> route_request \<Rightarrow> family_registry \<Rightarrow> resolved_route" where
  "resolved_with_registry c rq reg =
     \<lparr> rr_profile_id = mc_profile_id c,
       rr_provider = mc_provider c,
       rr_configured_model = or_unavailable Configured ''no configured model was recorded'' (configured_model c),
       rr_resolved_model = or_unavailable Measured ''no observed model attestation'' (observed_model c),
       rr_effort = or_unavailable Requested_Value ''no effort was requested'' (rq_effort rq),
       rr_context_tokens = or_unavailable Measured ''context measurement is unavailable'' (max_context_tokens c),
       rr_quota_remaining_percent =
         or_unavailable Measured ''quota measurement is unavailable'' (quota_remaining_percent c),
       rr_estimated_task_tokens = or_unavailable Estimated ''no task estimate'' (estimated_task_tokens c),
       rr_evidence_id = mc_evidence_id c,
       rr_observed_at = mc_observed_at c,
       candidate_family =
         (case observed_model c of
            None \<Rightarrow> status_only Unknown
          | Some m \<Rightarrow> resolve_family reg (mc_provider c) m) \<rparr>"

definition rejected :: "route_request \<Rightarrow> route_failure_class \<Rightarrow> ustr \<Rightarrow> route_decision" where
  "rejected rq c detail =
     \<lparr> rd_requested = rq, rd_resolved = None, rd_failure = Some (failure c detail) \<rparr>"

text \<open>The order in which candidates are checked: by estimate, then by the identities.\<close>

definition estimate :: "model_candidate \<Rightarrow> u64" where
  "estimate c = (case estimated_task_tokens c of None \<Rightarrow> - 1 | Some t \<Rightarrow> t)"

definition route_key :: "model_candidate \<Rightarrow> u64 \<times> ustr \<times> ustr option \<times> ustr option" where
  "route_key c = (estimate c, mc_profile_id c, observed_model c, configured_model c)"

text \<open>\<open>min_by_key\<close>: the first of several minima.\<close>

fun min_by_key :: "('a \<Rightarrow> 'k::linorder) \<Rightarrow> 'a list \<Rightarrow> 'a option" where
  "min_by_key k [] = None"
| "min_by_key k (x # xs) =
     (case min_by_key k xs of
        None \<Rightarrow> Some x
      | Some y \<Rightarrow> if k y < k x then Some y else Some x)"

fun select_in_order ::
  "(nat \<Rightarrow> u64) \<Rightarrow> development_policy \<Rightarrow> route_request \<Rightarrow> nat \<Rightarrow> model_candidate list
     \<Rightarrow> route_failure list \<Rightarrow> model_candidate option \<times> route_failure list" where
  "select_in_order clock p rq i [] rejections = (None, rejections)"
| "select_in_order clock p rq i (c # cs) rejections =
     (case candidate_eligibility (clock i) p rq c of
        Ok _ \<Rightarrow> (Some c, rejections)
      | Err f \<Rightarrow> select_in_order clock p rq (Suc i) cs (rejections @ [f]))"

definition select_candidate ::
  "family_registry \<Rightarrow> (nat \<Rightarrow> u64) \<Rightarrow> development_policy \<Rightarrow> route_request \<Rightarrow> model_candidate list
     \<Rightarrow> route_decision" where
  "select_candidate reg clock p rq candidates =
     (case validate_policy p of
        Err detail \<Rightarrow> rejected rq Policy detail
      | Ok _ \<Rightarrow>
          (case select_in_order clock p rq 0 (sort_key route_key candidates) [] of
             (Some c, _) \<Rightarrow>
               \<lparr> rd_requested = rq, rd_resolved = Some (resolved_with_registry c rq reg), rd_failure = None \<rparr>
           | (None, rejections) \<Rightarrow>
               let f = (case min_by_key (\<lambda>f. failure_priority (rf_class f)) rejections of
                          Some f \<Rightarrow> f
                        | None \<Rightarrow> failure NoEligibleCandidate
                                    (lit ''no model/profile records were supplied''))
               in rejected rq (rf_class f) (rf_detail f)))"

section \<open>Escalations\<close>

datatype execution_failure_class =
  Failed_Authentication | Failed_Quota | Failed_Environment | Failed_Infrastructure
| Failed_Implementation | Failed_Reasoning

record execution_failure =
  ef_class :: execution_failure_class
  ef_verified :: bool
  ef_detail :: ustr

datatype escalation_decision = Allowed u8 | Denied ustr

definition decide_escalation ::
  "development_policy \<Rightarrow> u8 \<Rightarrow> execution_failure \<Rightarrow> escalation_decision" where
  "decide_escalation p previous f =
     (case validate_policy p of
        Err e \<Rightarrow> Denied e
      | Ok _ \<Rightarrow>
          if max_escalations (continuous p) \<le> previous \<or> DEFAULT_MAX_ESCALATIONS \<le> previous
          then Denied (lit ''escalation limit is exhausted'')
          else if \<not> ef_verified f
          then Denied (lit ''failure is not independently verified'')
          else if ef_class f = Failed_Implementation \<or> ef_class f = Failed_Reasoning
          then Allowed (previous + 1)
          else Denied (lit ''authentication, quota, environment, and infrastructure failures cannot escalate''))"

section \<open>The bounds of a valid policy\<close>

lemma bounded_Ok [result_simps]: "bounded n a lo hi = Ok u \<longleftrightarrow> lo \<le> a \<and> a \<le> hi"
  by (simp add: bounded_def ensure_Ok)

lemma unique_nonempty_Ok [result_simps]: "unique_nonempty n vs = Ok u \<longleftrightarrow> vs \<noteq> [] \<and> distinct vs"
  by (auto simp: unique_nonempty_def ensure_Ok)

lemma validate_continuous_Ok:
  "validate_continuous c = Ok u \<Longrightarrow>
     \<not> enabled c \<and> 1 \<le> max_workers c \<and> max_workers c \<le> 2 \<and> max_integration c = 1 \<and>
     1 \<le> goal_minutes c \<and> goal_minutes c \<le> 90 \<and> 1 \<le> max_tasks_per_goal c \<and> max_tasks_per_goal c \<le> 8 \<and>
     1 \<le> max_attempts_per_task c \<and> max_attempts_per_task c \<le> 3 \<and> max_escalations c \<le> 1 \<and>
     discovery_runs_per_day c \<le> 2 \<and> max_autonomous_goals c \<le> 1"
  unfolding validate_continuous_def by (auto simp: result_simps policy_limits)

lemma validate_routing_Ok:
  "validate_routing r = Ok u \<Longrightarrow>
     \<not> additional_paid_api r \<and> 20 \<le> quota_reserve_percent r \<and> quota_reserve_percent r \<le> 100 \<and>
     permitted_billing r \<noteq> [] \<and> Paid \<notin> set (permitted_billing r) \<and>
     Unknown_Billing \<notin> set (permitted_billing r)"
  unfolding validate_routing_def by (auto simp: result_simps policy_limits list_ex_iff)

lemma validate_policy_parts:
  assumes "validate_policy p = Ok u"
  shows "validate_continuous (continuous p) = Ok ()" "validate_routing (routing p) = Ok ()"
  using assms unfolding validate_policy_def by (auto simp: result_simps)

section \<open>What validation accepts\<close>

definition team_ok :: "team_policy \<Rightarrow> bool" where
  "team_ok t \<longleftrightarrow> valid_team_id (team_id t) \<and> roles t \<noteq> [] \<and> list_all valid_role (roles t) \<and> distinct (roles t)"

definition bounded_continuous :: "continuous_policy \<Rightarrow> bool" where
  "bounded_continuous c \<longleftrightarrow>
     \<not> enabled c \<and> max_workers c \<in> {1..2} \<and> max_integration c = 1 \<and> goal_minutes c \<in> {1..90} \<and>
     max_tasks_per_goal c \<in> {1..8} \<and> max_attempts_per_task c \<in> {1..3} \<and> max_escalations c \<le> 1 \<and>
     discovery_runs_per_day c \<le> 2 \<and> max_autonomous_goals c \<le> 1"

definition bounded_routing :: "routing_policy \<Rightarrow> bool" where
  "bounded_routing r \<longleftrightarrow>
     \<not> additional_paid_api r \<and> quota_reserve_percent r \<in> {20..100} \<and> permitted_billing r \<noteq> [] \<and>
     distinct (permitted_billing r) \<and> set (permitted_billing r) \<subseteq> {Subscription, Free, Local}"

definition bounded_tokens :: "token_policy option \<Rightarrow> bool" where
  "bounded_tokens ts \<longleftrightarrow>
     (case ts of None \<Rightarrow> True
      | Some t \<Rightarrow> 1 \<le> verification_reserve t \<and> verification_reserve t \<le> max_per_goal t \<and>
                  max_per_goal t \<le> 200000)"

lemma validate_continuous_iff [result_simps]: "validate_continuous c = Ok u \<longleftrightarrow> bounded_continuous c"
  unfolding validate_continuous_def bounded_continuous_def
  by (auto simp: result_simps policy_limits)

lemma validate_routing_iff [result_simps]: "validate_routing r = Ok u \<longleftrightarrow> bounded_routing r"
proof -
  have "set bs \<subseteq> {Subscription, Free, Local} \<longleftrightarrow> Paid \<notin> set bs \<and> Unknown_Billing \<notin> set bs" for bs
    using billing.exhaust by blast
  then show ?thesis
    unfolding validate_routing_def bounded_routing_def
    by (auto simp: result_simps policy_limits list_ex_iff)
qed

lemma validate_tokens_iff [result_simps]: "validate_tokens ts = Ok u \<longleftrightarrow> bounded_tokens ts"
  unfolding validate_tokens_def bounded_tokens_def
  by (auto simp: result_simps split: option.splits)

lemma validate_teams_iff [result_simps]:
  "validate_teams seen ts = Ok u \<longleftrightarrow>
     list_all team_ok ts \<and> distinct (map team_id ts) \<and> set (map team_id ts) \<inter> set seen = {}"
proof (induction ts arbitrary: seen)
  case (Cons t ts)
  then show ?case
    by (auto simp: team_ok_def list_ex_iff list_all_iff)
qed simp

lemma validate_policy_iff:
  "validate_policy p = Ok u \<longleftrightarrow>
     bounded_tokens (tokens p) \<and> dp_schema_version p = 1 \<and> bounded_continuous (continuous p) \<and>
     bounded_routing (routing p) \<and> providers p \<noteq> [] \<and> distinct (providers p) \<and>
     teams p \<noteq> [] \<and> list_all team_ok (teams p) \<and> distinct (map team_id (teams p))"
  unfolding validate_policy_def by (auto simp: result_simps SCHEMA_VERSION_def)

text \<open>A policy file that loads is within every hard bound, whatever its text says: the
  continuous mode is off, no paid interface is permitted, at most two workers, one integration,
  90 minutes, 8 tasks, 3 attempts and one escalation, a quota reserve of at least a fifth, known
  roles and unique teams.  The converse holds too, so nothing within the bounds is refused, and
  the audit of the continuous mode never reports it as eligible or in force.\<close>


theorem loaded_policy_is_bounded:
  "((\<exists>lp. load_policy rd path (Ok raw) = Ok lp \<and> lp_policy lp = p) \<longleftrightarrow>
      decode_policy rd raw = Ok p \<and>
      bounded_tokens (tokens p) \<and> dp_schema_version p = 1 \<and> bounded_continuous (continuous p) \<and>
      bounded_routing (routing p) \<and> providers p \<noteq> [] \<and> distinct (providers p) \<and>
      teams p \<noteq> [] \<and> list_all team_ok (teams p) \<and> distinct (map team_id (teams p))) \<and>
   \<not> continuous_eligible (audit_continuous rd content) \<and>
   \<not> effective_enabled (audit_continuous rd content)"
proof -
  have parse: "parse_policy rd raw = Ok q \<longleftrightarrow> decode_policy rd raw = Ok q \<and> validate_policy q = Ok ()" for q
    by (auto simp: parse_policy_def result_simps split: sum.splits)
  have "(\<exists>lp. load_policy rd path (Ok raw) = Ok lp \<and> lp_policy lp = p) \<longleftrightarrow> parse_policy rd raw = Ok p"
    by (auto simp: load_policy_def split: sum.splits)
  then show ?thesis
    unfolding parse validate_policy_iff
    by (simp add: audit_continuous_def audit_continuous_raw_def Let_def split: sum.splits)
qed

section \<open>What a route promises\<close>

lemma context_eligible_Ok [result_simps]:
  "context_eligible rq c = Ok u \<longleftrightarrow>
     (\<exists>ts. max_context_tokens c = Some ts \<and> minimum_context_tokens rq \<le> ts)"
  by (auto simp: context_eligible_def split: option.splits)

lemma quota_eligible_Ok [result_simps]:
  "quota_eligible p c = Ok u \<longleftrightarrow>
     (case quota_remaining_percent c of
        None \<Rightarrow> mc_billing c = Local
      | Some q \<Rightarrow> quota_reserve_percent (routing p) < q \<and> q \<le> 100)"
  by (auto simp: quota_eligible_def split: option.splits)

text \<open>What a candidate has to have been observed with, apart from the request.\<close>

definition evidenced :: "u64 \<Rightarrow> model_candidate \<Rightarrow> bool" where
  "evidenced now c \<longleftrightarrow>
     trim (mc_profile_id c) \<noteq> [] \<and> mc_enabled c \<and> attested c \<and> \<not> empty_text (observed_model c) \<and>
     trim (mc_evidence_id c) \<noteq> [] \<and> mc_observed_at c \<le> now \<and> now < mc_expires_at c \<and>
     estimated_task_tokens c \<notin> {None, Some 0}"

text \<open>What a candidate has to offer for the request.\<close>

definition suits :: "route_request \<Rightarrow> model_candidate \<Rightarrow> bool" where
  "suits rq c \<longleftrightarrow>
     requested_model rq \<in> {None, observed_model c} \<and>
     required_capabilities rq \<subseteq> capabilities c \<and>
     (mc_tool_adapter c = Verified \<or> requires_verified_tool_adapter rq = False) \<and>
     rq_effort rq \<in> insert None (Some ` efforts c) \<and>
     (\<exists>ts. max_context_tokens c = Some ts \<and> minimum_context_tokens rq \<le> ts)"

text \<open>What the policy demands of the price and of the quota.\<close>

definition affordable :: "development_policy \<Rightarrow> model_candidate \<Rightarrow> bool" where
  "affordable p c \<longleftrightarrow>
     mc_provider c \<in> set (providers p) \<and> mc_billing c \<in> set (permitted_billing (routing p)) \<and>
     mc_billing c \<in> {Subscription, Free, Local} \<and>
     (case quota_remaining_percent c of
        None \<Rightarrow> mc_billing c = Local
      | Some q \<Rightarrow> quota_reserve_percent (routing p) < q \<and> q \<le> 100)"

lemma candidate_eligibility_iff:
  "candidate_eligibility now p rq c = Ok u \<longleftrightarrow> evidenced now c \<and> suits rq c \<and> affordable p c"
proof -
  have billing: "b \<in> {Subscription, Free, Local} \<longleftrightarrow> \<not> (b = Paid \<or> b = Unknown_Billing)" for b
    by (cases b) auto
  have tokens: "(\<not> (case t of None \<Rightarrow> True | Some n \<Rightarrow> n = 0)) \<longleftrightarrow> t \<notin> {None, Some (0 :: u64)}" for t
    by (auto split: option.splits)
  have effort: "(case e of None \<Rightarrow> True | Some x \<Rightarrow> x \<in> X) \<longleftrightarrow> e \<in> insert None (Some ` X)"
    for e and X :: "ustr set"
    by (auto split: option.splits)
  have model: "(case m of None \<Rightarrow> True | Some x \<Rightarrow> o' = Some x) \<longleftrightarrow> m \<in> {None, o'}"
    for m :: "ustr option" and o'
    by (auto split: option.splits)
  show ?thesis
    unfolding candidate_eligibility_def evidenced_def suits_def affordable_def
      result_simps billing tokens effort model
    by auto
qed

lemma select_in_order_cases:
  "case select_in_order clock p rq i cs rej of
     (Some c, _) \<Rightarrow>
       \<exists>before after. cs = before @ c # after \<and>
         is_ok (candidate_eligibility (clock (i + length before)) p rq c) \<and>
         (\<forall>j < length before. \<not> is_ok (candidate_eligibility (clock (i + j)) p rq (before ! j)))
   | (None, rs) \<Rightarrow>
       \<exists>fs. rs = rej @ fs \<and> length fs = length cs \<and>
         (\<forall>j < length cs. candidate_eligibility (clock (i + j)) p rq (cs ! j) = Err (fs ! j))"
proof (induction cs arbitrary: i rej)
  case (Cons c cs)
  show ?case
  proof (cases "candidate_eligibility (clock i) p rq c")
    case (Inr u)
    have "c # cs = [] @ c # cs" by simp
    with Inr show ?thesis by fastforce
  next
    case (Inl f)
    note IH = Cons.IH [where i = "Suc i" and rej = "rej @ [f]"]
    show ?thesis
    proof (cases "select_in_order clock p rq (Suc i) cs (rej @ [f])")
      case (Pair s rs)
      show ?thesis
      proof (cases s)
        case None
        from IH obtain fs where fs: "rs = (rej @ [f]) @ fs" "length fs = length cs"
          "\<forall>j < length cs. candidate_eligibility (clock (Suc i + j)) p rq (cs ! j) = Err (fs ! j)"
          unfolding Pair None by auto
        then have "rs = rej @ (f # fs) \<and> length (f # fs) = length (c # cs) \<and>
          (\<forall>j < length (c # cs). candidate_eligibility (clock (i + j)) p rq ((c # cs) ! j) = Err ((f # fs) ! j))"
          using Inl by (auto simp: nth_Cons split: nat.splits)
        then show ?thesis
          using Inl Pair None by auto
      next
        case (Some d)
        from IH obtain before "after" where b: "cs = before @ d # after"
          "is_ok (candidate_eligibility (clock (Suc i + length before)) p rq d)"
          "\<forall>j < length before. \<not> is_ok (candidate_eligibility (clock (Suc i + j)) p rq (before ! j))"
          unfolding Pair Some by auto
        then have "c # cs = (c # before) @ d # after \<and>
          is_ok (candidate_eligibility (clock (i + length (c # before))) p rq d) \<and>
          (\<forall>j < length (c # before). \<not> is_ok (candidate_eligibility (clock (i + j)) p rq ((c # before) ! j)))"
          using Inl by (auto simp: nth_Cons split: nat.splits)
        moreover have "select_in_order clock p rq i (c # cs) rej = (Some d, rs)"
          using Inl Pair Some by simp
        ultimately show ?thesis
          by (simp only: prod.case option.case) blast
      qed
    qed
  qed
qed simp

lemma min_by_key_None [simp]: "min_by_key k xs = None \<longleftrightarrow> xs = []"
  by (cases xs) (auto split: option.splits if_splits)

lemma min_by_key_Some:
  "min_by_key k xs = Some x \<Longrightarrow> x \<in> set xs \<and> (\<forall>y \<in> set xs. k x \<le> k y)"
proof (induction xs arbitrary: x)
  case (Cons a xs)
  show ?case
  proof (cases "min_by_key k xs")
    case None
    with Cons.prems show ?thesis by simp
  next
    case (Some y)
    then show ?thesis
      using Cons.IH [of y] Cons.prems by (auto split: if_splits)
  qed
qed simp


text \<open>C35: Routing takes the cheapest eligible candidate and nothing else.  Under a valid policy
  the candidates are ordered by their estimate (then by profile and models); a resolved route is
  the record of the first one that is eligible at the time it is looked at, every one before it
  was ineligible and none after it is cheaper.  No route means that every candidate was refused;
  the reported failure is then the reason of one of them and no other reason ranks before it.
  Under an invalid policy nothing is routed and the failure says what is wrong with the policy.\<close>

theorem selection_is_cheapest_eligible:
  "case validate_policy p of
     Err e \<Rightarrow> select_candidate reg clock p rq cs = rejected rq Policy e
   | Ok _ \<Rightarrow>
       (case rd_resolved (select_candidate reg clock p rq cs) of
          Some r \<Rightarrow>
            rd_failure (select_candidate reg clock p rq cs) = None \<and>
            (\<exists>before c after. sort_key route_key cs = before @ c # after \<and>
               r = resolved_with_registry c rq reg \<and>
               is_ok (candidate_eligibility (clock (length before)) p rq c) \<and>
               (\<forall>j < length before. \<not> is_ok (candidate_eligibility (clock j) p rq (before ! j))) \<and>
               list_all (\<lambda>d. estimate c \<le> estimate d) after)
        | None \<Rightarrow>
            (\<exists>f. rd_failure (select_candidate reg clock p rq cs) = Some f \<and>
               (if cs = [] then rf_class f = NoEligibleCandidate
                else
                  (\<exists>j < length cs. candidate_eligibility (clock j) p rq (sort_key route_key cs ! j) = Err f) \<and>
                  (\<forall>j < length cs. \<exists>g.
                     candidate_eligibility (clock j) p rq (sort_key route_key cs ! j) = Err g \<and>
                     failure_priority (rf_class f) \<le> failure_priority (rf_class g)))))"
proof (cases "validate_policy p")
  case (Inl e)
  then show ?thesis by (simp add: select_candidate_def)
next
  case (Inr u)
  let ?cs = "sort_key route_key cs"
  obtain s rs where walk: "select_in_order clock p rq 0 ?cs [] = (s, rs)"
    by fastforce
  note cases = select_in_order_cases [where
    clock = clock and p = p and rq = rq and i = 0 and cs = ?cs and rej = "[]", unfolded walk]
  show ?thesis
  proof (cases s)
    case (Some c)
    from cases obtain before "after" where b: "?cs = before @ c # after"
      "is_ok (candidate_eligibility (clock (length before)) p rq c)"
      "\<forall>j < length before. \<not> is_ok (candidate_eligibility (clock j) p rq (before ! j))"
      unfolding Some by auto
    have "sorted (map route_key (before @ c # after))"
      using sorted_sort_key [of route_key cs] unfolding b(1) .
    then have "\<forall>d \<in> set after. route_key c \<le> route_key d"
      by (auto simp: sorted_append)
    then have "list_all (\<lambda>d. estimate c \<le> estimate d) after"
      by (auto simp: list_all_iff route_key_def less_eq_prod_def)
    with b have "\<exists>before d after. ?cs = before @ d # after \<and>
        resolved_with_registry c rq reg = resolved_with_registry d rq reg \<and>
        is_ok (candidate_eligibility (clock (length before)) p rq d) \<and>
        (\<forall>j < length before. \<not> is_ok (candidate_eligibility (clock j) p rq (before ! j))) \<and>
        list_all (\<lambda>e. estimate d \<le> estimate e) after"
      by blast
    then show ?thesis
      by (simp add: Inr Some walk select_candidate_def)
  next
    case None
    from cases have len: "length rs = length cs"
      and all: "\<forall>j < length cs. candidate_eligibility (clock j) p rq (?cs ! j) = Err (rs ! j)"
      unfolding None by auto
    show ?thesis
    proof (cases "min_by_key (\<lambda>f. failure_priority (rf_class f)) rs")
      case None': None
      then have "cs = []" using len by simp
      then show ?thesis
        using Inr None None' walk len
        by (simp add: select_candidate_def rejected_def failure_def)
    next
      case (Some f)
      note min = min_by_key_Some [OF Some]
      obtain j where j: "j < length rs" "f = rs ! j"
        using min by (auto simp: in_set_conv_nth)
      have ex: "\<exists>j < length cs. candidate_eligibility (clock j) p rq (?cs ! j) = Err f"
        using all j len by auto
      have le: "\<forall>j < length cs. \<exists>g. candidate_eligibility (clock j) p rq (?cs ! j) = Err g \<and>
          failure_priority (rf_class f) \<le> failure_priority (rf_class g)"
        using all min len by auto
      have "cs \<noteq> []" using j len by auto
      moreover have "select_candidate reg clock p rq cs = rejected rq (rf_class f) (rf_detail f)"
        using Inr None walk Some by (simp add: select_candidate_def Let_def)
      moreover have "failure (rf_class f) (rf_detail f) = f"
        by (simp add: failure_def)
      ultimately show ?thesis
        using Inr ex le by (simp add: rejected_def)
    qed
  qed
qed

text \<open>A request and candidates to evaluate on: the cheapest one is billed per call, the next one
  has too little quota left, the third one is eligible.\<close>

definition sample_request :: route_request where
  "sample_request =
     \<lparr> requested_model = None, required_capabilities = {lit ''code''}, rq_effort = None,
       minimum_context_tokens = 1000, requires_verified_tool_adapter = True \<rparr>"

definition sample_candidate :: "string \<Rightarrow> billing \<Rightarrow> u8 \<Rightarrow> u64 \<Rightarrow> model_candidate" where
  "sample_candidate profile bill quota cost =
     \<lparr> mc_profile_id = lit profile, mc_provider = Claude, configured_model = None,
       observed_model = Some (lit ''m''), attested = True, mc_enabled = True, mc_billing = bill,
       capabilities = {lit ''code''}, efforts = {}, max_context_tokens = Some 2000,
       quota_remaining_percent = Some quota, mc_tool_adapter = Verified,
       estimated_task_tokens = Some cost, mc_evidence_id = lit ''e'', mc_observed_at = 10,
       mc_expires_at = 30 \<rparr>"

definition sample_candidates :: "model_candidate list" where
  "sample_candidates =
     [sample_candidate ''c'' Subscription 90 7, sample_candidate ''a'' Paid 90 1,
      sample_candidate ''b'' Free 20 2]"

definition sample_registry :: family_registry where
  "sample_registry =
     \<lparr> reg_reference = \<lparr> ref_source = lit ''s'', ref_revision = lit ''r'', ref_digest = lit ''d'' \<rparr>,
       reg_revoked = False, reg_entries = [] \<rparr>"

lemma default_policy_is_valid: "validate_policy default_policy = Ok ()"
  by code_simp

lemma sample_route:
  "map_option rr_profile_id
     (rd_resolved (select_candidate sample_registry (\<lambda>_. 20) default_policy sample_request sample_candidates)) =
   Some (lit ''c'')"
  by code_simp

theorem selection_is_cheapest_eligible_witness:
  "\<exists>before c after r. sort_key route_key sample_candidates = before @ c # after \<and>
     rd_resolved (select_candidate sample_registry (\<lambda>_. 20) default_policy sample_request
       sample_candidates) = Some r \<and>
     r = resolved_with_registry c sample_request sample_registry \<and>
     is_ok (candidate_eligibility 20 default_policy sample_request c) \<and>
     list_all (\<lambda>d. estimate c \<le> estimate d) after"
proof -
  obtain r where r: "rd_resolved (select_candidate sample_registry (\<lambda>_. 20) default_policy
      sample_request sample_candidates) = Some r"
    using sample_route by auto
  show ?thesis
    using selection_is_cheapest_eligible [where p = default_policy and reg = sample_registry
      and clock = "\<lambda>_. 20" and rq = sample_request and cs = sample_candidates,
      unfolded default_policy_is_valid sum.case r option.case]
    unfolding r by blast
qed

lemma resolved_candidate:
  assumes "rd_resolved (select_candidate reg clock p rq cs) = Some r"
  obtains c i where "c \<in> set cs" "validate_policy p = Ok ()" "r = resolved_with_registry c rq reg"
    "candidate_eligibility (clock i) p rq c = Ok ()"
proof -
  from assms have valid: "validate_policy p = Ok ()"
    by (cases "validate_policy p") (simp_all add: select_candidate_def rejected_def)
  obtain s rs where walk: "select_in_order clock p rq 0 (sort_key route_key cs) [] = (s, rs)"
    by fastforce
  with assms valid obtain c where c: "s = Some c" "r = resolved_with_registry c rq reg"
    by (cases s) (simp_all add: select_candidate_def rejected_def Let_def)
  from select_in_order_cases [where clock = clock and p = p and rq = rq and i = 0
      and cs = "sort_key route_key cs" and rej = "[]", unfolded walk]
  obtain before "after" where b: "sort_key route_key cs = before @ c # after"
    "is_ok (candidate_eligibility (clock (length before)) p rq c)"
    unfolding c by auto
  from b(1) have "c \<in> set (sort_key route_key cs)" by simp
  then have "c \<in> set cs" by simp
  with b(2) valid c show thesis
    by (auto simp: is_ok_iff intro: that)
qed

text \<open>A route never spends money and never rests on a guess.  Whatever route is chosen comes
  from one of the supplied candidates, of a provider the policy names, billed by subscription,
  free or local; its model was observed and attested with evidence current at the time it was
  looked at; it offers what the request asks for; and a fifth of the quota stays untouched,
  unless the model is local and has no quota.\<close>

theorem routes_never_spend_or_guess:
  assumes "rd_resolved (select_candidate reg clock p rq cs) = Some r"
  shows "\<exists>c now. c \<in> set cs \<and> r = resolved_with_registry c rq reg \<and>
    mc_provider c \<in> set (providers p) \<and> mc_billing c \<in> {Subscription, Free, Local} \<and>
    evidenced now c \<and> suits rq c \<and>
    (\<exists>m. rr_resolved_model r = Measured m \<and> observed_model c = Some m \<and> m \<noteq> []) \<and>
    (\<exists>t. rr_estimated_task_tokens r = Estimated t \<and> 0 < t) \<and>
    (case quota_remaining_percent c of None \<Rightarrow> mc_billing c = Local | Some q \<Rightarrow> 20 < q \<and> q \<le> 100)"
proof -
  obtain c i where c: "c \<in> set cs" "r = resolved_with_registry c rq reg"
    and valid: "validate_policy p = Ok ()"
    and elig: "candidate_eligibility (clock i) p rq c = Ok ()"
    using assms by (rule resolved_candidate)
  from valid have "20 \<le> quota_reserve_percent (routing p)"
    by (simp add: validate_policy_iff bounded_routing_def)
  then have quota: "quota_reserve_percent (routing p) < q \<Longrightarrow> 20 < q" for q
    by (rule order.strict_trans1)
  note ok = elig [unfolded candidate_eligibility_iff]
  from ok have "evidenced (clock i) c" by simp
  then have model: "\<exists>m. rr_resolved_model r = Measured m \<and> observed_model c = Some m \<and> m \<noteq> []"
    and tokens: "\<exists>t. rr_estimated_task_tokens r = Estimated t \<and> 0 < t"
    unfolding c(2) resolved_with_registry_def evidenced_def
    by (auto simp: empty_text_def or_unavailable_def word_neq_0_conv split: option.splits)
  from ok have "case quota_remaining_percent c of None \<Rightarrow> mc_billing c = Local
      | Some q \<Rightarrow> 20 < q \<and> q \<le> 100"
    unfolding affordable_def using quota by (auto split: option.splits)
  with ok c model tokens show ?thesis
    unfolding affordable_def by blast
qed

theorem routes_never_spend_or_guess_witness:
  "\<exists>c now. c \<in> set sample_candidates \<and> mc_billing c \<in> {Subscription, Free, Local} \<and>
     evidenced now c \<and> suits sample_request c"
proof -
  obtain r where "rd_resolved (select_candidate sample_registry (\<lambda>_. 20) default_policy
      sample_request sample_candidates) = Some r"
    using sample_route by auto
  from routes_never_spend_or_guess [OF this] show ?thesis by blast
qed

text \<open>A task escalates once at most, and never for a reason another model could not help
  with.  An escalation is granted exactly under a valid policy that permits one, to a task that
  had none yet, for an independently verified failure of the implementation or of the reasoning;
  the counter it hands back is one, and with that counter every later request is denied.\<close>

theorem escalates_once_for_verified_failures:
  "(decide_escalation p previous f = Allowed n \<longleftrightarrow>
      validate_policy p = Ok () \<and> max_escalations (continuous p) = 1 \<and> previous = 0 \<and> n = 1 \<and>
      ef_verified f \<and> ef_class f \<in> {Failed_Implementation, Failed_Reasoning}) \<and>
   decide_escalation p n' g \<noteq> Allowed 0 \<and>
   decide_escalation p 1 g \<noteq> Allowed n'"
proof -
  have bound: "max_escalations (continuous p) \<le> 1" if "validate_policy p = Ok ()"
    using that by (simp add: validate_policy_iff bounded_continuous_def)
  have one: "\<not> (m \<le> q \<or> 1 \<le> q) \<longleftrightarrow> m = 1 \<and> q = 0" if "m \<le> 1" for m q :: u8
    using that by (auto simp: not_le word_less_1 word_le_nat_alt word_less_nat_alt word_unat_eq_iff)
  have "decide_escalation p q h = Allowed k \<longleftrightarrow>
      validate_policy p = Ok () \<and> max_escalations (continuous p) = 1 \<and> q = 0 \<and> k = 1 \<and>
      ef_verified h \<and> ef_class h \<in> {Failed_Implementation, Failed_Reasoning}" for q h k
  proof (cases "validate_policy p")
    case (Inr u)
    with one [OF bound, of q] show ?thesis
      by (auto simp: decide_escalation_def DEFAULT_MAX_ESCALATIONS_def)
  qed (simp add: decide_escalation_def)
  then show ?thesis by simp
qed

section \<open>The registry of families\<close>

lemma btree_insert_spec:
  assumes "sorted (map fst m)" "distinct (map fst m)"
  shows "fst (btree_insert k v m) = map_of m k \<and>
    map_of (snd (btree_insert k v m)) = (map_of m)(k \<mapsto> v) \<and>
    sorted (map fst (snd (btree_insert k v m))) \<and> distinct (map fst (snd (btree_insert k v m))) \<and>
    fst ` set (snd (btree_insert k v m)) = insert k (fst ` set m)"
  using assms
proof (induction m)
  case (Cons e m)
  obtain k' v' where e: "e = (k', v')" by force
  consider "k < k'" | "k = k'" | "k' < k" by fastforce
  then show ?case
  proof cases
    case 1
    with Cons.prems have "\<forall>x \<in> fst ` set m. k < x" by (force simp: e)
    then have "k \<notin> fst ` set m" by blast
    moreover from this have "map_of m k = None" by (simp add: map_of_eq_None_iff)
    ultimately show ?thesis
      using 1 Cons.prems by (auto simp: e)
  next
    case 2
    with Cons.prems show ?thesis by (auto simp: e)
  next
    case 3
    from Cons.IH Cons.prems have IH: "fst (btree_insert k v m) = map_of m k"
      "map_of (snd (btree_insert k v m)) = (map_of m)(k \<mapsto> v)"
      "sorted (map fst (snd (btree_insert k v m)))" "distinct (map fst (snd (btree_insert k v m)))"
      "fst ` set (snd (btree_insert k v m)) = insert k (fst ` set m)"
      by (simp_all del: fun_upd_apply)
    have "\<forall>x \<in> fst ` set (snd (btree_insert k v m)). k' \<le> x"
      unfolding IH(5) using Cons.prems 3 by (force simp: e)
    then have "\<forall>x \<in> set (snd (btree_insert k v m)). k' \<le> fst x" by blast
    moreover have "k' \<notin> fst ` set (snd (btree_insert k v m))"
      unfolding IH(5) using Cons.prems 3 by (auto simp: e)
    ultimately show ?thesis
      using 3 IH Cons.prems by (auto simp: e fun_upd_twist)
  qed
qed simp

lemma canonical_entries_spec:
  assumes "canonical_entries es m = Ok m'" "sorted (map fst m)" "distinct (map fst m)"
  shows "(\<forall>p a f. map_of m' (p, a) = Some f \<longleftrightarrow> map_of m (p, a) = Some f \<or> (p, a, f) \<in> set es) \<and>
    list_all (\<lambda>(p, a, f). trim a \<noteq> [] \<and> trim f \<noteq> []) es"
  using assms
proof (induction es arbitrary: m)
  case (Cons e es)
  obtain q b g where e: "e = (q, b, g)" by (cases e)
  from Cons.prems(1) obtain m1 where m1: "btree_insert (q, b) g m = (None, m1)"
    and rest: "canonical_entries es m1 = Ok m'" and trims: "trim b \<noteq> []" "trim g \<noteq> []"
    by (auto simp: e split: if_splits prod.splits option.splits)
  from btree_insert_spec [OF Cons.prems(2,3), of "(q, b)" g] m1
  have fresh: "map_of m (q, b) = None" and upd: "map_of m1 = (map_of m)((q, b) \<mapsto> g)"
    and sorted: "sorted (map fst m1)" "distinct (map fst m1)"
    by simp_all
  from Cons.IH [OF rest sorted] fresh trims show ?case
    by (auto simp: e upd)
qed simp

lemma checked_registry_entries:
  assumes "checked_registry digest_of source revision revoked entries expected = Ok reg"
  shows "reg_revoked reg = revoked"
    and "map_of (reg_entries reg) (p, a) = Some f \<longleftrightarrow> (p, a, f) \<in> set entries"
    and "(p, a, f) \<in> set entries \<Longrightarrow> trim a \<noteq> []"
proof -
  from assms obtain m where m: "canonical_entries entries [] = Ok m"
    and reg: "reg_revoked reg = revoked" "reg_entries reg = m"
    by (auto simp: checked_registry_def and_then_Ok Let_def split: if_splits)
  note spec = canonical_entries_spec [OF m]
  show "reg_revoked reg = revoked" by (rule reg)
  show "map_of (reg_entries reg) (p, a) = Some f \<longleftrightarrow> (p, a, f) \<in> set entries"
    using spec reg by simp
  show "(p, a, f) \<in> set entries \<Longrightarrow> trim a \<noteq> []"
    using spec by (fastforce simp: list_all_iff)
qed

text \<open>An identity counts as observed only with the whole chain of proof.  For a registry built
  from a list of entries, the assessment is \<open>Observed\<close> exactly when the producer claims so and
  names a source and an evidence, the claim was made in the past and has not expired, the
  registry is not revoked and is the very snapshot the claim refers to, and that snapshot lists
  the claimed family for the claimed provider and model.\<close>

theorem observed_identity_is_proven:
  assumes "checked_registry digest_of source revision revoked entries expected = Ok reg"
  shows "assess_identity_observation ob reg now = Observed \<longleftrightarrow>
    io_status ob = Observed \<and> \<not> revoked \<and> io_registry ob = Some (reg_reference reg) \<and>
    (\<exists>src ev start end'. io_source ob = Some src \<and> trim src \<noteq> [] \<and>
       io_evidence_id ob = Some ev \<and> trim ev \<noteq> [] \<and>
       io_observed_at ob = Some start \<and> io_expires_at ob = Some end' \<and>
       0 < start \<and> start \<le> now \<and> now < end') \<and>
    (\<exists>provider model family. it_provider (io_identity ob) = Some provider \<and>
       it_model (io_identity ob) = Some model \<and> it_family (io_identity ob) = Some family \<and>
       (provider, model, family) \<in> set entries)"
proof -
  note entries = checked_registry_entries [OF assms]
  have family: "fr_family (resolve_family reg p a) = Some f \<longleftrightarrow> \<not> revoked \<and> (p, a, f) \<in> set entries"
    for p a f
    using entries (1) entries (2) [of p a f] entries (3) [of p a f]
    by (auto simp: resolve_family_def status_only_def split: option.splits)
  have reference: "assess_reference ob reg = Observed \<longleftrightarrow>
      io_registry ob = Some (reg_reference reg) \<and>
      (\<exists>provider model family. it_provider (io_identity ob) = Some provider \<and>
         it_model (io_identity ob) = Some model \<and> it_family (io_identity ob) = Some family \<and>
         \<not> revoked \<and> (provider, model, family) \<in> set entries)"
    unfolding assess_reference_def family [symmetric]
    by (auto split: option.splits)
  have window: "\<not> (start = 0 \<or> end' \<le> start \<or> now < start) \<and> \<not> end' \<le> now \<longleftrightarrow>
      0 < start \<and> start \<le> now \<and> now < end'" for start end' :: u64
    by (auto simp: word_neq_0_conv not_le)
  show ?thesis
  proof (cases "io_source ob = None \<or> io_evidence_id ob = None \<or> io_observed_at ob = None \<or>
      io_expires_at ob = None")
    case True
    then show ?thesis
      by (auto simp: assess_identity_observation_def split: option.splits)
  next
    case False
    then obtain src ev start end' where some: "io_source ob = Some src" "io_evidence_id ob = Some ev"
      "io_observed_at ob = Some start" "io_expires_at ob = Some end'"
      by auto
    show ?thesis
      unfolding assess_identity_observation_def some using reference window [of start end'] entries(1)
      by auto
  qed
qed

definition sample_families :: "(agent_provider \<times> ustr \<times> ustr) list" where
  "sample_families = [(Codex, lit ''m'', lit ''f''), (Claude, lit ''m'', lit ''g'')]"

definition sample_snapshot :: family_registry where
  "sample_snapshot =
     \<lparr> reg_reference = \<lparr> ref_source = lit ''s'', ref_revision = lit ''r'', ref_digest = lit ''d'' \<rparr>,
       reg_revoked = False,
       reg_entries = [((Claude, lit ''m''), lit ''g''), ((Codex, lit ''m''), lit ''f'')] \<rparr>"

definition sample_observation :: identity_observation where
  "sample_observation =
     \<lparr> io_identity = \<lparr> it_provider = Some Codex, it_model = Some (lit ''m''), it_family = Some (lit ''f'') \<rparr>,
       io_status = Observed, io_source = Some (lit ''p''), io_evidence_id = Some (lit ''e''),
       io_observed_at = Some 10, io_expires_at = Some 30, io_registry = Some (reg_reference sample_snapshot) \<rparr>"

lemma sample_snapshot_checked:
  "checked_registry (\<lambda>_. lit ''d'') (lit ''s'') (lit ''r'') False sample_families None = Ok sample_snapshot"
  by code_simp

lemma sample_trims: "trim (lit ''p'') \<noteq> []" "trim (lit ''e'') \<noteq> []"
  by code_simp+

theorem observed_identity_is_proven_witness:
  "assess_identity_observation sample_observation sample_snapshot 20 = Observed \<and>
   assess_identity_observation sample_observation sample_snapshot 30 \<noteq> Observed"
  unfolding observed_identity_is_proven [OF sample_snapshot_checked]
  using sample_trims by (simp add: sample_observation_def sample_families_def)

end
