(* ===== verification/Development_Plan.thy ===== *)
theory Development_Plan
  imports Prelude Rust_Text "HOL-Library.Multiset"
begin

text \<open>
  The plan documents, \<open>src-tauri/src/development_plan.rs\<close>: Markdown tables of work packages are
  read line by line into projections.  The three readers share the rules for fenced blocks and for
  the delimiter row of a table; each is a function of one line and a scan state, folded over
  the numbered lines.  The plan reader then checks that every reference is known and that
  neither the dependencies nor the parents have a cycle.  SHA-256 is a parameter.  An access by index
  that is out of bounds is a panic, a way of ending of its own beside the errors the readers report.
\<close>

section \<open>Lines and tables\<close>

record plan_error =
  pe_source_path :: ustr
  pe_source_line :: nat
  pe_reason :: ustr

text \<open>What ends a reader early: an error it returns, or a panic.\<close>

datatype stop = Failed plan_error | Panic

definition plan_error_at :: "ustr \<Rightarrow> nat \<Rightarrow> ustr \<Rightarrow> plan_error" where
  "plan_error_at path n reason = \<lparr> pe_source_path = path, pe_source_line = n, pe_reason = reason \<rparr>"

definition plan_failure :: "ustr \<Rightarrow> nat \<Rightarrow> ustr \<Rightarrow> stop" where
  "plan_failure path n reason = Failed (plan_error_at path n reason)"

text \<open>\<open>xs[i]\<close>.\<close>

definition index_at :: "'a list \<Rightarrow> nat \<Rightarrow> stop + 'a" where
  "index_at xs i = (if i < length xs then Ok (xs ! i) else Err Panic)"

definition is_fence :: "ustr \<Rightarrow> bool" where
  "is_fence line \<longleftrightarrow> starts_with line [96, 96, 96] \<or> starts_with line [126, 126, 126]"

text \<open>An open fence is its marker and its length; another fence line may close it.\<close>

definition toggle_fence :: "(uchar \<times> nat) option \<Rightarrow> ustr \<Rightarrow> stop + (uchar \<times> nat) option" where
  "toggle_fence fence line =
     and_then (index_at line 0) (\<lambda>marker.
     let count = length (takeWhile (\<lambda>b. b = marker) line) in
     Ok (case fence of
           None \<Rightarrow> Some (marker, count)
         | Some (m, c) \<Rightarrow>
             if marker = m \<and> c \<le> count \<and> trim (drop count line) = [] then None else fence))"

abbreviation pipe :: uchar where "pipe \<equiv> 124"

abbreviation escaped_pipe :: ustr where "escaped_pipe \<equiv> [92, 124]"

definition valid_delimiter_cell :: "ustr \<Rightarrow> bool" where
  "valid_delimiter_cell c \<longleftrightarrow>
     (let d = trim_matches 58 c in \<not> byte_len d < 3 \<and> list_all (\<lambda>b. b = 45) d)"

text \<open>The cell under the column of a header that has the property.\<close>

definition cell_at :: "(ustr \<Rightarrow> bool) \<Rightarrow> ustr list \<Rightarrow> ustr list \<Rightarrow> stop + ustr option" where
  "cell_at P header cells =
     (case position P header of
        None \<Rightarrow> Ok None
      | Some i \<Rightarrow> and_then (index_at cells i) (\<lambda>c. Ok (Some c)))"

definition field :: "ustr list \<Rightarrow> ustr list \<Rightarrow> ustr \<Rightarrow> stop + ustr option" where
  "field header cells name = cell_at (\<lambda>c. c = name) header cells"

definition valid_id :: "ustr \<Rightarrow> bool" where
  "valid_id s \<longleftrightarrow>
     (case s of [] \<Rightarrow> False | b # _ \<Rightarrow> is_ascii_alphanumeric b) \<and>
     list_all (\<lambda>b. is_ascii_alphanumeric b \<or> b = 45 \<or> b = 95 \<or> b = 46) s"

text \<open>The fold over the numbered lines, ended by the first error.\<close>

fun scan_lines :: "(nat \<Rightarrow> ustr \<Rightarrow> 's \<Rightarrow> 'e + 's) \<Rightarrow> nat \<Rightarrow> ustr list \<Rightarrow> 's \<Rightarrow> 'e + 's" where
  "scan_lines step n [] s = Ok s"
| "scan_lines step n (line # ls) s = and_then (step n line s) (scan_lines step (Suc n) ls)"

section \<open>The plan\<close>

record plan_package =
  pp_project_id :: ustr
  pp_plan_id :: ustr
  package_id :: ustr
  parent_id :: "ustr option"
  pp_source_path :: ustr
  pp_source_revision :: ustr
  source_line :: nat
  title :: ustr
  dependency_ids :: "ustr list"
  acceptance :: ustr

record plan_projection =
  pj_project_id :: ustr
  pj_plan_id :: ustr
  pj_source_path :: ustr
  pj_source_revision :: ustr
  pj_packages :: "plan_package list"

record plan_scan =
  columns :: "ustr list option"
  delimiter :: bool
  fence :: "(uchar \<times> nat) option"
  packages :: "plan_package list"
  ids :: "ustr \<Rightarrow> nat option"

definition initial_plan_scan :: plan_scan where
  "initial_plan_scan =
     \<lparr> columns = None, delimiter = False, fence = None, packages = [], ids = \<lambda>_. None \<rparr>"

definition NACH :: ustr where "NACH = lit ''Nach''"
definition ABNAHME :: ustr where "ABNAHME = lit ''Konkretes Ergebnis und Abnahme''"

definition is_paket :: "ustr \<Rightarrow> bool" where
  "is_paket c \<longleftrightarrow> starts_with c (lit ''Paket'')"

definition parent_column :: "ustr \<Rightarrow> bool" where
  "parent_column c \<longleftrightarrow> c = lit ''Eltern'' \<or> c = lit ''Parent''"

text \<open>A table whose first row looks like a plan header; only a complete one is read.\<close>

definition plan_candidate :: "ustr list option \<Rightarrow> ustr list \<Rightarrow> bool" where
  "plan_candidate cols cells \<longleftrightarrow>
     cols = None \<and> lit ''ID'' \<in> set cells \<and> list_ex is_paket cells \<and>
     (NACH \<in> set cells \<or> list_ex (\<lambda>c. starts_with c (lit ''Konkretes Ergebnis'')) cells)"

definition columns_ambiguous :: "ustr list \<Rightarrow> bool" where
  "columns_ambiguous cells \<longleftrightarrow>
     length (filter is_paket cells) \<noteq> 1 \<or>
     list_ex (\<lambda>c. \<not> is_paket c \<and> \<not> (c = lit ''ID'' \<or> c = NACH \<or> c = ABNAHME \<or> parent_column c)) cells \<or>
     \<not> distinct cells \<or>
     1 < length (filter parent_column cells)"

text \<open>A list of references: nothing, or distinct well-formed identifiers.\<close>

definition references :: "ustr \<Rightarrow> (ustr list) option" where
  "references t =
     (if t = [] \<or> t = [8212] \<or> t = [45] then Some []
      else
        let refs = map trim (split_char 44 t) in
        if list_ex (\<lambda>i. \<not> valid_id i) refs \<or> \<not> distinct refs then None else Some refs)"

record plan_source =
  src_project_id :: ustr
  src_plan_id :: ustr
  src_path :: ustr
  src_revision :: ustr

definition missing_column :: "ustr \<Rightarrow> ustr" where
  "missing_column name = lit ''plan table is missing required column '' @ name"

text \<open>A row of a plan table under its header: the package it describes.\<close>

definition plan_entry ::
  "plan_source \<Rightarrow> nat \<Rightarrow> ustr list \<Rightarrow> ustr list \<Rightarrow> (ustr \<Rightarrow> nat option) \<Rightarrow> stop + plan_package" where
  "plan_entry src n header cells seen =
     (let error = plan_failure (src_path src) n;
          required = (\<lambda>name. and_then (field header cells name) (\<lambda>c. ok_or c (error (missing_column name))));
          refs = (\<lambda>t. ok_or (references t) (error (lit ''invalid or duplicate reference ID'')))
      in
      and_then (cell_at is_paket header cells) (\<lambda>paket.
      and_then (ok_or paket (error (missing_column (lit ''Paket'')))) (\<lambda>title.
      and_then (required (lit ''ID'')) (\<lambda>id.
      and_then (required ABNAHME) (\<lambda>acceptance.
      and_then (required NACH) (\<lambda>dependencies.
      and_then (ensure (\<not> (\<not> valid_id id \<or> title = [] \<or> acceptance = []))
        (error (lit ''stable ID, title and acceptance are required''))) (\<lambda>_.
      (case seen id of
         Some previous \<Rightarrow>
           Err (error (lit ''duplicate ID '' @ id @ lit ''; first at line '' @ decimal previous))
       | None \<Rightarrow>
      and_then (field header cells (lit ''Eltern'')) (\<lambda>eltern.
      and_then (case eltern of
                  Some t \<Rightarrow> Ok (Some t)
                | None \<Rightarrow> field header cells (lit ''Parent'')) (\<lambda>named.
      and_then (refs (case named of Some t \<Rightarrow> t | None \<Rightarrow> [])) (\<lambda>parent.
      and_then (ensure (\<not> 1 < length parent) (error (lit ''at most one parent is allowed''))) (\<lambda>_.
      and_then (refs dependencies) (\<lambda>deps.
      Ok \<lparr> pp_project_id = src_project_id src, pp_plan_id = src_plan_id src, package_id = id,
           parent_id = list_next parent,
           pp_source_path = src_path src, pp_source_revision = src_revision src,
           source_line = n, title = title, dependency_ids = deps,
           acceptance = acceptance \<rparr>)))))))))))))"

definition plan_row ::
  "plan_source \<Rightarrow> nat \<Rightarrow> ustr list \<Rightarrow> ustr list \<Rightarrow> plan_scan \<Rightarrow> stop + plan_scan" where
  "plan_row src n header cells s =
     and_then (plan_entry src n header cells (ids s)) (\<lambda>p.
     Ok (s\<lparr>ids := (ids s)(package_id p \<mapsto> n), packages := packages s @ [p]\<rparr>))"

text \<open>A line that begins with a pipe, outside a fence, and its cells.\<close>

definition plan_cells :: "ustr \<Rightarrow> ustr list" where
  "plan_cells line = map trim (split_char pipe (trim_matches pipe line))"

definition plan_table_line ::
  "plan_source \<Rightarrow> nat \<Rightarrow> ustr \<Rightarrow> ustr list \<Rightarrow> plan_scan \<Rightarrow> stop + plan_scan" where
  "plan_table_line src n line cells s =
     (let error = plan_failure (src_path src) n;
          candidate = plan_candidate (columns s) cells;
          supported = candidate \<and> NACH \<in> set cells \<and> ABNAHME \<in> set cells
      in
      if candidate \<and> str_contains line escaped_pipe
      then Err (error (lit ''unsupported escaped pipe in plan header''))
      else if candidate \<and> \<not> supported
      then Err (error (lit ''incomplete plan header: required columns are missing''))
      else if supported
      then
        if delimiter s \<or> \<not> ends_with line [pipe] \<or> str_contains line escaped_pipe
        then Err (error (lit ''malformed header or missing table delimiter''))
        else if columns_ambiguous cells
        then Err (error (lit ''unsupported or ambiguous plan columns''))
        else Ok (s\<lparr>columns := Some cells, delimiter := True\<rparr>)
      else
        case columns s of
          None \<Rightarrow> Ok s
        | Some header \<Rightarrow>
            if \<not> ends_with line [pipe] \<or> str_contains line escaped_pipe \<or> length cells \<noteq> length header
            then Err (error (lit ''malformed row or unsupported escaped pipe''))
            else if delimiter s
            then
              if list_ex (\<lambda>c. \<not> valid_delimiter_cell c) cells
              then Err (error (lit ''invalid table delimiter''))
              else Ok (s\<lparr>delimiter := False\<rparr>)
            else plan_row src n header cells s)"

definition plan_line :: "plan_source \<Rightarrow> nat \<Rightarrow> ustr \<Rightarrow> plan_scan \<Rightarrow> stop + plan_scan" where
  "plan_line src n raw s =
     (let error = plan_failure (src_path src) n; line = trim raw in
      if is_fence line
      then
        if delimiter s then Err (error (lit ''missing table delimiter before fence''))
        else and_then (toggle_fence (fence s) line) (\<lambda>f. Ok (s\<lparr>fence := f, columns := None\<rparr>))
      else if fence s \<noteq> None then Ok s
      else if \<not> starts_with line [pipe]
      then
        if delimiter s then Err (error (lit ''missing table delimiter''))
        else if columns s \<noteq> None \<and> str_contains line [pipe]
        then Err (error (lit ''table rows require a leading pipe; separate pipe-containing prose with a blank line''))
        else Ok (s\<lparr>columns := None\<rparr>)
      else plan_table_line src n line (plan_cells line) s)"

section \<open>References and cycles\<close>

definition edges :: "bool \<Rightarrow> plan_package \<Rightarrow> ustr list" where
  "edges parents p =
     (if parents then (case parent_id p of None \<Rightarrow> [] | Some i \<Rightarrow> [i]) else dependency_ids p)"

fun first_unknown :: "(ustr \<Rightarrow> nat option) \<Rightarrow> bool \<Rightarrow> plan_package list \<Rightarrow> (plan_package \<times> ustr) option" where
  "first_unknown known parents [] = None"
| "first_unknown known parents (p # ps) =
     (case find (\<lambda>i. known i = None) (edges parents p) of
        Some i \<Rightarrow> Some (p, i)
      | None \<Rightarrow> first_unknown known parents ps)"

text \<open>One pass of the loop: packages whose references are resolved are resolved too.\<close>

definition resolve_pass :: "bool \<Rightarrow> plan_package list \<Rightarrow> ustr set \<Rightarrow> ustr set" where
  "resolve_pass parents ps resolved =
     foldl (\<lambda>r p. if list_all (\<lambda>i. i \<in> r) (edges parents p) then insert (package_id p) r else r)
       resolved ps"

text \<open>How the loop ends; \<open>Panicked\<close> is the \<open>unwrap\<close> of a search without a hit.\<close>

datatype pass_outcome = Resolved | Stuck plan_package | Panicked

lemma resolve_pass_grows: "r \<subseteq> resolve_pass parents ps r"
  unfolding resolve_pass_def by (induction ps arbitrary: r) (simp, force)

lemma resolve_pass_finite: "finite (resolve_pass parents ps r) \<longleftrightarrow> finite r"
  unfolding resolve_pass_def by (induction ps arbitrary: r) simp_all

lemma resolve_pass_card:
  assumes "card (resolve_pass parents ps r) \<noteq> card r"
  shows "card r < card (resolve_pass parents ps r)"
proof -
  have "finite r"
    using assms resolve_pass_finite [of parents ps r] by (cases "finite r") simp_all
  then have "card r \<le> card (resolve_pass parents ps r)"
    by (intro card_mono resolve_pass_grows) (simp add: resolve_pass_finite)
  with assms show ?thesis by simp
qed

function resolve_loop :: "bool \<Rightarrow> plan_package list \<Rightarrow> ustr set \<Rightarrow> pass_outcome" where
  "resolve_loop parents ps resolved =
     (if \<not> card resolved < length ps then Resolved
      else
        let r = resolve_pass parents ps resolved in
        if card r = card resolved
        then (case find (\<lambda>p. package_id p \<notin> r) ps of None \<Rightarrow> Panicked | Some p \<Rightarrow> Stuck p)
        else resolve_loop parents ps r)"
  by pat_completeness auto
termination
  by (relation "measure (\<lambda>(_, ps, r). length ps - card r)") (use resolve_pass_card in fastforce)+

declare resolve_loop.simps [simp del]

text \<open>\<open>None\<close> is the panic.\<close>

definition check_graph :: "ustr \<Rightarrow> (ustr \<Rightarrow> nat option) \<Rightarrow> bool \<Rightarrow> plan_package list \<Rightarrow> (plan_error + unit) option" where
  "check_graph path known parents ps =
     (case first_unknown known parents ps of
        Some (p, i) \<Rightarrow>
          Some (Err (plan_error_at path (source_line p) (lit ''unknown reference '' @ i)))
      | None \<Rightarrow>
          (case resolve_loop parents ps {} of
             Resolved \<Rightarrow> Some (Ok ())
           | Panicked \<Rightarrow> None
           | Stuck p \<Rightarrow>
               Some (Err (plan_error_at path (source_line p)
                 (if parents then lit ''parent cycle or descendant of a cycle''
                  else lit ''dependency cycle or dependency on a cycle'')))))"

definition parse_plan ::
  "(ustr \<Rightarrow> ustr) \<Rightarrow> ustr \<Rightarrow> ustr \<Rightarrow> ustr \<Rightarrow> ustr \<Rightarrow> (plan_error + plan_projection) option" where
  "parse_plan sha256 project plan path text' =
     (if list_ex (\<lambda>s. trim s = []) [project, plan, path]
      then Some (Err (plan_error_at path 1 (lit ''project, plan and source identity are required'')))
      else
        let revision = lit ''sha256:'' @ sha256 text';
            src = \<lparr> src_project_id = project, src_plan_id = plan, src_path = path, src_revision = revision \<rparr>
        in
        case scan_lines (plan_line src) 1 (str_lines text') initial_plan_scan of
          Err Panic \<Rightarrow> None
        | Err (Failed e) \<Rightarrow> Some (Err e)
        | Ok s \<Rightarrow>
            if delimiter s
            then Some (Err (plan_error_at path (length (str_lines text')) (lit ''missing table delimiter'')))
            else if packages s = []
            then Some (Err (plan_error_at path 1 (lit ''unsupported source: no plan packages'')))
            else
              case check_graph path (ids s) False (packages s) of
                None \<Rightarrow> None
              | Some (Err e) \<Rightarrow> Some (Err e)
              | Some (Ok _) \<Rightarrow>
                  (case check_graph path (ids s) True (packages s) of
                     None \<Rightarrow> None
                   | Some (Err e) \<Rightarrow> Some (Err e)
                   | Some (Ok _) \<Rightarrow>
                       Some (Ok \<lparr> pj_project_id = project, pj_plan_id = plan, pj_source_path = path,
                         pj_source_revision = revision, pj_packages = packages s \<rparr>)))"

section \<open>The cycle check is exact\<close>

text \<open>What a package needs, as a relation between identifiers.\<close>

definition needs_rel :: "bool \<Rightarrow> plan_package list \<Rightarrow> (ustr \<times> ustr) set" where
  "needs_rel parents ps = {(d, package_id p) |d p. p \<in> set ps \<and> d \<in> set (edges parents p)}"

lemma finite_needs_rel: "finite (needs_rel parents ps)"
proof -
  have "needs_rel parents ps = (\<Union>p \<in> set ps. (\<lambda>d. (d, package_id p)) ` set (edges parents p))"
    by (auto simp: needs_rel_def)
  then show ?thesis by simp
qed

lemma resolve_pass_Cons [simp]:
  "resolve_pass parents (p # ps) r =
     resolve_pass parents ps (if list_all (\<lambda>i. i \<in> r) (edges parents p) then insert (package_id p) r else r)"
  "resolve_pass parents [] r = r"
  by (simp_all add: resolve_pass_def)

lemma resolve_pass_sound:
  assumes "distinct (map package_id ps)" "set qs \<subseteq> set ps" "r \<subseteq> Wellfounded.acc (needs_rel parents ps)"
  shows "resolve_pass parents qs r \<subseteq> Wellfounded.acc (needs_rel parents ps)"
  using assms(2,3)
proof (induction qs arbitrary: r)
  case (Cons q qs)
  have "package_id q \<in> Wellfounded.acc (needs_rel parents ps)"
    if ready: "list_all (\<lambda>i. i \<in> r) (edges parents q)"
  proof (rule accI)
    fix d
    assume "(d, package_id q) \<in> needs_rel parents ps"
    then obtain p where "p \<in> set ps" "package_id p = package_id q" "d \<in> set (edges parents p)"
      by (auto simp: needs_rel_def)
    moreover from this Cons.prems(1) assms(1) have "p = q"
      by (auto simp: distinct_map inj_on_def)
    ultimately show "d \<in> Wellfounded.acc (needs_rel parents ps)"
      using ready Cons.prems(2) by (auto simp: list_all_iff)
  qed
  then show ?case
    using Cons by simp
qed simp

lemma resolve_pass_ids: "resolve_pass parents ps r \<subseteq> r \<union> package_id ` set ps"
  by (induction ps arbitrary: r) (auto split: if_splits)

lemma resolve_pass_fixed:
  assumes "resolve_pass parents ps r = r" "p \<in> set ps" "set (edges parents p) \<subseteq> r"
  shows "package_id p \<in> r"
  using assms(1,2)
proof (induction ps)
  case (Cons q ps)
  let ?r = "if list_all (\<lambda>i. i \<in> r) (edges parents q) then insert (package_id q) r else r"
  have "?r \<subseteq> resolve_pass parents ps ?r"
    by (rule resolve_pass_grows)
  with Cons.prems(1) have same: "?r = r" by auto
  show ?case
  proof (cases "p = q")
    case True
    then show ?thesis
      using same assms(3) by (auto simp: list_all_iff split: if_splits)
  next
    case False
    with Cons same show ?thesis by simp
  qed
qed simp

lemma resolve_loop_exact:
  assumes "distinct (map package_id ps)"
    and "r \<subseteq> Wellfounded.acc (needs_rel parents ps)" "r \<subseteq> package_id ` set ps"
  shows "case resolve_loop parents ps r of
      Resolved \<Rightarrow> acyclic (needs_rel parents ps)
    | Stuck p \<Rightarrow> p \<in> set ps \<and>
        ((\<forall>q \<in> set ps. set (edges parents q) \<subseteq> package_id ` set ps) \<longrightarrow> \<not> acyclic (needs_rel parents ps))
    | Panicked \<Rightarrow> False"
  using assms
proof (induction parents ps r rule: resolve_loop.induct)
  case (1 parents ps r)
  let ?ids = "package_id ` set ps"
  let ?rel = "needs_rel parents ps"
  let ?next = "resolve_pass parents ps r"
  have card_ids: "card ?ids = length ps"
    using "1.prems"(1) distinct_card [of "map package_id ps"] by simp
  have fin: "finite r"
    using "1.prems"(3) by (rule finite_subset) simp
  show ?case
  proof (cases "card r < length ps")
    case False
    then have "r = ?ids"
      using "1.prems"(3) card_ids by (intro card_seteq) auto
    then have ids: "?ids \<subseteq> Wellfounded.acc ?rel"
      using "1.prems"(2) by simp
    have "x \<in> Wellfounded.acc ?rel" for x
    proof (cases "x \<in> ?ids")
      case False
      then have "(y, x) \<notin> ?rel" for y by (auto simp: needs_rel_def)
      then show ?thesis by (blast intro: accI)
    qed (use ids in blast)
    then have "acyclic ?rel"
      by (intro wf_acyclic) (simp add: wf_iff_acc)
    then show ?thesis
      using False by (simp add: resolve_loop.simps)
  next
    case less: True
    show ?thesis
    proof (cases "card ?next = card r")
      case True
      have fixed: "?next = r"
        using True fin resolve_pass_grows by (metis card_subset_eq resolve_pass_finite)
      have "\<exists>p \<in> set ps. package_id p \<notin> r"
      proof (rule ccontr)
        assume "\<not> ?thesis"
        then have "?ids \<subseteq> r" by blast
        then have "card ?ids \<le> card r" using fin by (rule card_mono [rotated])
        with less card_ids show False by simp
      qed
      then obtain p where p: "find (\<lambda>p. package_id p \<notin> r) ps = Some p"
        by (cases "find (\<lambda>p. package_id p \<notin> r) ps") (auto simp: find_None_iff)
      note p' = find_SomeD [OF p]
      have "\<not> acyclic ?rel" if known: "\<forall>q \<in> set ps. set (edges parents q) \<subseteq> ?ids"
      proof
        assume "acyclic ?rel"
        then have wf: "wf ?rel"
          by (rule finite_acyclic_wf [OF finite_needs_rel])
        from p' have "package_id p \<in> ?ids - r" by blast
        from wfE_min [OF wf this] obtain z where z: "z \<in> ?ids - r"
          and min: "\<And>y. (y, z) \<in> ?rel \<Longrightarrow> y \<notin> ?ids - r"
          by blast
        then obtain q where q: "q \<in> set ps" "z = package_id q" "package_id q \<notin> r" by blast
        have "\<not> set (edges parents q) \<subseteq> r"
          using resolve_pass_fixed [OF fixed q(1)] q(3) by blast
        then obtain d where "d \<in> set (edges parents q)" "d \<notin> r" by blast
        moreover from this known q have "d \<in> ?ids" by blast
        moreover have "(d, z) \<in> ?rel"
          using \<open>d \<in> set (edges parents q)\<close> q by (auto simp: needs_rel_def)
        ultimately show False using min by blast
      qed
      then show ?thesis
        using less p p' fixed by (simp add: resolve_loop.simps [of _ _ r] Let_def)
    next
      case False
      have "?next \<subseteq> Wellfounded.acc ?rel"
        by (rule resolve_pass_sound) (use "1.prems" in auto)
      moreover have "?next \<subseteq> ?ids"
        using resolve_pass_ids "1.prems"(3) by blast
      ultimately show ?thesis
        using "1.IH" [OF _ refl False] "1.prems"(1) less False
        by (simp add: resolve_loop.simps [of _ _ r] Let_def)
    qed
  qed
qed

lemma first_unknown_None:
  "first_unknown known parents ps = None \<longleftrightarrow> (\<forall>p \<in> set ps. set (edges parents p) \<subseteq> dom known)"
proof (induction ps)
  case (Cons p ps)
  show ?case
  proof (cases "find (\<lambda>i. known i = None) (edges parents p)")
    case None
    then have "set (edges parents p) \<subseteq> dom known"
      by (auto simp: find_None_iff)
    with None Cons show ?thesis by simp
  next
    case (Some i)
    then have "\<not> set (edges parents p) \<subseteq> dom known"
      using find_SomeD [OF Some] by auto
    with Some show ?thesis by simp
  qed
qed simp

lemma check_graph_exact:
  assumes "distinct (map package_id ps)" "dom known = set (map package_id ps)"
  shows "check_graph path known parents ps \<noteq> None \<and>
    (check_graph path known parents ps = Some (Ok ()) \<longleftrightarrow>
       (\<forall>p \<in> set ps. set (edges parents p) \<subseteq> set (map package_id ps)) \<and> acyclic (needs_rel parents ps))"
proof (cases "first_unknown known parents ps")
  case None
  then have refs: "\<forall>p \<in> set ps. set (edges parents p) \<subseteq> package_id ` set ps"
    using assms(2) by (simp add: first_unknown_None)
  show ?thesis
    using resolve_loop_exact [OF assms(1), of "{}" parents] refs None
    by (cases "resolve_loop parents ps {}") (auto simp: check_graph_def)
next
  case (Some e)
  then have "\<not> (\<forall>p \<in> set ps. set (edges parents p) \<subseteq> package_id ` set ps)"
    using first_unknown_None [of known parents ps] assms(2) by auto
  with Some show ?thesis
    by (auto simp: check_graph_def split: prod.split)
qed

text \<open>The check of the references is exact.  For packages with distinct identifiers it ends,
  never panics, and succeeds exactly when every reference names a package and following the
  references never leads back to the start.\<close>

theorem graph_check_is_exact:
  assumes "distinct (map package_id ps)" "dom known = set (map package_id ps)"
  shows "check_graph path known parents ps \<noteq> None \<and>
    (check_graph path known parents ps = Some (Ok ()) \<longleftrightarrow>
       (\<forall>p \<in> set ps. set (edges parents p) \<subseteq> set (map package_id ps)) \<and> acyclic (needs_rel parents ps))"
  using assms by (rule check_graph_exact)

section \<open>What an accepted plan promises\<close>

lemma scan_lines_inv:
  assumes step: "\<And>n line s t. P n s \<Longrightarrow> step n line s = Ok t \<Longrightarrow> P (Suc n) t"
    and "P n s" "scan_lines step n ls s = Ok t"
  shows "P (n + length ls) t"
  using assms(2,3)
proof (induction ls arbitrary: n s)
  case (Cons line ls)
  from Cons.prems(2) obtain u where "step n line s = Ok u" "scan_lines step (Suc n) ls u = Ok t"
    by (auto simp: result_simps)
  with Cons.IH [of "Suc n" u] Cons.prems(1) step show ?case by simp
qed simp

lemma references_Some:
  "references t = Some rs \<Longrightarrow> list_all valid_id rs \<and> distinct rs"
  by (auto simp: references_def Let_def list_ex_iff list_all_iff split: if_splits)

definition plan_header :: "ustr list \<Rightarrow> bool" where
  "plan_header cells \<longleftrightarrow>
     lit ''ID'' \<in> set cells \<and> NACH \<in> set cells \<and> ABNAHME \<in> set cells \<and> list_ex is_paket cells"

definition package_ok :: "plan_source \<Rightarrow> plan_package \<Rightarrow> bool" where
  "package_ok src p \<longleftrightarrow>
     pp_project_id p = src_project_id src \<and> pp_plan_id p = src_plan_id src \<and>
     pp_source_path p = src_path src \<and> pp_source_revision p = src_revision src \<and>
     valid_id (package_id p) \<and> title p \<noteq> [] \<and> acceptance p \<noteq> [] \<and>
     list_all valid_id (dependency_ids p) \<and> distinct (dependency_ids p) \<and>
     (case parent_id p of None \<Rightarrow> True | Some i \<Rightarrow> valid_id i)"

definition plan_scan_ok :: "plan_source \<Rightarrow> nat \<Rightarrow> plan_scan \<Rightarrow> bool" where
  "plan_scan_ok src n s \<longleftrightarrow>
     (case columns s of None \<Rightarrow> True | Some header \<Rightarrow> plan_header header) \<and>
     distinct (map package_id (packages s)) \<and> dom (ids s) = set (map package_id (packages s)) \<and>
     list_all (package_ok src) (packages s) \<and>
     sorted_wrt (<) (map source_line (packages s)) \<and> list_all (\<lambda>p. source_line p < n) (packages s)"

text \<open>No access of the plan reader is out of bounds: a row has as many cells as its header, and a fence
  line has a first character.\<close>

lemma cell_at_total:
  assumes "length cells = length header"
  shows "\<exists>c. cell_at P header cells = Ok c"
  using assms position_Some [of P header]
  by (cases "position P header") (auto simp: cell_at_def index_at_def)

lemma cell_at_no_panic: "length cells = length header \<Longrightarrow> cell_at P header cells \<noteq> Err e"
  using cell_at_total [of cells header P] by auto

lemma toggle_fence_no_panic: "is_fence line \<Longrightarrow> toggle_fence open_fence line \<noteq> Err e"
  by (cases line) (auto simp: is_fence_def starts_with_def toggle_fence_def index_at_def result_simps Let_def)

lemma plan_entry_no_panic:
  assumes "length cells = length header"
  shows "plan_entry src n header cells seen \<noteq> Err Panic"
  using cell_at_no_panic [OF assms]
  by (auto simp: plan_entry_def Let_def field_def plan_failure_def result_simps split: option.splits)

lemma plan_line_no_panic: "plan_line src n raw s \<noteq> Err Panic"
  using toggle_fence_no_panic
  by (auto simp: plan_line_def plan_table_line_def plan_row_def plan_failure_def result_simps Let_def
      plan_entry_no_panic split: option.splits)

lemma scan_lines_no_panic:
  assumes "\<And>n line s t. P n s \<Longrightarrow> step n line s = Ok t \<Longrightarrow> P (Suc n) t"
    and "\<And>n line s. P n s \<Longrightarrow> step n line s \<noteq> Err Panic" and "P n s"
  shows "scan_lines step n ls s \<noteq> Err Panic"
  using assms(3)
proof (induction ls arbitrary: n s)
  case (Cons line ls)
  with assms(1,2) show ?case by (auto simp: and_then_Err)
qed simp

lemma plan_entry_Ok:
  assumes "plan_entry src n header cells seen = Ok p"
  shows "package_ok src p \<and> seen (package_id p) = None \<and> source_line p = n"
proof -
  from assms obtain tit i acc deps parent where
    p: "p = \<lparr> pp_project_id = src_project_id src, pp_plan_id = src_plan_id src, package_id = i,
       parent_id = list_next parent,
       pp_source_path = src_path src, pp_source_revision = src_revision src,
       source_line = n, title = tit, dependency_ids = deps, acceptance = acc \<rparr>"
    and ok: "valid_id i" "tit \<noteq> []" "acc \<noteq> []" "seen i = None" "list_all valid_id parent"
      "list_all valid_id deps" "distinct deps"
    by (auto simp: plan_entry_def Let_def result_simps dest!: references_Some split: option.splits)
  show ?thesis
    using ok unfolding p package_ok_def
    by (auto simp: list_all_iff dest!: list_next_Some split: option.split)
qed

lemma plan_scan_ok_same:
  assumes "plan_scan_ok src n s" "ids t = ids s" "packages t = packages s"
    and "case columns t of None \<Rightarrow> True | Some header \<Rightarrow> plan_header header"
  shows "plan_scan_ok src (Suc n) t"
  using assms unfolding plan_scan_ok_def by (simp add: list_all_iff less_Suc_eq)

lemma plan_scan_ok_columns:
  "plan_scan_ok src n s \<Longrightarrow> case columns s of None \<Rightarrow> True | Some header \<Rightarrow> plan_header header"
  by (simp add: plan_scan_ok_def)

lemma plan_row_ok:
  assumes ok: "plan_scan_ok src n s" and row: "plan_row src n header cells s = Ok t"
  shows "plan_scan_ok src (Suc n) t"
proof -
  from row obtain p where entry: "plan_entry src n header cells (ids s) = Ok p"
    and t: "t = s\<lparr>ids := (ids s)(package_id p \<mapsto> n), packages := packages s @ [p]\<rparr>"
    by (auto simp: plan_row_def result_simps)
  note p = plan_entry_Ok [OF entry]
  moreover have "package_id p \<notin> set (map package_id (packages s))"
    using p ok by (auto simp: plan_scan_ok_def domIff)
  ultimately show ?thesis
    using ok unfolding t plan_scan_ok_def
    by (simp add: sorted_wrt_append list_all_iff less_Suc_eq)
qed

lemma plan_table_line_ok:
  assumes ok: "plan_scan_ok src n s" and line: "plan_table_line src n line cells s = Ok t"
  shows "plan_scan_ok src (Suc n) t"
proof (cases "plan_candidate (columns s) cells")
  case True
  then have none: "columns s = None" by (simp add: plan_candidate_def)
  with True line have "NACH \<in> set cells" "ABNAHME \<in> set cells" "t = s\<lparr>columns := Some cells, delimiter := True\<rparr>"
    by (simp_all add: plan_table_line_def Let_def split: if_splits)
  then show ?thesis
    using True by (intro plan_scan_ok_same [OF ok]) (simp_all add: plan_header_def plan_candidate_def)
next
  case False
  note same = plan_scan_ok_same [OF ok] and cols = plan_scan_ok_columns [OF ok]
  show ?thesis
  proof (cases "columns s")
    case None
    with False line have "t = s" by (simp add: plan_table_line_def Let_def)
    with cols show ?thesis by (intro same) simp_all
  next
    case (Some header)
    with False line have "t = s\<lparr>delimiter := False\<rparr> \<or> plan_row src n header cells s = Ok t"
      by (simp add: plan_table_line_def Let_def split: if_splits)
    then show ?thesis
    proof
      assume "t = s\<lparr>delimiter := False\<rparr>"
      with cols show ?thesis by (intro same) simp_all
    qed (rule plan_row_ok [OF ok])
  qed
qed

lemma plan_line_ok:
  assumes ok: "plan_scan_ok src n s" and line: "plan_line src n raw s = Ok t"
  shows "plan_scan_ok src (Suc n) t"
proof -
  from line have "(\<exists>f. t = s\<lparr>fence := f, columns := None\<rparr>) \<or> t = s \<or>
      t = s\<lparr>columns := None\<rparr> \<or> plan_table_line src n (trim raw) (plan_cells (trim raw)) s = Ok t"
    by (auto simp: plan_line_def Let_def result_simps split: if_splits)
  then consider f where "t = s\<lparr>fence := f, columns := None\<rparr>" | "t = s"
    | "t = s\<lparr>columns := None\<rparr>" | "plan_table_line src n (trim raw) (plan_cells (trim raw)) s = Ok t"
    by blast
  then show ?thesis
  proof cases
    case 4
    then show ?thesis by (rule plan_table_line_ok [OF ok])
  qed (use plan_scan_ok_columns [OF ok] in \<open>auto intro: plan_scan_ok_same [OF ok]\<close>)
qed

lemma initial_plan_scan_ok: "plan_scan_ok src n initial_plan_scan"
  by (simp add: plan_scan_ok_def initial_plan_scan_def)

text \<open>What an accepted plan satisfies, for a source with the given number of lines.\<close>

definition sound_packages :: "plan_source \<Rightarrow> nat \<Rightarrow> plan_package list \<Rightarrow> bool" where
  "sound_packages src n ps \<longleftrightarrow>
     ps \<noteq> [] \<and> list_all (package_ok src) ps \<and> distinct (map package_id ps) \<and>
     sorted_wrt (<) (map source_line ps) \<and> list_all (\<lambda>p. source_line p \<le> n) ps \<and>
     list_all (\<lambda>p. set (edges False p) \<union> set (edges True p) \<subseteq> set (map package_id ps)) ps \<and>
     acyclic (needs_rel False ps) \<and> acyclic (needs_rel True ps)"

text \<open>C37: Reading a plan never panics, and a plan that is accepted can be worked off.  No index into the cells of a
  row or into a line is out of bounds, and the search for a package on a cycle always finds one.
  The packages of an accepted plan carry the identity of the source, distinct well-formed identifiers, a title and an
  acceptance, and ascending line numbers within the source; every dependency and every parent is a
  package of the plan, and neither relation has a cycle.\<close>

theorem accepted_plan_is_sound:
  "case parse_plan sha256 project plan path source of
     None \<Rightarrow> False
   | Some (Err e) \<Rightarrow> True
   | Some (Ok pj) \<Rightarrow>
       pj_project_id pj = project \<and> pj_plan_id pj = plan \<and> pj_source_path pj = path \<and>
       sound_packages
         \<lparr> src_project_id = project, src_plan_id = plan, src_path = path,
           src_revision = lit ''sha256:'' @ sha256 source \<rparr>
         (length (str_lines source)) (pj_packages pj)"
proof -
  let ?src = "\<lparr> src_project_id = project, src_plan_id = plan, src_path = path,
    src_revision = lit ''sha256:'' @ sha256 source \<rparr>"
  show ?thesis
  proof (cases "scan_lines (plan_line ?src) 1 (str_lines source) initial_plan_scan")
    case (Inl e)
    moreover have "e \<noteq> Panic"
      using scan_lines_no_panic [where P = "\<lambda>_ _. True" and step = "plan_line ?src" and n = 1
          and s = initial_plan_scan and ls = "str_lines source"] plan_line_no_panic Inl by auto
    ultimately show ?thesis by (cases e) (simp_all add: parse_plan_def Let_def)
  next
    case (Inr s)
    have ok: "plan_scan_ok ?src (Suc (length (str_lines source))) s"
      using scan_lines_inv [where P = "plan_scan_ok ?src", OF plan_line_ok initial_plan_scan_ok Inr] by simp
    then have graph: "check_graph path (ids s) b (packages s) \<noteq> None \<and>
        (check_graph path (ids s) b (packages s) = Some (Ok ()) \<longleftrightarrow>
          (\<forall>p \<in> set (packages s). set (edges b p) \<subseteq> set (map package_id (packages s))) \<and>
          acyclic (needs_rel b (packages s)))" for b
      by (intro check_graph_exact) (simp_all add: plan_scan_ok_def)
    obtain r1 r2 where r: "check_graph path (ids s) False (packages s) = Some r1"
      "check_graph path (ids s) True (packages s) = Some r2"
      using graph [of False] graph [of True] by blast
    from ok graph [of False] graph [of True] show ?thesis
      unfolding plan_scan_ok_def sound_packages_def
      by (cases r1; cases r2) (simp_all add: parse_plan_def Let_def Inr r list_all_iff less_Suc_eq_le del: One_nat_def)
  qed
qed

section \<open>Historical milestones\<close>

record milestone_package =
  mp_package_id :: ustr
  mp_title :: ustr
  mp_size :: ustr
  mp_lane :: ustr
  mp_raw_status :: ustr
  mp_source_line :: nat

record milestone =
  milestone_id :: ustr
  ms_title :: ustr
  ms_source_line :: nat
  ms_packages :: "milestone_package list"

record milestone_scan =
  milestones :: "milestone list"
  current :: "nat option"
  ms_columns :: "ustr list option"
  ms_delimiter :: bool
  ms_unrelated :: bool
  ms_fence :: "(uchar \<times> nat) option"

definition initial_milestone_scan :: milestone_scan where
  "initial_milestone_scan =
     \<lparr> milestones = [], current = None, ms_columns = None, ms_delimiter = False,
       ms_unrelated = False, ms_fence = None \<rparr>"

definition MILESTONE_COLUMNS :: "ustr list" where
  "MILESTONE_COLUMNS = [lit ''ID'', lit ''Paket'', lit ''Gr.'', lit ''Lane'', lit ''Stand'']"

text \<open>Splitting at the first white space, and stripping one of the three dashes.\<close>

fun split_whitespace_once :: "ustr \<Rightarrow> (ustr \<times> ustr) option" where
  "split_whitespace_once [] = None"
| "split_whitespace_once (c # s) =
     (if is_whitespace c then Some ([], s) else map_option (apfst (Cons c)) (split_whitespace_once s))"

definition starts_with_whitespace :: "ustr \<Rightarrow> bool" where
  "starts_with_whitespace s = (case s of [] \<Rightarrow> False | c # _ \<Rightarrow> is_whitespace c)"

definition strip_dash :: "ustr \<Rightarrow> ustr option" where
  "strip_dash s =
     (case s of [] \<Rightarrow> None | c # r \<Rightarrow> if c = 8212 \<or> c = 8211 \<or> c = 45 then Some r else None)"

definition milestone_heading :: "ustr \<Rightarrow> (ustr \<times> ustr) option" where
  "milestone_heading line =
     opt_then (strip_prefix (lit ''###'') line) (\<lambda>rest.
     if \<not> starts_with_whitespace rest then None
     else
       opt_then (split_whitespace_once (trim_start rest)) (\<lambda>(i, rest).
       opt_then (strip_prefix (lit ''M'') i) (\<lambda>digits.
       if digits = [] \<or> \<not> list_all is_ascii_digit digits then None
       else
         opt_then (strip_dash (trim_start rest)) (\<lambda>title.
         if \<not> starts_with_whitespace title \<or> trim title = [] then None
         else Some (i, trim title)))))"

definition is_heading :: "ustr \<Rightarrow> bool" where
  "is_heading line \<longleftrightarrow>
     (let hashes = length (takeWhile (\<lambda>b. b = 35) line) in
      1 \<le> hashes \<and> hashes \<le> 6 \<and> starts_with_whitespace (drop hashes line))"

text \<open>One boundary is stripped on each side, so that empty edge cells stay.\<close>

definition milestone_cells :: "ustr \<Rightarrow> ustr list" where
  "milestone_cells line =
     (let body = drop 1 line;
          inner = (case strip_suffix [pipe] body of None \<Rightarrow> body | Some b \<Rightarrow> b)
      in map trim (split_char pipe inner))"

definition milestone_header ::
  "ustr \<Rightarrow> nat \<Rightarrow> ustr \<Rightarrow> ustr list \<Rightarrow> milestone_scan \<Rightarrow> stop + milestone_scan" where
  "milestone_header path n line cells s =
     (if length (filter (\<lambda>name. name \<in> set cells) MILESTONE_COLUMNS) < 3
      then Ok (s\<lparr>ms_unrelated := True\<rparr>)
      else if length cells \<noteq> 5 \<or>
              list_ex (\<lambda>name. length (filter (\<lambda>c. c = name) cells) \<noteq> 1) MILESTONE_COLUMNS
      then Err (plan_failure path n (lit ''missing, duplicate or unsupported milestone columns''))
      else if \<not> ends_with line [pipe] \<or> str_contains line escaped_pipe
      then Err (plan_failure path n (lit ''malformed milestone header or unsupported escaped pipe''))
      else Ok (s\<lparr>ms_columns := Some cells, ms_delimiter := True\<rparr>))"

definition milestone_entry ::
  "ustr \<Rightarrow> nat \<Rightarrow> ustr list \<Rightarrow> ustr list \<Rightarrow> stop + milestone_package" where
  "milestone_entry path n header cells =
     (let get = (\<lambda>name. and_then (field header cells name) (\<lambda>c. ok_or c
                  (plan_failure path n (lit ''milestone table is missing required column '' @ name))))
      in
      and_then (get (lit ''ID'')) (\<lambda>i.
      and_then (get (lit ''Paket'')) (\<lambda>t.
      and_then (get (lit ''Gr.'')) (\<lambda>size.
      and_then (get (lit ''Lane'')) (\<lambda>lane.
      and_then (get (lit ''Stand'')) (\<lambda>status.
      Ok \<lparr> mp_package_id = i, mp_title = t, mp_size = size, mp_lane = lane,
           mp_raw_status = status, mp_source_line = n \<rparr>))))))"

text \<open>A table line under the milestone at the index.\<close>

definition milestone_row ::
  "ustr \<Rightarrow> nat \<Rightarrow> ustr \<Rightarrow> ustr list \<Rightarrow> nat \<Rightarrow> milestone_scan \<Rightarrow> stop + milestone_scan" where
  "milestone_row path n line cells index s =
     (case ms_columns s of
        None \<Rightarrow> milestone_header path n line cells s
      | Some header \<Rightarrow>
          if \<not> ends_with line [pipe] \<or> str_contains line escaped_pipe \<or> length cells \<noteq> length header
          then Err (plan_failure path n
                 (lit ''malformed row or delimiter, or unsupported escaped pipe''))
          else if ms_delimiter s
          then
            if list_ex (\<lambda>c. \<not> valid_delimiter_cell c) cells
            then Err (plan_failure path n (lit ''invalid table delimiter''))
            else Ok (s\<lparr>ms_delimiter := False\<rparr>)
          else
            and_then (index_at (milestones s) index) (\<lambda>m.
            and_then (milestone_entry path n header cells) (\<lambda>p.
            Ok (s\<lparr>milestones := (milestones s)[index := m\<lparr>ms_packages := ms_packages m @ [p]\<rparr>]\<rparr>))))"

definition milestone_line :: "ustr \<Rightarrow> nat \<Rightarrow> ustr \<Rightarrow> milestone_scan \<Rightarrow> stop + milestone_scan" where
  "milestone_line path n raw s =
     (let line = trim raw in
      if ms_delimiter s \<and> \<not> starts_with line [pipe]
      then Err (plan_failure path n (lit ''missing table delimiter''))
      else if is_fence line
      then and_then (toggle_fence (ms_fence s) line) (\<lambda>f.
           Ok (s\<lparr>ms_fence := f, ms_columns := None, ms_unrelated := False\<rparr>))
      else if ms_fence s \<noteq> None then Ok s
      else if is_heading line
      then
        let s = s\<lparr>ms_columns := None, ms_unrelated := False\<rparr> in
        (case milestone_heading line of
           None \<Rightarrow> Ok (s\<lparr>current := None\<rparr>)
         | Some (i, t) \<Rightarrow>
             Ok (s\<lparr>current := Some (length (milestones s)),
                   milestones := milestones s @
                     [\<lparr> milestone_id = i, ms_title = t, ms_source_line = n, ms_packages = [] \<rparr>]\<rparr>))
      else if \<not> starts_with line [pipe]
      then
        if ms_columns s \<noteq> None \<and> str_contains line [pipe]
        then Err (plan_failure path n
               (lit ''table rows require a leading pipe; separate pipe-containing prose with a blank line''))
        else Ok (s\<lparr>ms_columns := None, ms_unrelated := False\<rparr>)
      else
        case opt_filter (\<lambda>_. \<not> ms_unrelated s) (current s) of
          None \<Rightarrow> Ok s
        | Some index \<Rightarrow> milestone_row path n line (milestone_cells line) index s)"

definition parse_milestones :: "ustr \<Rightarrow> ustr \<Rightarrow> stop + milestone list" where
  "parse_milestones path source =
     and_then (scan_lines (milestone_line path) 1 (str_lines source) initial_milestone_scan) (\<lambda>s.
     if ms_delimiter s
     then Err (plan_failure path (length (str_lines source)) (lit ''missing table delimiter''))
     else Ok (milestones s))"

section \<open>Packages of the second plan\<close>

record v2_package =
  v2_package_id :: ustr
  v2_title :: ustr
  v2_lane :: ustr
  v2_seam :: ustr
  v2_tier :: ustr
  v2_size :: ustr
  raw_dependencies :: ustr
  v2_provider :: ustr
  raw_acceptance :: ustr
  v2_source_path :: ustr
  v2_source_line :: nat

record v2_scan =
  v2_packages :: "v2_package list"
  v2_ids :: "ustr \<Rightarrow> nat option"
  v2_columns :: "ustr list option"
  v2_delimiter :: bool
  v2_unrelated :: bool
  v2_fence :: "(uchar \<times> nat) option"

definition initial_v2_scan :: v2_scan where
  "initial_v2_scan =
     \<lparr> v2_packages = [], v2_ids = \<lambda>_. None, v2_columns = None, v2_delimiter = False,
       v2_unrelated = False, v2_fence = None \<rparr>"

definition GROESSE :: ustr where "GROESSE = lit ''Gr'' @ o_umlaut @ [223] @ lit ''e''"
definition HAENGT_AB :: ustr where "HAENGT_AB = lit ''H'' @ a_umlaut @ lit ''ngt ab von''"

definition V2_COLUMNS :: "ustr list" where
  "V2_COLUMNS =
     [lit ''ID'', lit ''Ziel'', lit ''Lane'', lit ''Naht'', lit ''Stufe'', GROESSE, HAENGT_AB,
      lit ''Anbieter'', lit ''Abnahme'']"

definition v2_column_name :: "ustr \<Rightarrow> ustr" where
  "v2_column_name c =
     (if c = lit ''Bildschirm (Boards)'' then lit ''Ziel''
      else if c = lit ''Abnahme (zus'' @ a_umlaut @ lit ''tzlich zu R)'' \<or>
              c = lit ''Daten und zus'' @ a_umlaut @ lit ''tzliche Abnahme''
      then lit ''Abnahme''
      else c)"

definition v2_cells :: "ustr \<Rightarrow> ustr list" where
  "v2_cells line = map trim (split_terminator pipe (drop 1 line))"

definition v2_header ::
  "ustr \<Rightarrow> nat \<Rightarrow> ustr \<Rightarrow> ustr list \<Rightarrow> v2_scan \<Rightarrow> stop + v2_scan" where
  "v2_header path n line cells s =
     (let header = map v2_column_name cells in
      if length (filter (\<lambda>name. name \<in> set header) V2_COLUMNS) < 5
      then Ok (s\<lparr>v2_unrelated := True\<rparr>)
      else if \<not> ends_with line [pipe] \<or> str_contains line escaped_pipe
      then Err (plan_failure path n (lit ''malformed header or unsupported escaped pipe''))
      else if length header \<noteq> 9 \<or> list_ex (\<lambda>name. name \<notin> set header) V2_COLUMNS
      then Err (plan_failure path n (lit ''missing, duplicate or unsupported v2 columns''))
      else Ok (s\<lparr>v2_columns := Some header, v2_delimiter := True\<rparr>))"

definition v2_field :: "ustr \<Rightarrow> nat \<Rightarrow> ustr list \<Rightarrow> ustr list \<Rightarrow> ustr \<Rightarrow> stop + ustr" where
  "v2_field path n header cells name =
     and_then (field header cells name) (\<lambda>c.
     ok_or c (plan_failure path n (lit ''v2 table is missing required column '' @ name)))"

definition v2_entry ::
  "ustr \<Rightarrow> nat \<Rightarrow> ustr list \<Rightarrow> ustr list \<Rightarrow> (ustr \<Rightarrow> nat option) \<Rightarrow> stop + v2_package" where
  "v2_entry path n header cells seen =
     (let get = v2_field path n header cells in
      and_then (get (lit ''ID'')) (\<lambda>i.
      and_then (ensure (valid_id i) (plan_failure path n (lit ''stable ID is required''))) (\<lambda>_.
      (case seen i of
         Some previous \<Rightarrow>
           Err (plan_failure path n (lit ''duplicate ID '' @ i @ lit ''; first line '' @ decimal previous))
       | None \<Rightarrow>
      and_then (get (lit ''Ziel'')) (\<lambda>t.
      and_then (get (lit ''Lane'')) (\<lambda>lane.
      and_then (get (lit ''Naht'')) (\<lambda>seam.
      and_then (get (lit ''Stufe'')) (\<lambda>tier.
      and_then (get GROESSE) (\<lambda>size.
      and_then (get HAENGT_AB) (\<lambda>deps.
      and_then (get (lit ''Anbieter'')) (\<lambda>provider.
      and_then (get (lit ''Abnahme'')) (\<lambda>accept.
      Ok \<lparr> v2_package_id = i, v2_title = t, v2_lane = lane, v2_seam = seam, v2_tier = tier,
           v2_size = size, raw_dependencies = deps, v2_provider = provider,
           raw_acceptance = accept, v2_source_path = path, v2_source_line = n \<rparr>))))))))))))"

definition v2_row ::
  "ustr \<Rightarrow> nat \<Rightarrow> ustr \<Rightarrow> ustr list \<Rightarrow> v2_scan \<Rightarrow> stop + v2_scan" where
  "v2_row path n line cells s =
     (case v2_columns s of
        None \<Rightarrow> v2_header path n line cells s
      | Some header \<Rightarrow>
          if \<not> ends_with line [pipe] \<or> str_contains line escaped_pipe \<or> length cells \<noteq> length header
          then Err (plan_failure path n (lit ''malformed row or unsupported escaped pipe''))
          else if v2_delimiter s
          then
            if list_ex (\<lambda>c. \<not> valid_delimiter_cell c) cells
            then Err (plan_failure path n (lit ''invalid table delimiter''))
            else Ok (s\<lparr>v2_delimiter := False\<rparr>)
          else
            and_then (v2_entry path n header cells (v2_ids s)) (\<lambda>p.
            Ok (s\<lparr>v2_ids := (v2_ids s)(v2_package_id p \<mapsto> n), v2_packages := v2_packages s @ [p]\<rparr>)))"

definition v2_line :: "ustr \<Rightarrow> nat \<Rightarrow> ustr \<Rightarrow> v2_scan \<Rightarrow> stop + v2_scan" where
  "v2_line path n raw s =
     (let line = trim raw in
      if v2_delimiter s \<and> \<not> starts_with line [pipe]
      then Err (plan_failure path n (lit ''missing table delimiter''))
      else if is_fence line
      then and_then (toggle_fence (v2_fence s) line) (\<lambda>f.
           Ok (s\<lparr>v2_fence := f, v2_columns := None, v2_unrelated := False\<rparr>))
      else if v2_fence s \<noteq> None then Ok s
      else if \<not> starts_with line [pipe]
      then
        if v2_columns s \<noteq> None \<and> str_contains line [pipe]
        then Err (plan_failure path n (lit ''table rows require a leading pipe''))
        else Ok (s\<lparr>v2_columns := None, v2_unrelated := False\<rparr>)
      else if v2_unrelated s then Ok s
      else v2_row path n line (v2_cells line) s)"

definition parse_v2_packages :: "ustr \<Rightarrow> ustr \<Rightarrow> stop + v2_package list" where
  "parse_v2_packages path source =
     and_then (scan_lines (v2_line path) 1 (str_lines source) initial_v2_scan) (\<lambda>s.
     if v2_delimiter s
     then Err (plan_failure path (length (str_lines source)) (lit ''missing table delimiter''))
     else Ok (v2_packages s))"

section \<open>Dependencies of the second plan\<close>

text \<open>Cutting at the commas outside parentheses; unbalanced text stays whole.  The piece under
  way is the text since the last cut.\<close>

fun cut_fragments :: "ustr \<Rightarrow> nat \<Rightarrow> ustr \<Rightarrow> ustr list \<Rightarrow> ustr list option" where
  "cut_fragments [] depth piece done' = (if depth \<noteq> 0 then None else Some (done' @ [piece]))"
| "cut_fragments (c # s) depth piece done' =
     (if c = 40 then cut_fragments s (depth + 1) (piece @ [c]) done'
      else if c = 41
      then (case depth of 0 \<Rightarrow> None | Suc d \<Rightarrow> cut_fragments s d (piece @ [c]) done')
      else if c = 44 \<and> depth = 0 then cut_fragments s depth [] (done' @ [piece])
      else cut_fragments s depth (piece @ [c]) done')"

definition v2_dependency_fragments :: "ustr \<Rightarrow> ustr list" where
  "v2_dependency_fragments raw =
     (case cut_fragments raw 0 [] [] of None \<Rightarrow> [raw] | Some fs \<Rightarrow> fs)"

record v2_dependencies =
  vd_package_id :: ustr
  vd_source_path :: ustr
  vd_source_line :: nat
  vd_raw_dependencies :: ustr
  vd_dependency_ids :: "ustr list"
  unresolved_fragments :: "ustr list"

definition resolve_token :: "ustr set \<Rightarrow> ustr \<Rightarrow> ustr \<Rightarrow> ustr option" where
  "resolve_token known own token =
     (let gate = (case strip_prefix (lit ''G'') token of
                    None \<Rightarrow> False | Some n \<Rightarrow> n \<noteq> [] \<and> list_all is_ascii_digit n);
          get = (\<lambda>i. if i \<in> known then Some i else None);
          alias = (if \<not> starts_with token (lit ''V2-'') then get (lit ''V2-'' @ token) else None);
          usable = (\<lambda>i. if valid_id token \<and> \<not> gate \<and> i \<noteq> own then Some i else None)
      in
      case (get token, alias) of
        (Some i, None) \<Rightarrow> usable i
      | (None, Some i) \<Rightarrow> usable i
      | _ \<Rightarrow> None)"

definition add_fragment :: "ustr set \<Rightarrow> v2_dependencies \<Rightarrow> ustr \<Rightarrow> v2_dependencies" where
  "add_fragment known row fragment =
     (case resolve_token known (vd_package_id row) (trim fragment) of
        Some i \<Rightarrow>
          if i \<notin> set (vd_dependency_ids row)
          then row\<lparr>vd_dependency_ids := vd_dependency_ids row @ [i]\<rparr> else row
      | None \<Rightarrow>
          if fragment \<notin> set (unresolved_fragments row)
          then row\<lparr>unresolved_fragments := unresolved_fragments row @ [fragment]\<rparr> else row)"

definition resolve_v2_dependencies :: "v2_package list \<Rightarrow> ustr set \<Rightarrow> v2_dependencies list" where
  "resolve_v2_dependencies ps known =
     map (\<lambda>p.
       let row = \<lparr> vd_package_id = v2_package_id p, vd_source_path = v2_source_path p,
                   vd_source_line = v2_source_line p, vd_raw_dependencies = raw_dependencies p,
                   vd_dependency_ids = [], unresolved_fragments = [] \<rparr>
       in
       if trim (raw_dependencies p) \<in> {[], [8211], [8212]} then row
       else foldl (add_fragment known) row (v2_dependency_fragments (raw_dependencies p))) ps"

section \<open>No fragment is lost\<close>

lemma join_merge: "join sep (ws @ [a, b]) = join sep (ws @ [a @ sep @ b])"
  by (induction ws) (simp_all add: join_Cons)

lemma cut_fragments_join:
  "cut_fragments s depth piece done' = Some fs \<Longrightarrow> join [44] fs = join [44] (done' @ [piece @ s])"
proof (induction s depth piece done' rule: cut_fragments.induct)
  case (2 c s depth piece done')
  then show ?case
    by (auto simp: join_merge [where sep = "[44]", simplified] split: if_splits nat.splits)
qed (auto split: if_splits)

lemma join_fragments: "join [44] (v2_dependency_fragments raw) = raw"
  by (auto simp: v2_dependency_fragments_def dest: cut_fragments_join split: option.split)

lemma resolve_token_Some:
  "resolve_token known own token = Some i \<longleftrightarrow>
     valid_id token \<and> strip_prefix (lit ''G'') token \<notin> {Some n |n. n \<noteq> [] \<and> list_all is_ascii_digit n} \<and>
     i \<in> known \<and> i \<noteq> own \<and>
     (i = token \<and> (starts_with token (lit ''V2-'') \<or> lit ''V2-'' @ token \<notin> known) \<or>
      i = lit ''V2-'' @ token \<and> \<not> starts_with token (lit ''V2-'') \<and> token \<notin> known)"
  unfolding resolve_token_def Let_def
  by (auto split: option.splits if_splits)

text \<open>How a row relates to the fragments read so far.\<close>

definition row_explains :: "ustr set \<Rightarrow> ustr list \<Rightarrow> v2_dependencies \<Rightarrow> bool" where
  "row_explains known fs row \<longleftrightarrow>
     distinct (vd_dependency_ids row) \<and> distinct (unresolved_fragments row) \<and>
     set (vd_dependency_ids row) =
       {i. list_ex (\<lambda>f. resolve_token known (vd_package_id row) (trim f) = Some i) fs} \<and>
     set (unresolved_fragments row) =
       set (filter (\<lambda>f. resolve_token known (vd_package_id row) (trim f) = None) fs)"

lemma add_fragment_explains:
  "row_explains known fs row \<Longrightarrow> row_explains known (fs @ [f]) (add_fragment known row f)"
  by (cases "resolve_token known (vd_package_id row) (trim f)")
    (auto simp: row_explains_def add_fragment_def)

lemma add_fragment_keeps [simp]:
  "vd_package_id (add_fragment known row f) = vd_package_id row"
  "vd_source_path (add_fragment known row f) = vd_source_path row"
  "vd_source_line (add_fragment known row f) = vd_source_line row"
  "vd_raw_dependencies (add_fragment known row f) = vd_raw_dependencies row"
  by (simp_all add: add_fragment_def split: option.split)

lemma fold_fragments_explain:
  assumes "row_explains known fs row"
  shows "row_explains known (fs @ gs) (foldl (add_fragment known) row gs) \<and>
    vd_package_id (foldl (add_fragment known) row gs) = vd_package_id row \<and>
    vd_source_path (foldl (add_fragment known) row gs) = vd_source_path row \<and>
    vd_source_line (foldl (add_fragment known) row gs) = vd_source_line row \<and>
    vd_raw_dependencies (foldl (add_fragment known) row gs) = vd_raw_dependencies row"
  using assms
proof (induction gs arbitrary: fs row)
  case (Cons g gs)
  from Cons.IH [OF add_fragment_explains [OF Cons.prems]] show ?case by simp
qed simp

text \<open>Resolving the dependency cells of the second plan loses nothing.  Every package gets one
  row with its provenance; a blank cell or a dash gives no entries; of any other cell
  the fragments are cut so that joining them at commas gives the cell back, and each fragment
  is accounted for: its identifier is among the dependencies exactly when it names one known
  package other than this one without ambiguity, and otherwise the fragment itself stays
  among the unresolved ones, once.\<close>

theorem v2_dependencies_are_lossless:
  "list_all2
     (\<lambda>p row. vd_package_id row = v2_package_id p \<and> vd_source_path row = v2_source_path p \<and>
        vd_source_line row = v2_source_line p \<and> vd_raw_dependencies row = raw_dependencies p \<and>
        set (vd_dependency_ids row) \<subseteq> known - {v2_package_id p} \<and>
        join [44] (v2_dependency_fragments (raw_dependencies p)) = raw_dependencies p \<and>
        (if trim (raw_dependencies p) \<in> {[], [8211], [8212]}
         then vd_dependency_ids row = [] \<and> unresolved_fragments row = []
         else row_explains known (v2_dependency_fragments (raw_dependencies p)) row))
     ps (resolve_v2_dependencies ps known)"
proof -
  have "row_explains known [] row"
    if "vd_dependency_ids row = []" "unresolved_fragments row = []" for row
    using that by (simp add: row_explains_def)
  note start = fold_fragments_explain [OF this, simplified]
  have known: "set (vd_dependency_ids row) \<subseteq> known - {vd_package_id row}"
    if "row_explains known fs row" for fs row
    using that unfolding row_explains_def by (auto simp: list_ex_iff resolve_token_Some)
  have sub: "set (vd_dependency_ids (foldl (add_fragment known) row gs)) \<subseteq> known - {own}"
    if "vd_dependency_ids row = []" "unresolved_fragments row = []" "vd_package_id row = own" for row gs own
    using known [of gs "foldl (add_fragment known) row gs"] start [OF that(1,2), of gs] that(3) by simp
  show ?thesis
    unfolding resolve_v2_dependencies_def Let_def list.rel_map
    by (rule list_all2_refl)
      (use start sub in \<open>simp add: join_fragments\<close>)
qed

section \<open>Packages are lines of the source\<close>

lemma scan_lines_prefix:
  assumes step: "\<And>pre line s t. P pre s \<Longrightarrow> step (Suc (length pre)) line s = Ok t \<Longrightarrow> P (pre @ [line]) t"
    and "P pre s" "scan_lines step (Suc (length pre)) ls s = Ok t"
  shows "P (pre @ ls) t"
  using assms(2,3)
proof (induction ls arbitrary: pre s)
  case (Cons line ls)
  from Cons.prems(2) obtain u where "step (Suc (length pre)) line s = Ok u"
    "scan_lines step (Suc (length (pre @ [line]))) ls u = Ok t"
    by (auto simp: result_simps)
  with Cons.IH [of "pre @ [line]" u] Cons.prems(1) step show ?case by simp
qed simp

text \<open>The package is what the cells of its line say under a header with the nine columns.\<close>

definition v2_says :: "ustr list \<Rightarrow> ustr list \<Rightarrow> v2_package \<Rightarrow> bool" where
  "v2_says header cells p \<longleftrightarrow>
     map (field header cells) V2_COLUMNS =
     map (\<lambda>c. Ok (Some c)) [v2_package_id p, v2_title p, v2_lane p, v2_seam p, v2_tier p, v2_size p,
       raw_dependencies p, v2_provider p, raw_acceptance p]"

definition v2_from_line :: "ustr \<Rightarrow> ustr list \<Rightarrow> v2_package \<Rightarrow> bool" where
  "v2_from_line path lines p \<longleftrightarrow>
     v2_source_path p = path \<and> valid_id (v2_package_id p) \<and>
     0 < v2_source_line p \<and> v2_source_line p \<le> length lines \<and>
     (\<exists>header. mset header = mset V2_COLUMNS \<and>
        v2_says header (v2_cells (trim (lines ! (v2_source_line p - 1)))) p)"

definition v2_scan_ok :: "ustr \<Rightarrow> ustr list \<Rightarrow> v2_scan \<Rightarrow> bool" where
  "v2_scan_ok path pre s \<longleftrightarrow>
     (case v2_columns s of None \<Rightarrow> True | Some header \<Rightarrow> mset header = mset V2_COLUMNS) \<and>
     list_all (v2_from_line path pre) (v2_packages s) \<and>
     distinct (map v2_package_id (v2_packages s)) \<and>
     dom (v2_ids s) = set (map v2_package_id (v2_packages s)) \<and>
     sorted_wrt (<) (map v2_source_line (v2_packages s))"

lemma v2_columns_distinct: "distinct V2_COLUMNS \<and> length V2_COLUMNS = 9"
  by code_simp

lemma v2_header_columns:
  assumes "length header = 9" "\<not> list_ex (\<lambda>name. name \<notin> set header) V2_COLUMNS"
  shows "mset header = mset V2_COLUMNS"
proof -
  have sub: "set V2_COLUMNS \<subseteq> set header"
    using assms(2) by (auto simp: list_ex_iff)
  have nine: "card (set V2_COLUMNS) = 9"
    using v2_columns_distinct distinct_card by metis
  have eq: "set V2_COLUMNS = set header"
    using sub nine assms(1) card_length [of header] by (intro card_seteq) auto
  then have "distinct header"
    using nine assms(1) by (intro card_distinct) simp
  with eq v2_columns_distinct show ?thesis
    using set_eq_iff_mset_eq_distinct by metis
qed

lemma v2_from_line_snoc: "v2_from_line path pre p \<Longrightarrow> v2_from_line path (pre @ [line]) p"
  unfolding v2_from_line_def by (auto simp: nth_append)

lemma v2_scan_ok_same:
  assumes "v2_scan_ok path pre s" "v2_packages t = v2_packages s" "v2_ids t = v2_ids s"
    and "case v2_columns t of None \<Rightarrow> True | Some header \<Rightarrow> mset header = mset V2_COLUMNS"
  shows "v2_scan_ok path (pre @ [line]) t"
  using assms v2_from_line_snoc unfolding v2_scan_ok_def list_all_iff by auto

lemma v2_scan_ok_columns:
  "v2_scan_ok path pre s \<Longrightarrow> case v2_columns s of None \<Rightarrow> True | Some header \<Rightarrow> mset header = mset V2_COLUMNS"
  by (simp add: v2_scan_ok_def)

lemma v2_entry_Ok:
  assumes "v2_entry path n header cells seen = Ok p"
  shows "v2_source_path p = path \<and> v2_source_line p = n \<and> valid_id (v2_package_id p) \<and>
    seen (v2_package_id p) = None \<and> v2_says header cells p"
  using assms unfolding v2_says_def v2_entry_def Let_def v2_field_def V2_COLUMNS_def
  by (auto simp: result_simps split: option.splits)

lemma v2_push_ok:
  assumes ok: "v2_scan_ok path pre s" and header: "mset header = mset V2_COLUMNS"
    and entry: "v2_entry path (Suc (length pre)) header (v2_cells (trim raw)) (v2_ids s) = Ok p"
    and t: "t = s\<lparr>v2_ids := (v2_ids s)(v2_package_id p \<mapsto> n), v2_packages := v2_packages s @ [p]\<rparr>"
  shows "v2_scan_ok path (pre @ [raw]) t"
proof -
  note p = v2_entry_Ok [OF entry]
  have "v2_from_line path (pre @ [raw]) p"
    using p header unfolding v2_from_line_def by auto
  moreover have "v2_package_id p \<notin> set (map v2_package_id (v2_packages s))"
    using p ok by (auto simp: v2_scan_ok_def domIff)
  moreover have "list_all (\<lambda>q. v2_source_line q < v2_source_line p) (v2_packages s)"
    using ok p unfolding v2_scan_ok_def list_all_iff v2_from_line_def by fastforce
  ultimately show ?thesis
    using ok v2_scan_ok_columns [OF ok] v2_from_line_snoc unfolding t v2_scan_ok_def list_all_iff
    by (simp add: sorted_wrt_append)
qed

lemma v2_line_ok:
  assumes ok: "v2_scan_ok path pre s" and line: "v2_line path (Suc (length pre)) raw s = Ok t"
  shows "v2_scan_ok path (pre @ [raw]) t"
proof -
  note same = v2_scan_ok_same [OF ok] and cols = v2_scan_ok_columns [OF ok]
  let ?n = "Suc (length pre)" and ?cells = "v2_cells (trim raw)"
  from line have "v2_packages t = v2_packages s \<and> v2_ids t = v2_ids s \<and> v2_columns t = None \<or> t = s \<or>
      v2_row path ?n (trim raw) ?cells s = Ok t"
    by (auto simp: v2_line_def Let_def result_simps split: if_splits)
  then consider "v2_packages t = v2_packages s \<and> v2_ids t = v2_ids s \<and> v2_columns t = None" | "t = s"
    | "v2_row path ?n (trim raw) ?cells s = Ok t"
    by blast
  then show ?thesis
  proof cases
    case 3
    show ?thesis
    proof (cases "v2_columns s")
      case None
      with 3 have "v2_header path ?n (trim raw) ?cells s = Ok t" by (simp add: v2_row_def)
      then have "t = s\<lparr>v2_unrelated := True\<rparr> \<or>
          mset (map v2_column_name ?cells) = mset V2_COLUMNS \<and>
          t = s\<lparr>v2_columns := Some (map v2_column_name ?cells), v2_delimiter := True\<rparr>"
        using v2_header_columns [of "map v2_column_name ?cells"]
        by (auto simp: v2_header_def Let_def split: if_splits)
      then show ?thesis
        using cols by (auto intro: same)
    next
      case (Some header)
      with cols have header: "mset header = mset V2_COLUMNS" by simp
      from Some 3 have "t = s\<lparr>v2_delimiter := False\<rparr> \<or>
          (\<exists>p. v2_entry path ?n header ?cells (v2_ids s) = Ok p \<and>
             t = s\<lparr>v2_ids := (v2_ids s)(v2_package_id p \<mapsto> ?n), v2_packages := v2_packages s @ [p]\<rparr>)"
        by (auto simp: v2_row_def result_simps split: if_splits)
      then show ?thesis
        using cols by (auto intro: same v2_push_ok [OF ok header])
    qed
  qed (use cols in \<open>auto intro: same\<close>)
qed

text \<open>The packages of the second plan are exactly what its lines say.  Each package that is
  read stands on one line of the source: under a header that has the nine columns in some
  order, every field is the trimmed cell of its column, unchanged.  Identifiers are well
  formed and unique, and the packages come in the order of their lines.\<close>

theorem v2_packages_are_lines:
  "case parse_v2_packages path source of
     Err e \<Rightarrow> True
   | Ok ps \<Rightarrow>
       list_all (v2_from_line path (str_lines source)) ps \<and> distinct (map v2_package_id ps) \<and>
       sorted_wrt (<) (map v2_source_line ps)"
proof (cases "scan_lines (v2_line path) (Suc 0) (str_lines source) initial_v2_scan")
  case (Inr s)
  have "v2_scan_ok path [] initial_v2_scan"
    by (simp add: v2_scan_ok_def initial_v2_scan_def)
  from scan_lines_prefix [where P = "v2_scan_ok path" and pre = "[]", OF v2_line_ok this] Inr
  have "v2_scan_ok path (str_lines source) s" by simp
  with Inr show ?thesis by (simp add: parse_v2_packages_def v2_scan_ok_def)
qed (simp add: parse_v2_packages_def)

section \<open>Milestones own the rows below them\<close>

definition milestone_lines :: "milestone list \<Rightarrow> nat list" where
  "milestone_lines ms = concat (map (\<lambda>m. ms_source_line m # map mp_source_line (ms_packages m)) ms)"

definition milestone_scan_ok :: "nat \<Rightarrow> milestone_scan \<Rightarrow> bool" where
  "milestone_scan_ok n s \<longleftrightarrow>
     (case current s of None \<Rightarrow> True | Some i \<Rightarrow> Suc i = length (milestones s)) \<and>
     sorted_wrt (<) (milestone_lines (milestones s)) \<and> list_all (\<lambda>l. l < n) (milestone_lines (milestones s))"

lemma milestone_scan_ok_same:
  assumes "milestone_scan_ok n s" "milestones t = milestones s" "current t \<in> {None, current s}"
  shows "milestone_scan_ok (Suc n) t"
  using assms unfolding milestone_scan_ok_def
  by (auto simp: list_all_iff less_Suc_eq split: option.splits)

lemma milestone_line_ok:
  assumes ok: "milestone_scan_ok n s" and line: "milestone_line path n raw s = Ok t"
  shows "milestone_scan_ok (Suc n) t"
proof -
  let ?line = "trim raw" and ?cells = "milestone_cells (trim raw)"
  note same = milestone_scan_ok_same [OF ok]
  from line have "milestones t = milestones s \<and> current t \<in> {None, current s} \<or>
      (\<exists>i m. t = s\<lparr>ms_columns := None, ms_unrelated := False, current := Some (length (milestones s)),
        milestones := milestones s @ [\<lparr> milestone_id = i, ms_title = m, ms_source_line = n, ms_packages = [] \<rparr>]\<rparr>) \<or>
      (\<exists>index. current s = Some index \<and> milestone_row path n ?line ?cells index s = Ok t)"
    by (auto simp: milestone_line_def Let_def opt_filter_def result_simps split: if_splits option.splits)
  then show ?thesis
  proof (elim disjE exE conjE)
    fix i m
    assume "t = s\<lparr>ms_columns := None, ms_unrelated := False, current := Some (length (milestones s)),
        milestones := milestones s @ [\<lparr> milestone_id = i, ms_title = m, ms_source_line = n, ms_packages = [] \<rparr>]\<rparr>"
    then show ?thesis
      using ok by (auto simp: milestone_scan_ok_def milestone_lines_def sorted_wrt_append list_all_iff less_Suc_eq)
  next
    fix index
    assume index: "current s = Some index" and row: "milestone_row path n ?line ?cells index s = Ok t"
    with ok have len: "Suc index = length (milestones s)" by (simp add: milestone_scan_ok_def)
    then obtain ms m where ms: "milestones s = ms @ [m]" "length ms = index"
      by (cases "milestones s" rule: rev_cases) auto
    have "milestones t = milestones s \<and> current t = current s \<or>
        (\<exists>p. mp_source_line p = n \<and>
           t = s\<lparr>milestones := ms @ [m\<lparr>ms_packages := ms_packages m @ [p]\<rparr>]\<rparr>)"
    proof (cases "ms_columns s")
      case None
      with row show ?thesis
        by (auto simp: milestone_row_def milestone_header_def split: if_splits)
    next
      case (Some header)
      with row have "t = s\<lparr>ms_delimiter := False\<rparr> \<or>
          (\<exists>p. milestone_entry path n header ?cells = Ok p \<and>
             t = s\<lparr>milestones := ms @ [m\<lparr>ms_packages := ms_packages m @ [p]\<rparr>]\<rparr>)"
        using ms by (auto simp: milestone_row_def index_at_def result_simps split: if_splits)
      moreover have "mp_source_line p = n" if "milestone_entry path n header ?cells = Ok p" for p
        using that by (auto simp: milestone_entry_def Let_def result_simps)
      ultimately show ?thesis by auto
    qed
    then show ?thesis
    proof (elim disjE exE conjE)
      fix p
      assume p: "mp_source_line p = n" and t: "t = s\<lparr>milestones := ms @ [m\<lparr>ms_packages := ms_packages m @ [p]\<rparr>]\<rparr>"
      have "milestone_lines (milestones t) = milestone_lines (milestones s) @ [n]"
        using p by (simp add: t ms(1) milestone_lines_def)
      moreover have "current t = Some index" "Suc index = length (milestones t)"
        using index ms(2) by (simp_all add: t)
      ultimately show ?thesis
        using ok unfolding milestone_scan_ok_def
        by (simp add: sorted_wrt_append list_all_iff less_Suc_eq)
    qed (auto intro: same)
  qed (auto intro: same)
qed

text \<open>The rows of a milestone stand below its heading and above the next one.\<close>

lemma milestones_own_their_rows:
  "parse_milestones path source = Ok ms \<Longrightarrow> sorted_wrt (<) (milestone_lines ms)"
proof -
  assume "parse_milestones path source = Ok ms"
  then obtain s where s: "scan_lines (milestone_line path) 1 (str_lines source) initial_milestone_scan = Ok s"
    and ms: "ms = milestones s"
    by (auto simp: parse_milestones_def result_simps split: if_splits)
  have "milestone_scan_ok 1 initial_milestone_scan"
    by (simp add: milestone_scan_ok_def initial_milestone_scan_def milestone_lines_def)
  from scan_lines_inv [where P = milestone_scan_ok, OF milestone_line_ok this s] ms
  show ?thesis by (simp add: milestone_scan_ok_def)
qed

text \<open>Neither of these readers accesses anything out of bounds.\<close>

lemma v2_line_no_panic: "v2_line path n raw s \<noteq> Err Panic"
  using toggle_fence_no_panic cell_at_no_panic
  by (auto simp: v2_line_def v2_row_def v2_header_def v2_entry_def v2_field_def field_def plan_failure_def
      result_simps Let_def split: option.splits if_splits)

lemma milestone_line_no_panic:
  assumes "milestone_scan_ok n s"
  shows "milestone_line path n raw s \<noteq> Err Panic"
proof -
  have "milestone_entry path n header cells \<noteq> Err Panic" if "length cells = length header" for header cells
    using cell_at_no_panic [OF that]
    by (auto simp: milestone_entry_def field_def plan_failure_def result_simps Let_def)
  with assms toggle_fence_no_panic show ?thesis
    by (auto simp: milestone_line_def milestone_row_def milestone_header_def milestone_scan_ok_def
        index_at_def opt_filter_def plan_failure_def result_simps Let_def split: option.splits if_splits)
qed

lemma readers_never_panic:
  "parse_v2_packages path source \<noteq> Err Panic" "parse_milestones path source \<noteq> Err Panic"
proof -
  have "scan_lines (v2_line path) 1 (str_lines source) initial_v2_scan \<noteq> Err Panic"
    by (rule scan_lines_no_panic [where P = "\<lambda>_ _. True"]) (auto simp: v2_line_no_panic)
  then show "parse_v2_packages path source \<noteq> Err Panic"
    by (auto simp: parse_v2_packages_def plan_failure_def and_then_Err)
  have "milestone_scan_ok 1 initial_milestone_scan"
    by (simp add: milestone_scan_ok_def initial_milestone_scan_def milestone_lines_def)
  with milestone_line_ok milestone_line_no_panic
  have "scan_lines (milestone_line path) 1 (str_lines source) initial_milestone_scan \<noteq> Err Panic"
    by (rule scan_lines_no_panic)
  then show "parse_milestones path source \<noteq> Err Panic"
    by (auto simp: parse_milestones_def plan_failure_def and_then_Err)
qed

section \<open>Examples\<close>

definition document :: "string list \<Rightarrow> ustr" where
  "document ls = concat (map (\<lambda>l. lit l @ [10]) ls)"

definition sample_plan :: "string \<Rightarrow> ustr" where
  "sample_plan dep =
     document [''# Plan'',
       ''| ID | Paket | Nach | Konkretes Ergebnis und Abnahme |'',
       ''|:---|---|---|---|'',
       ''| A-1 | Start | '' @ dep @ '' | done |'',
       ''| B-2 | End | A-1 | tested |'']"

lemma sample_plans:
  "case parse_plan (\<lambda>_. lit ''0'') (lit ''p'') (lit ''q'') (lit ''f'') (sample_plan ''-'') of
     Some (Ok pj) \<Rightarrow> map dependency_ids (pj_packages pj) = [[], [lit ''A-1'']] \<and>
       map source_line (pj_packages pj) = [4, 5]
   | _ \<Rightarrow> False"
  "parse_plan (\<lambda>_. lit ''0'') (lit ''p'') (lit ''q'') (lit ''f'') (sample_plan ''B-2'') =
     Some (Err (plan_error_at (lit ''f'') 4 (lit ''dependency cycle or dependency on a cycle'')))"
  "parse_plan (\<lambda>_. lit ''0'') (lit ''p'') (lit ''q'') (lit ''f'') (sample_plan ''C'') =
     Some (Err (plan_error_at (lit ''f'') 4 (lit ''unknown reference C'')))"
  by code_simp+

definition sample_package :: "string \<Rightarrow> string list \<Rightarrow> plan_package" where
  "sample_package i deps =
     \<lparr> pp_project_id = lit ''p'', pp_plan_id = lit ''q'', package_id = lit i, parent_id = None,
       pp_source_path = lit ''f'', pp_source_revision = lit ''r'', source_line = 1, title = lit ''t'',
       dependency_ids = map lit deps, acceptance = lit ''a'' \<rparr>"

definition sample_packages :: "plan_package list" where
  "sample_packages = [sample_package ''B'' [''A''], sample_package ''A'' []]"

lemma sample_graph:
  "check_graph (lit ''f'') (\<lambda>i. if i \<in> {lit ''A'', lit ''B''} then Some 1 else None) False sample_packages =
     Some (Ok ())"
  "distinct (map package_id sample_packages)"
  by code_simp+

theorem graph_check_is_exact_witness:
  "acyclic (needs_rel False sample_packages) \<and>
   check_graph (lit ''f'') (\<lambda>i. if i \<in> {lit ''A'', lit ''B''} then Some 1 else None) False sample_packages \<noteq> None"
proof -
  have "dom (\<lambda>i. if i \<in> {lit ''A'', lit ''B''} then Some (1 :: nat) else None) =
      set (map package_id sample_packages)"
    by (auto simp: sample_packages_def sample_package_def dom_def)
  from graph_check_is_exact [OF sample_graph(2) this, of "lit ''f''" False] sample_graph(1)
  show ?thesis by blast
qed

end
