(* ===== verification/Review_Gates.thy ===== *)
theory Review_Gates
  imports Prelude Rust_Text
begin

text \<open>
  Two gates before work takes effect.  \<open>development_policy/review_rule.rs\<close> derives the
  vendor family of a model from its name and demands reviewers of other families than the
  author's; \<open>development_policy/approval_gate.rs\<close> matches an approval with the execution it is
  meant for and consumes its nonce.
\<close>

section \<open>Families of models\<close>

datatype tier = A | B | C

datatype family = Anthropic | OpenAi | Moonshot | Zhipu | Google | Xai | Meta

datatype rule_error = UnknownAuthor | TooFewForeign (needed: nat) (found: nat)

definition TOO_FEW_TEMPLATE :: ustr where
  "TOO_FEW_TEMPLATE =
     lit ''Es fehlen Pr'' @ u_umlaut @ lit ''fer aus anderen Modellfamilien: ben'' @ o_umlaut @
     lit ''tigt {needed}, nachgewiesen {found}.''"

definition UNKNOWN_AUTHOR :: ustr where
  "UNKNOWN_AUTHOR =
     lit ''Die Modellfamilie des Autors ist unbekannt. Ohne sie kann keine unabh'' @ a_umlaut @
     lit ''ngige Pr'' @ u_umlaut @ lit ''fung nachgewiesen werden.''"

definition NEED_ONE :: ustr where
  "NEED_ONE =
     lit ''Es fehlt ein Pr'' @ u_umlaut @
     lit ''fer aus einer anderen Modellfamilie als der des Autors. Unbekannte Modelle und gleiche Familien z'' @
     a_umlaut @ lit ''hlen nicht.''"

definition NEED_TWO :: ustr where
  "NEED_TWO =
     lit ''Stufe A braucht zwei Pr'' @ u_umlaut @
     lit ''fer aus zwei verschiedenen Modellfamilien, die beide nicht die des Autors sind. Unbekannte Modelle und gleiche Familien z'' @
     a_umlaut @ lit ''hlen nicht.''"

fun user_text :: "rule_error \<Rightarrow> ustr" where
  "user_text UnknownAuthor = UNKNOWN_AUTHOR"
| "user_text (TooFewForeign n f) =
     (if n = 1 then NEED_ONE
      else if n = 2 then NEED_TWO
      else str_replace (lit ''{found}'') (decimal f)
             (str_replace (lit ''{needed}'') (decimal n) TOO_FEW_TEMPLATE))"

definition PREFIXES :: "(ustr \<times> family) list" where
  "PREFIXES =
     [(lit ''claude'', Anthropic), (lit ''opus'', Anthropic), (lit ''sonnet'', Anthropic),
      (lit ''haiku'', Anthropic), (lit ''fable'', Anthropic), (lit ''gpt'', OpenAi),
      (lit ''codex'', OpenAi), (lit ''kimi'', Moonshot), (lit ''glm'', Zhipu),
      (lit ''gemini'', Google), (lit ''grok'', Xai), (lit ''llama'', Meta), (lit ''ollama'', Meta)]"

definition O_SERIES_FAMILY :: family where
  "O_SERIES_FAMILY = OpenAi"

definition o_series_shape :: "ustr \<Rightarrow> bool" where
  "o_series_shape t =
     (case strip_prefix (lit ''o'') t of None \<Rightarrow> False | Some digits \<Rightarrow> list_all is_ascii_digit digits)"

definition separators :: "uchar list" where
  "separators = lit ''-:._ ''"

text \<open>The first word of the last path segment.\<close>

definition first_word :: "ustr \<Rightarrow> ustr" where
  "first_word model =
     (let lower = to_ascii_lowercase (trim model);
          name = last (split_char 47 lower)
      in takeWhile (\<lambda>c. c \<notin> set separators) name)"

definition family_of :: "ustr \<Rightarrow> family option" where
  "family_of model =
     (let word = first_word model in
      if 1 < byte_len word \<and> o_series_shape word then Some O_SERIES_FAMILY
      else map_option snd (find (\<lambda>(prefix, _). starts_with word prefix) PREFIXES))"

definition foreign_families :: "family \<Rightarrow> ustr list \<Rightarrow> family set" where
  "foreign_families author reviewers =
     set (filter (\<lambda>f. f \<noteq> author) (List.map_filter family_of reviewers))"

definition check_reviewers :: "ustr \<Rightarrow> ustr list \<Rightarrow> tier \<Rightarrow> rule_error + unit" where
  "check_reviewers author_model reviewer_models t =
     (if t = C then Ok ()
      else
        let n = (if t = A then 2 else 1) in
        and_then (ok_or (family_of author_model) UnknownAuthor) (\<lambda>author.
        let foreign = foreign_families author reviewer_models in
        if card foreign < n then Err (TooFewForeign n (card foreign)) else Ok ()))"

section \<open>Approvals\<close>

record scope =
  content_hash :: ustr
  target :: ustr
  sc_run_id :: ustr

record approval_grant =
  ag_scope :: scope
  expires_at :: int
  nonce :: ustr

record execution_request =
  er_scope :: scope
  er_now :: int

datatype denial =
  ContentChanged | WrongTarget | WrongRun | Expired | AlreadyUsed | DuplicateNonce | Unknown | Storage

definition first_mismatch :: "scope \<Rightarrow> scope \<Rightarrow> denial + unit" where
  "first_mismatch a b =
     (if content_hash a \<noteq> content_hash b then Err ContentChanged
      else if target a \<noteq> target b then Err WrongTarget
      else if sc_run_id a \<noteq> sc_run_id b then Err WrongRun
      else Ok ())"

text \<open>The ledger of consumed nonces is shared by all checks.\<close>

definition check :: "approval_grant \<Rightarrow> execution_request \<Rightarrow> ustr set \<Rightarrow> (denial + unit) \<times> ustr set" where
  "check grant request consumed =
     (case first_mismatch (ag_scope grant) (er_scope request) of
        Err e \<Rightarrow> (Err e, consumed)
      | Ok _ \<Rightarrow>
          if expires_at grant \<le> er_now request then (Err Expired, consumed)
          else if nonce grant \<in> consumed then (Err AlreadyUsed, consumed)
          else (Ok (), insert (nonce grant) consumed))"

section \<open>Durable consumption\<close>

text \<open>
  \<open>store/approval_grants.rs\<close>: the table of grants by their nonce.  Every operation is one
  transaction under the writer lock of the database; what the storage does in it is a
  record of outcomes.  A commit that reports an error may have kept or lost the changes.
\<close>

record grant_row =
  gr_scope :: scope
  gr_expires_at :: int
  consumed_at :: "int option"

type_synonym grant_table = "ustr \<Rightarrow> grant_row option"

datatype commit_outcome = Committed | Reported_Lost | Reported_Kept

record storage_outcomes =
  begin_ok :: bool
  first_ok :: bool
  update_ok :: bool
  audit_ok :: bool
  commit :: commit_outcome

fun committed :: "commit_outcome \<Rightarrow> 't \<Rightarrow> 't \<Rightarrow> (denial + unit) \<times> 't" where
  "committed Committed before after' = (Ok (), after')"
| "committed Reported_Lost before after' = (Err Storage, before)"
| "committed Reported_Kept before after' = (Err Storage, after')"

definition record_grant ::
  "storage_outcomes \<Rightarrow> approval_grant \<Rightarrow> grant_table \<Rightarrow> (denial + unit) \<times> grant_table" where
  "record_grant st grant tbl =
     (if \<not> begin_ok st \<or> \<not> first_ok st then (Err Storage, tbl)
      else if tbl (nonce grant) \<noteq> None then (Err DuplicateNonce, tbl)
      else committed (commit st) tbl
             (tbl(nonce grant \<mapsto>
                \<lparr> gr_scope = ag_scope grant, gr_expires_at = expires_at grant, consumed_at = None \<rparr>)))"

definition consume_tx ::
  "storage_outcomes \<Rightarrow> ustr \<Rightarrow> execution_request \<Rightarrow> grant_table \<Rightarrow> denial + grant_table" where
  "consume_tx st n request tbl =
     and_then (ensure (first_ok st) Storage) (\<lambda>_.
     and_then (ok_or (tbl n) Unknown) (\<lambda>row.
     let grant = \<lparr> ag_scope = gr_scope row, expires_at = gr_expires_at row, nonce = n \<rparr>;
         consumed = (if consumed_at row \<noteq> None then {n} else {})
     in
     and_then (fst (check grant request consumed)) (\<lambda>_.
     and_then (ensure (update_ok st) Storage) (\<lambda>_.
     and_then (ensure (consumed_at row = None) AlreadyUsed) (\<lambda>_.
     and_then (ensure (audit_ok st) Storage) (\<lambda>_.
     Ok (tbl(n \<mapsto> row\<lparr>consumed_at := Some (er_now request)\<rparr>))))))))"

definition consume ::
  "storage_outcomes \<Rightarrow> ustr \<Rightarrow> execution_request \<Rightarrow> grant_table \<Rightarrow> (denial + unit) \<times> grant_table" where
  "consume st n request tbl =
     (if \<not> begin_ok st then (Err Storage, tbl)
      else case consume_tx st n request tbl of
             Err denial \<Rightarrow> (Err denial, tbl)
           | Ok tbl' \<Rightarrow> committed (commit st) tbl tbl')"

text \<open>Processes share the table; the permits handed out are the history of a run.\<close>

datatype approval_call =
  Record_Grant storage_outcomes approval_grant
| Consume storage_outcomes ustr execution_request

record approvals =
  grants :: grant_table
  permits :: "(ustr \<times> execution_request) list"

definition no_approvals :: approvals where
  "no_approvals = \<lparr> grants = \<lambda>_. None, permits = [] \<rparr>"

fun after_call :: "approvals \<Rightarrow> approval_call \<Rightarrow> approvals" where
  "after_call s (Record_Grant st g) = s\<lparr>grants := snd (record_grant st g (grants s))\<rparr>"
| "after_call s (Consume st n rq) =
     (case consume st n rq (grants s) of
        (r, tbl) \<Rightarrow> s\<lparr>grants := tbl, permits := permits s @ (if is_ok r then [(n, rq)] else [])\<rparr>)"

lemma check_Ok:
  "fst (check g rq used) = Ok u \<longleftrightarrow>
     ag_scope g = er_scope rq \<and> er_now rq < expires_at g \<and> nonce g \<notin> used"
  by (auto simp: check_def first_mismatch_def split: if_splits)

lemma consume_tx_Ok:
  "consume_tx st n rq tbl = Ok tbl' \<longleftrightarrow>
     (\<exists>row. first_ok st \<and> update_ok st \<and> audit_ok st \<and> tbl n = Some row \<and>
        gr_scope row = er_scope rq \<and> er_now rq < gr_expires_at row \<and> consumed_at row = None \<and>
        tbl' = tbl(n \<mapsto> row\<lparr>consumed_at := Some (er_now rq)\<rparr>))"
  by (auto simp: consume_tx_def result_simps Let_def check_Ok)

text \<open>What one row may become.\<close>

definition row_step :: "grant_row option \<Rightarrow> grant_row option \<Rightarrow> bool" where
  "row_step before after' \<longleftrightarrow>
     (case before of
        None \<Rightarrow> True
      | Some row \<Rightarrow>
          (case after' of
             None \<Rightarrow> False
           | Some row' \<Rightarrow> gr_scope row' = gr_scope row \<and> gr_expires_at row' = gr_expires_at row \<and>
                consumed_at row \<in> {None, consumed_at row'}))"

lemma row_step_refl [simp]: "row_step r r"
  by (simp add: row_step_def split: option.split)

lemma row_step_trans: "row_step a b \<Longrightarrow> row_step b c \<Longrightarrow> row_step a c"
  by (auto simp: row_step_def split: option.splits)

lemma committed_cases:
  "committed c a b = (r, t) \<Longrightarrow> (r = Ok () \<and> t = b) \<or> (r = Err Storage \<and> (t = a \<or> t = b))"
  by (cases c) auto

lemma record_grant_rows: "record_grant st g tbl = (r, tbl') \<Longrightarrow> row_step (tbl n) (tbl' n)"
  by (auto simp: record_grant_def row_step_def split: if_splits option.splits dest!: committed_cases)

lemma consume_rows: "consume st n rq tbl = (r, tbl') \<Longrightarrow> row_step (tbl m) (tbl' m)"
  by (auto simp: consume_def consume_tx_Ok row_step_def
      split: if_splits option.splits sum.splits dest!: committed_cases)

lemma consume_Ok:
  assumes "consume st n rq tbl = (Ok u, tbl')"
  obtains row where "tbl n = Some row" "gr_scope row = er_scope rq" "er_now rq < gr_expires_at row"
    "consumed_at row = None" "tbl' = tbl(n \<mapsto> row\<lparr>consumed_at := Some (er_now rq)\<rparr>)"
  using assms
  by (auto simp: consume_def consume_tx_Ok split: if_splits sum.splits dest!: committed_cases)

lemma after_call_rows: "row_step (grants s n) (grants (after_call s c) n)"
proof (cases c)
  case (Record_Grant st g)
  then show ?thesis
    using record_grant_rows [of st g "grants s" "fst (record_grant st g (grants s))"] by simp
next
  case (Consume st m rq)
  then show ?thesis
    using consume_rows [of st m rq "grants s"] by (auto split: prod.split)
qed

text \<open>The permit rests on a grant for exactly this execution, spent by it.\<close>

definition permitted_by :: "grant_table \<Rightarrow> ustr \<times> execution_request \<Rightarrow> bool" where
  "permitted_by tbl p \<longleftrightarrow>
     (case tbl (fst p) of
        None \<Rightarrow> False
      | Some row \<Rightarrow> gr_scope row = er_scope (snd p) \<and> er_now (snd p) < gr_expires_at row \<and>
          consumed_at row = Some (er_now (snd p)))"

lemma permitted_by_step:
  "permitted_by t p \<Longrightarrow> row_step (t (fst p)) (t' (fst p)) \<Longrightarrow> permitted_by t' p"
  by (auto simp: permitted_by_def row_step_def split: option.splits)

definition permits_sound :: "approvals \<Rightarrow> bool" where
  "permits_sound s \<longleftrightarrow> distinct (map fst (permits s)) \<and> list_all (permitted_by (grants s)) (permits s)"

lemma permits_sound_after:
  assumes "permits_sound s"
  shows "permits_sound (after_call s c)"
proof -
  have old: "list_all (permitted_by (grants (after_call s c))) (permits s)"
    using assms permitted_by_step after_call_rows
    unfolding permits_sound_def list_all_iff by blast
  show ?thesis
  proof (cases c)
    case (Record_Grant st g)
    with assms old show ?thesis by (simp add: permits_sound_def)
  next
    case (Consume st n rq)
    obtain r tbl where r: "consume st n rq (grants s) = (r, tbl)" by force
    show ?thesis
    proof (cases r)
      case (Inl d)
      with assms old Consume r show ?thesis by (simp add: permits_sound_def)
    next
      case (Inr u)
      from consume_Ok [OF r [unfolded Inr]] obtain row where row: "grants s n = Some row"
        "gr_scope row = er_scope rq" "er_now rq < gr_expires_at row" "consumed_at row = None"
        "tbl = (grants s)(n \<mapsto> row\<lparr>consumed_at := Some (er_now rq)\<rparr>)" .
      have "n \<notin> set (map fst (permits s))"
        using assms row unfolding permits_sound_def list_all_iff permitted_by_def by fastforce
      moreover have "permitted_by tbl (n, rq)"
        using row by (simp add: permitted_by_def)
      ultimately show ?thesis
        using assms old Consume r Inr by (simp add: permits_sound_def)
    qed
  qed
qed

interpretation approval: machine after_call permits_sound
  by unfold_locales (rule permits_sound_after)

lemma run_rows: "row_step (grants s n) (grants (run after_call s cs) n)"
  by (induction cs arbitrary: s) (auto intro: row_step_trans after_call_rows)

text \<open>C36: An approval permits one execution, the one it was given for.  Whatever grants are
  recorded and whatever executions are tried, in any order and with any storage failures, no
  nonce yields two permits; each permit belongs to a recorded grant with the same content,
  target and run, used before its deadline and marked as consumed.  A recorded grant keeps its
  scope and its deadline, and a consumption is never taken back.\<close>

theorem approvals_permit_one_execution:
  "distinct (map fst (permits (run after_call no_approvals cs))) \<and>
   list_all (permitted_by (grants (run after_call no_approvals cs))) (permits (run after_call no_approvals cs)) \<and>
   row_step (grants (run after_call no_approvals cs) n) (grants (run after_call no_approvals (cs @ ds)) n)"
proof -
  have "permits_sound no_approvals"
    by (simp add: permits_sound_def no_approvals_def)
  then have "permits_sound (run after_call no_approvals cs)"
    by (rule approval.inv_run)
  then show ?thesis
    unfolding permits_sound_def run_append using run_rows by blast
qed

section \<open>Foreign reviewers\<close>

text \<open>What a name says about its family, without an order of lookups.\<close>

definition names_family :: "ustr \<Rightarrow> family \<Rightarrow> bool" where
  "names_family model f \<longleftrightarrow>
     1 < byte_len (first_word model) \<and> o_series_shape (first_word model) \<and> f = OpenAi \<or>
     (\<exists>prefix. (prefix, f) \<in> set PREFIXES \<and> starts_with (first_word model) prefix)"

lemma starts_with_both: "starts_with w p \<Longrightarrow> starts_with w q \<Longrightarrow> starts_with p q \<or> starts_with q p"
  by (auto simp: starts_with_iff append_eq_append_conv2)

lemma prefixes_never_overlap:
  "list_all (\<lambda>(p, f). list_all (\<lambda>(q, g). f = g \<or> \<not> starts_with p q) PREFIXES) PREFIXES"
  by code_simp

lemma prefixes_leave_o_series:
  "list_all (\<lambda>(p, f). p \<noteq> [] \<and> (f = OpenAi \<or> \<not> o_series_shape p)) PREFIXES"
  by code_simp

lemma prefix_family_unique:
  assumes "(p, f) \<in> set PREFIXES" "(q, g) \<in> set PREFIXES" "starts_with w p" "starts_with w q"
  shows "f = g"
  using starts_with_both [OF assms(3,4)] prefixes_never_overlap assms(1,2)
  unfolding list_all_iff by fastforce

lemma o_series_prefix:
  assumes "o_series_shape w" "(p, f) \<in> set PREFIXES" "starts_with w p"
  shows "f = OpenAi"
proof -
  from assms(1) obtain digits where w: "w = lit ''o'' @ digits" "list_all is_ascii_digit digits"
    by (auto simp: o_series_shape_def strip_prefix_Some split: option.splits)
  have p: "p \<noteq> []" "f = OpenAi \<or> \<not> o_series_shape p"
    using prefixes_leave_o_series assms(2) by (auto simp: list_all_iff)
  obtain rest where "w = p @ rest"
    using assms(3) by (auto simp: starts_with_iff)
  with w p(1) obtain d' where "p = lit ''o'' @ d'" "digits = d' @ rest"
    by (cases p) (auto simp: lit_def)
  with w(2) have "o_series_shape p"
    by (simp add: o_series_shape_def)
  with p(2) show ?thesis by simp
qed

lemma family_of_iff: "family_of model = Some f \<longleftrightarrow> names_family model f"
proof (cases "1 < byte_len (first_word model) \<and> o_series_shape (first_word model)")
  case True
  then show ?thesis
    using o_series_prefix by (auto simp: family_of_def names_family_def O_SERIES_FAMILY_def Let_def)
next
  case False
  let ?found = "find (\<lambda>(prefix, _). starts_with (first_word model) prefix) PREFIXES"
  have eq: "family_of model = map_option snd ?found"
    using False unfolding family_of_def Let_def by (simp only: if_False)
  show ?thesis
  proof (cases ?found)
    case None
    then have none: "(prefix, g) \<in> set PREFIXES \<Longrightarrow> \<not> starts_with (first_word model) prefix" for prefix g
      by (auto simp: find_None_iff)
    show ?thesis
      unfolding eq None names_family_def using False none by auto
  next
    case (Some e)
    obtain p g where e: "e = (p, g)" by force
    from find_SomeD [OF Some] have g: "(p, g) \<in> set PREFIXES" "starts_with (first_word model) p"
      by (simp_all add: e)
    then show ?thesis
      unfolding eq names_family_def Some e using False prefix_family_unique by auto
  qed
qed

lemma foreign_families_iff:
  "g \<in> foreign_families f rs \<longleftrightarrow> g \<noteq> f \<and> list_ex (\<lambda>r. names_family r g) rs"
  unfolding foreign_families_def
  by (induction rs) (auto simp: List.map_filter_def family_of_iff [symmetric])

text \<open>No model reviews its own family.  Reviewers suffice for a package exactly when its tier
  is C, or the author's family is known and the reviewers' names show that many different
  families (two for tier A, one for tier B) none of which is the author's; unknown names never
  count.  The family depends on the name alone, not on the order of the table of prefixes.\<close>

theorem reviewers_are_foreign:
  "check_reviewers author reviewers t = Ok () \<longleftrightarrow>
     t = C \<or>
     (\<exists>f G. names_family author f \<and> f \<notin> G \<and> card G = (if t = A then 2 else 1) \<and>
        G \<subseteq> {g. list_ex (\<lambda>r. names_family r g) reviewers})"
proof -
  have ex: "\<not> card (foreign_families f reviewers) < n \<longleftrightarrow>
      (\<exists>G. f \<notin> G \<and> card G = n \<and> G \<subseteq> {g. list_ex (\<lambda>r. names_family r g) reviewers})" for f n
  proof
    assume "\<not> card (foreign_families f reviewers) < n"
    then obtain G where "G \<subseteq> foreign_families f reviewers" "card G = n"
      by (meson not_less obtain_subset_with_card_n)
    then show "\<exists>G. f \<notin> G \<and> card G = n \<and> G \<subseteq> {g. list_ex (\<lambda>r. names_family r g) reviewers}"
      using foreign_families_iff by blast
  next
    assume "\<exists>G. f \<notin> G \<and> card G = n \<and> G \<subseteq> {g. list_ex (\<lambda>r. names_family r g) reviewers}"
    then obtain G where G: "card G = n" "G \<subseteq> foreign_families f reviewers"
      using foreign_families_iff by blast
    moreover have "finite (foreign_families f reviewers)"
      by (simp add: foreign_families_def)
    ultimately show "\<not> card (foreign_families f reviewers) < n"
      using card_mono not_less by blast
  qed
  have "check_reviewers author reviewers t = Ok () \<longleftrightarrow>
      t = C \<or> (\<exists>f. names_family author f \<and>
        \<not> card (foreign_families f reviewers) < (if t = A then 2 else 1))"
    by (auto simp: check_reviewers_def result_simps Let_def family_of_iff [symmetric])
  then show ?thesis
    unfolding ex by blast
qed

lemma known_families:
  "family_of (lit ''Sonnet-5.5'') = Some Anthropic"
  "family_of (lit ''openai/o4:latest'') = Some OpenAi"
  "family_of (lit ''ollama/llama3'') = Some Meta"
  "family_of (lit ''orca'') = None"
  "user_text (TooFewForeign 3 1) =
     lit ''Es fehlen Pr'' @ u_umlaut @ lit ''fer aus anderen Modellfamilien: ben'' @ o_umlaut @
     lit ''tigt 3, nachgewiesen 1.''"
  by code_simp+

end
