(* ===== verification/Status_Signals.thy ===== *)
theory Status_Signals
  imports Prelude Rust_Text "HOL-Library.List_Lexorder"
begin

text \<open>
  The vocabulary of the status engine, first half of \<open>src-tauri/src/status.rs\<close>: the board's
  columns, the closed set of reasons with their grades and sentences, verdicts, what terminal
  output suggests, the context figure an agent prints and the usage snapshots of its
  status line.  Unicode lower-casing and floating-point arithmetic are parameters.
\<close>

section \<open>Columns and reasons\<close>

definition COL_WORKING :: ustr where "COL_WORKING = lit ''working''"
definition COL_NEEDS_YOU :: ustr where "COL_NEEDS_YOU = lit ''needs_you''"
definition COL_IN_REVIEW :: ustr where "COL_IN_REVIEW = lit ''in_review''"
definition COL_READY_TO_MERGE :: ustr where "COL_READY_TO_MERGE = lit ''ready_to_merge''"
definition COL_DONE :: ustr where "COL_DONE = lit ''done''"

definition COLUMNS :: "ustr list" where
  "COLUMNS = [COL_WORKING, COL_NEEDS_YOU, COL_IN_REVIEW, COL_READY_TO_MERGE, COL_DONE]"

lemmas column_defs =
  COL_WORKING_def COL_NEEDS_YOU_def COL_IN_REVIEW_def COL_READY_TO_MERGE_def COL_DONE_def

text \<open>Instants and durations are milliseconds.\<close>

definition IDLE_AFTER :: int where "IDLE_AFTER = 45000"
definition STUCK_AFTER :: int where "STUCK_AFTER = 600000"
definition TAIL_CAPACITY :: nat where "TAIL_CAPACITY = 2048"

definition column_const :: "ustr \<Rightarrow> ustr option" where
  "column_const name = find (\<lambda>c. c = name) COLUMNS"

datatype grade = Blocking | Attention | Info

text \<open>The derived order of the enum.\<close>

fun grade_rank :: "grade \<Rightarrow> nat" where
  "grade_rank Blocking = 0"
| "grade_rank Attention = 1"
| "grade_rank Info = 2"

datatype reason_code =
  ApprovalRequired | QuotaBlocked | DeliveryFailed | AgentExited | AgentStalled | DecisionPending
| AgentReported | IdleAtPrompt | ChangesRequested | ReviewPending | ReviewApproved
| ApprovedButDraft | ChecksPending | ReviewDraft | PullRequestMerged

fun code :: "reason_code \<Rightarrow> ustr" where
  "code ApprovalRequired = lit ''approval_required''"
| "code QuotaBlocked = lit ''quota_blocked''"
| "code DeliveryFailed = lit ''delivery_failed''"
| "code AgentExited = lit ''agent_exited''"
| "code AgentStalled = lit ''agent_stalled''"
| "code DecisionPending = lit ''decision_pending''"
| "code AgentReported = lit ''agent_reported''"
| "code IdleAtPrompt = lit ''idle_at_prompt''"
| "code ChangesRequested = lit ''changes_requested''"
| "code ReviewPending = lit ''review_pending''"
| "code ReviewApproved = lit ''review_approved''"
| "code ApprovedButDraft = lit ''approved_but_draft''"
| "code ChecksPending = lit ''checks_pending''"
| "code ReviewDraft = lit ''review_draft''"
| "code PullRequestMerged = lit ''pull_request_merged''"

fun code_grade :: "reason_code \<Rightarrow> grade" where
  "code_grade ApprovalRequired = Blocking"
| "code_grade QuotaBlocked = Blocking"
| "code_grade DeliveryFailed = Blocking"
| "code_grade AgentExited = Blocking"
| "code_grade AgentStalled = Blocking"
| "code_grade DecisionPending = Blocking"
| "code_grade AgentReported = Blocking"
| "code_grade ChangesRequested = Blocking"
| "code_grade IdleAtPrompt = Attention"
| "code_grade ReviewPending = Attention"
| "code_grade ReviewApproved = Attention"
| "code_grade ApprovedButDraft = Info"
| "code_grade ChecksPending = Info"
| "code_grade ReviewDraft = Info"
| "code_grade PullRequestMerged = Info"

fun message :: "reason_code \<Rightarrow> ustr" where
  "message ApprovalRequired = lit ''Der Agent wartet auf deine Freigabe''"
| "message QuotaBlocked = lit ''Kontingent oder Rate-Limit erreicht''"
| "message DeliveryFailed = lit ''Die Eingabe wurde nicht abgeschickt''"
| "message AgentExited = lit ''Der Agent ist beendet''"
| "message AgentStalled = lit ''Kein Output und keine Datei'' @ a_umlaut @ lit ''nderung''"
| "message DecisionPending = lit ''Eine Entscheidung wartet''"
| "message AgentReported = lit ''Der Agent meldet sich''"
| "message IdleAtPrompt = lit ''Der Agent wartet am Prompt''"
| "message ChangesRequested =
     lit ''Im Pull Request wurden '' @ [196] @ lit ''nderungen angefordert''"
| "message ReviewPending = lit ''Der Pull Request wartet auf ein Review''"
| "message ReviewApproved = lit ''Freigegeben, und jeder Check ist gr'' @ u_umlaut @ lit ''n''"
| "message ApprovedButDraft = lit ''Freigegeben, aber noch ein Entwurf''"
| "message ChecksPending = lit ''Freigegeben, die Checks laufen noch''"
| "message ReviewDraft = lit ''Der Pull Request ist ein Entwurf''"
| "message PullRequestMerged = lit ''Der Pull Request ist gemerged''"

fun repair :: "reason_code \<Rightarrow> ustr" where
  "repair ApprovalRequired = lit ''best'' @ a_umlaut @ lit ''tige die R'' @ u_umlaut @ lit ''ckfrage im Terminal''"
| "repair QuotaBlocked =
     lit ''warte auf das n'' @ a_umlaut @ lit ''chste Zeitfenster oder wechsle das Agentenprofil''"
| "repair DeliveryFailed = lit ''dr'' @ u_umlaut @ lit ''cke im Terminal von Hand Enter''"
| "repair AgentExited =
     lit ''pr'' @ u_umlaut @ lit ''fe sein Ergebnis, dann neu starten oder archivieren''"
| "repair AgentStalled = lit ''sieh im Terminal nach oder starte den Agenten neu''"
| "repair DecisionPending = lit ''beantworte sie in der Attention-Ansicht''"
| "repair AgentReported = lit ''sieh im Terminal nach''"
| "repair IdleAtPrompt = lit ''gib ihm im Terminal den n'' @ a_umlaut @ lit ''chsten Schritt''"
| "repair ChangesRequested = lit ''arbeite die Kommentare ein''"
| "repair ReviewPending = lit ''sieh ihn dir an oder hol ein Review ein''"
| "repair ReviewApproved = lit ''merge den Pull Request''"
| "repair ApprovedButDraft = lit ''nimm ihn aus dem Entwurfsstatus, wenn er fertig ist''"
| "repair ChecksPending = lit ''warte, bis die Checks durch sind''"
| "repair ReviewDraft = lit ''nimm ihn aus dem Entwurfsstatus, wenn er fertig ist''"
| "repair PullRequestMerged = lit ''nichts weiter zu tun''"

section \<open>Signals and verdicts\<close>

record signal =
  sig_code :: reason_code
  sig_detail :: "ustr option"

definition new_signal :: "reason_code \<Rightarrow> signal" where
  "new_signal c = \<lparr> sig_code = c, sig_detail = None \<rparr>"

definition with_detail :: "reason_code \<Rightarrow> ustr \<Rightarrow> signal" where
  "with_detail c detail =
     (let d = trim detail in \<lparr> sig_code = c, sig_detail = (if d \<noteq> [] then Some d else None) \<rparr>)"

definition sig_grade :: "signal \<Rightarrow> grade" where
  "sig_grade s = code_grade (sig_code s)"

definition signal_line :: "signal \<Rightarrow> ustr" where
  "signal_line s =
     (case sig_detail s of
        Some detail \<Rightarrow> detail
      | None \<Rightarrow> message (sig_code s) @ lit '' '' @ [8212] @ lit '' '' @ repair (sig_code s))"

record verdict =
  column :: ustr
  vd_signal :: "signal option"
  reason :: "ustr option"

definition plain :: "ustr \<Rightarrow> verdict" where
  "plain c = \<lparr> column = c, vd_signal = None, reason = None \<rparr>"

definition from_signal :: "ustr \<Rightarrow> signal \<Rightarrow> verdict" where
  "from_signal c s = \<lparr> column = c, vd_signal = Some s, reason = Some (signal_line s) \<rparr>"

definition coded :: "ustr \<Rightarrow> reason_code \<Rightarrow> verdict" where
  "coded c r = from_signal c (new_signal r)"

definition coded_with :: "ustr \<Rightarrow> reason_code \<Rightarrow> ustr \<Rightarrow> verdict" where
  "coded_with c r detail = from_signal c (with_detail r detail)"

section \<open>What the output suggests\<close>

datatype heuristic = Activity | Permission | Quota | Idle

fun strong :: "heuristic \<Rightarrow> verdict option" where
  "strong Permission = Some (coded COL_NEEDS_YOU ApprovalRequired)"
| "strong Quota = Some (coded COL_NEEDS_YOU QuotaBlocked)"
| "strong _ = None"

fun weak :: "heuristic \<Rightarrow> verdict option" where
  "weak Idle = Some (coded COL_NEEDS_YOU IdleAtPrompt)"
| "weak Activity = Some (plain COL_WORKING)"
| "weak _ = None"

definition is_definitive :: "heuristic \<Rightarrow> bool" where
  "is_definitive h \<longleftrightarrow> strong h \<noteq> None"

fun heuristic_signal :: "heuristic \<Rightarrow> signal option" where
  "heuristic_signal Permission = Some (new_signal ApprovalRequired)"
| "heuristic_signal Quota = Some (new_signal QuotaBlocked)"
| "heuristic_signal Idle = Some (new_signal IdleAtPrompt)"
| "heuristic_signal Activity = None"

definition GENERIC_PERMISSION :: "ustr list" where
  "GENERIC_PERMISSION =
     map lit [''do you want to proceed'', ''do you want to continue'', ''press enter to continue'',
       ''(y/n)'', ''[y/n]'', ''y/n]'', ''do you approve'', ''waiting for approval'']"

definition GENERIC_QUOTA :: "ustr list" where
  "GENERIC_QUOTA =
     map lit [''rate limit'', ''rate_limit'', ''quota exceeded'', ''insufficient_quota'',
       ''insufficient quota'', ''too many requests'', ''status 429'', ''error 429'', ''http 429'',
       ''429 too many'']"

fun skip_csi :: "ustr \<Rightarrow> ustr" where
  "skip_csi [] = []"
| "skip_csi (c # s) = (if 64 \<le> c \<and> c \<le> 126 then s else skip_csi s)"

fun skip_osc :: "ustr \<Rightarrow> ustr" where
  "skip_osc [] = []"
| "skip_osc (c # s) =
     (if c = 7 then s
      else if c = 27 \<and> s \<noteq> [] \<and> hd s = 92 then tl s
      else skip_osc s)"

lemma skip_csi_length [termination_simp]: "length (skip_csi s) \<le> length s"
  by (induction s) auto

lemma skip_osc_length [termination_simp]: "length (skip_osc s) \<le> length s"
  by (induction s) auto

fun strip_ansi :: "ustr \<Rightarrow> ustr" where
  "strip_ansi [] = []"
| "strip_ansi (c # s) =
     (if c = 27
      then
        (case s of
           [] \<Rightarrow> []
         | d # r \<Rightarrow>
             if d = 91 then strip_ansi (skip_csi r)
             else if d = 93 then strip_ansi (skip_osc r)
             else strip_ansi r)
      else if c = 13 then 10 # strip_ansi s
      else c # strip_ansi s)"

record dialect =
  dl_permission :: "ustr list"
  dl_quota :: "ustr list"
  context_labels :: "ustr list"

definition default_dialect :: dialect where
  "default_dialect = \<lparr> dl_permission = [], dl_quota = [], context_labels = [] \<rparr>"

text \<open>\<open>to_lowercase\<close> of the standard library, and the IEEE part of \<open>parse_amount\<close>: the number
  a text denotes, times the multiplier, rounded, when it is finite, not negative and fits.\<close>

record text_platform =
  lowercase :: "ustr \<Rightarrow> ustr"
  scaled_amount :: "ustr \<Rightarrow> nat \<Rightarrow> u64 option"

definition matches :: "ustr list \<Rightarrow> ustr list \<Rightarrow> ustr \<Rightarrow> bool" where
  "matches generic own t \<longleftrightarrow> list_ex (str_contains t) generic \<or> list_ex (str_contains t) own"

definition classify_output :: "text_platform \<Rightarrow> dialect \<Rightarrow> ustr \<Rightarrow> heuristic option" where
  "classify_output pf d tail' =
     (let t = lowercase pf (strip_ansi tail') in
      if trim t = [] then None
      else if matches GENERIC_QUOTA (dl_quota d) t then Some Quota
      else if matches GENERIC_PERMISSION (dl_permission d) t then Some Permission
      else Some Activity)"

definition quota_line :: "text_platform \<Rightarrow> dialect \<Rightarrow> ustr \<Rightarrow> ustr option" where
  "quota_line pf d tail' =
     find_map
       (\<lambda>line.
          if \<not> matches GENERIC_QUOTA (dl_quota d) (lowercase pf line) then None
          else if trim line \<noteq> [] then Some (trim line) else None)
       (rev (str_lines (strip_ansi tail')))"

section \<open>The context figure\<close>

record context_usage =
  used :: u64
  total :: u64

definition CONTEXT_LABELS :: "ustr list" where
  "CONTEXT_LABELS = map lit [''ctx:'', ''context:'']"

definition CONTEXT_FIELD_MAX :: nat where "CONTEXT_FIELD_MAX = 24"

definition number_char :: "uchar \<Rightarrow> bool" where
  "number_char c \<longleftrightarrow> is_ascii_digit c \<or> c \<in> set (lit ''.,kKmM'')"

definition leading_number :: "ustr \<Rightarrow> ustr" where
  "leading_number t = takeWhile number_char (trim_start t)"

definition parse_amount :: "text_platform \<Rightarrow> ustr \<Rightarrow> u64 option" where
  "parse_amount pf t =
     (let t = trim t in
      if list_ex is_whitespace t \<or> t = [] then None
      else
        let (digits, multiplier) =
          (if last t \<in> {107, 75} then (butlast t, 1000)
           else if last t \<in> {109, 77} then (butlast t, 1000000)
           else (t, 1))
        in scaled_amount pf (filter (\<lambda>c. c \<noteq> 44) digits) multiplier)"

fun maximum :: "nat list \<Rightarrow> nat option" where
  "maximum [] = None"
| "maximum (x # xs) = Some (fold max xs x)"

definition parse_context_usage :: "text_platform \<Rightarrow> ustr \<Rightarrow> ustr list \<Rightarrow> context_usage option" where
  "parse_context_usage pf raw extra_labels =
     (let t = strip_ansi raw; lower = to_ascii_lowercase t in
      opt_then
        (maximum (List.map_filter (\<lambda>label. map_option (\<lambda>at. at + length label) (str_rfind label lower))
           (CONTEXT_LABELS @ extra_labels))) (\<lambda>start.
      opt_then (split_once [47] (drop start t)) (\<lambda>(u, rest).
      if CONTEXT_FIELD_MAX < byte_len (trim u) then None
      else
        opt_then (parse_amount pf u) (\<lambda>u.
        opt_then (parse_amount pf (leading_number rest)) (\<lambda>tot.
        if tot = 0 then None else Some \<lparr> used = u, total = tot \<rparr>)))))"

section \<open>Usage snapshots of the status line\<close>

record rate_window_usage =
  rw_percent :: "u8 option"
  rw_resets_at :: "int option"

record statusline_usage =
  su_percent :: "u8 option"
  su_used :: "ustr option"
  su_limit :: "ustr option"
  window_label :: ustr
  su_resets_at :: "int option"
  five_hour :: "rate_window_usage option"
  seven_day :: "rate_window_usage option"
  su_model :: "ustr option"
  su_observed_at :: int

text \<open>The payload after \<open>serde_json\<close>; the numbers are of a type \<open>'f\<close> of floats, and the context
  window is what \<open>context_window_usage\<close> prints of it.\<close>

record 'f rate_window =
  used_percentage :: "'f option"
  resets_at :: "int option"

record 'f statusline_payload =
  rate_limits :: "('f rate_window option \<times> 'f rate_window option) option"
  window_texts :: "ustr option \<times> ustr option"
  display_name :: "ustr option"

record 'f float_reader =
  decode_statusline :: "ustr \<Rightarrow> 'f statusline_payload option"
  percent_in_range :: "'f \<Rightarrow> u8 option"

definition or_else :: "'a option \<Rightarrow> 'a option \<Rightarrow> 'a option" where
  "or_else a b = (case a of None \<Rightarrow> b | Some x \<Rightarrow> Some x)"

definition sane_percent :: "'f float_reader \<Rightarrow> 'f option \<Rightarrow> u8 option" where
  "sane_percent fl raw = opt_then raw (percent_in_range fl)"

definition window_usage :: "'f float_reader \<Rightarrow> 'f rate_window \<Rightarrow> rate_window_usage" where
  "window_usage fl w = \<lparr> rw_percent = sane_percent fl (used_percentage w), rw_resets_at = resets_at w \<rparr>"

definition MODEL_NAME_MAX_CHARS :: nat where "MODEL_NAME_MAX_CHARS = 64"

definition clean_model_name :: "ustr \<Rightarrow> ustr option" where
  "clean_model_name raw =
     (let name = trim (take MODEL_NAME_MAX_CHARS (filter (\<lambda>c. \<not> is_control c) raw)) in
      if name \<noteq> [] then Some name else None)"

definition window_label_of :: "'a option \<Rightarrow> 'b option \<Rightarrow> ustr" where
  "window_label_of five seven =
     (if five \<noteq> None then lit ''5-Stunden-Fenster''
      else if seven \<noteq> None then lit ''7-Tage-Fenster''
      else lit ''Statusline'')"

definition parse_statusline :: "'f float_reader \<Rightarrow> ustr \<Rightarrow> int \<Rightarrow> statusline_usage option" where
  "parse_statusline fl raw at =
     opt_then (decode_statusline fl raw) (\<lambda>payload.
     opt_then (rate_limits payload) (\<lambda>(primary, fallback).
     Some \<lparr> su_percent =
              or_else (opt_then primary (\<lambda>w. sane_percent fl (used_percentage w)))
                (opt_then fallback (\<lambda>w. sane_percent fl (used_percentage w))),
            su_used = fst (window_texts payload),
            su_limit = snd (window_texts payload),
            window_label = window_label_of primary fallback,
            su_resets_at = or_else (opt_then primary resets_at) (opt_then fallback resets_at),
            five_hour = map_option (window_usage fl) primary,
            seven_day = map_option (window_usage fl) fallback,
            su_model = opt_then (display_name payload) clean_model_name,
            su_observed_at = at \<rparr>))"

definition merge_window ::
  "rate_window_usage option \<Rightarrow> rate_window_usage option \<Rightarrow> rate_window_usage option" where
  "merge_window previous incoming =
     (case (previous, incoming) of
        (Some old, Some new) \<Rightarrow>
          if rw_resets_at old = rw_resets_at new
          then Some \<lparr> rw_percent =
                        (case (rw_percent old, rw_percent new) of
                           (Some a, Some b) \<Rightarrow> Some (max a b)
                         | (a, b) \<Rightarrow> or_else a b),
                      rw_resets_at = rw_resets_at new \<rparr>
          else incoming
      | _ \<Rightarrow> incoming)"

definition merge_statusline :: "statusline_usage \<Rightarrow> statusline_usage \<Rightarrow> statusline_usage" where
  "merge_statusline previous incoming =
     (let five = merge_window (five_hour previous) (five_hour incoming);
          seven = merge_window (seven_day previous) (seven_day incoming)
      in
      \<lparr> su_percent = or_else (opt_then five rw_percent) (opt_then seven rw_percent),
        su_used = su_used incoming,
        su_limit = su_limit incoming,
        window_label = window_label_of five seven,
        su_resets_at = or_else (opt_then five rw_resets_at) (opt_then seven rw_resets_at),
        five_hour = five,
        seven_day = seven,
        su_model = or_else (su_model incoming) (su_model previous),
        su_observed_at = su_observed_at incoming \<rparr>)"

end
