(* ===== verification/Status_Engine.thy ===== *)
theory Status_Engine
  imports Status_Signals Dialog_Text
begin

text \<open>
  The live status engine, \<open>src-tauri/src/status.rs\<close>: what is remembered about a worker, how the
  sources fold into one column and one attention, the recovery of a startup block from
  terminal output, and the operations that observe, record and publish.  The engine is a map of
  worker states with the log of what it sent: payloads to the interface, starts of the test
  gate and of the critic, quota notes.  Clocks are arguments of the operations; the order in
  which a hash map lists its keys is an argument too.
\<close>

section \<open>A startup block\<close>

datatype escape_state =
  Esc_Text | Escape | Csi | CsiOverflow | Esc_String bool | StringEscape bool

record startup_block =
  sb_verdict :: verdict
  marker :: "ustr option"
  sb_text :: ustr
  sequence :: ustr
  escape :: escape_state
  cleared :: bool
  uncertain :: bool
  concealed :: bool

text \<open>\<open>codex_marker\<close> is the readiness marker in the embedded profile of Codex.\<close>

definition new_startup_block ::
  "ustr option \<Rightarrow> ustr \<Rightarrow> blocking_dialog option \<Rightarrow> startup_block" where
  "new_startup_block codex_marker detail cause =
     \<lparr> sb_verdict = coded_with COL_NEEDS_YOU DeliveryFailed detail,
       marker =
         opt_filter (\<lambda>m. m \<noteq> [])
           (if cause \<in> {Some CodexHooksReview, Some CodexUpdateAvailable} then codex_marker else None),
       sb_text = [], sequence = [], escape = Esc_Text,
       cleared = False, uncertain = False, concealed = False \<rparr>"

text \<open>One code of a graphic rendition sequence: empty is zero, more than 16 bits is none.\<close>

definition sgr_code :: "ustr \<Rightarrow> int option" where
  "sgr_code s =
     (if s = [] then Some 0
      else if list_all is_ascii_digit s \<and> digits_value s < 65536 then Some (digits_value s)
      else None)"

definition sgr_harmless :: "int \<Rightarrow> bool" where
  "sgr_harmless c \<longleftrightarrow>
     1 \<le> c \<and> c \<le> 7 \<or> c = 9 \<or> 22 \<le> c \<and> c \<le> 25 \<or> c = 27 \<or> 29 \<le> c \<and> c \<le> 37 \<or>
     39 \<le> c \<and> c \<le> 47 \<or> c = 49 \<or> 90 \<le> c \<and> c \<le> 97 \<or> 100 \<le> c \<and> c \<le> 107"

text \<open>The loop over the codes, on the pair of \<open>concealed\<close> and \<open>uncertain\<close>.\<close>

function sgr_codes :: "int option list \<Rightarrow> bool \<times> bool \<Rightarrow> bool \<times> bool" where
  "sgr_codes [] st = st"
| "sgr_codes (x # xs) (con, unc) =
     (if x = Some 0 \<or> x = Some 28 then sgr_codes xs (False, unc)
      else if x = Some 8 then sgr_codes xs (True, True)
      else if x = Some 38 \<or> x = Some 48 \<or> x = Some 58
      then
        let components =
              (case xs of Some k # _ \<Rightarrow> if k = 5 then 1 else if k = 2 then 3 else 0 | _ \<Rightarrow> 0);
            args = take components (drop 1 xs)
        in
        if components = 0 \<or> length args \<noteq> components \<or>
           \<not> list_all (\<lambda>a. case a of Some v \<Rightarrow> 0 \<le> v \<and> v \<le> 255 | None \<Rightarrow> False) args
        then (True, True)
        else sgr_codes (drop (1 + components) xs) (con, unc)
      else if (case x of Some c \<Rightarrow> sgr_harmless c | None \<Rightarrow> False)
      then sgr_codes xs (con, unc)
      else (True, True))"
  by pat_completeness auto
termination by (relation "measure (\<lambda>(cs, _). length cs)") auto

text \<open>The final byte of a control sequence.\<close>

definition csi_final :: "uchar \<Rightarrow> startup_block \<Rightarrow> startup_block" where
  "csi_final c b =
     (if c = 74 \<and> sequence b = [50]
      then b\<lparr>sb_text := [], cleared := True, uncertain := concealed b\<rparr>
      else if c = 109 \<and> list_all (\<lambda>d. is_ascii_digit d \<or> d = 59) (sequence b)
      then
        let (con, unc) = sgr_codes (map sgr_code (split_char 59 (sequence b))) (concealed b, uncertain b)
        in b\<lparr>concealed := con, uncertain := unc\<rparr>
      else if \<not> (c = 72 \<and> sequence b = [] \<and> trim (sb_text b) = [])
      then b\<lparr>uncertain := True, concealed := (c = 109 \<or> concealed b)\<rparr>
      else b)"

text \<open>The match on the state of the escape machine, and the capacity of the text after it.\<close>

definition note_match :: "startup_block \<Rightarrow> uchar \<Rightarrow> startup_block" where
  "note_match b c =
      (case escape b of
         Esc_Text \<Rightarrow>
           if c = 27 then b\<lparr>escape := Escape\<rparr>
           else if c \<in> {144, 152, 157, 158, 159}
           then b\<lparr>uncertain := True, escape := Esc_String (c = 157)\<rparr>
           else if is_control c then b\<lparr>uncertain := True\<rparr>
           else b\<lparr>sb_text := sb_text b @ [c]\<rparr>
       | Escape \<Rightarrow>
           let b = b\<lparr>sequence := []\<rparr> in
           if c = 91 then b\<lparr>escape := Csi\<rparr>
           else if c \<in> {93, 80, 88, 94, 95}
           then b\<lparr>uncertain := True, escape := Esc_String (c = 93)\<rparr>
           else b\<lparr>uncertain := True, escape := Esc_Text\<rparr>
       | Esc_String bell \<Rightarrow>
           if c = 7 \<and> bell \<or> c = 156 then b\<lparr>escape := Esc_Text\<rparr>
           else if c = 27 then b\<lparr>escape := StringEscape bell\<rparr>
           else b
       | StringEscape bell \<Rightarrow>
           if c = 7 \<and> bell \<or> c = 92 \<or> c = 156 then b\<lparr>escape := Esc_Text\<rparr>
           else if c = 27 then b
           else b\<lparr>escape := Esc_String bell\<rparr>
       | _ \<Rightarrow>
           if 64 \<le> c \<and> c \<le> 126
           then (if escape b = CsiOverflow then b\<lparr>escape := Esc_Text\<rparr>
                 else (csi_final c b)\<lparr>escape := Esc_Text\<rparr>)
           else if c = 24 \<or> c = 26 \<or> c = 27
           then b\<lparr>uncertain := True, escape := (if c = 27 then Escape else Esc_Text)\<rparr>
           else if c \<le> 31 \<or> c = 127 then b\<lparr>uncertain := True\<rparr>
           else if \<not> (32 \<le> c \<and> c \<le> 63)
           then b\<lparr>uncertain := True, concealed := True, escape := Esc_Text\<rparr>
           else if escape b = CsiOverflow then b
           else if byte_len (sequence b) < 32 then b\<lparr>sequence := sequence b @ [c]\<rparr>
           else b\<lparr>uncertain := True, concealed := True, escape := CsiOverflow\<rparr>)"

definition note_char :: "startup_block \<Rightarrow> uchar \<Rightarrow> startup_block" where
  "note_char b c =
     (let b' = note_match b c in
      if TAIL_CAPACITY < byte_len (sb_text b') then b'\<lparr>sb_text := [], uncertain := True\<rparr> else b')"

definition note_block_output :: "startup_block \<Rightarrow> ustr \<Rightarrow> startup_block" where
  "note_block_output b chunk = foldl note_char b chunk"

definition ready :: "startup_block \<Rightarrow> bool" where
  "ready b \<longleftrightarrow>
     cleared b \<and> \<not> uncertain b \<and> escape b = Esc_Text \<and>
     (case marker b of None \<Rightarrow> False | Some m \<Rightarrow> spaced_words (sb_text b) = m)"

section \<open>A worker's state\<close>

definition STATUS_RUNNING :: ustr where "STATUS_RUNNING = lit ''running''"
definition STATUS_ARCHIVED :: ustr where "STATUS_ARCHIVED = lit ''archived''"
definition STATUS_EXITED :: ustr where "STATUS_EXITED = lit ''exited''"
definition KIND_ORCHESTRATOR :: ustr where "KIND_ORCHESTRATOR = lit ''orchestrator''"
definition KIND_SCOUT :: ustr where "KIND_SCOUT = lit ''scout''"
definition KIND_QUEEN :: ustr where "KIND_QUEEN = lit ''queen''"

record worker_state =
  profile_id :: ustr
  ws_dialect :: dialect
  status :: ustr
  hook :: "verdict option"
  ws_heuristic :: "heuristic option"
  gh :: "verdict option"
  pr_url :: "ustr option"
  override_column :: "ustr option"
  submit_guard :: "verdict option"
  startup_block :: "startup_block option"
  question :: "verdict option"
  tail_text :: ustr
  last_output :: "int option"
  git_fingerprint :: "ustr option"
  spawn_fingerprint :: "ustr option"
  last_git_change :: "int option"
  git_since :: "int option"
  stuck :: "verdict option"
  published :: "(verdict \<times> signal option) option"
  attention_since :: "(reason_code \<times> int) option"
  ws_context_usage :: "context_usage option"
  statusline :: "statusline_usage option"

definition default_state :: worker_state where
  "default_state =
     \<lparr> profile_id = [], ws_dialect = default_dialect, status = STATUS_RUNNING, hook = None,
       ws_heuristic = None, gh = None, pr_url = None, override_column = None, submit_guard = None,
       startup_block = None, question = None, tail_text = [], last_output = None,
       git_fingerprint = None, spawn_fingerprint = None, last_git_change = None, git_since = None,
       stuck = None, published = None, attention_since = None, ws_context_usage = None,
       statusline = None \<rparr>"

definition derive :: "worker_state \<Rightarrow> verdict" where
  "derive s =
     (if status s = STATUS_ARCHIVED
      then (case override_column s of Some c \<Rightarrow> plain c | None \<Rightarrow> plain COL_DONE)
      else case startup_block s of Some b \<Rightarrow> sb_verdict b | None \<Rightarrow>
           case submit_guard s of Some v \<Rightarrow> v | None \<Rightarrow>
           case override_column s of Some c \<Rightarrow> plain c | None \<Rightarrow>
           case question s of Some v \<Rightarrow> v | None \<Rightarrow>
           case hook s of Some v \<Rightarrow> v | None \<Rightarrow>
           case opt_then (ws_heuristic s) strong of Some v \<Rightarrow> v | None \<Rightarrow>
           case gh s of Some v \<Rightarrow> v | None \<Rightarrow>
           if status s = STATUS_EXITED then coded COL_NEEDS_YOU AgentExited
           else case stuck s of Some v \<Rightarrow> v | None \<Rightarrow>
                case opt_then (ws_heuristic s) weak of Some v \<Rightarrow> v | None \<Rightarrow> plain COL_WORKING)"

text \<open>Everything the sources name, from the strongest source to the weakest.\<close>

definition sources :: "worker_state \<Rightarrow> signal list" where
  "sources s =
     List.map_filter (\<lambda>v. opt_then v vd_signal)
       [map_option sb_verdict (startup_block s), submit_guard s, question s, hook s, gh s, stuck s] @
     (case opt_then (ws_heuristic s) heuristic_signal of None \<Rightarrow> [] | Some g \<Rightarrow> [g]) @
     (if status s = STATUS_EXITED then [new_signal AgentExited] else [])"

fun retain_first :: "reason_code list \<Rightarrow> signal list \<Rightarrow> signal list" where
  "retain_first seen [] = []"
| "retain_first seen (g # gs) =
     (if sig_code g \<in> set seen then retain_first seen gs
      else g # retain_first (seen @ [sig_code g]) gs)"

definition signals :: "worker_state \<Rightarrow> signal list" where
  "signals s = sort_key (\<lambda>g. grade_rank (sig_grade g)) (retain_first [] (sources s))"

definition attention :: "worker_state \<Rightarrow> signal option" where
  "attention s = list_next (signals s)"

definition push_output :: "ustr \<Rightarrow> worker_state \<Rightarrow> worker_state" where
  "push_output chunk s =
     (let t = tail_text s @ chunk; len = length t in
      s\<lparr>tail_text := (if TAIL_CAPACITY < len then drop (len - TAIL_CAPACITY) t else t)\<rparr>)"

definition MAX_LINE :: nat where "MAX_LINE = 80"

definition last_visible_line :: "ustr \<Rightarrow> ustr option" where
  "last_visible_line tail' =
     opt_then
       (find (\<lambda>l. l \<noteq> [])
         (map (\<lambda>l. trim (filter (\<lambda>c. \<not> is_control c) l)) (rev (str_lines (strip_ansi tail'))))) (\<lambda>l.
     if length l \<le> MAX_LINE then Some l else Some (take MAX_LINE l @ [8230]))"

definition stuck_reason :: "int \<Rightarrow> ustr \<Rightarrow> ustr" where
  "stuck_reason after' tail' =
     (let minutes = decimal (nat (max (after' div 1000 div 60) 1));
          start = lit ''kein Output und keine Datei'' @ a_umlaut @ lit ''nderung seit mindestens '' @
            minutes @ lit '' min '' @ [8212] @ lit '' vermutlich festgefahren''
      in
      case last_visible_line tail' of
        Some l \<Rightarrow> start @ lit '' (zuletzt: '' @ l @ lit '')''
      | None \<Rightarrow> start)"

section \<open>The engine\<close>

record status_payload =
  worker_id :: ustr
  sp_column :: ustr
  attention_reason :: "ustr option"
  attention_code :: "ustr option"
  attention_grade :: "grade option"
  attention_observed_at :: "int option"

datatype engine_event =
  Published status_payload
| Gate_Started ustr
| Critic_Started ustr
| Quota_Blocked ustr ustr
| Quota_Ok_Unless ustr ustr

record status_engine =
  workers :: "ustr \<Rightarrow> worker_state option"
  has_sink :: bool
  has_quota :: bool
  dialects :: "ustr \<Rightarrow> dialect option"
  has_store :: bool
  has_app :: bool
  idle_after :: int
  stuck_after :: int
  events :: "engine_event list"

definition new_engine :: "int \<Rightarrow> status_engine" where
  "new_engine idle =
     \<lparr> workers = \<lambda>_. None, has_sink = False, has_quota = False, dialects = \<lambda>_. None,
       has_store = False, has_app = False, idle_after = idle, stuck_after = STUCK_AFTER,
       events = [] \<rparr>"

definition set_stuck_after :: "int \<Rightarrow> status_engine \<Rightarrow> status_engine" where
  "set_stuck_after d e = (if d \<le> idle_after e then e else e\<lparr>stuck_after := d\<rparr>)"

definition state_of :: "status_engine \<Rightarrow> ustr \<Rightarrow> worker_state" where
  "state_of e i = (case workers e i of None \<Rightarrow> default_state | Some s \<Rightarrow> s)"

text \<open>The part of \<open>update\<close> under the lock: when the visible attention first appeared.\<close>

definition stamp_attention :: "int \<Rightarrow> worker_state \<Rightarrow> int option \<times> worker_state" where
  "stamp_attention unix s =
     (case attention s of
        None \<Rightarrow> (None, s\<lparr>attention_since := None\<rparr>)
      | Some g \<Rightarrow>
          (case attention_since s of
             Some (c, at) \<Rightarrow>
               if c = sig_code g then (Some at, s)
               else (Some unix, s\<lparr>attention_since := Some (sig_code g, unix)\<rparr>)
           | None \<Rightarrow> (Some unix, s\<lparr>attention_since := Some (sig_code g, unix)\<rparr>)))"

definition payload_of :: "ustr \<Rightarrow> verdict \<Rightarrow> signal option \<Rightarrow> int option \<Rightarrow> status_payload" where
  "payload_of i v att at =
     \<lparr> worker_id = i, sp_column = column v, attention_reason = reason v,
       attention_code = map_option (\<lambda>g. code (sig_code g)) att,
       attention_grade = map_option sig_grade att, attention_observed_at = at \<rparr>"

definition announce ::
  "status_engine \<Rightarrow> ustr \<Rightarrow> verdict \<Rightarrow> signal option \<Rightarrow> int option \<Rightarrow> bool \<Rightarrow> engine_event list" where
  "announce e i v att at column_changed =
     (if column_changed \<and> column v = COL_IN_REVIEW \<and> has_store e then [Gate_Started i] else []) @
     (if column_changed \<and> column v = COL_DONE \<and> has_store e \<and> has_app e then [Critic_Started i] else []) @
     (if has_sink e then [Published (payload_of i v att at)] else [])"

definition update ::
  "int \<Rightarrow> ustr \<Rightarrow> (worker_state \<Rightarrow> worker_state) \<Rightarrow> status_engine \<Rightarrow> status_engine" where
  "update unix i edit e =
     (let s = edit (state_of e i);
          v = derive s;
          att = attention s;
          (at, s) = stamp_attention unix s
      in
      if published s = Some (v, att)
      then e\<lparr>workers := (workers e)(i \<mapsto> s)\<rparr>
      else
        let column_changed = (case published s of Some (old, _) \<Rightarrow> column old \<noteq> column v | None \<Rightarrow> True)
        in e\<lparr>workers := (workers e)(i \<mapsto> s\<lparr>published := Some (v, att)\<rparr>),
             events := events e @ announce e i v att at column_changed\<rparr>)"

subsection \<open>Facts about a worker\<close>

text \<open>The row of a worker.\<close>

record worker =
  wk_id :: ustr
  wk_project_id :: ustr
  wk_task :: ustr
  wk_profile_id :: ustr
  wk_branch :: ustr
  wk_worktree_path :: ustr
  wk_session_id :: "ustr option"
  wk_status :: ustr
  wk_kind :: ustr
  wk_pr_url :: "ustr option"
  wk_spawned_by :: "ustr option"
  wk_test_status :: "ustr option"
  wk_tested_at :: "int option"
  wk_paused_reason :: "ustr option"
  wk_created_at :: int

definition take_status :: "worker \<Rightarrow> worker_state \<Rightarrow> worker_state" where
  "take_status w s =
     (if status s = wk_status w then s
      else
        let restarted = (status s \<noteq> STATUS_RUNNING \<and> wk_status w = STATUS_RUNNING);
            s = s\<lparr>status := wk_status w, override_column := None, submit_guard := None,
                  startup_block := None\<rparr>;
            s = (if wk_status w = STATUS_EXITED then s\<lparr>hook := None\<rparr> else s)
        in
        if restarted
        then s\<lparr>git_fingerprint := None, spawn_fingerprint := None, last_git_change := None,
               git_since := None, stuck := None\<rparr>
        else s)"

definition observe_edit :: "int \<Rightarrow> dialect \<Rightarrow> worker \<Rightarrow> worker_state \<Rightarrow> worker_state" where
  "observe_edit now d w s =
     (let s = take_status w (s\<lparr>profile_id := wk_profile_id w, ws_dialect := d\<rparr>);
          s = (if wk_pr_url w \<noteq> None then s\<lparr>pr_url := wk_pr_url w\<rparr> else s)
      in
      if last_output s = None \<and> wk_status w = STATUS_RUNNING then s\<lparr>last_output := Some now\<rparr> else s)"

definition observe_worker :: "int \<Rightarrow> int \<Rightarrow> worker \<Rightarrow> status_engine \<Rightarrow> status_engine" where
  "observe_worker unix now w e =
     (let d = (case dialects e (wk_profile_id w) of None \<Rightarrow> default_dialect | Some d \<Rightarrow> d) in
      update unix (wk_id w) (observe_edit now d w) e)"

definition forget_worker :: "ustr \<Rightarrow> status_engine \<Rightarrow> status_engine" where
  "forget_worker i e = e\<lparr>workers := (workers e)(i := None)\<rparr>"

subsection \<open>Output\<close>

definition note_output_edit :: "text_platform \<Rightarrow> int \<Rightarrow> ustr \<Rightarrow> worker_state \<Rightarrow> worker_state" where
  "note_output_edit pf at chunk s =
     (let s = (push_output chunk s)\<lparr>last_output := Some at\<rparr>;
          s = (case startup_block s of
                 Some b \<Rightarrow> s\<lparr>startup_block := Some (note_block_output b chunk)\<rparr>
               | None \<Rightarrow> s\<lparr>submit_guard := None\<rparr>);
          s = s\<lparr>stuck := None\<rparr>;
          s = (case parse_context_usage pf (tail_text s) (context_labels (ws_dialect s)) of
                 None \<Rightarrow> s | Some u \<Rightarrow> s\<lparr>ws_context_usage := Some u\<rparr>)
      in
      case classify_output pf (ws_dialect s) (tail_text s) of
        None \<Rightarrow> s
      | Some h \<Rightarrow>
          (if is_definitive h then s\<lparr>override_column := None\<rparr> else s)\<lparr>ws_heuristic := Some h\<rparr>)"

text \<open>What the quota tracker is told, decided on the state the edit leaves behind.\<close>

definition REASON_PREFIX :: ustr where "REASON_PREFIX = lit ''Budget: ''"

definition quota_events :: "text_platform \<Rightarrow> worker_state \<Rightarrow> engine_event list" where
  "quota_events pf s =
     (if profile_id s = [] then []
      else
        case classify_output pf (ws_dialect s) (tail_text s) of
          Some Quota \<Rightarrow>
            [Quota_Blocked (profile_id s)
               (case quota_line pf (ws_dialect s) (tail_text s) of
                  None \<Rightarrow> lit ''quota or rate limit reached'' | Some l \<Rightarrow> l)]
        | Some Activity \<Rightarrow> [Quota_Ok_Unless (profile_id s) REASON_PREFIX]
        | _ \<Rightarrow> [])"

definition note_output_at ::
  "text_platform \<Rightarrow> int \<Rightarrow> ustr \<Rightarrow> ustr \<Rightarrow> int \<Rightarrow> status_engine \<Rightarrow> status_engine" where
  "note_output_at pf unix i chunk at e =
     (let s = note_output_edit pf at chunk (state_of e i);
          e = update unix i (note_output_edit pf at chunk) e
      in if has_quota e then e\<lparr>events := events e @ quota_events pf s\<rparr> else e)"

subsection \<open>Other observations\<close>

definition git_edit :: "ustr \<Rightarrow> int \<Rightarrow> worker_state \<Rightarrow> worker_state" where
  "git_edit fingerprint at s =
     (if git_fingerprint s = None
      then s\<lparr>spawn_fingerprint := Some fingerprint, git_since := Some at,
             git_fingerprint := Some fingerprint\<rparr>
      else if git_fingerprint s \<noteq> Some fingerprint
      then s\<lparr>last_git_change := Some at, stuck := None, git_fingerprint := Some fingerprint\<rparr>
      else s\<lparr>git_fingerprint := Some fingerprint\<rparr>)"

definition note_git_activity_at :: "int \<Rightarrow> ustr \<Rightarrow> ustr \<Rightarrow> int \<Rightarrow> status_engine \<Rightarrow> status_engine" where
  "note_git_activity_at unix i fingerprint at e = update unix i (git_edit fingerprint at) e"

definition note_submit_guard_failed :: "int \<Rightarrow> ustr \<Rightarrow> status_engine \<Rightarrow> status_engine" where
  "note_submit_guard_failed unix i e =
     update unix i
       (\<lambda>s. if status s = STATUS_RUNNING
            then s\<lparr>submit_guard := Some (coded COL_NEEDS_YOU DeliveryFailed)\<rparr> else s) e"

definition note_startup_blocked ::
  "ustr option \<Rightarrow> int \<Rightarrow> ustr \<Rightarrow> blocking_dialog \<Rightarrow> status_engine \<Rightarrow> status_engine" where
  "note_startup_blocked codex_marker unix i cause e =
     update unix i
       (\<lambda>s. if status s = STATUS_RUNNING
            then s\<lparr>startup_block := Some (new_startup_block codex_marker (blocked_message cause) (Some cause))\<rparr>
            else s) e"

definition note_submit_guard ::
  "ustr option \<Rightarrow> int \<Rightarrow> ustr \<Rightarrow> ustr option \<Rightarrow> status_engine \<Rightarrow> status_engine" where
  "note_submit_guard codex_marker unix i detail e =
     update unix i
       (\<lambda>s. if status s = STATUS_RUNNING
            then (case detail of
                    Some d \<Rightarrow> s\<lparr>startup_block := Some (new_startup_block codex_marker d None)\<rparr>
                  | None \<Rightarrow> s\<lparr>startup_block := None, submit_guard := None\<rparr>)
            else s) e"

definition note_question :: "int \<Rightarrow> ustr \<Rightarrow> ustr \<Rightarrow> status_engine \<Rightarrow> status_engine" where
  "note_question unix i why e =
     update unix i (\<lambda>s. s\<lparr>question := Some (coded_with COL_NEEDS_YOU DecisionPending why)\<rparr>) e"

definition clear_question :: "int \<Rightarrow> ustr \<Rightarrow> status_engine \<Rightarrow> status_engine" where
  "clear_question unix i e = update unix i (\<lambda>s. s\<lparr>question := None\<rparr>) e"

text \<open>The verdict of a hook event; \<open>None\<close> is an event the engine does not know.\<close>

definition hook_verdict :: "ustr \<Rightarrow> ustr option \<Rightarrow> verdict option option" where
  "hook_verdict event msg =
     (let m = opt_filter (\<lambda>m. m \<noteq> []) (map_option trim msg);
          attending = (\<lambda>c. case m of Some d \<Rightarrow> coded_with COL_NEEDS_YOU c d | None \<Rightarrow> coded COL_NEEDS_YOU c)
      in
      if event = lit ''SessionStart'' then Some (Some (plain COL_WORKING))
      else if event = lit ''Notification'' then Some (Some (attending AgentReported))
      else if event = lit ''PermissionRequest'' then Some (Some (attending ApprovalRequired))
      else if event = lit ''Stop'' \<or> event = lit ''SubagentStop'' then Some None
      else None)"

definition note_hook :: "int \<Rightarrow> ustr \<Rightarrow> ustr \<Rightarrow> ustr option \<Rightarrow> status_engine \<Rightarrow> status_engine" where
  "note_hook unix i event msg e =
     (case hook_verdict event msg of
        None \<Rightarrow> e
      | Some v \<Rightarrow> update unix i (\<lambda>s. s\<lparr>override_column := None, hook := v\<rparr>) e)"

definition note_gh :: "int \<Rightarrow> ustr \<Rightarrow> verdict option \<Rightarrow> ustr option \<Rightarrow> status_engine \<Rightarrow> status_engine" where
  "note_gh unix i v url e =
     update unix i
       (\<lambda>s. (if gh s \<noteq> v \<or> pr_url s \<noteq> url then s\<lparr>override_column := None\<rparr> else s)
            \<lparr>gh := v, pr_url := url\<rparr>) e"

definition set_override ::
  "int \<Rightarrow> ustr \<Rightarrow> ustr option \<Rightarrow> status_engine \<Rightarrow> (ustr + unit) \<times> status_engine" where
  "set_override unix i name e =
     (case name of
        None \<Rightarrow> (Ok (), update unix i (\<lambda>s. s\<lparr>override_column := None\<rparr>) e)
      | Some n \<Rightarrow>
          (case column_const n of
             None \<Rightarrow> (Err (lit ''unknown board column: '' @ n), e)
           | Some c \<Rightarrow> (Ok (), update unix i (\<lambda>s. s\<lparr>override_column := Some c\<rparr>) e)))"

subsection \<open>The timer\<close>

definition READY_IDLE_AFTER :: int where "READY_IDLE_AFTER = 3000"

definition quiet_for :: "int \<Rightarrow> int option \<Rightarrow> int \<Rightarrow> bool" where
  "quiet_for now since threshold =
     (case since of None \<Rightarrow> False | Some last' \<Rightarrow> threshold \<le> max 0 (now - last'))"

definition tick_edit :: "int \<Rightarrow> int \<Rightarrow> int \<Rightarrow> worker_state \<Rightarrow> worker_state" where
  "tick_edit idle stuck' now s =
     (if status s \<noteq> STATUS_RUNNING then s
      else
        let s = (if quiet_for now (last_output s) READY_IDLE_AFTER \<and>
                    (case startup_block s of None \<Rightarrow> False | Some b \<Rightarrow> ready b)
                 then s\<lparr>startup_block := None\<rparr> else s);
            quiet = quiet_for now (last_output s) idle;
            firm = (case ws_heuristic s of None \<Rightarrow> False | Some h \<Rightarrow> is_definitive h);
            s = (if quiet \<and> \<not> firm then s\<lparr>ws_heuristic := Some Idle\<rparr> else s);
            git_quiet = quiet_for now (or_else (last_git_change s) (git_since s)) stuck'
        in
        if quiet_for now (last_output s) stuck' \<and> git_quiet \<and> \<not> firm
        then s\<lparr>stuck := Some (coded_with COL_NEEDS_YOU AgentStalled (stuck_reason stuck' (tail_text s)))\<rparr>
        else s)"

text \<open>\<open>ids\<close> lists the keys in the order of the hash map, \<open>unix\<close> reads the clock per worker.\<close>

definition tick_at :: "(nat \<Rightarrow> int) \<Rightarrow> ustr list \<Rightarrow> int \<Rightarrow> status_engine \<Rightarrow> status_engine" where
  "tick_at unix ids now e =
     (let idle = idle_after e; stuck' = stuck_after e in
      foldl (\<lambda>e (k, i). update (unix k) i (tick_edit idle stuck' now) e) e (enumerate 0 ids))"

subsection \<open>Reading\<close>

definition column_of :: "status_engine \<Rightarrow> ustr \<Rightarrow> ustr option" where
  "column_of e i = map_option (\<lambda>s. column (derive s)) (workers e i)"

definition git_fingerprints :: "status_engine \<Rightarrow> ustr \<Rightarrow> ustr option \<times> ustr option" where
  "git_fingerprints e i =
     (case workers e i of None \<Rightarrow> (None, None) | Some s \<Rightarrow> (spawn_fingerprint s, git_fingerprint s))"

definition activity_ages :: "status_engine \<Rightarrow> ustr \<Rightarrow> int \<Rightarrow> int option \<times> int option" where
  "activity_ages e i now =
     (case workers e i of
        None \<Rightarrow> (None, None)
      | Some s \<Rightarrow>
          (map_option (\<lambda>at. max 0 (now - at)) (last_output s),
           map_option (\<lambda>at. max 0 (now - at)) (or_else (last_git_change s) (git_since s))))"

definition note_statusline_at ::
  "'f float_reader \<Rightarrow> ustr \<Rightarrow> ustr \<Rightarrow> int \<Rightarrow> status_engine \<Rightarrow> status_engine" where
  "note_statusline_at fl i payload at e =
     (case parse_statusline fl payload at of
        None \<Rightarrow> e
      | Some usage \<Rightarrow>
          let s = state_of e i in
          e\<lparr>workers := (workers e)(i \<mapsto>
              s\<lparr>statusline := Some (case statusline s of
                                      Some previous \<Rightarrow> merge_statusline previous usage
                                    | None \<Rightarrow> usage)\<rparr>)\<rparr>)"

text \<open>\<open>max_by_key\<close> keeps the last of several maxima.\<close>

fun max_by_time :: "statusline_usage list \<Rightarrow> statusline_usage option" where
  "max_by_time [] = None"
| "max_by_time (u # us) =
     Some (fold (\<lambda>u best. if su_observed_at best \<le> su_observed_at u then u else best) us u)"

definition provider_usage :: "status_engine \<Rightarrow> ustr list \<Rightarrow> ustr \<Rightarrow> statusline_usage option" where
  "provider_usage e ids provider =
     max_by_time
       (List.map_filter (\<lambda>i. opt_then (workers e i) (\<lambda>s. if profile_id s = provider then statusline s else None))
         ids)"

section \<open>The board\<close>

record controller =
  ct_worker_id :: ustr
  ct_kind :: ustr
  ct_label :: ustr

record coordinator_info =
  ci_worker_id :: ustr
  ci_kind :: ustr
  ci_label :: ustr
  ci_status :: ustr
  ci_session_id :: "ustr option"

record worker_board_state =
  bs_column :: ustr
  bs_attention_reason :: "ustr option"
  bs_attention_code :: "ustr option"
  bs_attention_grade :: "grade option"
  bs_attention_observed_at :: "int option"
  bs_pr_url :: "ustr option"
  bs_context_usage :: "context_usage option"
  bs_controlled_by :: "controller option"
  bs_test_status :: "ustr option"
  bs_tested_at :: "int option"
  bs_observed_model :: "ustr option"
  bs_worker :: worker

definition LABEL_MAX_CHARS :: nat where "LABEL_MAX_CHARS = 40"

definition short_label :: "ustr \<Rightarrow> ustr" where
  "short_label task =
     (let line = trim (case list_next (str_lines task) of None \<Rightarrow> [] | Some l \<Rightarrow> l) in
      if length line \<le> LABEL_MAX_CHARS then line else take LABEL_MAX_CHARS line @ [8230])"

definition worker_label :: "worker \<Rightarrow> ustr" where
  "worker_label w =
     (if wk_kind w = KIND_ORCHESTRATOR then lit ''Orchestrator''
      else if wk_kind w = KIND_QUEEN
      then short_label (case strip_prefix (lit ''Queen: '') (wk_task w) of None \<Rightarrow> wk_task w | Some t \<Rightarrow> t)
      else short_label (wk_task w))"

definition controlled_by :: "worker \<Rightarrow> worker list \<Rightarrow> controller option" where
  "controlled_by w all =
     opt_then (wk_spawned_by w) (\<lambda>by'.
     opt_then (find (\<lambda>c. wk_id c = by') all) (\<lambda>c.
     Some \<lparr> ct_worker_id = wk_id c, ct_kind = wk_kind c, ct_label = worker_label c \<rparr>))"

definition coordinators :: "worker list \<Rightarrow> coordinator_info list" where
  "coordinators all =
     map (\<lambda>w. \<lparr> ci_worker_id = wk_id w, ci_kind = wk_kind w, ci_label = worker_label w,
                ci_status = wk_status w, ci_session_id = wk_session_id w \<rparr>)
       (filter (\<lambda>w. wk_kind w \<in> {KIND_ORCHESTRATOR, KIND_QUEEN, KIND_SCOUT} \<and>
                    wk_status w \<noteq> STATUS_ARCHIVED) all)"

definition board_row :: "status_engine \<Rightarrow> worker list \<Rightarrow> worker \<Rightarrow> worker_board_state" where
  "board_row e all w =
     (let st = workers e (wk_id w);
          v = (case st of None \<Rightarrow> plain COL_WORKING | Some s \<Rightarrow> derive s);
          att = opt_then st attention
      in
      \<lparr> bs_column = column v, bs_attention_reason = reason v,
        bs_attention_code = map_option (\<lambda>g. code (sig_code g)) att,
        bs_attention_grade = map_option sig_grade att,
        bs_attention_observed_at =
          opt_then att (\<lambda>g. opt_then st (\<lambda>s. opt_then (attention_since s) (\<lambda>(c, at).
            if c = sig_code g then Some at else None))),
        bs_pr_url = or_else (opt_then st pr_url) (wk_pr_url w),
        bs_context_usage = opt_then st ws_context_usage,
        bs_controlled_by = controlled_by w all,
        bs_test_status = wk_test_status w, bs_tested_at = wk_tested_at w,
        bs_observed_model = opt_then (opt_then st statusline) su_model,
        bs_worker = w \<rparr>)"

definition board ::
  "(nat \<Rightarrow> int \<times> int) \<Rightarrow> worker list \<Rightarrow> status_engine \<Rightarrow> worker_board_state list \<times> status_engine" where
  "board clock ws e =
     (let e = foldl (\<lambda>e (k, w). observe_worker (fst (clock k)) (snd (clock k)) w e) e (enumerate 0 ws)
      in (map (board_row e ws) ws, e))"

section \<open>No blocker is hidden\<close>

lemma retain_first_sub: "set (retain_first seen gs) \<subseteq> set gs"
  by (induction seen gs rule: retain_first.induct) auto

lemma retain_first_codes:
  "sig_code ` set (retain_first seen gs) = sig_code ` set gs - set seen"
  by (induction seen gs rule: retain_first.induct) auto

lemma retain_first_distinct: "distinct (map sig_code (retain_first seen gs))"
proof (induction seen gs rule: retain_first.induct)
  case (2 seen g gs)
  have "sig_code g \<notin> set (map sig_code (retain_first (seen @ [sig_code g]) gs))"
    using retain_first_codes [of "seen @ [sig_code g]" gs] by auto
  with 2 show ?case by auto
qed simp

lemma signals_codes: "set (map sig_code (signals s)) = set (map sig_code (sources s))"
  using retain_first_codes [of "[]" "sources s"] by (simp add: signals_def)

lemma signals_distinct: "distinct (map sig_code (signals s))"
proof -
  have "distinct (map sig_code (sort_key k gs)) \<longleftrightarrow> distinct (map sig_code gs)" for k :: "signal \<Rightarrow> nat" and gs
    by (simp add: distinct_map)
  then show ?thesis by (simp add: signals_def retain_first_distinct)
qed

lemma attention_worst:
  "case attention s of
     None \<Rightarrow> sources s = []
   | Some g \<Rightarrow> g \<in> set (sources s) \<and>
       list_all (\<lambda>g'. grade_rank (sig_grade g) \<le> grade_rank (sig_grade g')) (sources s)"
proof (cases "signals s")
  case Nil
  then have "sources s = []" using signals_codes [of s] by simp
  with Nil show ?thesis by (simp add: attention_def list_next_def)
next
  case (Cons g gs)
  have "g \<in> set (sources s)"
    using Cons retain_first_sub [of "[]" "sources s"] unfolding signals_def
    by (metis list.set_intros(1) set_sort subsetD)
  moreover have least: "\<forall>h \<in> set (signals s). grade_rank (sig_grade g) \<le> grade_rank (sig_grade h)"
    using sorted_sort_key [of "\<lambda>g. grade_rank (sig_grade g)" "retain_first [] (sources s)"]
    using Cons unfolding signals_def by auto
  have "grade_rank (sig_grade g) \<le> grade_rank (sig_grade g')" if "g' \<in> set (sources s)" for g'
  proof -
    from that have "sig_code g' \<in> set (map sig_code (signals s))"
      unfolding signals_codes by simp
    then obtain h where "h \<in> set (signals s)" "sig_code h = sig_code g'" by auto
    with least show ?thesis by (auto simp: sig_grade_def)
  qed
  ultimately show ?thesis
    using Cons by (simp add: attention_def list_next_def list_all_iff)
qed

text \<open>No blocker is hidden.  The attention of a worker is one of the signals its sources
  name, and none of them blocks harder; there is no attention exactly when no source names a
  reason.  The list of signals has each reason once, all of them, the hardest first; and
  neither a column pinned by hand nor putting a running worker away changes any of it.\<close>

theorem attention_is_the_worst_source:
  "(case attention s of
      None \<Rightarrow> sources s = []
    | Some g \<Rightarrow> g \<in> set (sources s) \<and>
        list_all (\<lambda>g'. grade_rank (sig_grade g) \<le> grade_rank (sig_grade g')) (sources s)) \<and>
   distinct (map sig_code (signals s)) \<and>
   set (map sig_code (signals s)) = set (map sig_code (sources s)) \<and>
   sorted (map (\<lambda>g. grade_rank (sig_grade g)) (signals s)) \<and>
   signals (s\<lparr>override_column := c\<rparr>) = signals s \<and>
   signals (s\<lparr>status := STATUS_ARCHIVED\<rparr>) = signals (s\<lparr>status := STATUS_RUNNING\<rparr>)"
proof -
  have "sources (s\<lparr>override_column := c\<rparr>) = sources s"
    "sources (s\<lparr>status := STATUS_ARCHIVED\<rparr>) = sources (s\<lparr>status := STATUS_RUNNING\<rparr>)"
    by (simp_all add: sources_def STATUS_ARCHIVED_def STATUS_RUNNING_def STATUS_EXITED_def lit_def)
  then have "signals (s\<lparr>override_column := c\<rparr>) = signals s"
    "signals (s\<lparr>status := STATUS_ARCHIVED\<rparr>) = signals (s\<lparr>status := STATUS_RUNNING\<rparr>)"
    by (simp_all only: signals_def)
  moreover have "sorted (map (\<lambda>g. grade_rank (sig_grade g)) (signals s))"
    by (simp add: signals_def)
  ultimately show ?thesis
    using attention_worst signals_distinct signals_codes by blast
qed

section \<open>What was published is what holds\<close>

lemma derive_ignores [simp]:
  "derive (s\<lparr>attention_since := a\<rparr>) = derive s"
  "derive (s\<lparr>published := p\<rparr>) = derive s"
  "derive (s\<lparr>statusline := u\<rparr>) = derive s"
  by (simp_all add: derive_def cong: option.case_cong)

lemma attention_ignores [simp]:
  "attention (s\<lparr>attention_since := a\<rparr>) = attention s"
  "attention (s\<lparr>published := p\<rparr>) = attention s"
  "attention (s\<lparr>statusline := u\<rparr>) = attention s"
  by (simp_all add: attention_def signals_def sources_def)

text \<open>The calls the rest of the program makes on a running engine.\<close>

datatype engine_call =
  Observe int int worker
| Forget ustr
| Output int ustr ustr int
| Git int ustr ustr int
| Guard_Failed int ustr
| Startup_Blocked int ustr blocking_dialog
| Guard_Detail int ustr "ustr option"
| Ask int ustr ustr
| Answered int ustr
| Hook int ustr ustr "ustr option"
| Gh int ustr "verdict option" "ustr option"
| Pin int ustr "ustr option"
| Tick "nat \<Rightarrow> int" "ustr list" int
| Statusline ustr ustr int
| Stuck_After int

fun after_engine ::
  "text_platform \<Rightarrow> 'f float_reader \<Rightarrow> ustr option \<Rightarrow> status_engine \<Rightarrow> engine_call \<Rightarrow> status_engine" where
  "after_engine pf fl mk e (Observe unix now w) = observe_worker unix now w e"
| "after_engine pf fl mk e (Forget i) = forget_worker i e"
| "after_engine pf fl mk e (Output unix i chunk at) = note_output_at pf unix i chunk at e"
| "after_engine pf fl mk e (Git unix i fp at) = note_git_activity_at unix i fp at e"
| "after_engine pf fl mk e (Guard_Failed unix i) = note_submit_guard_failed unix i e"
| "after_engine pf fl mk e (Startup_Blocked unix i d) = note_startup_blocked mk unix i d e"
| "after_engine pf fl mk e (Guard_Detail unix i d) = note_submit_guard mk unix i d e"
| "after_engine pf fl mk e (Ask unix i why) = note_question unix i why e"
| "after_engine pf fl mk e (Answered unix i) = clear_question unix i e"
| "after_engine pf fl mk e (Hook unix i ev msg) = note_hook unix i ev msg e"
| "after_engine pf fl mk e (Gh unix i v url) = note_gh unix i v url e"
| "after_engine pf fl mk e (Pin unix i c) = snd (set_override unix i c e)"
| "after_engine pf fl mk e (Tick unix ids now) = tick_at unix ids now e"
| "after_engine pf fl mk e (Statusline i payload at) = note_statusline_at fl i payload at e"
| "after_engine pf fl mk e (Stuck_After d) = set_stuck_after d e"

text \<open>No edit touches what the engine remembers of its own announcements, or the usage figures.\<close>

definition own_fields_kept :: "(worker_state \<Rightarrow> worker_state) \<Rightarrow> bool" where
  "own_fields_kept f \<longleftrightarrow>
     (\<forall>s. published (f s) = published s \<and> attention_since (f s) = attention_since s \<and>
          statusline (f s) = statusline s)"

lemma own_fields_kept_edits [simp, intro]:
  "own_fields_kept (observe_edit now d w)"
  "own_fields_kept (git_edit fp at)"
  "own_fields_kept (tick_edit idle stuck' now)"
  "own_fields_kept (note_output_edit pf at chunk)"
  by (simp_all add: own_fields_kept_def observe_edit_def take_status_def git_edit_def tick_edit_def
    note_output_edit_def push_output_def Let_def split: option.split)

text \<open>Whatever the calls keep, kept by \<open>update\<close> with any edit and by the three that bypass it.\<close>

lemma after_engine_invariant:
  assumes update: "\<And>unix i f e. P e \<Longrightarrow> own_fields_kept f \<Longrightarrow> P (update unix i f e)"
    and forget: "\<And>i e. P e \<Longrightarrow> c = Forget i \<Longrightarrow> P (forget_worker i e)"
    and statusline: "\<And>i payload at u e. P e \<Longrightarrow> c = Statusline i payload at \<Longrightarrow> P (e\<lparr>workers := (workers e)(i \<mapsto> (state_of e i)\<lparr>statusline := u\<rparr>)\<rparr>)"
    and quota: "\<And>e s. P e \<Longrightarrow> P (e\<lparr>events := events e @ quota_events pf s\<rparr>)"
    and stuck: "\<And>e d. P e \<Longrightarrow> P (e\<lparr>stuck_after := d\<rparr>)"
    and "P e"
  shows "P (after_engine pf fl mk e c)"
proof (cases c)
  case (Tick unix ids now)
  have "P (foldl (\<lambda>e (k, i). update (unix k) i (tick_edit idle d now) e) e kis)" for idle d kis
    using \<open>P e\<close> by (induction kis arbitrary: e) (auto intro: update)
  with Tick show ?thesis by (simp add: tick_at_def Let_def)
next
  case (Output unix i chunk at)
  then show ?thesis
    using update [OF \<open>P e\<close>] quota by (simp add: note_output_at_def Let_def)
next
  case (Statusline i payload at)
  then show ?thesis
    using \<open>P e\<close> statusline by (simp add: note_statusline_at_def Let_def split: option.split)
qed (use \<open>P e\<close> forget stuck in \<open>auto simp: observe_worker_def note_git_activity_at_def
  note_submit_guard_failed_def note_startup_blocked_def note_submit_guard_def note_question_def
  clear_question_def note_hook_def note_gh_def set_override_def set_stuck_after_def Let_def
  own_fields_kept_def intro!: update split: option.split\<close>)

end
