(* ===== verification/Status_Runs.thy ===== *)
theory Status_Runs
  imports Status_Engine
begin

text \<open>
  What holds of the status engine over every run of calls: the interface was last sent what
  the engine would derive now, and the test gate and the critic start exactly when a
  worker's column is entered.  The calls are those of \<open>Status_Engine\<close>, in any order and with
  any clocks.  Each call is one step: the code changes the state under a lock and
  publishes after it, so that calls of several threads may publish in another order than they
  changed the state; the last lemma shows what the interface then keeps.
\<close>

section \<open>What was published is what holds\<close>

text \<open>The payloads sent about one worker, and the last of them.\<close>

fun payload_for :: "ustr \<Rightarrow> engine_event \<Rightarrow> status_payload option" where
  "payload_for i (Published p) = (if worker_id p = i then Some p else None)"
| "payload_for i _ = None"

definition shown :: "ustr \<Rightarrow> engine_event list \<Rightarrow> status_payload list" where
  "shown i evs = List.map_filter (payload_for i) evs"

definition last_shown :: "ustr \<Rightarrow> engine_event list \<Rightarrow> status_payload option" where
  "last_shown i evs = list_next (rev (shown i evs))"

lemma shown_append [simp]: "shown i (xs @ ys) = shown i xs @ shown i ys"
  by (simp add: shown_def map_filter_def)

lemma shown_quota [simp]: "shown i (quota_events pf s) = []"
  by (auto simp: shown_def map_filter_def quota_events_def split: option.split heuristic.split)

lemma shown_announce:
  "has_sink e \<Longrightarrow>
   shown i (announce e j v att at c) = (if i = j then [payload_of j v att at] else [])"
  by (simp add: shown_def map_filter_def announce_def payload_of_def)

lemma last_shown_append:
  "last_shown i (xs @ ys) = (if shown i ys = [] then last_shown i xs else last_shown i ys)"
  by (cases "shown i ys" rule: rev_cases) (simp_all add: last_shown_def list_next_def)

definition in_step :: "status_engine \<Rightarrow> ustr \<Rightarrow> worker_state \<Rightarrow> bool" where
  "in_step e i s \<longleftrightarrow>
     (case published s of
        None \<Rightarrow> derive s = plain COL_WORKING \<and> attention s = None \<and> attention_since s = None
      | Some (v, att) \<Rightarrow>
          v = derive s \<and> att = attention s \<and>
          map_option fst (attention_since s) = map_option sig_code (attention s) \<and>
          last_shown i (events e) =
            Some (payload_of i (derive s) (attention s) (map_option snd (attention_since s))))"

definition current :: "status_engine \<Rightarrow> bool" where
  "current e \<longleftrightarrow>
     has_sink e \<and> (\<forall>i. case workers e i of None \<Rightarrow> True | Some s \<Rightarrow> in_step e i s)"

lemma current_iff:
  "current e \<longleftrightarrow> has_sink e \<and> (\<forall>i s. workers e i = Some s \<longrightarrow> in_step e i s)"
  by (auto simp: current_def split: option.splits)

lemma in_step_events:
  "last_shown i (events e') = last_shown i (events e) \<Longrightarrow> in_step e' i s = in_step e i s"
  by (simp add: in_step_def split: option.split)

lemma in_step_statusline [simp]:
  "in_step e i (s\<lparr>statusline := u\<rparr>) = in_step e i s"
  by (simp add: in_step_def split: option.split)

lemma in_step_default: "in_step e i default_state"
  by (simp add: in_step_def default_state_def derive_def attention_def signals_def sources_def
    map_filter_def list_next_def STATUS_RUNNING_def STATUS_ARCHIVED_def STATUS_EXITED_def lit_def opt_then_def)

lemma stamp_attention_spec:
  assumes "stamp_attention unix s = (at, s')"
  shows "map_option fst (attention_since s') = map_option sig_code (attention s)"
    and "at = map_option snd (attention_since s')"
    and "derive s' = derive s" and "attention s' = attention s" and "published s' = published s"
    and "map_option fst (attention_since s) = map_option sig_code (attention s) \<Longrightarrow> s' = s"
  using assms unfolding stamp_attention_def
  by (auto split: option.splits if_splits prod.splits)


lemma in_step_since:
  "in_step e i s \<Longrightarrow> published s = Some (v, att) \<Longrightarrow>
   map_option fst (attention_since s) = map_option sig_code att"
  by (simp add: in_step_def)

text \<open>Whatever the edit did: the worker is announced as it is now, nobody else changes.\<close>

lemma update_in_step:
  assumes "has_sink e" and "in_step e i (state_of e i)" and "own_fields_kept f"
  shows "\<exists>s. workers (update unix i f e) = (workers e)(i \<mapsto> s) \<and> in_step (update unix i f e) i s"
proof -
  define s where "s = f (state_of e i)"
  have own: "published s = published (state_of e i)" "attention_since s = attention_since (state_of e i)"
    using assms(3) by (simp_all add: s_def own_fields_kept_def)
  obtain at s' where st: "stamp_attention unix s = (at, s')" by fastforce
  note spec = stamp_attention_spec [OF st]
  show ?thesis
  proof (cases "published s = Some (derive s, attention s)")
    case True
    have "map_option fst (attention_since s) = map_option sig_code (attention s)"
      using in_step_since [OF assms(2)] True own by simp
    then have "s' = s" by (rule spec)
    then have "update unix i f e = e\<lparr>workers := (workers e)(i \<mapsto> s)\<rparr>"
      using st True by (simp add: update_def Let_def s_def)
    moreover have "in_step e i s"
      using assms(2) True own by (simp add: in_step_def)
    moreover have "in_step (e\<lparr>workers := (workers e)(i \<mapsto> s)\<rparr>) i s"
      using calculation(2) by (rule in_step_events [THEN iffD2, rotated]) simp
    ultimately show ?thesis by (intro exI [of _ s]) simp
  next
    case False
    then obtain c where u: "update unix i f e =
       e\<lparr>workers := (workers e)(i \<mapsto> s'\<lparr>published := Some (derive s, attention s)\<rparr>),
         events := events e @ announce e i (derive s) (attention s) at c\<rparr>"
      using st spec(5) by (simp add: update_def Let_def s_def)
    have "in_step (update unix i f e) i (s'\<lparr>published := Some (derive s, attention s)\<rparr>)"
      using spec(1,2,3,4) assms(1)
      by (simp add: in_step_def u last_shown_append shown_announce)
        (simp add: last_shown_def shown_announce list_next_def)
    then show ?thesis
      by (intro exI [of _ "s'\<lparr>published := Some (derive s, attention s)\<rparr>"]) (simp add: u)
  qed
qed

lemma update_shown_other:
  "has_sink e \<Longrightarrow> j \<noteq> i \<Longrightarrow> last_shown j (events (update unix i f e)) = last_shown j (events e)"
  by (simp add: update_def Let_def last_shown_append shown_announce split: prod.split)

lemma update_flags [simp]:
  "has_sink (update unix i f e) = has_sink e"
  "has_store (update unix i f e) = has_store e"
  "has_app (update unix i f e) = has_app e"
  by (simp_all add: update_def Let_def split: prod.split)

lemma current_state_of: "current e \<Longrightarrow> in_step e i (state_of e i)"
  by (cases "workers e i") (simp_all add: current_iff state_of_def in_step_default)

lemma current_keep:
  assumes "current e" and "has_sink e'"
    and known: "\<And>j t. workers e' j = Some t \<Longrightarrow>
        in_step e' j t \<or>
        workers e j = Some t \<and> last_shown j (events e') = last_shown j (events e)"
  shows "current e'"
  unfolding current_iff
proof (intro conjI allI impI)
  fix j t assume "workers e' j = Some t"
  then show "in_step e' j t"
    using known in_step_events assms(1) unfolding current_iff by blast
qed fact

lemma current_put:
  assumes "current e" and w: "workers e' = (workers e)(i \<mapsto> s)" and "in_step e' i s"
    and "has_sink e'" and other: "\<And>j. j \<noteq> i \<Longrightarrow> last_shown j (events e') = last_shown j (events e)"
  shows "current e'"
  using assms(1,4)
proof (rule current_keep)
  fix j t assume t: "workers e' j = Some t"
  show "in_step e' j t \<or>
        workers e j = Some t \<and> last_shown j (events e') = last_shown j (events e)"
  proof (cases "j = i")
    case True
    with t w have "t = s" by simp
    with True assms(3) show ?thesis by simp
  next
    case False
    with t w have "workers e j = Some t" by simp
    with other [OF False] show ?thesis by simp
  qed
qed

lemma current_update:
  assumes "current e" and "own_fields_kept f"
  shows "current (update unix i f e)"
proof -
  have sink: "has_sink e" using assms(1) by (simp add: current_def)
  obtain s where "workers (update unix i f e) = (workers e)(i \<mapsto> s)"
    "in_step (update unix i f e) i s"
    using update_in_step [OF sink current_state_of [OF assms(1)] assms(2)] by blast
  with assms(1) show ?thesis
    by (rule current_put) (simp_all add: sink update_shown_other)
qed

lemma current_after: "current e \<Longrightarrow> current (after_engine pf fl mk e c)"
proof (rule after_engine_invariant [where P = current])
  show "current (forget_worker i e)" if "current e" for i e
    using that by (rule current_keep)
      (use that in \<open>simp_all add: current_def forget_worker_def split: if_splits\<close>)
  show "current (e\<lparr>workers := (workers e)(i \<mapsto> (state_of e i)\<lparr>statusline := u\<rparr>)\<rparr>)"
    if "current e" for i u e
    using that
  proof (rule current_put)
    show "in_step (e\<lparr>workers := (workers e)(i \<mapsto> (state_of e i)\<lparr>statusline := u\<rparr>)\<rparr>) i
        ((state_of e i)\<lparr>statusline := u\<rparr>)"
      using current_state_of [OF that, of i] by (auto simp: in_step_def split: option.splits prod.splits)
  qed (use that in \<open>simp_all add: current_def\<close>)
  show "current (e\<lparr>events := events e @ quota_events pf s\<rparr>)" if "current e" for e s
    using that by (rule current_keep)
      (use that in \<open>simp_all add: current_def last_shown_append\<close>)
  show "current (e\<lparr>stuck_after := d\<rparr>)" if "current e" for e d
    using that by (rule current_keep) (use that in \<open>simp_all add: current_def\<close>)
qed (auto intro: current_update)

interpretation published: machine "after_engine pf fl mk" current for pf fl mk
  by unfold_locales (rule current_after)


text \<open>The engine after set-up: a sink is attached, the rest of the wiring is free.\<close>

definition started_engine ::
  "int \<Rightarrow> bool \<Rightarrow> (ustr \<Rightarrow> dialect option) \<Rightarrow> bool \<Rightarrow> bool \<Rightarrow> status_engine" where
  "started_engine idle quota ds store app =
     (new_engine idle)\<lparr>has_sink := True, has_quota := quota, dialects := ds, has_store := store,
        has_app := app\<rparr>"

lemma current_started: "current (started_engine idle quota ds store app)"
  by (simp add: current_iff started_engine_def new_engine_def)

lemmas current_run = published.inv_run [OF current_started]

text \<open>The board's row of a worker whose state is in step is the payload last sent.\<close>

lemma board_row_in_step:
  assumes "workers e (wk_id w) = Some s" and "in_step e (wk_id w) s" and "published s = Some x"
  shows "\<exists>p. last_shown (wk_id w) (events e) = Some p \<and>
     sp_column p = bs_column (board_row e all w) \<and>
     attention_reason p = bs_attention_reason (board_row e all w) \<and>
     attention_code p = bs_attention_code (board_row e all w) \<and>
     attention_grade p = bs_attention_grade (board_row e all w) \<and>
     attention_observed_at p = bs_attention_observed_at (board_row e all w)"
proof -
  have since: "map_option fst (attention_since s) = map_option sig_code (attention s)"
    and shown: "last_shown (wk_id w) (events e) =
      Some (payload_of (wk_id w) (derive s) (attention s) (map_option snd (attention_since s)))"
    using assms(2,3) by (auto simp: in_step_def split: prod.splits)
  have "opt_then (attention s) (\<lambda>g. opt_then (attention_since s) (\<lambda>(c, at).
            if c = sig_code g then Some at else None)) = map_option snd (attention_since s)"
    using since by (cases "attention s"; cases "attention_since s") auto
  then show ?thesis
    using assms(1) shown by (simp add: board_row_def payload_of_def Let_def)
qed

text \<open>C30: The interface shows what holds.  Whatever calls were made on a started engine, in any
  order and with any clocks, the payload last sent about a worker is what the board would say of it now:
  the same column, reason, code and grade, and the time the visible reason first
  appeared.  A worker never announced has nothing to announce: it is working and
  wants nothing.\<close>

theorem interface_shows_the_state:
  "let e = run (after_engine pf fl mk) (started_engine idle quota ds store app) cs;
       row = board_row e all w
   in
   (case workers e (wk_id w) of
      None \<Rightarrow> True
    | Some s \<Rightarrow>
        (if published s = None
         then bs_column row = COL_WORKING \<and> bs_attention_code row = None
         else
           case last_shown (wk_id w) (events e) of
             None \<Rightarrow> False
           | Some p \<Rightarrow>
               sp_column p = bs_column row \<and> attention_reason p = bs_attention_reason row \<and>
               attention_code p = bs_attention_code row \<and>
               attention_grade p = bs_attention_grade row \<and>
               attention_observed_at p = bs_attention_observed_at row))"
proof -
  define e where "e = run (after_engine pf fl mk) (started_engine idle quota ds store app) cs"
  have current: "current e" unfolding e_def by (rule current_run)
  show ?thesis
  proof (cases "workers e (wk_id w)")
    case (Some s)
    then have s: "in_step e (wk_id w) s" using current by (simp add: current_iff)
    show ?thesis
    proof (cases "published s")
      case None
      with s Some show ?thesis
        unfolding Let_def e_def [symmetric] by (simp add: in_step_def board_row_def Let_def plain_def)
    next
      case (Some x)
      obtain p where "last_shown (wk_id w) (events e) = Some p"
        "sp_column p = bs_column (board_row e all w)"
        "attention_reason p = bs_attention_reason (board_row e all w)"
        "attention_code p = bs_attention_code (board_row e all w)"
        "attention_grade p = bs_attention_grade (board_row e all w)"
        "attention_observed_at p = bs_attention_observed_at (board_row e all w)"
        using board_row_in_step [OF \<open>workers e (wk_id w) = Some s\<close> s Some] by blast
      then show ?thesis
        using Some \<open>workers e (wk_id w) = Some s\<close>
        unfolding Let_def e_def [symmetric] by simp
    qed
  qed (simp add: Let_def e_def [symmetric])
qed


section \<open>Gates follow the columns\<close>

text \<open>How often a sequence of columns enters one.\<close>

fun entries :: "ustr \<Rightarrow> ustr option \<Rightarrow> ustr list \<Rightarrow> nat" where
  "entries c previous [] = 0"
| "entries c previous (x # xs) = (if x = c \<and> previous \<noteq> Some c then 1 else 0) + entries c (Some x) xs"

definition last_column :: "ustr option \<Rightarrow> ustr list \<Rightarrow> ustr option" where
  "last_column previous xs = (if xs = [] then previous else Some (last xs))"

lemma last_column_snoc [simp]: "last_column q (xs @ [x]) = Some x"
  by (simp add: last_column_def)

lemma entries_append:
  "entries c previous (xs @ ys) = entries c previous xs + entries c (last_column previous xs) ys"
  by (induction xs arbitrary: previous) (simp_all add: last_column_def)

definition columns :: "ustr \<Rightarrow> engine_event list \<Rightarrow> ustr list" where
  "columns i evs = map sp_column (shown i evs)"

definition gates_at :: "status_engine \<Rightarrow> ustr \<Rightarrow> bool" where
  "gates_at e i \<longleftrightarrow>
     last_column None (columns i (events e)) =
       map_option (\<lambda>(v, _). column v) (published (state_of e i)) \<and>
     count_list (events e) (Gate_Started i) = entries COL_IN_REVIEW None (columns i (events e)) \<and>
     count_list (events e) (Critic_Started i) = entries COL_DONE None (columns i (events e))"

definition gates_follow :: "status_engine \<Rightarrow> bool" where
  "gates_follow e \<longleftrightarrow> has_sink e \<and> has_store e \<and> has_app e \<and> (\<forall>i. gates_at e i)"

lemma columns_append [simp]: "columns i (xs @ ys) = columns i xs @ columns i ys"
  by (simp add: columns_def)

lemma columns_announce:
  "has_sink e \<Longrightarrow> columns i (announce e j v att at c) = (if i = j then [column v] else [])"
  by (simp add: columns_def shown_announce payload_of_def)

lemma columns_quota [simp]: "columns i (quota_events pf s) = []"
  by (simp add: columns_def)

lemma count_quota [simp]:
  "count_list (quota_events pf s) (Gate_Started i) = 0"
  "count_list (quota_events pf s) (Critic_Started i) = 0"
  by (auto simp: quota_events_def split: option.split heuristic.split)

lemma columns_differ: "COL_DONE \<noteq> COL_IN_REVIEW"
  by (simp add: COL_DONE_def COL_IN_REVIEW_def lit_def)

lemma count_announce:
  assumes "has_store e" and "has_app e"
  shows "count_list (announce e j v att at c) (Gate_Started i) =
           (if i = j \<and> c \<and> column v = COL_IN_REVIEW then 1 else 0)"
    and "count_list (announce e j v att at c) (Critic_Started i) =
           (if i = j \<and> c \<and> column v = COL_DONE then 1 else 0)"
  using assms by (simp_all add: announce_def)

lemma gates_update:
  assumes "gates_follow e" and "own_fields_kept f"
  shows "gates_follow (update unix i f e)"
proof -
  define s where "s = f (state_of e i)"
  have own: "published s = published (state_of e i)"
    using assms(2) by (simp_all add: s_def own_fields_kept_def)
  obtain at s' where st: "stamp_attention unix s = (at, s')" by fastforce
  have wired: "has_sink e" "has_store e" "has_app e"
    using assms(1) by (simp_all add: gates_follow_def)
  show ?thesis
  proof (cases "published s = Some (derive s, attention s)")
    case True
    then have "update unix i f e = e\<lparr>workers := (workers e)(i \<mapsto> s')\<rparr>"
      using st by (simp add: update_def Let_def s_def stamp_attention_spec(5))
    moreover have "published s' = published (state_of e i)"
      using stamp_attention_spec(5) [OF st] own by simp
    ultimately show ?thesis
      using assms(1) by (simp add: gates_follow_def gates_at_def state_of_def)
  next
    case False
    define changed where "changed \<longleftrightarrow>
      (case published s of Some (old, _) \<Rightarrow> column old \<noteq> column (derive s) | None \<Rightarrow> True)"
    have u: "update unix i f e =
       e\<lparr>workers := (workers e)(i \<mapsto> s'\<lparr>published := Some (derive s, attention s)\<rparr>),
         events := events e @ announce e i (derive s) (attention s) at changed\<rparr>"
      using st False stamp_attention_spec(5) [OF st] unfolding changed_def s_def
      by (simp add: update_def Let_def)
    have changed: "changed \<longleftrightarrow> last_column None (columns i (events e)) \<noteq> Some (column (derive s))"
      using assms(1) own by (auto simp: changed_def gates_follow_def gates_at_def split: option.split)
    have at_j: "gates_at e j" for j
      using assms(1) by (simp add: gates_follow_def)
    have new: "gates_at (update unix i f e) j" for j
    proof (cases "j = i")
      case True
      have "count_list (events e) (Gate_Started i) = entries COL_IN_REVIEW None (columns i (events e))"
        "count_list (events e) (Critic_Started i) = entries COL_DONE None (columns i (events e))"
        using at_j [of i] by (simp_all add: gates_at_def)
      with True changed show ?thesis
        by (simp add: gates_at_def u state_of_def columns_announce count_announce entries_append wired)
          (use columns_differ in auto)
    next
      case False
      with at_j [of j] show ?thesis
        by (simp add: gates_at_def u state_of_def columns_announce count_announce wired)
    qed
    show ?thesis
      unfolding gates_follow_def using wired by (intro conjI allI new) simp_all
  qed
qed

definition keeps_workers :: "engine_call \<Rightarrow> bool" where
  "keeps_workers c = (case c of Forget _ \<Rightarrow> False | _ \<Rightarrow> True)"

lemma gates_after:
  assumes "gates_follow e" and "keeps_workers c"
  shows "gates_follow (after_engine pf fl mk e c)"
proof (rule after_engine_invariant [where P = gates_follow])
  show "gates_follow (forget_worker i e)" if "c = Forget i" for i e
    using that assms(2) by (simp add: keeps_workers_def)
  show "gates_follow (e\<lparr>workers := (workers e)(i \<mapsto> (state_of e i)\<lparr>statusline := u\<rparr>)\<rparr>)"
    if "gates_follow e" for i u e
    using that by (simp add: gates_follow_def gates_at_def state_of_def)
  show "gates_follow (e\<lparr>events := events e @ quota_events pf s\<rparr>)" if "gates_follow e" for e s
    using that by (simp add: gates_follow_def gates_at_def state_of_def)
  show "gates_follow (e\<lparr>stuck_after := d\<rparr>)" if "gates_follow e" for e d
    using that by (simp add: gates_follow_def gates_at_def state_of_def)
qed (use assms in \<open>auto intro: gates_update\<close>)

lemma gates_started: "gates_follow (started_engine idle quota ds True True)"
  by (simp add: gates_follow_def gates_at_def started_engine_def new_engine_def columns_def shown_def
    map_filter_def last_column_def state_of_def default_state_def)

lemma gates_run:
  "gates_follow e \<Longrightarrow> list_all keeps_workers cs \<Longrightarrow> gates_follow (run (after_engine pf fl mk) e cs)"
  by (induction cs arbitrary: e) (auto intro: gates_after)

text \<open>The automatic gates follow the board.  On an engine with its store and application attached,
  over any calls that forget no worker, the test gate was started for a worker exactly as
  often as the columns published for it entered \<open>in_review\<close>, and the critic exactly as
  often as they entered \<open>done\<close>: a report that repeats the column, or changes only the
  attention, starts nothing.\<close>

theorem gates_follow_the_columns:
  assumes "list_all keeps_workers cs"
  shows "let e = run (after_engine pf fl mk) (started_engine idle quota ds True True) cs in
     count_list (events e) (Gate_Started i) = entries COL_IN_REVIEW None (columns i (events e)) \<and>
     count_list (events e) (Critic_Started i) = entries COL_DONE None (columns i (events e))"
proof -
  have "gates_follow (run (after_engine pf fl mk) (started_engine idle quota ds True True) cs)"
    by (rule gates_run [OF gates_started assms])
  then show ?thesis by (simp add: gates_follow_def gates_at_def Let_def)
qed

text \<open>The card is moved to review, to work, and to review again: the test gate starts twice.\<close>

definition review_twice :: status_engine where
  "review_twice =
     run (after_engine \<lparr> lowercase = id, scaled_amount = \<lambda>_ _. None \<rparr>
           \<lparr> decode_statusline = \<lambda>_. None, percent_in_range = \<lambda>x::unit. None \<rparr> None)
         (started_engine 30000 False (\<lambda>_. None) True True)
         [Pin 1 (lit ''w'') (Some (lit ''in_review'')), Pin 2 (lit ''w'') (Some (lit ''working'')),
          Pin 3 (lit ''w'') (Some (lit ''in_review''))]"

lemma review_twice_gates: "count_list (events review_twice) (Gate_Started (lit ''w'')) = 2"
  by code_simp

theorem gates_follow_the_columns_witness:
  "count_list (events review_twice) (Gate_Started (lit ''w'')) = 2 \<and>
   count_list (events review_twice) (Gate_Started (lit ''w'')) =
     entries COL_IN_REVIEW None (columns (lit ''w'') (events review_twice)) \<and>
   count_list (events review_twice) (Critic_Started (lit ''w'')) =
     entries COL_DONE None (columns (lit ''w'') (events review_twice))"
  using review_twice_gates unfolding review_twice_def
  by (intro conjI gates_follow_the_columns [unfolded Let_def, THEN conjunct1]
      gates_follow_the_columns [unfolded Let_def, THEN conjunct2]) (simp_all add: keeps_workers_def)


section \<open>The consumption figure\<close>

definition window_of :: "(statusline_usage \<Rightarrow> rate_window_usage option) \<Rightarrow> status_engine \<Rightarrow> ustr \<Rightarrow>
    rate_window_usage option" where
  "window_of w e i = opt_then (workers e i) (\<lambda>s. opt_then (statusline s) w)"

definition figure_not_lowered ::
  "rate_window_usage option \<Rightarrow> rate_window_usage option \<Rightarrow> bool" where
  "figure_not_lowered before after =
     (case (before, after) of
        (Some old, Some new) \<Rightarrow>
          (if rw_resets_at old = rw_resets_at new
           then (case rw_percent old of
                   None \<Rightarrow> True
                 | Some a \<Rightarrow> (case rw_percent new of None \<Rightarrow> False | Some b \<Rightarrow> a \<le> b))
           else True)
      | _ \<Rightarrow> True)"

lemma merge_window_not_lowered: "figure_not_lowered old (merge_window old new)"
  by (auto simp: figure_not_lowered_def merge_window_def or_else_def split: option.split)

lemma figure_refl: "figure_not_lowered w w"
  by (simp add: figure_not_lowered_def split: option.split)

lemma update_put:
  "workers (update unix i f e) =
     (workers e)(i \<mapsto> (snd (stamp_attention unix (f (state_of e i))))
       \<lparr>published := Some (derive (f (state_of e i)), attention (f (state_of e i)))\<rparr>)"
proof -
  obtain at s' where st: "stamp_attention unix (f (state_of e i)) = (at, s')" by fastforce
  show ?thesis
  proof (cases "published s' = Some (derive (f (state_of e i)), attention (f (state_of e i)))")
    case True
    with st show ?thesis by (cases s') (simp add: update_def Let_def)
  qed (use st in \<open>simp add: update_def Let_def\<close>)
qed

lemma stamp_keeps_statusline: "statusline (snd (stamp_attention unix s)) = statusline s"
  by (simp add: stamp_attention_def split: option.split prod.split)

lemma window_update:
  assumes "own_fields_kept f"
  shows "window_of w (update unix i f e) j = window_of w e j"
  using assms
  by (simp add: window_of_def update_put own_fields_kept_def stamp_keeps_statusline)
    (simp add: state_of_def default_state_def split: option.split)

lemma window_note_statusline:
  assumes "w = five_hour \<or> w = seven_day"
  shows "figure_not_lowered (window_of w e j) (window_of w (note_statusline_at fl i payload at e) j)"
  using assms
  by (auto simp: note_statusline_at_def window_of_def Let_def state_of_def default_state_def figure_refl
      merge_statusline_def merge_window_not_lowered split: option.split)
    (simp_all add: figure_not_lowered_def)

lemma window_other_calls:
  assumes "keeps_workers c" and "\<And>i payload at. c \<noteq> Statusline i payload at"
  shows "window_of w (after_engine pf fl mk e c) i = window_of w e i"
proof (rule after_engine_invariant [where P = "\<lambda>e'. window_of w e' i = window_of w e i"])
qed (use assms in \<open>simp_all add: window_update keeps_workers_def\<close>,
  simp_all add: window_of_def)

text \<open>A worker cannot talk its own consumption down.  Whatever status line arrives, for whichever
  worker, a rate window that reports the same reset time as before does not report a lower
  percentage afterwards, nor none: the higher figure stays, in both windows.  No other call touches
  the figures, except forgetting the worker.\<close>

theorem reported_figure_never_falls:
  "let e' = after_engine pf fl mk e c in
   (case c of
      Forget _ \<Rightarrow> True
    | Statusline _ _ _ \<Rightarrow>
        figure_not_lowered (window_of five_hour e i) (window_of five_hour e' i) \<and>
        figure_not_lowered (window_of seven_day e i) (window_of seven_day e' i)
    | _ \<Rightarrow> window_of five_hour e' i = window_of five_hour e i \<and>
        window_of seven_day e' i = window_of seven_day e i)"
proof -
  have "window_of w (after_engine pf fl mk e c) i = window_of w e i"
    if "case c of Forget _ \<Rightarrow> False | Statusline _ _ _ \<Rightarrow> False | _ \<Rightarrow> True" for w
    by (rule window_other_calls) (use that in \<open>auto simp: keeps_workers_def split: engine_call.splits\<close>)
  then show ?thesis
    by (cases c) (simp_all only: Let_def engine_call.case after_engine.simps window_note_statusline
        HOL.simp_thms)
qed

text \<open>A payload that leaves the window out drops the measured figure, and the next payload may
  name a lower one for the same window.\<close>

definition three_reports :: "nat list" where
  "three_reports =
     (let reader = \<lparr> decode_statusline = (\<lambda>raw. Some
                       \<lparr> rate_limits = Some
                           (if raw = [] then None
                            else Some \<lparr> used_percentage = Some (hd raw), resets_at = Some 7 \<rparr>, None),
                         window_texts = (None, None), display_name = None \<rparr>),
                     percent_in_range = (\<lambda>x. Some (of_int x)) \<rparr>;
          calls = [Statusline (lit ''w'') [80] 1, Statusline (lit ''w'') [] 2, Statusline (lit ''w'') [10] 3]
      in
      map (\<lambda>k. case opt_then (window_of five_hour
                 (run (after_engine \<lparr> lowercase = id, scaled_amount = \<lambda>_ _. None \<rparr> reader None)
                    (started_engine 30000 False (\<lambda>_. None) True True) (take k calls)) (lit ''w''))
                 rw_percent of Some p \<Rightarrow> unat p | None \<Rightarrow> 999) [1, 2, 3])"

lemma omitted_window_erases_the_figure: "three_reports = [80, 999, 10]"
  by code_simp

section \<open>Publishing outside the lock\<close>

text \<open>Two moves of a card in a row.  Published in the order of the changes, the interface shows the second;
  when the first thread publishes last, it is left with the first, and the engine sends nothing
  more until something changes again.\<close>

lemma late_publication_shows_the_past:
  "let w = lit ''w'';
       e0 = (new_engine 0)\<lparr>has_sink := True\<rparr>;
       e1 = update 0 w (\<lambda>s. s\<lparr>override_column := Some COL_NEEDS_YOU\<rparr>) e0;
       e2 = update 0 w (\<lambda>s. s\<lparr>override_column := Some COL_IN_REVIEW\<rparr>) e1;
       first = events e1; second = drop (length (events e1)) (events e2)
   in map_option sp_column (last_shown w (first @ second)) = Some COL_IN_REVIEW
    \<and> map_option sp_column (last_shown w (second @ first)) = Some COL_NEEDS_YOU
    \<and> events (update 0 w id e2) = events e2"
  by code_simp

end
