(* ===== verification/Status_Startup.thy ===== *)
theory Status_Startup
  imports Status_Engine
begin

text \<open>
  When a startup block lets go.  The block reads terminal output character by character;
  the specification speaks of the output as a whole: after the last full clear of the
  screen only visible characters, harmless colour sequences and a cursor home before any
  text, and the words on the screen are the readiness marker and nothing else.
\<close>

section \<open>Quiet screens\<close>

text \<open>Graphic rendition codes that hide nothing.\<close>

inductive harmless_codes :: "int option list \<Rightarrow> bool" where
  Nil: "harmless_codes []"
| Reset: "harmless_codes xs \<Longrightarrow> c \<in> {0, 28} \<Longrightarrow> harmless_codes (Some c # xs)"
| Style: "harmless_codes xs \<Longrightarrow> sgr_harmless c \<Longrightarrow> harmless_codes (Some c # xs)"
| Palette: "harmless_codes xs \<Longrightarrow> c \<in> {38, 48, 58} \<Longrightarrow> n \<in> {0..255} \<Longrightarrow>
    harmless_codes (Some c # Some 5 # Some n # xs)"
| Rgb: "harmless_codes xs \<Longrightarrow> c \<in> {38, 48, 58} \<Longrightarrow> r \<in> {0..255} \<Longrightarrow> g \<in> {0..255} \<Longrightarrow>
    b \<in> {0..255} \<Longrightarrow> harmless_codes (Some c # Some 2 # Some r # Some g # Some b # xs)"

definition param_char :: "uchar \<Rightarrow> bool" where
  "param_char c \<longleftrightarrow> is_ascii_digit c \<or> c = 59"

text \<open>The output and the text it leaves on the screen.\<close>

inductive quiet_screen :: "ustr \<Rightarrow> ustr \<Rightarrow> bool" where
  Blank: "quiet_screen [] []"
| Visible: "quiet_screen s t \<Longrightarrow> \<not> is_control c \<Longrightarrow> quiet_screen (s @ [c]) (t @ [c])"
| Home: "quiet_screen s t \<Longrightarrow> trim t = [] \<Longrightarrow> quiet_screen (s @ [27, 91, 72]) t"
| Colour: "quiet_screen s t \<Longrightarrow> list_all param_char ps \<Longrightarrow> length ps \<le> 32 \<Longrightarrow>
    harmless_codes (map sgr_code (split_char 59 ps)) \<Longrightarrow> quiet_screen (s @ [27, 91] @ ps @ [109]) t"

text \<open>About to clear the whole screen, with nothing concealed.\<close>

definition at_clear :: "startup_block \<Rightarrow> bool" where
  "at_clear b \<longleftrightarrow> escape b = Csi \<and> sequence b = [50] \<and> \<not> concealed b"

section \<open>Graphic rendition\<close>

inductive_cases harmless_NilE: "harmless_codes []"
inductive_cases harmless_ConsE: "harmless_codes (x # xs)"

lemma sgr_harmless_not:
  "sgr_harmless c \<Longrightarrow> c \<noteq> 0 \<and> c \<noteq> 28 \<and> c \<noteq> 8 \<and> c \<noteq> 38 \<and> c \<noteq> 48 \<and> c \<noteq> 58"
  by (auto simp: sgr_harmless_def)

declare sgr_codes.simps(2) [simp del]

lemma sgr_reset: "c \<in> {0, 28} \<Longrightarrow> sgr_codes (Some c # xs) (con, unc) = sgr_codes xs (False, unc)"
  by (subst sgr_codes.simps(2)) auto

lemma sgr_style: "sgr_harmless c \<Longrightarrow> sgr_codes (Some c # xs) (con, unc) = sgr_codes xs (con, unc)"
  using sgr_harmless_not [of c] by (subst sgr_codes.simps(2)) simp

lemma sgr_palette:
  "c \<in> {38, 48, 58} \<Longrightarrow> n \<in> {0..255} \<Longrightarrow>
   sgr_codes (Some c # Some 5 # Some n # xs) (con, unc) = sgr_codes xs (con, unc)"
  by (subst sgr_codes.simps(2)) auto

lemma sgr_rgb:
  "c \<in> {38, 48, 58} \<Longrightarrow> r \<in> {0..255} \<Longrightarrow> g \<in> {0..255} \<Longrightarrow> b \<in> {0..255} \<Longrightarrow>
   sgr_codes (Some c # Some 2 # Some r # Some g # Some b # xs) (con, unc) = sgr_codes xs (con, unc)"
  by (subst sgr_codes.simps(2)) (auto simp: numeral_3_eq_3)

lemmas sgr_steps = sgr_reset sgr_style sgr_palette sgr_rgb

lemma sgr_codes_harmless:
  "harmless_codes xs \<Longrightarrow> sgr_codes xs (False, unc) = (False, unc)"
  by (induction rule: harmless_codes.induct) (simp_all only: sgr_steps sgr_codes.simps(1))

text \<open>One round of the loop: a harmless code, a concealment, or the loop is left uncertain.\<close>

lemma sgr_round:
  obtains (reset) c where "x = Some c" "c \<in> {0, 28}"
  | (style) c where "x = Some c" "sgr_harmless c"
  | (palette) c n ys where "x = Some c" "c \<in> {38, 48, 58}" "n \<in> {0..255}" "xs = Some 5 # Some n # ys"
  | (rgb) c r g b ys where "x = Some c" "c \<in> {38, 48, 58}" "r \<in> {0..255}" "g \<in> {0..255}" "b \<in> {0..255}"
      "xs = Some 2 # Some r # Some g # Some b # ys"
  | (conceal) "\<And>con unc. sgr_codes (x # xs) (con, unc) = sgr_codes xs (True, True)"
  | (leave) "\<And>con unc. sgr_codes (x # xs) (con, unc) = (True, True)"
proof (cases "x \<in> {Some 38, Some 48, Some 58}")
  case False
  consider (r) "x \<in> {Some 0, Some 28}" | (c) "x = Some 8" | (s) c where "x = Some c" "sgr_harmless c"
    | (l) "x \<notin> {Some 0, Some 28, Some 8}" "\<not> (case x of Some c \<Rightarrow> sgr_harmless c | None \<Rightarrow> False)"
    by (cases x) auto
  then show thesis
  proof cases
    case r
    then show thesis using reset by auto
  next
    case c
    then have "sgr_codes (x # xs) (con, unc) = sgr_codes xs (True, True)" for con unc
      by (subst sgr_codes.simps(2)) simp
    then show thesis by (rule conceal)
  next
    case s
    then show thesis by (rule style)
  next
    case l
    with False have "sgr_codes (x # xs) (con, unc) = (True, True)" for con unc
      by (subst sgr_codes.simps(2)) simp
    then show thesis by (rule leave)
  qed
next
  case True
  then obtain c where c: "x = Some c" "c \<in> {38, 48, 58}" by auto
  define k where "k = (case xs of Some k # _ \<Rightarrow> if k = 5 then 1 else if k = 2 then 3 else (0::nat) | _ \<Rightarrow> 0)"
  define args where "args = take k (drop 1 xs)"
  show thesis
  proof (cases "k = 0 \<or> length args \<noteq> k \<or>
      \<not> list_all (\<lambda>a. case a of Some v \<Rightarrow> 0 \<le> v \<and> v \<le> 255 | None \<Rightarrow> False) args")
    case True
    have "sgr_codes (x # xs) (con, unc) = (True, True)" for con unc
      using c True unfolding k_def args_def by (subst sgr_codes.simps(2)) (auto simp: Let_def)
    then show thesis by (rule leave)
  next
    case False
    then have args: "length args = k" "k \<noteq> 0"
      "list_all (\<lambda>a. case a of Some v \<Rightarrow> 0 \<le> v \<and> v \<le> 255 | None \<Rightarrow> False) args" by auto
    from args(2) obtain m zs where xs: "xs = Some m # zs" "m = 5 \<and> k = 1 \<or> m = 2 \<and> k = 3"
      unfolding k_def by (auto split: list.splits option.splits if_splits)
    from xs(2) show thesis
    proof
      assume m: "m = 5 \<and> k = 1"
      with args xs obtain n ys where "zs = Some n # ys" "n \<in> {0..255}"
        unfolding args_def by (cases zs) (auto split: option.splits)
      with c xs m show thesis by (intro palette) auto
    next
      assume m: "m = 2 \<and> k = 3"
      with args xs have "3 \<le> length zs" by (auto simp: args_def)
      then obtain a1 a2 a3 ys where zs: "zs = a1 # a2 # a3 # ys"
        by (cases zs; cases "tl zs"; cases "tl (tl zs)") auto
      with args xs m obtain r g b where "zs = Some r # Some g # Some b # ys"
        "r \<in> {0..255}" "g \<in> {0..255}" "b \<in> {0..255}"
        unfolding args_def by (auto simp: numeral_3_eq_3 split: option.splits)
      with c xs m show thesis by (intro rgb) auto
    qed
  qed
qed


lemma sgr_codes_uncertain: "snd (sgr_codes xs (con, True))"
proof (induction "length xs" arbitrary: xs con rule: less_induct)
  case less
  show ?case
  proof (cases xs)
    case (Cons x zs)
    show ?thesis
      by (rule sgr_round [where x = x and xs = zs]) (use less Cons in \<open>simp_all add: sgr_steps\<close>)
  qed simp
qed

lemma sgr_codes_concealed:
  "(con \<longrightarrow> unc) \<Longrightarrow> fst (sgr_codes xs (con, unc)) \<longrightarrow> snd (sgr_codes xs (con, unc))"
proof (induction "length xs" arbitrary: xs con unc rule: less_induct)
  case less
  show ?case
  proof (cases xs)
    case (Cons x zs)
    show ?thesis
      by (rule sgr_round [where x = x and xs = zs]) (use less Cons in \<open>simp_all add: sgr_steps\<close>)
  qed (use less in simp)
qed

lemma sgr_codes_certain:
  "\<not> snd (sgr_codes xs (con, False)) \<Longrightarrow> harmless_codes xs"
proof (induction "length xs" arbitrary: xs con rule: less_induct)
  case less
  show ?case
  proof (cases xs)
    case (Cons x zs)
    show ?thesis
      by (rule sgr_round [where x = x and xs = zs])
        (use less Cons in \<open>auto simp: sgr_steps sgr_codes_uncertain intro: harmless_codes.intros\<close>)
  qed (simp add: harmless_codes.Nil)
qed

section \<open>Reading character by character\<close>

text \<open>The capacity never bites on text that fits.\<close>

lemma note_block_output_append:
  "note_block_output b (xs @ ys) = note_block_output (note_block_output b xs) ys"
  by (simp add: note_block_output_def)

lemma note_block_output_snoc:
  "note_block_output b (xs @ [c]) = note_char (note_block_output b xs) c"
  by (simp add: note_block_output_def)

lemma byte_len_append [simp]: "byte_len (xs @ ys) = byte_len xs + byte_len ys"
  by (simp add: byte_len_def)


lemma byte_len_ascii: "list_all (\<lambda>c. c < 128) s \<Longrightarrow> byte_len s = length s"
  by (induction s) (simp_all add: byte_len_def utf8_len_def)

definition csi_char :: "uchar \<Rightarrow> bool" where
  "csi_char c \<longleftrightarrow> 32 \<le> c \<and> c \<le> 63"

lemma csi_chars_len: "list_all csi_char s \<Longrightarrow> byte_len s = length s"
  by (rule byte_len_ascii) (auto simp: csi_char_def list_all_iff)

lemma params_csi: "list_all param_char s \<Longrightarrow> list_all csi_char s"
  by (auto simp: csi_char_def param_char_def is_ascii_digit_def list_all_iff)

subsection \<open>A quiet screen is read as its text\<close>

definition quiet_block :: "ustr \<Rightarrow> startup_block \<Rightarrow> bool" where
  "quiet_block t b \<longleftrightarrow>
     sb_text b = t \<and> cleared b \<and> \<not> uncertain b \<and> \<not> concealed b \<and> escape b = Esc_Text \<and>
     byte_len t \<le> TAIL_CAPACITY"

lemma note_clear: "at_clear b \<Longrightarrow> quiet_block [] (note_char b 74)"
  by (simp add: at_clear_def quiet_block_def note_char_def note_match_def csi_final_def byte_len_def Let_def)

lemma note_param:
  assumes "escape b = Csi" and "byte_len (sb_text b) \<le> TAIL_CAPACITY"
    and "csi_char c" and "byte_len (sequence b) < 32"
  shows "note_char b c = b\<lparr>sequence := sequence b @ [c]\<rparr>"
  using assms by (simp add: note_char_def note_match_def csi_char_def Let_def)

lemma note_params:
  assumes "escape b = Csi" and "byte_len (sb_text b) \<le> TAIL_CAPACITY"
    and "list_all csi_char (sequence b @ ps)" and "length (sequence b @ ps) \<le> 32"
  shows "note_block_output b ps = b\<lparr>sequence := sequence b @ ps\<rparr>"
  using assms(3,4)
proof (induction ps rule: rev_induct)
  case (snoc c ps)
  then have "note_block_output b ps = b\<lparr>sequence := sequence b @ ps\<rparr>" by simp
  moreover have "byte_len (sequence b @ ps) < 32"
    using snoc.prems csi_chars_len [of "sequence b @ ps"] by simp
  ultimately show ?case
    using snoc.prems assms(1,2) by (simp add: note_block_output_snoc note_param)
qed (simp add: note_block_output_def)

lemma note_colour:
  assumes "quiet_block t b" and "list_all param_char ps" and "length ps \<le> 32"
    and "harmless_codes (map sgr_code (split_char 59 ps))"
  shows "quiet_block t (note_block_output b ([27, 91] @ ps @ [109]))"
proof -
  define b' where "b' = b\<lparr>escape := Csi, sequence := []\<rparr>"
  have "note_block_output b [27, 91] = b'"
    using assms(1) by (simp add: note_block_output_def note_char_def note_match_def quiet_block_def b'_def Let_def)
  moreover have "note_block_output b' ps = b'\<lparr>sequence := ps\<rparr>"
    using assms(1,3) params_csi [OF assms(2)]
    by (subst note_params) (simp_all add: b'_def quiet_block_def)
  ultimately have "note_block_output b ([27, 91] @ ps @ [109]) = note_char (b'\<lparr>sequence := ps\<rparr>) 109"
    by (simp add: note_block_output_def)
  moreover have "list_all (\<lambda>d. is_ascii_digit d \<or> d = 59) ps"
    using assms(2) by (simp add: list_all_iff param_char_def)
  ultimately show ?thesis
    using assms(1) sgr_codes_harmless [OF assms(4)]
    by (simp add: note_char_def note_match_def csi_final_def b'_def quiet_block_def Let_def)
qed

lemma quiet_screen_read:
  "quiet_screen s t \<Longrightarrow> byte_len t \<le> TAIL_CAPACITY \<Longrightarrow> quiet_block [] b \<Longrightarrow>
   quiet_block t (note_block_output b s)"
proof (induction rule: quiet_screen.induct)
  case Blank
  then show ?case by (simp add: note_block_output_def)
next
  case (Visible s t c)
  then have "quiet_block t (note_block_output b s)" by simp
  moreover have "c \<noteq> 27" "c \<notin> {144, 152, 157, 158, 159}"
    using Visible.hyps(2) by (auto simp: is_control_def)
  ultimately show ?case
    using Visible by (simp add: note_block_output_snoc note_char_def note_match_def quiet_block_def Let_def)
next
  case (Home s t)
  then have "quiet_block t (note_block_output b s)" by simp
  then show ?case
    using Home unfolding note_block_output_append
    by (simp add: note_block_output_def note_char_def note_match_def csi_final_def quiet_block_def Let_def)
next
  case (Colour s t ps)
  then show ?case
    by (subst note_block_output_append) (simp add: note_colour del: append.simps)
qed


subsection \<open>What is read as quiet was a quiet screen\<close>

definition pending :: "startup_block \<Rightarrow> ustr" where
  "pending b = (case escape b of Escape \<Rightarrow> [27] | Csi \<Rightarrow> [27, 91] @ sequence b | _ \<Rightarrow> [])"

definition since_clear :: "(ustr \<Rightarrow> startup_block) \<Rightarrow> ustr \<Rightarrow> startup_block \<Rightarrow> bool" where
  "since_clear st cs b \<longleftrightarrow>
     (\<exists>pre q. at_clear (st pre) \<and> quiet_screen q (sb_text b) \<and> cs = pre @ 74 # q @ pending b)"

definition tracked :: "(ustr \<Rightarrow> startup_block) \<Rightarrow> ustr \<Rightarrow> startup_block \<Rightarrow> bool" where
  "tracked st cs b \<longleftrightarrow>
     (concealed b \<longrightarrow> uncertain b) \<and>
     (escape b \<in> {Esc_Text, Escape, Csi} \<or> uncertain b) \<and>
     (escape b = Csi \<longrightarrow> list_all csi_char (sequence b) \<and> length (sequence b) \<le> 32) \<and>
     (cleared b \<and> \<not> uncertain b \<longrightarrow> since_clear st cs b)"

text \<open>A final byte leaves certainty behind in three ways.\<close>

lemma csi_final_cases:
  assumes "\<not> uncertain (csi_final c b)"
  obtains (clear) "c = 74" "sequence b = [50]" "\<not> concealed b" "sb_text (csi_final c b) = []"
  | (colour) "c = 109" "list_all param_char (sequence b)"
      "harmless_codes (map sgr_code (split_char 59 (sequence b)))" "\<not> uncertain b"
      "sb_text (csi_final c b) = sb_text b" "cleared (csi_final c b) = cleared b"
  | (home) "c = 72" "sequence b = []" "trim (sb_text b) = []" "\<not> uncertain b"
      "sb_text (csi_final c b) = sb_text b" "cleared (csi_final c b) = cleared b"
proof -
  consider "c = 74 \<and> sequence b = [50]"
    | "\<not> (c = 74 \<and> sequence b = [50])" "c = 109 \<and> list_all (\<lambda>d. is_ascii_digit d \<or> d = 59) (sequence b)"
    | "\<not> (c = 74 \<and> sequence b = [50])" "\<not> (c = 109 \<and> list_all (\<lambda>d. is_ascii_digit d \<or> d = 59) (sequence b))"
    by blast
  then show thesis
  proof cases
    case 1
    with assms show thesis by (intro clear) (simp_all add: csi_final_def)
  next
    case 2
    define codes where "codes = map sgr_code (split_char 59 (sequence b))"
    obtain con unc where r: "sgr_codes codes (concealed b, uncertain b) = (con, unc)" by fastforce
    with 2 have e: "csi_final c b = b\<lparr>concealed := con, uncertain := unc\<rparr>"
      by (simp add: csi_final_def codes_def)
    with assms r have "\<not> snd (sgr_codes codes (concealed b, uncertain b))" by simp
    then have "\<not> uncertain b" "harmless_codes codes"
      using sgr_codes_uncertain [of codes "concealed b"] sgr_codes_certain [of codes "concealed b"]
      by (cases "uncertain b"; simp)+
    with 2 e show thesis
      by (intro colour) (simp_all add: codes_def list_all_iff param_char_def)
  next
    case 3
    with assms show thesis by (intro home) (auto simp: csi_final_def split: if_splits)
  qed
qed

lemma csi_final_concealed:
  "(concealed b \<longrightarrow> uncertain b) \<Longrightarrow> concealed (csi_final c b) \<longrightarrow> uncertain (csi_final c b)"
  using sgr_codes_concealed [of "concealed b" "uncertain b" "map sgr_code (split_char 59 (sequence b))"]
  by (auto simp: csi_final_def split: prod.split)

lemma csi_final_text: "byte_len (sb_text (csi_final c b)) \<le> byte_len (sb_text b)"
  by (auto simp: csi_final_def byte_len_def split: prod.split)


lemma tracked_uncertain:
  "uncertain b \<Longrightarrow> (escape b = Csi \<longrightarrow> list_all csi_char (sequence b) \<and> length (sequence b) \<le> 32) \<Longrightarrow>
   tracked st cs b"
  by (simp add: tracked_def)

lemma tracked_text:
  assumes "tracked st cs b" and "escape b = Esc_Text"
  shows "tracked st (cs @ [c]) (note_match b c)"
proof -
  consider "c = 27" | "c \<noteq> 27" "is_control c" | "c \<noteq> 27" "\<not> is_control c" by blast
  then show ?thesis
  proof cases
    case 1
    with assms show ?thesis
      by (auto simp: tracked_def note_match_def since_clear_def pending_def)
  next
    case 2
    with assms(2) show ?thesis
      by (intro tracked_uncertain) (simp_all add: note_match_def)
  next
    case 3
    then have e: "note_match b c = b\<lparr>sb_text := sb_text b @ [c]\<rparr>"
      using assms(2) by (auto simp: note_match_def is_control_def)
    have "since_clear st (cs @ [c]) (b\<lparr>sb_text := sb_text b @ [c]\<rparr>)" if "since_clear st cs b"
      using that 3 assms(2) quiet_screen.Visible
      by (fastforce simp: since_clear_def pending_def)
    with assms e show ?thesis by (simp add: tracked_def)
  qed
qed

lemma tracked_escape:
  assumes "tracked st cs b" and "escape b = Escape"
  shows "tracked st (cs @ [c]) (note_match b c)"
proof (cases "c = 91")
  case True
  with assms show ?thesis
    by (auto simp: tracked_def note_match_def since_clear_def pending_def)
next
  case False
  with assms(2) show ?thesis
    by (intro tracked_uncertain) (simp_all add: note_match_def Let_def)
qed

lemma tracked_other:
  assumes "tracked st cs b" and "escape b \<notin> {Esc_Text, Escape, Csi}"
  shows "tracked st (cs @ [c]) (note_match b c)"
  using assms by (intro tracked_uncertain) (auto simp: tracked_def note_match_def split: escape_state.splits)

lemma tracked_final:
  assumes b: "tracked st cs b" "escape b = Csi" and st: "st cs = b"
  shows "tracked st (cs @ [c]) ((csi_final c b)\<lparr>escape := Esc_Text\<rparr>)"
proof (cases "uncertain (csi_final c b)")
  case False
  then have since: "since_clear st (cs @ [c]) ((csi_final c b)\<lparr>escape := Esc_Text\<rparr>)"
    if visible: "cleared (csi_final c b)"
  proof (cases rule: csi_final_cases)
    case clear
    with b(2) st have "at_clear (st cs)" by (simp add: at_clear_def)
    with clear show ?thesis
      unfolding since_clear_def
      by (intro exI [of _ cs] exI [of _ "[]"]) (simp add: pending_def quiet_screen.Blank)
  next
    case colour
    then obtain pre q where "at_clear (st pre)" "quiet_screen q (sb_text b)"
      "cs = pre @ 74 # q @ [27, 91] @ sequence b"
      using b visible by (auto simp: tracked_def since_clear_def pending_def)
    then show ?thesis
      unfolding since_clear_def
      by (intro exI [of _ pre] exI [of _ "q @ [27, 91] @ sequence b @ [109]"])
        (use colour b in \<open>simp add: pending_def tracked_def quiet_screen.Colour [simplified]\<close>)
  next
    case home
    then obtain pre q where "at_clear (st pre)" "quiet_screen q (sb_text b)"
      "cs = pre @ 74 # q @ [27, 91]"
      using b visible by (auto simp: tracked_def since_clear_def pending_def)
    then show ?thesis
      unfolding since_clear_def
      by (intro exI [of _ pre] exI [of _ "q @ [27, 91, 72]"])
        (use home in \<open>simp add: pending_def quiet_screen.Home\<close>)
  qed
  have "\<not> concealed (csi_final c b)"
    using csi_final_concealed [of b c] b(1) False by (simp add: tracked_def)
  with since False show ?thesis by (simp add: tracked_def)
qed (simp add: tracked_def)


lemma tracked_csi:
  assumes b: "tracked st cs b" "escape b = Csi" and st: "st cs = b"
  shows "tracked st (cs @ [c]) (note_match b c)"
proof (cases "64 \<le> c \<and> c \<le> 126")
  case True
  with tracked_final [OF b st] b(2) show ?thesis by (simp add: note_match_def)
next
  case False
  show ?thesis
  proof (cases "csi_char c \<and> byte_len (sequence b) < 32")
    case True
    then have e: "note_match b c = b\<lparr>sequence := sequence b @ [c]\<rparr>"
      using b(2) by (simp add: note_match_def csi_char_def)
    have "byte_len (sequence b) = length (sequence b)"
      using b by (intro csi_chars_len) (simp add: tracked_def)
    then show ?thesis
      using b True by (auto simp: e tracked_def since_clear_def pending_def)
  next
    case no: False
    have "uncertain (note_match b c) \<and> escape (note_match b c) \<noteq> Csi \<or>
        uncertain (note_match b c) \<and> sequence (note_match b c) = sequence b"
      using b(2) False no by (auto simp: note_match_def csi_char_def)
    with b show ?thesis by (intro tracked_uncertain) (auto simp: tracked_def)
  qed
qed

definition screened :: "(ustr \<Rightarrow> startup_block) \<Rightarrow> ustr \<Rightarrow> startup_block \<Rightarrow> bool" where
  "screened st cs b \<longleftrightarrow> byte_len (sb_text b) \<le> TAIL_CAPACITY \<and> tracked st cs b"

lemma screened_step:
  assumes "screened st cs b" and b: "st cs = b"
  shows "screened st (cs @ [c]) (note_char b c)"
proof -
  have t: "tracked st cs b" using assms(1) by (simp add: screened_def)
  have "tracked st (cs @ [c]) (note_match b c)"
    using tracked_text [OF t] tracked_escape [OF t] tracked_csi [OF t _ b] tracked_other [OF t]
    by blast
  then show ?thesis
    by (simp add: screened_def note_char_def Let_def)
      (auto simp: byte_len_def tracked_def)
qed

lemma screened_output:
  "screened (note_block_output (new_startup_block mk detail cause)) cs
     (note_block_output (new_startup_block mk detail cause) cs)"
proof (induction cs rule: rev_induct)
  case Nil
  show ?case
    by (simp add: screened_def tracked_def note_block_output_def new_startup_block_def byte_len_def)
next
  case (snoc c cs)
  then show ?case
    unfolding note_block_output_snoc by (rule screened_step) simp
qed

lemma marker_kept [simp]: "marker (note_block_output b cs) = marker b"
proof (induction cs rule: rev_induct)
  case (snoc c cs)
  have "marker (note_match b' c) = marker b'" for b'
    by (simp add: note_match_def csi_final_def Let_def split: escape_state.split prod.split)
  with snoc show ?case by (simp add: note_block_output_snoc note_char_def Let_def)
qed (simp add: note_block_output_def)

text \<open>C32: A startup block lets go exactly on a clean screen.  It reports ready if and only if the output
  contains a full clear with nothing concealed, after which came only visible characters,
  harmless colour sequences and cursor-home before any text, fitting the buffer, and the words
  on the screen are the readiness marker of the profile, with nothing before and nothing
  after.  Any other control sequence, a hidden or partial redraw, a marker
  inside a terminal string, or a block without a marker keeps it closed.\<close>

theorem block_opens_on_the_clean_marker_only:
  "ready (note_block_output (new_startup_block mk detail cause) cs) \<longleftrightarrow>
     (\<exists>pre post t.
        cs = pre @ 74 # post \<and>
        at_clear (note_block_output (new_startup_block mk detail cause) pre) \<and>
        quiet_screen post t \<and> byte_len t \<le> TAIL_CAPACITY \<and>
        marker (new_startup_block mk detail cause) = Some (spaced_words t))"
    (is "_ \<longleftrightarrow> ?spec")
proof
  define b where "b = note_block_output (new_startup_block mk detail cause) cs"
  assume "ready (note_block_output (new_startup_block mk detail cause) cs)"
  then have r: "ready b" by (simp add: b_def)
  have s: "screened (note_block_output (new_startup_block mk detail cause)) cs b"
    unfolding b_def by (rule screened_output)
  have m: "marker (new_startup_block mk detail cause) = Some (spaced_words (sb_text b))"
    using r by (simp add: ready_def b_def split: option.splits)
  have "since_clear (note_block_output (new_startup_block mk detail cause)) cs b" "pending b = []"
    using r s by (simp_all add: ready_def screened_def tracked_def pending_def)
  then show ?spec
    using s m unfolding since_clear_def screened_def by auto
next
  assume ?spec
  then obtain pre post t where cs: "cs = pre @ 74 # post"
    and clear: "at_clear (note_block_output (new_startup_block mk detail cause) pre)"
    and quiet: "quiet_screen post t" "byte_len t \<le> TAIL_CAPACITY"
    and m: "marker (new_startup_block mk detail cause) = Some (spaced_words t)"
    by blast
  have "cs = (pre @ [74]) @ post" using cs by simp
  then have "quiet_block t (note_block_output (new_startup_block mk detail cause) cs)"
    using quiet_screen_read [OF quiet note_clear [OF clear]]
    by (simp only: note_block_output_append [of _ "pre @ [74]" post] note_block_output_snoc)
  with m show "ready (note_block_output (new_startup_block mk detail cause) cs)"
    by (simp add: ready_def quiet_block_def)
qed

end
