(* ===== verification/Merge_Readiness.thy ===== *)
theory Merge_Readiness
  imports Rust_Text "HOL-Library.List_Lexorder"
begin

text \<open>
  May a worker's branch be merged?  \<open>src-tauri/src/readiness.rs\<close>: the facts, the blockers, the
  evaluation and the probes of git behind them.  A run of git is the text and the exit code
  it left, \<open>None\<close> when it could not be started; the probes take the answers of one
  repository as a function of the arguments.
\<close>

section \<open>Facts and blockers\<close>

datatype lifecycle = Queued | Running | Exited | Archived | Merged | Failed

fun lifecycle_str :: "lifecycle \<Rightarrow> ustr" where
  "lifecycle_str Queued = lit ''queued''"
| "lifecycle_str Running = lit ''running''"
| "lifecycle_str Exited = lit ''exited''"
| "lifecycle_str Archived = lit ''archived''"
| "lifecycle_str Merged = lit ''merged''"
| "lifecycle_str Failed = lit ''failed''"

datatype readiness = Unknown | Blocked | Ready

fun readiness_str :: "readiness \<Rightarrow> ustr" where
  "readiness_str Unknown = lit ''unknown''"
| "readiness_str Blocked = lit ''blocked''"
| "readiness_str Ready = lit ''ready''"

datatype blocker_code =
  AgentRunning | Dirty | SetupFailed | TestsStale | ReviewStale | ChangesRequested | CommentsOpen
| BaseChanged | Conflicting | GitUnsupported

fun blocker_code_str :: "blocker_code \<Rightarrow> ustr" where
  "blocker_code_str AgentRunning = lit ''agent_running''"
| "blocker_code_str Dirty = lit ''dirty''"
| "blocker_code_str SetupFailed = lit ''setup_failed''"
| "blocker_code_str TestsStale = lit ''tests_stale''"
| "blocker_code_str ReviewStale = lit ''review_stale''"
| "blocker_code_str ChangesRequested = lit ''changes_requested''"
| "blocker_code_str CommentsOpen = lit ''comments_open''"
| "blocker_code_str BaseChanged = lit ''base_changed''"
| "blocker_code_str Conflicting = lit ''conflicting''"
| "blocker_code_str GitUnsupported = lit ''git_unsupported''"

fun display_rank :: "blocker_code \<Rightarrow> nat" where
  "display_rank GitUnsupported = 0"
| "display_rank AgentRunning = 1"
| "display_rank Dirty = 2"
| "display_rank Conflicting = 3"
| "display_rank SetupFailed = 4"
| "display_rank TestsStale = 5"
| "display_rank BaseChanged = 6"
| "display_rank ReviewStale = 7"
| "display_rank ChangesRequested = 8"
| "display_rank CommentsOpen = 9"

record blocker =
  bl_code :: blocker_code
  bl_message :: ustr
  next_step :: ustr

definition new_blocker :: "blocker_code \<Rightarrow> string \<Rightarrow> string \<Rightarrow> blocker" where
  "new_blocker c m n = \<lparr> bl_code = c, bl_message = lit m, next_step = lit n \<rparr>"

definition blocker_line :: "blocker \<Rightarrow> ustr" where
  "blocker_line b =
     blocker_code_str (bl_code b) @ lit '': '' @ bl_message b @ [32, 8212, 32] @ next_step b"

record code_tuple =
  worker_head_sha :: ustr
  base_tip_sha :: ustr
  merge_tree_oid :: ustr

definition code_matches :: "code_tuple \<Rightarrow> code_tuple \<Rightarrow> bool" where
  "code_matches a b \<longleftrightarrow>
     worker_head_sha a = worker_head_sha b \<and> base_tip_sha a = base_tip_sha b \<and>
     merge_tree_oid a = merge_tree_oid b"

record test_record =
  tr_code :: code_tuple
  verification_policy_hash :: ustr
  passed :: bool

datatype approval_source = Desktop | VerdictToken | Unverified

definition counts_as_human :: "approval_source \<Rightarrow> bool" where
  "counts_as_human s \<longleftrightarrow> s = Desktop \<or> s = VerdictToken"

datatype approval_decision = Approved | Changes_Requested

record approval_record =
  ar_code :: code_tuple
  acceptance_hash :: ustr
  reviewed_by :: ustr
  ar_source :: approval_source
  decision :: approval_decision

record trust_grant =
  repo_identity :: ustr
  command_normalized :: ustr
  base_sha :: ustr
  tg_inputs_hash :: ustr

datatype trust_status = Missing | Mismatch | Granted

datatype git_probe = Unsupported | Probe_Failed | Conflict | Clean ustr

record facts =
  fc_lifecycle :: lifecycle
  agent_running :: bool
  dirty :: bool
  fc_git :: git_probe
  current_code :: "code_tuple option"
  current_policy_hash :: ustr
  current_acceptance_hash :: ustr
  stored_test :: "test_record option"
  stored_approval :: "approval_record option"
  open_comments :: nat
  setup_failed :: bool
  fc_trust :: trust_status
  tests_required :: bool
  board_pin :: "ustr option"
  ahead :: u32
  behind :: u32

record report =
  rp_lifecycle :: lifecycle
  rp_readiness :: readiness
  blockers :: "blocker list"
  checked_at :: int
  rp_ahead :: u32
  rp_behind :: u32
  rp_code :: "code_tuple option"

definition is_ready :: "report \<Rightarrow> bool" where
  "is_ready r \<longleftrightarrow> rp_readiness r = Ready \<and> blockers r = []"

record blocker_wire =
  bw_code :: ustr
  bw_message :: ustr
  bw_next_step :: ustr

record readiness_wire =
  wr_lifecycle :: ustr
  wr_readiness :: ustr
  wr_blockers :: "blocker_wire list"
  wr_checked_at :: int
  wr_ahead :: u32
  wr_behind :: u32
  wr_code :: "code_tuple option"

definition to_wire :: "report \<Rightarrow> readiness_wire" where
  "to_wire r =
     \<lparr> wr_lifecycle = lifecycle_str (rp_lifecycle r), wr_readiness = readiness_str (rp_readiness r),
       wr_blockers = map (\<lambda>b. \<lparr> bw_code = blocker_code_str (bl_code b), bw_message = bl_message b,
                                 bw_next_step = next_step b \<rparr>) (blockers r),
       wr_checked_at = checked_at r, wr_ahead = rp_ahead r, wr_behind = rp_behind r,
       wr_code = rp_code r \<rparr>"

section \<open>Hashes\<close>

definition fnv1a :: "u8 list \<Rightarrow> ustr" where
  "fnv1a bytes =
     hex16 (foldl (\<lambda>h b. xor h (ucast b) * 0x100000001b3) (0xcbf29ce484222325 :: u64) bytes)"

definition normalize_command :: "ustr \<Rightarrow> ustr" where
  "normalize_command command = spaced_words command"

definition verification_policy_hash_of :: "ustr \<Rightarrow> ustr" where
  "verification_policy_hash_of command = fnv1a (as_bytes (normalize_command command))"

definition acceptance_hash_of :: "ustr \<Rightarrow> ustr" where
  "acceptance_hash_of t = fnv1a (as_bytes t)"

text \<open>\<open>debug\<close> is what \<open>{:?}\<close> prints of a string.\<close>

definition verification_policy_with_setup :: "(ustr \<Rightarrow> ustr) \<Rightarrow> ustr \<Rightarrow> ustr option \<Rightarrow> ustr" where
  "verification_policy_with_setup debug test setup =
     (case setup of
        None \<Rightarrow> verification_policy_hash_of test
      | Some s \<Rightarrow>
          fnv1a (as_bytes
            (lit ''('' @ debug (normalize_command s) @ lit '', '' @ debug (normalize_command test) @ lit '')'')))"

definition inputs_hash :: "(ustr \<times> u8 list) list \<Rightarrow> ustr" where
  "inputs_hash files =
     fnv1a (concat (map (\<lambda>(name, bytes). as_bytes name @ [0] @ bytes @ [0]) (sort_key fst files)))"

definition inputs_oid_token :: "(ustr \<times> ustr) list \<Rightarrow> ustr" where
  "inputs_oid_token files =
     join [10] (map (\<lambda>(name, oid). name @ [61] @ oid) (sort_key fst files))"

definition trust_status_of :: "trust_grant option \<Rightarrow> trust_grant \<Rightarrow> trust_status" where
  "trust_status_of granted current =
     (case granted of
        None \<Rightarrow> Missing
      | Some g \<Rightarrow> if g = current then Granted else Mismatch)"


section \<open>The evaluation\<close>

definition when' :: "bool \<Rightarrow> blocker \<Rightarrow> blocker list" where
  "when' c b = (if c then [b] else [])"

definition setup_blocker :: "trust_status \<Rightarrow> blocker" where
  "setup_blocker t =
     (case t of
        Missing \<Rightarrow> new_blocker SetupFailed
          ''setup has no trust grant for this command and inputs''
          ''grant trust for the normalised command, repo identity, base SHA and scripts''
      | Mismatch \<Rightarrow> new_blocker SetupFailed
          ''the setup command is unchanged but its declared inputs are not''
          ''re-grant trust; the lifecycle script, lockfile or manifest changed''
      | Granted \<Rightarrow> new_blocker SetupFailed
          ''no successful setup run is on record for this candidate tree''
          ''run the setup command (the gate does it), then review again'')"

definition git_blockers :: "git_probe \<Rightarrow> blocker list" where
  "git_blockers g =
     (case g of
        Conflict \<Rightarrow> [new_blocker Conflicting
          ''git merge-tree reported a conflict against the current base''
          ''rebase or merge the base into the worker branch and resolve the conflict'']
      | Clean _ \<Rightarrow> []
      | _ \<Rightarrow> [new_blocker GitUnsupported
          ''git is missing, the repository is unreadable, or merge-tree did not return one tree''
          ''install git, open a real repository, and rerun the merge-tree probe''])"

definition test_stale :: "facts \<Rightarrow> bool" where
  "test_stale f \<longleftrightarrow>
     tests_required f \<and>
     (case (stored_test f, current_code f) of
        (Some t, Some code) \<Rightarrow>
          \<not> passed t \<or> \<not> code_matches (tr_code t) code \<or>
          verification_policy_hash t \<noteq> current_policy_hash f
      | _ \<Rightarrow> True)"

definition stored_base_differs :: "facts \<Rightarrow> ustr \<Rightarrow> bool" where
  "stored_base_differs f b \<longleftrightarrow>
     (case current_code f of None \<Rightarrow> False | Some c \<Rightarrow> b \<noteq> base_tip_sha c)"

definition base_changed :: "facts \<Rightarrow> bool" where
  "base_changed f \<longleftrightarrow>
     (case stored_test f of None \<Rightarrow> False | Some t \<Rightarrow> stored_base_differs f (base_tip_sha (tr_code t))) \<or>
     (case stored_approval f of None \<Rightarrow> False
      | Some a \<Rightarrow> stored_base_differs f (base_tip_sha (ar_code a)))"

definition changes_requested :: "facts \<Rightarrow> bool" where
  "changes_requested f \<longleftrightarrow>
     (case stored_approval f of None \<Rightarrow> False | Some a \<Rightarrow> decision a = Changes_Requested)"

definition review_stale :: "facts \<Rightarrow> bool" where
  "review_stale f \<longleftrightarrow>
     (case (stored_approval f, current_code f) of
        (Some a, Some code) \<Rightarrow>
          decision a \<noteq> Approved \<or> \<not> counts_as_human (ar_source a) \<or>
          \<not> code_matches (ar_code a) code \<or> acceptance_hash a \<noteq> current_acceptance_hash f
      | _ \<Rightarrow> True)"

text \<open>In the order the code collects them.\<close>

definition collected :: "facts \<Rightarrow> blocker list" where
  "collected f =
     when' (agent_running f \<or> fc_lifecycle f = Running)
       (new_blocker AgentRunning ''the agent is still running''
         ''archive or wait until the session exits, then review again'') @
     when' (dirty f)
       (new_blocker Dirty ''the worktree has uncommitted changes''
         ''commit or discard the dirty files in the worker worktree'') @
     when' (setup_failed f \<or> fc_trust f \<noteq> Granted) (setup_blocker (fc_trust f)) @
     git_blockers (fc_git f) @
     when' (test_stale f)
       (new_blocker TestsStale
         ''there is no green test bound to the current worker HEAD, base tip and merge tree''
         ''run the tests against the merge-tree candidate for this evidence set'') @
     when' (base_changed f)
       (new_blocker BaseChanged ''the base tip moved since the stored test or approval''
         ''re-run tests and review against the new base'') @
     when' (changes_requested f)
       (new_blocker ChangesRequested ''the last human review asked for changes''
         ''address the comments and obtain a new approval for this evidence set'') @
     when' (review_stale f)
       (new_blocker ReviewStale ''there is no human approval bound to the current evidence set''
         ''review the diff and the acceptance criteria from the desktop or with the verdict token'') @
     when' (0 < open_comments f)
       (new_blocker CommentsOpen ''open review comments remain''
         ''resolve or mark each comment done, then approve again if the code changed'')"

definition readiness_of :: "facts \<Rightarrow> bool \<Rightarrow> readiness" where
  "readiness_of f none =
     (if fc_lifecycle f \<in> {Queued, Merged} \<and> none then Unknown
      else
        case (fc_git f, current_code f) of
          (Clean tree_oid, Some code) \<Rightarrow>
            if fc_lifecycle f \<in> {Exited, Archived} \<and> none \<and> tree_oid \<noteq> [] \<and>
               merge_tree_oid code = tree_oid
            then Ready
            else if \<not> none then Blocked else Unknown
        | _ \<Rightarrow> if \<not> none then Blocked else Unknown)"

definition evaluate :: "facts \<Rightarrow> int \<Rightarrow> report" where
  "evaluate f now =
     (let bs = sort_key (\<lambda>b. display_rank (bl_code b)) (collected f) in
      \<lparr> rp_lifecycle = fc_lifecycle f, rp_readiness = readiness_of f (bs = []), blockers = bs,
        checked_at = now, rp_ahead = ahead f, rp_behind = behind f, rp_code = current_code f \<rparr>)"

definition merge_preflight :: "report \<Rightarrow> ustr + unit" where
  "merge_preflight r =
     (if is_ready r then Ok ()
      else if blockers r = []
      then Err (lit ''worker is '' @ readiness_str (rp_readiness r) @ lit '', not ready to merge '' @
                [8212] @ lit '' measure git, tests and approval first'')
      else Err (lit ''merge blocked ('' @ readiness_str (rp_readiness r) @ lit ''); '' @
                join (lit ''; '') (map blocker_line (blockers r))))"

section \<open>Probes\<close>

record tool_output =
  exit_code :: "int option"
  stdout :: ustr
  stderr :: ustr

text \<open>A child process succeeded when it exited with zero.\<close>

definition success :: "tool_output \<Rightarrow> bool" where
  "success o' \<longleftrightarrow> exit_code o' = Some 0"

type_synonym git_answers = "ustr list \<Rightarrow> tool_output option"

definition git_output :: "git_answers \<Rightarrow> ustr list \<Rightarrow> git_probe + tool_output" where
  "git_output git args = ok_or (git args) Unsupported"

definition first_oid_line :: "ustr \<Rightarrow> ustr option" where
  "first_oid_line out =
     opt_then (find (\<lambda>l. l \<noteq> []) (map trim (str_lines out))) (\<lambda>line.
     opt_then (list_next (split_whitespace [] line)) (\<lambda>oid.
       if (byte_len oid = 40 \<or> byte_len oid = 64) \<and> list_all is_ascii_hexdigit oid then Some oid else None))"

definition probe_merge_tree :: "bool \<Rightarrow> git_answers \<Rightarrow> ustr \<Rightarrow> ustr \<Rightarrow> git_probe" where
  "probe_merge_tree is_dir git base head =
     (if \<not> is_dir then Unsupported
      else
        case git_output git [lit ''merge-tree'', lit ''--write-tree'', base, head] of
          Err probe \<Rightarrow> probe
        | Ok o' \<Rightarrow>
            let combined = to_ascii_lowercase (stdout o' @ stderr o') in
            if str_contains combined (lit ''unknown option'') \<or>
               str_contains combined (lit ''not a git command'')
            then Unsupported
            else if exit_code o' = Some 1 \<or> str_contains combined (lit ''conflict'') then Conflict
            else if \<not> success o'
            then (if exit_code o' = None then Unsupported else Probe_Failed)
            else case first_oid_line (stdout o') of Some oid \<Rightarrow> Clean oid | None \<Rightarrow> Probe_Failed)"

definition rev_parse :: "git_answers \<Rightarrow> ustr \<Rightarrow> git_probe + ustr" where
  "rev_parse git r =
     and_then (git_output git [lit ''rev-parse'', r]) (\<lambda>o'.
       if \<not> success o' then Err Probe_Failed else ok_or (first_oid_line (stdout o')) Probe_Failed)"

definition ahead_behind :: "git_answers \<Rightarrow> ustr \<Rightarrow> ustr \<Rightarrow> git_probe + u32 \<times> u32" where
  "ahead_behind git base worker =
     and_then (git_output git
       [lit ''rev-list'', lit ''--left-right'', lit ''--count'', base @ lit ''...'' @ worker]) (\<lambda>o'.
       if \<not> success o' then Err Probe_Failed
       else
         let parts = split_whitespace [] (stdout o') in
         and_then (ok_or (opt_then (list_next parts) parse_u32) Probe_Failed) (\<lambda>behind.
         and_then (ok_or (opt_then (list_next (drop 1 parts)) parse_u32) Probe_Failed) (\<lambda>ahead.
           Ok (ahead, behind))))"

definition measure_code :: "bool \<Rightarrow> git_answers \<Rightarrow> ustr \<Rightarrow> ustr \<Rightarrow> git_probe + code_tuple" where
  "measure_code is_dir git base_tip worker_head =
     and_then (rev_parse git base_tip) (\<lambda>base.
     and_then (rev_parse git worker_head) (\<lambda>head.
       case probe_merge_tree is_dir git base head of
         Clean oid \<Rightarrow> Ok \<lparr> worker_head_sha = head, base_tip_sha = base, merge_tree_oid = oid \<rparr>
       | other \<Rightarrow> Err other))"

definition porcelain_is_spawn_artifact :: "ustr \<Rightarrow> bool" where
  "porcelain_is_spawn_artifact line =
     (let path = map (\<lambda>c. if c = 92 then 47 else c)
                   (trim (case get_from 3 line of Some p \<Rightarrow> p | None \<Rightarrow> line))
      in starts_with path (lit ''.claude/'') \<or> starts_with path (lit ''.agents/''))"

definition worktree_dirty :: "git_answers \<Rightarrow> git_probe + bool" where
  "worktree_dirty git =
     and_then (git_output git [lit ''status'', lit ''--porcelain'']) (\<lambda>o'.
       if \<not> success o' then Err Probe_Failed
       else Ok (list_ex (\<lambda>l. trim l \<noteq> [] \<and> \<not> porcelain_is_spawn_artifact l) (str_lines (stdout o'))))"


section \<open>Ready means bound evidence\<close>

lemma code_matches_eq: "code_matches a b \<longleftrightarrow> a = b"
  by (cases a; cases b) (simp add: code_matches_def)

lemma sort_key_Nil [simp]: "sort_key k xs = [] \<longleftrightarrow> xs = []"
  by (metis length_0_conv length_sort)

lemma when_Nil [simp]: "when' c b = [] \<longleftrightarrow> \<not> c"
  by (simp add: when'_def)

lemma git_blockers_Nil [simp]: "git_blockers g = [] \<longleftrightarrow> (\<exists>oid. g = Clean oid)"
  by (cases g) (simp_all add: git_blockers_def)

lemma collected_Nil:
  "collected f = [] \<longleftrightarrow>
     \<not> agent_running f \<and> fc_lifecycle f \<noteq> Running \<and> \<not> dirty f \<and> \<not> setup_failed f \<and>
     fc_trust f = Granted \<and> (\<exists>oid. fc_git f = Clean oid) \<and> \<not> test_stale f \<and> \<not> base_changed f \<and>
     \<not> changes_requested f \<and> \<not> review_stale f \<and> open_comments f = 0"
  by (simp add: collected_def)

lemma readiness_of_Ready:
  "readiness_of f none = Ready \<longleftrightarrow>
     none \<and> fc_lifecycle f \<in> {Exited, Archived} \<and>
     (\<exists>code. current_code f = Some code \<and> fc_git f = Clean (merge_tree_oid code) \<and>
             merge_tree_oid code \<noteq> [])"
  by (cases "fc_git f"; cases "current_code f"; cases "fc_lifecycle f") (auto simp: readiness_of_def)

lemma is_ready_evaluate:
  "is_ready (evaluate f now) \<longleftrightarrow> collected f = [] \<and> readiness_of f True = Ready"
  by (auto simp: is_ready_def evaluate_def Let_def)

lemma preflight_Ok: "merge_preflight r = Ok () \<longleftrightarrow> is_ready r"
  by (simp add: merge_preflight_def)

lemma evidence_iff:
  assumes "current_code f = Some code"
  shows "\<not> test_stale f \<and> \<not> base_changed f \<and> \<not> changes_requested f \<and> \<not> review_stale f \<longleftrightarrow>
     (\<exists>a. stored_approval f = Some a \<and> decision a = Approved \<and> counts_as_human (ar_source a) \<and>
          ar_code a = code \<and> acceptance_hash a = current_acceptance_hash f) \<and>
     (if tests_required f
      then \<exists>t. stored_test f = Some t \<and> passed t \<and> tr_code t = code \<and>
               verification_policy_hash t = current_policy_hash f
      else case stored_test f of None \<Rightarrow> True | Some t \<Rightarrow> base_tip_sha (tr_code t) = base_tip_sha code)"
proof (cases "stored_approval f")
  case None
  then show ?thesis using assms by (simp add: review_stale_def)
next
  case (Some a)
  then show ?thesis
    using assms
    by (cases "stored_test f"; cases "decision a")
      (auto simp: review_stale_def changes_requested_def base_changed_def stored_base_differs_def
        test_stale_def code_matches_eq)
qed

lemma preflight_iff:
  "merge_preflight (evaluate f now) = Ok () \<longleftrightarrow>
     fc_lifecycle f \<in> {Exited, Archived} \<and> \<not> agent_running f \<and> \<not> dirty f \<and> \<not> setup_failed f \<and>
     fc_trust f = Granted \<and> open_comments f = 0 \<and>
     (\<exists>code. current_code f = Some code \<and> fc_git f = Clean (merge_tree_oid code) \<and>
        merge_tree_oid code \<noteq> [] \<and>
        (\<exists>a. stored_approval f = Some a \<and> decision a = Approved \<and> counts_as_human (ar_source a) \<and>
             ar_code a = code \<and> acceptance_hash a = current_acceptance_hash f) \<and>
        (if tests_required f
         then \<exists>t. stored_test f = Some t \<and> passed t \<and> tr_code t = code \<and>
                  verification_policy_hash t = current_policy_hash f
         else case stored_test f of
                None \<Rightarrow> True | Some t \<Rightarrow> base_tip_sha (tr_code t) = base_tip_sha code))"
proof (cases "current_code f")
  case None
  then show ?thesis by (simp add: preflight_Ok is_ready_evaluate readiness_of_Ready)
next
  case (Some code)
  show ?thesis
    unfolding preflight_Ok is_ready_evaluate readiness_of_Ready collected_Nil
    using evidence_iff [OF Some] Some by auto
qed


end
