(* ===== verification/Json_Values.thy ===== *)
theory Json_Values
  imports Rust_Text
begin

text \<open>
  JSON values and the accessors of \<open>serde_json\<close> the modelled code calls, with the parsing of
  decimal integers.  Parsing a text to a value is a parameter of the components.  The prefixes of
  error texts are those of \<open>errors.rs\<close>.
\<close>

definition ERR_UNKNOWN :: ustr where "ERR_UNKNOWN = lit ''unknown ''"
definition ERR_REFUSED :: ustr where "ERR_REFUSED = lit ''refused: ''"

text \<open>A JSON value as \<open>serde_json\<close> parses it; the parser itself is a parameter.\<close>

datatype json =
  JNull | JBool bool | JInt int | JFloat ustr | JString ustr | JArray "json list" | JObject "(ustr \<times> json) list"

definition jget :: "ustr \<Rightarrow> json \<Rightarrow> json option" where
  "jget k j = (case j of JObject kvs \<Rightarrow> map_of kvs k | _ \<Rightarrow> None)"

definition as_str :: "json \<Rightarrow> ustr option" where
  "as_str j = (case j of JString s \<Rightarrow> Some s | _ \<Rightarrow> None)"

definition as_bool :: "json \<Rightarrow> bool option" where
  "as_bool j = (case j of JBool b \<Rightarrow> Some b | _ \<Rightarrow> None)"

definition as_array :: "json \<Rightarrow> json list option" where
  "as_array j = (case j of JArray xs \<Rightarrow> Some xs | _ \<Rightarrow> None)"

definition as_object :: "json \<Rightarrow> (ustr \<times> json) list option" where
  "as_object j = (case j of JObject kvs \<Rightarrow> Some kvs | _ \<Rightarrow> None)"

definition is_null :: "json \<Rightarrow> bool" where
  "is_null j \<longleftrightarrow> j = JNull"

definition as_i64 :: "json \<Rightarrow> int option" where
  "as_i64 j = (case j of JInt n \<Rightarrow> if - (2 ^ 63) \<le> n \<and> n < 2 ^ 63 then Some n else None | _ \<Rightarrow> None)"

definition as_u64 :: "json \<Rightarrow> int option" where
  "as_u64 j = (case j of JInt n \<Rightarrow> if 0 \<le> n \<and> n < 2 ^ 64 then Some n else None | _ \<Rightarrow> None)"

text \<open>\<open>parse\<close> of the integer types: an optional sign, digits, and the range; a minus only where
  the type is signed.\<close>

definition parse_i64 :: "ustr \<Rightarrow> int option" where
  "parse_i64 s =
     (let neg = starts_with s [45];
          ds = (if neg \<or> starts_with s [43] then drop 1 s else s);
          v = (if neg then - digits_value ds else digits_value ds)
      in if ds \<noteq> [] \<and> list_all is_ascii_digit ds \<and> - (2 ^ 63) \<le> v \<and> v < 2 ^ 63 then Some v else None)"

definition parse_u64 :: "ustr \<Rightarrow> int option" where
  "parse_u64 s =
     (let ds = (if starts_with s [43] then drop 1 s else s); v = digits_value ds
      in if ds \<noteq> [] \<and> list_all is_ascii_digit ds \<and> v < 2 ^ 64 then Some v else None)"

end
