(* ===== verification/Github.thy ===== *)
theory Github
  imports Status_Engine Merge_Readiness Json_Values
begin

text \<open>
  GitHub through its command line, \<open>src-tauri/src/gh.rs\<close>: reading a pull request, the column
  it argues for, the poll over all workers, creating and linking repositories, opening
  and merging pull requests, and the local merge.  \<open>git\<close> and \<open>gh\<close> are programs of the machine:
  a run takes the outside world and leaves a result and the next world.
\<close>

section \<open>Running programs\<close>

datatype program = Git | Gh

record 'w machine_tools =
  run_program :: "program \<Rightarrow> ustr list \<Rightarrow> ustr \<Rightarrow> 'w \<Rightarrow> (ustr + tool_output) \<times> 'w"
  is_directory :: "ustr \<Rightarrow> 'w \<Rightarrow> bool"

definition program_name :: "program \<Rightarrow> ustr" where
  "program_name p = (case p of Git \<Rightarrow> lit ''git'' | Gh \<Rightarrow> lit ''gh'')"

text \<open>A run that only asks whether it succeeded.\<close>

definition succeeds ::
  "'w machine_tools \<Rightarrow> program \<Rightarrow> ustr list \<Rightarrow> ustr \<Rightarrow> 'w \<Rightarrow> bool \<times> 'w" where
  "succeeds tools p args cwd w =
     (case run_program tools p args cwd w of
        (Ok o', w) \<Rightarrow> (success o', w)
      | (Err _, w) \<Rightarrow> (False, w))"

text \<open>What a successful run printed.\<close>

definition printed ::
  "'w machine_tools \<Rightarrow> program \<Rightarrow> ustr list \<Rightarrow> ustr \<Rightarrow> 'w \<Rightarrow> ustr option \<times> 'w" where
  "printed tools p args cwd w =
     (case run_program tools p args cwd w of
        (Ok o', w) \<Rightarrow> (if success o' then Some (stdout o') else None, w)
      | (Err _, w) \<Rightarrow> (None, w))"

section \<open>Pull requests\<close>

definition to_ascii_uppercase :: "ustr \<Rightarrow> ustr" where
  "to_ascii_uppercase s = map (\<lambda>c. if 97 \<le> c \<and> c \<le> 122 then c - 32 else c) s"

record pr_facts =
  pr_url :: ustr
  pr_state :: ustr
  is_draft :: bool
  review_decision :: "ustr option"
  checks_green :: bool

definition check_is_green :: "json \<Rightarrow> bool" where
  "check_is_green check =
     (let verdict = to_ascii_uppercase
            (case or_else (opt_then (jget (lit ''conclusion'') check) as_str)
                          (opt_then (jget (lit ''state'') check) as_str) of
               None \<Rightarrow> [] | Some s \<Rightarrow> s)
      in verdict \<in> {lit ''SUCCESS'', lit ''NEUTRAL'', lit ''SKIPPED''})"

definition parse_pr_list :: "(ustr \<Rightarrow> json option) \<Rightarrow> ustr \<Rightarrow> pr_facts option" where
  "parse_pr_list from_str raw =
     opt_then (from_str raw) (\<lambda>parsed.
     opt_then (as_array parsed) (\<lambda>prs.
     opt_then (list_next prs) (\<lambda>pr.
     opt_then (opt_then (jget (lit ''url'') pr) as_str) (\<lambda>url.
     Some \<lparr> pr_url = url,
            pr_state = to_ascii_uppercase
              (case opt_then (jget (lit ''state'') pr) as_str of None \<Rightarrow> lit ''OPEN'' | Some s \<Rightarrow> s),
            is_draft =
              (case opt_then (jget (lit ''isDraft'') pr) as_bool of None \<Rightarrow> False | Some b \<Rightarrow> b),
            review_decision =
              opt_filter (\<lambda>d. d \<noteq> [])
                (map_option to_ascii_uppercase (opt_then (jget (lit ''reviewDecision'') pr) as_str)),
            checks_green =
              (case opt_then (jget (lit ''statusCheckRollup'') pr) as_array of
                 None \<Rightarrow> True | Some checks \<Rightarrow> list_all check_is_green checks) \<rparr>))))"

definition open_verdict :: "pr_facts \<Rightarrow> verdict" where
  "open_verdict f =
     (if review_decision f = Some (lit ''CHANGES_REQUESTED'')
      then coded COL_NEEDS_YOU reason_code.ChangesRequested
      else if review_decision f = Some (lit ''APPROVED'')
      then (if \<not> is_draft f \<and> checks_green f then coded COL_READY_TO_MERGE ReviewApproved
            else if is_draft f then coded COL_IN_REVIEW ApprovedButDraft
            else coded COL_IN_REVIEW ChecksPending)
      else if is_draft f then coded COL_IN_REVIEW ReviewDraft
      else coded COL_IN_REVIEW ReviewPending)"

definition verdict_for :: "pr_facts \<Rightarrow> verdict option" where
  "verdict_for f =
     (if pr_state f = lit ''MERGED'' then Some (coded COL_DONE PullRequestMerged)
      else if pr_state f = lit ''CLOSED'' then None
      else if pr_state f = lit ''OPEN'' then Some (open_verdict f)
      else None)"

section \<open>Asking the tools\<close>

definition gh_available :: "'w machine_tools \<Rightarrow> 'w \<Rightarrow> bool \<times> 'w" where
  "gh_available tools w = succeeds tools Gh [lit ''--version''] [] w"

definition has_github_remote :: "'w machine_tools \<Rightarrow> ustr \<Rightarrow> 'w \<Rightarrow> bool \<times> 'w" where
  "has_github_remote tools repo w =
     (if \<not> is_directory tools repo w then (False, w)
      else
        case printed tools Git [lit ''-C'', repo, lit ''remote'', lit ''-v''] [] w of
          (None, w) \<Rightarrow> (False, w)
        | (Some out, w) \<Rightarrow> (str_contains (to_ascii_lowercase out) (lit ''github.com''), w))"

definition GH_FIELDS :: ustr where
  "GH_FIELDS = lit ''url,state,isDraft,reviewDecision,statusCheckRollup''"

definition pr_for_branch ::
  "'w machine_tools \<Rightarrow> (ustr \<Rightarrow> json option) \<Rightarrow> ustr \<Rightarrow> ustr \<Rightarrow> 'w \<Rightarrow> pr_facts option \<times> 'w" where
  "pr_for_branch tools from_str repo branch w =
     (case printed tools Gh
        [lit ''pr'', lit ''list'', lit ''--head'', branch, lit ''--state'', lit ''all'', lit ''--limit'',
         lit ''1'', lit ''--json'', GH_FIELDS] repo w of
        (None, w) \<Rightarrow> (None, w)
      | (Some out, w) \<Rightarrow> (parse_pr_list from_str out, w))"

text \<open>One sweep.  The store's answers are the projects with their workers, or that they could not
  be read; the urls written back are a list, since a failed write is ignored.\<close>

record project =
  pj_id :: ustr
  pj_repo_path :: ustr
  pj_test_command :: "ustr option"

definition poll_worker ::
  "'w machine_tools \<Rightarrow> (ustr \<Rightarrow> json option) \<Rightarrow> int \<Rightarrow> ustr \<Rightarrow> worker \<Rightarrow>
   'w \<times> status_engine \<times> (ustr \<times> ustr option) list \<Rightarrow> 'w \<times> status_engine \<times> (ustr \<times> ustr option) list" where
  "poll_worker tools from_str unix repo worker = (\<lambda>(w, e, urls).
     let (found, w) = pr_for_branch tools from_str repo (wk_branch worker) w;
         url = map_option pr_url found
     in (w, note_gh unix (wk_id worker) (opt_then found verdict_for) url e, urls @ [(wk_id worker, url)]))"

definition polled :: "worker \<Rightarrow> bool" where
  "polled worker \<longleftrightarrow> wk_status worker \<noteq> STATUS_ARCHIVED \<and> wk_branch worker \<noteq> []"

definition poll_project ::
  "'w machine_tools \<Rightarrow> (ustr \<Rightarrow> json option) \<Rightarrow> int \<Rightarrow> project \<times> (ustr + worker list) \<Rightarrow>
   nat \<times> 'w \<times> status_engine \<times> (ustr \<times> ustr option) list \<Rightarrow>
   nat \<times> 'w \<times> status_engine \<times> (ustr \<times> ustr option) list" where
  "poll_project tools from_str unix pw = (\<lambda>(checked, w, e, urls).
     let (github, w) = has_github_remote tools (pj_repo_path (fst pw)) w in
     if \<not> github then (checked, w, e, urls)
     else
       case snd pw of
         Err _ \<Rightarrow> (checked, w, e, urls)
       | Ok ws \<Rightarrow>
           (checked + length (filter polled ws),
            foldl (\<lambda>s worker. poll_worker tools from_str unix (pj_repo_path (fst pw)) worker s) (w, e, urls)
              (filter polled ws)))"

definition poll_once ::
  "'w machine_tools \<Rightarrow> (ustr \<Rightarrow> json option) \<Rightarrow> int \<Rightarrow> ustr + (project \<times> (ustr + worker list)) list \<Rightarrow>
   'w \<Rightarrow> status_engine \<Rightarrow> nat \<times> 'w \<times> status_engine \<times> (ustr \<times> ustr option) list" where
  "poll_once tools from_str unix projects w e =
     (case gh_available tools w of
        (False, w) \<Rightarrow> (0, w, e, [])
      | (True, w) \<Rightarrow>
          (case projects of
             Err _ \<Rightarrow> (0, w, e, [])
           | Ok ps \<Rightarrow> foldl (\<lambda>s pw. poll_project tools from_str unix pw s) (0, w, e, []) ps))"


section \<open>Creating and linking repositories\<close>

definition CREATE_TIMEOUT :: int where "CREATE_TIMEOUT = 180000"

definition CREATE_POLL_INTERVAL :: int where "CREATE_POLL_INTERVAL = 50"

definition ORIGIN_EXISTS :: ustr where
  "ORIGIN_EXISTS =
     ERR_REFUSED @ lit ''remote '' @ [39] @ lit ''origin'' @ [39] @ lit '' already exists''"

definition validate_repo_name :: "ustr \<Rightarrow> ustr + unit" where
  "validate_repo_name name =
     (let name = trim name in
      if name = [] then Err (lit ''repository name is required'')
      else if is_ascii_alphanumeric (hd name) \<and>
              list_all (\<lambda>c. is_ascii_alphanumeric c \<or> c = 45 \<or> c = 95 \<or> c = 46) name \<and>
              \<not> ends_with name (lit ''.git'')
      then Ok ()
      else Err (lit ''invalid repository name: '' @ name))"

definition build_gh_create_args :: "ustr \<Rightarrow> bool \<Rightarrow> ustr \<Rightarrow> ustr list" where
  "build_gh_create_args name private repo =
     [lit ''repo'', lit ''create'', name, (if private then lit ''--private'' else lit ''--public''),
      lit ''--source'', repo, lit ''--remote'', lit ''origin'', lit ''--push'']"

definition valid_github_url :: "ustr \<Rightarrow> ustr + unit" where
  "valid_github_url url =
     (let url = trim url in
      if url = [] then Err (lit ''url is required'')
      else if starts_with url (lit ''https://github.com/'') \<or> starts_with url (lit ''git@github.com:'')
      then Ok ()
      else Err (lit ''unsupported github url: '' @ url))"

definition truncate_text :: "ustr \<Rightarrow> nat \<Rightarrow> ustr" where
  "truncate_text t cap = (if length t \<le> cap then t else take cap t)"

definition remote_origin_exists :: "'w machine_tools \<Rightarrow> ustr \<Rightarrow> 'w \<Rightarrow> bool \<times> 'w" where
  "remote_origin_exists tools repo w =
     succeeds tools Git [lit ''-C'', repo, lit ''remote'', lit ''get-url'', lit ''origin''] [] w"

text \<open>A child process under a bounded wait: what the \<open>k\<close>-th look at it says, and the time that
  has passed then; what \<open>kill\<close> answers; what the blocking \<open>wait\<close> answers, for a process that was
  killed and for one that was not; and what \<open>wait_with_output\<close> collects.  \<open>None\<close> is a call that never
  returns.\<close>

record child =
  try_wait :: "nat \<Rightarrow> ustr + int option option"
  elapsed :: "nat \<Rightarrow> int"
  kill_child :: "ustr + unit"
  wait_child :: "bool \<Rightarrow> (ustr + int option) option"
  collect :: "(ustr + ustr) option"

datatype waited = Ended "int option" | Wait_Failed ustr | Timed_Out

fun wait_loop :: "nat \<Rightarrow> child \<Rightarrow> nat \<Rightarrow> waited option" where
  "wait_loop 0 c k = None"
| "wait_loop (Suc n) c k =
     (case try_wait c k of
        Err e \<Rightarrow> Some (Wait_Failed e)
      | Ok (Some ended) \<Rightarrow> Some (Ended ended)
      | Ok None \<Rightarrow> if CREATE_TIMEOUT \<le> elapsed c k then Some Timed_Out else wait_loop n c (Suc k))"

definition CREATE_LOOKS :: nat where "CREATE_LOOKS = 3601"

record 'w spawner =
  spawn :: "ustr list \<Rightarrow> ustr \<Rightarrow> 'w \<Rightarrow> (ustr + child) \<times> 'w"

text \<open>After the wait: reading the result, or saying what a run that took too long left behind.\<close>

definition origin_url :: "'w machine_tools \<Rightarrow> ustr \<Rightarrow> 'w \<Rightarrow> (ustr + ustr) \<times> 'w" where
  "origin_url tools repo w =
     (case run_program tools Git [lit ''-C'', repo, lit ''remote'', lit ''get-url'', lit ''origin''] [] w of
        (Err e, w) \<Rightarrow> (Err (lit ''failed to read the remote url: '' @ e), w)
      | (Ok o', w) \<Rightarrow>
          (if \<not> success o' \<or> trim (stdout o') = []
           then Err (lit ''the repository was created on github, but reading the origin url failed'')
           else Ok (trim (stdout o')), w))"

definition exit_text :: "int option \<Rightarrow> ustr" where
  "exit_text ec = lit ''exited with '' @ decimal_int (case ec of None \<Rightarrow> - 1 | Some c \<Rightarrow> c)"

definition after_wait ::
  "'w machine_tools \<Rightarrow> ustr \<Rightarrow> child \<Rightarrow> waited \<Rightarrow> 'w \<Rightarrow> ((ustr + ustr) \<times> 'w) option" where
  "after_wait tools repo c r w =
     (case r of
        Wait_Failed e \<Rightarrow> Some (Err (lit ''failed to wait for gh: '' @ e), w)
      | Timed_Out \<Rightarrow>
          opt_then (wait_child c (is_ok (kill_child c))) (\<lambda>_. Some
          (case remote_origin_exists tools repo w of
             (True, w) \<Rightarrow>
               (Err (lit ''gh did not finish within 180s, but the repository and the'' @
                     replicate 22 32 @
                     [39] @ lit ''origin'' @ [39] @ lit '' remote were created; the push may be incomplete -'' @
                     replicate 22 32 @
                     lit ''run `git push -u origin HEAD` in the project to finish it''), w)
           | (False, w) \<Rightarrow> (Err (lit ''gh did not finish within 180s''), w)))
      | Ended ended \<Rightarrow>
          opt_then (collect c) (\<lambda>collected. Some
          (case collected of
             Err e \<Rightarrow> (Err (lit ''failed to collect gh'' @ [39] @ lit ''s output: '' @ e), w)
           | Ok errors \<Rightarrow>
               if ended \<noteq> Some 0
               then (Err (lit ''gh repo create failed: '' @
                          (if trim errors = [] then exit_text ended else truncate_text (trim errors) 500)), w)
               else origin_url tools repo w)))"

definition create_github_repo ::
  "'w machine_tools \<Rightarrow> 'w spawner \<Rightarrow> ustr \<Rightarrow> ustr \<Rightarrow> bool \<Rightarrow> 'w \<Rightarrow> ((ustr + ustr) \<times> 'w) option" where
  "create_github_repo tools sp repo name private w =
     (case validate_repo_name name of
        Err e \<Rightarrow> Some (Err e, w)
      | Ok _ \<Rightarrow>
          if \<not> is_directory tools repo w
          then Some (Err (lit ''not a repository directory: '' @ repo), w)
          else
            case remote_origin_exists tools repo w of
              (True, w) \<Rightarrow> Some (Err ORIGIN_EXISTS, w)
            | (False, w) \<Rightarrow>
                (case gh_available tools w of
                   (False, w) \<Rightarrow> Some (Err (lit ''github cli (gh) is not available''), w)
                 | (True, w) \<Rightarrow>
                     (case spawn sp (build_gh_create_args (trim name) private repo) repo w of
                        (Err e, w) \<Rightarrow> Some (Err (lit ''failed to start gh: '' @ e), w)
                      | (Ok c, w) \<Rightarrow>
                          opt_then (wait_loop CREATE_LOOKS c 0) (\<lambda>r. after_wait tools repo c r w))))"

definition link_github_remote ::
  "'w machine_tools \<Rightarrow> ustr \<Rightarrow> ustr \<Rightarrow> 'w \<Rightarrow> (ustr + unit) \<times> 'w" where
  "link_github_remote tools repo url w =
     (case valid_github_url url of
        Err e \<Rightarrow> (Err e, w)
      | Ok _ \<Rightarrow>
          if \<not> is_directory tools repo w then (Err (lit ''not a repository directory: '' @ repo), w)
          else
            case remote_origin_exists tools repo w of
              (True, w) \<Rightarrow> (Err ORIGIN_EXISTS, w)
            | (False, w) \<Rightarrow>
                (case run_program tools Git
                   [lit ''-C'', repo, lit ''remote'', lit ''add'', lit ''origin'', trim url] [] w of
                   (Err e, w) \<Rightarrow> (Err (lit ''failed to run git: '' @ e), w)
                 | (Ok o', w) \<Rightarrow>
                     (if success o' then Ok ()
                      else Err (lit ''git remote add origin failed: '' @ truncate_text (trim (stderr o')) 500),
                      w)))"


section \<open>Merging\<close>

definition build_push_args :: "ustr \<Rightarrow> ustr \<Rightarrow> ustr list" where
  "build_push_args repo branch = [lit ''-C'', repo, lit ''push'', lit ''-u'', lit ''origin'', branch]"

definition build_pr_create_args :: "ustr \<Rightarrow> ustr \<Rightarrow> ustr \<Rightarrow> ustr list" where
  "build_pr_create_args branch title body =
     [lit ''pr'', lit ''create'', lit ''--head'', branch, lit ''--title'', title, lit ''--body'', body]"

definition build_pr_merge_args :: "ustr \<Rightarrow> ustr list" where
  "build_pr_merge_args branch = [lit ''pr'', lit ''merge'', branch, lit ''--merge'']"

definition build_merge_args :: "ustr \<Rightarrow> ustr \<Rightarrow> ustr list" where
  "build_merge_args repo branch = [lit ''-C'', repo, lit ''merge'', lit ''--no-ff'', branch]"

definition build_checkout_args :: "ustr \<Rightarrow> ustr \<Rightarrow> ustr list" where
  "build_checkout_args repo branch = [lit ''-C'', repo, lit ''checkout'', branch]"

definition run_tool ::
  "'w machine_tools \<Rightarrow> program \<Rightarrow> ustr list \<Rightarrow> ustr \<Rightarrow> ustr \<Rightarrow> 'w \<Rightarrow> (ustr + ustr) \<times> 'w" where
  "run_tool tools p args repo label w =
     (case run_program tools p args repo w of
        (Err e, w) \<Rightarrow> (Err (lit ''failed to start '' @ program_name p @ lit '': '' @ e), w)
      | (Ok o', w) \<Rightarrow>
          let out = trim (stdout o') in
          if success o' then (Ok out, w)
          else
            let detail = join [10] (filter (\<lambda>part. part \<noteq> []) [trim (stderr o'), out]);
                detail = (if detail = [] then exit_text (exit_code o') else truncate_text detail 2000)
            in (Err (label @ lit '' failed: '' @ detail), w))"

definition extract_pr_url :: "ustr \<Rightarrow> ustr option" where
  "extract_pr_url out =
     find (\<lambda>line. starts_with line (lit ''https://'') \<and> str_contains line (lit ''/pull/''))
       (rev (map trim (str_lines out)))"

definition current_branch :: "'w machine_tools \<Rightarrow> ustr \<Rightarrow> 'w \<Rightarrow> ustr option \<times> 'w" where
  "current_branch tools repo w =
     (case printed tools Git [lit ''-C'', repo, lit ''rev-parse'', lit ''--abbrev-ref'', lit ''HEAD''] [] w of
        (None, w) \<Rightarrow> (None, w)
      | (Some out, w) \<Rightarrow> (if trim out = [] then None else Some (trim out), w))"

definition branch_exists :: "'w machine_tools \<Rightarrow> ustr \<Rightarrow> ustr \<Rightarrow> 'w \<Rightarrow> bool \<times> 'w" where
  "branch_exists tools repo branch w =
     succeeds tools Git
       [lit ''-C'', repo, lit ''rev-parse'', lit ''--verify'', lit ''--quiet'', lit ''refs/heads/'' @ branch] [] w"

fun first_branch :: "'w machine_tools \<Rightarrow> ustr \<Rightarrow> ustr list \<Rightarrow> 'w \<Rightarrow> ustr \<times> 'w" where
  "first_branch tools repo [] w = (lit ''main'', w)"
| "first_branch tools repo (b # bs) w =
     (case branch_exists tools repo b w of
        (True, w) \<Rightarrow> (b, w)
      | (False, w) \<Rightarrow> first_branch tools repo bs w)"

definition default_base_branch :: "'w machine_tools \<Rightarrow> ustr \<Rightarrow> 'w \<Rightarrow> ustr \<times> 'w" where
  "default_base_branch tools repo w =
     (case printed tools Git
        [lit ''-C'', repo, lit ''symbolic-ref'', lit ''--short'', lit ''--quiet'', lit ''refs/remotes/origin/HEAD'']
        [] w of
        (out, w) \<Rightarrow>
          (case opt_filter (\<lambda>h. h \<noteq> []) (map_option trim out) of
             Some head \<Rightarrow> (case strip_prefix (lit ''origin/'') head of Some b \<Rightarrow> b | None \<Rightarrow> head, w)
           | None \<Rightarrow> first_branch tools repo [lit ''main'', lit ''master''] w))"

definition create_pr ::
  "'w machine_tools \<Rightarrow> ustr \<Rightarrow> ustr \<Rightarrow> ustr \<Rightarrow> ustr \<Rightarrow> 'w \<Rightarrow> (ustr + ustr) \<times> 'w" where
  "create_pr tools repo branch title body w =
     (if trim branch = []
      then (Err (lit ''this worker has no branch to open a pull request for''), w)
      else if \<not> is_directory tools repo w
      then (Err (lit ''not a repository directory: '' @ repo), w)
      else
        case gh_available tools w of
          (False, w) \<Rightarrow> (Err (lit ''github cli (gh) is not available''), w)
        | (True, w) \<Rightarrow>
            (case run_tool tools Git (build_push_args repo branch) repo (lit ''git push'') w of
               (Err e, w) \<Rightarrow> (Err e, w)
             | (Ok _, w) \<Rightarrow>
                 (case run_tool tools Gh (build_pr_create_args branch title body) repo (lit ''gh pr create'') w of
                    (Err e, w) \<Rightarrow> (Err e, w)
                  | (Ok out, w) \<Rightarrow>
                      (ok_or (extract_pr_url out)
                         (lit ''gh pr create printed no pull request url: '' @ truncate_text out 500), w))))"

definition merge_pr :: "'w machine_tools \<Rightarrow> ustr \<Rightarrow> ustr \<Rightarrow> 'w \<Rightarrow> (ustr + unit) \<times> 'w" where
  "merge_pr tools repo branch w =
     (if trim branch = [] then (Err (lit ''this worker has no branch to merge''), w)
      else if \<not> is_directory tools repo w
      then (Err (lit ''not a repository directory: '' @ repo), w)
      else
        case gh_available tools w of
          (False, w) \<Rightarrow> (Err (lit ''github cli (gh) is not available''), w)
        | (True, w) \<Rightarrow>
            (case run_tool tools Gh (build_pr_merge_args branch) repo (lit ''gh pr merge'') w of
               (Err e, w) \<Rightarrow> (Err e, w)
             | (Ok _, w) \<Rightarrow> (Ok (), w)))"

definition branch_merged_into :: "'w machine_tools \<Rightarrow> ustr \<Rightarrow> ustr \<Rightarrow> ustr \<Rightarrow> 'w \<Rightarrow> bool \<times> 'w" where
  "branch_merged_into tools repo base branch w =
     succeeds tools Git
       [lit ''-C'', repo, lit ''merge-base'', lit ''--is-ancestor'', branch, base] [] w"

definition merge_local :: "'w machine_tools \<Rightarrow> ustr \<Rightarrow> ustr \<Rightarrow> ustr \<Rightarrow> 'w \<Rightarrow> (ustr + unit) \<times> 'w" where
  "merge_local tools repo base branch w =
     (if trim branch = [] then (Err (lit ''this worker has no branch to merge''), w)
      else if \<not> is_directory tools repo w
      then (Err (lit ''not a repository directory: '' @ repo), w)
      else
        case current_branch tools repo w of
          (at, w) \<Rightarrow>
            (case (if at = Some base then (Ok [], w)
                   else run_tool tools Git (build_checkout_args repo base) repo (lit ''git checkout'') w) of
               (Err e, w) \<Rightarrow> (Err e, w)
             | (Ok _, w) \<Rightarrow>
                 (case run_tool tools Git (build_merge_args repo branch) repo (lit ''git merge'') w of
                    (Err e, w) \<Rightarrow> (Err e, w)
                  | (Ok _, w) \<Rightarrow> (Ok (), w))))"

end
