(* ===== verification/Merge_Machine.thy ===== *)
theory Merge_Machine
  imports Github
begin

text \<open>
  From a test run to a merged branch, \<open>src-tauri/src/workers.rs\<close>: the evidence a test run and a
  review leave behind, the facts a merge is judged by, and the merge itself, which asks git and
  GitHub what is already true and writes every step down.  The state is the rows of one worker
  in the store with the world outside.  Every SQL statement may fail, by an outcome the state
  holds; a crash at a point leaves the same state as a failure of the next statement or
  effect.  Two history variables, the steps taken and the evidence gathered, are written
  along and read by nothing.
\<close>

section \<open>Evidence rows\<close>

record review_evidence =
  ev_code :: code_tuple
  ev_policy_hash :: "ustr option"
  ev_test_passed :: "int option"
  ev_tested_at :: "int option"
  ev_acceptance_hash :: "ustr option"
  ev_reviewed_by :: "ustr option"
  ev_approval_source :: "ustr option"
  ev_approval_decision :: "ustr option"
  ev_approved_at :: "int option"
  ev_prune_offered :: int

definition DECISION_APPROVED :: ustr where "DECISION_APPROVED = lit ''approved''"
definition DECISION_CHANGES :: ustr where "DECISION_CHANGES = lit ''changes_requested''"
definition APPROVAL_DESKTOP :: ustr where "APPROVAL_DESKTOP = lit ''desktop''"
definition APPROVAL_VERDICT :: ustr where "APPROVAL_VERDICT = lit ''verdict_token''"
definition MERGE_MERGED :: ustr where "MERGE_MERGED = lit ''merged''"

definition test_record_of :: "review_evidence \<Rightarrow> test_record option" where
  "test_record_of r =
     opt_then (ev_policy_hash r) (\<lambda>hash.
     opt_then (ev_test_passed r) (\<lambda>p.
       Some \<lparr> tr_code = ev_code r, verification_policy_hash = hash, passed = (p \<noteq> 0) \<rparr>))"

definition decision_of :: "ustr option \<Rightarrow> approval_decision option" where
  "decision_of d =
     (if d = Some DECISION_APPROVED then Some Approved
      else if d = Some DECISION_CHANGES then Some Changes_Requested else None)"

definition source_of :: "ustr option \<Rightarrow> approval_source" where
  "source_of s =
     (if s = Some APPROVAL_DESKTOP then Desktop
      else if s = Some APPROVAL_VERDICT then VerdictToken else Unverified)"

definition or_empty :: "ustr option \<Rightarrow> ustr" where
  "or_empty s = (case s of None \<Rightarrow> [] | Some t \<Rightarrow> t)"

definition approval_record_of :: "review_evidence \<Rightarrow> approval_record option" where
  "approval_record_of r =
     map_option (\<lambda>d. \<lparr> ar_code = ev_code r, acceptance_hash = or_empty (ev_acceptance_hash r),
                       reviewed_by = or_empty (ev_reviewed_by r),
                       ar_source = source_of (ev_approval_source r), decision = d \<rparr>)
       (decision_of (ev_approval_decision r))"

section \<open>The state\<close>

datatype merge_step =
  Created_Pr ustr | Recorded_Url ustr | Merged_Pr | Merged_Local ustr | Recorded_Merge | Set_Archived

datatype evidence_event =
  Run_Started | Test_Bound code_tuple ustr bool | Reviewed code_tuple ustr ustr

record 'w merge_world =
  outside :: 'w
  mw_row :: "worker option"
  mw_project :: "project option"
  mw_merge_state :: "ustr option"
  mw_evidence :: "review_evidence option"
  sql_outcomes :: "ustr option list"
  mw_engine :: status_engine
  messages :: "ustr list"
  steps :: "merge_step list"
  history :: "evidence_event list"

text \<open>Computations that may fail, over the state; \<open>?\<close> is \<open>st_then\<close>.\<close>

definition st_then ::
  "('s \<Rightarrow> (ustr + 'a) \<times> 's) \<Rightarrow> ('a \<Rightarrow> 's \<Rightarrow> (ustr + 'b) \<times> 's) \<Rightarrow> 's \<Rightarrow> (ustr + 'b) \<times> 's" where
  "st_then m k s = (case m s of (Err e, s) \<Rightarrow> (Err e, s) | (Ok a, s) \<Rightarrow> k a s)"

definition st_return :: "'a \<Rightarrow> 's \<Rightarrow> (ustr + 'a) \<times> 's" where
  "st_return a s = (Ok a, s)"

definition st_result :: "ustr + 'a \<Rightarrow> 's \<Rightarrow> (ustr + 'a) \<times> 's" where
  "st_result r s = (r, s)"

text \<open>One SQL statement: its change of the rows when it succeeds.\<close>

definition sql ::
  "('w merge_world \<Rightarrow> 'w merge_world) \<Rightarrow> 'w merge_world \<Rightarrow> (ustr + unit) \<times> 'w merge_world" where
  "sql change s =
     (case sql_outcomes s of
        [] \<Rightarrow> (Ok (), change s)
      | None # rest \<Rightarrow> (Ok (), change (s\<lparr>sql_outcomes := rest\<rparr>))
      | Some e # rest \<Rightarrow> (Err e, s\<lparr>sql_outcomes := rest\<rparr>))"

definition read_sql ::
  "('w merge_world \<Rightarrow> 'a) \<Rightarrow> 'w merge_world \<Rightarrow> (ustr + 'a) \<times> 'w merge_world" where
  "read_sql f = st_then (sql (\<lambda>s. s)) (\<lambda>_ s. (Ok (f s), s))"

definition note_step :: "merge_step \<Rightarrow> 'w merge_world \<Rightarrow> 'w merge_world" where
  "note_step st s = s\<lparr>steps := steps s @ [st]\<rparr>"

definition on_outside ::
  "('w \<Rightarrow> (ustr + 'a) \<times> 'w) \<Rightarrow> ('a \<Rightarrow> merge_step list) \<Rightarrow> 'w merge_world \<Rightarrow>
   (ustr + 'a) \<times> 'w merge_world" where
  "on_outside f did s =
     (case f (outside s) of
        (Err e, w) \<Rightarrow> (Err e, s\<lparr>outside := w\<rparr>)
      | (Ok a, w) \<Rightarrow> (Ok a, s\<lparr>outside := w, steps := steps s @ did a\<rparr>))"

definition log_message :: "ustr \<Rightarrow> 'w merge_world \<Rightarrow> 'w merge_world" where
  "log_message m s = s\<lparr>messages := messages s @ [m]\<rparr>"

section \<open>The facts\<close>

record last_run =
  lr_ok :: bool
  lr_inputs_hash :: ustr
  lr_base_sha :: ustr
  lr_command :: ustr

text \<open>What a call finds around it: directories, git, the live session, which reads of the store fail,
  and the answers of the setup gate.\<close>

record surroundings =
  is_dir_at :: "ustr \<Rightarrow> bool"
  git_at :: "ustr \<Rightarrow> git_answers"
  base_name :: ustr
  has_session :: bool
  merge_state_readable :: bool
  evidence_readable :: bool
  read_open_comments :: "ustr + nat"
  read_setup_command :: "ustr + ustr option"
  read_setup_trust :: "ustr + trust_grant option"
  current_grant :: "ustr \<Rightarrow> ustr \<Rightarrow> trust_grant"
  grant_for_tree :: "ustr \<Rightarrow> code_tuple \<Rightarrow> ustr \<Rightarrow> ustr + trust_grant"
  read_last_run :: "ustr \<Rightarrow> code_tuple \<Rightarrow> ustr option \<Rightarrow> last_run option"
  debug_text :: "ustr \<Rightarrow> ustr"
  now_unix :: int
  now_instant :: int

definition ok_flatten :: "ustr + 'a option \<Rightarrow> 'a option" where
  "ok_flatten r = (case r of Ok x \<Rightarrow> x | Err _ \<Rightarrow> None)"

definition lifecycle_of :: "worker \<Rightarrow> ustr option \<Rightarrow> bool \<Rightarrow> lifecycle" where
  "lifecycle_of worker merge_state live =
     (if merge_state = Some MERGE_MERGED then Merged
      else if wk_status worker = STATUS_ARCHIVED then Archived
      else if live \<or> wk_status worker = STATUS_RUNNING then Running
      else if wk_status worker = STATUS_EXITED then Exited
      else Failed)"

definition evidence_repo_ref :: "surroundings \<Rightarrow> worker \<Rightarrow> project \<Rightarrow> ustr \<times> ustr" where
  "evidence_repo_ref su worker project =
     (if is_dir_at su (wk_worktree_path worker) then (wk_worktree_path worker, lit ''HEAD'')
      else (pj_repo_path project, wk_branch worker))"

definition measure_at :: "surroundings \<Rightarrow> ustr \<Rightarrow> ustr \<Rightarrow> git_probe + code_tuple" where
  "measure_at su repo worker_ref = measure_code (is_dir_at su repo) (git_at su repo) (base_name su) worker_ref"

definition current_trust_of ::
  "surroundings \<Rightarrow> project \<Rightarrow> ustr \<Rightarrow> code_tuple option \<Rightarrow> ustr option \<Rightarrow> trust_grant" where
  "current_trust_of su project repo tup command =
     (let g = current_grant su (or_empty command)
                (case tup of None \<Rightarrow> [] | Some c \<Rightarrow> base_tip_sha c)
      in
      case (tup, command) of
        (Some c, Some cmd) \<Rightarrow>
          (case grant_for_tree su repo c cmd of
             Ok g' \<Rightarrow> g'
           | Err _ \<Rightarrow> g\<lparr>tg_inputs_hash := lit ''unreadable merge candidate''\<rparr>)
      | _ \<Rightarrow> g)"

definition run_on_record :: "last_run option \<Rightarrow> trust_grant \<Rightarrow> bool" where
  "run_on_record last' g =
     (case last' of
        None \<Rightarrow> False
      | Some r \<Rightarrow> lr_ok r \<and> lr_inputs_hash r = tg_inputs_hash g \<and> lr_base_sha r = base_sha g \<and>
          lr_command r = command_normalized g)"

definition facts_for_merge ::
  "surroundings \<Rightarrow> ustr option \<Rightarrow> review_evidence option \<Rightarrow> worker \<Rightarrow> project \<Rightarrow> facts" where
  "facts_for_merge su merge_state evidence worker project =
     (let lifecycle = lifecycle_of worker (if merge_state_readable su then merge_state else None) (has_session su);
          (repo, worker_ref) = evidence_repo_ref su worker project;
          dirty' = (case worktree_dirty (git_at su repo) of Ok d \<Rightarrow> d | Err _ \<Rightarrow> True);
          measured = measure_at su repo worker_ref;
          tup = (case measured of Ok c \<Rightarrow> Some c | Err _ \<Rightarrow> None);
          probe = (case measured of Ok c \<Rightarrow> Clean (merge_tree_oid c) | Err p \<Rightarrow> p);
          (ahead', behind') =
            (case measured of
               Ok _ \<Rightarrow> (case ahead_behind (git_at su repo) (base_name su) worker_ref of
                          Ok ab \<Rightarrow> ab | Err _ \<Rightarrow> (0, 0))
             | Err _ \<Rightarrow> (0, 0));
          comments = (case read_open_comments su of Ok n \<Rightarrow> n | Err _ \<Rightarrow> 0);
          evidence = (if evidence_readable su then evidence else None);
          setup = ok_flatten (read_setup_command su);
          policy = (case pj_test_command project of
                      None \<Rightarrow> []
                    | Some command \<Rightarrow> verification_policy_with_setup (debug_text su) command setup);
          trust = current_trust_of su project repo tup setup;
          last_root = (if is_dir_at su (wk_worktree_path worker) then wk_worktree_path worker
                       else pj_repo_path project);
          last' = opt_then tup (\<lambda>c. read_last_run su last_root c setup)
      in
      \<lparr> fc_lifecycle = lifecycle, agent_running = has_session su, dirty = dirty', fc_git = probe,
        current_code = tup, current_policy_hash = policy,
        current_acceptance_hash = acceptance_hash_of (wk_task worker),
        stored_test = opt_then evidence test_record_of,
        stored_approval = opt_then evidence approval_record_of,
        open_comments = comments,
        setup_failed = (setup \<noteq> None \<and> \<not> run_on_record last' trust),
        fc_trust = (if setup = None then Granted
                    else trust_status_of (ok_flatten (read_setup_trust su)) trust),
        tests_required = pj_test_command project \<noteq> None,
        board_pin = None, ahead = ahead', behind = behind' \<rparr>)"


section \<open>Gathering evidence\<close>

definition fresh_evidence :: "code_tuple \<Rightarrow> review_evidence" where
  "fresh_evidence c =
     \<lparr> ev_code = c, ev_policy_hash = None, ev_test_passed = None, ev_tested_at = None,
       ev_acceptance_hash = None, ev_reviewed_by = None, ev_approval_source = None,
       ev_approval_decision = None, ev_approved_at = None, ev_prune_offered = 0 \<rparr>"

definition evidence_row_for :: "review_evidence option \<Rightarrow> code_tuple \<Rightarrow> review_evidence" where
  "evidence_row_for current c =
     (case current of
        Some row \<Rightarrow> if code_matches (ev_code row) c then row else fresh_evidence c
      | None \<Rightarrow> fresh_evidence c)"

definition update_review_evidence ::
  "(review_evidence option \<Rightarrow> review_evidence option) \<Rightarrow> evidence_event \<Rightarrow> 'w merge_world \<Rightarrow>
   (ustr + unit) \<times> 'w merge_world" where
  "update_review_evidence edit ev =
     st_then (read_sql mw_evidence) (\<lambda>current.
       case edit current of
         None \<Rightarrow> st_return ()
       | Some row \<Rightarrow> sql (\<lambda>s. s\<lparr>mw_evidence := Some row, history := ev # history s\<rparr>))"

definition retire :: "review_evidence \<Rightarrow> review_evidence" where
  "retire row = row\<lparr>ev_policy_hash := None, ev_test_passed := None, ev_tested_at := None\<rparr>"

record test_run_baseline =
  tb_code :: code_tuple
  tb_repo :: ustr
  tb_worker_ref :: ustr
  tb_setup_command :: "ustr option"
  isolated :: bool

definition record_run_started ::
  "surroundings \<Rightarrow> worker \<Rightarrow> project \<Rightarrow> bool \<Rightarrow> 'w merge_world \<Rightarrow>
   (ustr + test_run_baseline option) \<times> 'w merge_world" where
  "record_run_started su worker project candidate =
     (let (repo, worker_ref) = evidence_repo_ref su worker project;
          measured = measure_at su repo worker_ref
      in
      st_then
        (update_review_evidence
          (\<lambda>current.
             case (measured, current) of
               (Ok tup, current) \<Rightarrow> Some (retire (evidence_row_for current tup))
             | (Err _, Some row) \<Rightarrow> Some (retire row)
             | (Err _, None) \<Rightarrow> None)
          Run_Started) (\<lambda>_.
      case measured of
        Err _ \<Rightarrow> (\<lambda>s. (Ok None, log_message
          (lit ''Test run started without a measurable merge tree; its verdict will not be bound'') s))
      | Ok tup \<Rightarrow>
          if (case ahead_behind (git_at su repo) (base_name su) worker_ref of
                Ok (_, missing) \<Rightarrow> 0 < missing | Err _ \<Rightarrow> True) \<and> \<not> candidate
          then (\<lambda>s. (Ok None, log_message
            (lit ''Test run started with the base ahead: the checkout is not the merge tree; '' @
             lit ''its verdict will not be bound (merge the base into the worker and rerun)'') s))
          else if (case worktree_dirty (git_at su repo) of Ok d \<Rightarrow> d | Err _ \<Rightarrow> True) \<and> \<not> candidate
          then (\<lambda>s. (Ok None, log_message
            (lit ''Test run started with uncommitted changes: the checkout is more than HEAD; '' @
             lit ''its verdict will not be bound (commit or clean and rerun)'') s))
          else
            (\<lambda>s. (and_then (read_setup_command su) (\<lambda>setup.
               Ok (Some \<lparr> tb_code = tup, tb_repo = repo, tb_worker_ref = worker_ref,
                          tb_setup_command = setup, isolated = candidate \<rparr>)), s))))"

text \<open>\<open>{:?}\<close> of a failed probe.\<close>

fun probe_debug :: "git_probe \<Rightarrow> ustr" where
  "probe_debug Unsupported = lit ''Unsupported''"
| "probe_debug Probe_Failed = lit ''Failed''"
| "probe_debug Conflict = lit ''Conflict''"
| "probe_debug (Clean oid) = lit ''Clean { tree_oid: '' @ [34] @ oid @ [34] @ lit '' }''"

text \<open>The verdict of a run, measured where the run started; \<open>project_now\<close> is the project as the
  store has it by then.\<close>

definition bind_test_verdict ::
  "surroundings \<Rightarrow> bool \<Rightarrow> ustr \<Rightarrow> test_run_baseline \<Rightarrow> ustr + project option \<Rightarrow> 'w merge_world \<Rightarrow>
   (ustr + unit) \<times> 'w merge_world" where
  "bind_test_verdict su ok command baseline project_now =
     (case measure_at su (tb_repo baseline) (tb_worker_ref baseline) of
        Err probe \<Rightarrow> st_result (Err (lit ''git cannot measure the merge tree where the test ran: '' @ probe_debug probe))
      | Ok tup \<Rightarrow>
          if \<not> code_matches (tb_code baseline) tup
          then st_result (Err (lit ''the head or base moved while the test ran; the verdict belongs to code '' @
                               lit ''that no longer exists''))
          else if \<not> isolated baseline \<and>
                  (case worktree_dirty (git_at su (tb_repo baseline)) of Ok d \<Rightarrow> d | Err _ \<Rightarrow> True)
          then st_result (Err (lit ''the checkout has uncommitted changes after the run; the verdict was '' @
                               lit ''not gathered against HEAD alone''))
          else
            let policy = verification_policy_with_setup (debug_text su) command (tb_setup_command baseline) in
            st_then (st_result (and_then project_now (\<lambda>p. ok_or p (lit ''project disappeared during verification'')))) (\<lambda>p.
            st_then (st_result (read_setup_command su)) (\<lambda>setup.
              if map_option (\<lambda>c. verification_policy_with_setup (debug_text su) c setup) (pj_test_command p)
                 \<noteq> Some policy
              then st_result (Err (lit ''the test policy changed during verification; rerun the gate''))
              else
                update_review_evidence
                  (\<lambda>current. Some ((evidence_row_for current tup)
                     \<lparr>ev_policy_hash := Some policy, ev_test_passed := Some (if ok then 1 else 0),
                      ev_tested_at := Some (now_unix su)\<rparr>))
                  (Test_Bound tup policy ok))))"

definition record_test_evidence ::
  "surroundings \<Rightarrow> project \<Rightarrow> bool \<Rightarrow> test_run_baseline option \<Rightarrow> ustr + project option \<Rightarrow>
   'w merge_world \<Rightarrow> 'w merge_world" where
  "record_test_evidence su project ok expected project_now s =
     (case pj_test_command project of
        None \<Rightarrow> s
      | Some command \<Rightarrow>
          (case st_then (st_result (ok_or expected
                  (lit ''the run started without a measurable tuple; its verdict has no baseline'')))
                  (\<lambda>baseline. bind_test_verdict su ok command baseline project_now) s of
             (Ok _, s) \<Rightarrow> s
           | (Err e, s) \<Rightarrow> log_message (lit ''Test verdict is not evidence-bound: '' @ e) s))"

definition record_review_verdict ::
  "surroundings \<Rightarrow> ustr \<Rightarrow> ustr \<Rightarrow> ustr \<Rightarrow> code_tuple option \<Rightarrow> 'w merge_world \<Rightarrow>
   (ustr + unit) \<times> 'w merge_world" where
  "record_review_verdict su worker_id' dec reviewer expected =
     st_then (read_sql mw_row) (\<lambda>found.
     st_then (st_result (ok_or found (lit ''unknown worker: '' @ worker_id'))) (\<lambda>worker.
       if dec \<noteq> DECISION_APPROVED \<and> dec \<noteq> DECISION_CHANGES
       then st_result (Err (lit ''unknown review decision: '' @ dec @ lit '' (expected '' @
              DECISION_APPROVED @ lit '' or '' @ DECISION_CHANGES @ lit '')''))
       else
         st_then (st_result (ok_or expected
           (lit ''the review surface sent no evidence tuple; reload before deciding''))) (\<lambda>seen.
         st_then (read_sql mw_project) (\<lambda>project.
         st_then (st_result (ok_or project (lit ''unknown project: '' @ wk_project_id worker))) (\<lambda>project.
           let (repo, worker_ref) = evidence_repo_ref su worker project in
           case measure_at su repo worker_ref of
             Err probe \<Rightarrow> st_result (Err (lit ''cannot bind a verdict to code git cannot measure: '' @ probe_debug probe))
           | Ok tup \<Rightarrow>
               if \<not> code_matches seen tup
               then st_result (Err (lit ''the code changed since the review was loaded; reload and review again''))
               else
                 st_then
                   (update_review_evidence
                     (\<lambda>current. Some ((evidence_row_for current tup)
                        \<lparr>ev_acceptance_hash := Some (acceptance_hash_of (wk_task worker)),
                         ev_reviewed_by := Some reviewer,
                         ev_approval_source := Some APPROVAL_DESKTOP,
                         ev_approval_decision := Some dec,
                         ev_approved_at := Some (now_unix su)\<rparr>))
                     (Reviewed tup (acceptance_hash_of (wk_task worker)) dec)) (\<lambda>_ s.
                   (Ok (), log_message (lit ''Review: '' @ dec @ lit '' ('' @ reviewer @ lit '')'') s)))))))"


section \<open>The merge\<close>

definition pr_title :: "ustr \<Rightarrow> ustr" where
  "pr_title task =
     (case find (\<lambda>l. l \<noteq> []) (map trim (str_lines task)) of
        None \<Rightarrow> lit ''ProjectA worker''
      | Some line \<Rightarrow> take 72 line)"

definition pr_body :: "worker \<Rightarrow> ustr" where
  "pr_body worker =
     trim (wk_task worker) @ [10, 10] @ lit ''Opened by ProjectA for worker '' @ wk_id worker @
     lit '' on branch '' @ wk_branch worker @ lit ''.''"

text \<open>The side effects behind their seam.  The outer failure of each is that its thread did not
  finish.\<close>

record 'w merge_effects =
  ef_has_github_remote :: "ustr \<Rightarrow> 'w \<Rightarrow> (ustr + bool) \<times> 'w"
  ef_pr_for_branch :: "ustr \<Rightarrow> ustr \<Rightarrow> 'w \<Rightarrow> (ustr + pr_facts option) \<times> 'w"
  ef_create_pr :: "ustr \<Rightarrow> ustr \<Rightarrow> ustr \<Rightarrow> ustr \<Rightarrow> 'w \<Rightarrow> (ustr + ustr) \<times> 'w"
  ef_merge_pr :: "ustr \<Rightarrow> ustr \<Rightarrow> 'w \<Rightarrow> (ustr + unit) \<times> 'w"
  ef_default_base_branch :: "ustr \<Rightarrow> 'w \<Rightarrow> (ustr + ustr) \<times> 'w"
  ef_branch_merged_into :: "ustr \<Rightarrow> ustr \<Rightarrow> ustr \<Rightarrow> 'w \<Rightarrow> (ustr + bool) \<times> 'w"
  ef_merge_local :: "ustr \<Rightarrow> ustr \<Rightarrow> ustr \<Rightarrow> 'w \<Rightarrow> (ustr + unit) \<times> 'w"
  ef_remove_worktree :: "ustr \<Rightarrow> ustr \<Rightarrow> 'w \<Rightarrow> (ustr + unit) \<times> 'w"

text \<open>The production effects: plain calls of \<open>gh.rs\<close>.\<close>

definition gh_effects ::
  "'w machine_tools \<Rightarrow> (ustr \<Rightarrow> json option) \<Rightarrow>
   (ustr \<Rightarrow> ustr \<Rightarrow> 'w \<Rightarrow> (ustr + unit) \<times> 'w) \<Rightarrow> 'w merge_effects" where
  "gh_effects tools from_str remove_worktree =
     \<lparr> ef_has_github_remote = \<lambda>repo w. apfst Ok (has_github_remote tools repo w),
       ef_pr_for_branch = \<lambda>repo branch w. apfst Ok (pr_for_branch tools from_str repo branch w),
       ef_create_pr = create_pr tools,
       ef_merge_pr = merge_pr tools,
       ef_default_base_branch = \<lambda>repo w. apfst Ok (default_base_branch tools repo w),
       ef_branch_merged_into = \<lambda>repo base branch w. apfst Ok (branch_merged_into tools repo base branch w),
       ef_merge_local = merge_local tools,
       ef_remove_worktree = remove_worktree \<rparr>"

definition on_row :: "(worker \<Rightarrow> worker) \<Rightarrow> 'w merge_world \<Rightarrow> 'w merge_world" where
  "on_row f s = s\<lparr>mw_row := map_option f (mw_row s)\<rparr>"

definition record_merge :: "'w merge_world \<Rightarrow> (ustr + unit) \<times> 'w merge_world" where
  "record_merge = sql (\<lambda>s. note_step Recorded_Merge (s\<lparr>mw_merge_state := Some MERGE_MERGED\<rparr>))"

text \<open>Through GitHub: the url of the pull request, found or created, then the merge.\<close>

definition pull_request_url ::
  "'w merge_effects \<Rightarrow> project \<Rightarrow> worker \<Rightarrow> pr_facts option \<Rightarrow> 'w merge_world \<Rightarrow>
   (ustr + ustr) \<times> 'w merge_world" where
  "pull_request_url ef project worker found =
     st_then
       (case or_else (wk_pr_url worker) (map_option Github.pr_url found) of
          Some url \<Rightarrow> st_return url
        | None \<Rightarrow>
            on_outside (ef_create_pr ef (pj_repo_path project) (wk_branch worker)
              (pr_title (wk_task worker)) (pr_body worker)) (\<lambda>url. [Created_Pr url])) (\<lambda>url.
     if wk_pr_url worker = None
     then st_then (sql (\<lambda>s. note_step (Recorded_Url url) (on_row (\<lambda>r. r\<lparr>wk_pr_url := Some url\<rparr>) s)))
            (\<lambda>_. st_return url)
     else st_return url)"

definition merge_on_github ::
  "'w merge_effects \<Rightarrow> project \<Rightarrow> worker \<Rightarrow> ustr option \<Rightarrow> 'w merge_world \<Rightarrow>
   (ustr + worker \<times> ustr) \<times> 'w merge_world" where
  "merge_on_github ef project worker merge_state =
     st_then (on_outside (ef_pr_for_branch ef (pj_repo_path project) (wk_branch worker)) (\<lambda>_. [])) (\<lambda>found.
     st_then (pull_request_url ef project worker found) (\<lambda>url.
     st_then
       (if merge_state \<noteq> Some MERGE_MERGED
        then
          st_then
            (if (case found of None \<Rightarrow> True | Some f \<Rightarrow> pr_state f \<noteq> lit ''MERGED'')
             then on_outside (ef_merge_pr ef (pj_repo_path project) (wk_branch worker)) (\<lambda>_. [Merged_Pr])
             else st_return ()) (\<lambda>_. record_merge)
        else st_return ()) (\<lambda>_.
     st_return (worker\<lparr>wk_pr_url := Some url\<rparr>, lit ''Merged via PR '' @ url))))"

definition merge_in_repository ::
  "'w merge_effects \<Rightarrow> project \<Rightarrow> worker \<Rightarrow> ustr option \<Rightarrow> 'w merge_world \<Rightarrow>
   (ustr + worker \<times> ustr) \<times> 'w merge_world" where
  "merge_in_repository ef project worker merge_state =
     st_then (on_outside (ef_default_base_branch ef (pj_repo_path project)) (\<lambda>_. [])) (\<lambda>base.
     st_then
       (if merge_state \<noteq> Some MERGE_MERGED
        then
          st_then (on_outside (ef_branch_merged_into ef (pj_repo_path project) base (wk_branch worker)) (\<lambda>_. []))
            (\<lambda>already.
          st_then
            (if \<not> already
             then on_outside (ef_merge_local ef (pj_repo_path project) base (wk_branch worker))
                    (\<lambda>_. [Merged_Local base])
             else st_return ()) (\<lambda>_. record_merge))
        else st_return ()) (\<lambda>_.
     st_return (worker, lit ''Merged lokal in '' @ base)))"

definition finish_merge ::
  "'w merge_effects \<Rightarrow> surroundings \<Rightarrow> project \<Rightarrow> bool \<Rightarrow> worker \<times> ustr \<Rightarrow> 'w merge_world \<Rightarrow>
   (ustr + worker) \<times> 'w merge_world" where
  "finish_merge ef su project remove_worktree = (\<lambda>(worker, note).
     st_then (sql (\<lambda>s. note_step Set_Archived (on_row (\<lambda>r. r\<lparr>wk_status := STATUS_ARCHIVED\<rparr>) s))) (\<lambda>_.
     st_then (sql (on_row (\<lambda>r. r\<lparr>wk_paused_reason := None\<rparr>))) (\<lambda>_ s.
       let s = log_message note s;
           s = (if remove_worktree
                then
                  (case ef_remove_worktree ef (pj_repo_path project) (wk_worktree_path worker) (outside s) of
                     (Err e, w) \<Rightarrow> log_message (lit ''Worktree could not be removed: '' @ e) (s\<lparr>outside := w\<rparr>)
                   | (Ok _, w) \<Rightarrow> s\<lparr>outside := w\<rparr>)
                else s);
           worker = worker\<lparr>wk_session_id := None, wk_status := STATUS_ARCHIVED, wk_paused_reason := None\<rparr>
       in (Ok worker, s\<lparr>mw_engine := observe_worker (now_unix su) (now_instant su) worker (mw_engine s)\<rparr>))))"

definition merge_worker ::
  "'w merge_effects \<Rightarrow> surroundings \<Rightarrow> ustr \<Rightarrow> bool \<Rightarrow> 'w merge_world \<Rightarrow>
   (ustr + worker) \<times> 'w merge_world" where
  "merge_worker ef su worker_id' remove_worktree =
     st_then (read_sql mw_row) (\<lambda>found.
     st_then (st_result (ok_or found (lit ''unknown worker: '' @ worker_id'))) (\<lambda>worker.
     st_then (read_sql mw_project) (\<lambda>project.
     st_then (st_result (ok_or project (lit ''unknown project: '' @ wk_project_id worker))) (\<lambda>project s.
       let report = evaluate (facts_for_merge su (mw_merge_state s) (mw_evidence s) worker project) (now_unix su) in
       st_then (st_result (merge_preflight report)) (\<lambda>_.
       st_then (read_sql mw_merge_state) (\<lambda>merge_state.
       st_then (on_outside (ef_has_github_remote ef (pj_repo_path project)) (\<lambda>_. [])) (\<lambda>github.
       st_then
         (if github then merge_on_github ef project worker merge_state
          else merge_in_repository ef project worker merge_state)
         (finish_merge ef su project remove_worktree)))) s))))"


section \<open>Runs\<close>

text \<open>What happens to a worker between its tests and its merge; the rest of the program and the world may
  change its row, its project, what is outside and which statements fail.\<close>

datatype 'w merge_call =
  Test_Started surroundings worker project bool
| Test_Finished surroundings project bool "test_run_baseline option" "ustr + project option"
| Review surroundings ustr ustr ustr "code_tuple option"
| Merge "'w merge_effects" surroundings ustr bool
| World_Changed "'w \<Rightarrow> 'w" "worker option" "project option" "ustr option list"

fun after_merge_call :: "'w merge_world \<Rightarrow> 'w merge_call \<Rightarrow> 'w merge_world" where
  "after_merge_call s (Test_Started su worker project candidate) =
     snd (record_run_started su worker project candidate s)"
| "after_merge_call s (Test_Finished su project ok expected project_now) =
     record_test_evidence su project ok expected project_now s"
| "after_merge_call s (Review su i dec reviewer expected) =
     snd (record_review_verdict su i dec reviewer expected s)"
| "after_merge_call s (Merge ef su i remove_worktree) = snd (merge_worker ef su i remove_worktree s)"
| "after_merge_call s (World_Changed f row project outcomes) =
     s\<lparr>outside := f (outside s), mw_row := row, mw_project := project, sql_outcomes := outcomes\<rparr>"

subsection \<open>What a computation keeps\<close>

definition leads :: "('s \<Rightarrow> bool) \<Rightarrow> ('s \<Rightarrow> (ustr + 'a) \<times> 's) \<Rightarrow> ('s \<Rightarrow> bool) \<Rightarrow> bool" where
  "leads P m Q \<longleftrightarrow> (\<forall>s. P s \<longrightarrow> Q (snd (m s)))"

lemma leadsD: "leads P m Q \<Longrightarrow> P s \<Longrightarrow> Q (snd (m s))"
  by (simp add: leads_def)

lemma leads_then:
  assumes "leads P m R" and "\<And>a. leads R (k a) Q" and "\<And>s. R s \<Longrightarrow> Q s"
  shows "leads P (st_then m k) Q"
  unfolding leads_def
proof (intro allI impI)
  fix s assume "P s"
  then have R: "R (snd (m s))" using assms(1) by (simp add: leads_def)
  show "Q (snd (st_then m k s))"
  proof (cases "fst (m s)")
    case (Inl e)
    then show ?thesis using R assms(3) by (simp add: st_then_def split_beta)
  next
    case (Inr a)
    then show ?thesis using R assms(2) [of a] by (simp add: st_then_def split_beta leads_def)
  qed
qed

lemma leads_return: "(\<And>s. P s \<Longrightarrow> Q s) \<Longrightarrow> leads P (st_return a) Q"
  by (simp add: leads_def st_return_def)

lemma leads_result: "(\<And>s. P s \<Longrightarrow> Q s) \<Longrightarrow> leads P (st_result r) Q"
  by (simp add: leads_def st_result_def)

lemma leads_sql:
  assumes "\<And>s os. P s \<Longrightarrow> P (s\<lparr>sql_outcomes := os\<rparr>)" and "\<And>s. P s \<Longrightarrow> Q (change s)"
    and "\<And>s. P s \<Longrightarrow> Q s"
  shows "leads P (sql change) Q"
  using assms by (auto simp: leads_def sql_def split: list.split option.split)

lemma leads_read:
  assumes "\<And>s os. P s \<Longrightarrow> P (s\<lparr>sql_outcomes := os\<rparr>)" and "\<And>s. P s \<Longrightarrow> Q s"
  shows "leads P (read_sql f) Q"
  using assms by (auto simp: leads_def read_sql_def st_then_def sql_def split: list.split option.split)

lemma leads_outside:
  assumes "\<And>s w. P s \<Longrightarrow> Q (s\<lparr>outside := w\<rparr>)"
    and "\<And>s w a. P s \<Longrightarrow> Q (s\<lparr>outside := w, steps := steps s @ did a\<rparr>)"
  shows "leads P (on_outside f did) Q"
  using assms by (auto simp: leads_def on_outside_def split: prod.split sum.split)

subsection \<open>Evidence is what was last found\<close>

fun latest_test :: "evidence_event list \<Rightarrow> (code_tuple \<times> ustr \<times> bool) option" where
  "latest_test [] = None"
| "latest_test (Run_Started # h) = None"
| "latest_test (Test_Bound c p ok # h) = Some (c, p, ok)"
| "latest_test (Reviewed c a d # h) = latest_test h"

fun latest_review :: "evidence_event list \<Rightarrow> (code_tuple \<times> ustr \<times> ustr) option" where
  "latest_review [] = None"
| "latest_review (Reviewed c a d # h) = Some (c, a, d)"
| "latest_review (_ # h) = latest_review h"

definition traced_row :: "evidence_event list \<Rightarrow> review_evidence \<Rightarrow> bool" where
  "traced_row h r \<longleftrightarrow>
     (\<forall>t. test_record_of r = Some t \<longrightarrow>
        latest_test h = Some (tr_code t, verification_policy_hash t, passed t)) \<and>
     (\<forall>a. approval_record_of r = Some a \<longrightarrow>
        (\<exists>d. latest_review h = Some (ar_code a, acceptance_hash a, d) \<and> decision_of (Some d) = Some (decision a)))"

definition evidence_traced :: "'w merge_world \<Rightarrow> bool" where
  "evidence_traced s \<longleftrightarrow>
     (case mw_evidence s of None \<Rightarrow> True | Some r \<Rightarrow> traced_row (history s) r)"

lemma traced_fresh: "traced_row h (fresh_evidence c)"
  by (simp add: traced_row_def fresh_evidence_def test_record_of_def approval_record_of_def decision_of_def)

lemma traced_row_for:
  "(case current of None \<Rightarrow> True | Some r \<Rightarrow> traced_row h r) \<Longrightarrow> traced_row h (evidence_row_for current c)"
  by (simp add: evidence_row_for_def traced_fresh split: option.splits)

lemma ev_code_row_for [simp]: "ev_code (evidence_row_for current c) = c"
  by (simp add: evidence_row_for_def fresh_evidence_def code_matches_eq split: option.split)

lemma traced_retire: "traced_row h r \<Longrightarrow> traced_row (Run_Started # h) (retire r)"
  by (simp add: traced_row_def retire_def test_record_of_def approval_record_of_def)

lemma traced_test:
  "traced_row h r \<Longrightarrow> ev_code r = c \<Longrightarrow>
   traced_row (Test_Bound c p ok # h)
     (r\<lparr>ev_policy_hash := Some p, ev_test_passed := Some (if ok then 1 else 0), ev_tested_at := at\<rparr>)"
  by (simp add: traced_row_def test_record_of_def approval_record_of_def)

lemmas traced_tests = traced_test [where ok = True, simplified] traced_test [where ok = False, simplified]

lemma traced_review:
  "traced_row h r \<Longrightarrow> ev_code r = c \<Longrightarrow>
   traced_row (Reviewed c acc d # h)
     (r\<lparr>ev_acceptance_hash := Some acc, ev_reviewed_by := who, ev_approval_source := src,
        ev_approval_decision := Some d, ev_approved_at := at\<rparr>)"
  by (auto simp: traced_row_def test_record_of_def approval_record_of_def or_empty_def)

lemma leads_update:
  assumes "\<And>h current row. (case current of None \<Rightarrow> True | Some r \<Rightarrow> traced_row h r) \<Longrightarrow>
      edit current = Some row \<Longrightarrow> traced_row (ev # h) row"
  shows "leads (evidence_traced :: 'w merge_world \<Rightarrow> bool) (update_review_evidence edit ev) evidence_traced"
proof -
  have "evidence_traced (snd (update_review_evidence edit ev s))" if "evidence_traced s" for s :: "'w merge_world"
    using that assms
    by (auto simp: update_review_evidence_def st_then_def read_sql_def sql_def st_return_def
        evidence_traced_def split: list.split option.split)
  then show ?thesis by (simp add: leads_def)
qed


lemma traced_ignores [simp]:
  "evidence_traced (s\<lparr>sql_outcomes := os\<rparr>) = evidence_traced s"
  "evidence_traced (s\<lparr>outside := w\<rparr>) = evidence_traced s"
  "evidence_traced (s\<lparr>steps := st\<rparr>) = evidence_traced s"
  "evidence_traced (s\<lparr>messages := ms\<rparr>) = evidence_traced s"
  "evidence_traced (s\<lparr>mw_row := r\<rparr>) = evidence_traced s"
  "evidence_traced (s\<lparr>mw_merge_state := m\<rparr>) = evidence_traced s"
  "evidence_traced (s\<lparr>mw_engine := e\<rparr>) = evidence_traced s"
  "evidence_traced (s\<lparr>mw_project := pj\<rparr>) = evidence_traced s"
  by (simp_all add: evidence_traced_def split: option.split)

lemma traced_notes [simp]:
  "evidence_traced (note_step st s) = evidence_traced s"
  "evidence_traced (log_message m s) = evidence_traced s"
  "evidence_traced (on_row f s) = evidence_traced s"
  by (simp_all add: note_step_def log_message_def on_row_def)

lemmas leads_traced_base =
  leads_read [of evidence_traced evidence_traced] leads_return [of evidence_traced evidence_traced]
  leads_result [of evidence_traced evidence_traced] leads_outside [of evidence_traced evidence_traced]

lemma traced_run_started: "leads evidence_traced (record_run_started su worker project candidate) evidence_traced"
  unfolding record_run_started_def Let_def split_beta
  by (intro leads_then [where R = evidence_traced] leads_update)
    (auto simp: leads_def traced_retire traced_row_for split: sum.splits option.splits)

lemma traced_bind_verdict:
  "leads evidence_traced (bind_test_verdict su ok command baseline project_now) evidence_traced"
  unfolding bind_test_verdict_def Let_def
  by (auto intro!: leads_then [where R = evidence_traced] leads_result leads_update traced_tests traced_row_for
      split: sum.split)

lemma traced_review_verdict:
  "leads evidence_traced (record_review_verdict su i dec reviewer expected) evidence_traced"
  unfolding record_review_verdict_def Let_def split_beta
  by (auto intro!: leads_then [where R = evidence_traced] leads_result leads_read leads_update traced_review
      traced_row_for simp: leads_def [of _ "\<lambda>s. (_, log_message _ s)"] split: sum.split)

lemma traced_merge: "leads evidence_traced (merge_worker ef su i rm) evidence_traced"
proof -
  have finish: "leads evidence_traced (finish_merge ef su project rm wn) evidence_traced" for project wn
    unfolding finish_merge_def split_beta
    by (intro leads_then [where R = evidence_traced] leads_sql)
      (auto simp: leads_def Let_def split: prod.split sum.split)
  have github: "leads evidence_traced (merge_on_github ef project worker ms) evidence_traced" for project worker ms
    unfolding merge_on_github_def pull_request_url_def record_merge_def
    by (auto intro!: leads_then [where R = evidence_traced] leads_sql leads_outside leads_return
        split: option.split)
  have local_merge: "leads evidence_traced (merge_in_repository ef project worker ms) evidence_traced" for project worker ms
    unfolding merge_in_repository_def record_merge_def
    by (auto intro!: leads_then [where R = evidence_traced] leads_sql leads_outside leads_return)
  have body: "leads evidence_traced (\<lambda>s. st_then (st_result (r s)) k s) evidence_traced"
    if "\<And>a. leads evidence_traced (k a) evidence_traced" for r k
    using that by (auto simp: leads_def st_then_def st_result_def split: sum.split)
  show ?thesis
    unfolding merge_worker_def Let_def
    by (intro leads_then [where R = evidence_traced] leads_read leads_result body)
      (auto intro!: leads_then [where R = evidence_traced] leads_read leads_outside github local_merge finish)
qed

lemmas traced_calls =
  traced_run_started [THEN leadsD] traced_review_verdict [THEN leadsD] traced_merge [THEN leadsD]

lemma traced_after: "evidence_traced s \<Longrightarrow> evidence_traced (after_merge_call s c)"
proof (cases c)
  case (Test_Finished su project ok expected project_now)
  assume s: "evidence_traced s"
  have "evidence_traced (snd (st_then (st_result r)
      (\<lambda>b. bind_test_verdict su ok command b project_now) s))" for r command
    by (rule leadsD [where P = evidence_traced and Q = evidence_traced and s = s, OF _ s]) (intro leads_then [where R = evidence_traced] leads_result traced_bind_verdict)
  with s show ?thesis
    unfolding Test_Finished after_merge_call.simps record_test_evidence_def
    by (auto split: option.split prod.split sum.split) (metis snd_conv)+
qed (simp_all add: traced_calls)

interpretation evidence: machine after_merge_call evidence_traced
  by unfold_locales (rule traced_after)


definition new_merge_world :: "'w \<Rightarrow> worker option \<Rightarrow> project option \<Rightarrow> status_engine \<Rightarrow> 'w merge_world" where
  "new_merge_world w row project e =
     \<lparr> outside = w, mw_row = row, mw_project = project, mw_merge_state = None, mw_evidence = None,
       sql_outcomes = [], mw_engine = e, messages = [], steps = [], history = [] \<rparr>"

lemma traced_new: "evidence_traced (new_merge_world w row project e)"
  by (simp add: new_merge_world_def evidence_traced_def)

subsection \<open>A merge acts on fresh evidence only\<close>

text \<open>The call did nothing: it failed and left the world and the record of steps alone.\<close>

definition refused :: "(ustr + 'a) \<times> 'w merge_world \<Rightarrow> 'w merge_world \<Rightarrow> bool" where
  "refused rs s \<longleftrightarrow>
     (case fst rs of Ok _ \<Rightarrow> False | Err _ \<Rightarrow> True) \<and> outside (snd rs) = outside s \<and>
     steps (snd rs) = steps s \<and> mw_row (snd rs) = mw_row s \<and> mw_merge_state (snd rs) = mw_merge_state s"

lemma facts_simps:
  "fc_lifecycle (facts_for_merge su ms ev worker project) =
     lifecycle_of worker (if merge_state_readable su then ms else None) (has_session su)"
  "current_code (facts_for_merge su ms ev worker project) =
     (case measure_at su (fst (evidence_repo_ref su worker project)) (snd (evidence_repo_ref su worker project)) of
        Ok c \<Rightarrow> Some c | Err _ \<Rightarrow> None)"
  "current_acceptance_hash (facts_for_merge su ms ev worker project) = acceptance_hash_of (wk_task worker)"
  "stored_test (facts_for_merge su ms ev worker project) =
     opt_then (if evidence_readable su then ev else None) test_record_of"
  "stored_approval (facts_for_merge su ms ev worker project) =
     opt_then (if evidence_readable su then ev else None) approval_record_of"
  "tests_required (facts_for_merge su ms ev worker project) = (pj_test_command project \<noteq> None)"
  "current_policy_hash (facts_for_merge su ms ev worker project) =
     (case pj_test_command project of
        None \<Rightarrow> []
      | Some command \<Rightarrow>
          verification_policy_with_setup (debug_text su) command (ok_flatten (read_setup_command su)))"
  by (simp_all add: facts_for_merge_def Let_def split_beta)

lemma sql_id_frame:
  assumes "sql (\<lambda>s. s) s = (r, s')"
  shows "\<exists>os. s' = s\<lparr>sql_outcomes := os\<rparr>"
  using assms unfolding sql_def by (cases s) (auto split: list.splits option.splits)

lemma read_sql_frame:
  assumes "read_sql f s = (r, s')"
  shows "\<exists>os. s' = s\<lparr>sql_outcomes := os\<rparr>"
  using assms sql_id_frame by (fastforce simp: read_sql_def st_then_def split: prod.splits sum.splits)

lemma read_sql_Ok:
  assumes "read_sql f s = (Ok a, s')"
  shows "\<exists>os. s' = s\<lparr>sql_outcomes := os\<rparr> \<and> a = f s'"
  using assms sql_id_frame by (fastforce simp: read_sql_def st_then_def split: prod.splits sum.splits)


lemma st_then_Err: "m s = (Err e, s') \<Longrightarrow> st_then m k s = (Err e, s')"
  by (simp add: st_then_def)

lemma st_then_Ok: "m s = (Ok a, s') \<Longrightarrow> st_then m k s = k a s'"
  by (simp add: st_then_def)

lemma st_result_simps [simp]:
  "st_then (st_result (Ok a)) k s = k a s"
  "st_then (st_result (Err e)) k s = (Err e, s)"
  "st_then (st_return a) k s = k a s"
  by (simp_all add: st_then_def st_result_def st_return_def)

lemma refused_frame: "refused (Err e, s\<lparr>sql_outcomes := os\<rparr>) s"
  by (simp add: refused_def)

text \<open>The part of a merge after its preflight.\<close>

definition merge_steps ::
  "'w merge_effects \<Rightarrow> surroundings \<Rightarrow> bool \<Rightarrow> worker \<Rightarrow> project \<Rightarrow> 'w merge_world \<Rightarrow>
   (ustr + worker) \<times> 'w merge_world" where
  "merge_steps ef su remove_worktree worker project =
     st_then (read_sql mw_merge_state) (\<lambda>merge_state.
     st_then (on_outside (ef_has_github_remote ef (pj_repo_path project)) (\<lambda>_. [])) (\<lambda>github.
     st_then
       (if github then merge_on_github ef project worker merge_state
        else merge_in_repository ef project worker merge_state)
       (finish_merge ef su project remove_worktree)))"

lemma merge_worker_cases:
  obtains (refused) "refused (merge_worker ef su i remove_worktree s) s"
  | (judged) worker project os where "mw_row s = Some worker" "mw_project s = Some project"
      "merge_preflight (evaluate (facts_for_merge su (mw_merge_state s) (mw_evidence s) worker project)
         (now_unix su)) = Ok ()"
      "merge_worker ef su i remove_worktree s =
         merge_steps ef su remove_worktree worker project (s\<lparr>sql_outcomes := os\<rparr>)"
proof -
  obtain r1 s1 where 1: "read_sql mw_row s = (r1, s1)" by fastforce
  obtain r2 s2 where 2: "read_sql mw_project s1 = (r2, s2)" by fastforce
  obtain os1 where s1: "s1 = s\<lparr>sql_outcomes := os1\<rparr>" using read_sql_frame [OF 1] by blast
  obtain os2 where s2: "s2 = s\<lparr>sql_outcomes := os2\<rparr>" using read_sql_frame [OF 2] s1 by auto
  show thesis
  proof (cases r1)
    case (Inl e)
    with 1 s1 show thesis
      by (intro refused) (simp add: merge_worker_def st_then_Err refused_frame)
  next
    case (Inr found)
    with 1 have row: "found = mw_row s" using read_sql_Ok [of mw_row s found s1] by auto
    show thesis
    proof (cases "mw_row s")
      case None
      with 1 Inr row s1 show thesis
        by (intro refused) (simp add: merge_worker_def st_then_Ok [where m = "read_sql mw_row"] refused_frame)
    next
      case (Some worker)
      note step1 = 1 [unfolded Inr row Some]
      show thesis
      proof (cases r2)
        case (Inl e)
        with step1 2 s2 show thesis
          by (intro refused)
            (simp add: merge_worker_def st_then_Ok [where m = "read_sql mw_row", OF step1] st_then_Err refused_frame)
      next
        case (Inr p)
        with 2 have p: "p = mw_project s" using read_sql_Ok [of mw_project s1 p s2] s1 by auto
        show thesis
        proof (cases "mw_project s")
          case None
          with step1 2 Inr p s2 show thesis
            by (intro refused)
              (simp add: merge_worker_def st_then_Ok [where m = "read_sql mw_row", OF step1] st_then_Ok [where m = "read_sql mw_project"] refused_frame)
        next
          case (Some project)
          note step2 = 2 [unfolded Inr p Some]
          define r where "r = merge_preflight
            (evaluate (facts_for_merge su (mw_merge_state s) (mw_evidence s) worker project) (now_unix su))"
          have e: "merge_worker ef su i remove_worktree s =
              st_then (st_result r) (\<lambda>_. merge_steps ef su remove_worktree worker project) s2"
            using s2
            by (simp add: merge_worker_def st_then_Ok [where m = "read_sql mw_row", OF step1] st_then_Ok [where m = "read_sql mw_project", OF step2] r_def merge_steps_def Let_def)
          show thesis
          proof (cases r)
            case (Inl m)
            with e s2 show thesis by (intro refused) (simp add: refused_frame)
          next
            case (Inr u)
            with e s2 show thesis
              using \<open>mw_row s = Some worker\<close> Some r_def by (intro judged) auto
          qed
        qed
      qed
    qed
  qed
qed


lemma decision_Approved: "decision_of (Some d) = Some Approved \<Longrightarrow> d = DECISION_APPROVED"
  by (simp add: decision_of_def split: if_splits)

text \<open>C14: No merge on a stale review, and none on a stale test where tests are run.  Take any history of test runs, test verdicts, reviews and
  merges, with failing statements and changes of the worker, the project and the world in between.
  A merge either is refused without touching anything, or the newest review approved exactly the worker
  head, base tip and merge tree that git measures at this moment, for the task as it is now, and one of two holds:
  the project has no test command, and then no test is asked for; or it has one, and the newest test
  event is a green verdict on exactly this tuple under exactly this policy: no run was started since.\<close>

theorem merge_needs_fresh_evidence:
  "let s = run after_merge_call (new_merge_world w row proj e) cs in
   refused (merge_worker ef su i remove_worktree s) s \<or>
   (\<exists>worker project c.
      mw_row s = Some worker \<and> mw_project s = Some project \<and>
      measure_at su (fst (evidence_repo_ref su worker project)) (snd (evidence_repo_ref su worker project)) = Ok c \<and>
      latest_review (history s) = Some (c, acceptance_hash_of (wk_task worker), DECISION_APPROVED) \<and>
      (case pj_test_command project of
         None \<Rightarrow> True
       | Some command \<Rightarrow>
           latest_test (history s) =
             Some (c, verification_policy_with_setup (debug_text su) command
                        (ok_flatten (read_setup_command su)), True)))"
proof -
  define s where "s = run after_merge_call (new_merge_world w row proj e) cs"
  have traced: "evidence_traced s"
    unfolding s_def by (rule evidence.inv_run [OF traced_new])
  show ?thesis
    unfolding Let_def s_def [symmetric]
  proof (cases rule: merge_worker_cases [of ef su i remove_worktree s])
    case (judged worker project os)
    define f where "f = facts_for_merge su (mw_merge_state s) (mw_evidence s) worker project"
    from judged(3) obtain c a where c: "current_code f = Some c"
      and a: "stored_approval f = Some a" "decision a = Approved" "ar_code a = c"
        "acceptance_hash a = current_acceptance_hash f"
      and t: "tests_required f \<Longrightarrow> \<exists>t. stored_test f = Some t \<and> passed t \<and> tr_code t = c \<and>
            verification_policy_hash t = current_policy_hash f"
      unfolding f_def [symmetric] preflight_iff by (auto split: if_splits)
    obtain r where r: "mw_evidence s = Some r" "approval_record_of r = Some a"
      using a(1) by (auto simp: f_def facts_simps opt_then_def split: if_splits option.splits)
    have row: "traced_row (history s) r"
      using traced r(1) by (simp add: evidence_traced_def)
    have review: "latest_review (history s) = Some (c, acceptance_hash_of (wk_task worker), DECISION_APPROVED)"
      using row r(2) a decision_Approved by (fastforce simp: traced_row_def f_def facts_simps)
    have measured: "measure_at su (fst (evidence_repo_ref su worker project))
        (snd (evidence_repo_ref su worker project)) = Ok c"
      using c by (simp add: f_def facts_simps split: sum.splits)
    have test: "latest_test (history s) = Some (c, verification_policy_with_setup (debug_text su) command
          (ok_flatten (read_setup_command su)), True)"
      if "pj_test_command project = Some command" for command
      using t that r(1) row by (auto simp: f_def facts_simps traced_row_def opt_then_def split: if_splits)
    show "refused (merge_worker ef su i remove_worktree s) s \<or> (\<exists>worker project c.
        mw_row s = Some worker \<and> mw_project s = Some project \<and>
        measure_at su (fst (evidence_repo_ref su worker project))
          (snd (evidence_repo_ref su worker project)) = Ok c \<and>
        latest_review (history s) = Some (c, acceptance_hash_of (wk_task worker), DECISION_APPROVED) \<and>
        (case pj_test_command project of None \<Rightarrow> True
         | Some command \<Rightarrow> latest_test (history s) =
             Some (c, verification_policy_with_setup (debug_text su) command
                        (ok_flatten (read_setup_command su)), True)))"
      using judged(1,2) review measured test by (auto split: option.split)
  qed simp
qed


subsection \<open>A merge is recorded once\<close>

definition merging :: "merge_step \<Rightarrow> bool" where
  "merging st = (case st of Merged_Pr \<Rightarrow> True | Merged_Local _ \<Rightarrow> True | Recorded_Merge \<Rightarrow> True | _ \<Rightarrow> False)"

text \<open>Nothing is archived before the merge is recorded, nothing is merged or recorded after.\<close>

fun in_order :: "merge_step list \<Rightarrow> bool" where
  "in_order [] \<longleftrightarrow> True"
| "in_order (Recorded_Merge # sts) \<longleftrightarrow> list_all (\<lambda>st. \<not> merging st) sts"
| "in_order (Set_Archived # sts) \<longleftrightarrow> False"
| "in_order (_ # sts) \<longleftrightarrow> in_order sts"

lemma in_order_snoc:
  "in_order (sts @ [st]) \<longleftrightarrow>
     in_order sts \<and> (if Recorded_Merge \<in> set sts then \<not> merging st else st \<noteq> Set_Archived)"
  by (induction sts rule: in_order.induct) (cases st; simp add: merging_def)+

definition ordered :: "'w merge_world \<Rightarrow> bool" where
  "ordered s \<longleftrightarrow> in_order (steps s) \<and>
     (Recorded_Merge \<in> set (steps s) \<longleftrightarrow> mw_merge_state s = Some MERGE_MERGED)"

definition unmerged :: "'w merge_world \<Rightarrow> bool" where
  "unmerged s \<longleftrightarrow> ordered s \<and> mw_merge_state s \<noteq> Some MERGE_MERGED"

definition merged :: "'w merge_world \<Rightarrow> bool" where
  "merged s \<longleftrightarrow> ordered s \<and> mw_merge_state s = Some MERGE_MERGED"

text \<open>Two exits: \<open>Q\<close> when the computation succeeds, the invariant when it fails.\<close>

definition proceeds ::
  "('w merge_world \<Rightarrow> bool) \<Rightarrow> ('w merge_world \<Rightarrow> (ustr + 'a) \<times> 'w merge_world) \<Rightarrow>
   ('w merge_world \<Rightarrow> bool) \<Rightarrow> bool" where
  "proceeds P m Q \<longleftrightarrow>
     (\<forall>s. P s \<longrightarrow> (case m s of (Ok _, s') \<Rightarrow> Q s' | (Err _, s') \<Rightarrow> ordered s'))"

lemma proceeds_then:
  assumes "proceeds P m R" and "\<And>a. proceeds R (k a) Q"
  shows "proceeds P (st_then m k) Q"
  using assms unfolding proceeds_def st_then_def by (fastforce split: prod.splits sum.splits)

lemma proceeds_return: "(\<And>s. P s \<Longrightarrow> Q s) \<Longrightarrow> proceeds P (st_return a) Q"
  by (simp add: proceeds_def st_return_def)

lemma proceeds_sql:
  assumes "\<And>s os. P s \<Longrightarrow> P (s\<lparr>sql_outcomes := os\<rparr>)" and "\<And>s. P s \<Longrightarrow> Q (change s)"
    and "\<And>s. P s \<Longrightarrow> ordered s"
  shows "proceeds P (sql change) Q"
  using assms by (auto simp: proceeds_def sql_def split: list.split option.split)

lemma proceeds_read:
  assumes "\<And>s os. P s \<Longrightarrow> P (s\<lparr>sql_outcomes := os\<rparr>)" and "\<And>s. P s \<Longrightarrow> ordered s"
  shows "proceeds P (read_sql f) P"
  using assms by (auto simp: proceeds_def read_sql_def st_then_def sql_def split: list.split option.split)

lemma proceeds_outside:
  assumes "\<And>s w. P s \<Longrightarrow> ordered (s\<lparr>outside := w\<rparr>)"
    and "\<And>s w a. P s \<Longrightarrow> Q (s\<lparr>outside := w, steps := steps s @ did a\<rparr>)"
  shows "proceeds P (on_outside f did) Q"
  using assms by (auto simp: proceeds_def on_outside_def split: prod.split sum.split)

lemmas order_defs = ordered_def unmerged_def merged_def

lemma proceeds_url:
  assumes "P = unmerged \<or> P = merged"
  shows "proceeds P (pull_request_url ef project worker found) P"
  unfolding pull_request_url_def
  by (rule proceeds_then [where R = P])
    (use assms in \<open>auto intro!: proceeds_then [where R = P] proceeds_return proceeds_outside proceeds_sql
       simp: order_defs in_order_snoc note_step_def on_row_def merging_def split: option.split\<close>)

lemma proceeds_record: "proceeds unmerged record_merge merged"
  unfolding record_merge_def
  by (rule proceeds_sql) (auto simp: order_defs in_order_snoc note_step_def merging_def)

lemma proceeds_effect:
  assumes "\<And>a. did a = [] \<or> (\<exists>st. did a = [st] \<and> st \<noteq> Recorded_Merge \<and> st \<noteq> Set_Archived)"
  shows "proceeds unmerged (on_outside f did) unmerged"
proof -
  have "unmerged (s\<lparr>outside := w, steps := steps s @ did a\<rparr>)" if "unmerged s" for s :: "'b merge_world" and w a
    using assms [of a] that by (auto simp: order_defs in_order_snoc)
  then show ?thesis by (auto intro!: proceeds_outside simp: order_defs)
qed

lemma proceeds_looking:
  "P = unmerged \<or> P = merged \<Longrightarrow> proceeds P (on_outside f (\<lambda>_. [])) P"
  by (auto intro!: proceeds_outside simp: order_defs)

lemma proceeds_unless:
  assumes "P = (if ms = Some MERGE_MERGED then merged else unmerged)"
    and "proceeds unmerged act merged"
  shows "proceeds P (if ms \<noteq> Some MERGE_MERGED then act else st_return ()) merged"
  using assms by (auto intro: proceeds_return)

lemma proceeds_github:
  assumes P: "P = (if ms = Some MERGE_MERGED then merged else unmerged)"
  shows "proceeds P (merge_on_github ef project worker ms) merged"
proof -
  have two: "P = unmerged \<or> P = merged" by (simp add: P)
  have act: "proceeds unmerged
      (st_then (if b then on_outside f (\<lambda>_. [Merged_Pr]) else st_return ()) (\<lambda>_. record_merge)) merged" for b f
    by (rule proceeds_then [OF _ proceeds_record]) (auto intro: proceeds_effect proceeds_return)
  show ?thesis
    unfolding merge_on_github_def
    by (rule proceeds_then [OF proceeds_looking [OF two]], rule proceeds_then [OF proceeds_url [OF two]],
        rule proceeds_then [OF proceeds_unless [OF P act]]) (rule proceeds_return)
qed

lemma proceeds_local:
  assumes P: "P = (if ms = Some MERGE_MERGED then merged else unmerged)"
  shows "proceeds P (merge_in_repository ef project worker ms) merged"
proof -
  have two: "P = unmerged \<or> P = merged" by (simp add: P)
  have act: "proceeds unmerged
      (st_then (on_outside g (\<lambda>_. [])) (\<lambda>already.
       st_then (if \<not> already then on_outside f (\<lambda>_. [Merged_Local base]) else st_return ()) (\<lambda>_. record_merge))) merged"
    for g f base
    by (rule proceeds_then [OF proceeds_looking], simp, rule proceeds_then [OF _ proceeds_record])
      (auto intro: proceeds_effect proceeds_return)
  show ?thesis
    unfolding merge_in_repository_def
    by (rule proceeds_then [OF proceeds_looking [OF two]], rule proceeds_then [OF proceeds_unless [OF P act]])
      (rule proceeds_return)
qed

lemma proceeds_finish: "proceeds merged (finish_merge ef su project rm wn) merged"
proof -
  have sets: "proceeds merged (sql (\<lambda>s. note_step Set_Archived (on_row f s))) merged"
    "proceeds merged (sql (on_row f)) merged" for f
    by (auto intro!: proceeds_sql simp: order_defs in_order_snoc note_step_def on_row_def merging_def)
  show ?thesis
    unfolding finish_merge_def split_beta
    by (intro proceeds_then [where R = merged] sets)
      (auto simp: proceeds_def Let_def order_defs log_message_def split: prod.split sum.split)
qed

lemma proceedsD: "proceeds P m Q \<Longrightarrow> P s \<Longrightarrow> (\<And>s. Q s \<Longrightarrow> ordered s) \<Longrightarrow> ordered (snd (m s))"
  unfolding proceeds_def by (cases "m s"; cases "fst (m s)") auto

lemma ordered_ignores [simp]:
  "ordered (s\<lparr>sql_outcomes := os\<rparr>) = ordered s"
  "ordered (s\<lparr>messages := ms\<rparr>) = ordered s"
  "ordered (s\<lparr>mw_evidence := ev, history := h\<rparr>) = ordered s"
  "ordered (log_message m s) = ordered s"
  by (simp_all add: ordered_def log_message_def)

lemma ordered_merge_steps:
  assumes "ordered s"
  shows "ordered (snd (merge_steps ef su rm worker project s))"
proof -
  obtain r s' where rd: "read_sql mw_merge_state s = (r, s')" by fastforce
  have s': "ordered s'" using read_sql_frame [OF rd] assms by auto
  show ?thesis
  proof (cases r)
    case (Inl e)
    with rd s' show ?thesis by (simp add: merge_steps_def st_then_def)
  next
    case (Inr ms)
    with rd have ms: "ms = mw_merge_state s'" using read_sql_Ok by fastforce
    define P :: "'a merge_world \<Rightarrow> bool" where "P = (if ms = Some MERGE_MERGED then merged else unmerged)"
    have "P s'" using s' by (simp add: P_def ms merged_def unmerged_def)
    have "proceeds P
        (st_then (on_outside (ef_has_github_remote ef (pj_repo_path project)) (\<lambda>_. [])) (\<lambda>github.
           st_then (if github then merge_on_github ef project worker ms
                    else merge_in_repository ef project worker ms)
             (finish_merge ef su project rm))) merged"
    proof (rule proceeds_then [where R = P], goal_cases)
      case 1
      show "proceeds P (on_outside (ef_has_github_remote ef (pj_repo_path project)) (\<lambda>_. [])) P"
        by (rule proceeds_outside) (auto simp: P_def order_defs split: if_splits)
    next
      case (2 github)
      have "proceeds P (if github then merge_on_github ef project worker ms
                        else merge_in_repository ef project worker ms) merged"
        using proceeds_github [OF P_def] proceeds_local [OF P_def] by simp
      then show ?case by (rule proceeds_then) (rule proceeds_finish)
    qed
    from proceedsD [OF this \<open>P s'\<close>] show ?thesis
      using rd Inr by (simp add: merge_steps_def st_then_def merged_def)
  qed
qed

lemma ordered_merge: "ordered s \<Longrightarrow> ordered (snd (merge_worker ef su i rm s))"
  by (cases rule: merge_worker_cases [of ef su i rm s])
    (simp_all add: refused_def ordered_def ordered_merge_steps [unfolded ordered_def])

lemma leads_ordered_update: "leads ordered (update_review_evidence edit ev) ordered"
  by (auto simp: leads_def update_review_evidence_def st_then_def read_sql_def sql_def st_return_def
      split: list.split option.split)

lemma ordered_run_started: "leads ordered (record_run_started su worker project candidate) ordered"
  unfolding record_run_started_def Let_def split_beta
  by (intro leads_then [where R = ordered] leads_ordered_update)
    (auto simp: leads_def split: sum.splits option.splits)

lemma ordered_bind_verdict: "leads ordered (bind_test_verdict su ok command baseline project_now) ordered"
  unfolding bind_test_verdict_def Let_def
  by (auto intro!: leads_then [where R = ordered] leads_result leads_ordered_update split: sum.split)

lemma ordered_review_verdict: "leads ordered (record_review_verdict su i dec reviewer expected) ordered"
  unfolding record_review_verdict_def Let_def split_beta
  by (auto intro!: leads_then [where R = ordered] leads_result leads_read leads_ordered_update
      simp: leads_def [of _ "\<lambda>s. (_, log_message _ s)"] split: sum.split)

lemmas ordered_calls = ordered_run_started [THEN leadsD] ordered_review_verdict [THEN leadsD] ordered_merge

lemma ordered_after: "ordered s \<Longrightarrow> ordered (after_merge_call s c)"
proof (cases c)
  case (Test_Finished su project ok expected project_now)
  assume s: "ordered s"
  have "ordered (snd (st_then (st_result r) (\<lambda>b. bind_test_verdict su ok command b project_now) s))" for r command
    by (rule leadsD [where P = ordered and Q = ordered and s = s, OF _ s])
      (intro leads_then [where R = ordered] leads_result ordered_bind_verdict)
  with s show ?thesis
    unfolding Test_Finished after_merge_call.simps record_test_evidence_def
    by (auto split: option.split prod.split sum.split) (metis snd_conv)+
next
  case (World_Changed f r pj os)
  assume "ordered s"
  with World_Changed show ?thesis by (simp add: ordered_def)
qed (simp_all add: ordered_calls)

interpretation merge_order: machine after_merge_call ordered
  by unfold_locales (rule ordered_after)

lemma ordered_new: "ordered (new_merge_world w row project e)"
  by (simp add: ordered_def new_merge_world_def MERGE_MERGED_def lit_def)

text \<open>C16: A branch is merged once, and archived after.  Whatever calls, failures of statements or effects, and
  changes of the world follow each other: the merge of a worker is recorded at most once, after
  the record no pull request or branch is merged again, and the worker is put away by a merge only after the
  record.  The record in the store says exactly whether that step was taken.\<close>

theorem merge_is_recorded_once:
  "let s = run after_merge_call (new_merge_world w row proj e) cs in
   in_order (steps s) \<and> (Recorded_Merge \<in> set (steps s) \<longleftrightarrow> mw_merge_state s = Some MERGE_MERGED)"
  using merge_order.inv_run [OF ordered_new] by (simp add: Let_def ordered_def)

subsection \<open>A recorded merge is never finished\<close>

text \<open>When the statement after the record fails, or the program dies there, the next call finds the merge
  recorded, takes the worker for merged, and refuses: the row is not archived, and no later
  call of the merge does it.\<close>

lemma recorded_merge_is_refused:
  assumes "mw_merge_state s = Some MERGE_MERGED" and "merge_state_readable su"
  shows "refused (merge_worker ef su i remove_worktree s) s"
proof (cases rule: merge_worker_cases [of ef su i remove_worktree s])
  case (judged worker project os)
  then have "fc_lifecycle (facts_for_merge su (mw_merge_state s) (mw_evidence s) worker project) \<in> {Exited, Archived}"
    unfolding preflight_iff by blast
  with assms show ?thesis by (simp add: facts_simps lifecycle_of_def)
qed

text \<open>A setup command that cannot be read counts as none: no trust and no run is asked for.\<close>

lemma unreadable_setup_needs_no_trust:
  assumes "read_setup_command su = Err e"
  shows "fc_trust (facts_for_merge su ms ev worker project) = Granted \<and>
    \<not> setup_failed (facts_for_merge su ms ev worker project)"
  using assms by (simp add: facts_for_merge_def Let_def split_beta ok_flatten_def)

lemma unreadable_comments_count_as_none:
  assumes "read_open_comments su = Err e"
  shows "open_comments (facts_for_merge su ms ev worker project) = 0"
  using assms by (simp add: facts_for_merge_def Let_def split_beta)

subsection \<open>The board has no say\<close>

text \<open>A computation that never looks at the engine.\<close>

definition blind :: "('w merge_world \<Rightarrow> (ustr + 'a) \<times> 'w merge_world) \<Rightarrow> bool" where
  "blind m \<longleftrightarrow> (\<forall>s e. \<exists>e'. m (s\<lparr>mw_engine := e\<rparr>) = apsnd (\<lambda>t. t\<lparr>mw_engine := e'\<rparr>) (m s))"

lemma blind_then: "blind m \<Longrightarrow> (\<And>a. blind (k a)) \<Longrightarrow> blind (st_then m k)"
proof -
  assume m: "blind m" and k: "\<And>a. blind (k a)"
  have "\<exists>e'. st_then m k (s\<lparr>mw_engine := e\<rparr>) = apsnd (\<lambda>t. t\<lparr>mw_engine := e'\<rparr>) (st_then m k s)" for s e
  proof -
    obtain r t where t: "m s = (r, t)" by fastforce
    obtain e' where m': "m (s\<lparr>mw_engine := e\<rparr>) = (r, t\<lparr>mw_engine := e'\<rparr>)"
      using m t unfolding blind_def by (metis apsnd_conv)
    show ?thesis
    proof (cases r)
      case (Inl x)
      with t m' show ?thesis by (auto simp: st_then_def)
    next
      case (Inr a)
      then show ?thesis using t m' k [of a] by (auto simp: st_then_def blind_def)
    qed
  qed
  then show ?thesis by (simp add: blind_def)
qed

lemma blindI: "(\<And>s e. m (s\<lparr>mw_engine := e\<rparr>) = apsnd (\<lambda>t. t\<lparr>mw_engine := e\<rparr>) (m s)) \<Longrightarrow> blind m"
  by (auto simp: blind_def)

lemma blind_sql:
  assumes "\<And>s e. change (s\<lparr>mw_engine := e\<rparr>) = (change s)\<lparr>mw_engine := e\<rparr>"
  shows "blind (sql change)"
proof (rule blindI)
  fix s :: "'a merge_world" and e
  have swap: "s\<lparr>mw_engine := e, sql_outcomes := os\<rparr> = s\<lparr>sql_outcomes := os, mw_engine := e\<rparr>" for os
    by simp
  show "sql change (s\<lparr>mw_engine := e\<rparr>) = apsnd (\<lambda>t. t\<lparr>mw_engine := e\<rparr>) (sql change s)"
    using assms by (simp add: sql_def swap split: list.split option.split)
qed

lemma blind_basics:
  "blind (st_return a)" "blind (st_result r)" "blind (on_outside f did)"
  by (rule blindI; simp add: st_return_def st_result_def on_outside_def split: prod.split sum.split)+

lemma blind_read: "(\<And>s e. f (s\<lparr>mw_engine := e\<rparr>) = f s) \<Longrightarrow> blind (read_sql f)"
  unfolding read_sql_def by (intro blind_then blind_sql) (auto intro: blindI)

lemma blind_record: "blind record_merge"
  unfolding record_merge_def by (rule blind_sql) (simp add: note_step_def)

lemma blind_url: "blind (pull_request_url ef project worker found)"
  unfolding pull_request_url_def
  by (auto intro!: blind_then blind_basics blind_sql simp: note_step_def on_row_def split: option.split)

lemma blind_merging:
  "blind (merge_on_github ef project worker ms)" "blind (merge_in_repository ef project worker ms)"
  unfolding merge_on_github_def merge_in_repository_def
  by (auto intro!: blind_then blind_basics blind_url blind_record)

lemma blind_observed:
  assumes "\<And>s e. g (s\<lparr>mw_engine := e\<rparr>) = (g s)\<lparr>mw_engine := e\<rparr>"
  shows "blind (\<lambda>s. (Ok a, (g s)\<lparr>mw_engine := f (mw_engine (g s))\<rparr>))"
  using assms by (auto simp: blind_def intro: exI [of _ "f e" for e])

lemma blind_finish: "blind (finish_merge ef su project rm wn)"
proof -
  obtain worker note' where wn: "wn = (worker, note')" by fastforce
  show ?thesis
    unfolding finish_merge_def wn prod.case Let_def
    by (intro blind_then blind_sql blind_observed)
      (auto simp: note_step_def on_row_def log_message_def split: prod.split sum.split)
qed

text \<open>The column of a card, and with it a pin on the board, changes nothing about a merge.\<close>

lemma merge_ignores_the_column: "blind (merge_worker ef su i remove_worktree)"
proof -
  have judged: "blind (\<lambda>s. st_then (st_result (r s)) k s)"
    if k: "\<And>a. blind (k a)" and r: "\<And>s e. r (s\<lparr>mw_engine := e\<rparr>) = r s" for r :: "'a merge_world \<Rightarrow> ustr + 'b" and k :: "'b \<Rightarrow> 'a merge_world \<Rightarrow> (ustr + worker) \<times> 'a merge_world"
  proof -
    have "\<exists>e'. st_then (st_result (r s)) k (s\<lparr>mw_engine := e\<rparr>) = apsnd (\<lambda>t. t\<lparr>mw_engine := e'\<rparr>) (st_then (st_result (r s)) k s)" for s e
      using blind_then [where k = k, OF blind_basics(2) k] unfolding blind_def by blast
    then show ?thesis by (simp add: blind_def r)
  qed
  show ?thesis
    unfolding merge_worker_def Let_def
    by (auto intro!: blind_then blind_read blind_basics judged blind_merging blind_finish)
qed

end
