(* ===== verification/Github_Runs.thy ===== *)
theory Github_Runs
  imports Github
begin

text \<open>
  What the GitHub layer does with its programs: the order in which \<open>git\<close> and \<open>gh\<close> are run and
  what is made of their results, the end of the bounded wait, and the columns a sweep over the pull
  requests can put on the board.
\<close>

section \<open>A record of the runs\<close>

text \<open>The same tools, writing down every run beside the world.\<close>

type_synonym tool_run = "program \<times> ustr list \<times> (ustr + tool_output)"

definition recording :: "'w machine_tools \<Rightarrow> ('w \<times> tool_run list) machine_tools" where
  "recording tools =
     \<lparr> run_program = \<lambda>p args cwd (w, log).
         case run_program tools p args cwd w of (r, w') \<Rightarrow> (r, (w', log @ [(p, args, r)])),
       is_directory = \<lambda>d (w, log). is_directory tools d w \<rparr>"

definition run_ok :: "ustr + tool_output \<Rightarrow> bool" where
  "run_ok r = (case r of Ok o' \<Rightarrow> success o' | Err _ \<Rightarrow> False)"

lemma recording_simps [simp]:
  "run_program (recording tools) p args cwd (w, log) =
     (fst (run_program tools p args cwd w),
      (snd (run_program tools p args cwd w), log @ [(p, args, fst (run_program tools p args cwd w))]))"
  "is_directory (recording tools) d (w, log) = is_directory tools d w"
  by (simp_all add: recording_def split: prod.split)

lemma run_tool_recording [simp]:
  "run_tool (recording tools) p args repo label (w, log) =
     (fst (run_tool tools p args repo label w),
      (snd (run_program tools p args repo w), log @ [(p, args, fst (run_program tools p args repo w))]))"
  by (cases "run_program tools p args repo w"; cases "fst (run_program tools p args repo w)")
    (simp_all add: run_tool_def Let_def)

definition succeeded :: "ustr + 'a \<Rightarrow> bool" where
  "succeeded r = (case r of Ok _ \<Rightarrow> True | Err _ \<Rightarrow> False)"

lemma succeeded_simps [simp]: "succeeded (Ok a)" "\<not> succeeded (Err e)"
  by (simp_all add: succeeded_def)

lemma run_ok_iff: "run_ok (fst (run_program tools p args repo w)) = succeeded (fst (run_tool tools p args repo label w))"
  by (cases "run_program tools p args repo w"; cases "fst (run_program tools p args repo w)")
    (simp_all add: run_tool_def run_ok_def Let_def)

section \<open>The local merge\<close>

text \<open>A run that leaves the repository on a branch, or shows that it is.\<close>

definition shows_branch :: "ustr \<Rightarrow> ustr \<Rightarrow> tool_run \<Rightarrow> bool" where
  "shows_branch repo base run' =
     (case run' of (p, args, r) \<Rightarrow>
        p = Git \<and> run_ok r \<and>
        (args = build_checkout_args repo base \<or>
         args = [lit ''-C'', repo, lit ''rev-parse'', lit ''--abbrev-ref'', lit ''HEAD''] \<and>
         (case r of Ok o' \<Rightarrow> trim (stdout o') = base | Err _ \<Rightarrow> False)))"

definition merges_in :: "ustr \<Rightarrow> tool_run \<Rightarrow> bool" where
  "merges_in repo run' = (fst run' = Git \<and> take 3 (fst (snd run')) = [lit ''-C'', repo, lit ''merge''])"

text \<open>Every merge of the record comes right after such a run, and ends the record.\<close>

fun merges_only_on :: "ustr \<Rightarrow> ustr \<Rightarrow> tool_run list \<Rightarrow> bool" where
  "merges_only_on repo base (x # y # ys) \<longleftrightarrow>
     \<not> merges_in repo x \<and>
     (if merges_in repo y then shows_branch repo base x \<and> ys = [] else merges_only_on repo base (y # ys))"
| "merges_only_on repo base [x] \<longleftrightarrow> \<not> merges_in repo x"
| "merges_only_on repo base [] \<longleftrightarrow> True"

definition ends_in_merge :: "ustr \<Rightarrow> ustr \<Rightarrow> tool_run list \<Rightarrow> bool" where
  "ends_in_merge repo branch log =
     (case rev log of
        (p, args, r) # _ \<Rightarrow> p = Git \<and> args = build_merge_args repo branch \<and> run_ok r
      | [] \<Rightarrow> False)"

lemmas run_args = build_checkout_args_def build_merge_args_def lit_def

lemma merges_in_simps [simp]:
  "merges_in repo (Git, build_merge_args repo branch, r)"
  "\<not> merges_in repo (Git, build_checkout_args repo base, r)"
  "\<not> merges_in repo (Git, [lit ''-C'', repo, lit ''rev-parse'', lit ''--abbrev-ref'', lit ''HEAD''], r)"
  by (simp_all add: merges_in_def run_args)

lemma no_merge_ends [simp]:
  "\<not> ends_in_merge repo branch []"
  "\<not> ends_in_merge repo branch (log @ [(Git, build_checkout_args repo base, r)])"
  "\<not> ends_in_merge repo branch
     (log @ [(Git, [lit ''-C'', repo, lit ''rev-parse'', lit ''--abbrev-ref'', lit ''HEAD''], r)])"
  "ends_in_merge repo branch (log @ [(Git, build_merge_args repo branch, r)]) = run_ok r"
  by (simp_all add: ends_in_merge_def run_args)

lemma current_branch_recording:
  "current_branch (recording tools) repo (w, log) =
     (let (r, w') = run_program tools Git [lit ''-C'', repo, lit ''rev-parse'', lit ''--abbrev-ref'', lit ''HEAD''] [] w in
      (case r of Ok o' \<Rightarrow> if success o' \<and> trim (stdout o') \<noteq> [] then Some (trim (stdout o')) else None | Err _ \<Rightarrow> None,
       (w', log @ [(Git, [lit ''-C'', repo, lit ''rev-parse'', lit ''--abbrev-ref'', lit ''HEAD''], r)])))"
  by (auto simp: current_branch_def printed_def Let_def split: prod.splits sum.splits)

lemma current_branch_shown:
  assumes "current_branch (recording tools) repo (w, []) = (at, (w', log))"
  shows "\<exists>r. log = [(Git, [lit ''-C'', repo, lit ''rev-parse'', lit ''--abbrev-ref'', lit ''HEAD''], r)] \<and>
     (at = Some base \<longrightarrow>
      shows_branch repo base (Git, [lit ''-C'', repo, lit ''rev-parse'', lit ''--abbrev-ref'', lit ''HEAD''], r))"
  using assms
  by (auto simp: current_branch_recording Let_def shows_branch_def run_ok_def split: prod.splits sum.splits if_splits)

text \<open>A local merge happens on the base branch.  Whatever \<open>git\<close> answers: \<open>merge_local\<close> runs \<open>git\<close>
  only, at most three times; it merges at most once, as the last run, and only right
  after a run that showed the repository on the base branch or put it there.  It succeeds
  exactly when that merge of the worker's branch did.\<close>

theorem local_merge_happens_on_the_base:
  "case merge_local (recording tools) repo base branch (w, []) of
     (r, w', log) \<Rightarrow>
       merges_only_on repo base log \<and> list_all (\<lambda>(p, _). p = Git) log \<and> length log \<le> 3 \<and>
       succeeded r = ends_in_merge repo branch log"
proof (cases "trim branch = [] \<or> \<not> is_directory tools repo w")
  case False
  obtain at w' log where at: "current_branch (recording tools) repo (w, []) = (at, (w', log))"
    by (cases "current_branch (recording tools) repo (w, [])") auto
  obtain r where log: "log = [(Git, [lit ''-C'', repo, lit ''rev-parse'', lit ''--abbrev-ref'', lit ''HEAD''], r)]"
    and on: "at = Some base \<longrightarrow>
      shows_branch repo base (Git, [lit ''-C'', repo, lit ''rev-parse'', lit ''--abbrev-ref'', lit ''HEAD''], r)"
    using current_branch_shown [OF at] by blast
  have checked_out: "shows_branch repo base
      (Git, build_checkout_args repo base, fst (run_program tools Git (build_checkout_args repo base) repo w'))"
    if "fst (run_tool tools Git (build_checkout_args repo base) repo (lit ''git checkout'') w') = Ok out" for out
    using that run_ok_iff [of tools Git "build_checkout_args repo base" repo w' "lit ''git checkout''"]
    by (simp add: shows_branch_def)
  note ends = no_merge_ends(4) [of repo branch "[a]" for a] no_merge_ends(4) [of repo branch "[a, b]" for a b]
    no_merge_ends(2) [of repo branch "[a]" for a]
  show ?thesis
  proof (cases "at = Some base")
    case True
    with False at log on show ?thesis
      by (auto simp: merge_local_def ends [simplified]
          run_ok_iff [where label = "lit ''git merge''"] split: sum.split)
  next
    case other: False
    with False at log checked_out show ?thesis
      by (auto simp: merge_local_def ends [simplified]
          run_ok_iff [where label = "lit ''git merge''"] split: sum.split)
  qed
qed (auto simp: merge_local_def)


section \<open>Opening a pull request\<close>

text \<open>Opening a pull request, in a record of the runs.\<close>

definition opens_request :: "tool_run \<Rightarrow> bool" where
  "opens_request run' = (fst run' = Gh \<and> take 2 (fst (snd run')) = [lit ''pr'', lit ''create''])"

fun opened_after_push :: "ustr \<Rightarrow> ustr \<Rightarrow> tool_run list \<Rightarrow> bool" where
  "opened_after_push repo branch (x # y # ys) \<longleftrightarrow>
     \<not> opens_request x \<and>
     (if opens_request y then x = (Git, build_push_args repo branch, snd (snd x)) \<and> run_ok (snd (snd x)) \<and> ys = []
      else opened_after_push repo branch (y # ys))"
| "opened_after_push repo branch [x] \<longleftrightarrow> \<not> opens_request x"
| "opened_after_push repo branch [] \<longleftrightarrow> True"

definition request_url :: "ustr \<Rightarrow> bool" where
  "request_url url \<longleftrightarrow> starts_with url (lit ''https://'') \<and> str_contains url (lit ''/pull/'')"

lemma gh_available_recording:
  "gh_available (recording tools) (w, log) =
     (run_ok (fst (run_program tools Gh [lit ''--version''] [] w)),
      (snd (run_program tools Gh [lit ''--version''] [] w),
       log @ [(Gh, [lit ''--version''], fst (run_program tools Gh [lit ''--version''] [] w))]))"
  by (simp add: gh_available_def succeeds_def run_ok_def split: sum.split)

lemma opens_request_simps [simp]:
  "\<not> opens_request (Gh, [lit ''--version''], r)"
  "\<not> opens_request (Git, args, r)"
  "opens_request (Gh, build_pr_create_args branch title body, r)"
  by (simp_all add: opens_request_def build_pr_create_args_def lit_def)

lemma extract_pr_url_is_url: "extract_pr_url out = Some url \<Longrightarrow> request_url url"
  by (auto simp: extract_pr_url_def request_url_def find_Some_iff)

text \<open>A pull request is opened for a pushed branch only.  Whatever the programs answer:
  \<open>create_pr\<close> opens at most one pull request, in its last run, right after a push of the worker's branch
  that succeeded; and when it reports a pull request, the text it reports is the address of one, taken from what
  \<open>gh\<close> printed.\<close>

theorem pull_request_follows_a_push:
  "case create_pr (recording tools) repo branch title body (w, []) of
     (r, w', log) \<Rightarrow>
       opened_after_push repo branch log \<and>
       (case r of
          Err _ \<Rightarrow> True
        | Ok url \<Rightarrow> request_url url \<and> log \<noteq> [] \<and> opens_request (last log) \<and> run_ok (snd (snd (last log))))"
proof (cases "trim branch = [] \<or> \<not> is_directory tools repo w")
  case False
  then show ?thesis
    by (auto simp: create_pr_def gh_available_recording ok_or_def extract_pr_url_is_url
        run_ok_iff [where p = Git and label = "lit ''git push''"]
        run_ok_iff [where args = "build_pr_create_args branch title body" and label = "lit ''gh pr create''"]
        split: sum.split option.split bool.split)
qed (auto simp: create_pr_def)

section \<open>Creating a repository\<close>

text \<open>Between two looks at a child the caller sleeps for the interval, so the clock moves on.\<close>

definition clock_moves :: "child \<Rightarrow> bool" where
  "clock_moves c \<longleftrightarrow> (\<forall>k. CREATE_POLL_INTERVAL * int k \<le> elapsed c k)"

text \<open>What the wait says, and when.\<close>

definition rightly_waited :: "child \<Rightarrow> nat \<Rightarrow> waited \<Rightarrow> bool" where
  "rightly_waited c k r =
     (case r of
        Ended ended \<Rightarrow> try_wait c k = Ok (Some ended)
      | Wait_Failed e \<Rightarrow> try_wait c k = Err e
      | Timed_Out \<Rightarrow> try_wait c k = Ok None \<and> CREATE_TIMEOUT \<le> elapsed c k)"

lemma wait_loop_returns:
  assumes "clock_moves c" and "3600 < n + k" and "0 < n"
  shows "\<exists>r j. wait_loop n c k = Some r \<and> (j \<le> 3600 \<or> j = k) \<and> rightly_waited c j r"
  using assms(2,3)
proof (induction n arbitrary: k)
  case (Suc n)
  show ?case
  proof (cases "try_wait c k = Ok None \<and> elapsed c k < CREATE_TIMEOUT")
    case True
    have "CREATE_POLL_INTERVAL * int k \<le> elapsed c k"
      using assms(1) by (simp add: clock_moves_def)
    with True have "k < 3600" by (simp add: CREATE_TIMEOUT_def CREATE_POLL_INTERVAL_def)
    then obtain r j where "wait_loop n c (Suc k) = Some r" "j \<le> 3600 \<or> j = Suc k" "rightly_waited c j r"
      using Suc.IH [of "Suc k"] Suc.prems by auto
    with True \<open>k < 3600\<close> show ?thesis by (intro exI [of _ r] exI [of _ j]) auto
  next
    case False
    then show ?thesis
      by (intro exI [of _ "case try_wait c k of Err e \<Rightarrow> Wait_Failed e | Ok (Some e) \<Rightarrow> Ended e | Ok None \<Rightarrow> Timed_Out"] exI [of _ k])
        (auto simp: rightly_waited_def split: sum.splits option.splits)
  qed
qed simp

text \<open>What the code relies on in the processes it starts: the clock moves on; a process that was killed can be
  waited for, and one that could not be killed has ended; and once a process has ended, nobody holds
  its pipes open.\<close>

definition dies_when_killed :: "child \<Rightarrow> bool" where
  "dies_when_killed c \<longleftrightarrow>
     (case kill_child c of
        Ok _ \<Rightarrow> wait_child c True \<noteq> None
      | Err _ \<Rightarrow> wait_child c False \<noteq> None)"

definition closes_its_pipes :: "child \<Rightarrow> bool" where
  "closes_its_pipes c \<longleftrightarrow> (\<forall>k e. try_wait c k = Ok (Some e) \<longrightarrow> collect c \<noteq> None)"

definition ordinary_processes :: "'w spawner \<Rightarrow> ustr \<Rightarrow> bool" where
  "ordinary_processes sp repo \<longleftrightarrow>
     (\<forall>args w. case fst (spawn sp args repo w) of
        Ok c \<Rightarrow> clock_moves c \<and> dies_when_killed c \<and> closes_its_pipes c
      | Err _ \<Rightarrow> True)"

lemma after_wait_returns:
  assumes "rightly_waited c k r" and "dies_when_killed c" and "closes_its_pipes c"
  shows "after_wait tools repo c r w \<noteq> None"
proof (cases r)
  case (Ended e)
  with assms show ?thesis
    by (auto simp: after_wait_def rightly_waited_def closes_its_pipes_def opt_then_def split: option.splits)
next
  case Timed_Out
  with assms(2) show ?thesis
    by (cases "kill_child c") (auto simp: after_wait_def dies_when_killed_def opt_then_def split: option.splits)
qed (simp add: after_wait_def)

lemma creation_returns:
  assumes "ordinary_processes sp repo"
  shows "create_github_repo tools sp repo name private w \<noteq> None"
proof -
  have ends: "\<exists>z. opt_then (wait_loop CREATE_LOOKS c 0) (\<lambda>r. after_wait tools repo c r v') = Some z"
    if "spawn sp args repo v = (Ok c, v')" for c args v v'
  proof -
    have "case fst (spawn sp args repo v) of
        Ok c \<Rightarrow> clock_moves c \<and> dies_when_killed c \<and> closes_its_pipes c | Err _ \<Rightarrow> True"
      using assms unfolding ordinary_processes_def by blast
    then have c: "clock_moves c" "dies_when_killed c" "closes_its_pipes c" using that by simp_all
    from wait_loop_returns [OF c(1), of CREATE_LOOKS 0] obtain r j where
      "wait_loop CREATE_LOOKS c 0 = Some r" "rightly_waited c j r" by (auto simp: CREATE_LOOKS_def)
    with after_wait_returns [OF this(2) c(2,3)] show ?thesis by (auto simp: opt_then_def)
  qed
  show ?thesis
    by (auto simp: create_github_repo_def dest!: ends split: sum.split prod.split bool.split)
qed


text \<open>A \<open>gh\<close> that hangs until it is killed, started on an ordinary directory: waiting for it without the kill
  would never return.\<close>

definition hanging_gh :: "unit spawner" where
  "hanging_gh = \<lparr> spawn = \<lambda>_ _ w.
     (Ok \<lparr> try_wait = \<lambda>_. Ok None, elapsed = \<lambda>k. 50 * int k, kill_child = Ok (),
           wait_child = \<lambda>killed. if killed then Some (Ok None) else None, collect = None \<rparr>, w) \<rparr>"

definition quiet_tools :: "unit machine_tools" where
  "quiet_tools =
     \<lparr> run_program = \<lambda>p _ _ w. (if p = Gh then Ok \<lparr> exit_code = Some 0, stdout = [], stderr = [] \<rparr> else Err [], w),
       is_directory = \<lambda>_ _. True \<rparr>"


text \<open>Only the wait for the end of \<open>gh\<close> is bounded: collecting the output of a \<open>gh\<close> that has ended lasts as
  long as some process it started keeps the pipes.\<close>

lemma collecting_is_not_bounded:
  assumes "try_wait c 0 = Ok (Some ended)" and "collect c = None"
  shows "opt_then (wait_loop CREATE_LOOKS c 0) (\<lambda>r. after_wait tools repo c r w) = None"
proof -
  have "wait_loop CREATE_LOOKS c 0 = Some (Ended ended)"
    using assms(1) by (simp add: CREATE_LOOKS_def numeral_eq_Suc)
  with assms(2) show ?thesis by (simp add: after_wait_def opt_then_def)
qed


section \<open>The columns of the board\<close>

definition known_column :: "ustr \<Rightarrow> bool" where
  "known_column c \<longleftrightarrow> c \<in> set COLUMNS"

definition known_verdict :: "verdict option \<Rightarrow> bool" where
  "known_verdict v \<longleftrightarrow> (case v of None \<Rightarrow> True | Some v \<Rightarrow> known_column (column v))"

definition well_typed :: "worker_state \<Rightarrow> bool" where
  "well_typed s \<longleftrightarrow>
     list_all known_verdict
       [hook s, gh s, submit_guard s, question s, stuck s, map_option sb_verdict (startup_block s)] \<and>
     (case override_column s of None \<Rightarrow> True | Some c \<Rightarrow> known_column c)"

definition all_typed :: "status_engine \<Rightarrow> bool" where
  "all_typed e \<longleftrightarrow> (\<forall>i. well_typed (state_of e i))"

definition keeps_typed :: "(worker_state \<Rightarrow> worker_state) \<Rightarrow> bool" where
  "keeps_typed f \<longleftrightarrow> (\<forall>s. well_typed s \<longrightarrow> well_typed (f s))"

lemma known_columns [simp]:
  "known_column COL_WORKING" "known_column COL_NEEDS_YOU" "known_column COL_IN_REVIEW"
  "known_column COL_READY_TO_MERGE" "known_column COL_DONE"
  by (simp_all add: known_column_def COLUMNS_def)

lemma known_verdict_simps [simp]:
  "known_verdict None" "known_verdict (Some v) = known_column (column v)"
  by (simp_all add: known_verdict_def)

lemma verdict_columns [simp]:
  "column (coded c r) = c" "column (coded_with c r d) = c" "column (plain c) = c"
  by (simp_all add: coded_def coded_with_def plain_def from_signal_def)

lemma known_heuristics [simp]:
  "known_verdict (opt_then h strong)" "known_verdict (opt_then h weak)"
proof -
  have "known_verdict (strong x)" "known_verdict (weak x)" for x by (cases x; simp)+
  then show "known_verdict (opt_then h strong)" "known_verdict (opt_then h weak)"
    by (cases h; simp add: opt_then_def)+
qed

lemma known_verdict_for: "known_verdict (opt_then found verdict_for)"
  by (cases found) (simp_all add: verdict_for_def open_verdict_def)

lemma column_const_known: "column_const n = Some c \<Longrightarrow> known_column c"
  by (auto simp: column_const_def known_column_def find_Some_iff)

lemma well_typed_default [simp]: "well_typed default_state"
  by (simp add: well_typed_def default_state_def)

text \<open>A verdict taken from the first source that has one.\<close>

lemma known_first:
  "known_verdict v \<Longrightarrow> known_column (column d) \<Longrightarrow> known_column (column (case v of Some x \<Rightarrow> x | None \<Rightarrow> d))"
  "known_verdict (map_option f b) \<Longrightarrow> known_column (column d) \<Longrightarrow>
   known_column (column (case b of Some x \<Rightarrow> f x | None \<Rightarrow> d))"
  "(case o' of None \<Rightarrow> True | Some c \<Rightarrow> known_column c) \<Longrightarrow> known_column (column d) \<Longrightarrow>
   known_column (column (case o' of Some c \<Rightarrow> plain c | None \<Rightarrow> d))"
  "known_column (column a) \<Longrightarrow> known_column (column d) \<Longrightarrow> known_column (column (if p then a else d))"
  by (cases v; simp; fail) (cases b; simp; fail | cases o'; simp; fail | simp)+

lemma derive_known: "well_typed s \<Longrightarrow> known_column (column (derive s))"
  unfolding derive_def by (intro known_first known_heuristics) (simp_all add: well_typed_def)

lemma typed_update: "all_typed e \<Longrightarrow> keeps_typed f \<Longrightarrow> all_typed (update unix i f e)"
proof -
  assume e: "all_typed e" and f: "keeps_typed f"
  have "well_typed (f (state_of e i))" using e f by (simp add: all_typed_def keeps_typed_def)
  moreover have "well_typed (s\<lparr>attention_since := a\<rparr>) = well_typed s" "well_typed (s\<lparr>published := p\<rparr>) = well_typed s" for s a p
    by (simp_all add: well_typed_def)
  moreover have "well_typed (snd (stamp_attention unix s)) = well_typed s" for s
    using calculation(2) by (simp add: stamp_attention_def split: option.split prod.split)
  moreover have "workers (update unix i f e) =
      (workers e)(i \<mapsto> snd (stamp_attention unix (f (state_of e i)))) \<or>
      (\<exists>p. workers (update unix i f e) =
        (workers e)(i \<mapsto> (snd (stamp_attention unix (f (state_of e i))))\<lparr>published := p\<rparr>))"
    by (auto simp: update_def Let_def split: prod.split)
  ultimately show ?thesis
    using e by (auto simp: all_typed_def state_of_def)
qed

lemma well_typed_ignores [simp]:
  "well_typed (s\<lparr>profile_id := x1\<rparr>) = well_typed s" "well_typed (s\<lparr>ws_dialect := x2\<rparr>) = well_typed s"
  "well_typed (s\<lparr>status := x1\<rparr>) = well_typed s" "well_typed (s\<lparr>ws_heuristic := x3\<rparr>) = well_typed s"
  "well_typed (s\<lparr>Status_Engine.pr_url := x4\<rparr>) = well_typed s" "well_typed (s\<lparr>tail_text := x1\<rparr>) = well_typed s"
  "well_typed (s\<lparr>last_output := x5\<rparr>) = well_typed s" "well_typed (s\<lparr>git_fingerprint := x4\<rparr>) = well_typed s"
  "well_typed (s\<lparr>spawn_fingerprint := x4\<rparr>) = well_typed s" "well_typed (s\<lparr>last_git_change := x5\<rparr>) = well_typed s"
  "well_typed (s\<lparr>git_since := x5\<rparr>) = well_typed s" "well_typed (s\<lparr>ws_context_usage := x6\<rparr>) = well_typed s"
  "well_typed (s\<lparr>statusline := x7\<rparr>) = well_typed s"
  by (simp_all add: well_typed_def)

lemma well_typed_set [simp]:
  "well_typed s \<Longrightarrow> known_verdict v \<Longrightarrow> well_typed (s\<lparr>hook := v\<rparr>)"
  "well_typed s \<Longrightarrow> known_verdict v \<Longrightarrow> well_typed (s\<lparr>gh := v\<rparr>)"
  "well_typed s \<Longrightarrow> known_verdict v \<Longrightarrow> well_typed (s\<lparr>submit_guard := v\<rparr>)"
  "well_typed s \<Longrightarrow> known_verdict v \<Longrightarrow> well_typed (s\<lparr>question := v\<rparr>)"
  "well_typed s \<Longrightarrow> known_verdict v \<Longrightarrow> well_typed (s\<lparr>stuck := v\<rparr>)"
  "well_typed s \<Longrightarrow> known_verdict (map_option sb_verdict b) \<Longrightarrow> well_typed (s\<lparr>startup_block := b\<rparr>)"
  "well_typed s \<Longrightarrow> (case c of None \<Rightarrow> True | Some c \<Rightarrow> known_column c) \<Longrightarrow> well_typed (s\<lparr>override_column := c\<rparr>)"
  by (simp_all add: well_typed_def)

lemma note_char_verdict [simp]: "sb_verdict (note_char b c) = sb_verdict b"
proof -
  have "sb_verdict (note_match b c) = sb_verdict b"
    by (cases "escape b") (simp_all add: note_match_def csi_final_def Let_def split: prod.split)
  then show ?thesis by (simp add: note_char_def Let_def)
qed

lemma note_block_verdict [simp]: "sb_verdict (note_block_output b chunk) = sb_verdict b"
  unfolding note_block_output_def by (induction chunk arbitrary: b) simp_all

lemma well_typed_block: "well_typed s \<Longrightarrow> startup_block s = Some b \<Longrightarrow> known_column (column (sb_verdict b))"
  by (simp add: well_typed_def)

lemma typed_output: "well_typed s \<Longrightarrow> well_typed (note_output_edit pf at chunk s)"
  unfolding note_output_edit_def push_output_def Let_def
  by (cases "startup_block s") (auto simp: well_typed_block split: option.split)

lemma keeps_typed_edits [simp, intro]:
  "keeps_typed (observe_edit now d w)"
  "keeps_typed (git_edit fp at)"
  "keeps_typed (tick_edit idle stuck' now)"
  "keeps_typed (note_output_edit pf at chunk)"
  by (simp_all add: keeps_typed_def typed_output observe_edit_def take_status_def git_edit_def tick_edit_def Let_def
    split: option.split)

lemma typed_sweep:
  assumes "all_typed e"
  shows "all_typed (fst (snd (snd (poll_once tools from_str unix projects w e))))"
proof -
  have worker: "all_typed (fst (snd (poll_worker tools from_str unix repo x t)))" if "all_typed (fst (snd t))" for repo x t
    using that
    by (auto simp: poll_worker_def note_gh_def keeps_typed_def Let_def known_verdict_for split: prod.split
        intro!: typed_update)
  have workers: "all_typed (fst (snd (foldl (\<lambda>s x. poll_worker tools from_str unix repo x s) t xs)))"
    if "all_typed (fst (snd t))" for repo xs t
    using that by (induction xs arbitrary: t) (simp_all add: worker)
  have project: "all_typed (fst (snd (snd (poll_project tools from_str unix pw t))))"
    if "all_typed (fst (snd (snd t)))" for pw t
    using that workers by (auto simp: poll_project_def split: prod.split sum.split)
  have "all_typed (fst (snd (snd (foldl (\<lambda>s pw. poll_project tools from_str unix pw s) t ps))))"
    if "all_typed (fst (snd (snd t)))" for ps t
    using that by (induction ps arbitrary: t) (simp_all add: project)
  with assms show ?thesis
    by (auto simp: poll_once_def split: prod.split bool.split sum.split)
qed

text \<open>What moves the board: a call on the engine, or a sweep over GitHub.  The verdicts of a
  pull request come from the sweep only.\<close>

datatype 'w board_move =
  Called engine_call
| Swept "'w machine_tools" "ustr \<Rightarrow> json option" int "ustr + (project \<times> (ustr + worker list)) list" 'w

fun after_move ::
  "text_platform \<Rightarrow> 'f float_reader \<Rightarrow> ustr option \<Rightarrow> status_engine \<Rightarrow> 'w board_move \<Rightarrow> status_engine" where
  "after_move pf fl mk e (Called c) = after_engine pf fl mk e c"
| "after_move pf fl mk e (Swept tools from_str unix projects w) =
     fst (snd (snd (poll_once tools from_str unix projects w e)))"

fun brings_no_verdict :: "'w board_move \<Rightarrow> bool" where
  "brings_no_verdict (Called (engine_call.Gh _ _ v _)) \<longleftrightarrow> v = None"
| "brings_no_verdict _ \<longleftrightarrow> True"

lemma all_typed_iff: "all_typed e \<longleftrightarrow> (\<forall>i s. workers e i = Some s \<longrightarrow> well_typed s)"
proof
  show "all_typed e \<Longrightarrow> \<forall>i s. workers e i = Some s \<longrightarrow> well_typed s"
    by (metis all_typed_def option.simps(5) state_of_def)
  show "\<forall>i s. workers e i = Some s \<longrightarrow> well_typed s \<Longrightarrow> all_typed e"
    by (simp add: all_typed_def state_of_def split: option.split)
qed

lemma typed_call:
  assumes "all_typed e" and "case c of engine_call.Gh _ _ v _ \<Rightarrow> v = None | _ \<Rightarrow> True"
  shows "all_typed (after_engine pf fl mk e c)"
proof (cases c)
  case (Tick unix ids now)
  have "all_typed (foldl (\<lambda>e (k, i). update (unix k) i (tick_edit idle d now) e) e kis)" for idle d kis
    using assms(1) by (induction kis arbitrary: e) (auto intro: typed_update)
  with Tick show ?thesis by (simp add: tick_at_def Let_def)
next
  case (Hook unix i ev msg)
  have "known_verdict v" if "hook_verdict ev msg = Some v" for v
    using that by (auto simp: hook_verdict_def Let_def split: if_splits option.splits)
  with Hook assms(1) show ?thesis
    by (auto simp: note_hook_def keeps_typed_def intro!: typed_update split: option.split)
next
  case (Pin unix i name)
  with assms(1) show ?thesis
    by (auto simp: set_override_def keeps_typed_def dest: column_const_known intro!: typed_update split: option.split)
next
  case (Statusline i payload at)
  with assms(1) show ?thesis
    by (auto simp: note_statusline_at_def Let_def all_typed_def state_of_def split: option.split)
next
  case (Forget i)
  with assms(1) show ?thesis by (simp add: forget_worker_def all_typed_iff)
next
  case (Stuck_After d)
  with assms(1) show ?thesis by (simp add: set_stuck_after_def all_typed_iff)
next
  case (Output unix i chunk at)
  then show ?thesis
    using typed_update [OF assms(1)] by (simp add: note_output_at_def Let_def all_typed_def state_of_def)
qed (use assms in \<open>auto simp: observe_worker_def note_git_activity_at_def note_submit_guard_failed_def
  note_startup_blocked_def note_submit_guard_def note_question_def clear_question_def note_gh_def
  Let_def new_startup_block_def keeps_typed_def intro!: typed_update split: option.split\<close>)


lemma typed_move: "all_typed e \<Longrightarrow> brings_no_verdict c \<Longrightarrow> all_typed (after_move pf fl mk e c)"
proof (cases c)
  case (Called x)
  assume "all_typed e" "brings_no_verdict c"
  with Called show ?thesis by (cases x) (auto intro!: typed_call simp del: after_engine.simps)
qed (simp add: typed_sweep)

lemma typed_moves: "all_typed e \<Longrightarrow> list_all brings_no_verdict cs \<Longrightarrow> all_typed (run (after_move pf fl mk) e cs)"
  by (induction cs arbitrary: e) (simp_all add: run_def typed_move)

lemma typed_new: "all_typed (new_engine idle)"
  by (simp add: all_typed_def new_engine_def state_of_def)

lemma board_row_known: "all_typed e \<Longrightarrow> known_column (bs_column (board_row e all w))"
  by (auto simp: board_row_def Let_def all_typed_iff derive_known split: option.split)

text \<open>C31: Every card has a column.  Whatever calls are made on an engine and whatever GitHub
  answers in between, the column the board shows for a worker, and every
  verdict in a worker's state, is one of the five columns; a name that is not a column is never pinned.
  The verdicts of pull requests are those of the sweep.\<close>

theorem every_card_has_a_column:
  assumes "list_all brings_no_verdict cs"
  shows "let e = run (after_move pf fl mk) (new_engine idle) cs in
     bs_column (board_row e all w) \<in> set COLUMNS \<and> well_typed (state_of e i)"
proof -
  have typed: "all_typed (run (after_move pf fl mk) (new_engine idle) cs)"
    by (rule typed_moves [OF typed_new assms])
  then show ?thesis
    using board_row_known [OF typed] by (simp add: Let_def all_typed_def known_column_def)
qed

text \<open>A worker was pinned by hand; the sweep finds its pull request approved and green.\<close>

definition green_request :: json where
  "green_request =
     JArray [JObject [(lit ''url'', JString (lit ''https://github.com/a/b/pull/1'')), (lit ''state'', JString (lit ''OPEN'')),
       (lit ''isDraft'', JBool False), (lit ''reviewDecision'', JString (lit ''APPROVED'')),
       (lit ''statusCheckRollup'', JArray [])]]"

definition sample_worker :: worker where
  "sample_worker =
     \<lparr> wk_id = lit ''w'', wk_project_id = lit ''p'', wk_task = lit ''t'', wk_profile_id = lit ''x'',
       wk_branch = lit ''pa/w'', wk_worktree_path = lit ''/w'', wk_session_id = None, wk_status = STATUS_RUNNING,
       wk_kind = lit ''worker'', wk_pr_url = None, wk_spawned_by = None, wk_test_status = None,
       wk_tested_at = None, wk_paused_reason = None, wk_created_at = 0 \<rparr>"

definition github_answers :: "unit machine_tools" where
  "github_answers =
     \<lparr> run_program = \<lambda>_ _ _ w. (Ok \<lparr> exit_code = Some 0, stdout = lit ''github.com'', stderr = [] \<rparr>, w),
       is_directory = \<lambda>_ _. True \<rparr>"

definition swept :: status_engine where
  "swept =
     run (after_move \<lparr> lowercase = id, scaled_amount = \<lambda>_ _. None \<rparr>
           \<lparr> decode_statusline = \<lambda>_. None, percent_in_range = \<lambda>x::unit. None \<rparr> None)
         (new_engine 30000)
         [Called (Pin 1 (lit ''w'') (Some (lit ''in_review''))),
          Swept github_answers (\<lambda>_. Some green_request) 2
            (Ok [(\<lparr> pj_id = lit ''p'', pj_repo_path = lit ''/r'', pj_test_command = None \<rparr>, Ok [sample_worker])]) ()]"

lemma swept_column: "bs_column (board_row swept [] sample_worker) = COL_READY_TO_MERGE"
  by code_simp

theorem every_card_has_a_column_witness:
  "bs_column (board_row swept [] sample_worker) = COL_READY_TO_MERGE \<and>
   bs_column (board_row swept [] sample_worker) \<in> set COLUMNS \<and> well_typed (state_of swept (lit ''w''))"
  using swept_column
  unfolding swept_def
  by (intro conjI every_card_has_a_column [unfolded Let_def, THEN conjunct1]
      every_card_has_a_column [unfolded Let_def, THEN conjunct2]) simp_all

end
