(* ===== verification/Worker_Tree.thy ===== *)
theory Worker_Tree
  imports Status_Engine "HOL-Library.List_Lexorder" "HOL-Library.Product_Lexorder" "HOL-Library.Multiset"
begin

text \<open>
  The hierarchy of a project's workers, \<open>build_tree\<close> of \<open>src-tauri/src/api.rs\<close>.  Workers name
  the worker that spawned them; the names may dangle and may form rings.  The tree shows every worker
  once, below the worker it names, and breaks a ring at one of its members.
\<close>

section \<open>The code\<close>

datatype tree_node = Tree_Node worker "tree_node list"

record project_tree =
  pt_coordinators :: "tree_node list"
  pt_workers :: "tree_node list"

definition is_coordinator :: "worker \<Rightarrow> bool" where
  "is_coordinator w \<longleftrightarrow> wk_kind w = KIND_ORCHESTRATOR \<or> wk_kind w = KIND_QUEEN \<or> wk_kind w = KIND_SCOUT"

definition worker_ids :: "worker list \<Rightarrow> ustr list" where
  "worker_ids ws = map wk_id ws"

definition claims :: "worker list \<Rightarrow> worker \<Rightarrow> ustr \<Rightarrow> bool" where
  "claims ws w parent \<longleftrightarrow>
     wk_spawned_by w = Some parent \<and> parent \<noteq> wk_id w \<and> parent \<in> set (worker_ids ws)"

text \<open>The two results of the first loop: \<open>children_of\<close> at a key, and \<open>roots\<close>.\<close>

definition children_of :: "worker list \<Rightarrow> ustr \<Rightarrow> worker list" where
  "children_of ws parent = filter (\<lambda>w. claims ws w parent) ws"

definition tree_roots :: "worker list \<Rightarrow> worker list" where
  "tree_roots ws =
     filter (\<lambda>w. case wk_spawned_by w of None \<Rightarrow> True | Some parent \<Rightarrow> \<not> claims ws w parent) ws"

text \<open>The loop over the children of a node, which calls \<open>node_of\<close> for those not yet visited.\<close>

function nodes_of :: "worker list \<Rightarrow> ustr list \<Rightarrow> worker list \<Rightarrow> tree_node list \<times> ustr list" where
  "nodes_of ws vis [] = ([], vis)"
| "nodes_of ws vis (c # cs) =
     (if wk_id c \<in> set vis then nodes_of ws vis cs
      else
        case nodes_of ws (wk_id c # vis) (children_of ws (wk_id c)) of
          (kids, vis1) \<Rightarrow>
            (case nodes_of ws vis1 cs of
               (rest, vis2) \<Rightarrow> (Tree_Node c kids # rest, vis2)))"
  by pat_completeness auto

lemma nodes_of_visits:
  assumes "nodes_of_dom (ws, vis, cs)"
  shows "set vis \<subseteq> set (snd (nodes_of ws vis cs))"
  using assms
  by (induction rule: nodes_of.pinduct) (fastforce simp: nodes_of.psimps split: prod.split)+

lemma children_known: "wk_id ` set (children_of ws p) \<subseteq> wk_id ` set ws"
  by (auto simp: children_of_def)

text \<open>Every call leaves fewer workers to visit, or a shorter list to look at.\<close>

definition unvisited :: "worker list \<times> ustr list \<times> worker list \<Rightarrow> nat" where
  "unvisited = (\<lambda>(ws, vis, cs). card ((wk_id ` set ws \<union> wk_id ` set cs) - set vis))"

lemma unvisited_shrinks:
  assumes "wk_id c \<notin> set vis" and "insert (wk_id c) (set vis) \<subseteq> set vis'"
    and "wk_id ` set ds \<subseteq> wk_id ` set ws \<union> wk_id ` set cs"
  shows "unvisited (ws, vis', ds) < unvisited (ws, vis, c # cs)"
  unfolding unvisited_def prod.case
  using assms by (intro psubset_card_mono) auto

lemma unvisited_skips: "unvisited (ws, vis, cs) \<le> unvisited (ws, vis, c # cs)"
  unfolding unvisited_def prod.case by (intro card_mono) auto

termination nodes_of
proof (relation "measures [unvisited, \<lambda>(ws, vis, cs). length cs]")
  fix ws :: "worker list" and vis :: "ustr list" and c :: worker and cs
  show "((ws, vis, cs), ws, vis, c # cs) \<in> measures [unvisited, \<lambda>(ws, vis, cs). length cs]"
    using unvisited_skips [of ws vis cs c] by (auto simp: le_less)
next
  fix ws :: "worker list" and vis :: "ustr list" and c :: worker and cs
  assume "wk_id c \<notin> set vis"
  then have "unvisited (ws, wk_id c # vis, children_of ws (wk_id c)) < unvisited (ws, vis, c # cs)"
    using children_known [of ws "wk_id c"] by (intro unvisited_shrinks) auto
  then show "((ws, wk_id c # vis, children_of ws (wk_id c)), ws, vis, c # cs)
      \<in> measures [unvisited, \<lambda>(ws, vis, cs). length cs]" by simp
next
  fix ws :: "worker list" and vis :: "ustr list" and c :: worker and cs kids vis1
  assume "wk_id c \<notin> set vis" and x: "(kids, vis1) = nodes_of ws (wk_id c # vis) (children_of ws (wk_id c))"
    and dom: "nodes_of_dom (ws, wk_id c # vis, children_of ws (wk_id c))"
  moreover have "set (wk_id c # vis) \<subseteq> set vis1"
    using nodes_of_visits [OF dom] x by (metis snd_conv)
  ultimately have "unvisited (ws, vis1, cs) < unvisited (ws, vis, c # cs)"
    by (intro unvisited_shrinks) auto
  then show "((ws, vis1, cs), ws, vis, c # cs) \<in> measures [unvisited, \<lambda>(ws, vis, cs). length cs]" by simp
qed simp

definition node_of :: "worker list \<Rightarrow> ustr list \<Rightarrow> worker \<Rightarrow> tree_node \<times> ustr list" where
  "node_of ws vis w =
     (case nodes_of ws (wk_id w # vis) (children_of ws (wk_id w)) of
        (kids, vis') \<Rightarrow> (Tree_Node w kids, vis'))"

text \<open>\<open>by_id\<close>: the last worker with a key stays in the hash map.\<close>

definition by_id :: "worker list \<Rightarrow> ustr \<Rightarrow> worker option" where
  "by_id ws = map_of (map (\<lambda>w. (wk_id w, w)) (rev ws))"

fun leads_back :: "worker list \<Rightarrow> ustr \<Rightarrow> nat \<Rightarrow> worker \<Rightarrow> bool" where
  "leads_back ws start 0 current = False"
| "leads_back ws start (Suc n) current =
     (case wk_spawned_by current of
        None \<Rightarrow> False
      | Some declared \<Rightarrow>
          declared = start \<or>
          (case by_id ws declared of
             None \<Rightarrow> False
           | Some parent \<Rightarrow> leads_back ws start n parent))"

definition on_cycle :: "worker list \<Rightarrow> worker \<Rightarrow> bool" where
  "on_cycle ws w = leads_back ws (wk_id w) (length (remdups (worker_ids ws))) w"

definition attach :: "project_tree \<Rightarrow> worker \<Rightarrow> tree_node \<Rightarrow> project_tree" where
  "attach t w node =
     (if is_coordinator w then t\<lparr>pt_coordinators := pt_coordinators t @ [node]\<rparr>
      else t\<lparr>pt_workers := pt_workers t @ [node]\<rparr>)"

definition place :: "worker list \<Rightarrow> worker \<Rightarrow> project_tree \<times> ustr list \<Rightarrow> project_tree \<times> ustr list" where
  "place ws w = (\<lambda>(t, vis). case node_of ws vis w of (node, vis') \<Rightarrow> (attach t w node, vis'))"

definition place_new :: "worker list \<Rightarrow> project_tree \<times> ustr list \<Rightarrow> worker \<Rightarrow> project_tree \<times> ustr list" where
  "place_new ws s w = (if wk_id w \<in> set (snd s) then s else place ws w s)"

definition ring_members :: "worker list \<Rightarrow> ustr list \<Rightarrow> worker list" where
  "ring_members ws vis =
     sort_key (\<lambda>w. (wk_created_at w, wk_id w)) (filter (\<lambda>w. wk_id w \<notin> set vis \<and> on_cycle ws w) ws)"

definition place_roots :: "worker list \<Rightarrow> project_tree \<times> ustr list" where
  "place_roots ws = foldl (\<lambda>s w. place ws w s) (\<lparr> pt_coordinators = [], pt_workers = [] \<rparr>, []) (tree_roots ws)"

definition build_tree :: "worker list \<Rightarrow> project_tree" where
  "build_tree ws =
     (let s = place_roots ws in
      fst (foldl (place_new ws) s (ring_members ws (snd s))))"

section \<open>What the traversal visits\<close>

fun shown_node :: "tree_node \<Rightarrow> worker list" where
  "shown_node (Tree_Node w kids) = w # concat (map shown_node kids)"

definition shown_nodes :: "tree_node list \<Rightarrow> worker list" where
  "shown_nodes ns = concat (map shown_node ns)"

lemma shown_nodes_simps [simp]:
  "shown_nodes [] = []"
  "shown_nodes (n # ns) = shown_node n @ shown_nodes ns"
  "shown_nodes (ns @ ms) = shown_nodes ns @ shown_nodes ms"
  "shown_node (Tree_Node w kids) = w # shown_nodes kids"
  by (simp_all add: shown_nodes_def)

declare shown_node.simps [simp del]

text \<open>The visited keys grow by the keys shown, each once and none of them visited before; and no child
  of a shown worker is left out.\<close>

definition closes :: "worker list \<Rightarrow> worker list \<Rightarrow> ustr list \<Rightarrow> bool" where
  "closes ws shown vis \<longleftrightarrow>
     (\<forall>w \<in> set shown. \<forall>k \<in> set (children_of ws (wk_id w)). wk_id k \<in> set vis)"

definition explored :: "worker list \<Rightarrow> ustr list \<Rightarrow> worker list \<Rightarrow> ustr list \<Rightarrow> bool" where
  "explored ws vis shown vis' \<longleftrightarrow>
     set vis' = set vis \<union> wk_id ` set shown \<and> distinct (map wk_id shown) \<and>
     (\<forall>w \<in> set shown. wk_id w \<notin> set vis) \<and> closes ws shown vis'"

lemma closes_append [simp]: "closes ws (xs @ ys) vis \<longleftrightarrow> closes ws xs vis \<and> closes ws ys vis"
  by (auto simp: closes_def)

lemma closes_mono: "closes ws xs vis \<Longrightarrow> set vis \<subseteq> set vis' \<Longrightarrow> closes ws xs vis'"
  unfolding closes_def by blast

lemma explored_Nil [simp]: "explored ws vis [] vis"
  by (simp add: explored_def closes_def)

lemma explored_append:
  assumes "explored ws vis xs vis1" and "explored ws vis1 ys vis2"
  shows "explored ws vis (xs @ ys) vis2"
proof -
  have "set vis1 \<subseteq> set vis2" using assms(2) by (simp add: explored_def)
  then have "closes ws xs vis2" using assms(1) closes_mono unfolding explored_def by blast
  then show ?thesis using assms unfolding explored_def by auto (metis image_eqI)
qed

lemma explored_Cons:
  assumes "wk_id c \<notin> set vis" and "explored ws (wk_id c # vis) kids vis1"
    and "\<forall>k \<in> set (children_of ws (wk_id c)). wk_id k \<in> set vis1"
  shows "explored ws vis (c # kids) vis1"
  using assms unfolding explored_def closes_def by auto

lemma explored_mset: "mset xs = mset ys \<Longrightarrow> explored ws vis xs vis' = explored ws vis ys vis'"
proof -
  assume m: "mset xs = mset ys"
  then have "set xs = set ys" by (rule mset_eq_setD)
  moreover have "distinct (map wk_id xs) = distinct (map wk_id ys)"
    using m by (metis mset_eq_imp_distinct_iff mset_map)
  ultimately show ?thesis by (simp add: explored_def closes_def)
qed

definition claimed :: "worker list \<Rightarrow> worker set" where
  "claimed ws = {w \<in> set ws. \<exists>p. claims ws w p}"

lemma children_claimed: "set (children_of ws p) \<subseteq> claimed ws"
  by (auto simp: children_of_def claimed_def)

lemma nodes_of_explored:
  assumes "nodes_of ws vis cs = (ns, vis')"
  shows "explored ws vis (shown_nodes ns) vis' \<and> (\<forall>c \<in> set cs. wk_id c \<in> set vis') \<and>
    set (shown_nodes ns) \<subseteq> set cs \<union> claimed ws"
  using assms
proof (induction ws vis cs arbitrary: ns vis' rule: nodes_of.induct)
  case (2 ws vis c cs)
  show ?case
  proof (cases "wk_id c \<in> set vis")
    case True
    with "2.prems" have "nodes_of ws vis cs = (ns, vis')" by simp
    note rest = "2.IH"(1) [OF True this]
    then have "wk_id c \<in> set vis'" using True by (simp add: explored_def)
    with rest show ?thesis by auto
  next
    case False
    obtain kids vis1 where k: "nodes_of ws (wk_id c # vis) (children_of ws (wk_id c)) = (kids, vis1)" by fastforce
    obtain rest where r: "nodes_of ws vis1 cs = (rest, vis')" "ns = Tree_Node c kids # rest"
      using "2.prems" False k by (auto split: prod.splits)
    note below = "2.IH"(2) [OF False k] and beside = "2.IH"(3) [OF False k [symmetric] r(1)]
    have one: "explored ws vis (c # shown_nodes kids) vis1"
      using below by (intro explored_Cons [OF False]) blast+
    have "explored ws vis ((c # shown_nodes kids) @ shown_nodes rest) vis'"
      by (rule explored_append [OF one]) (use beside in blast)
    moreover have "wk_id c \<in> set vis'"
      using one beside by (auto simp: explored_def)
    ultimately show ?thesis using children_claimed [of ws "wk_id c"] below beside r(2) by auto
  qed
qed simp

lemma node_of_explored:
  assumes "node_of ws vis w = (node, vis')" and "wk_id w \<notin> set vis"
  shows "explored ws vis (shown_node node) vis' \<and> w \<in> set (shown_node node) \<and>
    set (shown_node node) \<subseteq> insert w (claimed ws)"
proof -
  obtain kids where k: "nodes_of ws (wk_id w # vis) (children_of ws (wk_id w)) = (kids, vis')"
    "node = Tree_Node w kids"
    using assms(1) by (auto simp: node_of_def split: prod.splits)
  have "explored ws vis (w # shown_nodes kids) vis'"
    by (rule explored_Cons [OF assms(2)]) (use nodes_of_explored [OF k(1)] in blast)+
  then show ?thesis
    using children_claimed [of ws "wk_id w"] nodes_of_explored [OF k(1)] k(2) by auto
qed

section \<open>Every worker once\<close>

definition tree_shown :: "project_tree \<Rightarrow> worker list" where
  "tree_shown t = shown_nodes (pt_coordinators t) @ shown_nodes (pt_workers t)"

lemma mset_attach: "mset (tree_shown (attach t w node)) = mset (tree_shown t @ shown_node node)"
  by (simp add: tree_shown_def attach_def)

text \<open>The state of the two loops: the tree shows what was explored, and only workers.\<close>

definition tree_so_far :: "worker list \<Rightarrow> project_tree \<times> ustr list \<Rightarrow> bool" where
  "tree_so_far ws s \<longleftrightarrow>
     explored ws [] (tree_shown (fst s)) (snd s) \<and> set (tree_shown (fst s)) \<subseteq> set ws"

lemma place_so_far:
  assumes "tree_so_far ws s" and "w \<in> set ws" and "wk_id w \<notin> set (snd s)"
  shows "tree_so_far ws (place ws w s) \<and> set (snd s) \<subseteq> set (snd (place ws w s)) \<and>
    wk_id w \<in> set (snd (place ws w s))"
proof -
  obtain t vis where s: "s = (t, vis)" by fastforce
  obtain node vis' where n: "node_of ws vis w = (node, vis')" by fastforce
  note new = node_of_explored [OF n assms(3) [unfolded s snd_conv]]
  have old: "explored ws [] (tree_shown t) vis" "set (tree_shown t) \<subseteq> set ws"
    using assms(1) by (simp_all add: tree_so_far_def s)
  have "explored ws [] (tree_shown t @ shown_node node) vis'"
    by (rule explored_append [OF old(1)]) (use new in blast)
  then have "explored ws [] (tree_shown (attach t w node)) vis'"
    by (simp only: explored_mset [OF mset_attach])
  moreover have "set (tree_shown (attach t w node)) = set (tree_shown t) \<union> set (shown_node node)"
    using mset_eq_setD [OF mset_attach] by simp
  moreover have "set vis \<subseteq> set vis'" "wk_id w \<in> set vis'"
    using new by (auto simp: explored_def)
  moreover have "claimed ws \<subseteq> set ws" by (auto simp: claimed_def)
  ultimately show ?thesis
    using new old assms(2) by (auto simp: place_def s n tree_so_far_def)
qed

lemma place_new_so_far:
  "tree_so_far ws s \<Longrightarrow> w \<in> set ws \<Longrightarrow>
   tree_so_far ws (place_new ws s w) \<and> set (snd s) \<subseteq> set (snd (place_new ws s w)) \<and>
   wk_id w \<in> set (snd (place_new ws s w))"
  using place_so_far [of ws s w] by (simp add: place_new_def)

lemma place_all:
  assumes "tree_so_far ws s" and "set us \<subseteq> set ws"
  shows "tree_so_far ws (foldl (place_new ws) s us) \<and> set (snd s) \<subseteq> set (snd (foldl (place_new ws) s us)) \<and>
    (\<forall>u \<in> set us. wk_id u \<in> set (snd (foldl (place_new ws) s us)))"
  using assms
proof (induction us arbitrary: s)
  case (Cons u us)
  then have u: "u \<in> set ws" "set us \<subseteq> set ws" by simp_all
  note one = place_new_so_far [OF Cons.prems(1) u(1)]
  then have "tree_so_far ws (place_new ws s u)" by blast
  from Cons.IH [OF this u(2)] one show ?case by auto
qed simp

text \<open>The loop over the roots needs no check: no root is reached from another.\<close>

lemma place_shows:
  assumes "tree_so_far ws s" and "wk_id w \<notin> set (snd s)"
  shows "set (tree_shown (fst (place ws w s))) \<subseteq> insert w (set (tree_shown (fst s)) \<union> claimed ws)"
proof -
  obtain t vis where s: "s = (t, vis)" by fastforce
  obtain node vis' where n: "node_of ws vis w = (node, vis')" by fastforce
  have "set (tree_shown (attach t w node)) = set (tree_shown t) \<union> set (shown_node node)"
    using mset_eq_setD [OF mset_attach] by simp
  then show ?thesis
    using node_of_explored [OF n assms(2) [unfolded s snd_conv]] by (auto simp: place_def s n)
qed

lemma distinct_idD: "distinct (map wk_id ws) \<Longrightarrow> v \<in> set ws \<Longrightarrow> w \<in> set ws \<Longrightarrow> wk_id v = wk_id w \<Longrightarrow> v = w"
  unfolding distinct_map by (blast dest: inj_onD)

lemma roots_are_new:
  assumes ids: "distinct (map wk_id ws)" and "tree_so_far ws s"
    and "distinct rs" and "set rs \<subseteq> set ws - claimed ws"
    and "set (tree_shown (fst s)) \<inter> set rs = {}"
  shows "foldl (\<lambda>s w. place ws w s) s rs = foldl (place_new ws) s rs"
  using assms(2-)
proof (induction rs arbitrary: s)
  case (Cons r rs)
  have new: "wk_id r \<notin> set (snd s)"
  proof
    assume "wk_id r \<in> set (snd s)"
    then obtain v where v: "v \<in> set (tree_shown (fst s))" "wk_id v = wk_id r"
      using Cons.prems(1) by (auto simp: tree_so_far_def explored_def)
    moreover have "set (tree_shown (fst s)) \<subseteq> set ws"
      using Cons.prems(1) by (simp add: tree_so_far_def)
    ultimately have "v = r" using distinct_idD [OF ids] Cons.prems(3) by auto
    with v Cons.prems(4) show False by auto
  qed
  have "foldl (\<lambda>s w. place ws w s) (place ws r s) rs = foldl (place_new ws) (place ws r s) rs"
  proof (rule Cons.IH)
    show "tree_so_far ws (place ws r s)"
      using place_so_far [OF Cons.prems(1) _ new] Cons.prems(3) by auto
    show "set (tree_shown (fst (place ws r s))) \<inter> set rs = {}"
      using place_shows [OF Cons.prems(1) new] Cons.prems(2,3,4) by auto
  qed (use Cons.prems in auto)
  moreover have "place_new ws s r = place ws r s" using new by (simp add: place_new_def)
  ultimately show ?case by simp
qed simp

lemma tree_roots_unclaimed: "set (tree_roots ws) = set ws - claimed ws"
  by (auto simp: tree_roots_def claimed_def claims_def split: option.splits)

lemma place_roots_new:
  assumes "distinct (map wk_id ws)"
  shows "place_roots ws = foldl (place_new ws) (\<lparr> pt_coordinators = [], pt_workers = [] \<rparr>, []) (tree_roots ws)"
  unfolding place_roots_def
proof (rule roots_are_new [OF assms])
  show "distinct (tree_roots ws)"
    using assms by (simp add: tree_roots_def distinct_map)
qed (simp_all add: tree_so_far_def tree_shown_def tree_roots_unclaimed)

subsection \<open>Rings\<close>

text \<open>A function on a finite set has a point it leads back to, within as many steps as the set is large.\<close>

lemma finite_function_cycles:
  assumes "finite A" and "f ` A \<subseteq> A" and "a \<in> A"
  shows "\<exists>x \<in> A. \<exists>n. 0 < n \<and> n \<le> card A \<and> (f ^^ n) x = x"
proof -
  have in_A: "(f ^^ i) a \<in> A" for i
    by (induction i) (use assms(2,3) in auto)
  have "\<not> inj_on (\<lambda>i. (f ^^ i) a) {..card A}"
  proof (rule pigeonhole)
    have "card ((\<lambda>i. (f ^^ i) a) ` {..card A}) \<le> card A"
      using in_A assms(1) by (intro card_mono) auto
    then show "card ((\<lambda>i. (f ^^ i) a) ` {..card A}) < card {..card A}" by simp
  qed
  then obtain i j where ij: "i < j" "j \<le> card A" "(f ^^ i) a = (f ^^ j) a"
    unfolding inj_on_def by (metis atMost_iff linorder_neqE_nat)
  have "(f ^^ (j - i)) ((f ^^ i) a) = (f ^^ i) a"
    using ij by (metis add_diff_cancel_left' funpow_add less_imp_add_positive o_apply add.commute)
  with ij in_A show ?thesis by (intro bexI [of _ "(f ^^ i) a"] exI [of _ "j - i"]) auto
qed

lemma by_id_iff: "distinct (map wk_id ws) \<Longrightarrow> by_id ws i = Some w \<longleftrightarrow> w \<in> set ws \<and> wk_id w = i"
  unfolding by_id_def by (subst map_of_eq_Some_iff) (auto simp: rev_map [symmetric] o_def)

lemma leads_back_along:
  assumes ids: "distinct (map wk_id ws)"
    and up: "\<And>v. v \<in> U \<Longrightarrow> f v \<in> U \<and> f v \<in> set ws \<and> wk_spawned_by v = Some (wk_id (f v))"
    and "(f ^^ Suc m) v = u" and "v \<in> U" and "Suc m \<le> n" and "u \<in> set ws"
  shows "leads_back ws (wk_id u) n v"
  using assms(3-5)
proof (induction n arbitrary: m v)
  case (Suc n)
  note step = up [OF Suc.prems(2)]
  show ?case
  proof (cases "wk_id (f v) = wk_id u")
    case False
    then obtain k where m: "m = Suc k"
      using Suc.prems(1) by (cases m) auto
    have "leads_back ws (wk_id u) n (f v)"
      by (rule Suc.IH [of k]) (use Suc.prems step m in \<open>auto simp: funpow_swap1\<close>)
    moreover have "by_id ws (wk_id (f v)) = Some (f v)"
      using by_id_iff [OF ids] step by blast
    ultimately show ?thesis using step by simp
  qed (use step in simp)
qed simp

lemma closed_parent:
  assumes "explored ws [] shown vis" and "p \<in> set shown" and "v \<in> set ws" and "claims ws v (wk_id p)"
  shows "wk_id v \<in> set vis"
  using assms by (auto simp: explored_def closes_def children_of_def)

text \<open>Whoever is left unvisited once the roots and the rings are placed would lie on a ring of its own.\<close>

lemma nobody_is_left:
  assumes ids: "distinct (map wk_id ws)" and s: "tree_so_far ws s"
    and roots: "\<forall>w \<in> set (tree_roots ws). wk_id w \<in> set (snd s)"
    and rings: "\<forall>w \<in> set ws. on_cycle ws w \<longrightarrow> wk_id w \<in> set (snd s)"
    and w: "w \<in> set ws"
  shows "wk_id w \<in> set (snd s)"
proof (rule ccontr)
  assume out: "wk_id w \<notin> set (snd s)"
  define U where "U = {v \<in> set ws. wk_id v \<notin> set (snd s)}"
  define f where "f v = the (by_id ws (the (wk_spawned_by v)))" for v :: worker
  have up: "f v \<in> U \<and> f v \<in> set ws \<and> wk_spawned_by v = Some (wk_id (f v))" if "v \<in> U" for v
  proof -
    have v: "v \<in> set ws" "wk_id v \<notin> set (snd s)" using that by (simp_all add: U_def)
    then have "v \<in> claimed ws" using roots tree_roots_unclaimed by blast
    then obtain p where p: "claims ws v p" by (auto simp: claimed_def)
    then obtain q where q: "q \<in> set ws" "wk_id q = p" by (auto simp: claims_def worker_ids_def)
    have "by_id ws p = Some q" using q by (simp add: by_id_iff [OF ids])
    then have fv: "f v = q" using p by (simp add: f_def claims_def)
    have "wk_id q \<notin> set (snd s)"
    proof
      assume "wk_id q \<in> set (snd s)"
      then obtain q' where q': "q' \<in> set (tree_shown (fst s))" "wk_id q' = wk_id q"
        using s by (auto simp: tree_so_far_def explored_def)
      have "wk_id v \<in> set (snd s)"
        using closed_parent [of ws "tree_shown (fst s)" "snd s" q' v] s q' q p v(1)
        by (simp add: tree_so_far_def)
      with v(2) show False by simp
    qed
    then show ?thesis using q p fv by (simp add: U_def claims_def)
  qed
  have "finite U" "f ` U \<subseteq> U" "w \<in> U" using up w out by (auto simp: U_def)
  from finite_function_cycles [OF this] obtain u n where
    u: "u \<in> U" "0 < n" "n \<le> card U" "(f ^^ n) u = u" by blast
  obtain m where m: "n = Suc m" using u(2) by (cases n) auto
  have "card U \<le> card (set ws)" by (intro card_mono) (auto simp: U_def)
  also have "\<dots> = length (remdups (worker_ids ws))"
    using ids distinct_map [of wk_id ws] by (simp add: worker_ids_def distinct_remdups_id distinct_card)
  finally have "Suc m \<le> length (remdups (worker_ids ws))" using u(3) m by simp
  moreover have "u \<in> set ws" using u(1) by (simp add: U_def)
  ultimately have "on_cycle ws u"
    unfolding on_cycle_def
    using leads_back_along [of ws U f m u u, OF ids] up u(1,4) m by blast
  then show False using rings u(1) by (auto simp: U_def)
qed

lemma tree_shows_all:
  assumes ids: "distinct (map wk_id ws)"
  shows "mset (tree_shown (build_tree ws)) = mset ws"
proof -
  define s1 where "s1 = place_roots ws"
  define s2 where "s2 = foldl (place_new ws) s1 (ring_members ws (snd s1))"
  have s1: "tree_so_far ws s1" "\<forall>w \<in> set (tree_roots ws). wk_id w \<in> set (snd s1)"
    using place_all [of ws "(\<lparr> pt_coordinators = [], pt_workers = [] \<rparr>, [])" "tree_roots ws"] tree_roots_unclaimed
    by (auto simp: s1_def place_roots_new [OF ids] tree_so_far_def tree_shown_def)
  have rings: "set (ring_members ws (snd s1)) = {w \<in> set ws. wk_id w \<notin> set (snd s1) \<and> on_cycle ws w}"
    by (auto simp: ring_members_def)
  have s2: "tree_so_far ws s2" "set (snd s1) \<subseteq> set (snd s2)"
    "\<forall>w \<in> set (ring_members ws (snd s1)). wk_id w \<in> set (snd s2)"
    using place_all [OF s1(1), of "ring_members ws (snd s1)"] rings by (auto simp: s2_def)
  have all: "wk_id w \<in> set (snd s2)" if "w \<in> set ws" for w
    by (rule nobody_is_left [OF ids s2(1) _ _ that]) (use s1(2) s2(2,3) rings in blast)+
  have shown: "explored ws [] (tree_shown (fst s2)) (snd s2)" "set (tree_shown (fst s2)) \<subseteq> set ws"
    using s2(1) by (simp_all add: tree_so_far_def)
  have "set ws \<subseteq> set (tree_shown (fst s2))"
  proof
    fix w assume w: "w \<in> set ws"
    then obtain v where "v \<in> set (tree_shown (fst s2))" "wk_id v = wk_id w"
      using all [OF w] shown(1) by (auto simp: explored_def)
    with shown(2) w show "w \<in> set (tree_shown (fst s2))" using distinct_idD [OF ids] by blast
  qed
  with shown have "set (tree_shown (fst s2)) = set ws" "distinct (tree_shown (fst s2))" "distinct ws"
    using ids by (auto simp: explored_def distinct_map)
  then have "mset (tree_shown (fst s2)) = mset ws" by (simp add: set_eq_iff_mset_eq_distinct)
  then show ?thesis by (simp add: build_tree_def s2_def s1_def Let_def)
qed

subsection \<open>Everyone where it belongs\<close>

fun top :: "tree_node \<Rightarrow> worker" where
  "top (Tree_Node w kids) = w"

fun nested :: "tree_node \<Rightarrow> bool" where
  "nested (Tree_Node w kids) \<longleftrightarrow>
     list_all (\<lambda>k. wk_spawned_by (top k) = Some (wk_id w) \<and> nested k) kids"

text \<open>Who names whom among the workers, and which of them stand in a ring of names.  A worker stands at the
  top of the tree when it names nobody of the list, or when it is the oldest of its ring: a
  ring is opened at one member, and what hangs below the ring stays below it.\<close>

definition names_as_controller :: "worker list \<Rightarrow> (worker \<times> worker) set" where
  "names_as_controller ws = {(w, p). w \<in> set ws \<and> p \<in> set ws \<and> wk_spawned_by w = Some (wk_id p)}"

definition in_ring :: "worker list \<Rightarrow> worker \<Rightarrow> bool" where
  "in_ring ws w \<longleftrightarrow> (w, w) \<in> (names_as_controller ws)\<^sup>+"

definition oldest_of_ring :: "worker list \<Rightarrow> worker \<Rightarrow> bool" where
  "oldest_of_ring ws w \<longleftrightarrow>
     (\<forall>v. (v, w) \<in> (names_as_controller ws)\<^sup>+ \<and> (w, v) \<in> (names_as_controller ws)\<^sup>+ \<longrightarrow>
        (wk_created_at w, wk_id w) \<le> (wk_created_at v, wk_id v))"

definition belongs_on_top :: "worker list \<Rightarrow> worker \<Rightarrow> bool" where
  "belongs_on_top ws w \<longleftrightarrow>
     (\<forall>p. (w, p) \<notin> names_as_controller ws) \<or> in_ring ws w \<and> oldest_of_ring ws w"

definition coordinates :: "worker \<Rightarrow> bool" where
  "coordinates w \<longleftrightarrow> wk_kind w \<in> {lit ''orchestrator'', lit ''queen'', lit ''scout''}"

definition well_placed :: "worker list \<Rightarrow> project_tree \<Rightarrow> bool" where
  "well_placed ws t \<longleftrightarrow>
     list_all (\<lambda>n. nested n \<and> coordinates (top n)) (pt_coordinators t) \<and>
     list_all (\<lambda>n. nested n \<and> \<not> coordinates (top n)) (pt_workers t) \<and>
     list_all (\<lambda>n. belongs_on_top ws (top n)) (pt_coordinators t @ pt_workers t)"

lemma coordinates_iff: "coordinates w \<longleftrightarrow> is_coordinator w"
  by (auto simp: coordinates_def is_coordinator_def KIND_ORCHESTRATOR_def KIND_QUEEN_def KIND_SCOUT_def)

text \<open>With distinct keys the search of the code finds exactly the members of rings.\<close>

lemma controller_unique:
  "distinct (map wk_id ws) \<Longrightarrow> (w, p) \<in> names_as_controller ws \<Longrightarrow> (w, q) \<in> names_as_controller ws \<Longrightarrow> p = q"
  using distinct_idD [of ws p q] by (auto simp: names_as_controller_def)

lemma leads_back_sound:
  assumes ids: "distinct (map wk_id ws)" and u: "u \<in> set ws"
  shows "leads_back ws (wk_id u) n v \<Longrightarrow> v \<in> set ws \<Longrightarrow> (v, u) \<in> (names_as_controller ws)\<^sup>+"
proof (induction n arbitrary: v)
  case (Suc n)
  then obtain d where d: "wk_spawned_by v = Some d" by (cases "wk_spawned_by v") simp_all
  show ?case
  proof (cases "d = wk_id u")
    case True
    with d u Suc.prems(2) show ?thesis by (auto simp: names_as_controller_def)
  next
    case False
    with Suc.prems(1) d obtain p where p: "by_id ws d = Some p" "leads_back ws (wk_id u) n p"
      by (auto split: option.splits)
    then have "p \<in> set ws" "wk_id p = d" using by_id_iff [OF ids] by blast+
    with Suc.prems(2) d have "(v, p) \<in> names_as_controller ws" by (simp add: names_as_controller_def)
    from trancl_into_trancl2 [OF this Suc.IH [OF p(2) \<open>p \<in> set ws\<close>]] show ?thesis .
  qed
qed simp

lemma on_cycle_complete:
  assumes ids: "distinct (map wk_id ws)" and ring: "in_ring ws u"
  shows "on_cycle ws u"
proof -
  define f where "f v = the (by_id ws (the (wk_spawned_by v)))" for v :: worker
  define U where "U = {v. (v, u) \<in> (names_as_controller ws)\<^sup>+}"
  have f: "f v = p" if "(v, p) \<in> names_as_controller ws" for v p
    using that by_id_iff [OF ids, of "wk_id p" p] by (auto simp: f_def names_as_controller_def)
  have U: "v \<in> set ws" if "v \<in> U" for v
    using that by (auto simp: U_def names_as_controller_def dest!: tranclD)
  have up: "f v \<in> U \<and> f v \<in> set ws \<and> wk_spawned_by v = Some (wk_id (f v))" if v: "v \<in> U" for v
  proof -
    have "(v, u) \<in> (names_as_controller ws)\<^sup>+" using v by (simp add: U_def)
    then obtain p where p: "(v, p) \<in> names_as_controller ws" "p = u \<or> (p, u) \<in> (names_as_controller ws)\<^sup>+"
      by (cases rule: converse_tranclE) blast+
    then have "p \<in> U" using ring by (auto simp: U_def in_ring_def)
    with p(1) f [OF p(1)] U show ?thesis by (simp add: names_as_controller_def)
  qed
  have "finite U" using U finite_subset [of U "set ws"] by blast
  moreover have "f ` U \<subseteq> U" using up by blast
  moreover have u: "u \<in> U" using ring by (simp add: U_def in_ring_def)
  ultimately obtain x n where x: "x \<in> U" "0 < n" "n \<le> card U" "(f ^^ n) x = x"
    using finite_function_cycles [of U f u] by auto
  have "\<exists>k. (f ^^ k) x = u"
  proof -
    have "(x, u) \<in> (names_as_controller ws)\<^sup>+" using x(1) by (simp add: U_def)
    then show ?thesis
    proof (induction rule: trancl_induct)
      case (base y)
      then show ?case by (intro exI [of _ 1]) (simp add: f)
    next
      case (step y z)
      then obtain k where "(f ^^ k) x = y" by blast
      with step.hyps(2) show ?case by (intro exI [of _ "Suc k"]) (simp add: f)
    qed
  qed
  then obtain k where k: "(f ^^ k) x = u" by blast
  have "(f ^^ n) u = (f ^^ (n + k)) x" by (simp add: k funpow_add)
  also have "\<dots> = (f ^^ (k + n)) x" by (simp only: add.commute)
  also have "\<dots> = u" using x(4) k by (simp add: funpow_add)
  finally have loop: "(f ^^ n) u = u" .
  obtain m where m: "n = Suc m" using x(2) by (cases n) auto
  have "card U \<le> card (set ws)" using U by (intro card_mono) auto
  also have "\<dots> = length (remdups (worker_ids ws))"
    using ids distinct_map [of wk_id ws] by (simp add: worker_ids_def distinct_remdups_id distinct_card)
  finally have "Suc m \<le> length (remdups (worker_ids ws))" using x(3) m by simp
  with loop m u U [OF u] show ?thesis
    unfolding on_cycle_def using leads_back_along [of ws U f m u u, OF ids] up by blast
qed

lemma on_cycle_iff:
  assumes "distinct (map wk_id ws)" and "w \<in> set ws"
  shows "on_cycle ws w \<longleftrightarrow> in_ring ws w"
  using on_cycle_complete [OF assms(1)] leads_back_sound [OF assms(1,2) _ assms(2)]
  by (auto simp: on_cycle_def in_ring_def)

text \<open>Whatever leads to a visited worker is visited.\<close>

lemma visited_below:
  assumes ids: "distinct (map wk_id ws)" and s: "tree_so_far ws s"
    and "(w, v) \<in> (names_as_controller ws)\<^sup>+" and "wk_id v \<in> set (snd s)"
  shows "wk_id w \<in> set (snd s)"
proof -
  have step: "wk_id x \<in> set (snd s)" if xy: "(x, y) \<in> names_as_controller ws" and y: "wk_id y \<in> set (snd s)" for x y
  proof (cases "x = y")
    case False
    have "wk_id y \<noteq> wk_id x"
      using xy False distinct_idD [OF ids, of x y] by (auto simp: names_as_controller_def)
    with xy have claim: "claims ws x (wk_id y)" "x \<in> set ws"
      by (auto simp: claims_def names_as_controller_def worker_ids_def)
    obtain y' where "y' \<in> set (tree_shown (fst s))" "wk_id y' = wk_id y"
      using s y by (auto simp: tree_so_far_def explored_def)
    with closed_parent [of ws "tree_shown (fst s)" "snd s" y' x] claim s show ?thesis
      by (simp add: tree_so_far_def)
  qed (use y in simp)
  from assms(3,4) show ?thesis
    by (induction rule: converse_trancl_induct) (blast intro: step)+
qed

lemma nodes_of_nested:
  assumes "nodes_of ws vis cs = (ns, vis')"
  shows "list_all nested ns \<and> top ` set ns \<subseteq> set cs"
  using assms
proof (induction ws vis cs arbitrary: ns vis' rule: nodes_of.induct)
  case (2 ws vis c cs)
  show ?case
  proof (cases "wk_id c \<in> set vis")
    case True
    with "2.prems" have "nodes_of ws vis cs = (ns, vis')" by simp
    from "2.IH"(1) [OF True this] show ?thesis by auto
  next
    case False
    obtain kids vis1 where k: "nodes_of ws (wk_id c # vis) (children_of ws (wk_id c)) = (kids, vis1)" by fastforce
    obtain rest where r: "nodes_of ws vis1 cs = (rest, vis')" "ns = Tree_Node c kids # rest"
      using "2.prems" False k by (auto split: prod.splits)
    have "wk_spawned_by w = Some (wk_id c)" if "w \<in> set (children_of ws (wk_id c))" for w
      using that by (simp add: children_of_def claims_def)
    with "2.IH"(2) [OF False k] "2.IH"(3) [OF False k [symmetric] r(1)] r(2)
    show ?thesis by (auto simp: list_all_iff image_subset_iff)
  qed
qed simp

lemma node_of_nested:
  assumes "node_of ws vis w = (node, vis')"
  shows "nested node \<and> top node = w"
proof -
  obtain kids where k: "nodes_of ws (wk_id w # vis) (children_of ws (wk_id w)) = (kids, vis')"
    "node = Tree_Node w kids"
    using assms by (auto simp: node_of_def split: prod.splits)
  have "wk_spawned_by v = Some (wk_id w)" if "v \<in> set (children_of ws (wk_id w))" for v
    using that by (simp add: children_of_def claims_def)
  with nodes_of_nested [OF k(1)] k(2) show ?thesis by (auto simp: list_all_iff image_subset_iff)
qed

lemma place_well:
  assumes "well_placed ws (fst s)" and "belongs_on_top ws w"
  shows "well_placed ws (fst (place ws w s))"
proof -
  obtain t vis where s: "s = (t, vis)" by fastforce
  obtain node vis' where n: "node_of ws vis w = (node, vis')" by fastforce
  from node_of_nested [OF n] assms show ?thesis
    by (auto simp: well_placed_def place_def s n attach_def coordinates_iff)
qed

lemma roots_belong:
  assumes ids: "distinct (map wk_id ws)" and "w \<in> set (tree_roots ws)"
  shows "belongs_on_top ws w"
proof (cases "\<exists>p. (w, p) \<in> names_as_controller ws")
  case True
  then obtain p where p: "(w, p) \<in> names_as_controller ws" by blast
  have "\<not> claims ws w (wk_id p)"
    using assms(2) tree_roots_unclaimed [of ws] by (auto simp: claimed_def)
  with p have "wk_id p = wk_id w" by (auto simp: claims_def names_as_controller_def worker_ids_def)
  with p have self: "(w, w) \<in> names_as_controller ws"
    using distinct_idD [OF ids, of p w] by (auto simp: names_as_controller_def)
  have "v = w" if "(w, v) \<in> (names_as_controller ws)\<^sup>+" for v
    using that by (induction rule: trancl_induct) (use controller_unique [OF ids _ self] in blast)+
  with self show ?thesis by (auto simp: belongs_on_top_def in_ring_def oldest_of_ring_def)
qed (simp add: belongs_on_top_def)

lemma place_roots_well:
  assumes "distinct (map wk_id ws)"
  shows "well_placed ws (fst (place_roots ws))"
proof -
  have "well_placed ws (fst (foldl (\<lambda>s w. place ws w s) s us))"
    if "well_placed ws (fst s)" "set us \<subseteq> set (tree_roots ws)" for s us
    using that by (induction us arbitrary: s) (simp_all add: place_well roots_belong [OF assms])
  then show ?thesis by (simp add: place_roots_def well_placed_def)
qed

text \<open>The members of rings come in the order of their age, so the first of a ring opens it.\<close>

lemma place_rings_well:
  assumes ids: "distinct (map wk_id ws)"
    and "tree_so_far ws s" "well_placed ws (fst s)"
    and "sorted (map (\<lambda>w. (wk_created_at w, wk_id w)) us)" "\<forall>u \<in> set us. u \<in> set ws \<and> in_ring ws u"
    and "\<forall>v. in_ring ws v \<longrightarrow> wk_id v \<in> set (snd s) \<or> v \<in> set us"
  shows "well_placed ws (fst (foldl (place_new ws) s us))"
  using assms(2-)
proof (induction us arbitrary: s)
  case (Cons u us)
  have u: "u \<in> set ws" "in_ring ws u" using Cons.prems(4) by simp_all
  note placed = place_new_so_far [OF Cons.prems(1) u(1)]
  have well: "well_placed ws (fst (place_new ws s u))"
  proof (cases "wk_id u \<in> set (snd s)")
    case False
    have "(wk_created_at u, wk_id u) \<le> (wk_created_at v, wk_id v)"
      if v: "(v, u) \<in> (names_as_controller ws)\<^sup>+" "(u, v) \<in> (names_as_controller ws)\<^sup>+" for v
    proof -
      have "in_ring ws v" using v by (auto simp: in_ring_def intro: trancl_trans)
      moreover have "wk_id v \<notin> set (snd s)"
        using visited_below [OF ids Cons.prems(1) v(2)] False by blast
      ultimately have "v \<in> set (u # us)" using Cons.prems(5) by blast
      with Cons.prems(3) show ?thesis by auto
    qed
    then have "belongs_on_top ws u" using u(2) by (auto simp: belongs_on_top_def oldest_of_ring_def)
    with False Cons.prems(2) show ?thesis by (simp add: place_new_def place_well)
  qed (use Cons.prems(2) in \<open>simp add: place_new_def\<close>)
  have "well_placed ws (fst (foldl (place_new ws) (place_new ws s u) us))"
    by (rule Cons.IH) (use placed well Cons.prems in auto)
  then show ?case by simp
qed simp

lemma tree_well_placed:
  assumes ids: "distinct (map wk_id ws)"
  shows "well_placed ws (build_tree ws)"
proof -
  let ?s = "place_roots ws"
  have s: "tree_so_far ws ?s"
    using place_all [of ws "(\<lparr> pt_coordinators = [], pt_workers = [] \<rparr>, [])" "tree_roots ws"] tree_roots_unclaimed
    by (auto simp: place_roots_new [OF ids] tree_so_far_def tree_shown_def)
  have ring: "v \<in> set ws" if "in_ring ws v" for v
    using that by (auto simp: in_ring_def names_as_controller_def dest!: tranclD)
  have "well_placed ws (fst (foldl (place_new ws) ?s (ring_members ws (snd ?s))))"
    by (rule place_rings_well [OF ids s place_roots_well [OF ids]])
      (use on_cycle_iff [OF ids] ring in \<open>auto simp: ring_members_def\<close>)
  then show ?thesis by (simp add: build_tree_def Let_def)
qed

text \<open>C33: Every worker is shown once, and where it belongs.  When the keys of the workers are distinct,
  \<open>build_tree\<close> shows every one of them exactly once, whatever the workers name as their controllers:
  dangling names, themselves, or each other in rings.  Below a node stand only workers that name
  it.  At the top stand only workers that name nobody of the list, and of each ring of names the
  oldest member, by the time it was created and then by its key: no descendant of a ring and
  no second member of it.  The coordinators, of the kinds orchestrator, queen and scout, stand apart from the rest.\<close>

theorem every_worker_is_shown_once:
  assumes "distinct (map wk_id ws)"
  shows "mset (tree_shown (build_tree ws)) = mset ws \<and> well_placed ws (build_tree ws)"
  using tree_shows_all [OF assms] tree_well_placed [OF assms] by blast

text \<open>A ring of two with a worker below it, and a worker whose controller is gone.\<close>

definition ring_worker :: "string \<Rightarrow> string \<Rightarrow> int \<Rightarrow> worker" where
  "ring_worker i by at =
     \<lparr> wk_id = lit i, wk_project_id = lit ''p'', wk_task = lit ''t'', wk_profile_id = lit ''x'',
       wk_branch = [], wk_worktree_path = [], wk_session_id = None, wk_status = STATUS_RUNNING,
       wk_kind = lit ''worker'', wk_pr_url = None, wk_spawned_by = Some (lit by), wk_test_status = None,
       wk_tested_at = None, wk_paused_reason = None, wk_created_at = at \<rparr>"

definition ring_workers :: "worker list" where
  "ring_workers =
     [ring_worker ''a'' ''b'' 2, ring_worker ''b'' ''a'' 1, ring_worker ''c'' ''a'' 3, ring_worker ''d'' ''gone'' 4]"

lemma ring_tree:
  "build_tree ring_workers =
     \<lparr> pt_coordinators = [],
       pt_workers =
         [Tree_Node (ring_worker ''d'' ''gone'' 4) [],
          Tree_Node (ring_worker ''b'' ''a'' 1)
            [Tree_Node (ring_worker ''a'' ''b'' 2) [Tree_Node (ring_worker ''c'' ''a'' 3) []]]] \<rparr>"
  by code_simp

theorem every_worker_is_shown_once_witness:
  "mset (tree_shown (build_tree ring_workers)) = mset ring_workers \<and> well_placed ring_workers (build_tree ring_workers)"
  by (rule every_worker_is_shown_once) (simp add: ring_workers_def ring_worker_def lit_def)

end
