(* ===== verification/Api_Requests.thy ===== *)
theory Api_Requests
  imports Json_Values
begin

text \<open>
  Requests and responses of the control API, from \<open>src-tauri/src/http_util.rs\<close> and
  \<open>src-tauri/src/api.rs\<close>: percent-decoding, the comparison of secrets, splitting a request head, the
  fields of a JSON body, and the status a failed call deserves.  \<open>serde_json\<close> and the decoding of invalid
  UTF-8 are parameters.
\<close>

section \<open>Bytes\<close>

unbundle bit_operations_syntax

definition hex_nibble :: "u8 \<Rightarrow> u8 option" where
  "hex_nibble b =
     (if 48 \<le> b \<and> b \<le> 57 then Some (b - 48)
      else if 97 \<le> b \<and> b \<le> 102 then Some (b - 97 + 10)
      else if 65 \<le> b \<and> b \<le> 70 then Some (b - 65 + 10)
      else None)"

function percent_bytes :: "u8 list \<Rightarrow> u8 list" where
  "percent_bytes [] = []"
| "percent_bytes (b # bs) =
     (case (if b = 37 \<and> 2 \<le> length bs then (hex_nibble (bs ! 0), hex_nibble (bs ! 1)) else (None, None)) of
        (Some high, Some low) \<Rightarrow> (push_bit 4 high OR low) # percent_bytes (drop 2 bs)
      | _ \<Rightarrow> b # percent_bytes bs)"
  by pat_completeness auto
termination by (relation "measure length") auto

record codecs =
  utf8_lossy :: "u8 list \<Rightarrow> ustr"
  from_str :: "ustr \<Rightarrow> ustr + json"

definition percent_decode :: "codecs \<Rightarrow> ustr \<Rightarrow> ustr" where
  "percent_decode cd raw = utf8_lossy cd (percent_bytes (as_bytes raw))"

text \<open>The difference of two secrets, folded over every byte.\<close>

definition token_eq :: "ustr \<Rightarrow> ustr \<Rightarrow> bool" where
  "token_eq a b \<longleftrightarrow>
     (let xs = as_bytes a; ys = as_bytes b in
      foldl (\<lambda>diff (x, y). diff OR unat (x XOR y)) (length xs XOR length ys) (zip xs ys) = 0)"

lemma diff_zero:
  "foldl (\<lambda>diff (x, y). diff OR unat (x XOR y)) d xys = 0 \<longleftrightarrow> d = (0 :: nat) \<and> list_all (\<lambda>(x, y). x = (y :: u8)) xys"
proof (induction xys arbitrary: d)
  case (Cons xy xys)
  obtain x y where xy: "xy = (x, y)" by fastforce
  have "unat (x XOR y) = 0 \<longleftrightarrow> x = y"
    by (metis unat_eq_0 bit.xor_self word_bitwise_1_simps xor_self_eq bit_eq_iff xor.right_neutral xor.assoc)
  moreover have "d OR e = 0 \<longleftrightarrow> d = 0 \<and> e = 0" for e :: nat
    by (metis or_eq_0_iff)
  ultimately show ?case using Cons.IH by (simp add: xy)
qed simp

text \<open>The comparison without an early exit is the comparison.\<close>

lemma token_eq_iff: "token_eq a b \<longleftrightarrow> as_bytes a = as_bytes b"
proof -
  have "length xs XOR length ys = 0 \<longleftrightarrow> length xs = length ys" for xs ys :: "u8 list"
    by (metis xor_self_eq xor.right_neutral xor.assoc)
  moreover have "list_all (\<lambda>(x, y). x = y) (zip xs ys) \<longleftrightarrow> xs = ys" if "length xs = length ys" for xs ys :: "u8 list"
    using that by (induction xs ys rule: list_induct2) auto
  ultimately show ?thesis
    unfolding token_eq_def Let_def diff_zero by auto
qed

section \<open>Requests\<close>

text \<open>A hash map is a list of its entries; inserting replaces.\<close>

definition hash_insert :: "'k \<Rightarrow> 'v \<Rightarrow> ('k \<times> 'v) list \<Rightarrow> ('k \<times> 'v) list" where
  "hash_insert k v m = (k, v) # filter (\<lambda>kv. fst kv \<noteq> k) m"

record request =
  rq_method :: ustr
  rq_path :: ustr
  rq_query :: "(ustr \<times> ustr) list"
  rq_headers :: "(ustr \<times> ustr) list"
  rq_body :: ustr

definition segments :: "codecs \<Rightarrow> request \<Rightarrow> ustr list" where
  "segments cd r = map (percent_decode cd) (filter (\<lambda>s. s \<noteq> []) (split_char 47 (rq_path r)))"

definition upper :: "ustr \<Rightarrow> ustr" where
  "upper s = map (\<lambda>c. if 97 \<le> c \<and> c \<le> 122 then c - 32 else c) s"

definition query_pair :: "codecs \<Rightarrow> ustr \<Rightarrow> ustr \<times> ustr" where
  "query_pair cd pair =
     (case split_once [61] pair of
        Some (name, value) \<Rightarrow> (percent_decode cd name, percent_decode cd value)
      | None \<Rightarrow> (percent_decode cd pair, percent_decode cd []))"

definition header_lines :: "ustr list \<Rightarrow> (ustr \<times> ustr) list" where
  "header_lines ls =
     foldl (\<lambda>m line. case split_once [58] line of
                      Some (name, value) \<Rightarrow> hash_insert (to_ascii_lowercase (trim name)) (trim value) m
                    | None \<Rightarrow> m) [] ls"

definition parse_request :: "codecs \<Rightarrow> ustr \<Rightarrow> ustr \<Rightarrow> request option" where
  "parse_request cd head body =
     (case str_lines head of
        [] \<Rightarrow> None
      | first # rest \<Rightarrow>
          (case split_whitespace [] first of
             meth # target # _ \<Rightarrow>
               let (raw_path, raw_query) =
                     (case split_once [63] target of
                        Some (p, q) \<Rightarrow> (p, q) | None \<Rightarrow> (target, []))
               in
               Some \<lparr> rq_method = upper meth, rq_path = raw_path,
                      rq_query =
                        foldl (\<lambda>m pair. case query_pair cd pair of (k, v) \<Rightarrow> hash_insert k v m) []
                          (filter (\<lambda>p. p \<noteq> []) (split_char 38 raw_query)),
                      rq_headers = header_lines rest, rq_body = body \<rparr>
           | _ \<Rightarrow> None))"

section \<open>Responses\<close>

record response =
  rs_status :: nat
  rs_body :: json

definition response_ok :: "json \<Rightarrow> response" where
  "response_ok body = \<lparr> rs_status = 200, rs_body = body \<rparr>"

definition response_error :: "nat \<Rightarrow> ustr \<Rightarrow> response" where
  "response_error st msg = \<lparr> rs_status = st, rs_body = JObject [(lit ''error'', JString msg)] \<rparr>"

definition response_reason :: "nat \<Rightarrow> ustr" where
  "response_reason st =
     (if st = 200 then lit ''OK''
      else if st = 400 then lit ''Bad Request''
      else if st = 401 then lit ''Unauthorized''
      else if st = 403 then lit ''Forbidden''
      else if st = 404 then lit ''Not Found''
      else if st = 405 then lit ''Method Not Allowed''
      else if st = 409 then lit ''Conflict''
      else if st = 410 then lit ''Gone''
      else if st = 503 then lit ''Service Unavailable''
      else lit ''Internal Server Error'')"

subsection \<open>The status of a failure\<close>

definition PLANNING_REFUSED :: ustr where
  "PLANNING_REFUSED = lit ''planning target is outside the run project''"

datatype status_policy = Policy_Merge | Policy_Verdict | Policy_Core | Policy_Plan

definition starts_with_any :: "ustr \<Rightarrow> string list \<Rightarrow> bool" where
  "starts_with_any s ps \<longleftrightarrow> list_ex (\<lambda>p. starts_with s (lit p)) ps"

definition contains_any :: "ustr \<Rightarrow> string list \<Rightarrow> bool" where
  "contains_any s ps \<longleftrightarrow> list_ex (\<lambda>p. str_contains s (lit p)) ps"

definition error_status :: "ustr \<Rightarrow> status_policy \<Rightarrow> nat" where
  "error_status err policy =
     (case policy of
        Policy_Merge \<Rightarrow>
          if starts_with err (lit ''unknown worker'') then 404
          else if str_contains err (lit ''sits in '') \<or> starts_with err (lit ''the test gate for '') \<or>
                  contains_any err [''still has a running agent'', ''merge blocked'']
          then 409 else 500
      | Policy_Verdict \<Rightarrow> if starts_with err ERR_REFUSED then 409 else 400
      | Policy_Core \<Rightarrow>
          if starts_with err ERR_UNKNOWN then 404
          else if starts_with err ERR_REFUSED then 409 else 500
      | Policy_Plan \<Rightarrow>
          if err = PLANNING_REFUSED then 403
          else if starts_with_any err
                    [''unknown project'', ''plan source docs/PLAN.md: unknown project'',
                     ''plan source docs/PLAN.md: missing'',
                     ''plan source docs/PLAN.md: project_root_unavailable'']
          then 404
          else if contains_any err
                    [''projection revision conflict'', ''already bound'', ''nonempty rollback reason'']
          then 409
          else if starts_with_any err
                    [''invalid plan source'', ''plan source docs/PLAN.md: outside_project'',
                     ''plan source docs/PLAN.md: not_regular_file'', ''plan source docs/PLAN.md: oversized'',
                     ''plan source docs/PLAN.md: invalid_utf8'', ''plan source docs/PLAN.md: unreadable'',
                     ''plan source docs/PLAN.md: file_identity_unavailable'']
          then 422
          else if starts_with_any err
                    [''projectId is required'', ''planId is required'', ''revision must'',
                     ''expectedProjectionRevision must'']
          then 400 else 500)"

definition continuous_error :: "ustr \<Rightarrow> response" where
  "continuous_error err =
     (if err = PLANNING_REFUSED then response_error 403 err
      else
        let vocabulary = error_status err Policy_Core in
        if vocabulary \<noteq> 500 then response_error vocabulary err
        else
          response_error
            (if starts_with err (lit ''unknown '') then 404
             else if contains_any err
                       [''stale'', ''already claimed'', ''not open'', ''not admitted'', ''fail-closed'',
                        ''budget exhausted'', ''dependency is not completed'', ''conflicts'', ''deadline'',
                        ''paused'', ''draining'', ''not been admitted'', ''unresolved'', ''retry requires'',
                        ''capacity exhausted'', ''disabled by its root policy'', ''lost race''] \<or>
                     starts_with_any err
                       [''team assignment revision conflict'', ''team assignment is locked'',
                        ''continuous task is assigned'']
             then 409
             else if contains_any err [''is required'', ''must be'', ''cross-project''] then 400
             else 500) err)"

definition core_response :: "ustr + json \<Rightarrow> response" where
  "core_response r =
     (case r of
        Err e \<Rightarrow> response_error (error_status e Policy_Core) e
      | Ok v \<Rightarrow> response_ok v)"

definition into_response :: "ustr + json \<Rightarrow> response" where
  "into_response r = (case r of Ok v \<Rightarrow> response_ok v | Err e \<Rightarrow> response_error 500 e)"

definition continuous_response :: "ustr + json \<Rightarrow> response" where
  "continuous_response r = (case r of Ok v \<Rightarrow> into_response (Ok v) | Err e \<Rightarrow> continuous_error e)"

definition plan_response :: "ustr + json \<Rightarrow> response" where
  "plan_response r =
     (case r of Ok v \<Rightarrow> response_ok v | Err e \<Rightarrow> response_error (error_status e Policy_Plan) e)"

section \<open>Bodies\<close>

definition parse_body :: "codecs \<Rightarrow> ustr \<Rightarrow> ustr + json" where
  "parse_body cd body =
     (if trim body = [] then Ok (JObject [])
      else case from_str cd body of
             Ok j \<Rightarrow> Ok j | Err e \<Rightarrow> Err (lit ''body is not json: '' @ e))"

definition optional_str :: "json \<Rightarrow> ustr \<Rightarrow> ustr option" where
  "optional_str body key = opt_filter (\<lambda>v. v \<noteq> []) (map_option trim (opt_then (jget key body) as_str))"

definition required_str :: "json \<Rightarrow> ustr \<Rightarrow> ustr + ustr" where
  "required_str body key = ok_or (optional_str body key) (key @ lit '' is required'')"

definition optional_percent :: "json \<Rightarrow> ustr \<Rightarrow> ustr + u8 option option" where
  "optional_percent body key =
     (case jget key body of
        None \<Rightarrow> Ok None
      | Some v \<Rightarrow>
          if is_null v then Ok (Some None)
          else
            (case opt_filter (\<lambda>p. 1 \<le> p \<and> p \<le> 100) (as_u64 v) of
               Some p \<Rightarrow> Ok (Some (Some (word_of_int p)))
             | None \<Rightarrow> Err (key @ lit '' must be a whole percentage between 1 and 100, or null'')))"

fun all_strings :: "json list \<Rightarrow> ustr list option" where
  "all_strings [] = Some []"
| "all_strings (v # vs) = opt_then (as_str v) (\<lambda>s. map_option (\<lambda>ss. s # ss) (all_strings vs))"

definition string_array :: "json \<Rightarrow> ustr \<Rightarrow> ustr + ustr list" where
  "string_array body key =
     (case jget key body of
        None \<Rightarrow> Ok []
      | Some (JArray vs) \<Rightarrow> ok_or (all_strings vs) (key @ lit '' must be an array of strings'')
      | Some _ \<Rightarrow> Err (key @ lit '' must be an array of strings''))"

definition optional_bool :: "json \<Rightarrow> ustr \<Rightarrow> ustr + bool option" where
  "optional_bool body key =
     (case jget key body of
        None \<Rightarrow> Ok None
      | Some (JBool b) \<Rightarrow> Ok (Some b)
      | Some _ \<Rightarrow> Err (key @ lit '' must be a boolean''))"

definition only_keys :: "json \<Rightarrow> ustr list \<Rightarrow> ustr + unit" where
  "only_keys body allowed =
     (case as_object body of
        None \<Rightarrow> Err (lit ''body must be a JSON object'')
      | Some kvs \<Rightarrow>
          (case find (\<lambda>k. k \<notin> set allowed) (map fst kvs) of
             Some k \<Rightarrow> Err (lit ''unknown field: '' @ k)
           | None \<Rightarrow> Ok ()))"

text \<open>The answer to a plan source that cannot be imported has a status without a reason of its own.\<close>

lemma unprocessable_has_no_reason:
  "error_status (lit ''invalid plan source'') Policy_Plan = 422 \<and>
   response_reason 422 = lit ''Internal Server Error''"
  by code_simp

end
