(* ===== verification/Run_Credentials.thy ===== *)
theory Run_Credentials
  imports Api_Requests
begin

text \<open>
  The credentials of running agents, \<open>src-tauri/src/api/agent_access.rs\<close>: a token speaks for one claimed
  run for a limited time, and its descriptor file goes with it.  The state is the map of the grants
  behind its mutex, with the files on disk; the clock, the random tokens and the failures of file
  operations are inputs of each call.  A history variable records what took effect.
\<close>

section \<open>The code\<close>

record run_grant =
  rg_run :: ustr
  rg_owner :: ustr
  rg_fence :: int
  rg_expires :: int
  rg_file :: "ustr option"
  rg_session :: "ustr option"

datatype credential_event =
  Issued ustr run_grant
| Bound ustr ustr
| Session_Ended ustr
| Run_Revoked ustr
| All_Revoked
| Rolled_Back ustr

text \<open>A file holds nothing yet, or the descriptor with a token.  \<open>stuck\<close> names the files whose
  removal failed.\<close>

record credentials =
  grants :: "(ustr \<times> run_grant) list"
  poisoned :: bool
  files :: "(ustr \<times> ustr option) list"
  stuck :: "ustr list"
  clock :: int
  issued :: "credential_event list"

definition no_credentials :: credentials where
  "no_credentials = \<lparr> grants = [], poisoned = False, files = [], stuck = [], clock = 0, issued = [] \<rparr>"

definition principal :: "run_grant \<Rightarrow> ustr \<times> ustr \<times> int" where
  "principal g = (rg_run g, rg_owner g, rg_fence g)"

text \<open>Removing a file; one that is gone already counts as removed.\<close>

definition drop_grant_file :: "(ustr \<Rightarrow> bool) \<Rightarrow> run_grant \<Rightarrow> credentials \<Rightarrow> credentials" where
  "drop_grant_file removable g s =
     (case rg_file g of
        None \<Rightarrow> s
      | Some p \<Rightarrow>
          if removable p then s\<lparr>files := filter (\<lambda>f. fst f \<noteq> p) (files s)\<rparr>
          else s\<lparr>stuck := p # stuck s\<rparr>)"

text \<open>\<open>retain\<close> on the map, dropping the files of what goes.\<close>

definition retain :: "(ustr \<Rightarrow> bool) \<Rightarrow> (run_grant \<Rightarrow> bool) \<Rightarrow> credentials \<Rightarrow> credentials" where
  "retain removable keep s =
     foldl (\<lambda>s tg. drop_grant_file removable (snd tg) s)
       (s\<lparr>grants := filter (\<lambda>tg. keep (snd tg)) (grants s)\<rparr>)
       (filter (\<lambda>tg. \<not> keep (snd tg)) (grants s))"

definition unavailable :: ustr where "unavailable = lit ''run credentials unavailable''"

definition note_event :: "credential_event \<Rightarrow> credentials \<Rightarrow> credentials" where
  "note_event ev s = s\<lparr>issued := ev # issued s\<rparr>"

definition CAPACITY :: nat where "CAPACITY = 128"

definition bind_session :: "ustr \<Rightarrow> ustr \<Rightarrow> credentials \<Rightarrow> (ustr + unit) \<times> credentials" where
  "bind_session run_id session s =
     (if session = [] then (Err (lit ''empty launch session''), s)
      else if poisoned s then (Err unavailable, s)
      else
        let matching = filter (\<lambda>g. rg_run g = run_id) (map snd (grants s)) in
        if matching = [] \<or>
           list_ex (\<lambda>g. case rg_session g of Some other \<Rightarrow> other \<noteq> session | None \<Rightarrow> False) matching
        then (Err (lit ''missing or conflicting run session credential''), s)
        else
          (Ok (), note_event (Bound run_id session)
             (s\<lparr>grants := map (\<lambda>(t, g). (t, if rg_run g = run_id then g\<lparr>rg_session := Some session\<rparr> else g))
                            (grants s)\<rparr>)))"

text \<open>The session is revoked before its end is persisted, and when the database fails.\<close>

definition observe_exit ::
  "(ustr \<Rightarrow> bool) \<Rightarrow> ustr \<Rightarrow> ustr + 'a \<Rightarrow> credentials \<Rightarrow> (ustr + 'a) \<times> credentials" where
  "observe_exit removable session persistence s =
     (if poisoned s then (Err unavailable, s)
      else (persistence,
            note_event (Session_Ended session) (retain removable (\<lambda>g. rg_session g \<noteq> Some session) s)))"

definition issue_run_descriptor ::
  "(ustr \<Rightarrow> bool) \<Rightarrow> ustr + json \<Rightarrow> ustr + ustr \<Rightarrow> int \<Rightarrow> ustr \<Rightarrow> ustr \<Rightarrow> int \<Rightarrow> int \<Rightarrow> credentials \<Rightarrow>
   (ustr + ustr) \<times> credentials" where
  "issue_run_descriptor removable run_context new_token now run_id owner fence lifetime s =
     (if \<not> (1 \<le> lifetime \<and> lifetime \<le> 5400) \<or> fence < 1
      then (Err (lit ''run credential lifetime must be 1..5400 seconds and fence positive''), s)
      else
        case run_context of
          Err e \<Rightarrow> (Err e, s)
        | Ok _ \<Rightarrow>
            (case new_token of
               Err e \<Rightarrow> (Err e, s)
             | Ok token \<Rightarrow>
                 if poisoned s then (Err unavailable, s)
                 else
                   let s = (retain removable (\<lambda>g. now < rg_expires g) s)\<lparr>clock := max (clock s) now\<rparr> in
                   if CAPACITY \<le> length (grants s)
                   then (Err (lit ''run credential capacity exhausted''), s)
                   else
                     let g = \<lparr> rg_run = run_id, rg_owner = owner, rg_fence = fence,
                               rg_expires = now + 1000 * lifetime, rg_file = None, rg_session = None \<rparr>
                     in (Ok token, note_event (Issued token g)
                           (s\<lparr>grants := hash_insert token g (grants s)\<rparr>))))"

text \<open>Where writing the descriptor file may fail: the directory, its access list, the name, the file,
  the file's access list, the content.\<close>

record provisioning =
  directory_ready :: "ustr + unit"
  file_name :: "ustr + ustr"
  file_opens :: "ustr + unit"
  access_narrowed :: "ustr + unit"
  body_written :: "ustr + unit"

definition provision :: "provisioning \<Rightarrow> ustr \<Rightarrow> credentials \<Rightarrow> (ustr + ustr) \<times> credentials" where
  "provision pv token s =
     (case and_then (directory_ready pv) (\<lambda>_. file_name pv) of
        Err e \<Rightarrow> (Err e, s)
      | Ok path \<Rightarrow>
          if path \<in> fst ` set (files s) then (Err (lit ''create scoped descriptor: file exists''), s)
          else
            case file_opens pv of
              Err e \<Rightarrow> (Err (lit ''create scoped descriptor: '' @ e), s)
            | Ok _ \<Rightarrow>
                let s = s\<lparr>files := (path, None) # files s\<rparr> in
                if poisoned s then (Err unavailable, s)
                else
                  (case map_of (grants s) token of
                     None \<Rightarrow> (Err (lit ''run credential revoked before provisioning''), s)
                   | Some g \<Rightarrow>
                       let s = s\<lparr>grants := map (\<lambda>(t, g). (t, if t = token then g\<lparr>rg_file := Some path\<rparr> else g))
                                              (grants s)\<rparr> in
                       (case access_narrowed pv of
                          Err e \<Rightarrow> (Err e, s)
                        | Ok _ \<Rightarrow>
                            let s = s\<lparr>files := (path, Some token) # filter (\<lambda>f. fst f \<noteq> path) (files s)\<rparr> in
                            (case body_written pv of
                               Err e \<Rightarrow> (Err (lit ''persist scoped descriptor: '' @ e), s)
                             | Ok _ \<Rightarrow> (Ok path, s)))))"

definition roll_back :: "(ustr \<Rightarrow> bool) \<Rightarrow> ustr \<Rightarrow> credentials \<Rightarrow> credentials" where
  "roll_back removable token s =
     (case map_of (grants s) token of
        None \<Rightarrow> s
      | Some g \<Rightarrow>
          drop_grant_file removable g
            (note_event (Rolled_Back token) (s\<lparr>grants := filter (\<lambda>tg. fst tg \<noteq> token) (grants s)\<rparr>)))"

definition provision_or_roll_back ::
  "(ustr \<Rightarrow> bool) \<Rightarrow> provisioning \<Rightarrow> ustr \<Rightarrow> credentials \<Rightarrow> (ustr + ustr) \<times> credentials" where
  "provision_or_roll_back removable pv token s =
     (case provision pv token s of
        (Ok path, s) \<Rightarrow> (Ok path, s)
      | (Err e, s) \<Rightarrow> (Err e, roll_back removable token s))"

definition issue_run_descriptor_file ::
  "(ustr \<Rightarrow> bool) \<Rightarrow> provisioning \<Rightarrow> ustr + json \<Rightarrow> ustr + ustr \<Rightarrow> int \<Rightarrow> ustr \<Rightarrow> ustr \<Rightarrow> int \<Rightarrow> int \<Rightarrow>
   credentials \<Rightarrow> (ustr + ustr) \<times> credentials" where
  "issue_run_descriptor_file removable pv run_context new_token now run_id owner fence lifetime s =
     (case issue_run_descriptor removable run_context new_token now run_id owner fence lifetime s of
        (Err e, s) \<Rightarrow> (Err e, s)
      | (Ok token, s) \<Rightarrow> provision_or_roll_back removable pv token s)"

definition revoke_run_credentials ::
  "(ustr \<Rightarrow> bool) \<Rightarrow> ustr \<Rightarrow> credentials \<Rightarrow> (ustr + unit) \<times> credentials" where
  "revoke_run_credentials removable run_id s =
     (if poisoned s then (Err unavailable, s)
      else (Ok (), note_event (Run_Revoked run_id) (retain removable (\<lambda>g. rg_run g \<noteq> run_id) s)))"

text \<open>Taken over even when poisoned: removing is always safe.\<close>

definition revoke_all :: "(ustr \<Rightarrow> bool) \<Rightarrow> credentials \<Rightarrow> credentials" where
  "revoke_all removable s = note_event All_Revoked (retain removable (\<lambda>_. False) s)"

definition lookup :: "ustr \<Rightarrow> int \<Rightarrow> credentials \<Rightarrow> run_grant option" where
  "lookup token now s =
     (if poisoned s then None else opt_filter (\<lambda>g. now < rg_expires g) (map_of (grants s) token))"

subsection \<open>The sweep at boot\<close>

record sweep_report =
  swept_removed :: nat
  swept_failed :: nat

record dir_entry =
  de_name :: "ustr option"
  de_regular :: bool

definition minted_name :: "ustr \<Rightarrow> bool" where
  "minted_name name \<longleftrightarrow>
     (case strip_suffix (lit ''.json'') name of
        None \<Rightarrow> False
      | Some stem \<Rightarrow>
          byte_len stem = 32 \<and> list_all (\<lambda>c. is_ascii_digit c \<or> 97 \<le> c \<and> c \<le> 102) stem)"

definition sweep_orphaned_descriptor_files ::
  "(ustr \<Rightarrow> bool) \<Rightarrow> dir_entry list option \<Rightarrow> ustr list \<times> sweep_report" where
  "sweep_orphaned_descriptor_files removable entries =
     (case entries of
        None \<Rightarrow> ([], \<lparr> swept_removed = 0, swept_failed = 0 \<rparr>)
      | Some es \<Rightarrow>
          let names = List.map_filter
                (\<lambda>e. case de_name e of None \<Rightarrow> None
                     | Some n \<Rightarrow> if minted_name n \<and> de_regular e then Some n else None) es
          in (filter removable names,
              \<lparr> swept_removed = length (filter removable names),
                swept_failed = length (filter (\<lambda>n. \<not> removable n) names) \<rparr>))"

section \<open>Calls in any order\<close>

text \<open>The launcher issues a grant and provisions its file under two separate locks, so other calls may
  fall between.  A panic while the lock is held poisons the map.\<close>

datatype credential_call =
  Issue "ustr \<Rightarrow> bool" "ustr + json" "ustr + ustr" int ustr ustr int int
| Provision "ustr \<Rightarrow> bool" provisioning ustr
| Bind ustr ustr
| Session_Exit "ustr \<Rightarrow> bool" ustr
| Revoke_Run "ustr \<Rightarrow> bool" ustr
| Revoke_All "ustr \<Rightarrow> bool"
| Panicked

fun after_credential_call :: "credentials \<Rightarrow> credential_call \<Rightarrow> credentials" where
  "after_credential_call s (Issue rm cx tk now r ow f l) = snd (issue_run_descriptor rm cx tk now r ow f l s)"
| "after_credential_call s (Provision rm pv t) = snd (provision_or_roll_back rm pv t s)"
| "after_credential_call s (Bind r x) = snd (bind_session r x s)"
| "after_credential_call s (Session_Exit rm x) = snd (observe_exit rm x (Ok ()) s)"
| "after_credential_call s (Revoke_Run rm r) = snd (revoke_run_credentials rm r s)"
| "after_credential_call s (Revoke_All rm) = revoke_all rm s"
| "after_credential_call s Panicked = s\<lparr>poisoned := True\<rparr>"

section \<open>What the events grant\<close>

text \<open>The specification: the grant a token stands for, from the events alone, the newest first.  It
  knows neither the map nor its purges nor the files.\<close>

fun granted :: "credential_event list \<Rightarrow> ustr \<Rightarrow> run_grant option" where
  "granted [] t = None"
| "granted (Issued t' g # es) t = (if t = t' then Some g else granted es t)"
| "granted (Bound r x # es) t =
     map_option (\<lambda>g. if rg_run g = r then g\<lparr>rg_session := Some x\<rparr> else g) (granted es t)"
| "granted (Session_Ended x # es) t = opt_filter (\<lambda>g. rg_session g \<noteq> Some x) (granted es t)"
| "granted (Run_Revoked r # es) t = opt_filter (\<lambda>g. rg_run g \<noteq> r) (granted es t)"
| "granted (All_Revoked # es) t = None"
| "granted (Rolled_Back t' # es) t = (if t = t' then None else granted es t)"

definition without_file :: "run_grant \<Rightarrow> run_grant" where
  "without_file g = g\<lparr>rg_file := None\<rparr>"

lemma without_file_simps [simp]:
  "rg_run (without_file g) = rg_run g" "rg_session (without_file g) = rg_session g"
  "rg_expires (without_file g) = rg_expires g" "rg_owner (without_file g) = rg_owner g"
  "without_file (g\<lparr>rg_session := x\<rparr>) = (without_file g)\<lparr>rg_session := x\<rparr>"
  "without_file (g\<lparr>rg_file := p\<rparr>) = without_file g"
  by (simp_all add: without_file_def)

subsection \<open>The map of the grants under each operation\<close>

lemma drop_grant_file_keeps [simp]:
  "grants (drop_grant_file rm g s) = grants s" "poisoned (drop_grant_file rm g s) = poisoned s"
  "clock (drop_grant_file rm g s) = clock s" "issued (drop_grant_file rm g s) = issued s"
  by (simp_all add: drop_grant_file_def split: option.split)

lemma drop_files_keep [simp]:
  "grants (foldl (\<lambda>s tg. drop_grant_file rm (snd tg) s) s gs) = grants s"
  "poisoned (foldl (\<lambda>s tg. drop_grant_file rm (snd tg) s) s gs) = poisoned s"
  "clock (foldl (\<lambda>s tg. drop_grant_file rm (snd tg) s) s gs) = clock s"
  "issued (foldl (\<lambda>s tg. drop_grant_file rm (snd tg) s) s gs) = issued s"
  by (induction gs arbitrary: s) simp_all

lemma retain_simps [simp]:
  "grants (retain rm keep s) = filter (\<lambda>tg. keep (snd tg)) (grants s)"
  "poisoned (retain rm keep s) = poisoned s"
  "clock (retain rm keep s) = clock s" "issued (retain rm keep s) = issued s"
  by (simp_all add: retain_def)

lemma note_event_simps [simp]:
  "grants (note_event ev s) = grants s" "poisoned (note_event ev s) = poisoned s"
  "clock (note_event ev s) = clock s" "issued (note_event ev s) = ev # issued s"
  "files (note_event ev s) = files s" "stuck (note_event ev s) = stuck s"
  by (simp_all add: note_event_def)

lemma map_of_filter_snd:
  "distinct (map fst m) \<Longrightarrow> map_of (filter (\<lambda>tg. P (snd tg)) m) t = opt_filter P (map_of m t)"
  by (induction m) (auto simp: opt_filter_def image_iff map_of_eq_None_iff
      split: option.splits dest: map_of_SomeD)

lemma map_of_map_snd:
  "map_of (map (\<lambda>(t, g). (t, f t g)) m) t = map_option (f t) (map_of m t)"
  by (induction m) auto

lemma map_of_filter_fst:
  "map_of (filter (\<lambda>tg. fst tg \<noteq> t') m) t = (if t = t' then None else map_of m t)"
  by (induction m) auto

lemma map_of_hash_insert [simp]:
  "map_of (hash_insert k v m) t = (if t = k then Some v else map_of m t)"
  by (simp add: hash_insert_def map_of_filter_fst)

lemma distinct_keys_filter: "distinct (map fst m) \<Longrightarrow> distinct (map fst (filter P m))"
  by (induction m) auto

lemma distinct_hash_insert: "distinct (map fst m) \<Longrightarrow> distinct (map fst (hash_insert k v m))"
  by (auto simp: hash_insert_def distinct_keys_filter)

text \<open>A token's entry agrees with the events, or it is gone and the events' grant had expired.\<close>

definition entry_mirrors :: "int \<Rightarrow> run_grant option \<Rightarrow> run_grant option \<Rightarrow> bool" where
  "entry_mirrors c e h \<longleftrightarrow>
     (case e of Some g \<Rightarrow> h = Some (without_file g)
      | None \<Rightarrow> (case h of None \<Rightarrow> True | Some g \<Rightarrow> rg_expires g \<le> c))"

definition grants_mirror_events :: "credentials \<Rightarrow> bool" where
  "grants_mirror_events s \<longleftrightarrow>
     distinct (map fst (grants s)) \<and> length (grants s) \<le> CAPACITY \<and>
     (\<forall>t. entry_mirrors (clock s) (map_of (grants s) t) (granted (issued s) t))"

lemma entry_mirrors_later: "entry_mirrors c e h \<Longrightarrow> c \<le> c' \<Longrightarrow> entry_mirrors c' e h"
  by (auto simp: entry_mirrors_def split: option.splits)

lemma entry_mirrors_opt_filter:
  "entry_mirrors c e h \<Longrightarrow> (\<And>g. P (without_file g) = P g) \<Longrightarrow>
   entry_mirrors c (opt_filter P e) (opt_filter P h)"
  by (auto simp: entry_mirrors_def opt_filter_def split: option.splits if_splits)

lemma entry_mirrors_map:
  "entry_mirrors c e h \<Longrightarrow> (\<And>g. without_file (f g) = f (without_file g)) \<Longrightarrow>
   (\<And>g. rg_expires (f g) = rg_expires g) \<Longrightarrow> entry_mirrors c (map_option f e) (map_option f h)"
  by (auto simp: entry_mirrors_def split: option.splits)

lemma entry_mirrors_purge:
  "entry_mirrors c e h \<Longrightarrow> entry_mirrors (max c now) (opt_filter (\<lambda>g. now < rg_expires g) e) h"
  by (auto simp: entry_mirrors_def opt_filter_def split: option.splits if_splits)

lemma entry_mirrors_None [simp]: "entry_mirrors c None None"
  by (simp add: entry_mirrors_def)


lemma mirror_retain:
  assumes "grants_mirror_events s" "\<And>g. P (without_file g) = P g"
    "\<And>t. granted (ev # issued s) t = opt_filter P (granted (issued s) t)"
  shows "grants_mirror_events (note_event ev (retain rm P s))"
  using assms
  by (auto simp: grants_mirror_events_def map_of_filter_snd distinct_keys_filter
      intro!: entry_mirrors_opt_filter intro: le_trans [OF length_filter_le])

lemma mirror_purge:
  "grants_mirror_events s \<Longrightarrow>
   grants_mirror_events ((retain rm (\<lambda>g. now < rg_expires g) s)\<lparr>clock := max (clock s) now\<rparr>)"
  by (auto simp: grants_mirror_events_def map_of_filter_snd [where P = "\<lambda>g. now < rg_expires g"]
      distinct_keys_filter intro: entry_mirrors_purge le_trans [OF length_filter_le])

lemma mirror_insert:
  assumes "grants_mirror_events s" "length (grants s) < CAPACITY" "without_file g = g"
  shows "grants_mirror_events (note_event (Issued t g) (s\<lparr>grants := hash_insert t g (grants s)\<rparr>))"
proof -
  have "length (hash_insert t g (grants s)) \<le> Suc (length (grants s))"
    by (simp add: hash_insert_def)
  with assms show ?thesis
    by (auto simp: grants_mirror_events_def distinct_hash_insert entry_mirrors_def)
qed

lemma mirror_map:
  assumes "grants_mirror_events s" "\<And>t g. without_file (f t g) = F (without_file g)"
    "\<And>g. rg_expires (F g) = rg_expires g"
    "\<And>t. granted es t = map_option F (granted (issued s) t)"
    "clock s' = clock s" "issued s' = es"
    "grants s' = map (\<lambda>(t, g). (t, f t g)) (grants s)"
  shows "grants_mirror_events s'"
proof -
  have "entry_mirrors (clock s) (map_option (f t) e) (map_option F h)"
    if "entry_mirrors (clock s) e h" for t e h
    using that assms(2,3) by (auto simp: entry_mirrors_def split: option.splits)
  moreover have "map fst (grants s') = map fst (grants s)" "length (grants s') = length (grants s)"
    by (simp_all add: assms(7) comp_def case_prod_unfold)
  moreover have "map_of (grants s') t = map_option (f t) (map_of (grants s) t)" for t
    by (simp add: assms(7) map_of_map_snd)
  ultimately show ?thesis
    using assms(1,4-6) by (simp add: grants_mirror_events_def)
qed

lemma mirror_bind:
  assumes "grants_mirror_events s"
  shows "grants_mirror_events (snd (bind_session r x s))"
proof -
  have "grants_mirror_events (note_event (Bound r x)
          (s\<lparr>grants := map (\<lambda>(t, g). (t, if rg_run g = r then g\<lparr>rg_session := Some x\<rparr> else g)) (grants s)\<rparr>))"
    by (rule mirror_map [OF assms, where f = "\<lambda>_ g. if rg_run g = r then g\<lparr>rg_session := Some x\<rparr> else g"
          and F = "\<lambda>g. if rg_run g = r then g\<lparr>rg_session := Some x\<rparr> else g"]) simp_all
  with assms show ?thesis by (simp add: bind_session_def Let_def)
qed

lemma mirror_issue:
  assumes "grants_mirror_events s"
  shows "grants_mirror_events (snd (issue_run_descriptor rm cx tk now r ow fc l s))"
proof -
  let ?s = "(retain rm (\<lambda>g. now < rg_expires g) s)\<lparr>clock := max (clock s) now\<rparr>"
  let ?g = "\<lparr> rg_run = r, rg_owner = ow, rg_fence = fc, rg_expires = now + 1000 * l,
             rg_file = None, rg_session = None \<rparr>"
  have purged: "grants_mirror_events ?s" using assms by (rule mirror_purge)
  moreover have "grants_mirror_events (note_event (Issued t ?g) (?s\<lparr>grants := hash_insert t ?g (grants ?s)\<rparr>))"
    if "length (grants ?s) < CAPACITY" for t
    by (rule mirror_insert [OF purged that]) (simp add: without_file_def)
  ultimately show ?thesis
    using assms by (simp add: issue_run_descriptor_def Let_def not_le split: sum.split)
qed

lemma mirror_files [simp]: "grants_mirror_events (s\<lparr>files := fs\<rparr>) = grants_mirror_events s"
  by (simp add: grants_mirror_events_def)

lemma mirror_poisoned: "grants_mirror_events s \<Longrightarrow> grants_mirror_events (s\<lparr>poisoned := True\<rparr>)"
  by (simp add: grants_mirror_events_def)

lemma mirror_set_file:
  "grants_mirror_events s \<Longrightarrow>
   grants s' = map (\<lambda>(t, g). (t, if t = t' then g\<lparr>rg_file := Some p\<rparr> else g)) (grants s) \<Longrightarrow>
   clock s' = clock s \<Longrightarrow> issued s' = issued s \<Longrightarrow> grants_mirror_events s'"
  by (rule mirror_map [where f = "\<lambda>t g. if t = t' then g\<lparr>rg_file := Some p\<rparr> else g" and F = "\<lambda>g. g"])
     (simp_all add: option.map_ident)

lemma mirror_provision:
  assumes "grants_mirror_events s"
  shows "grants_mirror_events (snd (provision pv t s))"
  using assms
  by (auto simp: provision_def Let_def and_then_def intro: mirror_set_file split: sum.split option.split)

lemma mirror_drop [simp]: "grants_mirror_events (drop_grant_file rm g s) = grants_mirror_events s"
  by (simp add: grants_mirror_events_def)

lemma mirror_roll_back:
  assumes "grants_mirror_events s"
  shows "grants_mirror_events (roll_back rm t s)"
  using assms
  by (auto simp: roll_back_def grants_mirror_events_def map_of_filter_fst distinct_keys_filter
      split: option.split intro: le_trans [OF length_filter_le])

lemma mirror_after_call: "grants_mirror_events s \<Longrightarrow> grants_mirror_events (after_credential_call s c)"
proof (cases c)
  case (Provision rm pv t)
  assume m: "grants_mirror_events s"
  show ?thesis
    using mirror_provision [OF m, of pv t]
    by (auto simp: Provision provision_or_roll_back_def mirror_roll_back split: prod.split sum.split)
qed (auto simp: mirror_issue mirror_bind observe_exit_def revoke_run_credentials_def revoke_all_def
      mirror_poisoned intro!: mirror_retain simp: opt_filter_def split: option.split)

interpretation credentials: machine after_credential_call grants_mirror_events
  by unfold_locales (rule mirror_after_call)

lemma mirror_start [simp]: "grants_mirror_events no_credentials"
  by (simp add: grants_mirror_events_def no_credentials_def CAPACITY_def)

lemma mirrored_lookup:
  assumes "grants_mirror_events s" "clock s \<le> now"
  shows "map_option without_file (lookup t now s) =
         (if poisoned s then None else opt_filter (\<lambda>g. now < rg_expires g) (granted (issued s) t))"
proof -
  have "entry_mirrors (clock s) (map_of (grants s) t) (granted (issued s) t)"
    using assms(1) by (simp add: grants_mirror_events_def)
  with assms(2) show ?thesis
    by (auto simp: lookup_def entry_mirrors_def opt_filter_def split: option.splits)
qed


subsection \<open>A revoked run\<close>

fun issues_for :: "ustr \<Rightarrow> credential_call \<Rightarrow> bool" where
  "issues_for r (Issue rm cx tk now run_id ow f l) = (run_id = r)"
| "issues_for r c = False"

definition silent :: "ustr \<Rightarrow> credentials \<Rightarrow> bool" where
  "silent r s \<longleftrightarrow> poisoned s \<or> (\<forall>t g. (t, g) \<in> set (grants s) \<longrightarrow> rg_run g \<noteq> r)"

lemma silent_issue:
  assumes "silent r s" "run_id \<noteq> r"
  shows "silent r (snd (issue_run_descriptor rm cx tk now run_id ow fc l s))"
  using assms
  by (auto simp: issue_run_descriptor_def Let_def silent_def hash_insert_def split: sum.split)

lemma silent_provision: "silent r s \<Longrightarrow> silent r (snd (provision pv t s))"
  by (auto simp: provision_def Let_def and_then_def silent_def split: sum.splits option.splits if_splits; blast)

lemma silent_roll_back: "silent r s \<Longrightarrow> silent r (roll_back rm t s)"
  by (auto simp: roll_back_def silent_def split: option.split)

lemma silent_after_call:
  assumes "silent r s" "\<not> issues_for r c"
  shows "silent r (after_credential_call s c)"
proof (cases c)
  case (Provision rm pv t)
  show ?thesis
    using silent_provision [OF assms(1), of pv t]
    by (auto simp: Provision provision_or_roll_back_def silent_roll_back split: prod.split sum.split)
next
  case (Issue rm cx tk now run_id ow fc l)
  with assms show ?thesis by (simp add: silent_issue)
next
  case (Bind run_id x)
  show ?thesis
    using assms(1) by (auto simp: Bind bind_session_def Let_def silent_def split: if_splits; blast)
qed (use assms in \<open>auto simp: observe_exit_def revoke_run_credentials_def revoke_all_def silent_def\<close>)

lemma silent_run:
  "silent r s \<Longrightarrow> silent r (run after_credential_call s (filter (\<lambda>c. \<not> issues_for r c) cs))"
  by (induction cs arbitrary: s) (auto intro: silent_after_call)

lemma silent_after_revocation: "silent r (after_credential_call s (Revoke_Run rm r))"
  by (simp add: revoke_run_credentials_def silent_def)

lemma silent_lookup: "silent r s \<Longrightarrow> lookup t now s = Some g \<Longrightarrow> rg_run g \<noteq> r"
  by (auto simp: silent_def lookup_def dest: map_of_SomeD split: if_splits)

subsection \<open>The descriptor files\<close>

fun issued_token :: "credential_call \<Rightarrow> ustr option" where
  "issued_token (Issue rm cx (Ok t) now r ow f l) = Some t"
| "issued_token c = None"

fun provisioned_token :: "credential_call \<Rightarrow> ustr option" where
  "provisioned_token (Provision rm pv t) = Some t"
| "provisioned_token c = None"

text \<open>A token is random, and its launch provisions it once.\<close>

definition launches_once :: "credential_call list \<Rightarrow> bool" where
  "launches_once cs \<longleftrightarrow>
     distinct (List.map_filter issued_token cs) \<and> distinct (List.map_filter provisioned_token cs)"

definition file_accounted :: "credentials \<Rightarrow> ustr \<times> ustr option \<Rightarrow> bool" where
  "file_accounted s f \<longleftrightarrow>
     (case snd f of None \<Rightarrow> True
      | Some t \<Rightarrow> fst f \<in> set (stuck s) \<or>
          map_option rg_file (map_of (grants s) t) = Some (Some (fst f)))"

text \<open>\<open>I\<close> holds the tokens handed out and \<open>P\<close> those whose file has been asked for.\<close>

definition launch_ok :: "ustr set \<Rightarrow> ustr set \<Rightarrow> credentials \<Rightarrow> bool" where
  "launch_ok I P s \<longleftrightarrow>
     distinct (map fst (grants s)) \<and> fst ` set (grants s) \<subseteq> I \<and>
     (\<forall>t g. map_of (grants s) t = Some g \<and> t \<notin> P \<longrightarrow> rg_file g = None) \<and>
     (\<forall>f\<in>set (files s). file_accounted s f)"

lemma drop_files:
  "f \<in> set (files (foldl (\<lambda>s tg. drop_grant_file rm (snd tg) s) s gs)) \<Longrightarrow>
   f \<in> set (files s) \<and>
   (\<forall>tg\<in>set gs. rg_file (snd tg) = Some (fst f) \<longrightarrow>
      fst f \<in> set (stuck (foldl (\<lambda>s tg. drop_grant_file rm (snd tg) s) s gs)))"
  "set (stuck s) \<subseteq> set (stuck (foldl (\<lambda>s tg. drop_grant_file rm (snd tg) s) s gs))"
proof (induction gs arbitrary: s)
  case (Cons tg gs)
  { case 1
    let ?s = "drop_grant_file rm (snd tg) s"
    have "f \<in> set (files ?s)"
      and later: "\<forall>tg\<in>set gs. rg_file (snd tg) = Some (fst f) \<longrightarrow>
            fst f \<in> set (stuck (foldl (\<lambda>s tg. drop_grant_file rm (snd tg) s) ?s gs))"
      using Cons.IH(1) [of ?s] 1 by auto
    then have "f \<in> set (files s)" and "rg_file (snd tg) = Some (fst f) \<longrightarrow> fst f \<in> set (stuck ?s)"
      by (auto simp: drop_grant_file_def split: option.splits if_splits)
    with later Cons.IH(2) [of ?s] show ?case by auto
  next
    case 2
    have "set (stuck s) \<subseteq> set (stuck (drop_grant_file rm (snd tg) s))"
      by (auto simp: drop_grant_file_def split: option.split)
    with Cons.IH(2) [of "drop_grant_file rm (snd tg) s"] show ?case by simp
  }
qed simp_all

lemma launch_retain:
  assumes "launch_ok I P s"
  shows "launch_ok I P (retain rm keep s)"
proof -
  have keys: "distinct (map fst (grants s))" using assms by (simp add: launch_ok_def)
  have "file_accounted (retain rm keep s) f" if f: "f \<in> set (files (retain rm keep s))" for f
  proof (cases "snd f")
    case (Some t)
    note d = drop_files(1) [OF f [unfolded retain_def]] drop_files(2)
    from d(1) have "f \<in> set (files s)" by simp
    then have "file_accounted s f" using assms by (simp add: launch_ok_def)
    then consider "fst f \<in> set (stuck s)"
      | g where "map_of (grants s) t = Some g" "rg_file g = Some (fst f)"
      by (auto simp: file_accounted_def Some)
    then show ?thesis
    proof cases
      case 1
      then show ?thesis
        using d(2) [of "s\<lparr>grants := filter (\<lambda>tg. keep (snd tg)) (grants s)\<rparr>"]
        by (auto simp: file_accounted_def Some retain_def)
    next
      case g: 2
      then show ?thesis
        using d(1) keys
        by (cases "keep g")
           (auto simp: file_accounted_def Some map_of_filter_snd retain_def dest: map_of_SomeD)
    qed
  qed (simp add: file_accounted_def)
  moreover have "map_of (grants s) t = Some g" if "map_of (grants (retain rm keep s)) t = Some g" for t g
    using that keys by (simp add: map_of_filter_snd)
  ultimately show ?thesis
    using assms by (auto simp: launch_ok_def distinct_keys_filter)
qed

lemma file_accounted_same:
  "grants s' = grants s \<Longrightarrow> stuck s' = stuck s \<Longrightarrow> file_accounted s' f = file_accounted s f"
  by (simp add: file_accounted_def split: option.split)

lemma launch_same:
  "launch_ok I P s \<Longrightarrow> grants s' = grants s \<Longrightarrow> files s' = files s \<Longrightarrow> stuck s' = stuck s \<Longrightarrow>
   launch_ok I P s'"
  by (simp add: launch_ok_def file_accounted_same [of s' s])

lemma launch_note: "launch_ok I P s \<Longrightarrow> launch_ok I P (note_event ev s)"
  by (erule launch_same) simp_all

lemma launch_grow: "launch_ok I P s \<Longrightarrow> I \<subseteq> I' \<Longrightarrow> P \<subseteq> P' \<Longrightarrow> launch_ok I' P' s"
  unfolding launch_ok_def by blast

lemma launch_insert:
  assumes "launch_ok I P s" "t \<notin> I" "rg_file g = None"
  shows "launch_ok (insert t I) P (s\<lparr>grants := hash_insert t g (grants s)\<rparr>)"
proof -
  have "map_of (grants s) t = None"
    using assms(1,2) by (auto simp: launch_ok_def map_of_eq_None_iff)
  then have "file_accounted (s\<lparr>grants := hash_insert t g (grants s)\<rparr>) f" if "file_accounted s f" for f
    using that by (auto simp: file_accounted_def split: option.splits)
  moreover have "fst ` set (hash_insert t g (grants s)) \<subseteq> insert t I"
    using assms(1) by (auto simp: hash_insert_def launch_ok_def)
  ultimately show ?thesis
    using assms by (simp add: launch_ok_def distinct_hash_insert)
qed

lemma launch_issue:
  assumes "launch_ok I P s" "\<And>t. tk = Ok t \<Longrightarrow> t \<notin> I"
  shows "launch_ok (I \<union> set_option (issued_token (Issue rm cx tk now r ow fc l))) P
           (snd (issue_run_descriptor rm cx tk now r ow fc l s))"
proof (cases tk)
  case (Inr t)
  let ?s = "(retain rm (\<lambda>g. now < rg_expires g) s)\<lparr>clock := max (clock s) now\<rparr>"
  let ?g = "\<lparr> rg_run = r, rg_owner = ow, rg_fence = fc, rg_expires = now + 1000 * l,
             rg_file = None, rg_session = None \<rparr>"
  have purged: "launch_ok I P ?s"
    using launch_retain [OF assms(1)] by (rule launch_same) simp_all
  have "launch_ok (insert t I) P (?s\<lparr>grants := hash_insert t ?g (grants ?s)\<rparr>)"
    by (rule launch_insert [OF purged]) (simp_all add: assms(2) Inr)
  moreover note launch_grow [OF purged, of "insert t I" P] launch_grow [OF assms(1), of "insert t I" P]
  ultimately show ?thesis
    by (simp add: issue_run_descriptor_def Let_def Inr launch_note subset_insertI split: sum.split)
qed (use assms in \<open>simp add: issue_run_descriptor_def split: sum.split\<close>)

lemma map_of_set_file:
  "map_of (map (\<lambda>(t, g). (t, if t = t' then g\<lparr>rg_file := Some p\<rparr> else g)) m) t =
   map_option (\<lambda>g. if t = t' then g\<lparr>rg_file := Some p\<rparr> else g) (map_of m t)"
  by (rule map_of_map_snd)

lemma launch_record_file:
  assumes "launch_ok I P s" "t' \<notin> P" "map_of (grants s) t' = Some g'"
    and g: "grants s' = map (\<lambda>(t, g). (t, if t = t' then g\<lparr>rg_file := Some p\<rparr> else g)) (grants s)"
    and f: "set (files s') \<subseteq> insert (p, Some t') (insert (p, None) (set (files s)))" "stuck s' = stuck s"
  shows "launch_ok I (insert t' P) s'"
proof -
  have "map fst (grants s') = map fst (grants s)"
    by (simp add: g comp_def case_prod_unfold)
  then have keys: "distinct (map fst (grants s'))" "fst ` set (grants s') \<subseteq> I"
    using assms(1) by (simp_all add: launch_ok_def flip: set_map)
  have unset: "rg_file g' = None" using assms(1-3) by (simp add: launch_ok_def)
  have "file_accounted s' x" if x: "x \<in> set (files s')" for x
  proof -
    from x f consider "x = (p, Some t')" | "x = (p, None)" | "file_accounted s x"
      using assms(1) by (auto simp: launch_ok_def)
    then show ?thesis
    proof cases
      case 3
      show ?thesis
      proof (cases "snd x")
        case (Some u)
        with 3 consider "fst x \<in> set (stuck s)"
          | z where "map_of (grants s) u = Some z" "rg_file z = Some (fst x)"
          by (auto simp: file_accounted_def)
        then show ?thesis
          using unset assms(3)
          by cases (auto simp: file_accounted_def g map_of_set_file f(2) Some)
      qed (simp add: file_accounted_def)
    qed (simp_all add: file_accounted_def g map_of_set_file assms(3))
  qed
  moreover have "rg_file g = None" if "map_of (grants s') t = Some g" "t \<notin> insert t' P" for t g
    using that assms(1) by (auto simp: g map_of_set_file launch_ok_def)
  ultimately show ?thesis using keys unfolding launch_ok_def by blast
qed

lemma launch_empty_file: "launch_ok I P s \<Longrightarrow> launch_ok I P (s\<lparr>files := (p, None) # files s\<rparr>)"
  by (simp add: launch_ok_def file_accounted_same [of "s\<lparr>files := (p, None) # files s\<rparr>" s])
     (simp add: file_accounted_def)

lemma launch_provision:
  assumes "launch_ok I P s" "t \<notin> P"
  shows "launch_ok I (insert t P) (snd (provision pv t s))"
proof -
  have kept: "launch_ok I (insert t P) s" "\<And>p. launch_ok I (insert t P) (s\<lparr>files := (p, None) # files s\<rparr>)"
    using assms(1) by (auto intro: launch_grow launch_empty_file)
  let ?recorded = "\<lambda>p. map (\<lambda>(t', g). (t', if t' = t then g\<lparr>rg_file := Some p\<rparr> else g)) (grants s)"
  have "launch_ok I (insert t P) (s\<lparr>files := (p, None) # files s, grants := ?recorded p\<rparr>)"
    "launch_ok I (insert t P)
       (s\<lparr>grants := ?recorded p, files := (p, Some t) # filter (\<lambda>f. fst f \<noteq> p) (files s)\<rparr>)"
    if "map_of (grants s) t = Some g" for p g
    by (rule launch_record_file [OF assms that]; auto)+
  with kept show ?thesis
    by (auto simp: provision_def Let_def and_then_def split: sum.split option.split)
qed


lemma launch_drop:
  assumes "launch_ok I P s" "map_of (grants s) t = Some g"
    and s': "grants s' = filter (\<lambda>tg. fst tg \<noteq> t) (grants s)" "files s' = files s" "stuck s' = stuck s"
  shows "launch_ok I P (drop_grant_file rm g s')"
proof -
  let ?s = "drop_grant_file rm g s'"
  have "file_accounted ?s f" if f: "f \<in> set (files ?s)" for f
  proof (cases "snd f")
    case (Some u)
    from f have "f \<in> set (files s)" by (auto simp: s' drop_grant_file_def split: option.splits if_splits)
    then have "file_accounted s f" using assms(1) by (simp add: launch_ok_def)
    then consider "fst f \<in> set (stuck s)"
      | h where "map_of (grants s) u = Some h" "rg_file h = Some (fst f)"
      by (auto simp: file_accounted_def Some)
    then show ?thesis
      using f assms(2)
      by cases (auto simp: s' file_accounted_def Some map_of_filter_fst drop_grant_file_def
          split: option.splits if_splits)
  qed (simp add: file_accounted_def)
  moreover have "fst ` set (grants ?s) \<subseteq> I" "distinct (map fst (grants ?s))"
    using assms(1) by (auto simp: s' launch_ok_def distinct_keys_filter)
  moreover have "map_of (grants s) u = Some h" if "map_of (grants ?s) u = Some h" for u h
    using that by (simp add: s' map_of_filter_fst split: if_splits)
  ultimately show ?thesis using assms(1) unfolding launch_ok_def by blast
qed

lemma launch_roll_back:
  assumes "launch_ok I P s"
  shows "launch_ok I P (roll_back rm t s)"
proof (cases "map_of (grants s) t")
  case (Some g)
  show ?thesis
    unfolding roll_back_def Some option.case by (rule launch_drop [OF assms Some]) simp_all
qed (use assms in \<open>simp add: roll_back_def\<close>)

lemma launch_bind:
  assumes "launch_ok I P s"
  shows "launch_ok I P (snd (bind_session r x s))"
proof -
  define F :: "run_grant \<Rightarrow> run_grant" where "F = (\<lambda>g. if rg_run g = r then g\<lparr>rg_session := Some x\<rparr> else g)"
  define G where "G = map (\<lambda>(t, g). (t, F g)) (grants s)"
  have entry: "map_of G t = map_option F (map_of (grants s) t)" for t
    unfolding G_def by (rule map_of_map_snd)
  have F [simp]: "rg_file (F g) = rg_file g" for g by (simp add: F_def)
  have keys: "map fst G = map fst (grants s)" by (simp add: G_def comp_def case_prod_unfold)
  have "file_accounted (s\<lparr>grants := G\<rparr>) f = file_accounted s f" for f
    by (simp add: file_accounted_def entry option.map_comp comp_def split: option.split)
  moreover have "\<forall>t g. map_of G t = Some g \<and> t \<notin> P \<longrightarrow> rg_file g = None"
    using assms by (auto simp: entry launch_ok_def)
  moreover have "fst ` set G = fst ` set (grants s)"
    using keys by (metis set_map)
  ultimately have "launch_ok I P (s\<lparr>grants := G\<rparr>)"
    using assms keys unfolding launch_ok_def by simp
  then show ?thesis
    using assms by (simp add: bind_session_def Let_def launch_note G_def F_def)
qed

lemma launch_after_call:
  assumes "launch_ok I P s" "set_option (issued_token c) \<inter> I = {}" "set_option (provisioned_token c) \<inter> P = {}"
  shows "launch_ok (I \<union> set_option (issued_token c)) (P \<union> set_option (provisioned_token c))
           (after_credential_call s c)"
proof (cases c)
  case (Issue rm cx tk now r ow fc l)
  have "t \<notin> I" if "tk = Ok t" for t using assms(2) that by (simp add: Issue)
  then show ?thesis
    using launch_issue [OF assms(1), of tk rm cx now r ow fc l] by (simp add: Issue)
next
  case (Provision rm pv t)
  have p: "launch_ok I (insert t P) (snd (provision pv t s))"
    using launch_provision [OF assms(1)] assms(3) by (simp add: Provision)
  then have "launch_ok I (insert t P) (roll_back rm t (snd (provision pv t s)))" by (rule launch_roll_back)
  with p show ?thesis
    by (cases "provision pv t s"; cases "fst (provision pv t s)")
       (simp_all add: Provision provision_or_roll_back_def)
next
  case (Bind r x)
  show ?thesis using launch_bind [OF assms(1), of r x] by (simp add: Bind)
next
  case Panicked
  show ?thesis using launch_same [OF assms(1)] by (simp add: Panicked)
qed (use assms(1) in \<open>simp_all add: observe_exit_def revoke_run_credentials_def revoke_all_def
      launch_note launch_retain\<close>)

lemma launch_run:
  assumes "launch_ok I P s" "launches_once cs"
    and "I \<inter> set (List.map_filter issued_token cs) = {}" "P \<inter> set (List.map_filter provisioned_token cs) = {}"
  shows "\<exists>I P. launch_ok I P (run after_credential_call s cs)"
  using assms
proof (induction cs arbitrary: s I P)
  case (Cons c cs)
  have "launch_ok (I \<union> set_option (issued_token c)) (P \<union> set_option (provisioned_token c))
          (after_credential_call s c)"
    by (rule launch_after_call [OF Cons.prems(1)])
       (use Cons.prems(3,4) in \<open>auto split: option.splits\<close>)
  from Cons.IH [OF this] Cons.prems(2-) show ?case
    by (cases "issued_token c"; cases "provisioned_token c")
       (auto simp: launches_once_def)
qed auto

lemma launch_start: "launch_ok {} {} no_credentials"
  by (simp add: launch_ok_def no_credentials_def)

section \<open>Properties\<close>

text \<open>C18: The credentials are what their history grants.  After any sequence of calls, at any time from
  the last purge on, looking a token up gives the grant that the events alone determine (issued, bound
  to a session, revoked with its session or run, rolled back), while it has not expired; a poisoned map
  honours no token.  The map never holds more than 128 grants.\<close>

theorem credentials_follow_their_history:
  "let s = run after_credential_call no_credentials cs; at = max (clock s) now in
   length (grants s) \<le> 128 \<and>
   map_option without_file (lookup t at s) =
     (if poisoned s then None else opt_filter (\<lambda>g. at < rg_expires g) (granted (issued s) t))"
proof -
  have "grants_mirror_events (run after_credential_call no_credentials cs)"
    by (rule credentials.inv_run) simp
  then show ?thesis
    by (simp add: Let_def mirrored_lookup) (simp add: grants_mirror_events_def CAPACITY_def)
qed

text \<open>C19: A revoked run stays revoked.  Once the credentials of a run have been revoked, no token speaks for
  it, at any time and after any other calls, until a credential is issued for this run again.  That
  holds also when the revocation reports a failure, which it does on a poisoned map only.\<close>

theorem revoked_run_is_silent:
  "case lookup t now (run after_credential_call (after_credential_call s (Revoke_Run removable r))
                        (filter (\<lambda>c. \<not> issues_for r c) cs)) of
     None \<Rightarrow> True | Some g \<Rightarrow> rg_run g \<noteq> r"
  using silent_lookup [OF silent_run [OF silent_after_revocation]] by (auto split: option.split)

text \<open>No descriptor file outlives its grant.  When tokens are fresh and each launch provisions its file
  once, every file that holds a token belongs to a grant that is still in the map and names this file,
  or it is one whose removal the operating system refused.\<close>

theorem descriptor_files_follow_grants:
  assumes "launches_once cs"
  shows "list_all (file_accounted (run after_credential_call no_credentials cs))
           (files (run after_credential_call no_credentials cs))"
  using launch_run [OF launch_start assms] by (auto simp: launch_ok_def list_all_iff)

definition sample_launch :: "credential_call list" where
  "sample_launch =
     [Issue (\<lambda>_. True) (Ok JNull) (Ok [97]) 0 [82] [79] 1 60,
      Provision (\<lambda>_. True) \<lparr> directory_ready = Ok (), file_name = Ok [102], file_opens = Ok (),
                              access_narrowed = Ok (), body_written = Ok () \<rparr> [97],
      Bind [82] [83]]"

theorem descriptor_files_follow_grants_witness:
  "launches_once sample_launch \<and>
   files (run after_credential_call no_credentials sample_launch) = [([102], Some [97])] \<and>
   list_all (file_accounted (run after_credential_call no_credentials sample_launch))
     (files (run after_credential_call no_credentials sample_launch))"
proof -
  have once: "launches_once sample_launch" by code_simp
  have "files (run after_credential_call no_credentials sample_launch) = [([102], Some [97])]"
    by (simp add: sample_launch_def no_credentials_def issue_run_descriptor_def retain_def CAPACITY_def
        hash_insert_def note_event_def provision_or_roll_back_def provision_def and_then_def bind_session_def Let_def)
  with once descriptor_files_follow_grants [OF once] show ?thesis by blast
qed

text \<open>A launch revoked between the two locks leaves its empty file behind: the file is created before the
  grant is looked up, and the rollback removes the file of a grant it no longer finds.\<close>

lemma revoked_launch_leaves_a_file:
  "files (run after_credential_call no_credentials
     [Issue (\<lambda>_. True) (Ok JNull) (Ok [97]) 0 [82] [79] 1 60, Revoke_Run (\<lambda>_. True) [82],
      Provision (\<lambda>_. True) \<lparr> directory_ready = Ok (), file_name = Ok [102], file_opens = Ok (),
                              access_narrowed = Ok (), body_written = Ok () \<rparr> [97]]) = [([102], None)]"
  by (simp add: no_credentials_def issue_run_descriptor_def retain_def CAPACITY_def drop_grant_file_def
      revoke_run_credentials_def roll_back_def Let_def
      hash_insert_def note_event_def provision_or_roll_back_def provision_def and_then_def)

end
