(* ===== verification/Calendar.thy ===== *)
theory Calendar
  imports Json_Values
begin

text \<open>
  The calendar of the daily digests, from \<open>src-tauri/src/digest.rs\<close>: days since 1970 to a civil date and
  back, dates as text, and the check that stands between a date from a request and a file name.  The
  machine integers are integers with their bounds; checked operations give \<open>None\<close> outside.  The
  shift by 719468 days in \<open>civil_from_days\<close> is not checked in the code and is the sum without bound here:
  the two differ only for day counts within that distance of the largest 64-bit number.
\<close>

section \<open>The code\<close>

definition DAY :: int where "DAY = 24 * 60 * 60"
definition ACTIVE_WITHIN :: int where "ACTIVE_WITHIN = 26 * 60 * 60"

text \<open>A checked operation on \<open>i64\<close>, and its division, which truncates.\<close>

definition fits_i64 :: "int \<Rightarrow> bool" where
  "fits_i64 n \<longleftrightarrow> - (2 ^ 63) \<le> n \<and> n < 2 ^ 63"

definition checked :: "int \<Rightarrow> int option" where
  "checked n = (if fits_i64 n then Some n else None)"

definition truncating_div :: "int \<Rightarrow> int \<Rightarrow> int" where
  "truncating_div a b = (if 0 \<le> a then a div b else - ((- a) div b))"

text \<open>The year, month and day within an era of 400 years.\<close>

definition year_of_era :: "int \<Rightarrow> int" where
  "year_of_era doe = (doe - doe div 1460 + doe div 36524 - doe div 146096) div 365"

definition day_of_year :: "int \<Rightarrow> int \<Rightarrow> int" where
  "day_of_year doe yoe = doe - (365 * yoe + yoe div 4 - yoe div 100)"

definition civil_from_days :: "int \<Rightarrow> int \<times> int \<times> int" where
  "civil_from_days days =
     (let z = days + 719468;
          era = truncating_div (if 0 \<le> z then z else z - 146096) 146097;
          doe = z - era * 146097;
          yoe = year_of_era doe;
          y = yoe + era * 400;
          doy = day_of_year doe yoe;
          mp = (5 * doy + 2) div 153;
          d = doy - (153 * mp + 2) div 5 + 1;
          m = (if mp < 10 then mp + 3 else mp - 9)
      in (if m \<le> 2 then y + 1 else y, m, d))"

definition day_of_era :: "int \<Rightarrow> int \<Rightarrow> int \<Rightarrow> int" where
  "day_of_era yoe m d =
     (let mp = (if 2 < m then m - 3 else m + 9);
          doy = (153 * mp + 2) div 5 + d - 1
      in yoe * 365 + yoe div 4 - yoe div 100 + doy)"

definition days_from_civil :: "int \<Rightarrow> int \<Rightarrow> int \<Rightarrow> int option" where
  "days_from_civil y m d =
     (if \<not> (1 \<le> m \<and> m \<le> 12) \<or> d = 0 \<or> 31 < d then None
      else
        opt_then (if m \<le> 2 then checked (y - 1) else Some y) (\<lambda>y_adj.
        opt_then (if 0 \<le> y_adj then Some y_adj else checked (y_adj - 399)) (\<lambda>n.
        let era = truncating_div n 400 in
        opt_then (checked (era * 400)) (\<lambda>e.
        let doe = day_of_era (y_adj - e) m d in
        opt_then (checked (era * 146097)) (\<lambda>a.
        opt_then (checked (a + doe)) (\<lambda>b.
        opt_then (checked (b - 719468)) (\<lambda>days.
        if civil_from_days days = (y, m, d) then Some days else None)))))))"

text \<open>Formatting with at least so many digits; the sign counts.\<close>

definition padded :: "nat \<Rightarrow> int \<Rightarrow> ustr" where
  "padded w n =
     (let sign = (if n < 0 then [45] else []); ds = decimal (nat \<bar>n\<bar>)
      in sign @ replicate (w - length sign - length ds) 48 @ ds)"

definition utc_date :: "int \<Rightarrow> ustr" where
  "utc_date unix =
     (case civil_from_days (unix div DAY) of
        (y, m, d) \<Rightarrow> padded 4 y @ [45] @ padded 2 m @ [45] @ padded 2 d)"

definition day_start :: "ustr \<Rightarrow> int option" where
  "day_start date =
     opt_then (split_once [45] date) (\<lambda>(y, rest).
     opt_then (split_once [45] rest) (\<lambda>(m, d).
     opt_then (parse_i64 y) (\<lambda>y.
     opt_then (parse_u32 m) (\<lambda>m.
     opt_then (parse_u32 d) (\<lambda>d.
     opt_then (days_from_civil y (uint m) (uint d)) (\<lambda>days. checked (days * DAY)))))))"

definition is_valid_date :: "ustr \<Rightarrow> bool" where
  "is_valid_date date \<longleftrightarrow>
     (let bytes = as_bytes date in
      length bytes = 10 \<and> bytes ! 4 = 45 \<and> bytes ! 7 = 45 \<and>
      list_all (\<lambda>(i, b). i = 4 \<or> i = 7 \<or> 48 \<le> b \<and> b \<le> (57 :: u8)) (enumerate 0 bytes) \<and>
      day_start date \<noteq> None)"

definition due_date :: "int \<Rightarrow> ustr" where
  "due_date now = utc_date (now - DAY)"

definition is_due :: "int \<Rightarrow> int option \<Rightarrow> bool \<Rightarrow> bool" where
  "is_due now last_activity already_written \<longleftrightarrow>
     \<not> already_written \<and> (case last_activity of None \<Rightarrow> False | Some l \<Rightarrow> now - l \<le> ACTIVE_WITHIN)"

definition digest_path :: "ustr \<Rightarrow> ustr \<Rightarrow> ustr list" where
  "digest_path repo date = [repo, lit ''.pa'', lit ''memory'', lit ''digests'', date @ lit ''.md'']"

section \<open>The civil calendar\<close>

text \<open>The reference: the lengths of the months with the Gregorian leap years, and the following day.\<close>

definition leap_year :: "int \<Rightarrow> bool" where
  "leap_year y \<longleftrightarrow> y mod 4 = 0 \<and> (y mod 100 \<noteq> 0 \<or> y mod 400 = 0)"

definition month_length :: "int \<Rightarrow> int \<Rightarrow> int" where
  "month_length y m =
     (if m = 2 then if leap_year y then 29 else 28
      else if m = 4 \<or> m = 6 \<or> m = 9 \<or> m = 11 then 30 else 31)"

definition is_civil :: "int \<times> int \<times> int \<Rightarrow> bool" where
  "is_civil = (\<lambda>(y, m, d). 1 \<le> m \<and> m \<le> 12 \<and> 1 \<le> d \<and> d \<le> month_length y m)"

definition next_day :: "int \<times> int \<times> int \<Rightarrow> int \<times> int \<times> int" where
  "next_day = (\<lambda>(y, m, d).
     if d < month_length y m then (y, m, d + 1)
     else if m < 12 then (y, m + 1, 1) else (y + 1, 1, 1))"

subsection \<open>Years of an era\<close>

definition year_start :: "int \<Rightarrow> int" where
  "year_start y = 365 * y + y div 4 - y div 100"

definition year_last :: "int \<Rightarrow> int" where
  "year_last y = (if y = 399 then 146096 else year_start (y + 1) - 1)"

lemma div_succ: "0 < k \<Longrightarrow> (a + 1) div k = a div k + (if k dvd a + 1 then 1 else 0)" for a k :: int
proof -
  assume k: "0 < k"
  have a: "a = k * (a div k) + a mod k" "0 \<le> a mod k" "a mod k < k" using k by auto
  show ?thesis
  proof (cases "a mod k = k - 1")
    case True
    with a(1) have e: "a + 1 = k * (a div k + 1)" by (simp add: algebra_simps)
    then have "(a + 1) div k = a div k + 1" using k by (metis nonzero_mult_div_cancel_left less_irrefl)
    moreover have "k dvd a + 1" using e by (metis dvd_triv_left)
    ultimately show ?thesis by simp
  next
    case False
    with a have b: "a + 1 = k * (a div k) + (a mod k + 1)" "0 \<le> a mod k + 1" "a mod k + 1 < k" by linarith+
    then have "(a + 1) div k = a div k" by (metis int_div_pos_eq mult.commute)
    moreover have "\<not> k dvd a + 1"
      using b False a by (metis dvd_add_right_iff dvd_triv_left zdvd_not_zless add_nonneg_eq_0_iff
          zero_le_one zero_neq_one le_less)
    ultimately show ?thesis by simp
  qed
qed

lemma year_of_era_step: "year_of_era a \<le> year_of_era (a + 1)"
proof -
  have "36524 dvd a + 1" if "146096 dvd a + 1"
    using that by (rule dvd_trans [rotated]) simp
  then have "a - a div 1460 + a div 36524 - a div 146096
      \<le> a + 1 - (a + 1) div 1460 + (a + 1) div 36524 - (a + 1) div 146096"
    by (simp add: div_succ)
  then show ?thesis unfolding year_of_era_def by (rule zdiv_mono1) simp
qed

lemma year_of_era_mono: "a \<le> b \<Longrightarrow> year_of_era a \<le> year_of_era b"
proof (induction "nat (b - a)" arbitrary: b)
  case (Suc n)
  then have "year_of_era a \<le> year_of_era (b - 1)" by (intro Suc.hyps) auto
  also have "\<dots> \<le> year_of_era b" using year_of_era_step [of "b - 1"] by simp
  finally show ?case .
qed simp

lemma year_ends:
  "list_all (\<lambda>y. year_of_era (year_start y) = y \<and> year_of_era (year_last y) = y) [0..399]"
  by code_simp

lemma year_found:
  assumes "0 \<le> y" "y \<le> 399" "year_start y \<le> doe" "doe \<le> year_last y"
  shows "year_of_era doe = y"
proof -
  have "year_of_era (year_start y) = y" "year_of_era (year_last y) = y"
    using year_ends assms(1,2) by (auto simp: list_all_iff)
  with year_of_era_mono [OF assms(3)] year_of_era_mono [OF assms(4)] show ?thesis by simp
qed

lemma year_exists:
  assumes "0 \<le> doe" "doe \<le> 146096"
  shows "\<exists>y. 0 \<le> y \<and> y \<le> 399 \<and> year_start y \<le> doe \<and> doe \<le> year_last y"
  using assms
proof (induction doe rule: int_ge_induct)
  case base
  then show ?case by (intro exI [of _ 0]) (simp add: year_start_def year_last_def)
next
  case (step doe)
  then obtain y where y: "0 \<le> y" "y \<le> 399" "year_start y \<le> doe" "doe \<le> year_last y" by auto
  show ?case
  proof (cases "doe < year_last y")
    case True
    with y show ?thesis by (intro exI [of _ y]) simp
  next
    case False
    with y(4) have e: "doe = year_last y" by simp
    with step.prems have "y \<noteq> 399" by (auto simp: year_last_def)
    with e y(1,2) show ?thesis
      by (intro exI [of _ "y + 1"]) (auto simp: year_last_def year_start_def)
  qed
qed

lemma year_of_era_iff:
  assumes "0 \<le> doe" "doe \<le> 146096"
  shows "year_of_era doe = y \<longleftrightarrow> 0 \<le> y \<and> y \<le> 399 \<and> year_start y \<le> doe \<and> doe \<le> year_last y"
  using year_exists [OF assms] year_found by metis


subsection \<open>Months\<close>

text \<open>The month and day of a day of the year that starts in March, and back.\<close>

definition month_day :: "int \<Rightarrow> int \<times> int" where
  "month_day doy =
     (let mp = (5 * doy + 2) div 153 in
      (if mp < 10 then mp + 3 else mp - 9, doy - (153 * mp + 2) div 5 + 1))"

definition doy_of :: "int \<Rightarrow> int \<Rightarrow> int" where
  "doy_of m d = (153 * (if 2 < m then m - 3 else m + 9) + 2) div 5 + d - 1"

text \<open>The lengths of the months in a year with a leap day.\<close>

definition long_month :: "int \<Rightarrow> int" where
  "long_month m = month_length 2000 m"

lemma month_day_table:
  "list_all (\<lambda>doy. case month_day doy of (m, d) \<Rightarrow>
      1 \<le> m \<and> m \<le> 12 \<and> 1 \<le> d \<and> d \<le> long_month m \<and> doy_of m d = doy) [0..365]"
  by code_simp

lemma doy_table:
  "list_all (\<lambda>m. list_all (\<lambda>d. 0 \<le> doy_of m d \<and> doy_of m d \<le> 365 \<and> month_day (doy_of m d) = (m, d))
      [1..long_month m]) [1..12]"
  by code_simp

lemma month_day_next_table:
  "list_all (\<lambda>doy. case month_day doy of (m, d) \<Rightarrow>
      month_day (doy + 1) =
        (if d < long_month m then (m, d + 1) else if m < 12 then (m + 1, 1) else (1, 1))) [0..364]"
  by code_simp

lemma month_day_ok:
  assumes "0 \<le> doy" "doy \<le> 365" "month_day doy = (m, d)"
  shows "1 \<le> m" "m \<le> 12" "1 \<le> d" "d \<le> long_month m" "doy_of m d = doy"
  using month_day_table assms by (auto simp: list_all_iff split: prod.splits)

lemma doy_of_ok:
  assumes "1 \<le> m" "m \<le> 12" "1 \<le> d" "d \<le> long_month m"
  shows "0 \<le> doy_of m d" "doy_of m d \<le> 365" "month_day (doy_of m d) = (m, d)"
  using doy_table assms by (auto simp: list_all_iff)

lemma month_length_long:
  "month_length y m = (if m = 2 \<and> \<not> leap_year y then 28 else long_month m)"
  by (auto simp: month_length_def long_month_def leap_year_def)

text \<open>Only the last day of the March year may be missing.\<close>

lemma doy_365: "month_day 365 = (2, 29)" "month_day 364 = (2, 28)" "month_day 0 = (3, 1)" "month_day 306 = (1, 1)"
  by code_simp+

lemma doy_of_simps: "doy_of 2 29 = 365" "doy_of 2 28 = 364" "doy_of 1 1 = 306" "doy_of 3 1 = 0"
  by code_simp+

lemma month_by_doy:
  assumes "0 \<le> doy" "doy \<le> 365" "month_day doy = (m, d)"
  shows "m \<le> 2 \<longleftrightarrow> 306 \<le> doy"
proof -
  have "list_all (\<lambda>doy. (fst (month_day doy) \<le> 2) = (306 \<le> doy)) [0..365]" by code_simp
  with assms(1,2) have "(fst (month_day doy) \<le> 2) = (306 \<le> doy)" by (simp add: list_all_iff)
  with assms(3) show ?thesis by simp
qed

subsection \<open>Days as era, year and day of the year\<close>

lemma truncating_floor:
  "0 < k \<Longrightarrow> j = k - 1 \<Longrightarrow> truncating_div (if 0 \<le> z then z else z - j) k = z div k"
proof (cases "0 \<le> z")
  case False
  assume k: "0 < k" and j: "j = k - 1"
  have "z = k * (z div k) + z mod k" "0 \<le> z mod k" "z mod k < k" using k by auto
  then have "k - 1 - z = k * (- (z div k)) + (k - 1 - z mod k)" "0 \<le> k - 1 - z mod k" "k - 1 - z mod k < k"
    by (simp_all add: algebra_simps)
  then have "(k - 1 - z) div k = - (z div k)" by (metis int_div_pos_eq mult.commute)
  with False k j show ?thesis by (simp add: truncating_div_def)
qed (simp add: truncating_div_def)

lemma truncating_era: "truncating_div (if 0 \<le> z then z else z - 146096) 146097 = z div 146097"
  by (rule truncating_floor) simp_all

lemma truncating_400: "truncating_div (if 0 \<le> y then y else y - 399) 400 = y div 400"
  by (rule truncating_floor) simp_all

text \<open>\<open>march_year\<close> counts the years that start in March; its last day is missing unless the year that
  follows in January is a leap year.\<close>

definition day_number :: "int \<Rightarrow> int \<Rightarrow> int" where
  "day_number march_year doy =
     (march_year div 400) * 146097 + year_start (march_year mod 400) + doy - 719468"

definition year_days :: "int \<Rightarrow> int" where
  "year_days march_year = (if leap_year (march_year + 1) then 366 else 365)"

definition civil_of :: "int \<Rightarrow> int \<Rightarrow> int \<times> int \<times> int" where
  "civil_of march_year doy =
     (case month_day doy of (m, d) \<Rightarrow> (if m \<le> 2 then march_year + 1 else march_year, m, d))"

lemma year_last_leap:
  assumes "0 \<le> y" "y \<le> 399"
  shows "year_last y - year_start y + 1 = (if leap_year (y + 1) then 366 else 365)"
proof (cases "y = 399")
  case True
  then show ?thesis by (simp add: year_last_def year_start_def leap_year_def)
next
  case False
  with assms have "(y + 1) mod 400 = y + 1" by simp
  with assms have "\<not> 400 dvd y + 1" by (simp add: dvd_eq_mod_eq_0)
  moreover have "100 dvd y + 1 \<Longrightarrow> 4 dvd y + 1" by presburger
  moreover have "leap_year (y + 1) \<longleftrightarrow> 4 dvd y + 1 \<and> (\<not> 100 dvd y + 1 \<or> 400 dvd y + 1)"
    by (simp add: leap_year_def dvd_eq_mod_eq_0)
  moreover have "year_last y - year_start y + 1 =
      365 + (if 4 dvd y + 1 then 1 else 0) - (if 100 dvd y + 1 then 1 else 0)"
    using False div_succ [of 4 y] div_succ [of 100 y] by (simp add: year_last_def year_start_def)
  ultimately show ?thesis
    by (cases "4 dvd y + 1"; cases "100 dvd y + 1") simp_all
qed

lemma leap_era: "leap_year (e * 400 + y) = leap_year y"
proof -
  have "(e * 400 + y) mod 4 = y mod 4" "(e * 400 + y) mod 100 = y mod 100"
    using mod_mult_self4 [of 4 "e * 100" y] mod_mult_self4 [of 100 "e * 4" y]
    by (simp_all add: mult.commute [of e])
  then show ?thesis by (simp add: leap_year_def)
qed

lemma year_last_days:
  "year_last (y mod 400) = year_start (y mod 400) + year_days y - 1"
proof -
  have "year_last (y mod 400) - year_start (y mod 400) + 1 = (if leap_year (y mod 400 + 1) then 366 else 365)"
    using pos_mod_bound [of 400 y] by (intro year_last_leap) simp_all
  moreover have "leap_year (y + 1) = leap_year (y mod 400 + 1)"
    using leap_era [of "y div 400" "y mod 400 + 1"] by (simp add: add.assoc [symmetric])
  ultimately show ?thesis by (simp add: year_days_def)
qed

lemma civil_of_day:
  assumes "0 \<le> doy" "doy < year_days y"
  shows "civil_from_days (day_number y doy) = civil_of y doy"
proof -
  let ?q = "y mod 400"
  let ?doe = "year_start ?q + doy"
  have q: "0 \<le> ?q" "?q \<le> 399" using pos_mod_bound [of 400 y] by simp_all
  have last: "?doe \<le> year_last ?q" using assms(2) by (simp add: year_last_days)
  have "list_all (\<lambda>y. 0 \<le> year_start y \<and> year_last y \<le> 146096) [0..399]" by code_simp
  with q have "0 \<le> year_start ?q" "year_last ?q \<le> 146096" by (auto simp: list_all_iff)
  with last assms(1) have doe: "0 \<le> ?doe" "?doe < 146097" by linarith+
  have yoe: "year_of_era ?doe = ?q" using assms(1) by (intro year_found q last) simp
  have z: "day_number y doy + 719468 = (y div 400) * 146097 + ?doe" by (simp add: day_number_def)
  then have era: "(day_number y doy + 719468) div 146097 = y div 400"
    using doe by (intro int_div_pos_eq) simp_all
  have off: "day_number y doy + 719468 - (y div 400) * 146097 = ?doe" unfolding z by simp
  have doy: "day_of_year ?doe ?q = doy" by (simp add: day_of_year_def year_start_def)
  have whole: "?q + (y div 400) * 400 = y" by simp
  show ?thesis
    unfolding civil_from_days_def Let_def truncating_era era off yoe doy whole civil_of_def month_day_def
      prod.case by (rule refl)
qed

lemma day_number_exists: "\<exists>y doy. 0 \<le> doy \<and> doy < year_days y \<and> n = day_number y doy"
proof -
  define era doe where "era = (n + 719468) div 146097" and "doe = (n + 719468) mod 146097"
  have doe: "0 \<le> doe" "doe \<le> 146096" using pos_mod_bound [of 146097 "n + 719468"] by (simp_all add: doe_def)
  then obtain q where q: "0 \<le> q" "q \<le> 399" "year_start q \<le> doe" "doe \<le> year_last q"
    using year_exists by blast
  have e: "(era * 400 + q) div 400 = era" "(era * 400 + q) mod 400 = q" using q(1,2) by simp_all
  have n: "n = era * 146097 + doe - 719468" by (simp add: era_def doe_def)
  show ?thesis
  proof (intro exI conjI)
    show "0 \<le> doe - year_start q" using q(3) by simp
    show "doe - year_start q < year_days (era * 400 + q)"
      using q(4) year_last_days [of "era * 400 + q"] unfolding e by simp
    show "n = day_number (era * 400 + q) (doe - year_start q)"
      unfolding day_number_def e by (simp add: n)
  qed
qed


lemma succ_div_mod:
  fixes a k :: int
  assumes "0 < k"
  shows "a mod k = k - 1 \<Longrightarrow> (a + 1) div k = a div k + 1 \<and> (a + 1) mod k = 0"
    "a mod k \<noteq> k - 1 \<Longrightarrow> (a + 1) div k = a div k \<and> (a + 1) mod k = a mod k + 1"
proof -
  have a: "a = k * (a div k) + a mod k" "0 \<le> a mod k" "a mod k < k" using assms by auto
  { assume "a mod k = k - 1"
    with a(1) have "a + 1 = k * (a div k + 1) + 0" by (simp add: algebra_simps)
    with assms show "(a + 1) div k = a div k + 1 \<and> (a + 1) mod k = 0"
      by (metis int_div_pos_eq int_mod_pos_eq order_refl) }
  { assume "a mod k \<noteq> k - 1"
    with a have "a + 1 = k * (a div k) + (a mod k + 1)" "0 \<le> a mod k + 1" "a mod k + 1 < k" by linarith+
    then show "(a + 1) div k = a div k \<and> (a + 1) mod k = a mod k + 1"
      by (metis int_div_pos_eq int_mod_pos_eq) }
qed

lemma long_month_eq:
  "long_month m = (if m = 2 then 29 else if m = 4 \<or> m = 6 \<or> m = 9 \<or> m = 11 then 30 else 31)"
proof -
  have "leap_year 2000" by code_simp
  then show ?thesis by (simp add: long_month_def month_length_def)
qed

lemma year_days_cases: "year_days y = 366 \<and> leap_year (y + 1) \<or> year_days y = 365 \<and> \<not> leap_year (y + 1)"
  by (simp add: year_days_def)

lemma civil_of_is_civil:
  assumes "0 \<le> doy" "doy < year_days y"
  shows "is_civil (civil_of y doy)"
proof -
  obtain m d where md: "month_day doy = (m, d)" by fastforce
  have le: "doy \<le> 365" using assms(2) year_days_cases [of y] by linarith
  note ok = month_day_ok [OF assms(1) le md]
  have "d \<le> 28" if "m = 2" "\<not> leap_year (y + 1)"
  proof -
    have "doy \<le> 364" using assms(2) that(2) year_days_cases [of y] by linarith
    moreover have "doy_of 2 d = 336 + d" by (simp add: doy_of_def)
    ultimately show ?thesis using ok(5) that(1) by simp
  qed
  with ok show ?thesis
    by (auto simp: civil_of_def md is_civil_def month_length_long)
qed

lemma civil_day:
  assumes "is_civil (y, m, d)"
  shows "0 \<le> doy_of m d" "doy_of m d < year_days (if m \<le> 2 then y - 1 else y)"
    "civil_of (if m \<le> 2 then y - 1 else y) (doy_of m d) = (y, m, d)"
proof -
  have md: "1 \<le> m" "m \<le> 12" "1 \<le> d" "d \<le> month_length y m" using assms by (simp_all add: is_civil_def)
  have "month_length y m \<le> long_month m"
    by (simp add: month_length_def long_month_eq)
  with md have long: "d \<le> long_month m" by linarith
  note ok = doy_of_ok [OF md(1-3) long]
  show "0 \<le> doy_of m d" by (rule ok)
  show "civil_of (if m \<le> 2 then y - 1 else y) (doy_of m d) = (y, m, d)"
    by (simp add: civil_of_def ok(3))
  show "doy_of m d < year_days (if m \<le> 2 then y - 1 else y)"
  proof (cases "306 \<le> doy_of m d")
    case True
    then have m: "m \<le> 2" using month_by_doy [OF ok(1,2,3)] by simp
    show ?thesis
    proof (cases "leap_year y")
      case True
      with m ok(2) show ?thesis by (simp add: year_days_def)
    next
      case False
      have "doy_of m d < 365"
      proof (cases "m = 2")
        case True
        with md(4) False show ?thesis by (simp add: doy_of_def month_length_def)
      next
        case False
        with m md(1) have "m = 1" by simp
        with long show ?thesis by (simp add: doy_of_def long_month_eq)
      qed
      with m False show ?thesis by (simp add: year_days_def)
    qed
  next
    case False
    then show ?thesis using year_days_cases by smt
  qed
qed

lemma next_month_day:
  assumes "0 \<le> doy" "doy \<le> 364" "month_day doy = (m, d)"
  shows "month_day (doy + 1) =
    (if d < long_month m then (m, d + 1) else if m < 12 then (m + 1, 1) else (1, 1))"
  using month_day_next_table assms by (auto simp: list_all_iff split: prod.splits)

lemma next_day_within:
  assumes "0 \<le> doy" "doy + 1 < year_days y"
  shows "civil_of y (doy + 1) = next_day (civil_of y doy)"
proof -
  obtain m d where md: "month_day doy = (m, d)" by fastforce
  have le: "doy \<le> 364" using assms(2) year_days_cases [of y] by linarith
  have le': "doy \<le> 365" using le by simp
  note ok = month_day_ok [OF assms(1) le' md]
  note nxt = next_month_day [OF assms(1) le md]
  have feb: "doy = 336 + d" if "m = 2" using ok(5) that by (simp add: doy_of_def)
  have short: "d < 28" if "m = 2" "\<not> leap_year (y + 1)"
    using feb [OF that(1)] assms(2) that(2) year_days_cases [of y] by linarith
  have "d < month_length (if m \<le> 2 then y + 1 else y) m \<longleftrightarrow> d < long_month m"
    using short by (auto simp: month_length_def long_month_eq)
  moreover have "d < long_month m" if "m = 2"
    using feb [OF that] le that by (simp add: long_month_eq)
  ultimately show ?thesis
    using ok(1,2) by (cases "m = 2") (auto simp: civil_of_def md nxt next_day_def)
qed

lemma next_day_across:
  assumes "doy + 1 = year_days y"
  shows "civil_of (y + 1) 0 = next_day (civil_of y doy)"
  using year_days_cases [of y]
proof (elim disjE conjE)
  assume y: "year_days y = 366" "leap_year (y + 1)"
  with assms have "doy = 365" by simp
  with y(2) show ?thesis by (simp add: civil_of_def doy_365 next_day_def month_length_def)
next
  assume y: "year_days y = 365" "\<not> leap_year (y + 1)"
  with assms have "doy = 364" by simp
  with y(2) show ?thesis by (simp add: civil_of_def doy_365 next_day_def month_length_def)
qed

lemma day_number_next_year: "day_number y (year_days y) = day_number (y + 1) 0"
proof (cases "y mod 400 = 399")
  case True
  have e: "(y + 1) div 400 = y div 400 + 1" "(y + 1) mod 400 = 0"
    using succ_div_mod(1) [of 400 y] True by simp_all
  have "year_days y = 146097 - year_start 399"
    using year_last_days [of y] True by (simp add: year_last_def)
  then show ?thesis unfolding day_number_def e True by (simp add: year_start_def)
next
  case False
  have e: "(y + 1) div 400 = y div 400" "(y + 1) mod 400 = y mod 400 + 1"
    using succ_div_mod(2) [of 400 y] False by simp_all
  have "year_days y = year_start (y mod 400 + 1) - year_start (y mod 400)"
    using year_last_days [of y] False by (simp add: year_last_def)
  then show ?thesis unfolding day_number_def e by simp
qed

lemma civil_next: "civil_from_days (n + 1) = next_day (civil_from_days n)"
proof -
  obtain y doy where d: "0 \<le> doy" "doy < year_days y" "n = day_number y doy"
    using day_number_exists by blast
  have n: "n + 1 = day_number y (doy + 1)" by (simp add: d(3) day_number_def)
  show ?thesis
  proof (cases "doy + 1 < year_days y")
    case True
    then show ?thesis
      unfolding n unfolding d(3) using d(1,2) by (simp add: civil_of_day next_day_within)
  next
    case False
    with d(2) have e: "doy + 1 = year_days y" by simp
    have "0 < year_days (y + 1)" using year_days_cases [of "y + 1"] by linarith
    then show ?thesis
      unfolding n e day_number_next_year unfolding d(3)
      using d(1,2) e by (simp add: civil_of_day next_day_across)
  qed
qed

lemma civil_epoch: "civil_from_days 0 = (1970, 1, 1)"
  by code_simp

lemma civil_is_civil: "is_civil (civil_from_days n)"
  using day_number_exists [of n] by (auto simp: civil_of_day civil_of_is_civil)


text \<open>A civil date has one number, and the code finds it as long as the machine integers hold it.\<close>

lemma civil_unique:
  assumes "civil_from_days n = civil_from_days k"
  shows "n = k"
proof -
  obtain y doy where n: "0 \<le> doy" "doy < year_days y" "n = day_number y doy"
    using day_number_exists by blast
  obtain z doz where k: "0 \<le> doz" "doz < year_days z" "k = day_number z doz"
    using day_number_exists by blast
  have same: "civil_of y doy = civil_of z doz"
    using assms n k by (simp add: civil_of_day)
  obtain m d where md: "month_day doy = (m, d)" by fastforce
  obtain m' d' where md': "month_day doz = (m', d')" by fastforce
  have le: "doy \<le> 365" "doz \<le> 365"
    using n(2) k(2) year_days_cases [of y] year_days_cases [of z] by linarith+
  have "m = m'" "d = d'" "y = z"
    using same by (auto simp: civil_of_def md md' split: if_splits)
  then have "doy = doz"
    using month_day_ok(5) [OF n(1) le(1) md] month_day_ok(5) [OF k(1) le(2) md'] by simp
  with \<open>y = z\<close> show ?thesis by (simp add: n(3) k(3))
qed

lemma day_number_day:
  "day_number y (doy_of m d) = (y div 400) * 146097 + day_of_era (y mod 400) m d - 719468"
  by (simp add: day_number_def day_of_era_def year_start_def doy_of_def Let_def)

text \<open>In a wide range every step of the computation fits the machine integers.\<close>

lemma fits_between: "- (2 ^ 63) \<le> n \<Longrightarrow> n < 2 ^ 63 \<Longrightarrow> checked n = Some n"
  by (simp add: checked_def fits_i64_def)

lemma days_back:
  assumes "- (2 ^ 62) \<le> n" "n < 2 ^ 62" "civil_from_days n = (y, m, d)"
  shows "days_from_civil y m d = Some n"
proof -
  have c: "is_civil (y, m, d)" using civil_is_civil [of n] assms(3) by simp
  note day = civil_day [OF c]
  define Y where "Y = (if m \<le> 2 then y - 1 else y)"
  have "civil_from_days (day_number Y (doy_of m d)) = civil_from_days n"
    using day by (simp add: civil_of_day assms(3) Y_def)
  then have n: "n = day_number Y (doy_of m d)" by (rule civil_unique [symmetric])
  define e q doe where "e = Y div 400" and "q = Y mod 400" and "doe = day_of_era q m d"
  have Y: "Y = e * 400 + q" "0 \<le> q" "q < 400" by (simp_all add: e_def q_def)
  have n': "n = e * 146097 + doe - 719468" by (simp add: n day_number_day e_def q_def doe_def)
  have "0 \<le> q" "q \<le> 399" using Y by simp_all
  moreover have "list_all (\<lambda>y. 0 \<le> year_start y \<and> year_last y \<le> 146096) [0..399]" by code_simp
  ultimately have "0 \<le> year_start q" "year_last q \<le> 146096" by (simp_all add: list_all_iff)
  moreover have "doe = year_start q + doy_of m d"
    by (simp add: doe_def day_of_era_def year_start_def doy_of_def Let_def)
  moreover have "year_last q = year_start q + year_days Y - 1"
    unfolding q_def by (rule year_last_days)
  ultimately have doe: "0 \<le> doe" "doe \<le> 146096" using day(1,2) by (simp_all add: Y_def)
  have e: "- (2 ^ 46) \<le> e" "e \<le> 2 ^ 46" using n' doe assms(1,2) by simp_all
  have small: "checked (e * 400) = Some (e * 400)" "checked (e * 146097) = Some (e * 146097)"
      "checked (e * 146097 + doe) = Some (e * 146097 + doe)"
      "checked (e * 146097 + doe - 719468) = Some n"
    using e doe assms(1,2) n' by (simp_all add: fits_between)
  have step: "(if m \<le> 2 then checked (y - 1) else Some y) = Some Y"
    "(if 0 \<le> Y then Some Y else checked (Y - 399)) = Some (if 0 \<le> Y then Y else Y - 399)"
    using e Y by (auto simp: Y_def fits_between)
  have off: "Y - e * 400 = q" using Y by simp
  have range: "1 \<le> m" "m \<le> 12" "d \<noteq> 0" "\<not> 31 < d"
    using c by (auto simp: is_civil_def month_length_def split: if_splits)
  show ?thesis
    unfolding days_from_civil_def step opt_then_simps truncating_400 e_def [symmetric] Let_def small off
      doe_def [symmetric] assms(3)
    using range by simp
qed

lemma days_from_civil_SomeD: "days_from_civil y m d = Some n \<Longrightarrow> civil_from_days n = (y, m, d)"
  by (auto simp: days_from_civil_def Let_def split: if_splits)

lemma civil_has_number:
  assumes "0 \<le> y" "y \<le> 9999" and c: "is_civil (y, m, d)"
  shows "\<exists>n. days_from_civil y m d = Some n \<and> - (2 ^ 40) \<le> n \<and> n < 2 ^ 40"
proof -
  note day = civil_day [OF c]
  let ?Y = "if m \<le> 2 then y - 1 else y"
  let ?n = "day_number ?Y (doy_of m d)"
  have civil: "civil_from_days ?n = (y, m, d)" using day by (simp add: civil_of_day)
  have "0 \<le> ?Y mod 400" "?Y mod 400 \<le> 399" using pos_mod_bound [of 400 ?Y] by simp_all
  moreover have "list_all (\<lambda>y. 0 \<le> year_start y \<and> year_start y \<le> 146096) [0..399]" by code_simp
  ultimately have q: "0 \<le> year_start (?Y mod 400)" "year_start (?Y mod 400) \<le> 146096"
    by (auto simp only: list_all_iff set_upto atLeastAtMost_iff)
  have "- 1 \<le> ?Y" "?Y \<le> 9999" using assms by simp_all
  then have "- 1 \<le> ?Y div 400" "?Y div 400 \<le> 24"
    using zdiv_mono1 [of "- 1" ?Y 400] zdiv_mono1 [of ?Y 9999 400] by simp_all
  moreover have "doy_of m d \<le> 365" using day(2) year_days_cases [of ?Y] by linarith
  ultimately have n: "- (2 ^ 40) \<le> ?n" "?n < 2 ^ 40"
    using q day(1) unfolding day_number_def by simp_all
  then have "days_from_civil y m d = Some ?n" by (intro days_back civil) simp_all
  with n show ?thesis by blast
qed

lemma numbered_is_civil: "days_from_civil y m d = Some n \<Longrightarrow> is_civil (y, m, d)"
  using civil_is_civil [of n] by (auto dest: days_from_civil_SomeD)

section \<open>Dates as text\<close>

lemma digits_value_zeros: "digits_value (replicate k 48 @ ds) = digits_value ds"
  by (induction k) (simp_all add: digits_value_def)

lemma padded_nat: "0 \<le> n \<Longrightarrow> padded w n = replicate (w - length (decimal (nat n))) 48 @ decimal (nat n)"
  by (simp add: padded_def Let_def)

lemma padded_digits: "0 \<le> n \<Longrightarrow> list_all is_ascii_digit (padded w n)"
  using decimal_digits [of "nat n"] by (auto simp: padded_nat list_all_iff is_ascii_digit_def)

lemma padded_value: "0 \<le> n \<Longrightarrow> digits_value (padded w n) = n"
  by (simp add: padded_nat digits_value_zeros digits_value_decimal)

lemma padded_not_Nil: "0 \<le> n \<Longrightarrow> padded w n \<noteq> []"
  by (simp add: padded_nat)

lemma digits_no_sign: "list_all is_ascii_digit s \<Longrightarrow> \<not> starts_with s [43] \<and> \<not> starts_with s [45]"
  by (cases s) (auto simp: is_ascii_digit_def starts_with_iff)

lemma digits_no_dash: "list_all is_ascii_digit s \<Longrightarrow> 45 \<notin> set s"
  by (auto simp: is_ascii_digit_def list_all_iff)

lemma digits_value_pos_or_0: "list_all is_ascii_digit s \<Longrightarrow> 0 \<le> digits_value s"
  by (induction s rule: rev_induct) (auto simp: digits_value_snoc is_ascii_digit_def digits_value_def)

lemma parse_i64_digits:
  "s \<noteq> [] \<Longrightarrow> list_all is_ascii_digit s \<Longrightarrow> digits_value s < 2 ^ 63 \<Longrightarrow> parse_i64 s = Some (digits_value s)"
  using digits_no_sign [of s] digits_value_pos_or_0 [of s] by (simp add: parse_i64_def Let_def)

lemma parse_u32_digits:
  "s \<noteq> [] \<Longrightarrow> list_all is_ascii_digit s \<Longrightarrow> digits_value s < 2 ^ 32 \<Longrightarrow>
   parse_u32 s = Some (word_of_int (digits_value s))"
  using digits_no_sign [of s] by (simp add: parse_u32_def Let_def)

lemma split_dash: "45 \<notin> set a \<Longrightarrow> split_once [45] (a @ [45] @ b) = Some (a, b)"
  by (rule split_once_here [where q = "[]" and r = "[]"]) simp_all

lemma day_start_parts:
  assumes "list_all is_ascii_digit a" "list_all is_ascii_digit b" "list_all is_ascii_digit c"
    and "a \<noteq> []" "b \<noteq> []" "c \<noteq> []"
    and "digits_value a < 2 ^ 63" "digits_value b < 2 ^ 32" "digits_value c < 2 ^ 32"
  shows "day_start (a @ [45] @ b @ [45] @ c) =
    opt_then (days_from_civil (digits_value a) (digits_value b) (digits_value c)) (\<lambda>n. checked (n * DAY))"
proof -
  have "uint (word_of_int (digits_value x) :: u32) = digits_value x"
    if "list_all is_ascii_digit x" "digits_value x < 2 ^ 32" for x
    using digits_value_pos_or_0 [OF that(1)] that(2) by (simp add: uint_word_of_int)
  then show ?thesis
    unfolding day_start_def
    using assms by (simp add: split_dash [simplified] digits_no_dash parse_i64_digits parse_u32_digits)
qed

lemma is_civil_small: "is_civil (y, m, d) \<Longrightarrow> 0 < m \<and> m < 13 \<and> 0 < d \<and> d < 32"
  by (auto simp: is_civil_def month_length_def split: if_splits)

lemma day_start_printed:
  assumes "0 \<le> y" "y < 2 ^ 63" "is_civil (y, m, d)"
  shows "day_start (padded 4 y @ [45] @ padded 2 m @ [45] @ padded 2 d) =
    opt_then (days_from_civil y m d) (\<lambda>n. checked (n * DAY))"
  using assms is_civil_small [OF assms(3)]
    day_start_parts [of "padded 4 y" "padded 2 m" "padded 2 d"]
  by (simp add: padded_digits padded_value padded_not_Nil)

text \<open>The first day of the year zero.\<close>

lemma year_nonneg: "0 \<le> fst (civil_from_days n) \<longleftrightarrow> - 719528 \<le> n"
proof -
  obtain y doy where d: "0 \<le> doy" "doy < year_days y" "n = day_number y doy"
    using day_number_exists by blast
  obtain m dd where md: "month_day doy = (m, dd)" by fastforce
  have le: "doy \<le> 365" using d(2) year_days_cases [of y] by linarith
  note m = month_by_doy [OF d(1) le md]
  define e q where "e = y div 400" and "q = y mod 400"
  have y: "y = e * 400 + q" "0 \<le> q" "q \<le> 399"
    using pos_mod_bound [of 400 y] by (simp_all add: e_def q_def)
  have n: "n = e * 146097 + year_start q + doy - 719468" by (simp add: d(3) day_number_def e_def q_def)
  have last: "year_start q + doy \<le> year_last q"
    using year_last_days [of y] d(2) by (simp add: q_def)
  have "list_all (\<lambda>y. 0 \<le> year_start y \<and> year_last y \<le> 146096 \<and> (y = 399 \<or> year_last y \<le> 145730)) [0..399]"
    by code_simp
  with y(2,3) have q: "0 \<le> year_start q" "year_last q \<le> 146096" "q = 399 \<or> year_last q \<le> 145730"
    by (auto simp only: list_all_iff set_upto atLeastAtMost_iff)
  have civil: "fst (civil_from_days n) = (if 306 \<le> doy then y + 1 else y)"
    using d m by (simp add: civil_of_day civil_of_def md)
  consider "0 \<le> e" | "e = - 1" "q = 399" | "e = - 1" "q < 399" | "e \<le> - 2" using y(3) by linarith
  then show ?thesis
  proof cases
    case 1
    with n q d(1) have "- 719468 \<le> n" by simp
    with 1 y(1,2) show ?thesis unfolding civil by simp
  next
    case 2
    have "year_start 399 = 145731" by (simp add: year_start_def)
    with 2 n have "n = doy - 719834" by simp
    with 2 y(1) show ?thesis unfolding civil by simp
  next
    case 3
    with n q last have "n < - 719528" by simp
    with 3 y(1,2) show ?thesis unfolding civil by simp
  next
    case 4
    with n q last have "n < - 719528" by simp
    with 4 y(1,3) show ?thesis unfolding civil by simp
  qed
qed

lemma year_small:
  assumes "- (2 ^ 62) \<le> n" "n < 2 ^ 62"
  shows "fst (civil_from_days n) < 2 ^ 63"
proof -
  obtain y doy where d: "0 \<le> doy" "doy < year_days y" "n = day_number y doy"
    using day_number_exists by blast
  define e q where "e = y div 400" and "q = y mod 400"
  have y: "y = e * 400 + q" "0 \<le> q" "q \<le> 399"
    using pos_mod_bound [of 400 y] by (simp_all add: e_def q_def)
  have "list_all (\<lambda>y. 0 \<le> year_start y) [0..399]" by code_simp
  with y(2,3) have "0 \<le> year_start q" by (simp add: list_all_iff)
  then have "e * 146097 \<le> n + 719468" using d(1,3) by (simp add: day_number_def e_def q_def)
  then have "y + 1 < 2 ^ 63" using y assms(2) by simp
  then show ?thesis using d by (simp add: civil_of_day civil_of_def split: prod.split)
qed

lemma padded_negative: "n < 0 \<Longrightarrow> \<exists>ds. padded w n = 45 # ds"
  by (simp add: padded_def Let_def)

lemma day_start_of_date:
  assumes "fits_i64 t"
  shows "day_start (utc_date t) = (if - 62167219200 \<le> t then Some (t div DAY * DAY) else None)"
proof -
  define n where "n = t div DAY"
  obtain y m d where c: "civil_from_days n = (y, m, d)" using prod_cases3 by blast
  have civil: "is_civil (y, m, d)" using civil_is_civil [of n] c by simp
  have n: "- (2 ^ 62) \<le> n" "n < 2 ^ 62" and within: "n * DAY \<le> t" "t < n * DAY + DAY"
    using assms by (auto simp: n_def DAY_def fits_i64_def) (presburger+)?
  have date: "utc_date t = padded 4 y @ [45] @ padded 2 m @ [45] @ padded 2 d"
    by (simp add: utc_date_def n_def [symmetric] c)
  have zero: "0 \<le> y \<longleftrightarrow> - 719528 \<le> n" using year_nonneg [of n] c by simp
  show ?thesis
  proof (cases "0 \<le> y")
    case True
    with zero have "- 719528 \<le> n" by simp
    then have t: "- 62167219200 \<le> t" "fits_i64 (n * DAY)"
      using within assms by (auto simp: DAY_def fits_i64_def)
    have "y < 2 ^ 63" using year_small [OF n] c by simp
    then show ?thesis
      using True t days_back [OF n c] unfolding date
      by (simp add: day_start_printed [OF _ _ civil, simplified] checked_def n_def)
  next
    case False
    then obtain ds where ds: "padded 4 y = 45 # ds" using padded_negative by force
    have "split_once [45] (45 # r) = Some ([], r)" for r
      using split_dash [of "[]" r] by simp
    moreover have "parse_i64 [] = None" by (simp add: parse_i64_def Let_def starts_with_iff)
    ultimately have "day_start (utc_date t) = None"
      unfolding date ds by (simp add: day_start_def opt_then_def split: option.split)
    moreover have "t < - 62167219200" using False zero within by (auto simp: DAY_def)
    ultimately show ?thesis by simp
  qed
qed

lemma decimal_snoc:
  assumes "0 < v" "0 \<le> k" "k < 10"
  shows "decimal (nat (10 * v + k)) = decimal (nat v) @ [48 + k]"
proof -
  have "nat (10 * v + k) = 10 * nat v + nat k" using assms by (simp add: nat_add_distrib nat_mult_distrib)
  moreover have "\<not> 10 * nat v + nat k < 10" "(10 * nat v + nat k) div 10 = nat v"
    "int ((10 * nat v + nat k) mod 10) = k"
    using assms by auto
  ultimately show ?thesis by (subst decimal.simps) simp
qed

lemma padded_snoc:
  assumes "0 < w" "0 \<le> v" "0 \<le> k" "k < 10"
  shows "padded (Suc w) (10 * v + k) = padded w v @ [48 + k]"
proof (cases "v = 0")
  case True
  have one: "decimal (nat k) = [48 + k]" if "0 \<le> k" "k < 10" for k
    using that by (subst decimal.simps) simp
  have "replicate w x = replicate (w - 1) x @ [x]" for x :: uchar
    using assms(1) by (cases w) (simp_all add: replicate_append_same)
  then show ?thesis using True assms one [of k] one [of 0] by (simp add: padded_nat)
next
  case False
  with assms have v: "0 < v" by simp
  have "0 \<le> 10 * v + k" using v assms by simp
  then show ?thesis using v assms by (simp add: padded_nat decimal_snoc)
qed

lemma padded_digits_value:
  "list_all is_ascii_digit s \<Longrightarrow> s \<noteq> [] \<Longrightarrow> padded (length s) (digits_value s) = s"
proof (induction s rule: rev_induct)
  case (snoc c s)
  have c: "0 \<le> c - 48" "c - 48 < 10" using snoc.prems by (simp_all add: is_ascii_digit_def)
  show ?case
  proof (cases "s = []")
    case True
    have "decimal (nat (c - 48)) = [c]" using c by (subst decimal.simps) simp
    then show ?thesis using True c by (simp add: padded_nat digits_value_def)
  next
    case False
    then have "0 < length s" by simp
    moreover have "0 \<le> digits_value s" using snoc.prems by (simp add: digits_value_pos_or_0)
    ultimately show ?thesis
      using snoc False c by (simp add: digits_value_snoc padded_snoc)
  qed
qed simp

lemma digits_value_less:
  "list_all is_ascii_digit s \<Longrightarrow> digits_value s < 10 ^ length s"
proof (induction s rule: rev_induct)
  case (snoc c s)
  then have "digits_value s + 1 \<le> 10 ^ length s" "c - 48 < 10" by (simp_all add: is_ascii_digit_def)
  then show ?case by (simp add: digits_value_snoc)
qed (simp add: digits_value_def)

lemma length_decimal: "0 < w \<Longrightarrow> n < 10 ^ w \<Longrightarrow> length (decimal n) \<le> w"
proof (induction w arbitrary: n)
  case (Suc w)
  show ?case
  proof (cases "n < 10")
    case False
    with Suc.prems have "0 < w" by (cases w) auto
    moreover have "n div 10 < 10 ^ w" using Suc.prems by (simp add: less_mult_imp_div_less mult.commute)
    ultimately have "length (decimal (n div 10)) \<le> w" by (rule Suc.IH)
    with False show ?thesis by (subst decimal.simps) simp
  qed (subst decimal.simps, simp)
qed simp

lemma length_padded:
  assumes "0 < w" "0 \<le> n" "n < 10 ^ w"
  shows "length (padded w n) = w"
proof -
  have "nat n < 10 ^ w" using assms by (simp add: nat_less_iff)
  then have "length (decimal (nat n)) \<le> w" using assms(1) by (intro length_decimal)
  with assms(2) show ?thesis by (simp add: padded_nat)
qed

subsection \<open>The dates a request may name\<close>

text \<open>Characters are Unicode scalar values.\<close>

definition is_text :: "ustr \<Rightarrow> bool" where
  "is_text s \<longleftrightarrow> list_all (\<lambda>c. 0 \<le> c \<and> c < 1114112) s"

definition is_ascii :: "ustr \<Rightarrow> bool" where
  "is_ascii s \<longleftrightarrow> list_all (\<lambda>c. 0 \<le> c \<and> c < 128) s"

lemma as_bytes_ascii: "is_ascii s \<Longrightarrow> as_bytes s = map word_of_int s"
  by (induction s) (simp_all add: as_bytes_def is_ascii_def utf8_char_def)

lemma utf8_first:
  assumes "0 \<le> c" "c < 1114112" "128 \<le> c"
  shows "\<exists>b bs. utf8_char c = b # bs \<and> 128 \<le> b \<and> b < 256"
proof -
  have "c div 64 < 32" if "c < 2048" using that by simp
  moreover have "c div 4096 < 16" if "c < 65536" using that by simp
  moreover have "c div 262144 < 5" using assms(2) by simp
  moreover have "0 \<le> c div 64" "0 \<le> c div 4096" "0 \<le> c div 262144"
    using assms(1) by (simp_all add: pos_imp_zdiv_nonneg_iff)
  ultimately show ?thesis using assms(3) by (auto simp: utf8_char_def)
qed

lemma ascii_bytes:
  assumes "is_text s" "\<forall>b\<in>set (as_bytes s). b < 128"
  shows "is_ascii s"
proof -
  have "c < 128" if c: "c \<in> set s" for c
  proof (rule ccontr)
    assume "\<not> c < 128"
    moreover have "0 \<le> c" "c < 1114112" using assms(1) c by (auto simp: is_text_def list_all_iff)
    ultimately obtain b bs where b: "utf8_char c = b # bs" "128 \<le> b" "b < 256"
      using utf8_first [of c] by auto
    then have "(word_of_int b :: u8) \<in> set (as_bytes s)"
      using c b(1) unfolding as_bytes_def set_map set_concat by (intro imageI) force
    with assms(2) have "(word_of_int b :: u8) < 128" by blast
    with b show False by (simp add: word_less_alt uint_word_of_int)
  qed
  with assms(1) show ?thesis by (auto simp: is_ascii_def is_text_def list_all_iff)
qed

lemma byte_digit: "0 \<le> c \<Longrightarrow> c < 128 \<Longrightarrow> (48 \<le> (word_of_int c :: u8) \<and> word_of_int c \<le> (57 :: u8)) = is_ascii_digit c"
  by (simp add: word_le_def uint_word_of_int is_ascii_digit_def)

lemma byte_dash: "0 \<le> c \<Longrightarrow> c < 128 \<Longrightarrow> (word_of_int c = (45 :: u8)) = (c = 45)"
  by (simp add: word_uint_eq_iff uint_word_of_int)

lemma valid_bytes:
  "is_valid_date s \<longleftrightarrow>
     length (as_bytes s) = 10 \<and>
     (\<forall>i<10. if i = 4 \<or> i = 7 then as_bytes s ! i = 45 else 48 \<le> as_bytes s ! i \<and> as_bytes s ! i \<le> 57) \<and>
     day_start s \<noteq> None"
proof -
  have "list_all (\<lambda>(i, b). i = 4 \<or> i = 7 \<or> P b) (enumerate 0 bs) \<longleftrightarrow>
      (\<forall>i<length bs. i = 4 \<or> i = 7 \<or> P (bs ! i))" for P and bs :: "u8 list"
    by (simp add: list_all_length nth_enumerate_eq)
  then show ?thesis
    unfolding is_valid_date_def Let_def by (auto split: if_splits)
qed

lemma date_shape:
  assumes "length s = 10" "s ! 4 = (45 :: uchar)" "s ! 7 = 45"
    and "\<And>i. i < 10 \<Longrightarrow> i \<noteq> 4 \<Longrightarrow> i \<noteq> 7 \<Longrightarrow> is_ascii_digit (s ! i)"
  obtains a b c where "s = a @ [45] @ b @ [45] @ c" "length a = 4" "length b = 2" "length c = 2"
    "list_all is_ascii_digit a" "list_all is_ascii_digit b" "list_all is_ascii_digit c"
proof
  show "s = take 4 s @ [45] @ take 2 (drop 5 s) @ [45] @ drop 8 s"
  proof (rule nth_equalityI)
    fix i assume "i < length s"
    then have "i \<in> {0, 1, 2, 3, 4, 5, 6, 7, 8, 9}" using assms(1) by auto
    with assms(1-3) show "s ! i = (take 4 s @ [45] @ take 2 (drop 5 s) @ [45] @ drop 8 s) ! i"
      by (auto simp: nth_append)
  qed (use assms(1) in simp)
qed (use assms(1,4) in \<open>auto simp: list_all_length\<close>)

lemma printed_bytes:
  assumes "list_all is_ascii_digit a" "list_all is_ascii_digit b" "list_all is_ascii_digit c"
    and "length a = 4" "length b = 2" "length c = 2" "i < 10"
  shows "if i = 4 \<or> i = 7 then (a @ [45] @ b @ [45] @ c) ! i = 45
         else is_ascii_digit ((a @ [45] @ b @ [45] @ c) ! i)"
proof -
  have "i \<in> {0, 1, 2, 3, 4, 5, 6, 7, 8, 9}" using assms(7) by auto
  with assms show ?thesis by (auto simp: nth_append list_all_length)
qed

lemma valid_date_iff:
  assumes "is_text s"
  shows "is_valid_date s \<longleftrightarrow>
    (\<exists>y m d. 0 \<le> y \<and> y \<le> 9999 \<and> is_civil (y, m, d) \<and>
       s = padded 4 y @ [45] @ padded 2 m @ [45] @ padded 2 d)"
proof
  assume v: "is_valid_date s"
  let ?b = "as_bytes s"
  have len: "length ?b = 10"
    and at: "\<And>i. i < 10 \<Longrightarrow> if i = 4 \<or> i = 7 then ?b ! i = 45 else 48 \<le> ?b ! i \<and> ?b ! i \<le> 57"
    and start: "day_start s \<noteq> None"
    using v by (simp_all add: valid_bytes)
  have "b < 128" if b: "b \<in> set ?b" for b
  proof -
    obtain i where i: "i < length ?b" "?b ! i = b" using b unfolding in_set_conv_nth by blast
    have "?b ! i \<le> 57" using at [of i] i(1) len by (auto split: if_splits)
    then have "b \<le> 57" unfolding i(2) .
    then show ?thesis by (rule le_less_trans) simp
  qed
  then have ascii: "is_ascii s" by (intro ascii_bytes assms) blast
  then have bytes: "?b = map word_of_int s" by (rule as_bytes_ascii)
  have s: "length s = 10" using len bytes by simp
  have chars: "0 \<le> s ! i" "s ! i < 128" if "i < 10" for i
    using ascii that s by (simp_all add: is_ascii_def list_all_length)
  have nth: "?b ! i = word_of_int (s ! i)" if "i < 10" for i using that s by (simp add: bytes)
  have "s ! 4 = 45" "s ! 7 = 45"
    using at [of 4] at [of 7] chars [of 4] chars [of 7] by (simp_all add: nth byte_dash)
  moreover have "is_ascii_digit (s ! i)" if "i < 10" "i \<noteq> 4" "i \<noteq> 7" for i
    using at [OF that(1)] that chars [OF that(1)] by (simp add: nth byte_digit)
  ultimately obtain a b c where abc: "s = a @ [45] @ b @ [45] @ c" "length a = 4" "length b = 2" "length c = 2"
    "list_all is_ascii_digit a" "list_all is_ascii_digit b" "list_all is_ascii_digit c"
    using date_shape s by metis
  have less: "digits_value a < 10000" "digits_value b < 100" "digits_value c < 100"
    using digits_value_less [OF abc(5)] digits_value_less [OF abc(6)] digits_value_less [OF abc(7)] abc(2-4)
    by simp_all
  have parts: "day_start s =
    opt_then (days_from_civil (digits_value a) (digits_value b) (digits_value c)) (\<lambda>n. checked (n * DAY))"
    unfolding abc(1) using abc less by (intro day_start_parts) auto
  with start have "is_civil (digits_value a, digits_value b, digits_value c)"
    by (auto simp: opt_then_def numbered_is_civil split: option.splits)
  moreover have "padded 4 (digits_value a) = a" "padded 2 (digits_value b) = b" "padded 2 (digits_value c) = c"
    using padded_digits_value [OF abc(5)] padded_digits_value [OF abc(6)] padded_digits_value [OF abc(7)] abc(2-4)
    by force+
  ultimately show "\<exists>y m d. 0 \<le> y \<and> y \<le> 9999 \<and> is_civil (y, m, d) \<and>
       s = padded 4 y @ [45] @ padded 2 m @ [45] @ padded 2 d"
    using less digits_value_pos_or_0 [OF abc(5)] abc(1)
    by (intro exI [of _ "digits_value a"] exI [of _ "digits_value b"] exI [of _ "digits_value c"]) simp
next
  assume "\<exists>y m d. 0 \<le> y \<and> y \<le> 9999 \<and> is_civil (y, m, d) \<and>
       s = padded 4 y @ [45] @ padded 2 m @ [45] @ padded 2 d"
  then obtain y m d where y: "0 \<le> y" "y \<le> 9999" and c: "is_civil (y, m, d)"
    and s: "s = padded 4 y @ [45] @ padded 2 m @ [45] @ padded 2 d" by blast
  have md: "0 \<le> m" "m < 100" "0 \<le> d" "d < 100" using is_civil_small [OF c] by simp_all
  have len: "length (padded 4 y) = 4" "length (padded 2 m) = 2" "length (padded 2 d) = 2"
    using y md by (simp_all add: length_padded)
  have digits: "list_all is_ascii_digit (padded 4 y)" "list_all is_ascii_digit (padded 2 m)"
    "list_all is_ascii_digit (padded 2 d)"
    using y md by (simp_all add: padded_digits)
  have ascii: "is_ascii s"
    using digits unfolding s is_ascii_def by (auto simp: list_all_iff is_ascii_digit_def)
  have bytes: "as_bytes s = map word_of_int s" using ascii by (rule as_bytes_ascii)
  have ten: "length s = 10" using len by (simp add: s)
  have chars: "0 \<le> s ! i" "s ! i < 128" if "i < 10" for i
    using ascii that ten by (simp_all add: is_ascii_def list_all_length)
  have "if i = 4 \<or> i = 7 then as_bytes s ! i = 45 else 48 \<le> as_bytes s ! i \<and> as_bytes s ! i \<le> 57" if "i < 10" for i
    using printed_bytes [OF digits len that, folded s] chars [OF that] that ten
    by (auto simp: bytes byte_digit byte_dash split: if_splits)
  moreover obtain n where n: "days_from_civil y m d = Some n" "- (2 ^ 40) \<le> n" "n < 2 ^ 40"
    using civil_has_number [OF y c] by blast
  have "day_start s = checked (n * DAY)"
    using day_start_printed [OF y(1) _ c] y(2) n(1) unfolding s by simp
  then have "day_start s \<noteq> None" using n(2,3) by (simp add: checked_def fits_i64_def DAY_def)
  moreover have "length (as_bytes s) = 10" using ten by (simp add: bytes)
  ultimately show "is_valid_date s" unfolding valid_bytes by blast
qed

section \<open>Properties\<close>

text \<open>C34: The calendar is the Gregorian calendar.  Day 0 is the first of January 1970, and the day after
  any day is the following date of the civil calendar, for every integer.\<close>

theorem calendar_is_gregorian:
  "civil_from_days 0 = (1970, 1, 1) \<and>
   civil_from_days (n + 1) = next_day (civil_from_days n) \<and>
   is_civil (civil_from_days n)"
  using civil_epoch civil_next civil_is_civil by blast

text \<open>A date read back is its midnight.  For every time stamp the date printed for it and read back
  gives the start of its day, when the year is not negative, and is refused otherwise; no
  computation overflows.\<close>

theorem printed_date_reads_back:
  "day_start (utc_date (sint (w :: 64 word))) =
     (if - 62167219200 \<le> sint w then Some (sint w - sint w mod DAY) else None)"
proof -
  have "fits_i64 (sint w)"
    using sint_ge [of w] sint_lt [of w] by (simp add: fits_i64_def)
  then show ?thesis by (simp add: day_start_of_date minus_mod_eq_div_mult)
qed

text \<open>A request names a date or nothing.  Of all texts, \<open>is_valid_date\<close> accepts exactly the dates of the
  calendar from year 0 to 9999, printed with leading zeros; so the file name made of an accepted
  one holds digits and two dashes, and no separator.\<close>

theorem accepted_dates_are_the_calendars:
  assumes "is_text s"
  shows "is_valid_date s \<longleftrightarrow>
    (\<exists>y m d. 0 \<le> y \<and> y \<le> 9999 \<and> is_civil (y, m, d) \<and>
       s = padded 4 y @ [45] @ padded 2 m @ [45] @ padded 2 d)"
  using assms by (rule valid_date_iff)

theorem accepted_dates_are_the_calendars_witness:
  "\<not> is_valid_date (lit ''2026-02-29'') \<and> \<not> is_valid_date (lit ''..'') \<and>
   is_valid_date (lit ''2024-02-29'')"
proof -
  have t: "is_text (lit ''2026-02-29'')" "is_text (lit ''..'')" "is_text (lit ''2024-02-29'')" by code_simp+
  note iff = accepted_dates_are_the_calendars [OF t(3)]
  have "is_civil (2024, 2, 29) \<and>
      lit ''2024-02-29'' = padded 4 2024 @ [45] @ padded 2 2 @ [45] @ padded 2 29" by code_simp
  then have "is_valid_date (lit ''2024-02-29'')" unfolding iff by (intro exI conjI) simp_all
  moreover have "\<not> is_valid_date (lit ''2026-02-29'')" "\<not> is_valid_date (lit ''..'')" by code_simp+
  ultimately show ?thesis by blast
qed

end
