(* ===== verification/Agent_Environment.thy ===== *)
theory Agent_Environment
  imports Rust_Text
begin

text \<open>
  The environment an agent process starts with (\<open>src-tauri/src/pty/agent_env.rs\<close> and the policy of a
  profile in \<open>profiles.rs\<close>).  The command under construction is the sequence of calls made to it; what
  the calls mean for a variable is stated for names compared exactly and without regard to case.
\<close>

section \<open>The policy\<close>

datatype env_isolation = Env_Inherit | Env_Allowlist | Env_Strict

primrec env_text :: "env_isolation \<Rightarrow> ustr" where
  "env_text Env_Inherit = lit ''inherit''"
| "env_text Env_Allowlist = lit ''allowlist''"
| "env_text Env_Strict = lit ''strict''"

definition parse_env :: "ustr \<Rightarrow> env_isolation option" where
  "parse_env s = find (\<lambda>e. env_text e = s) [Env_Inherit, Env_Allowlist, Env_Strict]"

record env_policy =
  isolation :: env_isolation
  passthrough :: "ustr list"

definition ALLOWED :: "ustr list" where
  "ALLOWED = map lit
     [''PATH'', ''PATHEXT'', ''SYSTEMROOT'', ''SYSTEMDRIVE'', ''WINDIR'', ''COMSPEC'', ''OS'',
      ''NUMBER_OF_PROCESSORS'', ''PROCESSOR_ARCHITECTURE'', ''PROCESSOR_IDENTIFIER'', ''PROCESSOR_LEVEL'',
      ''PROCESSOR_REVISION'', ''PROGRAMFILES'', ''PROGRAMFILES(X86)'', ''PROGRAMW6432'',
      ''COMMONPROGRAMFILES'', ''COMMONPROGRAMFILES(X86)'', ''COMMONPROGRAMW6432'', ''PROGRAMDATA'',
      ''ALLUSERSPROFILE'', ''PUBLIC'', ''COMPUTERNAME'', ''USERNAME'', ''USERDOMAIN'',
      ''USERDOMAIN_ROAMINGPROFILE'', ''LOGONSERVER'', ''PSMODULEPATH'', ''HOME'', ''USERPROFILE'',
      ''HOMEDRIVE'', ''HOMEPATH'', ''APPDATA'', ''LOCALAPPDATA'', ''TEMP'', ''TMP'', ''TMPDIR'', ''USER'',
      ''LOGNAME'', ''SHELL'', ''LANG'', ''LANGUAGE'', ''TZ'', ''COLORTERM'', ''FORCE_COLOR'', ''NO_COLOR'',
      ''GIT_AUTHOR_NAME'', ''GIT_AUTHOR_EMAIL'', ''GIT_COMMITTER_NAME'', ''GIT_COMMITTER_EMAIL'',
      ''EDITOR'', ''VISUAL'', ''GIT_EDITOR'', ''HTTP_PROXY'', ''HTTPS_PROXY'', ''NO_PROXY'', ''ALL_PROXY'',
      ''SSL_CERT_FILE'', ''SSL_CERT_DIR'', ''REQUESTS_CA_BUNDLE'', ''CURL_CA_BUNDLE'', ''BUN_INSTALL'',
      ''PYTHONUTF8'', ''PYTHONIOENCODING'', ''CLAUDE_CODE_GIT_BASH_PATH'', ''CLAUDE_CONFIG_DIR'',
      ''API_TIMEOUT_MS'', ''MCP_TIMEOUT'', ''MCP_TOOL_TIMEOUT'', ''DISABLE_AUTOUPDATER'']"

definition ALLOWED_PREFIXES :: "ustr list" where
  "ALLOWED_PREFIXES = map lit
     [''LC_'', ''XDG_'', ''CARGO_'', ''RUSTUP_'', ''RUSTC_'', ''RUST_'', ''SCCACHE_'', ''NODE_'',
      ''NPM_CONFIG_'', ''COREPACK_'', ''VOLTA_'', ''NVM_'', ''FNM_'', ''ANTHROPIC_'', ''OPENAI_'',
      ''CODEX_'', ''KIMI_'', ''MOONSHOT_'', ''OPENCODE_'', ''OLLAMA_'', ''CLAUDE_FLOW_'', ''RUFLO_'',
      ''PROJECTA_'']"

definition STRICT_REMOVED :: "ustr list" where
  "STRICT_REMOVED = map lit
     [''GH_TOKEN'', ''GITHUB_TOKEN'', ''GH_ENTERPRISE_TOKEN'', ''GITHUB_ENTERPRISE_TOKEN'',
      ''SSH_AUTH_SOCK'', ''SSH_ASKPASS'', ''GIT_SSH'', ''GIT_SSH_COMMAND'', ''GIT_CONFIG_PARAMETERS'',
      ''GIT_CONFIG_GLOBAL'', ''GIT_CONFIG_SYSTEM'', ''GIT_PROXY_COMMAND'', ''GIT_SSL_NO_VERIFY'']"

definition STRICT_GIT_CONFIG :: "(ustr \<times> ustr) list" where
  "STRICT_GIT_CONFIG =
     [(lit ''credential.helper'', []), (lit ''http.extraHeader'', []), (lit ''protocol.ssh.allow'', lit ''never'')]"

definition env_upper :: "ustr \<Rightarrow> ustr" where
  "env_upper s = map (\<lambda>c. if 97 \<le> c \<and> c \<le> 122 then c - 32 else c) s"

definition is_allowed :: "ustr \<Rightarrow> bool" where
  "is_allowed upper \<longleftrightarrow> upper \<in> set ALLOWED \<or> list_ex (\<lambda>p. starts_with upper p) ALLOWED_PREFIXES"

definition names_secret :: "ustr \<Rightarrow> bool" where
  "names_secret upper \<longleftrightarrow>
     list_ex (\<lambda>marker. str_contains upper (lit marker))
       [''TOKEN'', ''SECRET'', ''PASSWORD'', ''PASSWD'', ''PASSPHRASE'', ''CREDENTIAL'', ''KEY'', ''COOKIE'',
        ''PRIVATE'', ''BEARER''] \<or>
     ends_with upper (lit ''_PAT'') \<or> ends_with upper (lit ''_AUTH'')"

section \<open>The calls\<close>

datatype env_call = Env_Clear | Env ustr ustr | Env_Remove ustr

text \<open>Removing the file \<open>hosts.yml\<close>: gone, not there, or an error with its text.\<close>

datatype removal = Removed | Not_Found | Not_Removed ustr

definition git_config :: "env_call list" where
  "git_config =
     concat (map (\<lambda>(index, key, value).
       [Env (lit ''GIT_CONFIG_KEY_'' @ decimal index) key, Env (lit ''GIT_CONFIG_VALUE_'' @ decimal index) value])
       (enumerate 0 STRICT_GIT_CONFIG))"

definition git_parameters :: ustr where
  "git_parameters = join [32] (map (\<lambda>(key, value). [39] @ key @ [61] @ value @ [39]) STRICT_GIT_CONFIG)"

definition lock_credentials :: "(ustr \<Rightarrow> removal) \<Rightarrow> (ustr \<Rightarrow> ustr) \<Rightarrow> ustr \<Rightarrow> env_call list \<times> (ustr + unit)" where
  "lock_credentials remove hosts dir =
     (let removed = map Env_Remove STRICT_REMOVED;
          locked = [Env (lit ''GH_CONFIG_DIR'') dir, Env (lit ''GH_PROMPT_DISABLED'') (lit ''1''),
            Env (lit ''GIT_TERMINAL_PROMPT'') (lit ''0''), Env (lit ''GIT_ASKPASS'') [],
            Env (lit ''GCM_INTERACTIVE'') (lit ''never''),
            Env (lit ''GIT_CONFIG_COUNT'') (decimal (length STRICT_GIT_CONFIG))] @
            git_config @ [Env (lit ''GIT_CONFIG_PARAMETERS'') git_parameters]
      in case remove (hosts dir) of
           Not_Removed e \<Rightarrow> (removed, Err (lit ''refusing to start the agent: cannot clear '' @ hosts dir @ lit '': '' @ e))
         | _ \<Rightarrow> (removed @ locked, Ok ()))"

definition keeps :: "env_policy \<Rightarrow> ustr \<Rightarrow> bool" where
  "keeps policy key \<longleftrightarrow>
     list_ex (\<lambda>name. eq_ignore_ascii_case name key) (passthrough policy) \<or>
     (is_allowed (env_upper key) \<and> \<not> names_secret (env_upper key))"

definition apply_env ::
  "(ustr \<Rightarrow> removal) \<Rightarrow> (ustr \<Rightarrow> ustr) \<Rightarrow> (ustr \<times> ustr) list \<Rightarrow> env_policy \<Rightarrow> (ustr \<times> ustr) list \<Rightarrow> ustr option \<Rightarrow>
   env_call list \<times> (ustr + unit)" where
  "apply_env remove hosts inherited policy explicit gh_config_dir =
     (let refill =
        (if isolation policy \<noteq> Env_Inherit
         then Env_Clear # map (\<lambda>(k, v). Env k v) (filter (\<lambda>(k, v). keeps policy k) inherited) else []);
          calls = refill @ [Env (lit ''TERM'') (lit ''xterm-256color'')] @ map (\<lambda>(k, v). Env k v) explicit in
      if isolation policy = Env_Strict then
        (case gh_config_dir of
           None \<Rightarrow> (calls, Err (lit ''refusing to start the agent: no app-owned directory for its gh config''))
         | Some dir \<Rightarrow> apfst ((@) calls) (lock_credentials remove hosts dir))
      else (calls, Ok ()))"

section \<open>What the agent sees\<close>

text \<open>The value of a variable after the calls, from its value before them, for a comparison of names.\<close>

definition value_after :: "(ustr \<Rightarrow> ustr \<Rightarrow> bool) \<Rightarrow> ustr \<Rightarrow> ustr option \<Rightarrow> env_call list \<Rightarrow> ustr option" where
  "value_after same n start calls =
     foldl (\<lambda>v c. case c of
         Env_Clear \<Rightarrow> None
       | Env k x \<Rightarrow> if same k n then Some x else v
       | Env_Remove k \<Rightarrow> if same k n then None else v) start calls"

lemma value_after_simps [simp]:
  "value_after same n start [] = start"
  "value_after same n start (Env_Clear # cs) = value_after same n None cs"
  "value_after same n start (Env k x # cs) = value_after same n (if same k n then Some x else start) cs"
  "value_after same n start (Env_Remove k # cs) = value_after same n (if same k n then None else start) cs"
  "value_after same n start (cs @ ds) = value_after same n (value_after same n start cs) ds"
  by (simp_all add: value_after_def)

text \<open>Where a variable of the agent comes from.\<close>

definition sanctioned :: "(ustr \<times> ustr) list \<Rightarrow> env_policy \<Rightarrow> (ustr \<times> ustr) list \<Rightarrow> env_call \<Rightarrow> bool" where
  "sanctioned inherited policy explicit c =
     (case c of
        Env k v \<Rightarrow> k = lit ''TERM'' \<or> (k, v) \<in> set explicit \<or> ((k, v) \<in> set inherited \<and> keeps policy k)
      | _ \<Rightarrow> False)"

text \<open>
  Nothing is inherited by accident.  Unless the policy says \<open>inherit\<close>, the command is emptied first, and what
  is then set is \<open>TERM\<close>, a variable the application or the profile sets, or an inherited one that the
  profile names or that is on the list and does not look like a secret; under \<open>strict\<close> the lock
  follows, and without a directory for it the agent does not start.
\<close>

theorem nothing_is_inherited_by_accident:
  "case apply_env remove hosts inherited policy explicit dir of (calls, r) \<Rightarrow>
     (if isolation policy = Env_Inherit then True
      else
        (case calls of
           [] \<Rightarrow> False
         | c # cs \<Rightarrow>
             c = Env_Clear \<and>
             (let ours = length (filter (\<lambda>(k, v). keeps policy k) inherited) + 1 + length explicit;
                  lock = (if isolation policy = Env_Strict
                    then (case dir of None \<Rightarrow> [] | Some d \<Rightarrow> fst (lock_credentials remove hosts d)) else []) in
              list_all (sanctioned inherited policy explicit) (take ours cs) \<and> drop ours cs = lock \<and>
              is_ok r = (isolation policy \<noteq> Env_Strict \<or>
                (case dir of None \<Rightarrow> False | Some d \<Rightarrow> is_ok (snd (lock_credentials remove hosts d)))))))"
proof -
  let ?kept = "map (\<lambda>(k, v). Env k v) (filter (\<lambda>(k, v). keeps policy k) inherited)"
  let ?own = "?kept @ [Env (lit ''TERM'') (lit ''xterm-256color'')] @ map (\<lambda>(k, v). Env k v) explicit"
  have own: "list_all (sanctioned inherited policy explicit) ?own"
    by (auto simp: list_all_iff sanctioned_def)
  have len: "length ?own = length (filter (\<lambda>(k, v). keeps policy k) inherited) + 1 + length explicit" by simp
  have cut: "take (length ?own) (?own @ ds) = ?own" "drop (length ?own) (?own @ ds) = ds" for ds by simp_all
  show ?thesis
    using own cut unfolding len
    by (cases "isolation policy"; cases dir)
      (simp_all add: apply_env_def Let_def apfst_def map_prod_def case_prod_beta)
qed


section \<open>The lock\<close>

definition same_name :: "bool \<Rightarrow> ustr \<Rightarrow> ustr \<Rightarrow> bool" where
  "same_name nocase k n = (if nocase then eq_ignore_ascii_case k n else k = n)"

text \<open>The variables of the lock with their values.\<close>

definition lock_vars :: "ustr \<Rightarrow> (ustr \<times> ustr) list" where
  "lock_vars dir =
     [(lit ''GH_CONFIG_DIR'', dir), (lit ''GH_PROMPT_DISABLED'', lit ''1''), (lit ''GIT_TERMINAL_PROMPT'', lit ''0''),
      (lit ''GIT_ASKPASS'', []), (lit ''GCM_INTERACTIVE'', lit ''never''), (lit ''GIT_CONFIG_COUNT'', lit ''3''),
      (lit ''GIT_CONFIG_KEY_0'', lit ''credential.helper''), (lit ''GIT_CONFIG_VALUE_0'', []),
      (lit ''GIT_CONFIG_KEY_1'', lit ''http.extraHeader''), (lit ''GIT_CONFIG_VALUE_1'', []),
      (lit ''GIT_CONFIG_KEY_2'', lit ''protocol.ssh.allow''), (lit ''GIT_CONFIG_VALUE_2'', lit ''never''),
      (lit ''GIT_CONFIG_PARAMETERS'',
        [39] @ lit ''credential.helper='' @ [39, 32, 39] @ lit ''http.extraHeader='' @
        [39, 32, 39] @ lit ''protocol.ssh.allow=never'' @ [39])]"

text \<open>The variables an agent must not have, whatever the constants of the code say: the tokens
  \<open>gh\<close> reads, what leads \<open>ssh\<close> to a key, and what replaces the configuration of git or its transport.\<close>

definition locked_out :: "ustr list" where
  "locked_out = map lit
     [''GH_TOKEN'', ''GITHUB_TOKEN'', ''GH_ENTERPRISE_TOKEN'', ''GITHUB_ENTERPRISE_TOKEN'',
      ''SSH_AUTH_SOCK'', ''SSH_ASKPASS'', ''GIT_SSH'', ''GIT_SSH_COMMAND'',
      ''GIT_CONFIG_GLOBAL'', ''GIT_CONFIG_SYSTEM'', ''GIT_PROXY_COMMAND'', ''GIT_SSL_NO_VERIFY'']"

lemma locked_out_removed: "set locked_out \<subseteq> set STRICT_REMOVED"
proof -
  have "list_all (\<lambda>n. n \<in> set STRICT_REMOVED) locked_out" by code_simp
  then show ?thesis by (auto simp: list_all_iff)
qed

lemma git_parameters_text:
  "git_parameters = [39] @ lit ''credential.helper='' @ [39, 32, 39] @ lit ''http.extraHeader='' @
     [39, 32, 39] @ lit ''protocol.ssh.allow=never'' @ [39]"
  by code_simp

definition folded :: "bool \<Rightarrow> ustr \<Rightarrow> ustr" where
  "folded nocase = (if nocase then to_ascii_lowercase else id)"

lemma same_folded: "same_name nocase k n \<longleftrightarrow> folded nocase k = folded nocase n"
  by (simp add: same_name_def folded_def eq_ignore_ascii_case_def)

lemma value_removed:
  "n \<in> set ns \<Longrightarrow> value_after (same_name nocase) n v (map Env_Remove ns) = None"
proof -
  have "value_after (same_name nocase) n None (map Env_Remove ns) = None" for ns
    by (induction ns) simp_all
  then show "n \<in> set ns \<Longrightarrow> ?thesis"
    by (induction ns arbitrary: v) (auto simp: same_folded)
qed

lemma value_untouched:
  "folded nocase n \<notin> folded nocase ` fst ` set kvs \<Longrightarrow>
   value_after (same_name nocase) n v (map (\<lambda>(k, x). Env k x) kvs) = v"
  by (induction kvs arbitrary: v) (auto simp: same_folded)

lemma value_set:
  "distinct (map (folded nocase \<circ> fst) kvs) \<Longrightarrow> (n, x) \<in> set kvs \<Longrightarrow>
   value_after (same_name nocase) n v (map (\<lambda>(k, x). Env k x) kvs) = Some x"
proof (induction kvs arbitrary: v)
  case (Cons kv kvs)
  obtain k y where kv: "kv = (k, y)" by (cases kv)
  show ?case
  proof (cases "(n, x) = kv")
    case True
    with Cons.prems have "folded nocase n \<notin> folded nocase ` fst ` set kvs"
      by (auto simp: image_image kv)
    moreover have "same_name nocase k k" by (simp add: same_folded)
    ultimately show ?thesis using True by (simp add: kv value_untouched)
  next
    case False
    with Cons.prems have "(n, x) \<in> set kvs" "distinct (map (folded nocase \<circ> fst) kvs)" by (auto simp: comp_def)
    from Cons.IH [OF this(2,1)] show ?thesis by (simp add: kv)
  qed
qed simp

lemma lock_keys:
  "distinct (map to_ascii_lowercase (map fst (lock_vars dir)))"
  "list_all (\<lambda>n. to_ascii_lowercase n \<notin> set (map to_ascii_lowercase (map fst (lock_vars dir)))) locked_out"
proof -
  have "map fst (lock_vars dir) = map fst (lock_vars [])" by (simp add: lock_vars_def)
  moreover have "distinct (map to_ascii_lowercase (map fst (lock_vars [])))"
    "list_all (\<lambda>n. to_ascii_lowercase n \<notin> set (map to_ascii_lowercase (map fst (lock_vars [])))) locked_out"
    by code_simp+
  ultimately show "distinct (map to_ascii_lowercase (map fst (lock_vars dir)))"
    "list_all (\<lambda>n. to_ascii_lowercase n \<notin> set (map to_ascii_lowercase (map fst (lock_vars dir)))) locked_out"
    by simp_all
qed

lemma lock_folded:
  "distinct (map (folded nocase \<circ> fst) (lock_vars dir))"
  "n \<in> set locked_out \<Longrightarrow> folded nocase n \<notin> folded nocase ` fst ` set (lock_vars dir)"
proof -
  have keys: "distinct (map to_ascii_lowercase (map fst (lock_vars dir)))"
    "list_all (\<lambda>n. to_ascii_lowercase n \<notin> set (map to_ascii_lowercase (map fst (lock_vars dir)))) locked_out"
    by (rule lock_keys)+
  from keys(1) have "distinct (map fst (lock_vars dir))" by (simp only: distinct_map)
  with keys(1) show "distinct (map (folded nocase \<circ> fst) (lock_vars dir))"
    by (cases nocase) (simp_all add: folded_def comp_def)
  show "n \<in> set locked_out \<Longrightarrow> folded nocase n \<notin> folded nocase ` fst ` set (lock_vars dir)"
    using keys(2) by (cases nocase) (auto simp: folded_def list_all_iff image_image)
qed

lemma locked_calls:
  assumes "snd (lock_credentials remove hosts dir) = Ok ()"
  shows "fst (lock_credentials remove hosts dir) = map Env_Remove STRICT_REMOVED @ map (\<lambda>(k, x). Env k x) (lock_vars dir)"
proof -
  have "[Env (lit ''GIT_CONFIG_COUNT'') (decimal (length STRICT_GIT_CONFIG))] @ git_config =
    map (\<lambda>(k, x). Env k x) [(lit ''GIT_CONFIG_COUNT'', lit ''3''),
      (lit ''GIT_CONFIG_KEY_0'', lit ''credential.helper''), (lit ''GIT_CONFIG_VALUE_0'', []),
      (lit ''GIT_CONFIG_KEY_1'', lit ''http.extraHeader''), (lit ''GIT_CONFIG_VALUE_1'', []),
      (lit ''GIT_CONFIG_KEY_2'', lit ''protocol.ssh.allow''), (lit ''GIT_CONFIG_VALUE_2'', lit ''never'')]"
    by code_simp
  with assms show ?thesis
    by (auto simp: lock_credentials_def Let_def lock_vars_def git_parameters_text split: removal.splits)
qed

lemma locked_file:
  "is_ok (snd (lock_credentials remove hosts dir)) \<longleftrightarrow> remove (hosts dir) \<in> {Removed, Not_Found}"
  by (cases "remove (hosts dir)") (simp_all add: lock_credentials_def Let_def)

text \<open>
  C22: The lock of the variables holds.  An agent that starts under \<open>strict\<close> has none of the twelve variables
  \<open>GH_TOKEN\<close>, \<open>GITHUB_TOKEN\<close>, \<open>GH_ENTERPRISE_TOKEN\<close>, \<open>GITHUB_ENTERPRISE_TOKEN\<close>, \<open>SSH_AUTH_SOCK\<close>, \<open>SSH_ASKPASS\<close>,
  \<open>GIT_SSH\<close>, \<open>GIT_SSH_COMMAND\<close>, \<open>GIT_CONFIG_GLOBAL\<close>, \<open>GIT_CONFIG_SYSTEM\<close>, \<open>GIT_PROXY_COMMAND\<close> and
  \<open>GIT_SSL_NO_VERIFY\<close>, whether they were inherited, passed through or set for it; the thirteen variables of the
  lock, written out above, have exactly the values written there; for names compared with and
  without regard to case.  It starts only with a directory for the configuration of \<open>gh\<close> in which no login of an earlier
  agent is left.  This is about these variables and that file only: \<open>HOME\<close> and \<open>APPDATA\<close> still
  lead to files of the user, and a header scoped to a URL outlives the reset, as the code says.
\<close>

theorem strict_locks_credentials:
  "case apply_env remove hosts inherited policy explicit dir of (calls, r) \<Rightarrow>
     (if isolation policy = Env_Strict \<and> is_ok r then
        dir \<noteq> None \<and> remove (hosts (the dir)) \<in> {Removed, Not_Found} \<and>
        list_all (\<lambda>n. value_after (same_name nocase) n start calls = None) locked_out \<and>
        list_all (\<lambda>(n, x). value_after (same_name nocase) n start calls = Some x) (lock_vars (the dir))
      else True)"
proof (cases "isolation policy = Env_Strict \<and> is_ok (snd (apply_env remove hosts inherited policy explicit dir))")
  case True
  then obtain d where d: "dir = Some d"
    by (cases dir) (auto simp: apply_env_def Let_def)
  have "snd (lock_credentials remove hosts d) = Ok ()"
    using True by (auto simp: apply_env_def d Let_def apfst_def map_prod_def case_prod_beta is_ok_iff)
  then obtain before where calls: "fst (apply_env remove hosts inherited policy explicit dir) =
      before @ map Env_Remove STRICT_REMOVED @ map (\<lambda>(k, x). Env k x) (lock_vars d)"
    using True by (auto simp: apply_env_def d Let_def apfst_def map_prod_def case_prod_beta locked_calls)
  have "value_after (same_name nocase) n start (fst (apply_env remove hosts inherited policy explicit dir)) = None"
    if "n \<in> set locked_out" for n
    using that by (simp add: calls value_untouched lock_folded) (use that locked_out_removed in \<open>auto intro: value_removed\<close>)
  moreover have "remove (hosts d) \<in> {Removed, Not_Found}"
    using \<open>snd (lock_credentials remove hosts d) = Ok ()\<close> locked_file [of remove hosts d] by simp
  moreover have "value_after (same_name nocase) n start (fst (apply_env remove hosts inherited policy explicit dir)) = Some x"
    if "(n, x) \<in> set (lock_vars d)" for n x
    using that by (simp add: calls value_set lock_folded)
  ultimately show ?thesis by (auto simp: case_prod_beta list_all_iff d)
next
  case False
  then show ?thesis by (simp only: case_prod_beta if_False)
qed

end
