(* ===== verification/Api_Routes.thy ===== *)
theory Api_Routes
  imports Api_Requests Worker_Tree Github Calendar Agent_Environment
begin

text \<open>
  The routes of the control API: \<open>route\<close> of \<open>src-tauri/src/api.rs\<close>, \<open>hq_routes.rs\<close> and the
  \<open>d4_*.rs\<close> files beside it.  A route reads the request, calls the backend and answers.  The backend is a
  parameter: an answer to each call, which may depend on the calls before; the calls are kept in order.
  An \<open>unreachable!\<close> arm is the outcome \<open>None\<close>.
\<close>

section \<open>The calls to the application\<close>

text \<open>Run, owner and fence.\<close>

type_synonym identity = "ustr \<times> ustr \<times> int"

datatype dispatch_role = Coordinator | Implementer | Reviewer | Integrator

primrec role_text :: "dispatch_role \<Rightarrow> ustr" where
  "role_text Coordinator = lit ''coordinator''"
| "role_text Implementer = lit ''implementer''"
| "role_text Reviewer = lit ''reviewer''"
| "role_text Integrator = lit ''integrator''"

record assignment_request =
  as_team :: ustr
  as_role :: ustr
  as_assignee :: ustr
  as_expected :: int

datatype stats_range = Range_Today | Range_Week | Range_Month | Range_All

definition parse_range :: "ustr \<Rightarrow> stats_range option" where
  "parse_range s =
     (if s = lit ''today'' then Some Range_Today
      else if s = lit ''week'' \<or> s = lit ''7d'' then Some Range_Week
      else if s = lit ''month'' \<or> s = lit ''30d'' then Some Range_Month
      else if s = lit ''all'' then Some Range_All else None)"

definition range_since :: "stats_range \<Rightarrow> int \<Rightarrow> int option" where
  "range_since r now =
     (case r of
        Range_Today \<Rightarrow> day_start (utc_date now)
      | Range_Week \<Rightarrow> Some (now - 7 * DAY)
      | Range_Month \<Rightarrow> Some (now - 30 * DAY)
      | Range_All \<Rightarrow> None)"

datatype worker_delivery = Delivery_Done | Delivery_Blocked ustr

text \<open>What a run's credential may cause, planning writes with the authority they run under, decisions, and
  the other calls by area.\<close>

datatype run_call =
  Agent_Record_Page identity ustr "ustr option"
| Agent_Checkpoint_At identity int
| Agent_Evidence identity ustr
| Agent_Run_Context identity
| Agent_Checkpoint identity json
| Agent_Bind_Candidate identity json
| Agent_Submit_Evidence identity json
| Agent_Submit_Review identity json
| Agent_Record_Delivery identity worker_delivery
| Agent_Dispatch_Role identity
| Agent_Planning_Scope identity ustr ustr
| Audit_Planning ustr ustr ustr

datatype plan_call =
  Import_Plan ustr ustr int "ustr option"
| Create_Goal ustr ustr "ustr option" "ustr option" bool
| Create_Task ustr ustr "ustr option" "ustr list" "ustr list"
| Assign_Task ustr assignment_request

datatype decision_call =
  Approve_Learning ustr ustr
| Reject_Learning ustr
| Approve_Role ustr
| Reject_Role ustr
| Merge_Worker ustr bool
| Set_Env_Isolation env_isolation
| Set_Emergency_Stop bool ustr
| Create_Project ustr ustr
| Answer_Question ustr ustr ustr

datatype hq_call =
  Continuous_Runtime
| Development_Plan_Of ustr ustr "int option"
| Continuous_Changes ustr int
| Wait_Changes ustr int int
| Continuous_Context ustr int
| Development_Records ustr
| List_Goals ustr
| Task_Assignment ustr
| Claim_Task ustr ustr bool
| Checkpoint_Task ustr ustr int "ustr option" "ustr option"
| Control_Continuous ustr ustr

datatype fleet_call =
  Create_Scout ustr
| Triage_Repos ustr "ustr list"
| List_Recommendations "ustr option"
| Add_Recommendation ustr ustr ustr "ustr option" "ustr option"
| Accept_Recommendation ustr
| Set_Recommendation_Status ustr ustr
| List_Learnings "ustr option" "ustr option"
| Get_Activity "ustr option" int
| List_Workers "ustr option"
| Worker_State ustr
| List_Messages ustr "int option"
| Get_Board "ustr option"
| Create_Worker ustr ustr ustr "ustr option"
| Send_To_Worker ustr ustr
| Enqueue_Task ustr ustr "ustr option" bool "int option" "ustr option"
| List_Queue "ustr option"
| Cancel_Queued ustr

datatype desk_call =
  Project_Exists ustr
| Get_Quota
| Emergency_Stop_Active
| Env_Isolation
| Get_Updater
| Get_Usage int
| Get_Providers
| List_Budgets
| Set_Budget ustr "u8 option option" "u8 option option"
| Ask_Question ustr "ustr option" ustr "ustr option"
| List_Questions "ustr option" "ustr option"
| List_Roles "ustr option" "ustr option"
| List_Projects

datatype project_call =
  Send_To_Orchestrator ustr ustr
| Create_Github_Repo ustr ustr bool
| Link_Github ustr ustr
| List_Digests ustr
| Read_Digest ustr ustr
| Project_Stats ustr stats_range
| Get_Landing_Page ustr
| Set_Landing_Page ustr "ustr option"

datatype api_call =
  As_Run run_call
| Planned "identity option" plan_call
| Decided decision_call
| Hq hq_call
| Fleet fleet_call
| Desk desk_call
| Of_Project project_call

datatype delivery_error = Conflict ustr | Failed ustr

text \<open>The receipt of a delivery: run, status, whether it was repeated, and the run as a value.\<close>

type_synonym receipt = "ustr \<times> ustr \<times> bool \<times> json"

record backend =
  answers :: "api_call list \<Rightarrow> api_call \<Rightarrow> ustr + json"
  answers_bool :: "api_call list \<Rightarrow> api_call \<Rightarrow> ustr + bool"
  answers_role :: "api_call list \<Rightarrow> api_call \<Rightarrow> ustr + dispatch_role"
  answers_workers :: "api_call list \<Rightarrow> api_call \<Rightarrow> ustr + worker list"
  answers_text :: "api_call list \<Rightarrow> api_call \<Rightarrow> ustr + ustr option"
  answers_state :: "api_call list \<Rightarrow> api_call \<Rightarrow> ustr + json option"
  answers_env :: "api_call list \<Rightarrow> api_call \<Rightarrow> ustr + env_isolation"
  answers_delivery :: "api_call list \<Rightarrow> api_call \<Rightarrow> delivery_error + receipt"

text \<open>The typed bodies \<open>serde\<close> derives.\<close>

record decoders =
  codecs_of :: codecs
  dec_assignment :: "ustr \<Rightarrow> ustr + assignment_request"
  dec_checkpoint :: "ustr \<Rightarrow> json option"
  dec_candidate :: "ustr \<Rightarrow> json option"
  dec_evidence :: "ustr \<Rightarrow> json option"
  dec_review :: "ustr \<Rightarrow> json option"
  dec_delivery :: "ustr \<Rightarrow> (ustr \<times> ustr option) option"
  worker_fields :: "worker \<Rightarrow> (ustr \<times> json) list"

record server =
  sv_backend :: backend
  sv_dec :: decoders
  sv_token :: ustr
  sv_verdict_token :: ustr
  allow_unproven_project_create :: bool
  wait_permit :: bool
  log_path :: ustr
  panic_markers :: "bool \<times> bool"

section \<open>Answering\<close>

type_synonym 'a api = "api_call list \<Rightarrow> 'a \<times> api_call list"
type_synonym handler = "response option api"

definition ask :: "(api_call list \<Rightarrow> api_call \<Rightarrow> 'a) \<Rightarrow> api_call \<Rightarrow> ('a \<Rightarrow> 'b api) \<Rightarrow> 'b api" where
  "ask f c k = (\<lambda>calls. k (f calls c) (calls @ [c]))"

definition respond :: "response \<Rightarrow> handler" where
  "respond r = (\<lambda>calls. (Some r, calls))"

definition unreachable :: handler where
  "unreachable = (\<lambda>calls. (None, calls))"

text \<open>\<open>Err(e) => return Response::error(400, e)\<close>.\<close>

definition or_400 :: "ustr + 'a \<Rightarrow> ('a \<Rightarrow> handler) \<Rightarrow> handler" where
  "or_400 r k = (case r of Err e \<Rightarrow> respond (response_error 400 e) | Ok v \<Rightarrow> k v)"

definition or_bad :: "'a option \<Rightarrow> ustr \<Rightarrow> ('a \<Rightarrow> handler) \<Rightarrow> handler" where
  "or_bad x msg k = or_400 (ok_or x msg) k"

definition need :: "bool \<Rightarrow> response \<Rightarrow> handler \<Rightarrow> handler" where
  "need c r k = (if c then k else respond r)"

definition reply :: "(ustr + json \<Rightarrow> response) \<Rightarrow> server \<Rightarrow> api_call \<Rightarrow> handler" where
  "reply f sv c = ask (answers (sv_backend sv)) c (\<lambda>r. respond (f r))"

definition ok_true :: json where "ok_true = JObject [(lit ''ok'', JBool True)]"

definition ok_map :: "('a \<Rightarrow> 'b) \<Rightarrow> 'e + 'a \<Rightarrow> 'e + 'b" where
  "ok_map f r = (case r of Err e \<Rightarrow> Err e | Ok a \<Rightarrow> Ok (f a))"

definition done_response :: "status_policy \<Rightarrow> ustr + json \<Rightarrow> response" where
  "done_response p r =
     (case r of Ok _ \<Rightarrow> response_ok ok_true | Err e \<Rightarrow> response_error (error_status e p) e)"

definition unknown_or_500 :: "ustr + json \<Rightarrow> response" where
  "unknown_or_500 r =
     (case r of Ok v \<Rightarrow> response_ok v
      | Err e \<Rightarrow> response_error (if starts_with e ERR_UNKNOWN then 404 else 500) e)"

definition unknown_project :: "server \<Rightarrow> ustr option \<Rightarrow> handler \<Rightarrow> handler" where
  "unknown_project sv project k =
     (case project of
        None \<Rightarrow> k
      | Some p \<Rightarrow>
          ask (answers_bool (sv_backend sv)) (Desk (Project_Exists p))
            (\<lambda>r. case r of
                   Ok True \<Rightarrow> k
                 | Ok False \<Rightarrow> respond (response_error 404 (ERR_UNKNOWN @ lit ''project: '' @ p))
                 | Err e \<Rightarrow> respond (response_error 500 e)))"

subsection \<open>Reading the request\<close>

text \<open>A path pattern; an underscore stands for any segment.\<close>

fun at_path :: "string list \<Rightarrow> ustr list \<Rightarrow> bool" where
  "at_path [] [] = True"
| "at_path (p # ps) (s # ss) = ((p = ''_'' \<or> s = lit p) \<and> at_path ps ss)"
| "at_path _ _ = False"

definition route_is :: "ustr \<Rightarrow> ustr list \<Rightarrow> string \<Rightarrow> string list \<Rightarrow> bool" where
  "route_is m path verb pat \<longleftrightarrow> m = lit verb \<and> at_path pat path"

definition rq_segments :: "server \<Rightarrow> request \<Rightarrow> ustr list" where
  "rq_segments sv rq = segments (codecs_of (sv_dec sv)) rq"

definition json_body :: "server \<Rightarrow> request \<Rightarrow> ustr + json" where
  "json_body sv rq = parse_body (codecs_of (sv_dec sv)) (rq_body rq)"

definition with_body :: "server \<Rightarrow> request \<Rightarrow> (json \<Rightarrow> handler) \<Rightarrow> handler" where
  "with_body sv rq k = or_400 (json_body sv rq) k"

definition field :: "json \<Rightarrow> string \<Rightarrow> (ustr \<Rightarrow> handler) \<Rightarrow> handler" where
  "field body key k = or_400 (required_str body (lit key)) k"

definition query :: "request \<Rightarrow> string \<Rightarrow> ustr option" where
  "query rq key = map_of (rq_query rq) (lit key)"

definition project_query :: "request \<Rightarrow> ustr option" where
  "project_query rq = query rq ''projectId''"

text \<open>The project a listing needs.\<close>

definition needs_project :: "request \<Rightarrow> (ustr \<Rightarrow> handler) \<Rightarrow> handler" where
  "needs_project rq k =
     or_bad (opt_filter (\<lambda>p. p \<noteq> []) (project_query rq)) (lit ''projectId is required'') k"

definition text_of :: "json \<Rightarrow> string \<Rightarrow> ustr option" where
  "text_of body key = opt_then (jget (lit key) body) as_str"

definition bool_of :: "json \<Rightarrow> string \<Rightarrow> bool option" where
  "bool_of body key = opt_then (jget (lit key) body) as_bool"

definition opt_or :: "'a option \<Rightarrow> 'a \<Rightarrow> 'a" where
  "opt_or x d = (case x of None \<Rightarrow> d | Some a \<Rightarrow> a)"

section \<open>Discovery, governance, workers and the queue\<close>

definition discovery_owned :: "ustr \<Rightarrow> ustr list \<Rightarrow> bool" where
  "discovery_owned m path \<longleftrightarrow>
     route_is m path ''POST'' [''api'', ''scout''] \<or>
     route_is m path ''POST'' [''api'', ''scout'', ''triage''] \<or>
     route_is m path ''GET'' [''api'', ''recommendations''] \<or>
     route_is m path ''POST'' [''api'', ''recommendations''] \<or>
     route_is m path ''POST'' [''api'', ''recommendations'', ''_'', ''accept'']"

definition triage_urls :: "json \<Rightarrow> ustr list" where
  "triage_urls body =
     (case opt_then (jget (lit ''urls'') body) as_array of
        None \<Rightarrow> []
      | Some vs \<Rightarrow> filter (\<lambda>u. u \<noteq> []) (map trim (List.map_filter as_str vs)))"

definition discovery :: "server \<Rightarrow> request \<Rightarrow> handler" where
  "discovery sv rq =
     (let m = rq_method rq; path = rq_segments sv rq in
      if route_is m path ''POST'' [''api'', ''scout''] then
        with_body sv rq (\<lambda>body. field body ''projectId'' (\<lambda>p.
        reply core_response sv (Fleet (Create_Scout p))))
      else if route_is m path ''POST'' [''api'', ''scout'', ''triage''] then
        with_body sv rq (\<lambda>body. field body ''projectId'' (\<lambda>p.
        need (triage_urls body \<noteq> []) (response_error 400 (lit ''urls is required''))
          (reply core_response sv (Fleet (Triage_Repos p (triage_urls body))))))
      else if route_is m path ''GET'' [''api'', ''recommendations''] then
        unknown_project sv (project_query rq)
          (reply into_response sv (Fleet (List_Recommendations (project_query rq))))
      else if route_is m path ''POST'' [''api'', ''recommendations''] then
        with_body sv rq (\<lambda>body. field body ''projectId'' (\<lambda>p. field body ''title'' (\<lambda>t.
        field body ''rationale'' (\<lambda>r.
        reply core_response sv
          (Fleet (Add_Recommendation p t r (optional_str body (lit ''url'')) (optional_str body (lit ''effort''))))))))
      else if route_is m path ''POST'' [''api'', ''recommendations'', ''_'', ''accept''] then
        reply core_response sv (Fleet (Accept_Recommendation (path ! 2)))
      else unreachable)"

definition governance_owned :: "ustr \<Rightarrow> ustr list \<Rightarrow> bool" where
  "governance_owned m path \<longleftrightarrow>
     route_is m path ''POST'' [''api'', ''recommendations'', ''_'', ''status''] \<or>
     route_is m path ''GET'' [''api'', ''learnings''] \<or>
     route_is m path ''POST'' [''api'', ''learnings'', ''_'', ''approve''] \<or>
     route_is m path ''POST'' [''api'', ''learnings'', ''_'', ''reject''] \<or>
     route_is m path ''GET'' [''api'', ''activity'']"

definition REC_ACCEPTED :: ustr where "REC_ACCEPTED = lit ''accepted''"
definition REC_DISMISSED :: ustr where "REC_DISMISSED = lit ''dismissed''"

definition number_query :: "request \<Rightarrow> string \<Rightarrow> int option" where
  "number_query rq key = map_option uint (opt_then (query rq key) parse_u32)"

definition governance :: "server \<Rightarrow> request \<Rightarrow> handler" where
  "governance sv rq =
     (let m = rq_method rq; path = rq_segments sv rq in
      if route_is m path ''POST'' [''api'', ''recommendations'', ''_'', ''status''] then
        with_body sv rq (\<lambda>body. field body ''status'' (\<lambda>st.
        need (st = REC_ACCEPTED \<or> st = REC_DISMISSED)
          (response_error 400
            (lit ''unknown recommendation status: '' @ st @ lit '' (expected '' @ REC_ACCEPTED @
             lit '' or '' @ REC_DISMISSED @ lit '')''))
          (reply (done_response Policy_Core) sv (Fleet (Set_Recommendation_Status (path ! 2) st)))))
      else if route_is m path ''GET'' [''api'', ''learnings''] then
        unknown_project sv (project_query rq)
          (reply into_response sv (Fleet (List_Learnings (project_query rq) (query rq ''status''))))
      else if route_is m path ''POST'' [''api'', ''learnings'', ''_'', ''approve''] then
        with_body sv rq (\<lambda>body.
        or_bad (optional_str body (lit ''text'')) (lit ''text is required and must not be empty'') (\<lambda>t.
        reply (done_response Policy_Verdict) sv (Decided (Approve_Learning (path ! 2) t))))
      else if route_is m path ''POST'' [''api'', ''learnings'', ''_'', ''reject''] then
        reply (done_response Policy_Verdict) sv (Decided (Reject_Learning (path ! 2)))
      else if route_is m path ''GET'' [''api'', ''activity''] then
        unknown_project sv (project_query rq)
          (reply into_response sv
            (Fleet (Get_Activity (project_query rq) (min (opt_or (number_query rq ''limit'') 50) 200))))
      else unreachable)"

definition worker_read_owned :: "ustr \<Rightarrow> ustr list \<Rightarrow> bool" where
  "worker_read_owned m path \<longleftrightarrow>
     route_is m path ''POST'' [''api'', ''queens''] \<or>
     route_is m path ''GET'' [''api'', ''workers''] \<or>
     route_is m path ''GET'' [''api'', ''workers'', ''_''] \<or>
     route_is m path ''GET'' [''api'', ''workers'', ''_'', ''messages''] \<or>
     route_is m path ''GET'' [''api'', ''board'']"

definition ERR_QUEEN_RETIRED :: ustr where
  "ERR_QUEEN_RETIRED = lit ''refused: queen creation is retired; existing queens remain readable''"

definition json_of_worker :: "server \<Rightarrow> worker \<Rightarrow> json" where
  "json_of_worker sv w = JObject (worker_fields (sv_dec sv) w)"

definition known_worker :: "server \<Rightarrow> ustr \<Rightarrow> (json \<Rightarrow> handler) \<Rightarrow> handler" where
  "known_worker sv w k =
     ask (answers_state (sv_backend sv)) (Fleet (Worker_State w))
       (\<lambda>r. case r of
              Ok (Some st) \<Rightarrow> k st
            | Ok None \<Rightarrow> respond (response_error 404 (lit ''unknown worker: '' @ w))
            | Err e \<Rightarrow> respond (response_error 500 e))"

definition parse_usize :: "ustr \<Rightarrow> int option" where
  "parse_usize = parse_u64"

definition worker_read :: "server \<Rightarrow> request \<Rightarrow> handler" where
  "worker_read sv rq =
     (let m = rq_method rq; path = rq_segments sv rq in
      if route_is m path ''POST'' [''api'', ''queens''] then respond (response_error 410 ERR_QUEEN_RETIRED)
      else if route_is m path ''GET'' [''api'', ''workers''] then
        unknown_project sv (project_query rq)
          (ask (answers_workers (sv_backend sv)) (Fleet (List_Workers (project_query rq)))
            (\<lambda>r. respond (into_response (ok_map (\<lambda>ws. JArray (map (json_of_worker sv) ws)) r))))
      else if route_is m path ''GET'' [''api'', ''workers'', ''_''] then
        known_worker sv (path ! 2) (\<lambda>st. respond (into_response (Ok st)))
      else if route_is m path ''GET'' [''api'', ''workers'', ''_'', ''messages''] then
        known_worker sv (path ! 2) (\<lambda>_.
          reply into_response sv
            (Fleet (List_Messages (path ! 2) (opt_then (query rq ''limit'') parse_usize))))
      else if route_is m path ''GET'' [''api'', ''board''] then
        unknown_project sv (project_query rq) (reply into_response sv (Fleet (Get_Board (project_query rq))))
      else unreachable)"

definition worker_write_owned :: "ustr \<Rightarrow> ustr list \<Rightarrow> bool" where
  "worker_write_owned m path \<longleftrightarrow>
     route_is m path ''POST'' [''api'', ''workers''] \<or>
     route_is m path ''POST'' [''api'', ''workers'', ''_'', ''send''] \<or>
     route_is m path ''POST'' [''api'', ''workers'', ''_'', ''merge'']"

definition DEFAULT_PROFILE :: ustr where "DEFAULT_PROFILE = lit ''claude''"

definition filled :: "ustr option \<Rightarrow> ustr option" where
  "filled x = opt_filter (\<lambda>v. trim v \<noteq> []) x"

definition worker_write :: "server \<Rightarrow> request \<Rightarrow> handler" where
  "worker_write sv rq =
     (let m = rq_method rq; path = rq_segments sv rq in
      if route_is m path ''POST'' [''api'', ''workers''] then
        with_body sv rq (\<lambda>body. field body ''projectId'' (\<lambda>p. field body ''task'' (\<lambda>t.
        reply core_response sv
          (Fleet (Create_Worker p t (opt_or (filled (text_of body ''profileId'')) DEFAULT_PROFILE)
             (optional_str body (lit ''spawnedBy'')))))))
      else if route_is m path ''POST'' [''api'', ''workers'', ''_'', ''send''] then
        with_body sv rq (\<lambda>body. or_bad (text_of body ''text'') (lit ''text is required'') (\<lambda>t.
        reply (\<lambda>r. case r of
                  Ok _ \<Rightarrow> response_ok ok_true
                | Err e \<Rightarrow> response_error (if str_contains e (lit ''has no running agent'') then 409 else 500) e)
          sv (Fleet (Send_To_Worker (path ! 2) t))))
      else if route_is m path ''POST'' [''api'', ''workers'', ''_'', ''merge''] then
        with_body sv rq (\<lambda>body.
        let flag = (case jget (lit ''removeWorktree'') body of
                      Some v \<Rightarrow> Some v | None \<Rightarrow> jget (lit ''remove_worktree'') body) in
        reply (\<lambda>r. case r of
                  Ok w \<Rightarrow> into_response (Ok w)
                | Err e \<Rightarrow> response_error (error_status e Policy_Merge) e)
          sv (Decided (Merge_Worker (path ! 2) (opt_or (opt_then flag as_bool) False))))
      else unreachable)"

definition queue_owned :: "ustr \<Rightarrow> ustr list \<Rightarrow> bool" where
  "queue_owned m path \<longleftrightarrow>
     route_is m path ''POST'' [''api'', ''queue''] \<or>
     route_is m path ''GET'' [''api'', ''queue''] \<or>
     route_is m path ''POST'' [''api'', ''queue'', ''_'', ''cancel'']"

definition fits_i32 :: "int \<Rightarrow> bool" where
  "fits_i32 n \<longleftrightarrow> - (2 ^ 31) \<le> n \<and> n < 2 ^ 31"

definition queue_routes :: "server \<Rightarrow> request \<Rightarrow> handler" where
  "queue_routes sv rq =
     (let m = rq_method rq; path = rq_segments sv rq in
      if route_is m path ''POST'' [''api'', ''queue''] then
        with_body sv rq (\<lambda>body. field body ''projectId'' (\<lambda>p. field body ''rawText'' (\<lambda>t.
        reply core_response sv
          (Fleet (Enqueue_Task p t (filled (text_of body ''profileId''))
             (opt_or (bool_of body ''sharpen'') False)
             (opt_filter fits_i32 (opt_then (jget (lit ''priority'') body) as_i64))
             (optional_str body (lit ''spawnedBy'')))))))
      else if route_is m path ''GET'' [''api'', ''queue''] then
        unknown_project sv (project_query rq) (reply into_response sv (Fleet (List_Queue (project_query rq))))
      else if route_is m path ''POST'' [''api'', ''queue'', ''_'', ''cancel''] then
        reply (\<lambda>r. core_response (ok_map (\<lambda>_. ok_true) r)) sv (Fleet (Cancel_Queued (path ! 2)))
      else unreachable)"

text \<open>The first router that owns the request.\<close>

definition d4_route :: "server \<Rightarrow> request \<Rightarrow> handler option" where
  "d4_route sv rq =
     (let m = rq_method rq; path = rq_segments sv rq in
      if discovery_owned m path then Some (discovery sv rq)
      else if governance_owned m path then Some (governance sv rq)
      else if worker_read_owned m path then Some (worker_read sv rq)
      else if worker_write_owned m path then Some (worker_write sv rq)
      else if queue_owned m path then Some (queue_routes sv rq)
      else None)"

section \<open>The routes of the headquarters\<close>

definition hq_path :: "ustr list \<Rightarrow> string list \<Rightarrow> bool" where
  "hq_path path rest \<longleftrightarrow> at_path ([''api'', ''hq'', ''v1''] @ rest) path"

definition hq_is :: "ustr \<Rightarrow> ustr list \<Rightarrow> string \<Rightarrow> string list \<Rightarrow> bool" where
  "hq_is m path verb rest \<longleftrightarrow> m = lit verb \<and> hq_path path rest"

definition agent_path :: "ustr list \<Rightarrow> bool" where
  "agent_path path \<longleftrightarrow> take 4 path = [lit ''api'', lit ''hq'', lit ''v1'', lit ''agent'']"

definition hq_owned :: "ustr \<Rightarrow> ustr list \<Rightarrow> bool" where
  "hq_owned m path \<longleftrightarrow>
     agent_path path \<or>
     hq_is m path ''GET'' [''runtime''] \<or> hq_is m path ''GET'' [''plan''] \<or> hq_is m path ''GET'' [''runs''] \<or>
     hq_is m path ''GET'' [''context''] \<or> hq_is m path ''GET'' [''changes''] \<or>
     hq_is m path ''POST'' [''plan'', ''import''] \<or>
     hq_is m path ''GET'' [''goals''] \<or> hq_is m path ''POST'' [''goals''] \<or>
     hq_is m path ''POST'' [''goals'', ''_'', ''tasks''] \<or>
     hq_is m path ''GET'' [''tasks'', ''_'', ''assignment''] \<or>
     hq_is m path ''POST'' [''tasks'', ''_'', ''assignment''] \<or>
     hq_is m path ''POST'' [''tasks'', ''_'', ''claim''] \<or>
     hq_is m path ''POST'' [''tasks'', ''_'', ''checkpoint''] \<or>
     hq_is m path ''POST'' [''control'']"

text \<open>A reply with one field.\<close>

definition wrapped :: "string \<Rightarrow> ustr + json \<Rightarrow> response" where
  "wrapped key r =
     (case r of Ok v \<Rightarrow> response_ok (JObject [(lit key, v)]) | Err e \<Rightarrow> continuous_error e)"

definition assigned :: "ustr + json \<Rightarrow> response" where
  "assigned r =
     (case r of
        Ok v \<Rightarrow> response_ok (JObject [(lit ''apiVersion'', JInt 1), (lit ''source'', JString (lit ''rust/sqlite'')),
                   (lit ''assignment'', v), (lit ''approvalAuthority'', JBool False)])
      | Err e \<Rightarrow> continuous_error e)"


definition positive :: "ustr \<Rightarrow> int option" where
  "positive raw = opt_filter (\<lambda>n. 0 < n) (parse_i64 raw)"

definition trimmed_query :: "request \<Rightarrow> string \<Rightarrow> ustr option" where
  "trimmed_query rq key = opt_filter (\<lambda>v. v \<noteq> []) (map_option trim (query rq key))"

definition get_plan :: "server \<Rightarrow> request \<Rightarrow> handler" where
  "get_plan sv rq =
     need (list_all (\<lambda>(k, v). k \<in> {lit ''projectId'', lit ''planId'', lit ''revision''}) (rq_query rq))
       (response_error 400 (lit ''unknown plan query field''))
     (or_bad (trimmed_query rq ''projectId'') (lit ''projectId is required'') (\<lambda>p.
      or_bad (trimmed_query rq ''planId'') (lit ''planId is required'') (\<lambda>pl.
      or_400 (case query rq ''revision'' of
                None \<Rightarrow> Ok None
              | Some raw \<Rightarrow> ok_map Some (ok_or (positive raw) (lit ''revision must be a positive integer''))) (\<lambda>rev.
      reply plan_response sv (Hq (Development_Plan_Of p pl rev))))))"

definition import_plan :: "server \<Rightarrow> request \<Rightarrow> identity option \<Rightarrow> handler" where
  "import_plan sv rq auth =
     need (rq_query rq = []) (response_error 400 (lit ''plan import does not accept query fields''))
     (with_body sv rq (\<lambda>body.
      or_400 (only_keys body (map lit [''projectId'', ''planId'', ''expectedProjectionRevision'', ''rollbackReason''])) (\<lambda>_.
      field body ''projectId'' (\<lambda>p. field body ''planId'' (\<lambda>pl.
      or_bad (opt_filter (\<lambda>n. 0 \<le> n \<and> n < 2 ^ 63 - 1)
                (opt_then (jget (lit ''expectedProjectionRevision'') body) as_i64))
        (lit ''expectedProjectionRevision must be non-negative and below the maximum integer'') (\<lambda>expected.
      or_400 (case jget (lit ''rollbackReason'') body of
                None \<Rightarrow> Ok None
              | Some (JString v) \<Rightarrow> Ok (Some v)
              | Some _ \<Rightarrow> Err (lit ''rollbackReason must be a string'')) (\<lambda>reason.
      reply plan_response sv (Planned auth (Import_Plan p pl expected reason)))))))))"

definition get_context :: "server \<Rightarrow> request \<Rightarrow> bool \<Rightarrow> handler" where
  "get_context sv rq changes =
     needs_project rq (\<lambda>p.
     or_400 (case query rq ''cursor'' of
               None \<Rightarrow> Ok 0
             | Some v \<Rightarrow> ok_or (opt_filter (\<lambda>n. 0 \<le> n) (parse_i64 v)) (lit ''cursor must be a non-negative integer'')) (\<lambda>cursor.
     if changes then
       or_400 (case query rq ''waitMs'' of
                 None \<Rightarrow> Ok 0
               | Some v \<Rightarrow> ok_or (opt_filter (\<lambda>n. n \<le> 25000) (parse_u64 v)) (lit ''waitMs must be between 0 and 25000'')) (\<lambda>ms.
       unknown_project sv (Some p)
         (if ms = 0 then reply continuous_response sv (Hq (Continuous_Changes p cursor))
          else
            need (wait_permit sv)
              (response_error 503 (lit ''continuous journal waiting capacity exhausted''))
              (reply continuous_response sv (Hq (Wait_Changes p cursor ms)))))
     else
       need (query rq ''waitMs'' = None) (response_error 400 (lit ''waitMs is supported only by changes''))
         (reply continuous_response sv (Hq (Continuous_Context p cursor)))))"

definition post_goal :: "server \<Rightarrow> request \<Rightarrow> identity option \<Rightarrow> handler" where
  "post_goal sv rq auth =
     with_body sv rq (\<lambda>body.
     or_400 (only_keys body (map lit [''projectId'', ''objective'', ''acceptanceCriteria'', ''sourceGoalId'', ''admit''])) (\<lambda>_.
     field body ''projectId'' (\<lambda>p. field body ''objective'' (\<lambda>ob.
     or_400 (optional_bool body (lit ''admit'')) (\<lambda>admit.
     reply (wrapped ''goal'') sv
       (Planned auth (Create_Goal p ob (optional_str body (lit ''acceptanceCriteria''))
          (optional_str body (lit ''sourceGoalId'')) (opt_or admit False))))))))"

definition post_task :: "server \<Rightarrow> request \<Rightarrow> identity option \<Rightarrow> ustr \<Rightarrow> handler" where
  "post_task sv rq auth goal =
     with_body sv rq (\<lambda>body. field body ''objective'' (\<lambda>ob.
     or_400 (string_array body (lit ''ownedPaths'')) (\<lambda>paths.
     or_400 (string_array body (lit ''dependencies'')) (\<lambda>deps.
     reply (wrapped ''task'') sv
       (Planned auth (Create_Task goal ob (optional_str body (lit ''profileId'')) paths deps))))))"

definition post_assignment :: "server \<Rightarrow> request \<Rightarrow> identity option \<Rightarrow> ustr \<Rightarrow> handler" where
  "post_assignment sv rq auth task =
     (case dec_assignment (sv_dec sv) (rq_body rq) of
        Err e \<Rightarrow> respond (response_error 400 (lit ''invalid team assignment: '' @ e))
      | Ok a \<Rightarrow> reply assigned sv (Planned auth (Assign_Task task a)))"

definition post_claim :: "server \<Rightarrow> request \<Rightarrow> ustr \<Rightarrow> handler" where
  "post_claim sv rq task =
     with_body sv rq (\<lambda>body. field body ''owner'' (\<lambda>ow.
     reply (wrapped ''claim'') sv (Hq (Claim_Task task ow (opt_or (bool_of body ''escalation'') False)))))"

definition post_checkpoint :: "server \<Rightarrow> request \<Rightarrow> ustr \<Rightarrow> handler" where
  "post_checkpoint sv rq task =
     with_body sv rq (\<lambda>body. field body ''owner'' (\<lambda>ow.
     or_bad (opt_filter (\<lambda>n. 0 < n) (opt_then (jget (lit ''fence'') body) as_i64))
       (lit ''fence must be a positive integer'') (\<lambda>fence.
     reply (wrapped ''task'') sv
       (Hq (Checkpoint_Task task ow fence (text_of body ''status'') (text_of body ''detail''))))))"

definition post_control :: "server \<Rightarrow> request \<Rightarrow> handler" where
  "post_control sv rq =
     with_body sv rq (\<lambda>body. field body ''projectId'' (\<lambda>p. field body ''action'' (\<lambda>a.
     reply continuous_response sv (Hq (Control_Continuous p a)))))"

definition hq_handle :: "server \<Rightarrow> request \<Rightarrow> identity option \<Rightarrow> handler" where
  "hq_handle sv rq auth =
     (let m = rq_method rq; path = rq_segments sv rq in
      if agent_path path then respond (response_error 403 (lit ''this route requires a scoped run credential''))
      else if hq_is m path ''GET'' [''runtime''] then reply continuous_response sv (Hq Continuous_Runtime)
      else if hq_is m path ''GET'' [''plan''] then get_plan sv rq
      else if hq_is m path ''POST'' [''plan'', ''import''] then import_plan sv rq auth
      else if hq_is m path ''GET'' [''context''] then get_context sv rq False
      else if hq_is m path ''GET'' [''changes''] then get_context sv rq True
      else if hq_is m path ''GET'' [''runs''] then
        needs_project rq (\<lambda>p. unknown_project sv (Some p)
          (reply continuous_response sv (Hq (Development_Records p))))
      else if hq_is m path ''GET'' [''goals''] then
        needs_project rq (\<lambda>p. reply (wrapped ''goals'') sv (Hq (List_Goals p)))
      else if hq_is m path ''POST'' [''goals''] then post_goal sv rq auth
      else if hq_is m path ''POST'' [''goals'', ''_'', ''tasks''] then post_task sv rq auth (path ! 4)
      else if hq_is m path ''GET'' [''tasks'', ''_'', ''assignment''] then
        reply assigned sv (Hq (Task_Assignment (path ! 4)))
      else if hq_is m path ''POST'' [''tasks'', ''_'', ''assignment''] then post_assignment sv rq auth (path ! 4)
      else if hq_is m path ''POST'' [''tasks'', ''_'', ''claim''] then post_claim sv rq (path ! 4)
      else if hq_is m path ''POST'' [''tasks'', ''_'', ''checkpoint''] then post_checkpoint sv rq (path ! 4)
      else if hq_is m path ''POST'' [''control''] then post_control sv rq
      else unreachable)"

definition hq_route :: "server \<Rightarrow> request \<Rightarrow> identity option \<Rightarrow> handler option" where
  "hq_route sv rq auth =
     (if hq_owned (rq_method rq) (rq_segments sv rq) then Some (hq_handle sv rq auth) else None)"

section \<open>The remaining routes\<close>

text \<open>Whether a request carried the verdict token.\<close>

datatype verdict_proof = Proven | Absent | Wrong

definition VERDICT_TOKEN_HEADER :: ustr where "VERDICT_TOKEN_HEADER = lit ''x-verdict-token''"
definition ANSWERED_BY_HUMAN :: ustr where "ANSWERED_BY_HUMAN = lit ''human''"
definition ANSWERED_BY_UNVERIFIED :: ustr where "ANSWERED_BY_UNVERIFIED = lit ''unverified''"

definition invalid_verdict :: response where
  "invalid_verdict = response_error 403 (lit ''invalid verdict token'')"

definition missing_verdict :: "ustr \<Rightarrow> response" where
  "missing_verdict what =
     response_error 403 (lit ''missing '' @ VERDICT_TOKEN_HEADER @ lit '' header: '' @ what @
       lit '', and the token for it is held by the window and by `pa --verdict-token` alone'')"

definition refuse_unproven_project_create :: "server \<Rightarrow> verdict_proof \<Rightarrow> response option" where
  "refuse_unproven_project_create sv proof =
     (if allow_unproven_project_create sv then None
      else
        case proof of
          Proven \<Rightarrow> None
        | Wrong \<Rightarrow> Some invalid_verdict
        | Absent \<Rightarrow> Some (missing_verdict (lit ''registering a project is a human decision'')))"

definition active_reply :: "server \<Rightarrow> handler" where
  "active_reply sv =
     ask (answers_bool (sv_backend sv)) (Desk Emergency_Stop_Active)
       (\<lambda>r. respond (into_response (ok_map (\<lambda>a. JObject [(lit ''active'', JBool a)]) r)))"

definition stage_reply :: "server \<Rightarrow> handler" where
  "stage_reply sv =
     ask (answers_env (sv_backend sv)) (Desk Env_Isolation)
       (\<lambda>r. respond (into_response (ok_map (\<lambda>st. JObject [(lit ''stage'', JString (env_text st))]) r)))"

text \<open>\<open>if let Err(e) = backend.call() { return 500 }\<close>.\<close>

definition and_after :: "server \<Rightarrow> api_call \<Rightarrow> handler \<Rightarrow> handler" where
  "and_after sv c k =
     ask (answers (sv_backend sv)) c
       (\<lambda>r. case r of Err e \<Rightarrow> respond (response_error 500 e) | Ok _ \<Rightarrow> k)"

definition USAGE_LIMIT_DEFAULT :: int where "USAGE_LIMIT_DEFAULT = 50"
definition USAGE_LIMIT_MAX :: int where "USAGE_LIMIT_MAX = 500"

definition settings_routes :: "server \<Rightarrow> request \<Rightarrow> handler option" where
  "settings_routes sv rq =
     (let m = rq_method rq; path = rq_segments sv rq in
      if route_is m path ''GET'' [''api'', ''health''] then Some (respond (response_ok ok_true))
      else if route_is m path ''GET'' [''api'', ''diagnosis''] then
        Some (respond (response_ok (JObject
          [(lit ''logPath'', JString (log_path sv)), (lit ''panicCurrent'', JBool (fst (panic_markers sv))),
           (lit ''panicPrevious'', JBool (snd (panic_markers sv)))])))
      else if route_is m path ''GET'' [''api'', ''quota''] then Some (reply into_response sv (Desk Get_Quota))
      else if route_is m path ''GET'' [''api'', ''emergency-stop''] then Some (active_reply sv)
      else if route_is m path ''POST'' [''api'', ''emergency-stop''] then
        Some (with_body sv rq (\<lambda>body. or_400 (only_keys body [lit ''active'']) (\<lambda>_.
          or_bad (bool_of body ''active'') (lit ''active must be a boolean'') (\<lambda>active.
          and_after sv (Decided (Set_Emergency_Stop active (lit ''pa''))) (active_reply sv)))))
      else if route_is m path ''GET'' [''api'', ''settings'', ''env-isolation''] then Some (stage_reply sv)
      else if route_is m path ''PUT'' [''api'', ''settings'', ''env-isolation''] then
        Some (with_body sv rq (\<lambda>body. or_400 (only_keys body [lit ''stage'']) (\<lambda>_.
          or_bad (text_of body ''stage'') (lit ''stage is required'') (\<lambda>raw.
          or_bad (parse_env raw) (lit ''stage must be one of inherit, allowlist, strict'') (\<lambda>st.
          and_after sv (Decided (Set_Env_Isolation st)) (stage_reply sv))))))
      else if route_is m path ''GET'' [''api'', ''updater''] then Some (reply into_response sv (Desk Get_Updater))
      else if route_is m path ''GET'' [''api'', ''usage''] then
        Some (reply into_response sv
          (Desk (Get_Usage (min (max (opt_or (number_query rq ''limit'') USAGE_LIMIT_DEFAULT) 1) USAGE_LIMIT_MAX))))
      else if route_is m path ''GET'' [''api'', ''providers''] then Some (reply into_response sv (Desk Get_Providers))
      else if route_is m path ''GET'' [''api'', ''budgets''] then Some (reply into_response sv (Desk List_Budgets))
      else if route_is m path ''PUT'' [''api'', ''budgets''] then
        Some (with_body sv rq (\<lambda>body. field body ''profileId'' (\<lambda>p.
          or_400 (optional_percent body (lit ''fiveHourPct'')) (\<lambda>five.
          or_400 (optional_percent body (lit ''sevenDayPct'')) (\<lambda>seven.
          need (five \<noteq> None \<or> seven \<noteq> None)
            (response_error 400 (lit ''fiveHourPct or sevenDayPct is required; send null to clear one''))
            (reply (\<lambda>r. case r of
                       Ok v \<Rightarrow> into_response (Ok v)
                     | Err e \<Rightarrow> response_error (if starts_with e ERR_UNKNOWN then 404 else 400) e)
              sv (Desk (Set_Budget p five seven))))))))
      else None)"

definition question_routes :: "server \<Rightarrow> request \<Rightarrow> verdict_proof \<Rightarrow> handler option" where
  "question_routes sv rq proof =
     (let m = rq_method rq; path = rq_segments sv rq; status = query rq ''status'' in
      if route_is m path ''POST'' [''api'', ''questions''] then
        Some (with_body sv rq (\<lambda>body. field body ''projectId'' (\<lambda>p. field body ''question'' (\<lambda>q.
          reply core_response sv
            (Desk (Ask_Question p (optional_str body (lit ''workerId'')) q (optional_str body (lit ''options''))))))))
      else if route_is m path ''GET'' [''api'', ''questions''] then
        Some (unknown_project sv (project_query rq)
          (reply into_response sv (Desk (List_Questions (project_query rq) status))))
      else if route_is m path ''POST'' [''api'', ''questions'', ''_'', ''answer''] then
        Some (with_body sv rq (\<lambda>body. or_bad (text_of body ''answer'') (lit ''answer is required'') (\<lambda>a.
          case proof of
            Proven \<Rightarrow> reply core_response sv (Decided (Answer_Question (path ! 2) a ANSWERED_BY_HUMAN))
          | Absent \<Rightarrow> reply core_response sv (Decided (Answer_Question (path ! 2) a ANSWERED_BY_UNVERIFIED))
          | Wrong \<Rightarrow> respond invalid_verdict)))
      else if route_is m path ''GET'' [''api'', ''roles''] then
        Some (unknown_project sv (project_query rq)
          (reply into_response sv (Desk (List_Roles (project_query rq) status))))
      else if route_is m path ''POST'' [''api'', ''roles'', ''_'', ''approve''] then
        Some (reply (done_response Policy_Verdict) sv (Decided (Approve_Role (path ! 2))))
      else if route_is m path ''POST'' [''api'', ''roles'', ''_'', ''reject''] then
        Some (reply (done_response Policy_Verdict) sv (Decided (Reject_Role (path ! 2))))
      else None)"


fun tree_json :: "server \<Rightarrow> tree_node \<Rightarrow> json" where
  "tree_json sv (Tree_Node w kids) =
     JObject (worker_fields (sv_dec sv) w @ [(lit ''children'', JArray (map (tree_json sv) kids))])"

definition project_tree_json :: "server \<Rightarrow> project_tree \<Rightarrow> json" where
  "project_tree_json sv t =
     JObject [(lit ''coordinators'', JArray (map (tree_json sv) (pt_coordinators t))),
              (lit ''workers'', JArray (map (tree_json sv) (pt_workers t)))]"

definition markdown_json :: "ustr option \<Rightarrow> json" where
  "markdown_json md = (case md of None \<Rightarrow> JNull | Some t \<Rightarrow> JString t)"

definition landing_error :: "ustr \<Rightarrow> response" where
  "landing_error e = response_error (if starts_with e (lit ''unknown project'') then 404 else 500) e"

definition stats_query :: "request \<Rightarrow> ustr + stats_range" where
  "stats_query rq =
     (case query rq ''range'' of
        None \<Rightarrow> Ok Range_All
      | Some name \<Rightarrow>
          if name = [] then Ok Range_All
          else ok_or (parse_range name)
                 (lit ''unknown range: '' @ name @ lit '' (today, week, month, all, 7d or 30d)''))"

definition project_routes :: "server \<Rightarrow> request \<Rightarrow> verdict_proof \<Rightarrow> handler option" where
  "project_routes sv rq proof =
     (let m = rq_method rq; path = rq_segments sv rq; status = query rq ''status'' in
      if route_is m path ''GET'' [''api'', ''projects''] then Some (reply into_response sv (Desk List_Projects))
      else if route_is m path ''POST'' [''api'', ''projects''] then
        Some (case refuse_unproven_project_create sv proof of
          Some denied \<Rightarrow> respond denied
        | None \<Rightarrow>
            with_body sv rq (\<lambda>body. field body ''name'' (\<lambda>n. field body ''repoPath'' (\<lambda>r.
            reply core_response sv (Decided (Create_Project n r))))))
      else if route_is m path ''GET'' [''api'', ''projects'', ''_'', ''tree''] then
        Some (unknown_project sv (Some (path ! 2))
          (ask (answers_workers (sv_backend sv)) (Fleet (List_Workers (Some (path ! 2))))
            (\<lambda>r. case r of
                   Ok ws \<Rightarrow> respond (into_response (Ok (project_tree_json sv (build_tree ws))))
                 | Err e \<Rightarrow> respond (response_error 500 e))))
      else if route_is m path ''GET'' [''api'', ''projects'', ''_'', ''learnings''] then
        Some (unknown_project sv (Some (path ! 2))
          (reply into_response sv (Fleet (List_Learnings (Some (path ! 2)) status))))
      else if route_is m path ''GET'' [''api'', ''projects'', ''_'', ''roles''] then
        Some (unknown_project sv (Some (path ! 2))
          (reply into_response sv (Desk (List_Roles (Some (path ! 2)) status))))
      else if route_is m path ''POST'' [''api'', ''projects'', ''_'', ''orchestrator'', ''send''] then
        Some (with_body sv rq (\<lambda>body. or_bad (text_of body ''text'') (lit ''text is required'') (\<lambda>t.
          reply core_response sv (Of_Project (Send_To_Orchestrator (path ! 2) t)))))
      else if route_is m path ''POST'' [''api'', ''projects'', ''_'', ''github'', ''create''] then
        Some (with_body sv rq (\<lambda>body. field body ''name'' (\<lambda>n. or_400 (validate_repo_name n) (\<lambda>_.
          reply core_response sv
            (Of_Project (Create_Github_Repo (path ! 2) n (opt_or (bool_of body ''private'') True)))))))
      else if route_is m path ''POST'' [''api'', ''projects'', ''_'', ''github'', ''link''] then
        Some (with_body sv rq (\<lambda>body. field body ''url'' (\<lambda>u. or_400 (valid_github_url u) (\<lambda>_.
          reply (done_response Policy_Core) sv (Of_Project (Link_Github (path ! 2) u))))))
      else if route_is m path ''GET'' [''api'', ''projects'', ''_'', ''digests''] then
        Some (reply unknown_or_500 sv (Of_Project (List_Digests (path ! 2))))
      else if route_is m path ''GET'' [''api'', ''projects'', ''_'', ''digests'', ''_''] then
        Some (need (is_valid_date (path ! 4)) (response_error 400 (lit ''not a date: '' @ (path ! 4)))
          (ask (answers_text (sv_backend sv)) (Of_Project (Read_Digest (path ! 2) (path ! 4)))
            (\<lambda>r. respond (case r of
               Ok (Some md) \<Rightarrow>
                 response_ok (JObject [(lit ''date'', JString (path ! 4)), (lit ''markdown'', JString md)])
             | Ok None \<Rightarrow> response_error 404 (lit ''no digest for '' @ (path ! 4))
             | Err e \<Rightarrow> response_error (if starts_with e ERR_UNKNOWN then 404 else 500) e))))
      else if route_is m path ''GET'' [''api'', ''projects'', ''_'', ''stats''] then
        Some (or_400 (stats_query rq) (\<lambda>range.
          reply core_response sv (Of_Project (Project_Stats (path ! 2) range))))
      else if route_is m path ''GET'' [''api'', ''projects'', ''_'', ''landing-page''] then
        Some (ask (answers_text (sv_backend sv)) (Of_Project (Get_Landing_Page (path ! 2)))
          (\<lambda>r. respond (case r of
             Ok md \<Rightarrow> response_ok (JObject [(lit ''markdown'', markdown_json md)])
           | Err e \<Rightarrow> landing_error e)))
      else if route_is m path ''POST'' [''api'', ''projects'', ''_'', ''landing-page''] then
        Some (with_body sv rq (\<lambda>body.
          reply (\<lambda>r. case r of Ok _ \<Rightarrow> response_ok ok_true | Err e \<Rightarrow> landing_error e) sv
            (Of_Project (Set_Landing_Page (path ! 2) (text_of body ''markdown'')))))
      else None)"

text \<open>The paths that exist under another verb.\<close>

definition KNOWN_PATHS :: "string list list" where
  "KNOWN_PATHS =
     [[''api'', ''health''], [''api'', ''diagnosis''], [''api'', ''workers''], [''api'', ''workers'', ''_''],
      [''api'', ''workers'', ''_'', ''messages''], [''api'', ''workers'', ''_'', ''send''],
      [''api'', ''workers'', ''_'', ''merge''], [''api'', ''queens''], [''api'', ''board''], [''api'', ''quota''],
      [''api'', ''emergency-stop''], [''api'', ''settings'', ''env-isolation''], [''api'', ''updater''],
      [''api'', ''budgets''], [''api'', ''providers''], [''api'', ''queue''], [''api'', ''queue'', ''_'', ''cancel''],
      [''api'', ''scout''], [''api'', ''scout'', ''triage''], [''api'', ''projects''],
      [''api'', ''projects'', ''_'', ''tree''], [''api'', ''projects'', ''_'', ''orchestrator'', ''send''],
      [''api'', ''projects'', ''_'', ''github'', ''create''], [''api'', ''projects'', ''_'', ''github'', ''link''],
      [''api'', ''projects'', ''_'', ''landing-page''], [''api'', ''projects'', ''_'', ''digests''],
      [''api'', ''projects'', ''_'', ''digests'', ''_''], [''api'', ''projects'', ''_'', ''stats''],
      [''api'', ''projects'', ''_'', ''learnings''], [''api'', ''projects'', ''_'', ''roles''],
      [''api'', ''learnings''], [''api'', ''learnings'', ''_'', ''approve''], [''api'', ''learnings'', ''_'', ''reject''],
      [''api'', ''roles''], [''api'', ''roles'', ''_'', ''approve''], [''api'', ''roles'', ''_'', ''reject''],
      [''api'', ''activity''], [''api'', ''usage''], [''api'', ''recommendations''], [''api'', ''questions''],
      [''api'', ''questions'', ''_'', ''answer''], [''api'', ''recommendations'', ''_'', ''accept''],
      [''api'', ''recommendations'', ''_'', ''status'']]"

definition no_route :: "server \<Rightarrow> request \<Rightarrow> handler" where
  "no_route sv rq =
     respond (if list_ex (\<lambda>p. at_path p (rq_segments sv rq)) KNOWN_PATHS
              then response_error 405 (rq_method rq @ lit '' is not allowed here'')
              else response_error 404 (lit ''no such route: '' @ rq_path rq))"

fun first_route :: "handler option list \<Rightarrow> handler \<Rightarrow> handler" where
  "first_route [] d = d"
| "first_route (None # rs) d = first_route rs d"
| "first_route (Some h # rs) d = h"

definition route :: "server \<Rightarrow> request \<Rightarrow> verdict_proof \<Rightarrow> identity option \<Rightarrow> handler" where
  "route sv rq proof auth =
     first_route
       [hq_route sv rq auth, d4_route sv rq, settings_routes sv rq, question_routes sv rq proof,
        project_routes sv rq proof]
       (no_route sv rq)"


section \<open>Protected decisions\<close>

definition verdict_decision :: "server \<Rightarrow> request \<Rightarrow> ustr option" where
  "verdict_decision sv rq =
     (let m = rq_method rq; path = rq_segments sv rq in
      if route_is m path ''PUT'' [''api'', ''settings'', ''env-isolation'']
      then Some (lit ''changing the agent environment stage'')
      else if m \<noteq> lit ''POST'' then None
      else if list_ex (\<lambda>p. at_path p path)
                [[''api'', ''learnings'', ''_'', ''approve''], [''api'', ''learnings'', ''_'', ''reject''],
                 [''api'', ''roles'', ''_'', ''approve''], [''api'', ''roles'', ''_'', ''reject''],
                 [''api'', ''workers'', ''_'', ''merge'']]
      then Some (lit ''approving, rejecting or merging'')
      else if at_path [''api'', ''emergency-stop''] path \<and>
              (case from_str (codecs_of (sv_dec sv)) (rq_body rq) of
                 Err _ \<Rightarrow> False | Ok body \<Rightarrow> bool_of body ''active'' = Some False)
      then Some (lit ''releasing the emergency stop'')
      else None)"


section \<open>Which calls a handler makes\<close>

text \<open>The handler answers, so it meets no \<open>unreachable!\<close> arm, and every call it makes satisfies \<open>P\<close>.\<close>

definition calls_only :: "(api_call \<Rightarrow> bool) \<Rightarrow> handler \<Rightarrow> bool" where
  "calls_only P h \<longleftrightarrow> (\<forall>calls. \<exists>r more. h calls = (Some r, calls @ more) \<and> list_all P more)"

named_theorems calls_rules \<open>rules for the calls of a handler\<close>

lemma calls_respond [calls_rules]: "calls_only P (respond r)"
  by (simp add: calls_only_def respond_def)

lemma calls_ask [calls_rules]:
  assumes "P c" "\<And>a. calls_only P (k a)"
  shows "calls_only P (ask f c k)"
proof -
  have "\<exists>r more. k a (calls @ [c]) = (Some r, calls @ more) \<and> list_all P more" for a calls
  proof -
    obtain r more where "k a (calls @ [c]) = (Some r, (calls @ [c]) @ more)" "list_all P more"
      using assms(2) unfolding calls_only_def by blast
    with assms(1) show ?thesis by (intro exI [of _ r] exI [of _ "c # more"]) simp
  qed
  then show ?thesis by (simp add: calls_only_def ask_def)
qed

lemma calls_if [calls_rules]:
  "(c \<Longrightarrow> calls_only P h) \<Longrightarrow> (\<not> c \<Longrightarrow> calls_only P g) \<Longrightarrow> calls_only P (if c then h else g)"
  by simp

lemma calls_result [calls_rules]:
  "(\<And>e. r = Err e \<Longrightarrow> calls_only P (f e)) \<Longrightarrow> (\<And>v. r = Ok v \<Longrightarrow> calls_only P (g v)) \<Longrightarrow>
   calls_only P (case r of Err e \<Rightarrow> f e | Ok v \<Rightarrow> g v)"
  by (cases r) auto

lemma calls_option [calls_rules]:
  "(x = None \<Longrightarrow> calls_only P h) \<Longrightarrow> (\<And>v. x = Some v \<Longrightarrow> calls_only P (g v)) \<Longrightarrow>
   calls_only P (case x of None \<Rightarrow> h | Some v \<Rightarrow> g v)"
  by (cases x) auto

lemma calls_bool [calls_rules]:
  "calls_only P h \<Longrightarrow> calls_only P g \<Longrightarrow> calls_only P (case b of True \<Rightarrow> h | False \<Rightarrow> g)"
  by (cases b) auto

lemma calls_or_400 [calls_rules]: "(\<And>v. r = Ok v \<Longrightarrow> calls_only P (k v)) \<Longrightarrow> calls_only P (or_400 r k)"
  unfolding or_400_def by (intro calls_rules) auto

lemma calls_or_bad [calls_rules]: "(\<And>v. x = Some v \<Longrightarrow> calls_only P (k v)) \<Longrightarrow> calls_only P (or_bad x msg k)"
  unfolding or_bad_def by (intro calls_rules) (simp add: ok_or_def split: option.splits)

lemma calls_need [calls_rules]: "(c \<Longrightarrow> calls_only P k) \<Longrightarrow> calls_only P (need c r k)"
  unfolding need_def by (intro calls_rules)

lemma calls_reply [calls_rules]: "P c \<Longrightarrow> calls_only P (reply f sv c)"
  unfolding reply_def by (intro calls_rules)

lemma calls_body [calls_rules]:
  "(\<And>body. json_body sv rq = Ok body \<Longrightarrow> calls_only P (k body)) \<Longrightarrow> calls_only P (with_body sv rq k)"
  unfolding with_body_def by (intro calls_rules)

lemma calls_field [calls_rules]:
  "(\<And>v. required_str body (lit key) = Ok v \<Longrightarrow> calls_only P (k v)) \<Longrightarrow> calls_only P (field body key k)"
  unfolding field_def by (intro calls_rules)

lemma calls_needs_project [calls_rules]: "(\<And>p. calls_only P (k p)) \<Longrightarrow> calls_only P (needs_project rq k)"
  unfolding needs_project_def by (intro calls_rules)

lemma calls_project [calls_rules]:
  "(\<And>p. P (Desk (Project_Exists p))) \<Longrightarrow> calls_only P h \<Longrightarrow> calls_only P (unknown_project sv project h)"
  unfolding unknown_project_def by (intro calls_rules)

lemma calls_worker [calls_rules]:
  "P (Fleet (Worker_State w)) \<Longrightarrow> (\<And>st. calls_only P (k st)) \<Longrightarrow> calls_only P (known_worker sv w k)"
  unfolding known_worker_def by (intro calls_rules)

lemma calls_and_after [calls_rules]: "P c \<Longrightarrow> calls_only P h \<Longrightarrow> calls_only P (and_after sv c h)"
  unfolding and_after_def by (intro calls_rules)

lemma calls_active [calls_rules]: "P (Desk Emergency_Stop_Active) \<Longrightarrow> calls_only P (active_reply sv)"
  unfolding active_reply_def by (intro calls_rules)

lemma calls_stage [calls_rules]: "P (Desk Env_Isolation) \<Longrightarrow> calls_only P (stage_reply sv)"
  unfolding stage_reply_def by (intro calls_rules)

lemma calls_proof [calls_rules]:
  "(p = Proven \<Longrightarrow> calls_only P h) \<Longrightarrow> (p = Absent \<Longrightarrow> calls_only P g) \<Longrightarrow> (p = Wrong \<Longrightarrow> calls_only P f) \<Longrightarrow>
   calls_only P (case p of Proven \<Rightarrow> h | Absent \<Rightarrow> g | Wrong \<Rightarrow> f)"
  by (cases p) auto

definition route_calls :: "(api_call \<Rightarrow> bool) \<Rightarrow> handler option \<Rightarrow> bool" where
  "route_calls P h \<longleftrightarrow> (case h of None \<Rightarrow> True | Some h \<Rightarrow> calls_only P h)"

lemma route_calls_simps [simp]: "route_calls P None" "route_calls P (Some h) = calls_only P h"
  by (simp_all add: route_calls_def)

lemma route_calls_if [calls_rules]:
  "(c \<Longrightarrow> route_calls P h) \<Longrightarrow> (\<not> c \<Longrightarrow> route_calls P g) \<Longrightarrow> route_calls P (if c then h else g)"
  by simp

lemma route_calls_Some [calls_rules]: "calls_only P h \<Longrightarrow> route_calls P (Some h)" by simp
lemma route_calls_None [calls_rules]: "route_calls P None" by simp

lemma calls_first: "list_all (route_calls P) rs \<Longrightarrow> calls_only P d \<Longrightarrow> calls_only P (first_route rs d)"
  by (induction rs d rule: first_route.induct) auto

lemma calls_mono: "calls_only P h \<Longrightarrow> (\<And>c. P c \<Longrightarrow> Q c) \<Longrightarrow> calls_only Q h"
  unfolding calls_only_def list_all_iff by metis

subsection \<open>What an operator's request may cause\<close>

text \<open>A policy that leaves every ordinary call open and reserves the decisions for a proven verdict
  token, except that the stop may be raised, a question answered as unverified, and a project
  registered by an isolated process.\<close>

locale operator_policy =
  fixes P :: "api_call \<Rightarrow> bool" and proven isolated :: bool
  assumes open_calls: "P (Fleet f)" "P (Desk d)" "P (Hq h)" "P (Of_Project q)" "P (Planned None w)"
    and decisions: "proven \<Longrightarrow> P (Decided x)"
    and raising: "P (Decided (Set_Emergency_Stop True who))"
    and unverified: "P (Decided (Answer_Question i a ANSWERED_BY_UNVERIFIED))"
    and scratch: "isolated \<Longrightarrow> P (Decided (Create_Project n r))"
begin

lemmas policy_rules = open_calls raising unverified

lemma discovery_calls: "discovery_owned (rq_method rq) (rq_segments sv rq) \<Longrightarrow> calls_only P (discovery sv rq)"
  unfolding discovery_def Let_def by (intro calls_rules policy_rules) (auto simp: discovery_owned_def)

lemma governance_calls:
  assumes "governance_owned (rq_method rq) (rq_segments sv rq)" "verdict_decision sv rq \<noteq> None \<Longrightarrow> proven"
  shows "calls_only P (governance sv rq)"
proof -
  have "P (Decided x)" if "route_is (rq_method rq) (rq_segments sv rq) ''POST'' [''api'', ''learnings'', ''_'', v]"
    "v = ''approve'' \<or> v = ''reject''" for x v
    using that assms(2) by (intro decisions) (auto simp: verdict_decision_def Let_def route_is_def)
  then show ?thesis
    unfolding governance_def Let_def
    by (intro calls_rules policy_rules) (use assms(1) in \<open>auto simp: governance_owned_def\<close>)
qed

lemma worker_read_calls: "worker_read_owned (rq_method rq) (rq_segments sv rq) \<Longrightarrow> calls_only P (worker_read sv rq)"
  unfolding worker_read_def Let_def by (intro calls_rules policy_rules) (auto simp: worker_read_owned_def)

lemma worker_write_calls:
  assumes "worker_write_owned (rq_method rq) (rq_segments sv rq)" "verdict_decision sv rq \<noteq> None \<Longrightarrow> proven"
  shows "calls_only P (worker_write sv rq)"
proof -
  have "P (Decided x)" if "route_is (rq_method rq) (rq_segments sv rq) ''POST'' [''api'', ''workers'', ''_'', ''merge'']" for x
    using that assms(2) by (intro decisions) (auto simp: verdict_decision_def Let_def route_is_def)
  then show ?thesis
    unfolding worker_write_def Let_def
    by (intro calls_rules policy_rules) (use assms(1) in \<open>auto simp: worker_write_owned_def\<close>)
qed

lemma queue_calls: "queue_owned (rq_method rq) (rq_segments sv rq) \<Longrightarrow> calls_only P (queue_routes sv rq)"
  unfolding queue_routes_def Let_def by (intro calls_rules policy_rules) (auto simp: queue_owned_def)

lemma d4_calls: "(verdict_decision sv rq \<noteq> None \<Longrightarrow> proven) \<Longrightarrow> route_calls P (d4_route sv rq)"
  unfolding d4_route_def Let_def
  by (intro calls_rules discovery_calls governance_calls worker_read_calls worker_write_calls queue_calls)

lemma hq_calls: "hq_owned (rq_method rq) (rq_segments sv rq) \<Longrightarrow> calls_only P (hq_handle sv rq None)"
  unfolding hq_handle_def Let_def get_plan_def import_plan_def get_context_def post_goal_def post_task_def
    post_assignment_def post_claim_def post_checkpoint_def post_control_def
  by (intro calls_rules policy_rules) (auto simp: hq_owned_def)

lemma settings_calls:
  assumes "verdict_decision sv rq \<noteq> None \<Longrightarrow> proven"
  shows "route_calls P (settings_routes sv rq)"
proof -
  have stage: "P (Decided x)"
    if "route_is (rq_method rq) (rq_segments sv rq) ''PUT'' [''api'', ''settings'', ''env-isolation'']" for x
    using that assms by (intro decisions) (simp add: verdict_decision_def)
  have stop: "P (Decided (Set_Emergency_Stop active (lit ''pa'')))"
    if "route_is (rq_method rq) (rq_segments sv rq) ''POST'' [''api'', ''emergency-stop'']"
      and body: "json_body sv rq = Ok body" "ok_or (bool_of body ''active'') e = Ok active" for active body e
  proof (cases active)
    case False
    with body(2) have b: "bool_of body ''active'' = Some False" by (simp add: ok_or_def split: option.splits)
    then have "trim (rq_body rq) \<noteq> []"
      using body(1) by (auto simp: json_body_def parse_body_def bool_of_def jget_def)
    with body(1) have "from_str (codecs_of (sv_dec sv)) (rq_body rq) = Ok body"
      by (simp add: json_body_def parse_body_def split: sum.splits)
    with that(1) b have "verdict_decision sv rq \<noteq> None"
      by (simp add: verdict_decision_def Let_def route_is_def)
    then show ?thesis by (intro decisions assms)
  qed (simp add: raising)
  show ?thesis
    unfolding settings_routes_def Let_def
    by (intro calls_rules policy_rules) (simp_all add: stage stop)
qed

lemma question_calls:
  assumes "verdict_decision sv rq \<noteq> None \<Longrightarrow> proven" "proof = Proven \<Longrightarrow> proven"
  shows "route_calls P (question_routes sv rq proof)"
proof -
  have "P (Decided x)" if "route_is (rq_method rq) (rq_segments sv rq) ''POST'' [''api'', ''roles'', ''_'', v]"
    "v = ''approve'' \<or> v = ''reject''" for x v
    using that assms(1) by (intro decisions) (auto simp: verdict_decision_def Let_def route_is_def)
  then show ?thesis
    unfolding question_routes_def Let_def
    by (intro calls_rules policy_rules) (simp_all add: decisions assms(2))
qed

lemma project_calls:
  assumes "proof = Proven \<Longrightarrow> proven" "allow_unproven_project_create sv \<Longrightarrow> isolated"
  shows "route_calls P (project_routes sv rq proof)"
proof -
  have "P (Decided (Create_Project n r))" if "refuse_unproven_project_create sv proof = None" for n r
    using that assms by (auto simp: refuse_unproven_project_create_def intro: decisions scratch
        split: if_splits verdict_proof.splits)
  then show ?thesis
    unfolding project_routes_def Let_def by (intro calls_rules policy_rules) simp_all
qed

lemma route_calls:
  assumes "verdict_decision sv rq \<noteq> None \<Longrightarrow> proven" "proof = Proven \<Longrightarrow> proven"
    "allow_unproven_project_create sv \<Longrightarrow> isolated"
  shows "calls_only P (route sv rq proof None)"
  unfolding route_def no_route_def
  using d4_calls [OF assms(1)] settings_calls [OF assms(1)] question_calls [OF assms(1,2)]
    project_calls [OF assms(2,3)]
  by (intro calls_first) (simp_all add: hq_route_def hq_calls calls_respond)

end

end
