(* ===== verification/Api_Access.thy ===== *)
theory Api_Access
  imports Api_Routes Run_Credentials
begin

text \<open>
  Who may do what over the control API: the two gates of \<open>handle\<close> in \<open>src-tauri/src/api.rs\<close>, the
  routes of a run's credential in \<open>api/agent_access.rs\<close> and its planning writes in
  \<open>api/planning_access.rs\<close>.
\<close>

section \<open>The routes of a run\<close>

definition TOKEN_HEADER :: ustr where "TOKEN_HEADER = lit ''x-projecta-token''"

definition header :: "request \<Rightarrow> ustr \<Rightarrow> ustr option" where
  "header rq name = map_of (rq_headers rq) name"

definition scope_error :: response where
  "scope_error = response_error 403 (lit ''run credentials cannot carry verdict authority or override scope'')"

definition oversteps :: "request \<Rightarrow> bool" where
  "oversteps rq \<longleftrightarrow> header rq VERDICT_TOKEN_HEADER \<noteq> None \<or> rq_query rq \<noteq> []"

definition parse_delivery :: "server \<Rightarrow> ustr \<Rightarrow> ustr + worker_delivery" where
  "parse_delivery sv body =
     (case dec_delivery (sv_dec sv) body of
        None \<Rightarrow> Err (lit ''invalid delivery input'')
      | Some (outcome, why) \<Rightarrow>
          if outcome = lit ''done'' then
            (case why of None \<Rightarrow> Ok Delivery_Done
             | Some _ \<Rightarrow> Err (lit ''a done delivery takes no reason''))
          else if outcome = lit ''blocked'' then
            (case opt_filter (\<lambda>r. trim r \<noteq> []) why of
               Some r \<Rightarrow> Ok (Delivery_Blocked r)
             | None \<Rightarrow> Err (lit ''a blocked delivery requires a non-empty reason''))
          else Err (lit ''delivery outcome must be done or blocked''))"

definition delivery_value :: "receipt \<Rightarrow> json" where
  "delivery_value = (\<lambda>(run_id, st, repeated, value).
     JObject [(lit ''apiVersion'', JInt 1), (lit ''runId'', JString run_id), (lit ''status'', JString st),
              (lit ''repeated'', JBool repeated), (lit ''run'', value)])"

definition approval_authority :: json where
  "approval_authority =
     JObject [(lit ''state'', JString (lit ''unavailable'')),
              (lit ''detail'', JString (lit ''reviewer principals come from launch route receipts; approval needs signed verdicts, which are not implemented'')),
              (lit ''reviewerPrincipal'', JString (lit ''launch-route-receipt''))]"

definition or_null :: "json \<Rightarrow> string \<Rightarrow> json" where
  "or_null context name = opt_or (jget (lit name) context) JNull"

definition release_view :: "ustr \<Rightarrow> json \<Rightarrow> json" where
  "release_view run_id context =
     JObject [(lit ''apiVersion'', JInt 1), (lit ''source'', JString (lit ''rust/sqlite'')),
       (lit ''sourceTimestamp'', or_null context ''sourceTimestamp''), (lit ''runId'', JString run_id),
       (lit ''runStatus'', opt_or (opt_then (jget (lit ''run'') context) (jget (lit ''status''))) JNull),
       (lit ''candidate'', or_null context ''candidate''),
       (lit ''evidenceTotal'', or_null context ''evidenceTotal''),
       (lit ''reviewTotal'', or_null context ''reviewTotal''),
       (lit ''delivery'', JObject [(lit ''state'', JString (lit ''unavailable'')),
          (lit ''reason'', JString (lit ''release authority is outside a scoped run credential'')),
          (lit ''automaticDelivery'', JBool False)]),
       (lit ''approvalAuthority'', approval_authority)]"

definition lessons_view :: "ustr \<Rightarrow> json \<Rightarrow> json" where
  "lessons_view run_id context =
     JObject [(lit ''apiVersion'', JInt 1), (lit ''source'', JString (lit ''rust/sqlite'')),
       (lit ''sourceTimestamp'', or_null context ''sourceTimestamp''), (lit ''runId'', JString run_id),
       (lit ''lessons'', opt_or (opt_then (jget (lit ''guidance'') context) (jget (lit ''lessons'')))
          (JObject [(lit ''state'', JString (lit ''unavailable'')),
             (lit ''reason'', JString (lit ''run guidance did not include lessons'')),
             (lit ''instructionAuthority'', JBool False)])),
       (lit ''instructionAuthority'', JBool False)]"

definition agent_error :: "ustr \<Rightarrow> response" where
  "agent_error err =
     (if starts_with err (lit ''reviewer must be independent'') \<or>
         err = lit ''reviewer run belongs to another project'' then response_error 403 err
      else if err = lit ''review evidence does not exist'' then response_error 404 err
      else if str_contains err (lit ''idempotency key was reused'') \<or>
              err = lit ''review evidence is not valid for the reviewed run and candidate'' \<or>
              starts_with_any err
                [''checkpoint idempotency key reused'', ''checkpoint revision changed'',
                 ''checkpoint evidence is missing''] \<or>
              contains_any err
                [''development run is not active'', ''candidate does not match'', ''candidate must be bound''] \<or>
              starts_with_any err [''candidate scope check failed:'', ''ambiguous candidate observation:'']
      then response_error 409 err
      else if str_contains err (lit ''cannot be in the future'') \<or>
              starts_with_any err [''invalid record cursor'', ''invalid or mismatched record cursor''] \<or>
              str_contains err (lit ''cannot use a null value'') \<or>
              starts_with err (lit ''checkpoint exceeds'')
      then response_error 400 err
      else continuous_error err)"

definition run_result :: "ustr + json \<Rightarrow> response" where
  "run_result r =
     (case r of
        Ok v \<Rightarrow> response_ok v
      | Err e \<Rightarrow>
          if str_contains e (lit ''unauthorized'')
          then response_error 403 (lit ''run ownership is no longer authorized'')
          else agent_error e)"

definition delivery_result :: "delivery_error + receipt \<Rightarrow> response" where
  "delivery_result r =
     (case r of
        Ok rc \<Rightarrow> run_result (Ok (delivery_value rc))
      | Err (Conflict e) \<Rightarrow> response_error 409 e
      | Err (Failed e) \<Rightarrow> run_result (Err e))"

definition agent_is :: "ustr \<Rightarrow> ustr list \<Rightarrow> string \<Rightarrow> string list \<Rightarrow> bool" where
  "agent_is m path verb rest \<longleftrightarrow> route_is m path verb ([''api'', ''hq'', ''v1'', ''agent''] @ rest)"

definition handle_run :: "server \<Rightarrow> request \<Rightarrow> identity \<Rightarrow> handler" where
  "handle_run sv rq a =
     (if oversteps rq then respond scope_error
      else
        let m = rq_method rq; path = rq_segments sv rq; dec = sv_dec sv; run_id = fst a;
            call = (\<lambda>c. reply run_result sv (As_Run c)) in
        if agent_is m path ''GET'' [''records'', ''_'', ''_''] \<and>
           (path ! 5 = lit ''evidence'' \<or> path ! 5 = lit ''reviews'') then
          call (Agent_Record_Page a (path ! 5) (if path ! 6 = lit ''start'' then None else Some (path ! 6)))
        else if agent_is m path ''GET'' [''checkpoint'', ''_''] then
          or_bad (positive (path ! 5)) (lit ''invalid checkpoint revision'') (\<lambda>rev.
            call (Agent_Checkpoint_At a rev))
        else if agent_is m path ''GET'' [''evidence'', ''_''] then call (Agent_Evidence a (path ! 5))
        else if agent_is m path ''GET'' [''context''] then call (Agent_Run_Context a)
        else if agent_is m path ''GET'' [''lessons''] then
          reply (\<lambda>r. run_result (ok_map (lessons_view run_id) r)) sv (As_Run (Agent_Run_Context a))
        else if agent_is m path ''GET'' [''release''] then
          reply (\<lambda>r. run_result (ok_map (release_view run_id) r)) sv (As_Run (Agent_Run_Context a))
        else if agent_is m path ''POST'' [''checkpoint''] then
          or_bad (dec_checkpoint dec (rq_body rq)) (lit ''invalid checkpoint input'') (\<lambda>i.
            call (Agent_Checkpoint a i))
        else if agent_is m path ''POST'' [''candidate''] then
          or_bad (dec_candidate dec (rq_body rq)) (lit ''invalid candidate input'') (\<lambda>i.
            call (Agent_Bind_Candidate a i))
        else if agent_is m path ''POST'' [''evidence''] then
          or_bad (dec_evidence dec (rq_body rq)) (lit ''invalid evidence input'') (\<lambda>i.
            call (Agent_Submit_Evidence a i))
        else if agent_is m path ''POST'' [''review''] then
          or_bad (dec_review dec (rq_body rq)) (lit ''invalid review input'') (\<lambda>i.
            call (Agent_Submit_Review a i))
        else if agent_is m path ''POST'' [''delivery''] then
          or_400 (parse_delivery sv (rq_body rq)) (\<lambda>d.
            ask (answers_delivery (sv_backend sv)) (As_Run (Agent_Record_Delivery a d))
              (\<lambda>r. respond (delivery_result r)))
        else respond (response_error 403 (lit ''route is outside this run credential scope'')))"

section \<open>Planning by a coordinator\<close>

definition is_planning :: "server \<Rightarrow> request \<Rightarrow> bool" where
  "is_planning sv rq \<longleftrightarrow>
     rq_method rq = lit ''POST'' \<and>
     list_ex (\<lambda>p. hq_path (rq_segments sv rq) p)
       [[''plan'', ''import''], [''goals''], [''goals'', ''_'', ''tasks''], [''tasks'', ''_'', ''assignment'']]"

definition NEEDS_COORDINATOR :: ustr where
  "NEEDS_COORDINATOR = lit ''planning requires the coordinator dispatch role''"

definition admits_new_root :: "server \<Rightarrow> request \<Rightarrow> bool" where
  "admits_new_root sv rq \<longleftrightarrow>
     hq_path (rq_segments sv rq) [''goals''] \<and>
     (case json_body sv rq of
        Err _ \<Rightarrow> False
      | Ok body \<Rightarrow>
          optional_bool body (lit ''admit'') = Ok (Some True) \<and> optional_str body (lit ''sourceGoalId'') = None)"

definition assigns_coordinator :: "server \<Rightarrow> request \<Rightarrow> bool" where
  "assigns_coordinator sv rq \<longleftrightarrow>
     hq_path (rq_segments sv rq) [''tasks'', ''_'', ''assignment''] \<and>
     (case dec_assignment (sv_dec sv) (rq_body rq) of
        Err _ \<Rightarrow> False
      | Ok a \<Rightarrow> trim (as_role a) = role_text Coordinator)"

text \<open>What the request aims at; \<open>None\<close> is the \<open>unreachable!\<close> arm.\<close>

definition planning_target :: "server \<Rightarrow> request \<Rightarrow> (ustr + ustr \<times> ustr) option" where
  "planning_target sv rq =
     (let path = rq_segments sv rq in
      if (length path = 5 \<and> path ! 3 = lit ''plan'' \<and> path ! 4 = lit ''import'') \<or>
         (length path = 4 \<and> path ! 3 = lit ''goals'') then
        Some (ok_map (Pair (lit ''project''))
          (and_then (json_body sv rq) (\<lambda>body. required_str body (lit ''projectId''))))
      else if length path = 6 \<and> path ! 3 = lit ''goals'' \<and> path ! 5 = lit ''tasks'' then
        Some (Ok (lit ''goal'', path ! 4))
      else if length path = 6 \<and> path ! 3 = lit ''tasks'' \<and> path ! 5 = lit ''assignment'' then
        Some (Ok (lit ''task'', path ! 4))
      else None)"

definition new_root_error :: response where
  "new_root_error = response_error 403
     (lit ''admitting a new autonomous root goal is an operator decision; a coordinator admits only replans of an existing goal (sourceGoalId)'')"

definition coordinator_error :: response where
  "coordinator_error = response_error 403
     (lit ''assigning the coordinator role is an operator decision; a coordinator assigns only implementer, reviewer and integrator work'')"

definition decide :: "server \<Rightarrow> request \<Rightarrow> identity \<Rightarrow> handler" where
  "decide sv rq a =
     (if oversteps rq then respond scope_error
      else
        ask (answers_role (sv_backend sv)) (As_Run (Agent_Dispatch_Role a)) (\<lambda>role.
        case role of
          Err e \<Rightarrow> respond (response_error 403
            (NEEDS_COORDINATOR @ lit ''; the role of this run credential is unresolved: '' @ e))
        | Ok r \<Rightarrow>
            if r \<noteq> Coordinator then respond (response_error 403
              (NEEDS_COORDINATOR @ lit ''; this run credential dispatches as '' @ role_text r))
            else
              case planning_target sv rq of
                None \<Rightarrow> unreachable
              | Some target \<Rightarrow>
                  or_400 target (\<lambda>(kind, t).
                  ask (answers (sv_backend sv)) (As_Run (Agent_Planning_Scope a kind t)) (\<lambda>scope.
                  if \<not> is_ok scope then respond (response_error 403 PLANNING_REFUSED)
                  else if admits_new_root sv rq then respond new_root_error
                  else if assigns_coordinator sv rq then respond coordinator_error
                  else route sv rq Absent (Some a)))))"

definition refusal_reason :: "response \<Rightarrow> ustr" where
  "refusal_reason r = opt_or (opt_then (jget (lit ''error'') (rs_body r)) as_str) (lit ''forbidden'')"

definition plan_as_run :: "server \<Rightarrow> request \<Rightarrow> identity \<Rightarrow> handler" where
  "plan_as_run sv rq a = (\<lambda>calls.
     case decide sv rq a calls of
       (None, calls) \<Rightarrow> (None, calls)
     | (Some r, calls) \<Rightarrow>
         let audit = (\<lambda>result after.
               ask (answers (sv_backend sv))
                 (As_Run (Audit_Planning (fst a) result (rq_method rq @ [32] @ rq_path rq))) after calls) in
         if 200 \<le> rs_status r \<and> rs_status r \<le> 299 then
           audit (lit ''accepted'') (\<lambda>x. case x of
             Err e \<Rightarrow> respond (response_error 500 (lit ''planning write applied but its audit failed: '' @ e))
           | Ok _ \<Rightarrow> respond r)
         else if rs_status r = 403 then audit (lit ''refused: '' @ refusal_reason r) (\<lambda>_. respond r)
         else (Some r, calls))"

section \<open>The gates\<close>

definition verdict_proof_of :: "server \<Rightarrow> request \<Rightarrow> verdict_proof" where
  "verdict_proof_of sv rq =
     (case header rq VERDICT_TOKEN_HEADER of
        None \<Rightarrow> Absent
      | Some t \<Rightarrow> if token_eq t (sv_verdict_token sv) then Proven else Wrong)"

definition handle :: "server \<Rightarrow> credentials \<Rightarrow> int \<Rightarrow> request \<Rightarrow> handler" where
  "handle sv cr now rq =
     (case header rq TOKEN_HEADER of
        None \<Rightarrow> respond (response_error 401 (lit ''missing '' @ TOKEN_HEADER @ lit '' header''))
      | Some t \<Rightarrow>
          if token_eq t (sv_token sv) then
            (let proof = verdict_proof_of sv rq in
             case verdict_decision sv rq of
               None \<Rightarrow> route sv rq proof None
             | Some what \<Rightarrow>
                 (case proof of
                    Proven \<Rightarrow> route sv rq proof None
                  | Wrong \<Rightarrow> respond invalid_verdict
                  | Absent \<Rightarrow> respond (missing_verdict
                      (what @ lit '' is a human or coordinator decision''))))
          else
            (case lookup t now cr of
               None \<Rightarrow> respond (response_error 401 (lit ''invalid api token''))
             | Some g \<Rightarrow>
                 if is_planning sv rq then plan_as_run sv rq (principal g)
                 else handle_run sv rq (principal g)))"


section \<open>Who may cause what\<close>

text \<open>The specification of authentication, without the order of the gates, and the table of what each
  caller may cause.\<close>

datatype caller = Stranger | Operator bool | Of_Run identity

definition same_secret :: "ustr option \<Rightarrow> ustr \<Rightarrow> bool" where
  "same_secret h secret \<longleftrightarrow> (\<exists>t. h = Some t \<and> as_bytes t = as_bytes secret)"

definition caller_of :: "server \<Rightarrow> credentials \<Rightarrow> int \<Rightarrow> request \<Rightarrow> caller" where
  "caller_of sv cr now rq =
     (if same_secret (header rq TOKEN_HEADER) (sv_token sv)
      then Operator (same_secret (header rq VERDICT_TOKEN_HEADER) (sv_verdict_token sv))
      else
        case opt_then (header rq TOKEN_HEADER) (\<lambda>t. lookup t now cr) of
          Some g \<Rightarrow> Of_Run (principal g) | None \<Rightarrow> Stranger)"

primrec run_may :: "identity \<Rightarrow> run_call \<Rightarrow> bool" where
  "run_may a (Agent_Record_Page b c p) = (a = b)"
| "run_may a (Agent_Checkpoint_At b n) = (a = b)"
| "run_may a (Agent_Evidence b i) = (a = b)"
| "run_may a (Agent_Run_Context b) = (a = b)"
| "run_may a (Agent_Checkpoint b i) = (a = b)"
| "run_may a (Agent_Bind_Candidate b i) = (a = b)"
| "run_may a (Agent_Submit_Evidence b i) = (a = b)"
| "run_may a (Agent_Submit_Review b i) = (a = b)"
| "run_may a (Agent_Record_Delivery b d) = (a = b)"
| "run_may a (Agent_Dispatch_Role b) = (a = b)"
| "run_may a (Agent_Planning_Scope b k t) = (a = b)"
| "run_may a (Audit_Planning r x y) = (r = fst a)"

fun coordinator_may :: "plan_call \<Rightarrow> bool" where
  "coordinator_may (Create_Goal p ob ac src admit) = (\<not> admit \<or> src \<noteq> None)"
| "coordinator_may (Assign_Task t r) = (trim (as_role r) \<noteq> lit ''coordinator'')"
| "coordinator_may w = True"

fun open_decision :: "bool \<Rightarrow> decision_call \<Rightarrow> bool" where
  "open_decision isolated (Set_Emergency_Stop active who) = active"
| "open_decision isolated (Answer_Question q a by) = (by = lit ''unverified'')"
| "open_decision isolated (Create_Project n r) = isolated"
| "open_decision isolated d = False"

fun may :: "bool \<Rightarrow> caller \<Rightarrow> api_call \<Rightarrow> bool" where
  "may isolated Stranger c = False"
| "may isolated (Operator proven) (As_Run r) = False"
| "may isolated (Operator proven) (Planned auth w) = (auth = None)"
| "may isolated (Operator proven) (Decided d) = (proven \<or> open_decision isolated d)"
| "may isolated (Operator proven) c = True"
| "may isolated (Of_Run a) (As_Run r) = run_may a r"
| "may isolated (Of_Run a) (Planned auth w) = (auth = Some a \<and> coordinator_may w)"
| "may isolated (Of_Run a) c = False"

interpretation operator: operator_policy "may isolated (Operator proven)" proven isolated
  for isolated proven
  by unfold_locales (simp_all add: ANSWERED_BY_UNVERIFIED_def)

lemma handle_run_calls: "calls_only (may isolated (Of_Run a)) (handle_run sv rq a)"
  unfolding handle_run_def Let_def by (intro calls_rules) simp_all

subsection \<open>Planning\<close>

lemma at_path_Nil: "at_path [] path \<longleftrightarrow> path = []"
  by (cases path) simp_all

lemma at_path_Cons: "at_path (p # ps) path \<longleftrightarrow> (\<exists>s ss. path = s # ss \<and> (p = ''_'' \<or> s = lit p) \<and> at_path ps ss)"
  by (cases path) simp_all

lemmas path_simps = hq_path_def at_path_Nil at_path_Cons

definition target_of :: "plan_call \<Rightarrow> ustr \<times> ustr" where
  "target_of w =
     (case w of
        Import_Plan p _ _ _ \<Rightarrow> (lit ''project'', p)
      | Create_Goal p _ _ _ _ \<Rightarrow> (lit ''project'', p)
      | Create_Task g _ _ _ _ \<Rightarrow> (lit ''goal'', g)
      | Assign_Task t _ \<Rightarrow> (lit ''task'', t))"

text \<open>At most one call, and it satisfies \<open>P\<close>.\<close>

definition one_call :: "(api_call \<Rightarrow> bool) \<Rightarrow> handler \<Rightarrow> bool" where
  "one_call P h \<longleftrightarrow> (\<forall>calls. \<exists>r. h calls = (Some r, calls) \<or> (\<exists>c. P c \<and> h calls = (Some r, calls @ [c])))"

lemma one_respond: "one_call P (respond r)"
  by (simp add: one_call_def respond_def)

lemma one_or_400: "(\<And>v. r = Ok v \<Longrightarrow> one_call P (k v)) \<Longrightarrow> one_call P (or_400 r k)"
  unfolding or_400_def by (cases r) (simp_all add: one_respond)

lemma one_or_bad: "(\<And>v. x = Some v \<Longrightarrow> one_call P (k v)) \<Longrightarrow> one_call P (or_bad x msg k)"
  unfolding or_bad_def by (intro one_or_400) (simp add: ok_or_def split: option.splits)

lemma one_need: "one_call P k \<Longrightarrow> one_call P (need c r k)"
  by (simp add: need_def one_respond)

lemma one_reply: "P c \<Longrightarrow> one_call P (reply f sv c)"
  by (simp add: one_call_def reply_def ask_def respond_def)

lemma one_body: "(\<And>b. json_body sv rq = Ok b \<Longrightarrow> one_call P (k b)) \<Longrightarrow> one_call P (with_body sv rq k)"
  unfolding with_body_def by (rule one_or_400)

lemma one_field:
  "(\<And>v. required_str body (lit key) = Ok v \<Longrightarrow> one_call P (k v)) \<Longrightarrow> one_call P (field body key k)"
  unfolding field_def by (rule one_or_400)

lemma one_result:
  "(\<And>e. r = Err e \<Longrightarrow> one_call P (f e)) \<Longrightarrow> (\<And>v. r = Ok v \<Longrightarrow> one_call P (g v)) \<Longrightarrow>
   one_call P (case r of Err e \<Rightarrow> f e | Ok v \<Rightarrow> g v)"
  by (cases r) auto

lemmas one_rules = one_respond one_or_400 one_or_bad one_need one_reply one_body one_field one_result

text \<open>A planning write of a coordinator that names what the scope was asked for.\<close>

definition scoped_write :: "server \<Rightarrow> request \<Rightarrow> identity \<Rightarrow> api_call \<Rightarrow> bool" where
  "scoped_write sv rq a c \<longleftrightarrow>
     (\<exists>w. c = Planned (Some a) w \<and> coordinator_may w \<and> planning_target sv rq = Some (Ok (target_of w)))"

lemma planning_cases:
  assumes "is_planning sv rq"
  obtains (import_) "rq_segments sv rq = map lit [''api'', ''hq'', ''v1'', ''plan'', ''import'']"
  | (goals) "rq_segments sv rq = map lit [''api'', ''hq'', ''v1'', ''goals'']"
  | (tasks) g where "rq_segments sv rq = map lit [''api'', ''hq'', ''v1'', ''goals''] @ [g, lit ''tasks'']"
  | (assignment) t where "rq_segments sv rq = map lit [''api'', ''hq'', ''v1'', ''tasks''] @ [t, lit ''assignment'']"
  using assms unfolding is_planning_def by (auto simp: path_simps)


lemma lit_eq [simp]: "lit s = lit t \<longleftrightarrow> s = t"
  unfolding lit_def by (rule inj_map_eq_map) (simp add: inj_def)

lemmas planning_simps = route_def hq_route_def hq_owned_def hq_handle_def hq_is_def path_simps agent_path_def Let_def

lemma planning_method: "is_planning sv rq \<Longrightarrow> rq_method rq = lit ''POST''"
  by (simp add: is_planning_def)

lemma route_import:
  "rq_segments sv rq = map lit [''api'', ''hq'', ''v1'', ''plan'', ''import''] \<Longrightarrow> rq_method rq = lit ''POST'' \<Longrightarrow>
   route sv rq proof auth = import_plan sv rq auth"
  by (simp add: planning_simps)

lemma route_goals:
  "rq_segments sv rq = map lit [''api'', ''hq'', ''v1'', ''goals''] \<Longrightarrow> rq_method rq = lit ''POST'' \<Longrightarrow>
   route sv rq proof auth = post_goal sv rq auth"
  by (simp add: planning_simps)

lemma route_tasks:
  "rq_segments sv rq = map lit [''api'', ''hq'', ''v1'', ''goals''] @ [g, lit ''tasks''] \<Longrightarrow>
   rq_method rq = lit ''POST'' \<Longrightarrow> route sv rq proof auth = post_task sv rq auth g"
  by (simp add: planning_simps)

lemma route_assignment:
  "rq_segments sv rq = map lit [''api'', ''hq'', ''v1'', ''tasks''] @ [t, lit ''assignment''] \<Longrightarrow>
   rq_method rq = lit ''POST'' \<Longrightarrow> route sv rq proof auth = post_assignment sv rq auth t"
  by (simp add: planning_simps)

lemma planning_route:
  assumes "is_planning sv rq" "\<not> admits_new_root sv rq" "\<not> assigns_coordinator sv rq"
  shows "one_call (scoped_write sv rq a) (route sv rq Absent (Some a))"
  using assms(1)
proof (cases rule: planning_cases)
  case import_
  have "one_call (scoped_write sv rq a) (import_plan sv rq (Some a))"
    unfolding import_plan_def
    by (intro one_rules)
       (auto simp: scoped_write_def planning_target_def import_ Let_def ok_map_def and_then_def target_of_def)
  then show ?thesis using import_ planning_method [OF assms(1)] by (simp only: route_import)
next
  case goals
  have root: "\<not> (admit = Some True \<and> optional_str body (lit ''sourceGoalId'') = None)"
    if "json_body sv rq = Ok body" "optional_bool body (lit ''admit'') = Ok admit" for body admit
    using assms(2) that by (auto simp: admits_new_root_def goals path_simps)
  have "one_call (scoped_write sv rq a) (post_goal sv rq (Some a))"
    unfolding post_goal_def
  proof (intro one_rules, goal_cases)
    case (1 body _ p ob admit)
    from root [OF 1(1) 1(5)] have "coordinator_may (Create_Goal p ob (optional_str body (lit ''acceptanceCriteria''))
        (optional_str body (lit ''sourceGoalId'')) (opt_or admit False))"
      by (auto simp: opt_or_def split: option.splits)
    with 1 show ?case
      by (auto simp: scoped_write_def planning_target_def goals Let_def ok_map_def and_then_def target_of_def)
  qed
  then show ?thesis using goals planning_method [OF assms(1)] by (simp only: route_goals)
next
  case (tasks g)
  have "one_call (scoped_write sv rq a) (post_task sv rq (Some a) g)"
    unfolding post_task_def
    by (intro one_rules) (auto simp: scoped_write_def planning_target_def tasks Let_def target_of_def)
  then show ?thesis using tasks planning_method [OF assms(1)] by (simp only: route_tasks)
next
  case (assignment t)
  have "one_call (scoped_write sv rq a) (post_assignment sv rq (Some a) t)"
    unfolding post_assignment_def
    by (intro one_rules)
       (use assms(3) in \<open>auto simp: scoped_write_def planning_target_def assignment Let_def target_of_def
          assigns_coordinator_def path_simps\<close>)
  then show ?thesis using assignment planning_method [OF assms(1)] by (simp only: route_assignment)
qed

lemma planning_target_known: "is_planning sv rq \<Longrightarrow> planning_target sv rq \<noteq> None"
  by (erule planning_cases) (simp_all add: planning_target_def)

text \<open>The calls of \<open>decide\<close>: the role, then the scope, then the write.\<close>

definition role_call :: "identity \<Rightarrow> api_call" where
  "role_call a = As_Run (Agent_Dispatch_Role a)"

definition scope_call :: "identity \<Rightarrow> ustr \<times> ustr \<Rightarrow> api_call" where
  "scope_call a t = As_Run (Agent_Planning_Scope a (fst t) (snd t))"

text \<open>A sequence of planning calls is in order when a write comes only after the role was answered with
  coordinator and the scope of its target was granted.\<close>

definition in_order :: "server \<Rightarrow> identity \<Rightarrow> api_call list \<Rightarrow> api_call list \<Rightarrow> bool" where
  "in_order sv a before new \<longleftrightarrow>
     new = [] \<or> new = [role_call a] \<or> (\<exists>t. new = [role_call a, scope_call a t]) \<or>
     (\<exists>w. new = [role_call a, scope_call a (target_of w), Planned (Some a) w] \<and> coordinator_may w \<and>
        answers_role (sv_backend sv) before (role_call a) = Ok Coordinator \<and>
        is_ok (answers (sv_backend sv) (before @ [role_call a]) (scope_call a (target_of w))))"

lemma in_order_simps [simp]:
  "in_order sv a b []" "in_order sv a b [role_call a]" "in_order sv a b [role_call a, scope_call a t]"
  by (simp_all add: in_order_def) (metis surj_pair)

lemma decide_calls:
  assumes "is_planning sv rq"
  shows "\<exists>r new. decide sv rq a calls = (Some r, calls @ new) \<and> in_order sv a calls new"
proof (cases "oversteps rq")
  case True
  then show ?thesis by (simp add: decide_def respond_def exI [of _ "[]"])
next
  case inside: False
  note start = decide_def ask_def role_call_def [symmetric]
  have stop: "\<exists>r new. respond x (calls @ [role_call a]) = (Some r, calls @ new) \<and> in_order sv a calls new" for x
    by (intro exI [of _ x] exI [of _ "[role_call a]"]) (simp add: respond_def)
  show ?thesis
  proof (cases "answers_role (sv_backend sv) calls (role_call a)")
    case (Inl e)
    then show ?thesis unfolding start by (simp add: inside stop)
  next
    case role: (Inr r)
    show ?thesis
    proof (cases "r = Coordinator")
      case False
      with role show ?thesis unfolding start by (simp add: inside stop)
    next
      case coordinator: True
      obtain target where target: "planning_target sv rq = Some target"
        using planning_target_known [OF assms] by blast
      show ?thesis
      proof (cases target)
        case (Inl e)
        with role coordinator target show ?thesis unfolding start by (simp add: inside stop or_400_def)
      next
        case (Inr kt)
        let ?before = "calls @ [role_call a, scope_call a kt]"
        define scope where "scope = answers (sv_backend sv) (calls @ [role_call a]) (scope_call a kt)"
        have d: "decide sv rq a calls =
          (if \<not> is_ok scope then respond (response_error 403 PLANNING_REFUSED)
           else if admits_new_root sv rq then respond new_root_error
           else if assigns_coordinator sv rq then respond coordinator_error
           else route sv rq Absent (Some a)) ?before"
          unfolding start using role coordinator target Inr
          by (simp add: inside or_400_def scope_def scope_call_def ask_def split: prod.split)
        have refused: "\<exists>r new. respond x ?before = (Some r, calls @ new) \<and> in_order sv a calls new" for x
          by (intro exI [of _ x] exI [of _ "[role_call a, scope_call a kt]"]) (simp add: respond_def)
        show ?thesis
        proof (cases "is_ok scope \<and> \<not> admits_new_root sv rq \<and> \<not> assigns_coordinator sv rq")
          case False
          then show ?thesis unfolding d by (auto simp: refused)
        next
          case True
          with planning_route [OF assms, of a] obtain r where
            "route sv rq Absent (Some a) ?before = (Some r, ?before) \<or>
             (\<exists>c. scoped_write sv rq a c \<and> route sv rq Absent (Some a) ?before = (Some r, ?before @ [c]))"
            unfolding one_call_def by blast
          then show ?thesis
          proof (elim disjE exE conjE)
            assume "route sv rq Absent (Some a) ?before = (Some r, ?before)"
            with True show ?thesis unfolding d
              by (intro exI [of _ r] exI [of _ "[role_call a, scope_call a kt]"]) simp
          next
            fix c assume c: "scoped_write sv rq a c"
              and r: "route sv rq Absent (Some a) ?before = (Some r, ?before @ [c])"
            from c target Inr obtain w where w: "c = Planned (Some a) w" "coordinator_may w" "kt = target_of w"
              by (auto simp: scoped_write_def)
            have "in_order sv a calls [role_call a, scope_call a kt, c]"
              using w role coordinator True by (auto simp: in_order_def scope_def)
            with True r show ?thesis unfolding d
              by (intro exI [of _ r] exI [of _ "[role_call a, scope_call a kt, c]"]) simp
          qed
        qed
      qed
    qed
  qed
qed


subsection \<open>The properties\<close>

definition success :: "response \<Rightarrow> bool" where
  "success r \<longleftrightarrow> 200 \<le> rs_status r \<and> rs_status r \<le> 299"

text \<open>The receipt a planning request leaves, by the answer of \<open>decide\<close>.\<close>

definition planning_audit :: "request \<Rightarrow> identity \<Rightarrow> response \<Rightarrow> api_call list" where
  "planning_audit rq a d =
     (let receipt = (\<lambda>result. [As_Run (Audit_Planning (fst a) result (rq_method rq @ [32] @ rq_path rq))]) in
      if success d then receipt (lit ''accepted'')
      else if rs_status d = 403 then receipt (lit ''refused: '' @ refusal_reason d)
      else [])"

lemma plan_as_run_calls:
  assumes "is_planning sv rq"
  obtains d new r where "decide sv rq a calls = (Some d, calls @ new)" "in_order sv a calls new"
    "plan_as_run sv rq a calls = (Some r, calls @ new @ planning_audit rq a d)"
    "r = d \<or> success d \<and> rs_status r = 500"
    "if success d \<and> r = d
     then list_all (\<lambda>c. is_ok (answers (sv_backend sv) (calls @ new) c)) (planning_audit rq a d) else True"
proof -
  obtain d new where d: "decide sv rq a calls = (Some d, calls @ new)" "in_order sv a calls new"
    using decide_calls [OF assms] by blast
  define receipt where
    "receipt = As_Run (Audit_Planning (fst a) (lit ''accepted'') (rq_method rq @ [32] @ rq_path rq))"
  define r where "r = (if \<not> success d then d else
    case answers (sv_backend sv) (calls @ new) receipt of
      Err e \<Rightarrow> response_error 500 (lit ''planning write applied but its audit failed: '' @ e) | Ok _ \<Rightarrow> d)"
  have run: "plan_as_run sv rq a calls = (Some r, calls @ new @ planning_audit rq a d)"
    using d(1) unfolding plan_as_run_def planning_audit_def r_def success_def Let_def receipt_def
    by (auto simp: ask_def respond_def split: sum.splits)
  have status: "r = d \<or> success d \<and> rs_status r = 500"
    unfolding r_def by (auto simp: response_error_def split: sum.splits)
  have kept: "if success d \<and> r = d
     then list_all (\<lambda>c. is_ok (answers (sv_backend sv) (calls @ new) c)) (planning_audit rq a d) else True"
    unfolding r_def planning_audit_def Let_def receipt_def
    by (auto simp: response_error_def success_def split: sum.splits)
  from that [OF d run status kept] show ?thesis .
qed

lemma in_order_permitted: "in_order sv a before new \<Longrightarrow> list_all (may isolated (Of_Run a)) new"
  unfolding in_order_def by (auto simp: role_call_def scope_call_def)

lemma planning_audit_permitted: "list_all (may isolated (Of_Run a)) (planning_audit rq a d)"
  by (simp add: planning_audit_def Let_def)

lemma handled_as:
  "handle sv cr now rq =
     (case caller_of sv cr now rq of
        Stranger \<Rightarrow> respond (case header rq TOKEN_HEADER of
          None \<Rightarrow> response_error 401 (lit ''missing '' @ TOKEN_HEADER @ lit '' header'')
        | Some _ \<Rightarrow> response_error 401 (lit ''invalid api token''))
      | Operator proven \<Rightarrow>
          (case verdict_decision sv rq of
             None \<Rightarrow> route sv rq (verdict_proof_of sv rq) None
           | Some what \<Rightarrow>
               if proven then route sv rq (verdict_proof_of sv rq) None
               else respond (if verdict_proof_of sv rq = Wrong then invalid_verdict
                 else missing_verdict (what @ lit '' is a human or coordinator decision'')))
      | Of_Run a \<Rightarrow> if is_planning sv rq then plan_as_run sv rq a else handle_run sv rq a)"
  unfolding handle_def caller_of_def same_secret_def verdict_proof_of_def Let_def
  by (auto simp: token_eq_iff split: option.splits)

lemma proven_iff:
  assumes "caller_of sv cr now rq = Operator proven"
  shows "verdict_proof_of sv rq = Proven \<longleftrightarrow> proven"
  using assms unfolding caller_of_def verdict_proof_of_def
  by (auto simp: same_secret_def token_eq_iff split: if_splits option.splits)

text \<open>
  C20: Whatever the request, the credentials and the answers of the store, the workers and the other
  parties behind the API, \<open>handle\<close> answers, and every call it makes is one its caller may cause: a caller
  with no known secret causes none; an operator without the verdict token causes no decision beyond
  raising the stop, an answer marked unverified and a registration in an isolated process; a run
  causes only calls in its own name, and never an admitted root goal or a coordinator.
\<close>

theorem every_call_is_permitted:
  "case handle sv cr now rq [] of (answer, calls) \<Rightarrow>
     answer \<noteq> None \<and>
     list_all (may (allow_unproven_project_create sv) (caller_of sv cr now rq)) calls"
proof -
  let ?P = "may (allow_unproven_project_create sv) (caller_of sv cr now rq)"
  have "calls_only ?P (handle sv cr now rq)"
  proof (cases "caller_of sv cr now rq")
    case Stranger
    then show ?thesis by (simp add: handled_as calls_respond)
  next
    case (Operator proven)
    have "calls_only ?P (route sv rq (verdict_proof_of sv rq) None)" if "verdict_decision sv rq = None \<or> proven"
      unfolding Operator using that proven_iff [OF Operator] by (intro operator.route_calls) auto
    then show ?thesis
      unfolding handled_as by (cases proven) (simp_all add: Operator calls_respond split: option.split)
  next
    case (Of_Run a)
    have "calls_only ?P (plan_as_run sv rq a)" if planning: "is_planning sv rq"
      unfolding calls_only_def Of_Run
    proof
      fix calls
      obtain d new r where order: "in_order sv a calls new"
        and run: "plan_as_run sv rq a calls = (Some r, calls @ new @ planning_audit rq a d)"
        using plan_as_run_calls [OF planning] by metis
      show "\<exists>r more. plan_as_run sv rq a calls = (Some r, calls @ more) \<and>
        list_all (may (allow_unproven_project_create sv) (Of_Run a)) more"
        using in_order_permitted [OF order] planning_audit_permitted
        by (intro exI [of _ r] exI [of _ "new @ planning_audit rq a d"]) (simp add: run)
    qed
    then show ?thesis
      unfolding handled_as by (simp add: Of_Run handle_run_calls)
  qed
  then obtain r more where "handle sv cr now rq [] = (Some r, [] @ more)" "list_all ?P more"
    unfolding calls_only_def by blast
  then show ?thesis by simp
qed

text \<open>
  C21: A planning request of a run first asks for the run's dispatch role and then for its scope on the
  target the write names; the write comes only after the role was answered with coordinator and the
  scope was granted.  A request that succeeds or is refused leaves exactly one receipt, with the
  reason of a refusal, and a success is reported only when the receipt was stored.
\<close>

theorem planning_is_ordered_and_audited:
  "if is_planning sv rq then
     \<exists>d new r. decide sv rq a [] = (Some d, new) \<and> in_order sv a [] new \<and>
       plan_as_run sv rq a [] = (Some r, new @ planning_audit rq a d) \<and>
       (if success r
        then r = d \<and> list_all (\<lambda>c. is_ok (answers (sv_backend sv) new c)) (planning_audit rq a d)
        else r = d \<or> success d)
   else True"
proof (cases "is_planning sv rq")
  case True
  obtain d new r where "decide sv rq a [] = (Some d, new)" "in_order sv a [] new"
    "plan_as_run sv rq a [] = (Some r, new @ planning_audit rq a d)" "r = d \<or> success d \<and> rs_status r = 500"
    "if success d \<and> r = d
     then list_all (\<lambda>c. is_ok (answers (sv_backend sv) new c)) (planning_audit rq a d) else True"
    by (rule plan_as_run_calls [OF True, of a "[]"]) (simp only: append_Nil)
  then show ?thesis
    unfolding if_P [OF True]
    by (intro exI [of _ d] exI [of _ new] exI [of _ r]) (auto simp: success_def split: if_splits)
qed simp


text \<open>The list of known paths does not hold the shapes of the headquarters: with a wrong verb they are
  answered as unknown paths.\<close>

lemma hq_wrong_verb_is_unknown:
  "rq_segments sv rq = map lit [''api'', ''hq'', ''v1'', ''plan''] \<Longrightarrow> rq_method rq = lit ''PUT'' \<Longrightarrow>
   route sv rq proof auth = respond (response_error 404 (lit ''no such route: '' @ rq_path rq))"
  by (simp add: route_def hq_route_def hq_owned_def d4_route_def settings_routes_def question_routes_def
      project_routes_def no_route_def KNOWN_PATHS_def hq_is_def route_is_def path_simps agent_path_def Let_def
      discovery_owned_def governance_owned_def worker_read_owned_def worker_write_owned_def queue_owned_def)

end
