(* ===== verification/Native_Command.thy ===== *)
theory Native_Command
  imports Rust_Text "HOL-Library.List_Lexorder" "HOL-Library.Multiset"
begin

text \<open>
  The launch inputs of a Windows process (\<open>src-tauri/src/process_capture/windows_command.rs\<close>): quoting
  of the arguments, the command line and the environment block, with the rules by which the started
  program reads them back.  Strings of the operating system are lists of 16-bit units.
\<close>

section \<open>Encoding\<close>

type_synonym u16 = "16 word"
type_synonym wstr = "u16 list"

definition BACKSLASH :: u16 where "BACKSLASH = 92"
definition QUOTE :: u16 where "QUOTE = 34"
definition SPACE :: u16 where "SPACE = 32"
definition EQUALS :: u16 where "EQUALS = 61"

record native_command =
  nc_executable :: wstr
  nc_args :: "wstr list"
  nc_cwd :: wstr
  nc_environment :: "(ustr \<times> wstr) list"
  nc_no_progress :: int
  nc_structured_progress :: bool
  nc_enforce_resource_limits :: bool

record encoded =
  en_executable :: wstr
  en_command_line :: wstr
  en_cwd :: wstr
  en_environment :: wstr

definition wide :: "wstr \<Rightarrow> ustr + wstr" where
  "wide value =
     (if 0 \<in> set value \<or> 32767 \<le> length value
      then Err (lit ''native launch string contains NUL or exceeds limit'') else Ok value)"

text \<open>The loop of \<open>quote\<close>: the backslashes counted so far and the target.\<close>

fun quote_units :: "wstr \<Rightarrow> nat \<Rightarrow> wstr \<Rightarrow> wstr" where
  "quote_units [] slashes target = target @ replicate (slashes * 2) BACKSLASH"
| "quote_units (u # us) slashes target =
     (if u = BACKSLASH then quote_units us (slashes + 1) target
      else quote_units us 0
        (target @ replicate (if u = QUOTE then slashes * 2 + 1 else slashes) BACKSLASH @ [u]))"

definition quote :: "wstr \<Rightarrow> wstr \<Rightarrow> wstr" where
  "quote value target = quote_units value 0 (target @ [QUOTE]) @ [QUOTE]"

text \<open>\<open>Path::is_absolute\<close> of the standard library on Windows: a verbatim or device prefix, a server with a
  share, or a drive followed by a separator.\<close>

definition is_separator :: "u16 \<Rightarrow> bool" where
  "is_separator u \<longleftrightarrow> u = BACKSLASH \<or> u = 47"

definition next_component :: "wstr \<Rightarrow> wstr \<times> wstr" where
  "next_component p = (takeWhile (\<lambda>u. \<not> is_separator u) p, drop 1 (dropWhile (\<lambda>u. \<not> is_separator u) p))"

definition is_drive_letter :: "u16 \<Rightarrow> bool" where
  "is_drive_letter u \<longleftrightarrow> 65 \<le> u \<and> u \<le> 90 \<or> 97 \<le> u \<and> u \<le> 122"

definition is_absolute :: "wstr \<Rightarrow> bool" where
  "is_absolute p =
     (if list_all is_separator (take 2 p) \<and> 2 \<le> length p then
        take 4 p = [BACKSLASH, BACKSLASH, 63, BACKSLASH] \<or>
        (4 \<le> length p \<and> p ! 2 = 46 \<and> is_separator (p ! 3)) \<or>
        (let (host, rest) = next_component (drop 2 p); (share, rest) = next_component rest in
         host \<noteq> [] \<and> share \<noteq> [])
      else 3 \<le> length p \<and> is_drive_letter (p ! 0) \<and> p ! 1 = 58 \<and> is_separator (p ! 2))"

definition LINE_LIMIT :: ustr where "LINE_LIMIT = lit ''native command line exceeds limit''"

fun push_args :: "wstr list \<Rightarrow> wstr \<Rightarrow> ustr + wstr" where
  "push_args [] line = Ok line"
| "push_args (a # as) line =
     and_then (wide a) (\<lambda>w.
     let line = quote w (line @ [SPACE]) in
     if 32767 \<le> length line then Err LINE_LIMIT else push_args as line)"

text \<open>\<open>encode_utf16\<close>.\<close>

definition utf16_char :: "uchar \<Rightarrow> wstr" where
  "utf16_char c =
     (if c < 65536 then [word_of_int c]
      else [word_of_int (55296 + (c - 65536) div 1024), word_of_int (56320 + (c - 65536) mod 1024)])"

definition encode_utf16 :: "ustr \<Rightarrow> wstr" where
  "encode_utf16 s = concat (map utf16_char s)"

definition ascii_upper :: "uchar \<Rightarrow> uchar" where
  "ascii_upper c = (if 97 \<le> c \<and> c \<le> 122 then c - 32 else c)"

definition is_key_byte :: "u8 \<Rightarrow> bool" where
  "is_key_byte b \<longleftrightarrow> 33 \<le> b \<and> b \<le> 126 \<and> b \<noteq> 61"

fun push_entries :: "(ustr \<times> wstr) list \<Rightarrow> (ustr \<times> ustr \<times> wstr) list \<Rightarrow> ustr + (ustr \<times> ustr \<times> wstr) list" where
  "push_entries [] entries = Ok entries"
| "push_entries ((key, value) # kvs) entries =
     (if key = [] \<or> 256 < byte_len key \<or> \<not> list_all is_key_byte (as_bytes key)
      then Err (lit ''unsupported native environment key'')
      else and_then (wide value) (\<lambda>w. push_entries kvs (entries @ [(map ascii_upper key, key, w)])))"

fun push_block :: "(ustr \<times> ustr \<times> wstr) list \<Rightarrow> wstr \<Rightarrow> ustr + wstr" where
  "push_block [] block = Ok block"
| "push_block ((_, key, value) # es) block =
     (let block = block @ encode_utf16 key @ [EQUALS] @ value @ [0] in
      if 32767 \<le> length block then Err (lit ''native environment exceeds limit'') else push_block es block)"

definition encode :: "native_command \<Rightarrow> ustr + encoded" where
  "encode c =
     (if \<not> is_absolute (nc_executable c) \<or> \<not> is_absolute (nc_cwd c) \<or>
         256 < length (nc_args c) \<or> 512 < length (nc_environment c)
      then Err (lit ''native launch needs absolute paths and bounded arguments/environment'')
      else
        and_then (wide (nc_executable c)) (\<lambda>executable.
        if QUOTE \<in> set executable then Err (lit ''native executable path contains quote'')
        else
          and_then (push_args (nc_args c) (quote executable [])) (\<lambda>line.
          if 32767 \<le> length line then Err LINE_LIMIT
          else
            and_then (wide (nc_cwd c)) (\<lambda>cwd.
            and_then (push_entries (nc_environment c) []) (\<lambda>entries.
            let entries = sort_key fst entries; keys = map fst entries in
            if list_ex (\<lambda>(a, b). a = b) (zip keys (tl keys))
            then Err (lit ''case-insensitive duplicate native environment key'')
            else
              and_then (push_block entries []) (\<lambda>block.
              Ok \<lparr>en_executable = executable @ [0], en_command_line = line @ [0], en_cwd = cwd @ [0],
                  en_environment = (if block = [] then [0] else block) @ [0]\<rparr>))))))"

section \<open>Reading back\<close>

text \<open>The rules by which the started program splits its command line.  Inside and outside quotes, a run of
  backslashes before a quotation mark stands for half as many, an odd one makes the mark literal; a
  doubled mark inside quotes is a literal mark; other backslashes stand for themselves.  The reader
  gives the argument and the rest.\<close>

fun scan_arg :: "bool \<Rightarrow> nat \<Rightarrow> wstr \<Rightarrow> wstr \<Rightarrow> wstr \<times> wstr" where
  "scan_arg inq n acc [] = (acc @ replicate n BACKSLASH, [])"
| "scan_arg inq n acc (u # us) =
     (if u = BACKSLASH then scan_arg inq (Suc n) acc us
      else if u = QUOTE then
        if odd n then scan_arg inq 0 (acc @ replicate (n div 2) BACKSLASH @ [QUOTE]) us
        else (case us of
            v # vs \<Rightarrow> if inq \<and> v = QUOTE then scan_arg inq 0 (acc @ replicate (n div 2) BACKSLASH @ [QUOTE]) vs
                       else scan_arg (\<not> inq) 0 (acc @ replicate (n div 2) BACKSLASH) us
          | [] \<Rightarrow> scan_arg (\<not> inq) 0 (acc @ replicate (n div 2) BACKSLASH) us)
      else if \<not> inq \<and> (u = SPACE \<or> u = 9) then (acc @ replicate n BACKSLASH, u # us)
      else scan_arg inq 0 (acc @ replicate n BACKSLASH @ [u]) us)"

definition skip_blanks :: "wstr \<Rightarrow> wstr" where
  "skip_blanks = dropWhile (\<lambda>u. u = SPACE \<or> u = 9)"

text \<open>The name of the program comes first and is read without the rule for backslashes.\<close>

definition scan_program :: "wstr \<Rightarrow> wstr \<times> wstr" where
  "scan_program us =
     (case us of
        [] \<Rightarrow> ([], [])
      | u # vs \<Rightarrow>
          if u = QUOTE then (takeWhile (\<lambda>v. v \<noteq> QUOTE) vs, drop 1 (dropWhile (\<lambda>v. v \<noteq> QUOTE) vs))
          else (takeWhile (\<lambda>v. v \<noteq> SPACE \<and> v \<noteq> 9) us, dropWhile (\<lambda>v. v \<noteq> SPACE \<and> v \<noteq> 9) us))"

lemma scan_arg_shorter: "length (snd (scan_arg inq n acc us)) \<le> length us"
proof (induction "length us" arbitrary: inq n acc us rule: less_induct)
  case less
  have IH: "length (snd (scan_arg i k a vs)) \<le> m" if "length vs < length us" "length vs \<le> m" for i k a vs m
    using less that order_trans by blast
  show ?case
  proof (cases us)
    case (Cons u ws)
    then show ?thesis
      unfolding Cons scan_arg.simps(2)
      by (simp del: scan_arg.simps(2) add: IH Cons split: list.split)
  qed simp
qed

lemma scan_arg_within: "length us \<le> n \<Longrightarrow> length (snd (scan_arg inq k acc us)) \<le> n"
  using scan_arg_shorter order_trans by blast

lemma scan_arg_consumes:
  assumes "u \<noteq> SPACE" "u \<noteq> 9"
  shows "length (snd (scan_arg inq n acc (u # us))) \<le> length us"
  using assms unfolding scan_arg.simps(2)
  by (simp del: scan_arg.simps(2) add: scan_arg_within split: list.split)

function read_args :: "wstr \<Rightarrow> wstr list" where
  "read_args us =
     (case skip_blanks us of
        [] \<Rightarrow> []
      | v # vs \<Rightarrow> (let (arg, rest) = scan_arg False 0 [] (v # vs) in arg # read_args rest))"
  by pat_completeness auto
termination
proof (relation "measure length")
  fix us v vs x arg rest
  assume "skip_blanks us = v # vs" and scanned: "x = scan_arg False 0 [] (v # vs)" "(arg, rest) = x"
  then have v: "v \<noteq> SPACE" "v \<noteq> 9" and len: "length (v # vs) \<le> length us"
    using hd_dropWhile [of "\<lambda>u. u = SPACE \<or> u = 9" us] length_dropWhile_le [of "\<lambda>u. u = SPACE \<or> u = 9" us]
    by (auto simp: skip_blanks_def)
  have "length rest \<le> length vs"
    using scan_arg_consumes [OF v, of False 0 "[]" vs] scanned by (metis snd_conv)
  with len show "(rest, us) \<in> measure length" by simp
qed simp

declare read_args.simps [simp del]

definition read_command_line :: "wstr \<Rightarrow> wstr \<times> wstr list" where
  "read_command_line us = (let line = takeWhile (\<lambda>u. u \<noteq> 0) us; (program, rest) = scan_program line in
     (program, read_args rest))"

text \<open>An environment block is read up to the first empty entry.\<close>

function read_block :: "wstr \<Rightarrow> wstr list" where
  "read_block us =
     (let entry = takeWhile (\<lambda>u. u \<noteq> 0) us in
      if entry = [] then [] else entry # read_block (drop (Suc (length entry)) us))"
  by pat_completeness auto
termination
proof (relation "measure length")
  fix us x :: wstr
  assume "x = takeWhile (\<lambda>u. u \<noteq> 0) us" "x \<noteq> []"
  then have "us \<noteq> []" by auto
  then show "(drop (Suc (length x)) us, us) \<in> measure length" by simp
qed simp

declare read_block.simps [simp del]


section \<open>Quoting\<close>

text \<open>What the loop of \<open>quote\<close> appends.\<close>

fun emit :: "nat \<Rightarrow> wstr \<Rightarrow> wstr" where
  "emit s [] = replicate (s * 2) BACKSLASH"
| "emit s (u # us) =
     (if u = BACKSLASH then emit (Suc s) us
      else replicate (if u = QUOTE then s * 2 + 1 else s) BACKSLASH @ u # emit 0 us)"

lemma units_simps [simp]: "QUOTE \<noteq> BACKSLASH" "SPACE \<noteq> BACKSLASH" "SPACE \<noteq> QUOTE" "BACKSLASH \<noteq> QUOTE"
    "QUOTE \<noteq> SPACE" "BACKSLASH \<noteq> SPACE" "BACKSLASH \<noteq> 0" "QUOTE \<noteq> 0" "SPACE \<noteq> 0" "EQUALS \<noteq> 0" "QUOTE \<noteq> 9" "BACKSLASH \<noteq> 9"
    "0 \<noteq> BACKSLASH" "0 \<noteq> QUOTE" "0 \<noteq> SPACE" "0 \<noteq> EQUALS"
  by (simp_all add: BACKSLASH_def QUOTE_def SPACE_def EQUALS_def)

lemma quote_emit: "quote value target = target @ QUOTE # emit 0 value @ [QUOTE]"
proof -
  have "quote_units us s t = t @ emit s us" for us s t
    by (induction us s t rule: quote_units.induct) simp_all
  then show ?thesis by (simp add: quote_def)
qed

lemma scan_backslashes: "scan_arg inq n acc (replicate k BACKSLASH @ us) = scan_arg inq (n + k) acc us"
  by (induction k arbitrary: n) simp_all

lemma scan_opens: "scan_arg False 0 acc (QUOTE # us) = scan_arg True 0 acc us"
  by (cases us) simp_all

lemma scan_closes:
  "rest = [] \<or> hd rest = SPACE \<Longrightarrow> even n \<Longrightarrow>
   scan_arg True n acc (QUOTE # rest) = (acc @ replicate (n div 2) BACKSLASH, rest)"
  by (cases rest) auto

lemma scan_literal: "odd n \<Longrightarrow> scan_arg inq n acc (QUOTE # us) = scan_arg inq 0 (acc @ replicate (n div 2) BACKSLASH @ [QUOTE]) us"
  by simp

lemma scan_emit:
  "rest = [] \<or> hd rest = SPACE \<Longrightarrow>
   scan_arg True 0 acc (emit s vs @ QUOTE # rest) = (acc @ replicate s BACKSLASH @ vs, rest)"
proof (induction s vs arbitrary: acc rule: emit.induct)
  case (1 s)
  then show ?case
    by (simp only: emit.simps scan_backslashes) (simp add: scan_closes del: scan_arg.simps)
next
  case (2 s u us)
  consider "u = BACKSLASH" | "u = QUOTE" | "u \<noteq> BACKSLASH" "u \<noteq> QUOTE" by blast
  then show ?case
  proof cases
    case 1
    with 2 show ?thesis by (simp add: replicate_app_Cons_same)
  next
    case 2
    with "2.IH"(2) "2.prems" show ?thesis
      by (simp add: scan_backslashes scan_literal del: scan_arg.simps replicate_Suc)
  next
    case 3
    with "2.IH"(2) "2.prems" show ?thesis by (simp add: scan_backslashes)
  qed
qed

definition argument :: "wstr \<Rightarrow> wstr" where
  "argument a = SPACE # QUOTE # emit 0 a @ [QUOTE]"

lemma read_arguments: "read_args (concat (map argument as)) = as"
proof (induction as)
  case Nil
  then show ?case by (simp add: read_args.simps skip_blanks_def)
next
  case (Cons a as)
  let ?rest = "concat (map argument as)"
  have boundary: "?rest = [] \<or> hd ?rest = SPACE"
    by (cases as) (simp_all add: argument_def)
  have "skip_blanks (concat (map argument (a # as))) = QUOTE # emit 0 a @ QUOTE # ?rest"
    by (simp add: argument_def skip_blanks_def)
  then have "read_args (concat (map argument (a # as))) = a # read_args ?rest"
    by (subst read_args.simps) (simp add: scan_opens scan_emit [OF boundary] del: scan_arg.simps concat.simps)
  with Cons show ?case by simp
qed

lemma wide_Ok: "wide v = Ok w \<longleftrightarrow> w = v \<and> 0 \<notin> set v \<and> length v < 32767"
  by (auto simp: wide_def)

lemma push_args_Ok:
  "push_args as line = Ok out \<Longrightarrow> out = line @ concat (map argument as) \<and> (\<forall>a\<in>set as. 0 \<notin> set a)"
proof (induction as arbitrary: line)
  case (Cons a as)
  from Cons.prems have "push_args as (line @ argument a) = Ok out" "0 \<notin> set a"
    by (auto simp: and_then_Ok wide_Ok quote_emit argument_def Let_def split: if_splits)
  with Cons.IH [of "line @ argument a"] show ?case by simp
qed simp

lemma emit_zero: "0 \<notin> set vs \<Longrightarrow> 0 \<notin> set (emit s vs)"
  by (induction s vs rule: emit.induct) (auto simp: set_replicate_conv_if)

lemma takeWhile_before: "z \<notin> set us \<Longrightarrow> takeWhile (\<lambda>u. u \<noteq> z) (us @ z # vs) = us"
  by (subst takeWhile_append2) auto

lemma dropWhile_before: "z \<notin> set us \<Longrightarrow> dropWhile (\<lambda>u. u \<noteq> z) (us @ z # vs) = z # vs"
  by (subst dropWhile_append2) auto

text \<open>The backslashes at the end of a string; in the quoted program name they are doubled.\<close>

definition trailing :: "wstr \<Rightarrow> nat" where
  "trailing us = length (takeWhile (\<lambda>u. u = BACKSLASH) (rev us))"

lemma emit_unquoted:
  "QUOTE \<notin> set us \<Longrightarrow> emit s us = replicate s BACKSLASH @ us @ replicate (trailing (replicate s BACKSLASH @ us)) BACKSLASH"
proof (induction s us rule: emit.induct)
  case (1 s)
  have "takeWhile (\<lambda>u. u = BACKSLASH) (replicate s BACKSLASH) = replicate s BACKSLASH"
    by (simp add: takeWhile_eq_all_conv)
  then show ?case
    by (simp add: trailing_def rev_replicate mult_2_right replicate_add)
next
  case (2 s u us)
  then show ?case
  proof (cases "u = BACKSLASH")
    case True
    with 2 show ?thesis by (simp add: replicate_app_Cons_same)
  next
    case False
    have "trailing (replicate s BACKSLASH @ u # us) = trailing us"
      using False by (cases "\<forall>x\<in>set us. x = BACKSLASH")
        (simp_all add: trailing_def takeWhile_append takeWhile_eq_all_conv [THEN iffD2])
    moreover have "u \<noteq> QUOTE" using "2.prems" by auto
    ultimately show ?thesis using 2 False by simp
  qed
qed

lemma read_line:
  assumes "0 \<notin> set program" "QUOTE \<notin> set program" "\<forall>a\<in>set as. 0 \<notin> set a"
  shows "read_command_line (quote program [] @ concat (map argument as) @ [0]) =
    (program @ replicate (trailing program) BACKSLASH, as)"
proof -
  let ?line = "QUOTE # emit 0 program @ QUOTE # concat (map argument as)"
  have "0 \<notin> set ?line"
    using assms emit_zero by (auto simp: argument_def)
  then have "takeWhile (\<lambda>u. u \<noteq> 0) (?line @ [0]) = ?line" by (rule takeWhile_before)
  moreover have "QUOTE \<notin> set (emit 0 program)"
    using assms(2) by (auto simp: emit_unquoted set_replicate_conv_if)
  ultimately have "read_command_line (?line @ [0]) = (emit 0 program, as)"
    unfolding read_command_line_def scan_program_def Let_def
    by (simp add: takeWhile_before dropWhile_before read_arguments)
  with assms(2) show ?thesis by (simp add: quote_emit emit_unquoted)
qed


section \<open>The environment block\<close>

lemma is_key_byte_iff: "is_key_byte b \<longleftrightarrow> 33 \<le> uint b \<and> uint b \<le> 126 \<and> uint b \<noteq> 61"
  by (simp add: is_key_byte_def word_le_def word_uint_eq_iff)

lemma key_char:
  assumes "list_all is_key_byte (map word_of_int (utf8_char c))"
  shows "c < 128 \<and> is_key_byte (word_of_int c)"
proof (cases "c < 128")
  case False
  define b where "b = 128 + c mod 64"
  have b: "127 < b" "b < 256" using pos_mod_bound [of 64 c] pos_mod_sign [of 64 c] by (auto simp: b_def)
  from False have "b \<in> set (utf8_char c)" by (simp add: utf8_char_def b_def)
  with assms have "is_key_byte (word_of_int b)" by (simp add: list_all_iff)
  with b show ?thesis by (simp add: is_key_byte_iff uint_word_of_int)
qed (use assms in \<open>simp add: utf8_char_def\<close>)

lemma key_unit:
  assumes "is_key_byte (word_of_int c)"
  shows "(word_of_int c :: u16) \<noteq> 0" "(word_of_int c :: u16) \<noteq> EQUALS"
proof -
  have byte: "(c mod 65536) mod 256 \<noteq> 0" "(c mod 65536) mod 256 \<noteq> 61"
    using assms mod_mod_cancel [of 256 65536 c] by (simp_all add: is_key_byte_iff uint_word_of_int)
  then show "(word_of_int c :: u16) \<noteq> 0" "(word_of_int c :: u16) \<noteq> EQUALS"
    by (auto simp: EQUALS_def word_uint_eq_iff uint_word_of_int)
qed

lemma utf16_key:
  "list_all is_key_byte (as_bytes key) \<Longrightarrow> 0 \<notin> set (encode_utf16 key) \<and> EQUALS \<notin> set (encode_utf16 key)"
proof (induction key)
  case (Cons c cs)
  then have "c < 128 \<and> is_key_byte (word_of_int c)"
    by (intro key_char) (simp add: as_bytes_def)
  with Cons key_unit [of c] show ?case
    by (auto simp: as_bytes_def encode_utf16_def utf16_char_def)
qed (simp add: encode_utf16_def)

lemma push_entries_Ok:
  "push_entries kvs entries = Ok out \<Longrightarrow>
   out = entries @ map (\<lambda>(k, v). (map ascii_upper k, k, v)) kvs \<and>
   list_all (\<lambda>(k, v). list_all is_key_byte (as_bytes k) \<and> 0 \<notin> set v) kvs"
proof (induction kvs arbitrary: entries)
  case (Cons kv kvs)
  obtain k v where kv: "kv = (k, v)" by (cases kv)
  from Cons.prems have "push_entries kvs (entries @ [(map ascii_upper k, k, v)]) = Ok out"
    "list_all is_key_byte (as_bytes k)" "0 \<notin> set v"
    by (auto simp: kv and_then_Ok wide_Ok split: if_splits)
  with Cons.IH [of "entries @ [(map ascii_upper k, k, v)]"] show ?case by (simp add: kv)
qed simp

definition entry :: "ustr \<times> wstr \<Rightarrow> wstr" where
  "entry kv = encode_utf16 (fst kv) @ [EQUALS] @ snd kv"

lemma push_block_Ok:
  "push_block (map (\<lambda>(k, v). (f k, k, v)) kvs) block = Ok out \<Longrightarrow>
   out = block @ concat (map (\<lambda>kv. entry kv @ [0]) kvs)"
proof (induction kvs arbitrary: block)
  case (Cons kv kvs)
  then have "push_block (map (\<lambda>(k, v). (f k, k, v)) kvs) (block @ entry kv @ [0]) = Ok out"
    by (cases kv) (simp add: entry_def Let_def split: if_splits)
  with Cons.IH [of "block @ entry kv @ [0]"] show ?case by simp
qed simp

lemma read_block_entries:
  "list_all (\<lambda>w. w \<noteq> [] \<and> 0 \<notin> set w) ws \<Longrightarrow> read_block (concat (map (\<lambda>w. w @ [0]) ws) @ 0 # rest) = ws"
proof (induction ws)
  case Nil
  then show ?case by (simp add: read_block.simps)
next
  case (Cons w ws)
  let ?rest = "concat (map (\<lambda>w. w @ [0]) ws) @ 0 # rest"
  have "takeWhile (\<lambda>u. u \<noteq> 0) (w @ 0 # ?rest) = w"
    using Cons.prems by (intro takeWhile_before) simp
  moreover have "concat (map (\<lambda>w. w @ [0]) (w # ws)) @ 0 # rest = w @ 0 # ?rest" by simp
  ultimately show ?case
    using Cons by (subst read_block.simps) (simp add: Let_def)
qed

lemma sort_key_map: "sort_key f (map g xs) = map g (sort_key (f \<circ> g) xs)"
proof -
  have "insort_key f (g x) (map g ys) = map g (insort_key (f \<circ> g) x ys)" for x ys
    by (induction ys) simp_all
  then show ?thesis by (induction xs) simp_all
qed

lemma neighbours_differ:
  assumes "sorted xs" "\<not> list_ex (\<lambda>(a, b). a = b) (zip xs (tl xs))"
  shows "distinct (xs :: 'a::linorder list)"
  using assms
proof (induction xs rule: induct_list012)
  case (3 x y zs)
  then have "x < y" "sorted (y # zs)" "distinct (y # zs)" by auto
  with 3 show ?case by auto
qed auto

section \<open>What the started program reads\<close>

lemma encode_Ok:
  assumes "encode c = Ok e"
  obtains entries block where
    "0 \<notin> set (nc_executable c)" "QUOTE \<notin> set (nc_executable c)" "\<forall>a\<in>set (nc_args c). 0 \<notin> set a"
    "en_command_line e = quote (nc_executable c) [] @ concat (map argument (nc_args c)) @ [0]"
    "length (en_command_line e) \<le> 32767"
    "push_entries (nc_environment c) [] = Ok entries" "push_block (sort_key fst entries) [] = Ok block"
    "\<not> list_ex (\<lambda>(a, b). a = b) (zip (map fst (sort_key fst entries)) (tl (map fst (sort_key fst entries))))"
    "en_environment e = (if block = [] then [0] else block) @ [0]"
proof -
  obtain line cwd entries block where
    "wide (nc_executable c) = Ok (nc_executable c)" "QUOTE \<notin> set (nc_executable c)"
    "push_args (nc_args c) (quote (nc_executable c) []) = Ok line" "length line < 32767"
    "push_entries (nc_environment c) [] = Ok entries" "push_block (sort_key fst entries) [] = Ok block"
    "\<not> list_ex (\<lambda>(a, b). a = b) (zip (map fst (sort_key fst entries)) (tl (map fst (sort_key fst entries))))"
    "e = \<lparr>en_executable = nc_executable c @ [0], en_command_line = line @ [0], en_cwd = cwd @ [0],
          en_environment = (if block = [] then [0] else block) @ [0]\<rparr>"
    using assms unfolding encode_def Let_def
    by (auto simp: and_then_Ok wide_Ok not_le split: if_splits)
  with that [of entries block] push_args_Ok [of "nc_args c" "quote (nc_executable c) []" line] show ?thesis
    by (simp add: wide_Ok)
qed

text \<open>
  C25: The command line arrives.  Whenever \<open>encode\<close> accepts a launch, the rules by which a Windows program
  splits its command line give back exactly the arguments of the launch, whatever quotation marks,
  blanks and backslashes they hold; the program name comes back with only its final backslashes
  doubled, and the line stays within the limit of the system.
\<close>

theorem command_line_arrives:
  "case encode c of Err _ \<Rightarrow> True | Ok e \<Rightarrow>
     read_command_line (en_command_line e) =
       (nc_executable c @ replicate (trailing (nc_executable c)) BACKSLASH, nc_args c) \<and>
     length (en_command_line e) \<le> 32767"
proof (cases "encode c")
  case (Inr e)
  then show ?thesis
    by (auto elim!: encode_Ok simp: read_line)
qed simp

text \<open>
  The environment arrives.  Whenever \<open>encode\<close> accepts a launch, reading the environment block up to its
  empty entry gives each variable of the launch once, sorted by its upper-case name, and the text
  before the first equals sign is its name; no two names differ only in their case.
\<close>

theorem environment_arrives:
  "let kvs = sort_key (map ascii_upper \<circ> fst) (nc_environment c) in
   case encode c of Err _ \<Rightarrow> True | Ok e \<Rightarrow>
     read_block (en_environment e) = map entry kvs \<and>
     map (takeWhile (\<lambda>u. u \<noteq> EQUALS)) (read_block (en_environment e)) = map (encode_utf16 \<circ> fst) kvs \<and>
     distinct (map (map ascii_upper \<circ> fst) kvs)"
proof (cases "encode c")
  case (Inr e)
  define kvs where "kvs = sort_key (map ascii_upper \<circ> fst) (nc_environment c)"
  obtain entries block where pushed: "push_entries (nc_environment c) [] = Ok entries"
      "push_block (sort_key fst entries) [] = Ok block"
    and differ: "\<not> list_ex (\<lambda>(a, b). a = b) (zip (map fst (sort_key fst entries)) (tl (map fst (sort_key fst entries))))"
    and e: "en_environment e = (if block = [] then [0] else block) @ [0]"
    using Inr by (rule encode_Ok)
  have entries: "sort_key fst entries = map (\<lambda>(k, v). (map ascii_upper k, k, v)) kvs"
    using push_entries_Ok [OF pushed(1)]
    by (simp add: sort_key_map kvs_def comp_def case_prod_beta)
  have keys: "list_all (\<lambda>(k, v). list_all is_key_byte (as_bytes k) \<and> 0 \<notin> set v) kvs"
    using push_entries_Ok [OF pushed(1)] by (simp add: kvs_def list_all_iff)
  have block: "block = concat (map (\<lambda>w. w @ [0]) (map entry kvs))"
    using push_block_Ok [of "map ascii_upper" kvs "[]" block] pushed(2) by (simp add: entries comp_def)
  have entry: "entry kv \<noteq> [] \<and> 0 \<notin> set (entry kv)" and name: "takeWhile (\<lambda>u. u \<noteq> EQUALS) (entry kv) = encode_utf16 (fst kv)"
    if "kv \<in> set kvs" for kv
  proof -
    obtain k v where kv: "kv = (k, v)" by (cases kv)
    with that keys have k: "list_all is_key_byte (as_bytes k)" "0 \<notin> set v"
      by (auto simp: list_all_iff)
    with utf16_key [OF k(1)] show "entry kv \<noteq> [] \<and> 0 \<notin> set (entry kv)"
      by (auto simp: entry_def kv)
    show "takeWhile (\<lambda>u. u \<noteq> EQUALS) (entry kv) = encode_utf16 (fst kv)"
      using utf16_key [OF k(1)] by (simp add: entry_def kv takeWhile_before)
  qed
  have "read_block (block @ 0 # rest) = map entry kvs" for rest
    unfolding block using entry by (intro read_block_entries) (simp add: list_all_iff)
  from this [of "[]"] this [of "[0]"] have read: "read_block (en_environment e) = map entry kvs"
    by (cases "block = []") (simp_all add: e)
  have "sorted (map (map ascii_upper \<circ> fst) kvs)" by (simp add: kvs_def)
  then have "distinct (map (map ascii_upper \<circ> fst) kvs)"
    using differ by (intro neighbours_differ) (simp_all add: entries comp_def case_prod_beta)
  with read name show ?thesis
    unfolding Inr kvs_def [symmetric] Let_def by simp
qed simp

end
