(* ===== verification/Redaction.thy ===== *)
theory Redaction
  imports Rust_Text
begin

text \<open>
  Redaction of text that leaves the application (\<open>src-tauri/src/redact.rs\<close>): what looks like a secret, the
  masking of a token, and the redactor that is fed in pieces.
\<close>

section \<open>What looks like a secret\<close>

definition MASK :: ustr where "MASK = lit ''[redacted]''"

definition SECRET_PREFIXES :: "ustr list" where
  "SECRET_PREFIXES =
     map lit [''sk-'', ''ghp_'', ''gho_'', ''ghs_'', ''github_pat_'', ''xoxb-'', ''xoxp-'', ''AIza'', ''AKIA'']"

definition MIN_SECRET_LEN :: nat where "MIN_SECRET_LEN = 12"
definition TOKEN_HEX_LEN :: nat where "TOKEN_HEX_LEN = 32"

text \<open>A byte of the alphabet is a character of one byte, so the model reads characters.\<close>

definition is_token_hex :: "uchar \<Rightarrow> bool" where
  "is_token_hex c \<longleftrightarrow> is_ascii_digit c \<or> 97 \<le> c \<and> c \<le> 102"

definition is_token_shaped :: "ustr \<Rightarrow> bool" where
  "is_token_shaped segment \<longleftrightarrow> byte_len segment = TOKEN_HEX_LEN \<and> list_all is_token_hex segment"

function mask_token_runs :: "ustr \<Rightarrow> ustr" where
  "mask_token_runs segment =
     (case segment of
        [] \<Rightarrow> []
      | c # cs \<Rightarrow>
          let run = c # takeWhile (\<lambda>b. is_token_hex b = is_token_hex c) cs;
              rest = dropWhile (\<lambda>b. is_token_hex b = is_token_hex c) cs in
          (if is_token_hex c \<and> length run = TOKEN_HEX_LEN then MASK else run) @ mask_token_runs rest)"
  by pat_completeness auto
termination
  by (relation "measure length") (auto simp: le_imp_less_Suc length_dropWhile_le)

declare mask_token_runs.simps [simp del]

definition is_key_char :: "uchar \<Rightarrow> bool" where
  "is_key_char c \<longleftrightarrow> is_ascii_alphanumeric c \<or> c = 45 \<or> c = 95"

definition looks_secret :: "ustr \<Rightarrow> bool" where
  "looks_secret segment \<longleftrightarrow>
     MIN_SECRET_LEN \<le> byte_len segment \<and>
     (list_ex (\<lambda>p. starts_with segment p) SECRET_PREFIXES \<or> str_contains segment (lit ''PRIVATE-KEY'') \<or>
      is_token_shaped segment)"

section \<open>The redactor\<close>

text \<open>The closure \<open>flush\<close> of \<open>redact_token\<close>, and its loop over the characters.\<close>

definition flush_segment :: "ustr \<Rightarrow> ustr" where
  "flush_segment segment = (if looks_secret segment then MASK else mask_token_runs segment)"

fun redact_chars :: "ustr \<Rightarrow> ustr \<Rightarrow> ustr \<Rightarrow> ustr" where
  "redact_chars [] segment out = out @ flush_segment segment"
| "redact_chars (c # cs) segment out =
     (if is_key_char c then redact_chars cs (segment @ [c]) out
      else redact_chars cs [] (out @ flush_segment segment @ [c]))"

definition redact_token :: "ustr \<Rightarrow> ustr" where
  "redact_token token = redact_chars token [] []"

text \<open>The state of a \<open>Redactor\<close> is the token that may still be growing.\<close>

type_synonym redactor = ustr

definition take_pending :: "redactor \<Rightarrow> ustr \<times> redactor" where
  "take_pending pending = (if pending = [] then ([], []) else (redact_token pending, []))"

fun push_chars :: "ustr \<Rightarrow> redactor \<Rightarrow> ustr \<Rightarrow> ustr \<times> redactor" where
  "push_chars [] pending out = (out, pending)"
| "push_chars (c # cs) pending out =
     (if is_whitespace c then
        (let (token, pending) = take_pending pending in push_chars cs pending (out @ token @ [c]))
      else push_chars cs (pending @ [c]) out)"

definition push :: "redactor \<Rightarrow> ustr \<Rightarrow> ustr \<times> redactor" where
  "push r chunk = push_chars chunk r []"

definition flush :: "redactor \<Rightarrow> ustr \<times> redactor" where
  "flush r = take_pending r"

definition redact :: "ustr \<Rightarrow> ustr" where
  "redact text = (let (out, r) = push [] text; (rest, r) = flush r in out @ rest)"

section \<open>Redaction without a state\<close>

text \<open>The specification cuts the text at every character that no key has, and judges the pieces.\<close>

fun cut_keys :: "ustr \<Rightarrow> ustr \<Rightarrow> ustr list" where
  "cut_keys piece [] = [piece]"
| "cut_keys piece (c # cs) = (if is_key_char c then cut_keys (piece @ [c]) cs else piece # [c] # cut_keys [] cs)"

definition redaction :: "ustr \<Rightarrow> ustr" where
  "redaction t = concat (map flush_segment (cut_keys [] t))"

text \<open>A stream in pieces: what the calls of \<open>push\<close> give and what \<open>flush\<close> gives at the end.\<close>

fun feed :: "redactor \<Rightarrow> ustr list \<Rightarrow> ustr" where
  "feed r [] = fst (flush r)"
| "feed r (chunk # chunks) = (let (out, r) = push r chunk in out @ feed r chunks)"

lemma whitespace_no_key: "is_whitespace c \<Longrightarrow> \<not> is_key_char c"
  by (auto simp: is_whitespace_def is_key_char_def is_ascii_alphanumeric_def)

lemma hex_key: "is_token_hex c \<Longrightarrow> is_key_char c"
  by (auto simp: is_token_hex_def is_key_char_def is_ascii_alphanumeric_def is_ascii_digit_def)

lemma flush_Nil [simp]: "flush_segment [] = []"
  by (simp add: flush_segment_def looks_secret_def MIN_SECRET_LEN_def byte_len_def mask_token_runs.simps)

lemma flush_other: "\<not> is_key_char c \<Longrightarrow> flush_segment [c] = [c]"
  using hex_key [of c]
  by (auto simp: flush_segment_def looks_secret_def MIN_SECRET_LEN_def byte_len_def utf8_len_def
      mask_token_runs.simps)

lemma redact_chars_cut: "redact_chars cs segment out = out @ concat (map flush_segment (cut_keys segment cs))"
  by (induction cs segment out rule: redact_chars.induct) (simp_all add: flush_other)

lemma redact_token_cut: "redact_token t = redaction t"
  by (simp add: redact_token_def redaction_def redact_chars_cut)

lemma cut_here: "\<not> is_key_char c \<Longrightarrow> cut_keys p (t @ c # u) = cut_keys p t @ [c] # cut_keys [] u"
  by (induction p t rule: cut_keys.induct) auto

lemma redaction_here: "\<not> is_key_char c \<Longrightarrow> redaction (t @ c # u) = redaction t @ c # redaction u"
  by (simp add: redaction_def cut_here flush_other)

lemma redaction_Nil [simp]: "redaction [] = []"
  by (simp add: redaction_def)

lemma take_pending_redaction: "take_pending p = (redaction p, [])"
  by (simp add: take_pending_def redact_token_cut)

lemma push_chars_redaction:
  "push_chars cs p out = (o', p') \<Longrightarrow> redaction (p @ cs @ more) = drop (length out) o' @ redaction (p' @ more) \<and> take (length out) o' = out"
proof (induction cs p out arbitrary: o' p' rule: push_chars.induct)
  case (2 c cs p out)
  show ?case
  proof (cases "is_whitespace c")
    case True
    with 2 have IH: "redaction (cs @ more) = drop (length (out @ redaction p @ [c])) o' @ redaction (p' @ more)"
      "take (length (out @ redaction p @ [c])) o' = out @ redaction p @ [c]"
      by (auto simp: take_pending_redaction)
    obtain rest where o': "o' = out @ redaction p @ [c] @ rest"
      using IH(2) append_take_drop_id [of "length (out @ redaction p @ [c])" o'] by (metis append.assoc)
    have "redaction (p @ c # cs @ more) = redaction p @ c # redaction (cs @ more)"
      using True by (intro redaction_here whitespace_no_key)
    with IH(1) show ?thesis by (simp add: o')
  qed (use 2 in auto)
qed simp

text \<open>
  C24: Redaction does not depend on how the text is cut.  However a text is fed to the redactor in
  pieces, what comes out is the same as for the whole text: every maximal run of key
  characters is judged as a whole, and everything between the runs is kept.
\<close>

theorem chunks_do_not_matter:
  "feed [] chunks = redaction (concat chunks) \<and> redact (concat chunks) = redaction (concat chunks)"
proof -
  have push: "redaction (r @ chunk @ more) = fst (push r chunk) @ redaction (snd (push r chunk) @ more)" for r chunk more
    using push_chars_redaction [of chunk r "[]" "fst (push r chunk)" "snd (push r chunk)" more]
    by (simp add: push_def)
  have fed: "feed r cs = redaction (r @ concat cs)" for r cs
    by (induction cs arbitrary: r) (simp_all add: flush_def take_pending_redaction push case_prod_beta Let_def)
  moreover have "redact t = feed [] [t]" for t
    by (simp add: redact_def case_prod_beta Let_def)
  ultimately show ?thesis by simp
qed

section \<open>No token survives\<close>

text \<open>No maximal run of token characters has the length of a token; \<open>n\<close> of them came before.\<close>

fun token_free :: "nat \<Rightarrow> ustr \<Rightarrow> bool" where
  "token_free n [] = (n \<noteq> TOKEN_HEX_LEN)"
| "token_free n (c # cs) =
     (if is_token_hex c then token_free (Suc n) cs else n \<noteq> TOKEN_HEX_LEN \<and> token_free 0 cs)"

lemma hex_len_pos [simp]: "0 < TOKEN_HEX_LEN"
  by (simp add: TOKEN_HEX_LEN_def)

lemma token_free_here: "\<not> is_token_hex c \<Longrightarrow> token_free n (s @ c # t) \<longleftrightarrow> token_free n s \<and> token_free 0 t"
  by (induction n s rule: token_free.induct) auto

lemma token_free_run: "list_all is_token_hex r \<Longrightarrow> token_free n r \<longleftrightarrow> n + length r \<noteq> TOKEN_HEX_LEN"
  by (induction r arbitrary: n) auto

lemma token_free_MASK: "token_free 0 MASK"
  by code_simp

lemma token_free_after_MASK: "token_free 0 (MASK @ s) \<longleftrightarrow> token_free 0 s"
proof -
  have "MASK @ s = lit ''[redacted'' @ 93 # s" by (simp add: MASK_def lit_def)
  moreover have "token_free 0 (lit ''[redacted'')" by code_simp
  moreover have "\<not> is_token_hex 93" by code_simp
  ultimately show ?thesis by (simp only: token_free_here simp_thms)
qed

lemma token_free_others: "list_all (\<lambda>c. \<not> is_token_hex c) r \<Longrightarrow> token_free 0 (r @ s) \<longleftrightarrow> token_free 0 s"
  by (induction r) (auto simp: TOKEN_HEX_LEN_def)

lemma masked_runs: "token_free 0 (mask_token_runs s) \<and>
   (case s of [] \<Rightarrow> mask_token_runs s = [] | c # _ \<Rightarrow> is_token_hex c \<or> (\<exists>t. mask_token_runs s = c # t))"
proof (induction s rule: mask_token_runs.induct)
  case (1 s)
  show ?case
  proof (cases s)
    case Nil
    then show ?thesis by (simp add: mask_token_runs.simps)
  next
    case (Cons c cs)
    define r where "r = c # takeWhile (\<lambda>b. is_token_hex b = is_token_hex c) cs"
    define rest where "rest = dropWhile (\<lambda>b. is_token_hex b = is_token_hex c) cs"
    have m: "mask_token_runs s = (if is_token_hex c \<and> length r = TOKEN_HEX_LEN then MASK else r) @ mask_token_runs rest"
      unfolding Cons r_def rest_def by (subst mask_token_runs.simps) (simp add: Let_def)
    have IH: "token_free 0 (mask_token_runs rest)"
      "case rest of [] \<Rightarrow> mask_token_runs rest = [] | d # _ \<Rightarrow> is_token_hex d \<or> (\<exists>t. mask_token_runs rest = d # t)"
      using 1 [OF Cons r_def rest_def] by auto
    have next_run: "rest = [] \<or> is_token_hex (hd rest) \<noteq> is_token_hex c"
      using hd_dropWhile [of "\<lambda>b. is_token_hex b = is_token_hex c" cs] by (auto simp: rest_def)
    show ?thesis
    proof (cases "is_token_hex c")
      case False
      then have "list_all (\<lambda>b. \<not> is_token_hex b) r"
        by (auto simp: r_def list_all_iff dest: set_takeWhileD)
      with False IH m show ?thesis by (simp add: token_free_others Cons) (simp add: r_def)
    next
      case True
      then have hex: "list_all is_token_hex r"
        by (auto simp: r_def list_all_iff dest: set_takeWhileD)
      have "token_free 0 (mask_token_runs s)"
      proof (cases "length r = TOKEN_HEX_LEN")
        case masked: True
        with True m IH show ?thesis by (simp add: token_free_after_MASK)
      next
        case kept: False
        with hex have r: "token_free 0 r" by (simp add: token_free_run)
        show ?thesis
        proof (cases rest)
          case Nil
          with IH m kept r show ?thesis by simp
        next
          case (Cons d ds)
          with IH next_run True obtain t where t: "mask_token_runs rest = d # t" and d: "\<not> is_token_hex d" by auto
          with IH(1) have "token_free 0 t" by (simp add: TOKEN_HEX_LEN_def)
          with kept r d show ?thesis by (simp add: m t token_free_here)
        qed
      qed
      with True show ?thesis by (simp add: Cons)
    qed
  qed
qed

lemma token_free_flush: "token_free 0 (flush_segment s)"
  using masked_runs [of s] by (simp add: flush_segment_def token_free_MASK)

text \<open>The same, said of the places of a text: a token between two characters no token has, or at an edge.\<close>

definition token_char :: "uchar \<Rightarrow> bool" where
  "token_char c \<longleftrightarrow> c \<in> set (lit ''0123456789abcdef'')"

definition token_between :: "ustr \<Rightarrow> ustr \<Rightarrow> ustr \<Rightarrow> bool" where
  "token_between before token after \<longleftrightarrow>
     length token = 32 \<and> (\<forall>c \<in> set token. token_char c) \<and>
     (before \<noteq> [] \<longrightarrow> \<not> token_char (last before)) \<and> (after \<noteq> [] \<longrightarrow> \<not> token_char (hd after))"

lemma token_char_hex: "token_char c \<longleftrightarrow> is_token_hex c"
  unfolding token_char_def is_token_hex_def is_ascii_digit_def lit_def
  by (auto simp: le_less Suc_le_eq)

lemma token_free_apart:
  assumes free: "token_free 0 (before @ token @ after)"
  shows "\<not> token_between before token after"
proof
  assume t: "token_between before token after"
  have tail: "token_free 0 (token @ after)"
  proof (cases before rule: rev_cases)
    case (snoc before' c)
    then have "\<not> is_token_hex c" using t by (simp add: token_between_def token_char_hex)
    from token_free_here [OF this] free snoc show ?thesis by simp
  qed (use free in simp)
  have hex: "list_all is_token_hex token" and len: "length token = TOKEN_HEX_LEN"
    using t by (auto simp: token_between_def token_char_hex list_all_iff TOKEN_HEX_LEN_def)
  show False
  proof (cases after)
    case Nil
    with tail token_free_run [OF hex, of 0] len show ?thesis by simp
  next
    case (Cons c rest)
    then have "\<not> is_token_hex c" using t by (simp add: token_between_def token_char_hex)
    from token_free_here [OF this, of 0 token rest] tail Cons token_free_run [OF hex, of 0] len
    show ?thesis by simp
  qed
qed

text \<open>
  C23: No token stands alone in a redacted text.  Wherever a redacted text has 32 characters of
  \<open>0-9a-f\<close> in a row, the form of the tokens of the control API, the verdict tokens and the hook secrets,
  the character before or after them is of \<open>0-9a-f\<close> too: a token is masked between any words,
  quotation marks, colours or at an edge of the text.  A token glued to a further character of the
  alphabet, or to a second token, is part of a longer run and is not masked, as the code says.
\<close>

theorem redacted_text_has_no_token:
  "\<not> (\<exists>before token after. redact t = before @ token @ after \<and> token_between before token after)"
proof -
  have "token_free 0 (concat (map flush_segment (cut_keys p t)))" for p
  proof (induction p t rule: cut_keys.induct)
    case (2 p c cs)
    then show ?case
      using hex_key [of c] token_free_here [of c 0 "flush_segment p"]
      by (auto simp: flush_other token_free_flush)
  qed (simp add: token_free_flush)
  then have "token_free 0 (redaction t)" by (simp add: redaction_def)
  moreover have "redact t = redaction t"
    by (simp add: redact_def push_def flush_def case_prod_beta take_pending_redaction
        push_chars_redaction [of t "[]" "[]" "fst (push_chars t [] [])" "snd (push_chars t [] [])" "[]", simplified])
  ultimately have "token_free 0 (redact t)" by simp
  with token_free_apart show ?thesis by metis
qed

end
