(* ===== verification/Trigger_Core.thy ===== *)
theory Trigger_Core
  imports Calendar
begin

text \<open>
  The core of the triggers (\<open>src-tauri/src/queue/trigger_core.rs\<close>): cron expressions, the next minute one
  fires, and the limit of six runs in a rolling hour.  Instants are seconds; sums and products outside
  \<open>i64\<close>, which stop the program, are \<open>None\<close>.
\<close>

section \<open>Cron expressions\<close>

definition MAX_RUNS_PER_HOUR :: nat where "MAX_RUNS_PER_HOUR = 6"
definition WINDOW_SECS :: u64 where "WINDOW_SECS = 3600"
definition HORIZON_SECS :: int where "HORIZON_SECS = 9 * 366 * 86400"

record schedule =
  minutes :: u64
  hours :: u64
  days :: u64
  months :: u64
  weekdays :: u64
  days_star :: bool
  weekdays_star :: bool

definition field_err :: "ustr \<Rightarrow> ustr \<Rightarrow> ustr" where
  "field_err name m = lit ''Feld '' @ name @ lit '': '' @ m"

definition num :: "ustr \<Rightarrow> nat \<Rightarrow> nat \<Rightarrow> ustr \<Rightarrow> ustr + nat" where
  "num name lo hi s =
     (case parse_u32 s of
        None \<Rightarrow> Err (field_err name (quoted s @ lit '' ist keine Zahl''))
      | Some w \<Rightarrow>
          let n = unat w in
          if n < lo \<or> hi < n
          then Err (field_err name (decimal n @ lit '' liegt au'' @ [223] @ lit ''erhalb '' @
                 decimal lo @ [8211] @ decimal hi))
          else Ok n)"

text \<open>A part of a field: the range and the step.\<close>

definition part_step :: "ustr \<Rightarrow> ustr \<Rightarrow> ustr + ustr \<times> nat" where
  "part_step name part =
     (case split_once [47] part of
        Some (r, s) \<Rightarrow>
          (case opt_filter (\<lambda>n. 0 < n) (parse_u32 s) of
             Some n \<Rightarrow> Ok (r, unat n)
           | None \<Rightarrow> Err (field_err name (lit ''Schritt '' @ quoted s @ lit '' ist ung'' @ u_umlaut @ lit ''ltig'')))
      | None \<Rightarrow> Ok (part, 1))"

definition part_range :: "ustr \<Rightarrow> nat \<Rightarrow> nat \<Rightarrow> ustr \<Rightarrow> ustr \<Rightarrow> ustr + nat \<times> nat" where
  "part_range name lo hi part r =
     (if r = lit ''*'' then Ok (lo, hi)
      else
        case split_once [45] r of
          Some (a, b) \<Rightarrow> and_then (num name lo hi a) (\<lambda>a. and_then (num name lo hi b) (\<lambda>b. Ok (a, b)))
        | None \<Rightarrow>
            if \<not> str_contains part [47] then and_then (num name lo hi r) (\<lambda>a. Ok (a, a))
            else Err (field_err name (quoted part @ lit '' braucht * oder einen Bereich vor dem Schritt'')))"

text \<open>\<open>(a..=b).step_by(step)\<close>.\<close>

definition stepped :: "nat \<Rightarrow> nat \<Rightarrow> nat \<Rightarrow> nat list" where
  "stepped a b step = filter (\<lambda>v. (v - a) mod step = 0) [a..<Suc b]"

fun field_parts :: "ustr \<Rightarrow> nat \<Rightarrow> nat \<Rightarrow> ustr list \<Rightarrow> u64 \<Rightarrow> ustr + u64" where
  "field_parts name lo hi [] bits = Ok bits"
| "field_parts name lo hi (part # parts) bits =
     and_then (part_step name part) (\<lambda>(r, step).
     and_then (part_range name lo hi part r) (\<lambda>(a, b).
     if b < a then Err (field_err name (lit ''Bereich '' @ decimal a @ lit ''-'' @ decimal b @
                          lit '' l'' @ a_umlaut @ lit ''uft r'' @ u_umlaut @ lit ''ckw'' @ a_umlaut @ lit ''rts''))
     else field_parts name lo hi parts (or bits (fold (\<lambda>v m. or m (push_bit v 1)) (stepped a b step) 0))))"

definition cron_field :: "ustr \<Rightarrow> ustr \<Rightarrow> nat \<Rightarrow> nat \<Rightarrow> ustr + u64" where
  "cron_field t name lo hi = field_parts name lo hi (split_char 44 t) 0"

definition parse_schedule :: "ustr \<Rightarrow> ustr + schedule" where
  "parse_schedule expr =
     (let f = split_whitespace [] expr in
      if length f \<noteq> 5
      then Err (lit ''Ein Cron-Ausdruck braucht 5 Felder, gefunden: '' @ decimal (length f))
      else
        and_then (cron_field (f ! 4) (lit ''Wochentag'') 0 7) (\<lambda>w.
        let w = (if bit w 7 then and (or w 1) (not (push_bit 7 1)) else w) in
        and_then (cron_field (f ! 0) (lit ''Minute'') 0 59) (\<lambda>mi.
        and_then (cron_field (f ! 1) (lit ''Stunde'') 0 23) (\<lambda>h.
        and_then (cron_field (f ! 2) (lit ''Tag'') 1 31) (\<lambda>d.
        and_then (cron_field (f ! 3) (lit ''Monat'') 1 12) (\<lambda>mo.
        Ok \<lparr>minutes = mi, hours = h, days = d, months = mo, weekdays = w,
            days_star = starts_with (f ! 2) [42], weekdays_star = starts_with (f ! 4) [42]\<rparr>))))))"

text \<open>A field names only values of its range.\<close>

lemma num_range: "num name lo hi s = Ok n \<Longrightarrow> lo \<le> n \<and> n \<le> hi"
  by (auto simp: num_def Let_def split: option.splits if_splits)

lemma part_in_range: "part_range name lo hi part r = Ok (a, b) \<Longrightarrow> lo \<le> a \<and> b \<le> hi \<or> a = lo \<and> b = hi"
  by (auto simp: part_range_def and_then_Ok dest!: num_range split: option.splits if_splits)

lemma bit_of_value: "bit (push_bit v 1 :: u64) k \<longleftrightarrow> k = v \<and> k < 64"
  unfolding bit_push_bit_iff bit_1_iff possible_bit_def by (auto simp: exp_eq_zero_iff)

lemma bits_of_values:
  "bit (fold (\<lambda>v m. or m (push_bit v 1)) vs m) k \<longleftrightarrow> bit m k \<or> k \<in> set vs \<and> k < 64" for m :: u64
proof (induction vs arbitrary: m)
  case (Cons v vs)
  have "bit (or m (push_bit v 1)) k \<longleftrightarrow> bit m k \<or> k = v \<and> k < 64"
    by (simp only: bit_or_iff bit_of_value)
  then show ?case by (simp only: fold_Cons comp_apply Cons set_simps insert_iff) blast
qed simp

lemma cron_field_range: "cron_field t name lo hi = Ok m \<Longrightarrow> bit m k \<Longrightarrow> lo \<le> k \<and> k \<le> hi"
proof -
  have "bit m k \<longrightarrow> bit m0 k \<or> lo \<le> k \<and> k \<le> hi" if "field_parts name lo hi parts m0 = Ok m" for parts m0
    using that
  proof (induction parts arbitrary: m0)
    case (Cons part parts)
    then obtain r step a b where "part_range name lo hi part r = Ok (a, b)"
      and rest: "field_parts name lo hi parts (or m0 (fold (\<lambda>v m. or m (push_bit v 1)) (stepped a b step) 0)) = Ok m"
      by (auto simp: and_then_Ok split: if_splits)
    then have "lo \<le> a \<and> b \<le> hi" using part_in_range by blast
    with Cons.IH [OF rest] show ?case
      by (auto simp: bit_or_iff bits_of_values stepped_def simp del: push_bit_of_1)
  qed simp
  then show "cron_field t name lo hi = Ok m \<Longrightarrow> bit m k \<Longrightarrow> lo \<le> k \<and> k \<le> hi"
    by (fastforce simp: cron_field_def)
qed

section \<open>The next run\<close>

definition day_matches :: "schedule \<Rightarrow> int \<Rightarrow> int \<Rightarrow> bool" where
  "day_matches s day weekday =
     (let d = bit (days s) (nat day); w = bit (weekdays s) (nat weekday) in
      if days_star s \<or> weekdays_star s then d \<and> w else d \<or> w)"

definition civil :: "int \<Rightarrow> int \<times> int \<times> int" where
  "civil n =
     (let z = n + 719468;
          era = z div 146097; doe = z mod 146097;
          yoe = (doe - doe div 1460 + doe div 36524 - doe div 146096) div 365;
          doy = doe - (365 * yoe + yoe div 4 - yoe div 100);
          mp = (5 * doy + 2) div 153;
          m = (if mp < 10 then mp + 3 else mp - 9)
      in (yoe + era * 400 + (if m \<le> 2 then 1 else 0), m, doy - (153 * mp + 2) div 5 + 1))"

text \<open>The instant the search looks at after \<open>t\<close>, and \<open>None\<close> when \<open>t\<close> fires.\<close>

definition skip_to :: "schedule \<Rightarrow> int \<Rightarrow> int option" where
  "skip_to s t =
     (let day = t div 86400; (_, month, dmon) = civil day;
          hour = t mod 86400 div 3600; minute = t mod 3600 div 60; weekday = (day + 4) mod 7 in
      if \<not> bit (months s) (nat month) \<or> \<not> day_matches s dmon weekday then Some ((day + 1) * 86400)
      else if \<not> bit (hours s) (nat hour) then Some (t - minute * 60 + 3600)
      else if \<not> bit (minutes s) (nat minute) then Some (t + 60)
      else None)"

lemma skip_forward: "skip_to s t = Some u \<Longrightarrow> t < u"
proof -
  have "t < (t div 86400 + 1) * 86400" "t mod 3600 div 60 * 60 \<le> t mod 3600" "t mod 3600 < 3600"
    using div_mult_mod_eq [of t 86400] pos_mod_bound [of 86400 t] div_mult_mod_eq [of "t mod 3600" 60]
      pos_mod_sign [of 60 "t mod 3600"] pos_mod_bound [of 3600 t]
    by (simp_all add: distrib_right)
  then show "skip_to s t = Some u \<Longrightarrow> t < u"
    by (auto simp: skip_to_def Let_def split: prod.splits if_splits)
qed

function search :: "schedule \<Rightarrow> int \<Rightarrow> int \<Rightarrow> int option option" where
  "search s start t =
     (if HORIZON_SECS < t - start then Some None
      else
        case skip_to s t of
          None \<Rightarrow> Some (if 0 \<le> t then Some t else None)
        | Some u \<Rightarrow> if fits_i64 u then search s start u else None)"
  by pat_completeness auto
termination
  by (relation "measure (\<lambda>(s, start, t). nat (start + HORIZON_SECS + 1 - t))")
    (auto dest: skip_forward)

declare search.simps [simp del]

definition next_after :: "schedule \<Rightarrow> u64 \<Rightarrow> int option option" where
  "next_after s after = opt_then (checked ((uint after div 60 + 1) * 60)) (\<lambda>start. search s start start)"

section \<open>The limit\<close>

datatype trigger_decision = Erlaubt | Gedrosselt u64

type_synonym rate_limiter = "u64 list"

definition live_runs :: "rate_limiter \<Rightarrow> u64 \<Rightarrow> u64 list" where
  "live_runs runs now = filter (\<lambda>r. now < sat_add r WINDOW_SECS) runs"

definition test_run :: "rate_limiter \<Rightarrow> u64 \<Rightarrow> trigger_decision" where
  "test_run runs now =
     (let live = live_runs runs now in
      if MAX_RUNS_PER_HOUR \<le> length live
      then Gedrosselt (sat_add (live ! (length live - MAX_RUNS_PER_HOUR)) WINDOW_SECS)
      else Erlaubt)"

definition fire :: "rate_limiter \<Rightarrow> u64 \<Rightarrow> trigger_decision \<times> rate_limiter" where
  "fire runs now =
     (let d = test_run runs now in
      if d = Erlaubt then
        (let kept = live_runs runs now in (d, takeWhile (\<lambda>r. r \<le> now) kept @ [now] @ dropWhile (\<lambda>r. r \<le> now) kept))
      else (d, runs))"


section \<open>The calendar of the schedule\<close>

lemma civil_calendar: "civil n = civil_from_days n"
proof -
  define z where "z = n + 719468"
  have era: "truncating_div (if 0 \<le> z then z else z - 146096) 146097 = z div 146097"
    by (rule truncating_era)
  have rest: "z - z div 146097 * 146097 = z mod 146097"
    by (rule minus_div_mult_eq_mod)
  have year: "(if c then y + 1 else y) = y + (if c then 1 else 0)" for c and y :: int by simp
  show ?thesis
    unfolding civil_def civil_from_days_def Let_def z_def [symmetric] era rest year_of_era_def day_of_year_def year
    by (rule refl)
qed

text \<open>An instant fires when it is a full minute whose date and time the schedule names.\<close>

definition fires :: "schedule \<Rightarrow> int \<Rightarrow> bool" where
  "fires s t \<longleftrightarrow>
     t mod 60 = 0 \<and>
     (case civil_from_days (t div 86400) of (y, month, dmon) \<Rightarrow>
        bit (months s) (nat month) \<and> day_matches s dmon ((t div 86400 + 4) mod 7)) \<and>
     bit (hours s) (nat (t mod 86400 div 3600)) \<and> bit (minutes s) (nat (t mod 3600 div 60))"

lemma hour_of: "t mod 86400 div 3600 = t div 3600 mod 24" for t :: int
  using mod_mult2_eq' [of t 3600 24] by simp

lemma same_quotient: "0 < k \<Longrightarrow> t \<le> v \<Longrightarrow> v < (t div k + 1) * k \<Longrightarrow> v div k = t div k" for t v k :: int
proof -
  assume k: "0 < k" "t \<le> v" "v < (t div k + 1) * k"
  have "t div k \<le> v div k" using k by (simp add: zdiv_mono1)
  moreover have "v div k * k < (t div k + 1) * k"
    using k div_mult_mod_eq [of v k] pos_mod_sign [of k v] by linarith
  then have "v div k < t div k + 1" using k(1) by (simp only: mult_less_cancel_right)
  ultimately show ?thesis by simp
qed

lemma skip_None: "t mod 60 = 0 \<Longrightarrow> skip_to s t = None \<longleftrightarrow> fires s t"
  by (auto simp: skip_to_def fires_def civil_calendar Let_def split: prod.splits)

lemma skip_Some:
  assumes t: "t mod 60 = 0" and skip: "skip_to s t = Some u"
  shows "u mod 60 = 0" "u \<le> t + 86400" "{v. t \<le> v \<and> v < u \<and> fires s v} = {}"
proof -
  obtain y month dmon where date: "civil (t div 86400) = (y, month, dmon)" by (metis prod_cases3)
  have minute: "t mod 3600 div 60 * 60 = t mod 3600"
  proof -
    have "t mod 3600 mod 60 = 0" using t mod_mod_cancel [of 60 3600 t] by simp
    then show ?thesis using div_mult_mod_eq [of "t mod 3600" 60] by simp
  qed
  consider (day) "\<not> bit (months s) (nat month) \<or> \<not> day_matches s dmon ((t div 86400 + 4) mod 7)" "u = (t div 86400 + 1) * 86400"
    | (hour) "\<not> bit (hours s) (nat (t mod 86400 div 3600))" "u = t - t mod 3600 div 60 * 60 + 3600"
    | (minute) "\<not> bit (minutes s) (nat (t mod 3600 div 60))" "u = t + 60"
    using skip by (auto simp: skip_to_def date Let_def split: if_splits)
  then have "u mod 60 = 0 \<and> u \<le> t + 86400 \<and> {v. t \<le> v \<and> v < u \<and> fires s v} = {}"
  proof cases
    case day
    have "\<not> fires s v" if "t \<le> v" "v < u" for v
      using same_quotient [of 86400 t v] that day date by (auto simp: fires_def civil_calendar)
    moreover have "(t div 86400 + 1) * 86400 mod 60 = 0" by (simp add: mod_mult_right_eq [symmetric, of _ 86400])
    ultimately show ?thesis
      using day div_mult_mod_eq [of t 86400] pos_mod_sign [of 86400 t] by (auto simp: distrib_right)
  next
    case hour
    have u: "u = (t div 3600 + 1) * 3600"
      using hour(2) unfolding minute minus_mod_eq_div_mult by (simp add: distrib_right)
    have "\<not> fires s v" if "t \<le> v" "v < u" for v
      using same_quotient [of 3600 t v] that hour(1) u by (auto simp: fires_def hour_of)
    moreover have "(t div 3600 + 1) * 3600 mod 60 = 0" by (simp add: mod_mult_right_eq [symmetric, of _ 3600])
    ultimately show ?thesis
      using u div_mult_mod_eq [of t 3600] pos_mod_sign [of 3600 t] by (auto simp: distrib_right)
  next
    case minute
    have "v = t" if "t \<le> v" "v < t + 60" "v mod 60 = 0" for v
    proof -
      have "(v - t) mod 60 = 0" using t that(3) by (simp add: mod_diff_eq [symmetric])
      moreover have "0 \<le> v - t" "v - t < 60" using that by auto
      ultimately show ?thesis by simp
    qed
    note only = this
    have "\<not> fires s v" if v: "t \<le> v" "v < u" for v
    proof
      assume fires: "fires s v"
      then have "v = t" using only [OF v(1)] v(2) minute by (simp add: fires_def)
      with fires minute show False by (simp add: fires_def)
    qed
    with minute t show ?thesis by auto
  qed
  then show "u mod 60 = 0" "u \<le> t + 86400" "{v. t \<le> v \<and> v < u \<and> fires s v} = {}" by auto
qed

lemma search_first:
  assumes "t mod 60 = 0" "start \<le> t" "0 \<le> start" "start + HORIZON_SECS + 86400 < 2 ^ 63"
    "{v. start \<le> v \<and> v < t \<and> fires s v} = {}"
  shows "case search s start t of
      None \<Rightarrow> False
    | Some None \<Rightarrow> {v. start \<le> v \<and> v \<le> start + HORIZON_SECS \<and> fires s v} = {}
    | Some (Some u) \<Rightarrow> start \<le> u \<and> fires s u \<and> {v. start \<le> v \<and> v < u \<and> fires s v} = {}"
  using assms
proof (induction s start t rule: search.induct)
  case (1 s start t)
  show ?case
  proof (cases "HORIZON_SECS < t - start")
    case True
    then have "{v. start \<le> v \<and> v \<le> start + HORIZON_SECS \<and> fires s v} \<subseteq> {v. start \<le> v \<and> v < t \<and> fires s v}" by auto
    with 1 True show ?thesis by (subst search.simps) auto
  next
    case near: False
    show ?thesis
    proof (cases "skip_to s t")
      case None
      with 1 near skip_None [of t s] show ?thesis by (subst search.simps) auto
    next
      case (Some u)
      note u = skip_Some [OF "1.prems"(1) Some]
      have step: "t < u" using Some by (rule skip_forward)
      have fits: "fits_i64 u"
        using u(2) step near 1 by (simp add: fits_i64_def)
      have "{v. start \<le> v \<and> v < u \<and> fires s v} =
          {v. start \<le> v \<and> v < t \<and> fires s v} \<union> {v. t \<le> v \<and> v < u \<and> fires s v}"
        using step "1.prems"(2) by auto
      then have none: "{v. start \<le> v \<and> v < u \<and> fires s v} = {}"
        unfolding "1.prems"(5) u(3) by simp
      have "start \<le> u" using step "1.prems"(2) by simp
      from "1.IH" [OF near Some fits u(1) this "1.prems"(3,4) none]
      show ?thesis using near Some fits by (subst search.simps) simp
    qed
  qed
qed

text \<open>
  C29: The next run is the first minute the schedule names.  For every schedule and every instant up to
  \<open>2 ^ 62\<close>, \<open>next_after\<close> gives a later minute whose Gregorian date, weekday and time the schedule
  names, and no earlier one does; or it gives nothing, and then none does within the horizon.
\<close>

theorem next_run_is_the_first:
  "if uint after < 2 ^ 62 then
     (case next_after s after of
        None \<Rightarrow> False
      | Some None \<Rightarrow> {v. uint after < v \<and> v \<le> uint after + HORIZON_SECS \<and> fires s v} = {}
      | Some (Some t) \<Rightarrow> uint after < t \<and> fires s t \<and> {v. uint after < v \<and> v < t \<and> fires s v} = {})
   else True"
proof (cases "uint after < 2 ^ 62")
  case True
  define start where "start = (uint after div 60 + 1) * 60"
  have start: "uint after < start" "start \<le> uint after + 60" "start mod 60 = 0"
    using div_mult_mod_eq [of "uint after" 60] pos_mod_bound [of 60 "uint after"] pos_mod_sign [of 60 "uint after"]
    by (simp_all add: start_def distrib_right)
  have first: "start \<le> v" if "uint after < v" "fires s v" for v
  proof -
    have "v mod 60 = 0" using that(2) by (simp add: fires_def)
    then have "v = v div 60 * 60" using div_mult_mod_eq [of v 60] by simp
    moreover have "uint after div 60 < v div 60"
      using that(1) calculation zdiv_mono1 [of "uint after" v 60] div_mult_mod_eq [of "uint after" 60]
        pos_mod_sign [of 60 "uint after"] by (cases "uint after div 60 = v div 60") auto
    ultimately show ?thesis by (simp add: start_def)
  qed
  have nonneg: "0 \<le> start" using start(1) uint_ge_0 [of after] by linarith
  have fits: "fits_i64 start" "start + HORIZON_SECS + 86400 < 2 ^ 63"
    using True start nonneg by (simp_all add: fits_i64_def HORIZON_SECS_def)
  have window: "{v. uint after < v \<and> P v \<and> fires s v} = {v. start \<le> v \<and> P v \<and> fires s v}" for P
    using first start(1) by auto
  have inside: "{v. start \<le> v \<and> v \<le> uint after + HORIZON_SECS \<and> fires s v} \<subseteq> {v. start \<le> v \<and> v \<le> start + HORIZON_SECS \<and> fires s v}"
    using start by auto
  have "next_after s after = search s start start"
    using fits(1) by (simp add: next_after_def start_def checked_def)
  with True search_first [of start start s] start fits inside uint_ge_0 [of after] show ?thesis
    by (auto simp: window split: option.splits)
qed simp

section \<open>The rolling hour\<close>

lemma u64_bound: "unat w < 2 ^ 64" for w :: u64
proof -
  have "unat w < 2 ^ LENGTH(64)" by (rule unsigned_less)
  then show ?thesis by simp
qed

lemma sat_add_unat: "unat (sat_add a b) = min (unat a + unat b) (2 ^ 64 - 1)" for a b :: u64
proof (cases "unat a + unat b < 2 ^ 64")
  case True
  then have "unat (a + b) = unat a + unat b" by (simp add: unat_word_ariths)
  with True show ?thesis by (simp add: sat_add_def word_less_nat_alt)
next
  case False
  have "unat (a + b) = unat a + unat b - 2 ^ 64"
    using False u64_bound [of a] u64_bound [of b] by (simp add: unat_word_ariths le_mod_geq)
  then have "a + b < a" using u64_bound [of b] False by (simp add: word_less_nat_alt)
  with False show ?thesis by (simp add: sat_add_def unsigned_minus_1_eq_mask mask_eq_exp_minus_1)
qed


text \<open>\<open>lim\<close> is the instant at which a run frees its slot.\<close>

definition lim :: "u64 \<Rightarrow> nat" where
  "lim r = min (unat r + 3600) (2 ^ 64 - 1)"

lemma live_iff: "now < sat_add r WINDOW_SECS \<longleftrightarrow> unat now < lim r"
  by (simp add: word_less_nat_alt sat_add_unat lim_def WINDOW_SECS_def)

lemma lim_mono: "r \<le> r' \<Longrightarrow> lim r \<le> lim r'"
  by (simp add: lim_def word_le_nat_alt min_def)

lemma live_runs_iff: "live_runs runs now = filter (\<lambda>r. unat now < lim r) runs"
  by (simp add: live_runs_def live_iff)

text \<open>In a sorted list the live runs are the last ones.\<close>

lemma live_suffix:
  assumes "sorted runs"
  shows "live_runs runs now = drop (length runs - length (live_runs runs now)) runs"
  using assms
proof (induction runs)
  case (Cons r rs)
  have len: "length (live_runs rs now) \<le> length rs" by (simp add: live_runs_def)
  show ?case
  proof (cases "unat now < lim r")
    case True
    then have "\<forall>x\<in>set rs. unat now < lim x"
      using Cons.prems lim_mono by (auto dest: less_le_trans)
    with True have "live_runs (r # rs) now = r # rs" by (simp add: live_runs_iff)
    then show ?thesis by simp
  next
    case False
    with Cons len show ?thesis by (simp add: live_runs_iff Suc_diff_le)
  qed
qed (simp add: live_runs_def)

lemma fire_sorted:
  assumes "sorted runs"
  shows "sorted (snd (fire runs now))"
proof -
  have "sorted (takeWhile (\<lambda>r. r \<le> now) xs @ [now] @ dropWhile (\<lambda>r. r \<le> now) xs)" if "sorted xs" for xs
  proof -
    have "now < r" if member: "r \<in> set (dropWhile (\<lambda>r. r \<le> now) xs)" for r
    proof -
      obtain d ds where ds: "dropWhile (\<lambda>r. r \<le> now) xs = d # ds" using member by (cases "dropWhile (\<lambda>r. r \<le> now) xs") auto
      then have "\<not> d \<le> now" using hd_dropWhile [of "\<lambda>r. r \<le> now" xs] by simp
      moreover have "sorted (d # ds)" using sorted_dropWhile [OF \<open>sorted xs\<close>, of "\<lambda>r. r \<le> now"] ds by simp
      ultimately show ?thesis using member ds by auto
    qed
    with that show ?thesis
      by (auto simp: sorted_append sorted_takeWhile sorted_dropWhile less_imp_le dest: set_takeWhileD)
        (meson less_imp_le order_trans set_takeWhileD)
  qed
  with assms show ?thesis by (simp add: fire_def Let_def live_runs_def sorted_wrt_filter)
qed

definition after_fires :: "u64 list \<Rightarrow> rate_limiter" where
  "after_fires ts = run (\<lambda>runs now. snd (fire runs now)) [] ts"

lemma after_fires_simps [simp]:
  "after_fires [] = []"
  "after_fires (ts @ [t]) = snd (fire (after_fires ts) t)"
  by (simp_all add: after_fires_def run_append)

text \<open>The recorded runs stay in order, whatever the clock says.\<close>

interpretation limiter: machine "\<lambda>runs now. snd (fire runs now)" sorted
  by unfold_locales (rule fire_sorted)

lemma after_fires_sorted: "sorted (after_fires ts)"
  unfolding after_fires_def by (rule limiter.inv_run) simp

lemma allowed_iff: "test_run runs now = Erlaubt \<longleftrightarrow> length (live_runs runs now) < MAX_RUNS_PER_HOUR"
  by (simp add: test_run_def Let_def)

text \<open>With at least \<open>k\<close> runs recorded, fewer than \<open>k\<close> are live once the \<open>k\<close>-th from the end is not.\<close>

lemma slot_free:
  assumes sorted: "sorted runs" and k: "0 < k" "k \<le> length runs"
  shows "length (live_runs runs t) < k \<longleftrightarrow> lim (runs ! (length runs - k)) \<le> unat t"
proof -
  let ?m = "length runs - k"
  define x where "x = runs ! ?m"
  have split: "runs = take j runs @ drop j runs" for j by simp
  have cut: "live_runs runs t = live_runs (take j runs) t @ live_runs (drop j runs) t" for j
    by (simp only: live_runs_iff filter_append [symmetric] split [symmetric])
  show ?thesis
  proof
    assume due: "lim (runs ! ?m) \<le> unat t"
    have "\<not> unat t < lim (runs ! i)" if "i \<le> ?m" for i
      using that k due sorted_nth_mono [OF sorted, of i ?m] lim_mono [of "runs ! i" x] by (simp add: x_def)
    then have "live_runs (take (Suc ?m) runs) t = []"
      by (auto simp: live_runs_iff filter_empty_conv in_set_conv_nth)
    then have "length (live_runs runs t) \<le> length (drop (Suc ?m) runs)"
      unfolding cut [of "Suc ?m"] by (simp only: append_Nil live_runs_def length_filter_le)
    with k show "length (live_runs runs t) < k" by simp
  next
    assume few: "length (live_runs runs t) < k"
    show "lim (runs ! ?m) \<le> unat t"
    proof (rule ccontr)
      assume early: "\<not> lim (runs ! ?m) \<le> unat t"
      have "unat t < lim (runs ! i)" if "?m \<le> i" "i < length runs" for i
        using that early sorted_nth_mono [OF sorted, of ?m i] lim_mono [of x "runs ! i"] by (simp add: x_def)
      then have "live_runs (drop ?m runs) t = drop ?m runs"
        by (auto simp: live_runs_iff filter_id_conv in_set_conv_nth)
      with cut [of ?m] have "length (drop ?m runs) \<le> length (live_runs runs t)" by simp
      with few k show False by simp
    qed
  qed
qed

text \<open>
  The instant named to a throttled trigger is the exact one.  After any runs, in whatever order
  their clock readings came, a test run that is throttled names the first instant at which a run is free
  again: at every instant, a run is allowed if and only if that instant has come.
\<close>

theorem throttled_until_the_named_instant:
  "case test_run (after_fires ts) now of
     Erlaubt \<Rightarrow> True
   | Gedrosselt free \<Rightarrow> now < free \<and> (test_run (after_fires ts) t = Erlaubt \<longleftrightarrow> free \<le> t)"
proof (cases "test_run (after_fires ts) now")
  case (Gedrosselt free)
  let ?runs = "after_fires ts" and ?k = MAX_RUNS_PER_HOUR
  have sorted: "sorted ?runs" by (rule after_fires_sorted)
  define live where "live = live_runs ?runs now"
  have enough: "?k \<le> length live" and free: "free = sat_add (live ! (length live - ?k)) WINDOW_SECS"
    using Gedrosselt by (auto simp: test_run_def live_def Let_def split: if_splits)
  have len: "length live \<le> length ?runs" by (simp add: live_def live_runs_def)
  have k: "0 < ?k" "?k \<le> length ?runs" using enough len by (simp_all add: MAX_RUNS_PER_HOUR_def)
  have "live ! (length live - ?k) = ?runs ! (length ?runs - length live + (length live - ?k))"
    using live_suffix [OF sorted, of now] len by (metis live_def nth_drop diff_le_self)
  also have "length ?runs - length live + (length live - ?k) = length ?runs - ?k" using enough len by simp
  finally have x: "live ! (length live - ?k) = ?runs ! (length ?runs - ?k)" .
  then have freeing: "unat free = lim (?runs ! (length ?runs - ?k))"
    by (simp add: free sat_add_unat lim_def WINDOW_SECS_def)
  have "live ! (length live - ?k) \<in> set live" using enough k by (intro nth_mem) simp
  then have "unat now < unat free" using freeing x by (simp add: live_def live_runs_iff)
  with Gedrosselt freeing slot_free [OF sorted k, of t] show ?thesis
    by (simp add: allowed_iff word_less_nat_alt word_le_nat_alt)
qed simp


text \<open>The runs a sequence of firings is granted.\<close>

fun granted :: "rate_limiter \<Rightarrow> u64 list \<Rightarrow> u64 list" where
  "granted runs [] = []"
| "granted runs (t # ts) =
     (case fire runs t of (d, runs') \<Rightarrow> (if d = Erlaubt then [t] else []) @ granted runs' ts)"

lemma granted_snoc:
  "granted [] (ts @ [t]) = granted [] ts @ (if test_run (after_fires ts) t = Erlaubt then [t] else [])"
proof -
  have "granted runs (ts @ [t]) =
    granted runs ts @ (if test_run (run (\<lambda>runs now. snd (fire runs now)) runs ts) t = Erlaubt then [t] else [])" for runs
    by (induction ts arbitrary: runs) (simp_all add: fire_def Let_def case_prod_beta)
  then show ?thesis by (simp add: after_fires_def)
qed

lemma runs_of_times: "set (after_fires ts) \<subseteq> set ts"
proof (induction ts rule: rev_induct)
  case (snoc t ts)
  have "set (snd (fire runs t)) \<subseteq> insert t (set runs)" for runs
    by (auto simp: fire_def Let_def live_runs_def dest: set_takeWhileD set_dropWhileD)
  with snoc show ?case by fastforce
qed simp

text \<open>While the clock does not go back, the live runs are the granted ones that have not freed their slot.\<close>

lemma live_granted:
  "sorted (ts @ [now]) \<Longrightarrow> live_runs (after_fires ts) now = filter (\<lambda>r. unat now < lim r) (granted [] ts)"
proof (induction ts arbitrary: now rule: rev_induct)
  case (snoc t ts)
  let ?R = "after_fires ts"
  have t: "t \<le> now" "sorted (ts @ [t])" "sorted (ts @ [now])"
    using snoc.prems by (auto simp: sorted_append)
  then have "unat t < lim r" if "unat now < lim r" for r
    using that by (simp add: word_le_nat_alt)
  then have again: "filter (\<lambda>r. unat now < lim r \<and> unat t < lim r) ?R = filter (\<lambda>r. unat now < lim r) ?R"
    by (metis (lifting))
  have before: "\<forall>r\<in>set (live_runs ?R t). r \<le> t"
    using runs_of_times [of ts] t(2) by (auto simp: live_runs_def sorted_append)
  then have "takeWhile (\<lambda>r. r \<le> t) (live_runs ?R t) = live_runs ?R t"
    "dropWhile (\<lambda>r. r \<le> t) (live_runs ?R t) = []"
    by (simp_all add: takeWhile_eq_all_conv dropWhile_eq_Nil_conv)
  then have fired: "after_fires (ts @ [t]) = (if test_run ?R t = Erlaubt then live_runs ?R t @ [t] else ?R)"
    by (simp add: fire_def Let_def)
  have "live_runs (live_runs ?R t) now = live_runs ?R now"
    using again by (simp add: live_runs_iff conj_commute)
  then have "live_runs (after_fires (ts @ [t])) now =
    live_runs ?R now @ filter (\<lambda>r. unat now < lim r) (if test_run ?R t = Erlaubt then [t] else [])"
    unfolding fired by (simp add: live_runs_iff)
  with snoc.IH [OF t(3)] show ?case by (simp add: granted_snoc)
qed (simp add: live_runs_def)

definition in_hour :: "u64 \<Rightarrow> u64 \<Rightarrow> bool" where
  "in_hour a x \<longleftrightarrow> unat a \<le> unat x \<and> unat x < unat a + 3600"

text \<open>
  C28: Six runs an hour.  If the clock does not go back, the runs granted to a trigger fall so that no
  hour, wherever it begins, holds more than six of them.
\<close>

theorem six_runs_an_hour:
  "if sorted ts \<and> unat a + 3600 < 2 ^ 64
   then length (filter (in_hour a) (granted [] ts)) \<le> MAX_RUNS_PER_HOUR else True"
proof (cases "sorted ts \<and> unat a + 3600 < 2 ^ 64")
  case True
  then have a: "unat a + 3600 < 2 ^ 64" and "sorted ts" by auto
  from \<open>sorted ts\<close> have "length (filter (in_hour a) (granted [] ts)) \<le> MAX_RUNS_PER_HOUR"
  proof (induction ts rule: rev_induct)
    case (snoc t ts)
    let ?G = "granted [] ts"
    have IH: "length (filter (in_hour a) ?G) \<le> MAX_RUNS_PER_HOUR" using snoc by (simp add: sorted_append)
    show ?case
    proof (cases "test_run (after_fires ts) t = Erlaubt \<and> in_hour a t")
      case True
      have "filter (in_hour a) ?G = filter (in_hour a) (filter (\<lambda>r. unat t < lim r) ?G)"
        using True a by (auto simp: in_hour_def lim_def filter_filter intro!: filter_cong)
      then have "length (filter (in_hour a) ?G) = length (filter (in_hour a) (filter (\<lambda>r. unat t < lim r) ?G))"
        by (rule arg_cong)
      also have "\<dots> \<le> length (live_runs (after_fires ts) t)"
        unfolding live_granted [OF snoc.prems] by (rule length_filter_le)
      finally have "length (filter (in_hour a) ?G) \<le> length (live_runs (after_fires ts) t)" .
      with True show ?thesis by (simp add: granted_snoc allowed_iff)
    qed (use IH in \<open>auto simp: granted_snoc\<close>)
  qed simp
  with True show ?thesis by simp
next
  case False
  then show ?thesis by (simp only: if_False)
qed

end
