(* ===== verification/Webhook_Signature.thy ===== *)
theory Webhook_Signature
  imports Rust_Text
begin

text \<open>
  The check of webhook signatures (\<open>src-tauri/src/queue/webhook_sig.rs\<close>): the key ring with its overlap of
  a day, the verdict on a signature, and the book of deliveries that were seen.  The digest of the
  crate \<open>sha2\<close> is a parameter.
\<close>

section \<open>The signature\<close>

type_synonym bytes = "u8 list"

definition BLOCK :: nat where "BLOCK = 64"
definition MAC_LEN :: nat where "MAC_LEN = 32"
definition SIGNATURE_PREFIX :: ustr where "SIGNATURE_PREFIX = lit ''sha256=''"
definition UEBERLAPPUNG_SEKUNDEN :: u64 where "UEBERLAPPUNG_SEKUNDEN = 24 * 60 * 60"

definition hmac_sha256 :: "(bytes \<Rightarrow> bytes) \<Rightarrow> bytes \<Rightarrow> bytes \<Rightarrow> bytes" where
  "hmac_sha256 sha key msg =
     (let used = (if BLOCK < length key then sha key else key);
          block = used @ replicate (BLOCK - length used) 0
      in sha (map (xor 0x5c) block @ sha (map (xor 0x36) block @ msg)))"

definition gleich :: "bytes \<Rightarrow> bytes \<Rightarrow> bool" where
  "gleich a b \<longleftrightarrow> length a = length b \<and> foldl (\<lambda>acc (x, y). or acc (xor x y)) 0 (zip a b) = 0"

text \<open>\<open>char::from(byte).to_digit(16)\<close>.\<close>

definition to_digit :: "u8 \<Rightarrow> u8 option" where
  "to_digit b =
     (if 48 \<le> b \<and> b \<le> 57 then Some (b - 48)
      else if 97 \<le> b \<and> b \<le> 102 then Some (b - 87)
      else if 65 \<le> b \<and> b \<le> 70 then Some (b - 55) else None)"

fun hex_bytes :: "bytes \<Rightarrow> bytes option" where
  "hex_bytes (h # l # rest) =
     opt_then (to_digit h) (\<lambda>a. opt_then (to_digit l) (\<lambda>b.
       map_option (Cons (or (push_bit 4 a) b)) (hex_bytes rest)))"
| "hex_bytes _ = Some []"

definition parse_header :: "ustr \<Rightarrow> bytes option" where
  "parse_header h =
     opt_then (strip_prefix SIGNATURE_PREFIX h) (\<lambda>rest.
     if length (as_bytes rest) \<noteq> MAC_LEN * 2 then None else hex_bytes (as_bytes rest))"

section \<open>The key ring\<close>

datatype schluessel = Aktuell | Vorher
datatype grund = SignaturFehlt | SignaturPasstNicht | AlterSchluesselAbgelaufen | FormatUngueltig
datatype pruefung = SignaturGueltig schluessel | Abgelehnt grund

primrec grund_text :: "grund \<Rightarrow> ustr" where
  "grund_text SignaturFehlt = lit ''Signatur fehlt''"
| "grund_text SignaturPasstNicht = lit ''Signatur passt nicht''"
| "grund_text AlterSchluesselAbgelaufen = lit ''alter Schl'' @ u_umlaut @ lit ''ssel abgelaufen''"
| "grund_text FormatUngueltig = lit ''Format ung'' @ u_umlaut @ lit ''ltig''"

record schluesselring =
  aktuell :: bytes
  vorher :: "(bytes \<times> u64) option"

definition neu :: "bytes \<Rightarrow> schluesselring" where
  "neu key = \<lparr>aktuell = key, vorher = None\<rparr>"

definition rotiere :: "bytes \<Rightarrow> u64 \<Rightarrow> schluesselring \<Rightarrow> schluesselring" where
  "rotiere key jetzt r =
     r\<lparr>aktuell := key, vorher := Some (aktuell r, sat_add jetzt UEBERLAPPUNG_SEKUNDEN)\<rparr>"

definition passt :: "(bytes \<Rightarrow> bytes) \<Rightarrow> bytes \<Rightarrow> bytes \<Rightarrow> bytes \<Rightarrow> bool" where
  "passt sha given body key \<longleftrightarrow> key \<noteq> [] \<and> gleich (hmac_sha256 sha key body) given"

definition pruefe :: "(bytes \<Rightarrow> bytes) \<Rightarrow> schluesselring \<Rightarrow> ustr option \<Rightarrow> bytes \<Rightarrow> u64 \<Rightarrow> pruefung" where
  "pruefe sha r h body jetzt =
     (case h of
        None \<Rightarrow> Abgelehnt SignaturFehlt
      | Some h \<Rightarrow>
          (case parse_header h of
             None \<Rightarrow> Abgelehnt FormatUngueltig
           | Some given \<Rightarrow>
               let now = passt sha given body (aktuell r);
                   before = map_option (\<lambda>(key, bis). (passt sha given body key, bis)) (vorher r) in
               if now then SignaturGueltig Aktuell
               else
                 (case before of
                    Some (True, bis) \<Rightarrow>
                      if jetzt < bis then SignaturGueltig Vorher else Abgelehnt AlterSchluesselAbgelaufen
                  | _ \<Rightarrow> Abgelehnt SignaturPasstNicht)))"

section \<open>The book of deliveries\<close>

definition ZUSTELLUNGEN_MAX :: nat where "ZUSTELLUNGEN_MAX = 1024"
definition MAX_ID_LEN :: nat where "MAX_ID_LEN = 128"

record zustellungsbuch =
  reihenfolge :: "ustr list"
  menge :: "ustr set"

definition leeres_buch :: zustellungsbuch where
  "leeres_buch = \<lparr>reihenfolge = [], menge = {}\<rparr>"

definition schon_gesehen :: "ustr \<Rightarrow> zustellungsbuch \<Rightarrow> bool \<times> zustellungsbuch" where
  "schon_gesehen key b =
     (if MAX_ID_LEN < byte_len key then (True, b)
      else if key \<in> menge b then (True, b)
      else
        let b = (if ZUSTELLUNGEN_MAX \<le> length (reihenfolge b) then
                   (case reihenfolge b of
                      [] \<Rightarrow> b
                    | alt # rest \<Rightarrow> b\<lparr>reihenfolge := rest, menge := menge b - {alt}\<rparr>)
                 else b)
        in (False, b\<lparr>reihenfolge := reihenfolge b @ [key], menge := insert key (menge b)\<rparr>))"

section \<open>What a valid signature proves\<close>

lemma gleich_iff: "gleich a b \<longleftrightarrow> a = b"
proof -
  have same: "xor x y = 0 \<longleftrightarrow> x = y" for x y :: u8
  proof
    assume "xor x y = 0"
    moreover have "xor x (xor x y) = y" by (simp flip: xor.assoc)
    ultimately show "x = y" by simp
  qed simp
  have acc: "foldl (\<lambda>acc (x, y). or acc (xor x y)) c ps = 0 \<longleftrightarrow> c = 0 \<and> list_all (\<lambda>(x, y). x = y) ps"
    for c :: u8 and ps :: "(u8 \<times> u8) list"
  proof (induction ps arbitrary: c)
    case (Cons p ps)
    obtain x y where p: "p = (x, y)" by (cases p)
    show ?case by (simp only: foldl_Cons p prod.case Cons or_eq_0_iff same list_all_Cons_iff) blast
  qed simp
  have "list_all (\<lambda>(x, y). x = y) (zip a b) \<longleftrightarrow> a = b" if "length a = length b"
    using that by (induction a b rule: list_induct2) auto
  then show ?thesis by (auto simp: gleich_def acc)
qed

text \<open>The keys of a ring with the instants until which they count, from its history: the first key and
  the rotations.\<close>

definition ring_of :: "bytes \<Rightarrow> (bytes \<times> u64) list \<Rightarrow> schluesselring" where
  "ring_of first rotations = run (\<lambda>r (key, jetzt). rotiere key jetzt r) (neu first) rotations"

definition newest_key :: "bytes \<Rightarrow> (bytes \<times> u64) list \<Rightarrow> bytes" where
  "newest_key first rotations = last (first # map fst rotations)"

definition signed :: "(bytes \<Rightarrow> bytes) \<Rightarrow> bytes \<Rightarrow> ustr option \<Rightarrow> bytes \<Rightarrow> bool" where
  "signed sha key h body \<longleftrightarrow> key \<noteq> [] \<and> opt_then h parse_header = Some (hmac_sha256 sha key body)"

lemma signed_None [simp]: "\<not> signed sha key None body"
  by (simp add: signed_def)

lemma signed_unread: "parse_header t = None \<Longrightarrow> \<not> signed sha key (Some t) body"
  by (simp add: signed_def)

lemma pruefe_signed:
  "pruefe sha r (Some t) body jetzt =
     (if parse_header t = None then Abgelehnt FormatUngueltig
      else if signed sha (aktuell r) (Some t) body then SignaturGueltig Aktuell
      else
        (case vorher r of
           None \<Rightarrow> Abgelehnt SignaturPasstNicht
         | Some (key, bis) \<Rightarrow>
             if \<not> signed sha key (Some t) body then Abgelehnt SignaturPasstNicht
             else if jetzt < bis then SignaturGueltig Vorher else Abgelehnt AlterSchluesselAbgelaufen))"
proof (cases "parse_header t")
  case (Some given)
  then have "passt sha given body key \<longleftrightarrow> signed sha key (Some t) body" for key
    by (auto simp: passt_def gleich_iff signed_def)
  with Some show ?thesis by (simp add: pruefe_def Let_def split: option.split bool.split)
qed (simp add: pruefe_def)

lemma pruefe_None [simp]: "pruefe sha r None body jetzt = Abgelehnt SignaturFehlt"
  by (simp add: pruefe_def)

text \<open>The key before the last rotation, with its end.\<close>

definition previous_key :: "bytes \<Rightarrow> (bytes \<times> u64) list \<Rightarrow> (bytes \<times> u64) option" where
  "previous_key first rotations =
     (if rotations = [] then None
      else Some (newest_key first (butlast rotations),
                 sat_add (snd (last rotations)) UEBERLAPPUNG_SEKUNDEN))"

lemma ring_of_history:
  "ring_of first rotations = \<lparr>aktuell = newest_key first rotations, vorher = previous_key first rotations\<rparr>"
proof (induction rotations rule: rev_induct)
  case (snoc kt rotations)
  obtain k t where "kt = (k, t)" by (cases kt)
  with snoc show ?case
    by (simp add: ring_of_def run_append rotiere_def previous_key_def newest_key_def)
qed (simp add: ring_of_def neu_def previous_key_def newest_key_def)

text \<open>
  What the ring accepts.  Over every history of rotations, a request is accepted exactly when its
  header carries the code of its body under the newest key, or under the key just before it and less than a
  day (24 hours) after the rotation; an empty key never counts, and no older key does.
\<close>

theorem accepted_signatures_are_current:
  "(case pruefe sha (ring_of first rotations) h body jetzt of
      SignaturGueltig Aktuell \<Rightarrow> signed sha (newest_key first rotations) h body
    | SignaturGueltig Vorher \<Rightarrow>
        \<not> signed sha (newest_key first rotations) h body \<and>
        (case previous_key first rotations of
           None \<Rightarrow> False | Some (key, bis) \<Rightarrow> signed sha key h body \<and> jetzt < bis)
    | Abgelehnt g \<Rightarrow>
        \<not> signed sha (newest_key first rotations) h body \<and>
        (case previous_key first rotations of
           None \<Rightarrow> g \<noteq> AlterSchluesselAbgelaufen
         | Some (key, bis) \<Rightarrow>
             (if signed sha key h body then g = AlterSchluesselAbgelaufen \<and> bis \<le> jetzt
              else g \<noteq> AlterSchluesselAbgelaufen)))"
  by (cases h; cases "previous_key first rotations")
    (auto simp: pruefe_signed ring_of_history signed_None signed_unread split: if_splits prod.splits)

section \<open>Replays\<close>

text \<open>The deliveries that were let through.\<close>

fun passed :: "zustellungsbuch \<Rightarrow> ustr list \<Rightarrow> ustr list" where
  "passed b [] = []"
| "passed b (key # keys) =
     (case schon_gesehen key b of (seen, b') \<Rightarrow> (if seen then [] else [key]) @ passed b' keys)"

definition buch_nach :: "ustr list \<Rightarrow> zustellungsbuch" where
  "buch_nach keys = run (\<lambda>b key. snd (schon_gesehen key b)) leeres_buch keys"

definition newest :: "ustr list \<Rightarrow> ustr list" where
  "newest keys = drop (length keys - ZUSTELLUNGEN_MAX) keys"

lemma passed_snoc:
  "passed leeres_buch (keys @ [key]) =
   passed leeres_buch keys @ (if fst (schon_gesehen key (buch_nach keys)) then [] else [key])"
proof -
  have "passed b (keys @ [key]) =
    passed b keys @ (if fst (schon_gesehen key (run (\<lambda>b key. snd (schon_gesehen key b)) b keys)) then [] else [key])" for b
    by (induction keys arbitrary: b) (simp_all add: case_prod_beta)
  then show ?thesis by (simp add: buch_nach_def)
qed

lemma newest_snoc:
  "newest (ks @ [k]) = (if ZUSTELLUNGEN_MAX \<le> length (newest ks) then tl (newest ks) else newest ks) @ [k]"
proof (cases "ZUSTELLUNGEN_MAX \<le> length ks")
  case True
  then have "Suc (length ks) - ZUSTELLUNGEN_MAX = Suc (length ks - ZUSTELLUNGEN_MAX)" by simp
  with True show ?thesis by (simp add: newest_def tl_drop drop_Suc ZUSTELLUNGEN_MAX_def)
next
  case False
  then show ?thesis by (simp add: newest_def ZUSTELLUNGEN_MAX_def)
qed

lemma set_tl_distinct: "distinct xs \<Longrightarrow> xs \<noteq> [] \<Longrightarrow> set (tl xs) = set xs - {hd xs}"
  by (cases xs) auto

lemma book_keeps_newest:
  "reihenfolge (buch_nach keys) = newest (passed leeres_buch keys) \<and>
   menge (buch_nach keys) = set (reihenfolge (buch_nach keys)) \<and> distinct (reihenfolge (buch_nach keys))"
proof (induction keys rule: rev_induct)
  case Nil
  then show ?case by (simp add: buch_nach_def leeres_buch_def newest_def)
next
  case (snoc key keys)
  let ?b = "buch_nach keys"
  have next_book: "buch_nach (keys @ [key]) = snd (schon_gesehen key ?b)"
    by (simp add: buch_nach_def run_append)
  show ?case
  proof (cases "MAX_ID_LEN < byte_len key \<or> key \<in> menge ?b")
    case True
    then show ?thesis using snoc by (auto simp: next_book passed_snoc schon_gesehen_def)
  next
    case False
    let ?full = "ZUSTELLUNGEN_MAX \<le> length (reihenfolge ?b)"
    have order: "newest (passed leeres_buch keys @ [key]) =
      (if ?full then tl (reihenfolge ?b) else reihenfolge ?b) @ [key]"
      using snoc by (simp add: newest_snoc)
    have next_order: "reihenfolge (snd (schon_gesehen key ?b)) = (if ?full then tl (reihenfolge ?b) else reihenfolge ?b) @ [key]"
      and next_set: "menge (snd (schon_gesehen key ?b)) =
        insert key (if ?full \<and> reihenfolge ?b \<noteq> [] then menge ?b - {hd (reihenfolge ?b)} else menge ?b)"
      using False by (cases "reihenfolge ?b"; simp add: schon_gesehen_def Let_def)+
    have tl_set: "reihenfolge ?b \<noteq> [] \<Longrightarrow> set (tl (reihenfolge ?b)) = set (reihenfolge ?b) - {hd (reihenfolge ?b)}"
      using snoc by (intro set_tl_distinct) blast+
    have "menge (snd (schon_gesehen key ?b)) = set (reihenfolge (snd (schon_gesehen key ?b)))"
    proof (cases "?full \<and> reihenfolge ?b \<noteq> []")
      case True
      with tl_set snoc show ?thesis by (simp add: next_order next_set)
    next
      case False
      with snoc show ?thesis by (auto simp: next_order next_set)
    qed
    moreover have "distinct (reihenfolge (snd (schon_gesehen key ?b)))"
    proof -
      have "key \<notin> set (reihenfolge ?b)" using snoc False by blast
      moreover from this have "key \<notin> set (tl (reihenfolge ?b))" using tl_set by (cases "reihenfolge ?b") auto
      moreover have "distinct (reihenfolge ?b)" using snoc by blast
      ultimately show ?thesis by (simp add: next_order distinct_tl)
    qed
    moreover have "passed leeres_buch (keys @ [key]) = passed leeres_buch keys @ [key]"
      using False by (simp add: passed_snoc schon_gesehen_def Let_def)
    ultimately show ?thesis by (simp add: next_book next_order order)
  qed
qed

text \<open>
  C27: A delivery is let through once.  Over every sequence of deliveries, one is stopped exactly when its
  name is too long or is among the last 1024 that were let through; the book never holds more than
  1024 names, all different, and its set and its order agree.
\<close>

theorem replays_are_stopped:
  "fst (schon_gesehen key (buch_nach keys)) =
     (MAX_ID_LEN < byte_len key \<or> key \<in> set (newest (passed leeres_buch keys))) \<and>
   length (reihenfolge (buch_nach keys)) \<le> ZUSTELLUNGEN_MAX \<and>
   distinct (reihenfolge (buch_nach keys)) \<and> menge (buch_nach keys) = set (reihenfolge (buch_nach keys))"
  using book_keeps_newest [of keys]
  by (auto simp: schon_gesehen_def Let_def newest_def)

end
