(* ===== verification/Persona_Rights.thy ===== *)
theory Persona_Rights
  imports Rust_Text
begin

text \<open>
  The gate for changes of a persona's rights (\<open>src-tauri/src/roles/persona_rights.rs\<close>), and what holds over
  every history of requests that went through it.
\<close>

section \<open>Rights\<close>

datatype recht = Lesen | Schreiben | Pushen | PrOeffnen | Mergen | Netz | Server | Geheimnisse

text \<open>The derived order is the order of declaration.\<close>

primrec recht_rank :: "recht \<Rightarrow> nat" where
  "recht_rank Lesen = 0"
| "recht_rank Schreiben = 1"
| "recht_rank Pushen = 2"
| "recht_rank PrOeffnen = 3"
| "recht_rank Mergen = 4"
| "recht_rank Netz = 5"
| "recht_rank Server = 6"
| "recht_rank Geheimnisse = 7"

lemma recht_rank_eq: "recht_rank a = recht_rank b \<longleftrightarrow> a = b"
  by (cases a; cases b) simp_all

instantiation recht :: linorder
begin

definition less_eq_recht :: "recht \<Rightarrow> recht \<Rightarrow> bool" where
  "less_eq_recht a b \<longleftrightarrow> recht_rank a \<le> recht_rank b"

definition less_recht :: "recht \<Rightarrow> recht \<Rightarrow> bool" where
  "less_recht a b \<longleftrightarrow> recht_rank a < recht_rank b"

instance
  by standard (auto simp: less_eq_recht_def less_recht_def recht_rank_eq [symmetric])

end

primrec recht_name :: "recht \<Rightarrow> ustr" where
  "recht_name Lesen = lit ''Lesen''"
| "recht_name Schreiben = lit ''Schreiben''"
| "recht_name Pushen = lit ''Pushen''"
| "recht_name PrOeffnen = lit ''PR '' @ o_umlaut @ lit ''ffnen''"
| "recht_name Mergen = lit ''Mergen''"
| "recht_name Netz = lit ''Netz''"
| "recht_name Server = lit ''Server''"
| "recht_name Geheimnisse = lit ''Geheimnisse''"

record abteilung =
  ab_name :: ustr
  obergrenze :: "recht set"

record persona =
  pe_id :: ustr
  ist_agent :: bool
  rechte :: "recht set"

datatype quelle = Nutzer | Agent ustr

datatype ablehnung =
  UeberAbteilung recht ustr
  | AgentErweitertSichSelbst
  | AgentVergibtRechte
  | MergenNurUeberMergify
  | AgentPersonaHaeltMergen

primrec ablehnung_text :: "ablehnung \<Rightarrow> ustr" where
  "ablehnung_text (UeberAbteilung r a) =
     lit ''Recht '' @ recht_name r @ lit '' liegt '' @ u_umlaut @ lit ''ber der Abteilung '' @ a"
| "ablehnung_text AgentErweitertSichSelbst = lit ''Ein Agent erweitert seine eigenen Rechte nie.''"
| "ablehnung_text AgentVergibtRechte = lit ''Ein Agent vergibt keine Rechte.''"
| "ablehnung_text MergenNurUeberMergify =
     lit ''Mergen wird einer Agent-Persona nie gew'' @ a_umlaut @ lit ''hrt; gemergt wird nur '' @ u_umlaut @ lit ''ber Mergify.''"
| "ablehnung_text AgentPersonaHaeltMergen =
     lit ''Agent-Persona h'' @ a_umlaut @ lit ''lt noch Mergen '' @ [8211] @ lit '' zuerst entfernen''"

definition check_change :: "quelle \<Rightarrow> persona \<Rightarrow> recht set \<Rightarrow> abteilung \<Rightarrow> ablehnung + unit" where
  "check_change anfrager p neue ab =
     (if neue = rechte p then Ok ()
      else
        let nur_entfernt = neue \<subseteq> rechte p in
        case anfrager of
          Agent i \<Rightarrow>
            if nur_entfernt then Ok ()
            else if i = pe_id p then Err AgentErweitertSichSelbst else Err AgentVergibtRechte
        | Nutzer \<Rightarrow>
            if ist_agent p \<and> Mergen \<in> neue then
              Err (if Mergen \<in> rechte p then AgentPersonaHaeltMergen else MergenNurUeberMergify)
            else if nur_entfernt then Ok ()
            else if neue - obergrenze ab \<noteq> {} then Err (UeberAbteilung (Min (neue - obergrenze ab)) (ab_name ab))
            else Ok ())"

section \<open>Histories\<close>

text \<open>A request asks for a set of rights inside a department; a granted one is stored.\<close>

type_synonym rights_request = "quelle \<times> recht set \<times> abteilung"

definition after_request :: "persona \<Rightarrow> rights_request \<Rightarrow> persona" where
  "after_request p = (\<lambda>(who, neue, ab).
     case check_change who p neue ab of Ok _ \<Rightarrow> p\<lparr>rechte := neue\<rparr> | Err _ \<Rightarrow> p)"

text \<open>What a request may add: an agent's nothing, a user's what the department allows.\<close>

definition may_add :: "rights_request \<Rightarrow> recht set" where
  "may_add = (\<lambda>(who, neue, ab). if who = Nutzer then neue \<inter> obergrenze ab else {})"

lemma check_change_Ok:
  "is_ok (check_change who p neue ab) \<longleftrightarrow>
     neue = rechte p \<or> neue \<subseteq> rechte p \<and> (who \<noteq> Nutzer \<or> \<not> (ist_agent p \<and> Mergen \<in> neue)) \<or>
     who = Nutzer \<and> neue \<subseteq> obergrenze ab \<and> \<not> (ist_agent p \<and> Mergen \<in> neue)"
  by (cases who) (auto simp: check_change_def Let_def)

lemma after_request_simps [simp]: "pe_id (after_request p r) = pe_id p" "ist_agent (after_request p r) = ist_agent p"
  by (cases r; simp add: after_request_def split: sum.split)+

lemma after_request_rights:
  "rechte (after_request p (who, neue, ab)) = (if is_ok (check_change who p neue ab) then neue else rechte p)"
  by (simp add: after_request_def is_ok_def split: sum.split)

text \<open>An agent without the right to merge stays without it.\<close>

definition without_merge :: "persona \<Rightarrow> bool" where
  "without_merge p \<longleftrightarrow> ist_agent p \<and> Mergen \<notin> rechte p"

interpretation merge_right: latched_machine after_request "\<lambda>_. True" without_merge
  by unfold_locales (auto simp: without_merge_def after_request_rights check_change_Ok split: if_splits)

text \<open>
  C26: No right appears by itself.  Over every history of requests, whoever makes them, a persona holds only
  rights it held at the start or that a user asked for inside the ceiling of the department named; a
  history of agents alone never adds one; and a persona that is an agent never comes to hold the
  right to merge.
\<close>

theorem rights_only_widen_by_users:
  "rechte (run after_request p rs) \<subseteq> rechte p \<union> (\<Union>r\<in>set rs. may_add r) \<and>
   \<not> (ist_agent p \<and> Mergen \<notin> rechte p \<and> Mergen \<in> rechte (run after_request p rs))"
proof -
  have "rechte (run after_request p rs) \<subseteq> rechte p \<union> (\<Union>r\<in>set rs. may_add r)"
  proof (induction rs arbitrary: p)
    case (Cons r rs)
    obtain who neue ab where r: "r = (who, neue, ab)" by (cases r)
    have "rechte (after_request p r) \<subseteq> rechte p \<union> may_add r"
      by (auto simp: r after_request_rights check_change_Ok may_add_def split: if_splits)
    with Cons.IH [of "after_request p r"] show ?case by auto
  qed simp
  with merge_right.latch_run [of p rs] show ?thesis by (auto simp: without_merge_def)
qed

text \<open>
  The gate in full.  A request passes exactly when it changes nothing, when it only removes rights and does
  not leave the right to merge with an agent at a user's hand, or when a user stays inside the
  ceiling and grants no agent the right to merge; a refusal for the ceiling names the first right above it.
\<close>

theorem gate_is_exact:
  "is_ok (check_change who p neue ab) =
     (neue = rechte p \<or> neue \<subseteq> rechte p \<and> (who \<noteq> Nutzer \<or> \<not> (ist_agent p \<and> Mergen \<in> neue)) \<or>
      who = Nutzer \<and> neue \<subseteq> obergrenze ab \<and> \<not> (ist_agent p \<and> Mergen \<in> neue)) \<and>
   (case check_change who p neue ab of
      Err (UeberAbteilung r a) \<Rightarrow> r \<in> neue - obergrenze ab \<and> a = ab_name ab \<and> {s \<in> neue - obergrenze ab. s < r} = {}
    | _ \<Rightarrow> True)"
proof -
  have fin: "finite S" for S :: "recht set"
    by (rule finite_subset [of _ "set [Lesen, Schreiben, Pushen, PrOeffnen, Mergen, Netz, Server, Geheimnisse]"])
      (use recht.exhaust in auto)
  have "Min S \<in> S \<and> {s \<in> S. s < Min S} = {}" if "S \<noteq> {}" for S :: "recht set"
    using that fin [of S] by (auto simp: not_less [symmetric] dest: Min_le [rotated])
  note least = this
  have "r \<in> neue - obergrenze ab \<and> a = ab_name ab \<and> {s \<in> neue - obergrenze ab. s < r} = {}"
    if refused: "check_change who p neue ab = Err (UeberAbteilung r a)" for r a
  proof -
    from refused have "neue - obergrenze ab \<noteq> {}" "r = Min (neue - obergrenze ab)" "a = ab_name ab"
      by (simp_all add: check_change_def Let_def split: if_splits quelle.splits)
    with least [of "neue - obergrenze ab"] show ?thesis by simp
  qed
  then show ?thesis
    by (auto simp: check_change_Ok split: sum.split ablehnung.split)
qed

end
