(* ===== verification/Spec2Isabelle.thy ===== *)
theory Spec2Isabelle
  imports Recovery_Driver Core_Register Bug_State Queue_Order Watchdog Rewind_Plan Submit_Guard Failover_Rules Capture_Protocol Development_Policy Development_Plan
    Review_Gates Status_Runs Status_Startup Merge_Machine Github_Runs Worker_Tree Run_Credentials Calendar Api_Access
    Native_Command Redaction Trigger_Core Webhook_Signature Persona_Rights Agent_Environment
begin

text \<open>
  ProjectA is a desktop application that runs coding agents in terminals and integrates
  their work.  Its Rust core keeps the decisions that must not go wrong in modules without
  input or output; the development models those modules, as they are, and the operations that
  run them.

  \<^bold>\<open>Updates\<close> (\<open>src-tauri/src/delivery_recovery.rs\<close> and its directory).  An update that may
  be interrupted at any point is a journal.  \<open>Update_Journal\<close> has the journal record, one function
  for each method of \<open>UpdateJournal\<close>, the derived action and \<open>validate_loaded\<close>;
  \<open>Journal_Store\<close> has the file with its lock, compare-and-swap and atomic replacement
  (\<open>JournalStore\<close>) and the handle \<open>DurableJournal\<close>; \<open>Recovery_Driver\<close> has \<open>driver.rs\<close>,
  \<open>startup.rs\<close>, the gate of \<open>install.rs\<close> and the exit codes of \<open>installer.rs\<close>.  The lemmas show the
  check to be an invariant, refine the methods to a phase machine, make handles
  that race on the file act like one journal, and show over every history of driver steps,
  crashes and faults that the installer runs at most once and a restore only on demand.

  \<^bold>\<open>Requests\<close> (\<open>core_register.rs\<close>, theory \<open>Core_Register\<close>).  The register's state is its list
  of requests, revisions and journal; the lemmas make the journal the specification
  and the rest functions of it.

  \<^bold>\<open>Bugs\<close> (\<open>testgate/bug_state.rs\<close>, theory \<open>Bug_State\<close>).  The state machine of a bug under repair; which
  commits were red is read off the history of calls, not off the list the code keeps.

  \<^bold>\<open>Dispatch\<close> (\<open>workers/lane_guard.rs\<close> and \<open>workers/queue_order.rs\<close>, theories \<open>Lane_Guard\<close> and
  \<open>Queue_Order\<close>).  Which packages and queued tasks may start beside those that run; the
  lemmas compare the searches with declarative reachability.

  \<^bold>\<open>Terminals\<close> (\<open>submit_guard.rs\<close>, theories \<open>Dialog_Text\<close> and \<open>Submit_Guard\<close>).  The machine that
  types a task into a terminal program.  Its \<open>step\<close> is cut at the early returns of the code's
  \<open>step\<close>; a protocol of phases is its specification.

  \<^bold>\<open>Supervision\<close> (\<open>stuck/watchdog.rs\<close>, theory \<open>Watchdog\<close>, and \<open>worktree/rewind_plan.rs\<close>, theory
  \<open>Rewind_Plan\<close>).  Notices about runs that stand still or ended, and the plan back to a checkpoint.

  \<^bold>\<open>Providers\<close> (\<open>providers.rs\<close> and \<open>budget/failover_rules.rs\<close>, theory \<open>Failover_Rules\<close>).  The
  walk along the failover edges and the sentences its rules are written in.

  \<^bold>\<open>Capture\<close> (\<open>process_capture/protocol.rs\<close>, theory \<open>Capture_Protocol\<close>).  The control
  protocol that carries a launch to the capture process; the codec, the digest and the pipe are
  parameters.

  \<^bold>\<open>Development policy\<close> (\<open>development_policy.rs\<close> and its directory, \<open>store/approval_grants.rs\<close>,
  theories \<open>Development_Policy\<close> and \<open>Review_Gates\<close>).  Loading a policy, choosing a route,
  escalation, the identity of a model, foreign reviewers and approvals that permit one
  execution; the SQL statements of the approvals are operations on a table.

  \<^bold>\<open>Plans\<close> (\<open>development_plan.rs\<close>, theory \<open>Development_Plan\<close>).  The plan document, version one
  and two, and the check of its dependency graph.

  \<^bold>\<open>Status\<close> (\<open>status.rs\<close>, theories \<open>Status_Signals\<close>, \<open>Status_Engine\<close>, \<open>Status_Startup\<close> and
  \<open>Status_Runs\<close>).  Reasons, verdicts and the reading of terminal output; the state of a worker and
  every operation of the engine; what lets a startup block go; and what holds over every
  run of calls: the interface shows what the board would say, and the automatic gates follow the
  columns.  A call changes and publishes in one step; \<open>late_publication_shows_the_past\<close> shows what two
  threads that publish outside the lock can leave behind.

  \<^bold>\<open>Merging\<close> (\<open>readiness.rs\<close>, \<open>gh.rs\<close> and the merge in \<open>workers.rs\<close>, theories \<open>Merge_Readiness\<close>,
  \<open>Github\<close>, \<open>Github_Runs\<close> and \<open>Merge_Machine\<close>).  What makes a candidate ready, the programs
  \<open>git\<close> and \<open>gh\<close>, and the way of one worker from its tests to its merge.  Tests, reviews and merges
  act on the rows of the worker, any statement and any program may fail at any point, and two
  history variables record the evidence gathered and the steps taken; the lemmas show over every such
  run that a merge acts on fresh evidence and is recorded once.  The theory \<open>Github_Runs\<close>
  records the runs of the programs and composes the sweep over GitHub with the engine of the board.

  \<^bold>\<open>The control API\<close> (\<open>api.rs\<close> and its directory).  \<open>Json_Values\<close> and \<open>Api_Requests\<close> have the
  values, the reading of a request, the helpers that take fields out of a body and the table of error
  statuses; \<open>Worker_Tree\<close> the hierarchy of a project (\<open>build_tree\<close>), whose rings are the loops of the
  transitive closure of the names; \<open>Run_Credentials\<close> the credentials of
  running agents (\<open>api/agent_access.rs\<close>) with their files; \<open>Api_Routes\<close> every route, in the order the
  code tries them (\<open>api/hq_routes.rs\<close>, \<open>api/d4_*.rs\<close>, \<open>route\<close>); and \<open>Api_Access\<close> the gates of \<open>handle\<close>,
  the routes of a run and the planning writes of a coordinator (\<open>api/planning_access.rs\<close>).  A handler
  maps the calls made so far to an answer and the calls after it, and what the application answers to a
  call is a parameter that sees all calls before it.  A small calculus (\<open>calls_rules\<close>) follows the
  calls of a handler through its combinators; the locale \<open>operator_policy\<close> proves with it what any
  operator's request may cause, and \<open>Api_Access\<close> interprets it on the table of the four kinds of caller.

  \<^bold>\<open>Dates\<close> (\<open>digest.rs\<close>, theory \<open>Calendar\<close>).  Days and civil dates on 64-bit numbers with every
  checked operation, proved to be the Gregorian calendar.

  \<^bold>\<open>Launching and environment\<close>.  \<open>Native_Command\<close> (\<open>process_capture/windows_command.rs\<close>) quotes
  a command line and an environment block into 16-bit units; its lemmas read both back by the rules of the
  receiving program.  \<open>Agent_Environment\<close> (\<open>pty/agent_env.rs\<close> and the modes of \<open>profiles.rs\<close>) is the list of
  variables an agent inherits, with the lock on the credentials of the user.

  \<^bold>\<open>Redaction\<close> (\<open>redact.rs\<close>, theory \<open>Redaction\<close>).  The masking of secrets in a text and in a stream of
  chunks; the two agree for every way of cutting the text, and no token of the application survives.

  \<^bold>\<open>Triggers\<close> (\<open>queue/trigger_core.rs\<close> and \<open>queue/webhook_sig.rs\<close>, theories \<open>Trigger_Core\<close> and
  \<open>Webhook_Signature\<close>).  Cron schedules with the search for the next run, judged by the calendar of
  \<open>Calendar\<close>; the limit on runs in an hour; signatures of webhooks, rotation of keys and the book of
  deliveries.  The digest is a parameter.

  \<^bold>\<open>Rights of personas\<close> (\<open>roles/persona_rights.rs\<close>, theory \<open>Persona_Rights\<close>).  The gate every change
  of rights passes, and what a history of requests can reach through it.

  \<^bold>\<open>Conventions\<close>.  \<open>Prelude\<close> reads \<open>Result\<close> as a sum, checked and saturating arithmetic as word
  operations, and holds the locales \<open>machine\<close>, \<open>latched_machine\<close> and \<open>ranked_machine\<close> of a component
  driven by calls, which every stateful component interprets on its own operations.
  \<open>Rust_Text\<close> has Rust strings as lists of scalar values.  Counters and revisions keep
  their width; lengths and positions are natural numbers, instants and durations
  integers of milliseconds.  A panic, and a call that never returns, are values of their own: \<open>None\<close>, or \<open>Panic\<close>
  where the readers of a plan index a row.  What is not under \<open>src/\<close> (the file system, \<open>serde_json\<close>, git) is a
  parameter with its documented behaviour as a hypothesis.

  \<^bold>\<open>Bounds\<close>.  The start-up loop runs four rounds, the code's own bound, and
  \<open>startup_bound_is_enough\<close> shows that no more are ever used.  Twelve due ticks end a
  delivery because the rank of the guard grows with each and is twelve only at the end.
  The searches of the dispatcher recurse with a measure, the saturation of a plan's graph
  with the number of packages left.  The receiver of a capture launch reads for one round
  more than there are bytes, which \<open>prepare_loop_returns\<close> shows to suffice.  The wait for \<open>gh\<close> looks
  3601 times at intervals of 50 milliseconds, which passes the limit of 180 seconds
  (\<open>creation_returns\<close>); then it is killed, and waiting for it returns.  The search for
  the next run recurs on the seconds left of the
  code's own horizon.  No other fuel is used.

  \<^bold>\<open>Limits of single claims\<close>.  A merge asks for a test only where the project has a test command.  The lock of
  \<open>strict\<close> covers the named variables, not the files under the home directory.  Redaction masks a token that
  stands alone, not one glued to further characters of its alphabet.  A core or rule that owns a setting
  may reject, confirm and roll back in every risk class.  Seams held by running agents can keep the whole queue
  waiting.  The short runs of \<open>git\<close> and \<open>gh\<close> are taken to return.

  \<^bold>\<open>Not modelled\<close>.  The SQL text of the stores (their statements are changes of rows where a
  component needs them), terminals and processes, the sockets of the control API, the command line and the user
  interface: their meaning is in libraries the sources only call.
\<close>

end
